(* ===== verification/Ordered_Map.thy ===== *)
theory Ordered_Map
  imports Prelude
begin

section \<open>Ordered maps: the BTreeMap and BTreeSet of the program\<close>

text \<open>
  A \<^verbatim>\<open>BTreeMap<K, V>\<close> is an association list whose keys strictly increase, so that iterating
  the map is traversing the list; a \<^verbatim>\<open>BTreeSet<K>\<close> is a strictly increasing list. The
  interface the components rely on is the locale \<open>ordered_store\<close>: what a lookup returns after
  an insertion, that insertion keeps the order, and that two stores with the same lookups are
  the same store, which is what makes every file the program writes canonical.
\<close>

type_synonym ('k, 'v) btree = "('k \<times> 'v) list"

definition bt_inv :: "('k::linorder, 'v) btree \<Rightarrow> bool" where
  "bt_inv m \<longleftrightarrow> sorted_wrt (<) (map fst m)"

text \<open>\<^verbatim>\<open>BTreeMap::insert\<close>: a present key keeps its place and takes the new value.\<close>

fun bt_insert :: "'k::linorder \<Rightarrow> 'v \<Rightarrow> ('k, 'v) btree \<Rightarrow> ('k, 'v) btree" where
  "bt_insert k v [] = [(k, v)]"
| "bt_insert k v ((a, b) # m) =
     (if k < a then (k, v) # (a, b) # m
      else if k = a then (k, v) # m
      else (a, b) # bt_insert k v m)"

abbreviation bt_get :: "('k, 'v) btree \<Rightarrow> 'k \<Rightarrow> 'v option" where
  "bt_get \<equiv> map_of"

abbreviation bt_keys :: "('k, 'v) btree \<Rightarrow> 'k list" where
  "bt_keys m \<equiv> map fst m"

text \<open>Collecting an iterator of pairs into a map, and an iterator into a set.\<close>

definition bt_extend :: "('k::linorder \<times> 'v) list \<Rightarrow> ('k, 'v) btree \<Rightarrow> ('k, 'v) btree" where
  "bt_extend kvs m = fold (\<lambda>(k, v). bt_insert k v) kvs m"

definition bt_of_list :: "('k::linorder \<times> 'v) list \<Rightarrow> ('k, 'v) btree" where
  "bt_of_list kvs = bt_extend kvs []"

definition bs_of_list :: "'a::linorder list \<Rightarrow> 'a list" where
  "bs_of_list xs = sort (remdups xs)"

subsection \<open>The interface\<close>

locale map_store =
  fixes empty :: 'm
    and update :: "'k \<Rightarrow> 'v \<Rightarrow> 'm \<Rightarrow> 'm"
    and lookup :: "'m \<Rightarrow> 'k \<Rightarrow> 'v option"
    and invar :: "'m \<Rightarrow> bool"
  assumes lookup_empty: "lookup empty k = None"
    and lookup_update:
      "invar m \<Longrightarrow> lookup (update k v m) k' = (if k' = k then Some v else lookup m k')"
    and invar_empty: "invar empty"
    and invar_update: "invar m \<Longrightarrow> invar (update k v m)"
begin

lemma invar_fold: "invar m \<Longrightarrow> invar (fold (\<lambda>(k, v). update k v) kvs m)"
  by (induction kvs arbitrary: m) (auto simp: invar_update)

lemma lookup_fold:
  "invar m \<Longrightarrow> lookup (fold (\<lambda>(k, v). update k v) kvs m) k =
     (case map_of (rev kvs) k of Some v \<Rightarrow> Some v | None \<Rightarrow> lookup m k)"
proof (induction kvs arbitrary: m)
  case (Cons kv kvs)
  obtain a b where kv: "kv = (a, b)" by (cases kv)
  from Cons show ?case
    by (auto simp: kv invar_update lookup_update map_add_def split: option.splits)
qed simp

lemma lookup_fold_distinct:
  assumes "distinct (map fst kvs)"
  shows "lookup (fold (\<lambda>(k, v). update k v) kvs empty) k = map_of kvs k"
proof -
  from assms have "map_of (rev kvs) = map_of kvs"
    by (metis distinct_rev map_of_inject_set rev_map set_rev)
  then show ?thesis
    by (simp add: lookup_fold [OF invar_empty] lookup_empty split: option.splits)
qed

end

locale ordered_store = map_store empty update lookup invar
  for empty :: 'm
    and update :: "'k::linorder \<Rightarrow> 'v \<Rightarrow> 'm \<Rightarrow> 'm"
    and lookup :: "'m \<Rightarrow> 'k \<Rightarrow> 'v option"
    and invar :: "'m \<Rightarrow> bool" +
  fixes entries :: "'m \<Rightarrow> ('k \<times> 'v) list"
  assumes entries_sorted: "invar m \<Longrightarrow> sorted_wrt (<) (map fst (entries m))"
    and lookup_entries: "invar m \<Longrightarrow> lookup m = map_of (entries m)"
    and entries_inject: "invar m \<Longrightarrow> invar n \<Longrightarrow> entries m = entries n \<Longrightarrow> m = n"
begin

lemma entries_distinct: "invar m \<Longrightarrow> distinct (map fst (entries m))"
  using entries_sorted strict_sorted_iff by blast

lemma set_entries_iff: "invar m \<Longrightarrow> (k, v) \<in> set (entries m) \<longleftrightarrow> lookup m k = Some v"
  by (simp add: lookup_entries entries_distinct)

lemma store_ext:
  assumes m: "invar m" and n: "invar n" and eq: "\<And>k. lookup m k = lookup n k"
  shows "m = n"
proof (rule entries_inject [OF m n])
  have set_eq: "set (entries m) = set (entries n)"
    using eq by (auto simp: set_entries_iff m n)
  have "map fst (entries m) = map fst (entries n)"
    using entries_sorted [OF m] entries_sorted [OF n] set_eq
    by (metis list.set_map sorted_list_of_set.idem_if_sorted_distinct strict_sorted_iff)
  then show "entries m = entries n"
    using set_eq entries_distinct [OF m]
    by (metis distinct_map inj_on_Un_image_eq_iff inj_on_map_eq_map list.set_map sup.idem)
qed

text \<open>The order in which distinct keys are inserted does not matter.\<close>

lemma fold_order_irrelevant:
  assumes "distinct (map fst kvs)" "distinct (map fst kvs')" "set kvs = set kvs'"
  shows "fold (\<lambda>(k, v). update k v) kvs empty = fold (\<lambda>(k, v). update k v) kvs' empty"
proof (rule store_ext)
  fix k
  from assms have "map_of kvs = map_of kvs'" by (metis map_of_inject_set)
  then show "lookup (fold (\<lambda>(k, v). update k v) kvs empty) k =
      lookup (fold (\<lambda>(k, v). update k v) kvs' empty) k"
    using assms by (simp add: lookup_fold_distinct)
qed (simp_all add: invar_fold invar_empty)

end

subsection \<open>Association lists in key order implement it\<close>

lemma bt_get_insert: "bt_get (bt_insert k v m) k' = (if k' = k then Some v else bt_get m k')"
  by (induction k v m rule: bt_insert.induct) auto

lemma fst_set_bt_insert: "fst ` set (bt_insert k v m) = insert k (fst ` set m)"
  by (induction k v m rule: bt_insert.induct) auto

lemma bt_inv_insert: "bt_inv m \<Longrightarrow> bt_inv (bt_insert k v m)"
proof (induction k v m rule: bt_insert.induct)
  case (2 k v a b m)
  then show ?case
    using fst_set_bt_insert [of k v m] by (auto simp: bt_inv_def)
qed (simp add: bt_inv_def)

interpretation bt: ordered_store "[]" bt_insert bt_get bt_inv "\<lambda>m. m"
  by unfold_locales (simp_all add: bt_get_insert bt_inv_insert, simp_all add: bt_inv_def)

lemma bt_inv_Nil [simp]: "bt_inv []"
  by (rule bt.invar_empty)

lemma bt_inv_extend [simp]: "bt_inv m \<Longrightarrow> bt_inv (bt_extend kvs m)"
  by (simp add: bt_extend_def bt.invar_fold)

lemma bt_inv_of_list [simp]: "bt_inv (bt_of_list kvs)"
  by (simp add: bt_of_list_def)

lemma bt_distinct: "bt_inv m \<Longrightarrow> distinct (bt_keys m)"
  by (rule bt.entries_distinct)

lemma bt_get_eq_Some [map_simps]: "bt_inv m \<Longrightarrow> bt_get m k = Some v \<longleftrightarrow> (k, v) \<in> set m"
  by (simp add: bt.set_entries_iff)

lemma bt_get_of_list: "distinct (map fst kvs) \<Longrightarrow> bt_get (bt_of_list kvs) = map_of kvs"
  by (rule ext) (simp add: bt_of_list_def bt_extend_def bt.lookup_fold_distinct)

lemma bt_get_extend:
  "bt_inv m \<Longrightarrow> bt_get (bt_extend kvs m) k =
     (case map_of (rev kvs) k of Some v \<Rightarrow> Some v | None \<Rightarrow> bt_get m k)"
  by (simp add: bt_extend_def bt.lookup_fold)

lemma bt_of_list_sorted:
  assumes "bt_inv m"
  shows "bt_of_list m = m"
  by (rule bt.store_ext) (simp_all add: assms bt_get_of_list bt_distinct)

lemma bt_of_list_perm:
  "distinct (map fst kvs) \<Longrightarrow> distinct (map fst kvs') \<Longrightarrow> set kvs = set kvs' \<Longrightarrow>
     bt_of_list kvs = bt_of_list kvs'"
  unfolding bt_of_list_def bt_extend_def by (rule bt.fold_order_irrelevant)

lemma bt_get_filter_key:
  "bt_get (filter (\<lambda>(k, v). P k) m) q = (if P q then bt_get m q else None)"
  by (induction m) auto

lemma bt_inv_filter: "bt_inv m \<Longrightarrow> bt_inv (filter P m)"
  unfolding bt_inv_def by (induction m) auto

lemma bt_inv_map_values:
  "bt_inv m \<Longrightarrow> (\<And>kv. fst (f kv) = fst kv) \<Longrightarrow> bt_inv (map f m)"
  by (simp add: bt_inv_def comp_def)

lemma set_bs_of_list [simp]: "set (bs_of_list xs) = set xs"
  by (simp add: bs_of_list_def)

lemma sorted_bs_of_list [simp]: "sorted_wrt (<) (bs_of_list xs)"
  by (simp add: bs_of_list_def strict_sorted_iff)

lemma bs_of_list_cong: "set xs = set ys \<Longrightarrow> bs_of_list xs = bs_of_list ys"
  by (metis set_bs_of_list sorted_bs_of_list strict_sorted_equal)

lemma bs_of_list_sorted: "sorted_wrt (<) xs \<Longrightarrow> bs_of_list xs = xs"
  by (metis set_bs_of_list sorted_bs_of_list strict_sorted_equal)

lemma bt_extend_Nil [simp]: "bt_extend [] m = m"
  by (simp add: bt_extend_def)

lemma bt_extend_append: "bt_extend (xs @ ys) m = bt_extend ys (bt_extend xs m)"
  by (simp add: bt_extend_def)

text \<open>Inserting pairs that agree on each key: the map holds exactly those pairs.\<close>

lemma bt_get_of_list_functional:
  assumes "\<And>k v v'. (k, v) \<in> set kvs \<Longrightarrow> (k, v') \<in> set kvs \<Longrightarrow> v = v'"
  shows "bt_get (bt_of_list kvs) k = Some v \<longleftrightarrow> (k, v) \<in> set kvs"
proof -
  have "bt_get (bt_of_list kvs) k = map_of (rev kvs) k"
    by (simp add: bt_of_list_def bt_get_extend split: option.splits)
  moreover have "map_of (rev kvs) k = Some v \<longleftrightarrow> (k, v) \<in> set kvs"
  proof
    show "map_of (rev kvs) k = Some v \<Longrightarrow> (k, v) \<in> set kvs"
      by (metis map_of_SomeD set_rev)
    assume kv: "(k, v) \<in> set kvs"
    then obtain w where w: "map_of (rev kvs) k = Some w"
      by (metis set_rev weak_map_of_SomeI)
    then have "(k, w) \<in> set kvs" by (metis map_of_SomeD set_rev)
    with kv w assms show "map_of (rev kvs) k = Some v" by blast
  qed
  ultimately show ?thesis by simp
qed

end
