(* ===== verification/Crates.thy ===== *)
theory Crates
  imports Ordered_Map
begin

section \<open>Third-party functions as parameters\<close>

text \<open>
  The program hashes with the \<^verbatim>\<open>sha2\<close> crate and prints digests with the \<^verbatim>\<open>hex\<close> crate. Neither
  is part of the repository, so every definition that uses them takes the record \<open>crates\<close> of
  these functions, and the theorems that need their documented behaviour assume \<open>crates_ok\<close>:
  a SHA-256 digest has 32 bytes, encoding writes two lowercase hexadecimal digits per byte, high
  nibble first, and decoding inverts encoding.

  A streaming hasher (\<^verbatim>\<open>Sha256::new\<close>, \<^verbatim>\<open>update\<close>, \<^verbatim>\<open>finalize\<close>) is the list of the bytes fed so far;
  \<^verbatim>\<open>finalize\<close> applies \<open>sha256\<close> to it.
\<close>

record crates =
  sha256 :: "bytes \<Rightarrow> bytes"
  hex_encode :: "bytes \<Rightarrow> string"
  hex_decode :: "string \<Rightarrow> bytes option"

definition hex_digit :: "u8 \<Rightarrow> u8" where
  "hex_digit n = (if n < 10 then 48 + n else 87 + n)"

definition hex_pair :: "u8 \<Rightarrow> bytes" where
  "hex_pair b = [hex_digit (drop_bit 4 b), hex_digit (and b 15)]"

definition crates_ok :: "crates \<Rightarrow> bool" where
  "crates_ok c \<longleftrightarrow>
     (\<forall>bs. length (sha256 c bs) = 32) \<and>
     (\<forall>bs. as_bytes (hex_encode c bs) = concat (map hex_pair bs)) \<and>
     (\<forall>bs. hex_decode c (hex_encode c bs) = Some bs)"

lemma crates_ok_length [simp]: "crates_ok c \<Longrightarrow> length (sha256 c bs) = 32"
  by (simp add: crates_ok_def)

lemma crates_ok_encode: "crates_ok c \<Longrightarrow> as_bytes (hex_encode c bs) = concat (map hex_pair bs)"
  by (simp add: crates_ok_def)

lemma crates_ok_decode [simp]: "crates_ok c \<Longrightarrow> hex_decode c (hex_encode c bs) = Some bs"
  by (simp add: crates_ok_def)

lemma length_hex_encode: "crates_ok c \<Longrightarrow> length (hex_encode c bs) = 2 * length bs"
proof -
  assume "crates_ok c"
  then have "length (as_bytes (hex_encode c bs)) = length (concat (map hex_pair bs))"
    by (simp add: crates_ok_encode)
  then show ?thesis
    by (simp add: length_concat hex_pair_def comp_def sum_list_triv)
qed

subsection \<open>A concrete instance\<close>

text \<open>
  Used only to evaluate the model on concrete inputs: a position-dependent checksum padded to
  32 bytes in place of SHA-256, and hexadecimal by table.
\<close>

definition char_of_u8 :: "u8 \<Rightarrow> char" where
  "char_of_u8 b = char_of (unat b)"

definition hex_encode_ref :: "bytes \<Rightarrow> string" where
  "hex_encode_ref bs = map char_of_u8 (concat (map hex_pair bs))"

definition unhex_digit :: "u8 \<Rightarrow> u8" where
  "unhex_digit d = (if d < 58 then d - 48 else d - 87)"

fun unhex_pairs :: "bytes \<Rightarrow> bytes option" where
  "unhex_pairs [] = Some []"
| "unhex_pairs [d] = None"
| "unhex_pairs (h # l # ds) =
     map_option (\<lambda>bs. or (push_bit 4 (unhex_digit h)) (unhex_digit l) # bs) (unhex_pairs ds)"

definition ref_checksum :: "bytes \<Rightarrow> u8" where
  "ref_checksum bs = fold (\<lambda>b a. 3 * a + b + 1) bs 0"

definition sha256_ref :: "bytes \<Rightarrow> bytes" where
  "sha256_ref bs = replicate 30 0 @ [of_nat (length bs), ref_checksum bs]"

definition crates_ref :: crates where
  "crates_ref =
     \<lparr>sha256 = sha256_ref,
      hex_encode = hex_encode_ref,
      hex_decode = (\<lambda>s. unhex_pairs (as_bytes s))\<rparr>"

lemma unat_u8_less: "unat (b :: u8) < 256"
  using unsigned_less [where 'a = nat and w = b] by simp

lemma u8_less_iff: "(a :: u8) < b \<longleftrightarrow> unat a < unat b"
  by (rule word_less_nat_alt)

lemma u8_le_iff: "(a :: u8) \<le> b \<longleftrightarrow> unat a \<le> unat b"
  by (rule word_le_nat_alt)

lemma of_char_char_of_u8 [simp]: "of_char (char_of_u8 b) = b"
proof -
  have "(of_char (char_of (unat b)) :: u8) = of_nat (of_char (char_of (unat b)))"
    by (simp only: of_nat_of_char)
  also have "(of_char (char_of (unat b)) :: nat) = unat b"
    using unat_u8_less [of b] by simp
  finally show ?thesis by (simp add: char_of_u8_def)
qed

lemma as_bytes_char_of_u8: "as_bytes (map char_of_u8 bs) = bs"
  by (simp add: as_bytes_def comp_def)

lemma nibbles_le: "drop_bit 4 (b :: u8) \<le> 15" "and (b :: u8) 15 \<le> 15"
proof -
  have "unat (drop_bit 4 b) \<le> 15"
    using unat_u8_less [of b] by (simp add: drop_bit_eq_div unat_div)
  then show "drop_bit 4 b \<le> 15" by (simp add: word_le_nat_alt)
  show "and b 15 \<le> 15" by (rule word_and_le1)
qed

lemma hex_digit_unhex:
  assumes "n \<le> 15"
  shows "unhex_digit (hex_digit n) = n"
proof (cases "n < 10")
  case True
  then have "48 + n < 58" by (simp add: u8_less_iff unat_word_ariths)
  with True show ?thesis by (simp add: unhex_digit_def hex_digit_def)
next
  case False
  with assms have "\<not> 87 + n < 58"
    by (simp add: u8_less_iff u8_le_iff unat_word_ariths)
  with False show ?thesis by (simp add: unhex_digit_def hex_digit_def)
qed

lemma nibbles_join: "or (push_bit 4 (drop_bit 4 b)) (and b 15) = (b :: u8)"
proof -
  have "(15 :: u8) = mask 4" by (simp add: mask_eq_exp_minus_1)
  then have "and b 15 = take_bit 4 b" by (simp add: take_bit_eq_mask)
  then show ?thesis
    by (intro bit_eqI) (auto simp: bit_or_iff bit_push_bit_iff bit_drop_bit_eq bit_take_bit_iff)
qed

lemma unhex_pairs_hex: "unhex_pairs (concat (map hex_pair bs)) = Some bs"
  by (induction bs)
    (simp_all add: hex_pair_def hex_digit_unhex nibbles_le nibbles_join)

lemma crates_ref_ok [simp]: "crates_ok crates_ref"
  by (simp add: crates_ok_def crates_ref_def sha256_ref_def hex_encode_ref_def
      as_bytes_char_of_u8 unhex_pairs_hex)

end
