(* ===== verification/Target_Hash.thy ===== *)
theory Target_Hash
  imports Crates
begin

section \<open>Target hashes (model.rs)\<close>

text \<open>
  \<^verbatim>\<open>Digest\<close> and \<^verbatim>\<open>TargetHash\<close> of \<^verbatim>\<open>src/model.rs\<close>: a hash is kept as 32 raw bytes when the file
  holds 64 lowercase hexadecimal digits and verbatim otherwise, and a target hash is read from
  and printed as \<open>kind#hash~direct\<close>. The theorems are the round trips of both formats.
\<close>

datatype digest = Sha256 bytes | Text string

datatype model_error =
    InvalidTargetHash string
  | MissingFinalHash string
  | NoTargetTypeInfo
  | InvalidHashJson

subsection \<open>Decoding lowercase hexadecimal\<close>

definition INVALID :: u8 where
  "INVALID = 255"

text \<open>The 256-entry table the \<^verbatim>\<open>const\<close> block fills with two loops.\<close>

definition hex_TABLE :: bytes where
  "hex_TABLE =
     fold (\<lambda>letter table. table[97 + letter := 10 + of_nat letter]) [0..<6]
       (fold (\<lambda>digit table. table[48 + digit := of_nat digit]) [0..<10]
         (replicate 256 INVALID))"

fun decode_pairs :: "bytes \<Rightarrow> bytes option" where
  "decode_pairs (p0 # p1 # hex) =
     (let high = hex_TABLE ! unat p0; low = hex_TABLE ! unat p1
      in if high = INVALID \<or> low = INVALID then None
         else (case decode_pairs hex of
                 None \<Rightarrow> None
               | Some bs \<Rightarrow> Some (or (push_bit 4 high) low # bs)))"
| "decode_pairs hex = Some []"

definition decode_lowercase_hex :: "string \<Rightarrow> bytes option" where
  "decode_lowercase_hex value =
     (let hex = as_bytes value
      in if length hex \<noteq> 64 then None else decode_pairs hex)"

definition digest_parse :: "string \<Rightarrow> digest" where
  "digest_parse value =
     (case decode_lowercase_hex value of Some bs \<Rightarrow> Sha256 bs | None \<Rightarrow> Text value)"

text \<open>\<^verbatim>\<open>impl Display for Digest\<close>.\<close>

fun digest_display :: "crates \<Rightarrow> digest \<Rightarrow> string" where
  "digest_display c (Sha256 bs) = hex_encode c bs"
| "digest_display c (Text text) = text"

subsection \<open>The target hash\<close>

record target_hash =
  kind :: string
  hash :: digest
  direct_hash :: digest

definition target_hash_parse :: "string \<Rightarrow> model_error + target_hash" where
  "target_hash_parse value =
     (let (knd, hashes) =
            (case split_once (CHR ''#'') value of
               None \<Rightarrow> ('''', value)
             | Some (knd, hashes) \<Rightarrow> (knd, hashes))
      in case split_once (CHR ''~'') hashes of
           None \<Rightarrow> Inl (InvalidTargetHash value)
         | Some (h, direct) \<Rightarrow>
             if CHR ''~'' \<in> set direct \<or> CHR ''#'' \<in> set knd
             then Inl (InvalidTargetHash value)
             else Inr \<lparr>kind = knd, hash = digest_parse h, direct_hash = digest_parse direct\<rparr>)"

definition same_as :: "target_hash \<Rightarrow> target_hash \<Rightarrow> bool" where
  "same_as a b \<longleftrightarrow>
     hash a = hash b \<and> direct_hash a = direct_hash b \<and> kind a = kind b"

definition json_value :: "crates \<Rightarrow> target_hash \<Rightarrow> bool \<Rightarrow> string" where
  "json_value c h include_target_type =
     (if include_target_type
      then kind h @ ''#'' @ digest_display c (hash h) @ ''~'' @ digest_display c (direct_hash h)
      else digest_display c (hash h) @ ''~'' @ digest_display c (direct_hash h))"

text \<open>The digests the program itself produces: 32 bytes, or text that is not 64 hex digits.\<close>

fun digest_ok :: "digest \<Rightarrow> bool" where
  "digest_ok (Sha256 bs) \<longleftrightarrow> length bs = 32"
| "digest_ok (Text text) \<longleftrightarrow> decode_lowercase_hex text = None"

subsection \<open>Lemmas\<close>

lemma same_as_iff_eq [simp]: "same_as a b \<longleftrightarrow> a = b"
  by (auto simp: same_as_def)

lemma nth_fold_update:
  assumes "i < length ts"
  shows "fold (\<lambda>d t. t[k + d := f d]) [0..<n] ts ! i =
    (if k \<le> i \<and> i < k + n then f (i - k) else ts ! i)"
proof -
  have len: "length (fold (\<lambda>d t. t[k + d := f d]) xs ts) = length ts" for xs
    by (induction xs arbitrary: ts) auto
  from assms show ?thesis
    by (induction n) (auto simp: nth_list_update len less_Suc_eq)
qed

lemma hex_TABLE_nth:
  assumes "i < 256"
  shows "hex_TABLE ! i =
     (if 48 \<le> i \<and> i < 58 then of_nat (i - 48)
      else if 97 \<le> i \<and> i < 103 then 10 + of_nat (i - 97) else INVALID)"
proof -
  have len: "length (fold (\<lambda>d t. t[48 + d := of_nat d]) xs (ts :: bytes)) = length ts" for xs ts
    by (induction xs arbitrary: ts) auto
  have inner: "i < length (replicate 256 INVALID)" using assms by simp
  then have outer: "i < length (fold (\<lambda>d t. t[48 + d := of_nat d]) [0..<10] (replicate 256 INVALID))"
    by (simp only: len)
  show ?thesis
    unfolding hex_TABLE_def nth_fold_update [OF outer] nth_fold_update [OF inner]
    using assms by simp
qed

lemma hex_TABLE_valid:
  assumes "hex_TABLE ! unat d \<noteq> INVALID"
  shows "hex_TABLE ! unat d \<le> 15" and "hex_digit (hex_TABLE ! unat d) = d"
proof -
  let ?i = "unat d"
  have i: "?i < 256" by (rule unat_u8_less)
  have split: "of_nat k + of_nat (?i - k) = d" if "k \<le> ?i" for k
    using that by (simp flip: of_nat_add)
  have small: "unat (of_nat (?i - k) :: u8) = ?i - k" for k
    using i by (simp add: unat_of_nat del: of_nat_diff)
  from assms consider "48 \<le> ?i" "?i < 58" | "97 \<le> ?i" "?i < 103"
    by (auto simp: hex_TABLE_nth [OF i] split: if_splits)
  then have "hex_TABLE ! ?i \<le> 15 \<and> hex_digit (hex_TABLE ! ?i) = d"
  proof cases
    case 1
    then have "hex_TABLE ! ?i = of_nat (?i - 48)"
      by (simp add: hex_TABLE_nth [OF i] del: of_nat_diff)
    moreover have "?i - 48 < 10" using 1 by arith
    ultimately show ?thesis using 1 split [of 48] small [of 48]
      by (simp add: hex_digit_def u8_less_iff u8_le_iff del: of_nat_diff)
  next
    case 2
    then have "hex_TABLE ! ?i = 10 + of_nat (?i - 97)"
      by (simp add: hex_TABLE_nth [OF i] del: of_nat_diff)
    moreover have "\<not> ?i - 87 < 10" "?i - 87 \<le> 15" using 2 by arith+
    ultimately show ?thesis using 2 split [of 97] small [of 97]
      by (simp add: hex_digit_def u8_less_iff u8_le_iff unat_word_ariths del: of_nat_diff)
  qed
  then show "hex_TABLE ! ?i \<le> 15" and "hex_digit (hex_TABLE ! ?i) = d" by auto
qed

lemma hex_TABLE_hex_digit:
  assumes "n \<le> 15"
  shows "hex_TABLE ! unat (hex_digit n) = n" and "n \<noteq> INVALID"
proof -
  have n: "unat n \<le> 15" using assms by (simp add: u8_le_iff)
  then have "unat (hex_digit n) = (if unat n < 10 then 48 + unat n else 87 + unat n)"
    by (simp add: hex_digit_def u8_less_iff unat_word_ariths)
  with n show "hex_TABLE ! unat (hex_digit n) = n"
    by (simp add: hex_TABLE_nth)
  show "n \<noteq> INVALID" using n by (auto simp: INVALID_def)
qed

lemma nibbles_split:
  assumes "h \<le> 15" "l \<le> 15"
  shows "drop_bit 4 (or (push_bit 4 h) l) = (h :: u8)" and "and (or (push_bit 4 h) l) 15 = (l :: u8)"
proof -
  have m: "(15 :: u8) = mask 4" by (simp add: mask_eq_exp_minus_1)
  have small: "take_bit 4 x = x" if "x \<le> 15" for x :: u8
    using that by (simp add: take_bit_eq_mod word_le_nat_alt word_arith_nat_mod)
  have bits: "\<not> bit x n" if "x \<le> 15" "4 \<le> n" for x :: u8 and n
    using small [OF that(1)] that(2) by (metis bit_take_bit_iff not_less)
  show "drop_bit 4 (or (push_bit 4 h) l) = h"
  proof (rule bit_eqI)
    fix n
    show "bit (drop_bit 4 (or (push_bit 4 h) l)) n \<longleftrightarrow> bit h n"
      using bits [OF assms(1), of n] bits [OF assms(2), of "4 + n"]
      by (cases "n < 4") (auto simp: bit_or_iff bit_push_bit_iff bit_drop_bit_eq)
  qed
  show "and (or (push_bit 4 h) l) 15 = l"
    unfolding m take_bit_eq_mask [symmetric]
  proof (rule bit_eqI)
    fix n
    show "bit (take_bit 4 (or (push_bit 4 h) l)) n \<longleftrightarrow> bit l n"
      using bits [OF assms(2), of n]
      by (cases "n < 4") (auto simp: bit_or_iff bit_push_bit_iff bit_take_bit_iff)
  qed
qed

lemma decode_pairs_encode: "decode_pairs (concat (map hex_pair bs)) = Some bs"
  by (induction bs)
    (simp_all add: hex_pair_def hex_TABLE_hex_digit nibbles_le nibbles_join)

lemma decode_pairs_sound:
  "decode_pairs hex = Some bs \<Longrightarrow> even (length hex) \<Longrightarrow>
     concat (map hex_pair bs) = hex \<and> length hex = 2 * length bs"
proof (induction hex arbitrary: bs rule: decode_pairs.induct)
  case (1 p0 p1 hex)
  let ?h = "hex_TABLE ! unat p0" and ?l = "hex_TABLE ! unat p1"
  from "1.prems"(1) obtain bs' where valid: "?h \<noteq> INVALID" "?l \<noteq> INVALID"
    and rest: "decode_pairs hex = Some bs'" and bs: "bs = or (push_bit 4 ?h) ?l # bs'"
    by (auto simp: Let_def split: if_splits option.splits)
  have "concat (map hex_pair bs') = hex \<and> length hex = 2 * length bs'"
    using "1.IH" valid rest "1.prems"(2) by (auto simp: Let_def)
  moreover have "hex_pair (or (push_bit 4 ?h) ?l) = [p0, p1]"
    unfolding hex_pair_def nibbles_split [OF hex_TABLE_valid(1) [OF valid(1)] hex_TABLE_valid(1) [OF valid(2)]]
    by (simp add: hex_TABLE_valid valid)
  ultimately show ?case by (simp add: bs)
qed auto

lemma decode_lowercase_hex_Some:
  "decode_lowercase_hex s = Some bs \<longleftrightarrow> length bs = 32 \<and> as_bytes s = concat (map hex_pair bs)"
proof
  assume "decode_lowercase_hex s = Some bs"
  then show "length bs = 32 \<and> as_bytes s = concat (map hex_pair bs)"
    using decode_pairs_sound [of "as_bytes s" bs]
    by (auto simp: decode_lowercase_hex_def Let_def split: if_splits)
next
  assume a: "length bs = 32 \<and> as_bytes s = concat (map hex_pair bs)"
  moreover have "length (concat (map hex_pair bs)) = 2 * length bs"
    by (simp add: length_concat hex_pair_def comp_def sum_list_triv)
  ultimately show "decode_lowercase_hex s = Some bs"
    by (simp add: decode_lowercase_hex_def decode_pairs_encode Let_def)
qed

lemma digest_parse_ok: "digest_ok (digest_parse s)"
  by (auto simp: digest_parse_def decode_lowercase_hex_Some split: option.splits)

lemma digest_display_parse:
  assumes "crates_ok c"
  shows "digest_display c (digest_parse s) = s"
proof (cases "decode_lowercase_hex s")
  case (Some bs)
  with assms have "as_bytes (hex_encode c bs) = as_bytes s"
    by (simp add: decode_lowercase_hex_Some crates_ok_encode)
  with Some show ?thesis by (simp add: digest_parse_def)
qed (simp add: digest_parse_def)

lemma digest_parse_display:
  assumes "crates_ok c" "digest_ok d"
  shows "digest_parse (digest_display c d) = d"
proof (cases d)
  case (Sha256 bs)
  with assms have "decode_lowercase_hex (hex_encode c bs) = Some bs"
    by (simp add: decode_lowercase_hex_Some crates_ok_encode)
  with Sha256 show ?thesis by (simp add: digest_parse_def)
qed (use assms in \<open>simp add: digest_parse_def\<close>)

text \<open>A printed SHA-256 digest holds only digits and letters, so neither separator.\<close>

lemma hex_encode_chars:
  assumes "crates_ok c" "ch \<in> set (hex_encode c bs)"
  shows "(of_char ch :: u8) \<in> {48..57} \<union> {97..102}"
proof -
  have "(of_char ch :: u8) \<in> set (as_bytes (hex_encode c bs))"
    using assms(2) by (simp add: as_bytes_def)
  then obtain n where "n \<le> 15" "of_char ch = hex_digit n"
    using assms(1) nibbles_le by (auto simp: crates_ok_encode hex_pair_def)
  then show ?thesis
    by (auto simp: hex_digit_def u8_le_iff u8_less_iff unat_word_ariths)
qed

lemma hex_encode_no_sep [simp]:
  assumes "crates_ok c"
  shows "CHR ''~'' \<notin> set (hex_encode c bs)" and "CHR ''#'' \<notin> set (hex_encode c bs)"
  using hex_encode_chars [OF assms, of "CHR ''~''" bs] hex_encode_chars [OF assms, of "CHR ''#''" bs]
  by auto

lemma target_hash_parse_join:
  assumes "CHR ''#'' \<notin> set knd" "CHR ''~'' \<notin> set h" "CHR ''~'' \<notin> set d"
  shows "target_hash_parse (knd @ ''#'' @ h @ ''~'' @ d) =
    Inr \<lparr>kind = knd, hash = digest_parse h, direct_hash = digest_parse d\<rparr>"
  using assms by (simp add: target_hash_parse_def)

lemma target_hash_parse_join_untyped:
  assumes "CHR ''#'' \<notin> set h" "CHR ''#'' \<notin> set d" "CHR ''~'' \<notin> set h" "CHR ''~'' \<notin> set d"
  shows "target_hash_parse (h @ ''~'' @ d) =
    Inr \<lparr>kind = '''', hash = digest_parse h, direct_hash = digest_parse d\<rparr>"
proof -
  have "split_once (CHR ''#'') (h @ ''~'' @ d) = None"
    using assms by (simp add: split_once_None)
  with assms show ?thesis by (simp add: target_hash_parse_def)
qed

lemma target_hash_parse_ok:
  assumes "target_hash_parse value = Inr h"
  shows "digest_ok (hash h)" "digest_ok (direct_hash h)" "CHR ''#'' \<notin> set (kind h)"
  using assms
  by (auto simp: target_hash_parse_def digest_parse_ok Let_def split: option.splits if_splits prod.splits)

text \<open>A target hash as the program writes it: two 32-byte digests and a kind without \<open>#\<close>.\<close>

definition written_hash :: "target_hash \<Rightarrow> bool" where
  "written_hash h \<longleftrightarrow>
     (\<exists>a b. hash h = Sha256 a \<and> direct_hash h = Sha256 b \<and> length a = 32 \<and> length b = 32) \<and>
     CHR ''#'' \<notin> set (kind h)"

lemma digest_parse_hex_encode:
  "crates_ok c \<Longrightarrow> length x = 32 \<Longrightarrow> digest_parse (hex_encode c x) = Sha256 x"
  using digest_parse_display [of c "Sha256 x"] by simp

lemma written_hash_typed:
  assumes "crates_ok c" "written_hash h"
  shows "target_hash_parse (json_value c h True) = Inr h"
proof -
  obtain a b where ab: "hash h = Sha256 a" "direct_hash h = Sha256 b" "length a = 32" "length b = 32"
    and k: "CHR ''#'' \<notin> set (kind h)"
    using assms(2) by (auto simp: written_hash_def)
  then show ?thesis using assms(1)
    by (simp add: json_value_def digest_parse_hex_encode target_hash_parse_join [simplified])
qed

lemma written_hash_untyped:
  assumes "crates_ok c" "written_hash h"
  shows "target_hash_parse (json_value c h False) = Inr (h\<lparr>kind := ''''\<rparr>)"
proof -
  obtain a b where ab: "hash h = Sha256 a" "direct_hash h = Sha256 b" "length a = 32" "length b = 32"
    using assms(2) by (auto simp: written_hash_def)
  then show ?thesis using assms(1)
    by (simp add: json_value_def digest_parse_hex_encode target_hash_parse_join_untyped [simplified])
qed

subsection \<open>Properties\<close>

text \<open>
  Reading a digest and printing it gives the string back, for every string: a file's
  hash values survive a read and a write unchanged, whether they are SHA-256 digests or any
  other text.
\<close>

theorem digest_roundtrip: "crates_ok c \<Longrightarrow> digest_display c (digest_parse s) = s"
  by (rule digest_display_parse)

theorem digest_roundtrip_witness:
  "digest_display crates_ref (digest_parse ''not-a-digest'') = ''not-a-digest''"
  by (rule digest_roundtrip) simp

text \<open>
  Printing a target hash the program computed and parsing it again yields the same target
  hash when the type is included, and the same hash with an empty type when it is not.
\<close>

theorem target_hash_roundtrip:
  assumes "crates_ok c" "written_hash h"
  shows "target_hash_parse (json_value c h True) = Inr h \<and>
    target_hash_parse (json_value c h False) = Inr (h\<lparr>kind := ''''\<rparr>)"
  using assms by (simp add: written_hash_typed written_hash_untyped)

definition sample_hash :: target_hash where
  "sample_hash =
     \<lparr>kind = ''Rule'', hash = Sha256 (replicate 32 7), direct_hash = Sha256 (replicate 32 9)\<rparr>"

theorem target_hash_roundtrip_witness:
  "target_hash_parse (json_value crates_ref sample_hash True) = Inr sample_hash \<and>
   target_hash_parse (json_value crates_ref sample_hash False) = Inr (sample_hash\<lparr>kind := ''''\<rparr>)"
  by (rule target_hash_roundtrip [OF crates_ref_ok]) (simp add: written_hash_def sample_hash_def)

lemma split_once_count:
  "(\<exists>a b. split_once x hs = Some (a, b) \<and> x \<notin> set b) \<longleftrightarrow> count_list hs x = 1"
proof (cases "split_once x hs")
  case None
  then have "count_list hs x = 0" by (simp add: split_once_None count_list_0_iff)
  with None show ?thesis by simp
next
  case (Some ab)
  obtain a b where "ab = (a, b)" by (cases ab)
  with Some have "hs = a @ x # b" "x \<notin> set a" by (simp_all add: split_once_Some)
  then show ?thesis by (simp add: count_list_0_iff)
qed

text \<open>
  What \<open>TargetHash::parse\<close> accepts: exactly the values whose part after the first \<open>#\<close> (or
  the whole value when there is none) holds exactly one \<open>~\<close>. Everything else is the error that
  quotes the value.
\<close>

theorem target_hash_parse_accepts:
  "(if count_list (case split_once (CHR ''#'') value of None \<Rightarrow> value | Some (_, hashes) \<Rightarrow> hashes)
         (CHR ''~'') = 1
    then \<exists>h. target_hash_parse value = Inr h
    else target_hash_parse value = Inl (InvalidTargetHash value))"
proof -
  have "CHR ''#'' \<notin> set knd" if "split_once (CHR ''#'') value = Some (knd, hashes)"
    for knd hashes using that by (simp add: split_once_Some)
  then show ?thesis
    unfolding split_once_count [symmetric] target_hash_parse_def Let_def
    by (auto split: option.splits prod.splits if_splits)
qed

end
