(* ===== verification/Labels.thy ===== *)
theory Labels
  imports Crates
begin

section \<open>Labels (bazel.rs, hash.rs, explain.rs)\<close>

text \<open>
  The label functions the components share: configured identities \<open>label|checksum\<close>
  (\<^verbatim>\<open>src/bazel.rs\<close>), main-repository labels and the paths they name, and the package of a label
  (\<^verbatim>\<open>src/hash.rs\<close>, \<^verbatim>\<open>src/explain.rs\<close>, \<^verbatim>\<open>src/partial.rs\<close>).
\<close>

type_synonym label = string

definition CONFIGURED_SEPARATOR :: char where
  "CONFIGURED_SEPARATOR = CHR ''|''"

definition configured_key :: "label \<Rightarrow> string \<Rightarrow> string" where
  "configured_key lbl checksum = lbl @ [CONFIGURED_SEPARATOR] @ checksum"

text \<open>\<^verbatim>\<open>u8::is_ascii_hexdigit\<close>: both letter cases count.\<close>

definition is_ascii_hexdigit :: "char \<Rightarrow> bool" where
  "is_ascii_hexdigit ch \<longleftrightarrow>
     (CHR ''0'' \<le> ch \<and> ch \<le> CHR ''9'') \<or> (CHR ''A'' \<le> ch \<and> ch \<le> CHR ''F'') \<or>
     (CHR ''a'' \<le> ch \<and> ch \<le> CHR ''f'')"

definition split_configured :: "string \<Rightarrow> label \<times> string option" where
  "split_configured key =
     (case rsplit_once CONFIGURED_SEPARATOR key of
        Some (lbl, checksum) \<Rightarrow>
          if checksum \<noteq> [] \<and> list_all is_ascii_hexdigit checksum
          then (lbl, Some checksum) else (key, None)
      | None \<Rightarrow> (key, None))"

definition target_label :: "string \<Rightarrow> label" where
  "target_label key = fst (split_configured key)"

text \<open>A \<^verbatim>\<open>ConfiguredRuleInput\<close> is its optional label and optional checksum.\<close>

definition encode_configured_input :: "label option \<Rightarrow> string option \<Rightarrow> string" where
  "encode_configured_input lbl checksum =
     (case checksum of
        Some ck \<Rightarrow>
          if ck \<noteq> [] then configured_key (case lbl of None \<Rightarrow> [] | Some l \<Rightarrow> l) ck
          else (case lbl of None \<Rightarrow> [] | Some l \<Rightarrow> l)
      | None \<Rightarrow> (case lbl of None \<Rightarrow> [] | Some l \<Rightarrow> l))"

definition is_main_repo :: "label \<Rightarrow> bool" where
  "is_main_repo lbl \<longleftrightarrow>
     starts_with ''//'' lbl \<or> starts_with ''@//'' lbl \<or> starts_with ''@@//'' lbl"

definition main_repo_path :: "label \<Rightarrow> string option" where
  "main_repo_path lbl =
     (let body = (case strip_prefix ''@@//'' lbl of
                    Some b \<Rightarrow> Some b
                  | None \<Rightarrow>
                      (case strip_prefix ''@//'' lbl of
                         Some b \<Rightarrow> Some b
                       | None \<Rightarrow> strip_prefix ''//'' lbl))
      in map_option (\<lambda>b. replace_char (CHR '':'') ''/'' (trim_start_matches (CHR '':'') b)) body)"

text \<open>\<^verbatim>\<open>label_package\<close> cuts at the last colon, \<^verbatim>\<open>package_of\<close> and \<^verbatim>\<open>split(':').next()\<close> at the first.\<close>

definition label_package :: "label \<Rightarrow> string" where
  "label_package lbl =
     (case rsplit_once (CHR '':'') lbl of None \<Rightarrow> lbl | Some (package, _) \<Rightarrow> package)"

definition package_of :: "label \<Rightarrow> string" where
  "package_of lbl =
     (case split_once (CHR '':'') lbl of None \<Rightarrow> lbl | Some (package, _) \<Rightarrow> package)"

definition label_path :: "label \<Rightarrow> string option" where
  "label_path lbl = main_repo_path (target_label lbl)"

definition external_label_path :: "string \<Rightarrow> string" where
  "external_label_path target = replace_char (CHR '':'') ''/'' (trim_start_matches (CHR '':'') target)"

lemmas label_defs = split_configured_def target_label_def is_main_repo_def main_repo_path_def
  label_package_def package_of_def label_path_def

lemma hexdigit_not_sep: "list_all is_ascii_hexdigit ck \<Longrightarrow> CONFIGURED_SEPARATOR \<notin> set ck"
  by (auto simp: list_all_iff is_ascii_hexdigit_def CONFIGURED_SEPARATOR_def less_eq_char_def)

lemma split_configured_key:
  "ck \<noteq> [] \<Longrightarrow> list_all is_ascii_hexdigit ck \<Longrightarrow>
     split_configured (configured_key lbl ck) = (lbl, Some ck)"
proof -
  assume ck: "ck \<noteq> []" "list_all is_ascii_hexdigit ck"
  then have "rsplit_once CONFIGURED_SEPARATOR (configured_key lbl ck) = Some (lbl, ck)"
    by (simp add: configured_key_def rsplit_once_Some hexdigit_not_sep)
  with ck show ?thesis by (simp add: split_configured_def)
qed

lemma split_configured_bare:
  "CONFIGURED_SEPARATOR \<notin> set lbl \<Longrightarrow> split_configured lbl = (lbl, None)"
  using rsplit_once_None [of CONFIGURED_SEPARATOR lbl] by (simp add: split_configured_def)

lemma target_label_bare: "CONFIGURED_SEPARATOR \<notin> set lbl \<Longrightarrow> target_label lbl = lbl"
  by (simp add: target_label_def split_configured_bare)

lemma target_label_prefix: "\<exists>suffix. key = target_label key @ suffix"
  by (auto simp: target_label_def split_configured_def rsplit_once_Some split: option.splits)

lemma is_main_repo_iff_path: "is_main_repo lbl \<longleftrightarrow> main_repo_path lbl \<noteq> None"
  by (auto simp: is_main_repo_def main_repo_path_def starts_with_def split: option.splits)

lemma main_repo_path_canonical:
  assumes "CHR '':'' \<notin> set pkg" "CHR '':'' \<notin> set name"
  shows "main_repo_path (''//'' @ pkg @ '':'' @ name) =
    Some (if pkg = [] then name else pkg @ ''/'' @ name)"
proof -
  have "trim_start_matches (CHR '':'') (pkg @ '':'' @ name) =
      (if pkg = [] then name else pkg @ '':'' @ name)"
    using assms by (cases pkg; cases name) (auto simp: trim_start_matches_def)
  then show ?thesis using assms by (simp add: main_repo_path_def)
qed

lemma package_of_eq_first_piece: "package_of lbl = hd (split_on (CHR '':'') lbl)"
proof (cases "split_once (CHR '':'') lbl")
  case None
  then have "CHR '':'' \<notin> set lbl" by (simp add: split_once_None)
  with None show ?thesis by (simp add: package_of_def)
next
  case (Some ab)
  then show ?thesis by (cases ab) (auto simp: package_of_def split_once_Some)
qed

subsection \<open>Properties\<close>

text \<open>
  A configured identity determines its label and configuration: splitting the key that was
  made from a label and a hexadecimal checksum gives both back, and a label without the
  separator is its own bare identity.
\<close>

theorem configured_key_roundtrip:
  assumes "ck \<noteq> []" "list_all is_ascii_hexdigit ck"
  shows "split_configured (configured_key lbl ck) = (lbl, Some ck) \<and>
    target_label (encode_configured_input (Some lbl) (Some ck)) = lbl"
  using assms
  by (simp add: split_configured_key target_label_def encode_configured_input_def)

theorem configured_key_roundtrip_witness:
  "split_configured (configured_key ''//a:b|c'' ''0af1'') = (''//a:b|c'', Some ''0af1'') \<and>
   target_label (encode_configured_input (Some ''//a:b|c'') (Some ''0af1'')) = ''//a:b|c''"
  by (rule configured_key_roundtrip) (simp_all add: is_ascii_hexdigit_def less_eq_char_def)

end
