(* ===== verification/Tree_Index.thy ===== *)
theory Tree_Index
  imports Labels
begin

section \<open>The git tree index and source digests (partial.rs)\<close>

text \<open>
  \<^verbatim>\<open>TreeIndex\<close>, \<^verbatim>\<open>source_digest\<close> and \<^verbatim>\<open>soft_digest\<close> of \<^verbatim>\<open>src/partial.rs\<close>: every tracked path of a
  revision as \<^verbatim>\<open>git ls-tree -r -z\<close> lists it, and the digest of a source label from that listing
  alone. \<^verbatim>\<open>String::from_utf8_lossy\<close> is the identity on the UTF-8 output it is given.
\<close>

datatype tree_kind = File bool | Symlink | Submodule

record tree_entry =
  object :: string
  entry_kind :: tree_kind

record tree_index =
  entries :: "(string, tree_entry) btree"
  tree_id :: "string option"

definition NUL :: char where "NUL = CHR 0x00"
definition TAB :: char where "TAB = CHR 0x09"

definition ls_tree_kind :: "string \<Rightarrow> string \<Rightarrow> tree_kind option" where
  "ls_tree_kind mode object_type =
     (if object_type = ''blob'' \<and> (mode = ''100644'' \<or> mode = ''100664'') then Some (File False)
      else if object_type = ''blob'' \<and> mode = ''100755'' then Some (File True)
      else if object_type = ''blob'' \<and> mode = ''120000'' then Some Symlink
      else if object_type = ''commit'' \<and> mode = ''160000'' then Some Submodule
      else None)"

definition ls_tree_record :: "string \<Rightarrow> (string \<times> tree_entry) option" where
  "ls_tree_record rec =
     (case split_once TAB rec of
        None \<Rightarrow> None
      | Some (metadata, path) \<Rightarrow>
         (case split_on (CHR '' '') metadata of
            mode # object_type # obj # _ \<Rightarrow>
              (case ls_tree_kind mode object_type of
                 None \<Rightarrow> None
               | Some k \<Rightarrow> Some (path, \<lparr>object = obj, entry_kind = k\<rparr>))
          | _ \<Rightarrow> None))"

definition parse_ls_tree :: "string \<Rightarrow> tree_index" where
  "parse_ls_tree output =
     \<lparr>entries = bt_of_list
        (List.map_filter ls_tree_record (filter (\<lambda>rec. rec \<noteq> []) (split_on NUL output))),
      tree_id = None\<rparr>"

definition with_id :: "tree_index \<Rightarrow> string \<Rightarrow> tree_index" where
  "with_id tree i = tree\<lparr>tree_id := Some i\<rparr>"

definition tree_get :: "tree_index \<Rightarrow> string \<Rightarrow> tree_entry option" where
  "tree_get tree path = bt_get (entries tree) path"

text \<open>The largest code point \<^verbatim>\<open>U+10FFFF\<close> in UTF-8 ends the range scan below a directory.\<close>

definition MAX_CODE_POINT :: string where
  "MAX_CODE_POINT = [CHR 0xF4, CHR 0x8F, CHR 0xBF, CHR 0xBF]"

definition under_prefix :: "string \<Rightarrow> string" where
  "under_prefix directory =
     (if directory = [] \<or> ends_with ''/'' directory then directory else directory @ ''/'')"

definition under :: "tree_index \<Rightarrow> string \<Rightarrow> (string \<times> tree_entry) list" where
  "under tree directory =
     (let pre = under_prefix directory; stop = pre @ MAX_CODE_POINT
      in map (\<lambda>(path, entry). (drop (length pre) path, entry))
           (filter (\<lambda>(path, entry). pre \<le> path \<and> path < stop) (entries tree)))"

definition content_hashes :: "tree_index \<Rightarrow> (string, string) btree" where
  "content_hashes tree =
     bt_of_list (map (\<lambda>(path, entry). (path, object entry))
       (filter (\<lambda>(path, entry). entry_kind entry \<noteq> Submodule) (entries tree)))"

definition symlinks :: "tree_index \<Rightarrow> string list" where
  "symlinks tree =
     map fst (filter (\<lambda>(path, entry). entry_kind entry = Symlink) (entries tree))"

text \<open>The bytes \<^verbatim>\<open>update_entry\<close> feeds the hasher.\<close>

definition update_entry :: "tree_entry \<Rightarrow> bytes" where
  "update_entry entry =
     as_bytes (object entry) @
     (case entry_kind entry of
        File executable \<Rightarrow> [1, if executable then 1 else 0]
      | Symlink \<Rightarrow> [3]
      | Submodule \<Rightarrow> [4])"

definition directory_bytes :: "(string \<times> tree_entry) list \<Rightarrow> bytes" where
  "directory_bytes items =
     concat (map (\<lambda>(relative, entry). as_bytes relative @ [0] @ update_entry entry @ [0]) items)"

text \<open>What the digest of a path sees of the tree, before the seed and the label are added.\<close>

definition content_bytes :: "crates \<Rightarrow> tree_index \<Rightarrow> string \<Rightarrow> bytes" where
  "content_bytes c tree path =
     (case tree_get tree path of
        Some entry \<Rightarrow> update_entry entry
      | None \<Rightarrow>
         (let items = under tree path
          in if items \<noteq> [] then sha256 c (directory_bytes items) @ [2] else [0]))"

definition source_digest :: "crates \<Rightarrow> tree_index \<Rightarrow> label \<Rightarrow> bytes \<Rightarrow> bytes" where
  "source_digest c tree lbl seed =
     (case main_repo_path lbl of
        None \<Rightarrow> sha256 c []
      | Some path \<Rightarrow> sha256 c (content_bytes c tree path @ seed @ as_bytes lbl))"

definition soft_digest :: "crates \<Rightarrow> tree_index \<Rightarrow> label \<Rightarrow> bytes option" where
  "soft_digest c tree lbl =
     (if \<not> is_main_repo lbl then None
      else case main_repo_path lbl of
             None \<Rightarrow> None
           | Some path \<Rightarrow>
              (case tree_get tree path of
                 None \<Rightarrow> None
               | Some entry \<Rightarrow>
                   if entry_kind entry = Submodule then None
                   else Some (source_digest c tree lbl [])))"

subsection \<open>The range scan lists exactly the directory\<close>

lemma append_le_append_iff [simp]: "(p :: string) @ a \<le> p @ b \<longleftrightarrow> a \<le> b"
  by (induction p) auto

lemma append_less_append_iff [simp]: "(p :: string) @ a < p @ b \<longleftrightarrow> a < b"
  by (induction p) auto

lemma prefix_le_append [simp]: "(p :: string) \<le> p @ r"
  by (induction p) auto

lemma range_is_prefix:
  fixes p s x :: string
  assumes "p \<le> s" "s < p @ x"
  shows "\<exists>r. s = p @ r \<and> r < x"
  using assms
proof (induction p arbitrary: s)
  case Nil
  then show ?case by simp
next
  case (Cons a p)
  from Cons.prems obtain b t where s: "s = b # t" by (cases s) auto
  with Cons.prems have "a = b" by auto
  with s Cons.prems have "p \<le> t" "t < p @ x" by auto
  with Cons.IH s \<open>a = b\<close> show ?case by auto
qed

text \<open>A path that does not start with the byte \<^verbatim>\<open>0xF4\<close> or higher sorts below the last code point.\<close>

definition plain_path :: "string \<Rightarrow> bool" where
  "plain_path s \<longleftrightarrow> (\<forall>ch \<in> set s. ch < CHR 0xF4)"

lemma plain_path_below: "plain_path s \<Longrightarrow> s < MAX_CODE_POINT"
  by (cases s) (auto simp: plain_path_def MAX_CODE_POINT_def)

lemma set_under:
  assumes "bt_inv (entries tree)" "\<forall>path \<in> fst ` set (entries tree). plain_path path"
  shows "(relative, entry) \<in> set (under tree directory) \<longleftrightarrow>
    tree_get tree (under_prefix directory @ relative) = Some entry"
proof -
  let ?p = "under_prefix directory"
  have "tree_get tree (?p @ relative) = Some entry \<longleftrightarrow> (?p @ relative, entry) \<in> set (entries tree)"
    by (simp add: tree_get_def bt_get_eq_Some assms(1))
  moreover have "relative < MAX_CODE_POINT" if "(?p @ relative, entry) \<in> set (entries tree)"
  proof -
    from that assms(2) have "plain_path (?p @ relative)" by force
    then show ?thesis by (intro plain_path_below) (simp add: plain_path_def)
  qed
  ultimately show ?thesis
    by (auto simp: under_def Let_def image_iff dest!: range_is_prefix
        intro!: exI [of _ "?p @ relative"])
qed

lemma under_cong:
  assumes "bt_inv (entries t1)" "bt_inv (entries t2)"
    and agree: "\<And>r. tree_get t1 (under_prefix d @ r) = tree_get t2 (under_prefix d @ r)"
  shows "under t1 d = under t2 d"
proof -
  let ?p = "under_prefix d"
  let ?in = "\<lambda>(path, entry). ?p \<le> path \<and> path < ?p @ MAX_CODE_POINT"
  have look: "bt_get (filter ?in (entries t)) q =
      (if ?p \<le> q \<and> q < ?p @ MAX_CODE_POINT then bt_get (entries t) q else None)"
    for t q
    using bt_get_filter_key [of "\<lambda>k. ?p \<le> k \<and> k < ?p @ MAX_CODE_POINT" "entries t" q] by simp
  have "filter ?in (entries t1) = filter ?in (entries t2)"
  proof (rule bt.store_ext)
    fix q
    show "bt_get (filter ?in (entries t1)) q = bt_get (filter ?in (entries t2)) q"
      using agree range_is_prefix [of ?p q MAX_CODE_POINT]
      by (auto simp: look tree_get_def)
  qed (simp_all add: assms bt_inv_filter)
  then show ?thesis by (simp add: under_def Let_def)
qed

text \<open>A path is at or below another when it is that path or continues it after a slash.\<close>

definition at_or_below :: "string \<Rightarrow> string \<Rightarrow> bool" where
  "at_or_below path base \<longleftrightarrow> path = base \<or> starts_with (under_prefix base) path"

lemma source_digest_local:
  assumes "bt_inv (entries t1)" "bt_inv (entries t2)"
    and "main_repo_path lbl = Some path"
    and agree: "\<And>q. at_or_below q path \<Longrightarrow> tree_get t1 q = tree_get t2 q"
  shows "source_digest c t1 lbl seed = source_digest c t2 lbl seed"
    and "soft_digest c t1 lbl = soft_digest c t2 lbl"
proof -
  have "tree_get t1 path = tree_get t2 path"
    by (rule agree) (simp add: at_or_below_def)
  moreover have "under t1 path = under t2 path"
    using assms(1,2) by (rule under_cong) (auto intro!: agree simp: at_or_below_def starts_with_iff)
  ultimately have "content_bytes c t1 path = content_bytes c t2 path"
    by (simp add: content_bytes_def Let_def split: option.splits)
  then show eq: "source_digest c t1 lbl seed = source_digest c t2 lbl seed" for seed
    by (simp add: source_digest_def assms(3))
  show "soft_digest c t1 lbl = soft_digest c t2 lbl"
    using \<open>tree_get t1 path = tree_get t2 path\<close> eq
    by (simp add: soft_digest_def assms(3) split: option.splits)
qed

lemma length_source_digest [simp]:
  "crates_ok c \<Longrightarrow> length (source_digest c tree lbl seed) = 32"
  by (simp add: source_digest_def split: option.splits)

lemma length_soft_digest: "crates_ok c \<Longrightarrow> soft_digest c tree lbl = Some d \<Longrightarrow> length d = 32"
  by (auto simp: soft_digest_def split: if_splits option.splits)

subsection \<open>Listing a tree and reading it back\<close>

text \<open>The record format of \<^verbatim>\<open>git ls-tree -r -z\<close>: mode, blank, type, blank, object, tab, path, NUL.\<close>

fun mode_and_type :: "tree_kind \<Rightarrow> string" where
  "mode_and_type (File False) = ''100644 blob''"
| "mode_and_type (File True) = ''100755 blob''"
| "mode_and_type Symlink = ''120000 blob''"
| "mode_and_type Submodule = ''160000 commit''"

definition listed_record :: "string \<times> tree_entry \<Rightarrow> string" where
  "listed_record item =
     (case item of (path, entry) \<Rightarrow>
        mode_and_type (entry_kind entry) @ [CHR '' ''] @ object entry @ [TAB] @ path @ [NUL])"

definition listable :: "string \<times> tree_entry \<Rightarrow> bool" where
  "listable item \<longleftrightarrow>
     (case item of (path, entry) \<Rightarrow>
        NUL \<notin> set path \<and> NUL \<notin> set (object entry) \<and> TAB \<notin> set (object entry) \<and>
        CHR '' '' \<notin> set (object entry))"

lemma mode_and_type_chars: "TAB \<notin> set (mode_and_type k)" "NUL \<notin> set (mode_and_type k)"
  by (cases k rule: mode_and_type.cases; simp add: TAB_def NUL_def)+

lemma ls_tree_record_print:
  assumes "listable item"
  shows "ls_tree_record (butlast (listed_record item)) = Some item"
proof -
  obtain path entry where item: "item = (path, entry)" by (cases item)
  define m where "m = mode_and_type (entry_kind entry) @ [CHR '' ''] @ object entry"
  have "butlast (listed_record item) = m @ TAB # path"
    by (simp add: item listed_record_def m_def butlast_append)
  moreover have "TAB \<notin> set m"
    using assms mode_and_type_chars(1) by (auto simp: m_def item listable_def TAB_def)
  moreover have "split_on (CHR '' '') (object entry) = [object entry]"
    using assms by (simp add: item listable_def)
  then have "\<exists>mode ty. split_on (CHR '' '') m = [mode, ty, object entry] \<and>
      ls_tree_kind mode ty = Some (entry_kind entry)"
    by (cases "entry_kind entry" rule: mode_and_type.cases) (auto simp: m_def ls_tree_kind_def)
  ultimately show ?thesis by (auto simp: ls_tree_record_def item)
qed

lemma split_listed:
  assumes "list_all listable items"
  shows "filter (\<lambda>rec. rec \<noteq> []) (split_on NUL (concat (map listed_record items))) =
    map (\<lambda>item. butlast (listed_record item)) items"
  using assms
proof (induction items)
  case (Cons item items)
  obtain path entry where item: "item = (path, entry)" by (cases item)
  define r where "r = butlast (listed_record item)"
  have eq: "listed_record item = r @ [NUL]"
    by (simp add: r_def item listed_record_def butlast_append)
  have "NUL \<notin> set r" "r \<noteq> []"
    using Cons.prems mode_and_type_chars(2)
    by (auto simp: r_def item listed_record_def butlast_append listable_def NUL_def TAB_def)
  then show ?case using Cons by (simp add: eq)
qed simp

text \<open>
  Reading back the listing \<open>git ls-tree -r -z\<close> prints for a tree yields exactly that tree:
  every path with its object and its kind, and nothing else. (Object ids hold neither blanks
  nor tabs, and no path holds a NUL.)
\<close>

theorem parse_ls_tree_roundtrip:
  assumes "bt_inv (entries tree)" "list_all listable (entries tree)"
  shows "entries (parse_ls_tree (concat (map listed_record (entries tree)))) = entries tree"
proof -
  have "List.map_filter ls_tree_record (map (\<lambda>item. butlast (listed_record item)) items) = items"
    if "list_all listable items" for items
    using that by (induction items) (simp_all add: ls_tree_record_print map_filter_simps)
  with assms show ?thesis
    by (simp add: parse_ls_tree_def split_listed bt_of_list_sorted)
qed

definition sample_tree :: tree_index where
  "sample_tree =
     \<lparr>entries = [(''BUILD'', \<lparr>object = ''b0'', entry_kind = File False\<rparr>),
        (''a/run.sh'', \<lparr>object = ''5e'', entry_kind = File True\<rparr>),
        (''a/x.txt'', \<lparr>object = ''1f'', entry_kind = File False\<rparr>)],
      tree_id = Some ''t1''\<rparr>"

theorem parse_ls_tree_roundtrip_witness:
  "entries (parse_ls_tree (concat (map listed_record (entries sample_tree)))) = entries sample_tree"
  by (rule parse_ls_tree_roundtrip)
    (simp_all add: sample_tree_def bt_inv_def listable_def NUL_def TAB_def)

end
