(* ===== verification/Recipes.thy ===== *)
theory Recipes
  imports Target_Hash Tree_Index "HOL-Library.Option_ord"
begin

section \<open>Hashing recipes and their recorder (partial.rs)\<close>

text \<open>
  \<^verbatim>\<open>RuleRecipe\<close>, \<^verbatim>\<open>PartialRecipes\<close> and \<^verbatim>\<open>RecipeRecorder\<close> of \<^verbatim>\<open>src/partial.rs\<close>. A full generation
  records for every rule what feeds its hash apart from source content, and compacts the
  \<^verbatim>\<open>.bzl\<close> lists of the source files into one default per package plus overrides. The theorems say
  that the compaction loses nothing and does not depend on the order of the query's output.
\<close>

definition RECIPE_VERSION :: nat where
  "RECIPE_VERSION = 1"

record rule_recipe =
  static :: string
  recipe_sources :: "label list"
  recipe_deps :: "string list"

record partial_recipes =
  version :: nat
  seed_hash :: string
  package_seeds_on :: bool
  package_subincludes :: "(string, label list) btree"
  source_subincludes :: "(label, label list) btree"
  rules :: "(string, rule_recipe) btree"
  generated :: "(label, string) btree"
  load_inputs :: "string list"

datatype partial_error =
    RecipeVersionMismatch nat
  | DigestNotHex
  | DigestNot32Bytes
  | NoGeneratingRule label
  | NoSuchRule string
  | UntrackedSource label string
  | UnknownKind string label
  | NoRecipes
  | BadDiffRecord string
  | DiffWithoutPath string
  | EmptyPattern
  | Unsupported string

definition decode_digest :: "crates \<Rightarrow> string \<Rightarrow> partial_error + bytes" where
  "decode_digest c value =
     (case hex_decode c value of
        None \<Rightarrow> Inl DigestNotHex
      | Some bs \<Rightarrow> if length bs = 32 then Inr bs else Inl DigestNot32Bytes)"

definition rule_recipe_new :: "crates \<Rightarrow> bytes \<Rightarrow> label list \<Rightarrow> string list \<Rightarrow> rule_recipe" where
  "rule_recipe_new c static_digest srcs ds =
     \<lparr>static = hex_encode c static_digest, recipe_sources = srcs, recipe_deps = ds\<rparr>"

definition static_digest :: "crates \<Rightarrow> rule_recipe \<Rightarrow> partial_error + bytes" where
  "static_digest c recipe = decode_digest c (static recipe)"

definition subincludes :: "partial_recipes \<Rightarrow> label \<Rightarrow> label list" where
  "subincludes recipes lbl =
     (case bt_get (source_subincludes recipes) lbl of
        Some list \<Rightarrow> list
      | None \<Rightarrow>
         (case bt_get (package_subincludes recipes) (label_package lbl) of
            Some list \<Rightarrow> list
          | None \<Rightarrow> []))"

subsection \<open>The recorder\<close>

type_synonym subinclude_table = "(string, (label list, label list) btree) btree"

record recipe_recorder =
  recipes :: partial_recipes
  rec_subincludes :: subinclude_table

definition recorder_new :: "crates \<Rightarrow> bytes \<Rightarrow> bool \<Rightarrow> recipe_recorder" where
  "recorder_new c seed pkg_seeds =
     \<lparr>recipes = \<lparr>version = RECIPE_VERSION, seed_hash = hex_encode c seed,
        package_seeds_on = pkg_seeds, package_subincludes = [], source_subincludes = [],
        rules = [], generated = [], load_inputs = []\<rparr>,
      rec_subincludes = []\<rparr>"

text \<open>\<^verbatim>\<open>entry(k).or_default()\<close> followed by an update of the value in place.\<close>

definition bt_upsert :: "'k::linorder \<Rightarrow> 'v \<Rightarrow> ('v \<Rightarrow> 'v) \<Rightarrow> ('k, 'v) btree \<Rightarrow> ('k, 'v) btree" where
  "bt_upsert k dflt f m =
     bt_insert k (f (case bt_get m k of None \<Rightarrow> dflt | Some v \<Rightarrow> v)) m"

definition add_subinclude :: "label \<Rightarrow> label list \<Rightarrow> subinclude_table \<Rightarrow> subinclude_table" where
  "add_subinclude lbl subs table =
     bt_upsert (label_package lbl) [] (bt_upsert subs [] (\<lambda>labels. labels @ [lbl])) table"

definition record_source :: "label \<Rightarrow> label list \<Rightarrow> recipe_recorder \<Rightarrow> recipe_recorder" where
  "record_source lbl subs r =
     r\<lparr>rec_subincludes := add_subinclude lbl subs (rec_subincludes r)\<rparr>"

definition record_loading_inputs :: "string list \<Rightarrow> recipe_recorder \<Rightarrow> recipe_recorder" where
  "record_loading_inputs paths r =
     r\<lparr>recipes := (recipes r)\<lparr>load_inputs := bs_of_list (load_inputs (recipes r) @ paths)\<rparr>\<rparr>"

definition record_generated :: "label \<Rightarrow> string \<Rightarrow> recipe_recorder \<Rightarrow> recipe_recorder" where
  "record_generated lbl generating_rule r =
     r\<lparr>recipes := (recipes r)\<lparr>generated := bt_insert lbl generating_rule (generated (recipes r))\<rparr>\<rparr>"

definition record_rule :: "string \<Rightarrow> rule_recipe \<Rightarrow> recipe_recorder \<Rightarrow> recipe_recorder" where
  "record_rule key recipe r =
     r\<lparr>recipes := (recipes r)\<lparr>rules := bt_insert key recipe (rules (recipes r))\<rparr>\<rparr>"

text \<open>\<^verbatim>\<open>Iterator::min\<close> and \<^verbatim>\<open>min_by_key\<close> (the first of several minima).\<close>

fun min_by_key :: "('a \<Rightarrow> 'k::linorder) \<Rightarrow> 'a list \<Rightarrow> 'a option" where
  "min_by_key f [] = None"
| "min_by_key f (x # xs) =
     (case min_by_key f xs of
        None \<Rightarrow> Some x
      | Some y \<Rightarrow> if f x \<le> f y then Some x else Some y)"

definition iter_min :: "'a::linorder list \<Rightarrow> 'a option" where
  "iter_min xs = min_by_key (\<lambda>x. x) xs"

definition default_list :: "(label list, label list) btree \<Rightarrow> label list" where
  "default_list lss =
     (case min_by_key (\<lambda>(_, labels). iter_min labels) lss of
        None \<Rightarrow> []
      | Some (list, _) \<Rightarrow> list)"

definition finish_package ::
  "string \<times> (label list, label list) btree \<Rightarrow> partial_recipes \<Rightarrow> partial_recipes" where
  "finish_package item r =
     (case item of (package, lss) \<Rightarrow>
        let dflt = default_list lss;
            r1 = fold (\<lambda>(list, labels) r.
                   if list = dflt then r
                   else fold (\<lambda>lbl r. r\<lparr>source_subincludes :=
                          bt_insert lbl list (source_subincludes r)\<rparr>) labels r) lss r
        in if dflt \<noteq> []
           then r1\<lparr>package_subincludes := bt_insert package dflt (package_subincludes r1)\<rparr>
           else r1)"

definition finish :: "recipe_recorder \<Rightarrow> partial_recipes" where
  "finish r = fold finish_package (rec_subincludes r) (recipes r)"

subsection \<open>Marker files and workspace paths\<close>

definition marker_file_inputs :: "string \<Rightarrow> string list" where
  "marker_file_inputs text =
     (let rests = List.map_filter (strip_prefix ''FILE:'') (str_lines text);
          labels = filter is_main_repo (map (\<lambda>rest. hd (split_on (CHR '' '') rest)) rests)
      in filter (\<lambda>path. path \<noteq> []) (List.map_filter label_path labels))"

text \<open>\<^verbatim>\<open>Path::extension\<close> of a file name.\<close>

definition path_extension :: "string \<Rightarrow> string option" where
  "path_extension name =
     (if name = ''..'' then None
      else case rsplit_once (CHR ''.'') name of
             None \<Rightarrow> None
           | Some (stem, ext) \<Rightarrow> if stem = [] then None else Some ext)"

text \<open>The directory listing and file contents come from the file system: \<open>None\<close> where reading
  fails.\<close>

definition marker_loading_inputs :: "(string \<times> string option) list option \<Rightarrow> string list" where
  "marker_loading_inputs external_dir =
     (case external_dir of
        None \<Rightarrow> []
      | Some files \<Rightarrow>
          bs_of_list (concat (map (\<lambda>(name, contents).
            if path_extension name \<noteq> Some ''marker'' then []
            else (case contents of None \<Rightarrow> [] | Some text \<Rightarrow> marker_file_inputs text)) files)))"

datatype path_component = Normal string | CurDir | ParentDir | RootDir

text \<open>\<^verbatim>\<open>Path::components\<close> on Unix: empty segments vanish, a dot counts only at the start.\<close>

definition path_segment :: "string \<Rightarrow> path_component list" where
  "path_segment seg =
     (if seg = [] \<or> seg = ''.'' then []
      else if seg = ''..'' then [ParentDir] else [Normal seg])"

definition is_absolute :: "string \<Rightarrow> bool" where
  "is_absolute path \<longleftrightarrow> starts_with ''/'' path"

definition path_components :: "string \<Rightarrow> path_component list" where
  "path_components path =
     (let segs = split_on (CHR ''/'') path
      in (if is_absolute path then [RootDir] else if hd segs = ''.'' then [CurDir] else []) @
         concat (map path_segment segs))"

definition path_strip_prefix :: "string \<Rightarrow> string \<Rightarrow> path_component list option" where
  "path_strip_prefix base path = strip_prefix (path_components base) (path_components path)"

text \<open>The stack of kept segments; \<^verbatim>\<open>parts.pop()?\<close> leaves the workspace.\<close>

fun normalize_parts :: "string list \<Rightarrow> path_component list \<Rightarrow> string list option" where
  "normalize_parts parts [] = Some parts"
| "normalize_parts parts (Normal part # cs) = normalize_parts (parts @ [part]) cs"
| "normalize_parts parts (CurDir # cs) = normalize_parts parts cs"
| "normalize_parts parts (ParentDir # cs) =
     (if parts = [] then None else normalize_parts (butlast parts) cs)"
| "normalize_parts parts (RootDir # cs) = None"

definition normalize_workspace_path ::
  "(string \<Rightarrow> string option) \<Rightarrow> string \<Rightarrow> string \<Rightarrow> string option" where
  "normalize_workspace_path canonicalize workspace val =
     (let val' = (case strip_prefix ''%workspace%/'' val of
                    Some v \<Rightarrow> v
                  | None \<Rightarrow> (case strip_prefix ''%workspace%'' val of Some v \<Rightarrow> v | None \<Rightarrow> val));
          relative =
            (if is_absolute val' then
               (case path_strip_prefix workspace val' of
                  Some stripped \<Rightarrow> Some stripped
                | None \<Rightarrow>
                   (case canonicalize workspace of
                      None \<Rightarrow> None
                    | Some canonical \<Rightarrow> path_strip_prefix canonical val'))
             else Some (path_components val'))
      in case relative of
           None \<Rightarrow> None
         | Some cs \<Rightarrow> map_option (join ''/'') (normalize_parts [] cs))"

subsection \<open>The recorder's table of subincludes\<close>

definition record_sources :: "(label \<times> label list) list \<Rightarrow> recipe_recorder \<Rightarrow> recipe_recorder" where
  "record_sources xs r = fold (\<lambda>(lbl, subs). record_source lbl subs) xs r"

text \<open>What the table holds after a list of sources was recorded.\<close>

definition table_of :: "(label \<times> label list) set \<Rightarrow> subinclude_table \<Rightarrow> bool" where
  "table_of xs table \<longleftrightarrow>
     bt_inv table \<and>
     (\<forall>pkg lss. bt_get table pkg = Some lss \<longrightarrow>
        lss \<noteq> [] \<and> bt_inv lss \<and>
        (\<forall>subs labels. bt_get lss subs = Some labels \<longrightarrow>
           labels \<noteq> [] \<and> set labels = {l. (l, subs) \<in> xs \<and> label_package l = pkg})) \<and>
     (\<forall>(l, subs) \<in> xs. \<exists>lss. bt_get table (label_package l) = Some lss \<and>
        bt_get lss subs \<noteq> None)"

lemma bt_get_upsert:
  "bt_get (bt_upsert k d f m) k' =
     (if k' = k then Some (f (case bt_get m k of None \<Rightarrow> d | Some v \<Rightarrow> v)) else bt_get m k')"
  by (simp add: bt_upsert_def bt_get_insert)

lemma bt_inv_upsert: "bt_inv m \<Longrightarrow> bt_inv (bt_upsert k d f m)"
  by (simp add: bt_upsert_def bt_inv_insert)

lemma bt_insert_not_Nil: "bt_insert k v m \<noteq> []"
  by (cases "(k, v, m)" rule: bt_insert.cases) auto

lemma table_of_empty: "table_of {} []"
  by (simp add: table_of_def)

lemma table_of_add:
  assumes "table_of xs table"
  shows "table_of (insert (l, subs) xs) (add_subinclude l subs table)"
proof -
  let ?p = "label_package l"
  define old where "old = (case bt_get table ?p of None \<Rightarrow> [] | Some lss \<Rightarrow> lss)"
  define new where "new = bt_upsert subs [] (\<lambda>labels. labels @ [l]) old"
  have get: "bt_get (add_subinclude l subs table) pkg =
      (if pkg = ?p then Some new else bt_get table pkg)" for pkg
    by (simp add: add_subinclude_def bt_get_upsert new_def old_def)
  have old: "bt_inv old"
    "bt_get old s = Some labels \<Longrightarrow> labels \<noteq> [] \<and> set labels = {l. (l, s) \<in> xs \<and> label_package l = ?p}"
    "(l', s) \<in> xs \<Longrightarrow> label_package l' = ?p \<Longrightarrow> bt_get old s \<noteq> None" for s labels l'
    using assms by (auto simp: table_of_def old_def split: option.splits)
  have absent: "{l'. (l', s) \<in> xs \<and> label_package l' = ?p} = {}" if "bt_get old s = None" for s
    using old(3) that by blast
  have new: "new \<noteq> []" "bt_inv new"
    by (simp_all add: new_def bt_upsert_def bt_insert_not_Nil bt_inv_insert old(1))
  have new_get: "labels \<noteq> [] \<and> set labels = {l'. (l', s) \<in> insert (l, subs) xs \<and> label_package l' = ?p}"
    if "bt_get new s = Some labels" for s labels
  proof (cases "s = subs")
    case False
    with that have "bt_get old s = Some labels" by (simp add: new_def bt_get_upsert)
    from old(2) [OF this] False show ?thesis by simp
  next
    case True
    show ?thesis
    proof (cases "bt_get old subs")
      case None
      with that True have "labels = [l]" by (simp add: new_def bt_get_upsert)
      with absent [OF None] True show ?thesis by auto
    next
      case (Some ls)
      with that True have "labels = ls @ [l]" by (simp add: new_def bt_get_upsert)
      with old(2) [OF Some] True show ?thesis by auto
    qed
  qed
  have cover: "bt_get new s \<noteq> None" if "(l', s) \<in> insert (l, subs) xs" "label_package l' = ?p" for l' s
    using that old(3) by (auto simp: new_def bt_get_upsert)
  show ?thesis
    unfolding table_of_def
  proof (intro conjI allI impI ballI)
    show "bt_inv (add_subinclude l subs table)"
      using assms by (simp add: add_subinclude_def table_of_def bt_inv_upsert)
  next
    fix pkg lss
    assume "bt_get (add_subinclude l subs table) pkg = Some lss"
    then show "lss \<noteq> []" "bt_inv lss"
      using assms new by (auto simp: get table_of_def split: if_splits)
  next
    fix pkg lss s labels
    assume a: "bt_get (add_subinclude l subs table) pkg = Some lss" "bt_get lss s = Some labels"
    then show "labels \<noteq> []" "set labels = {l'. (l', s) \<in> insert (l, subs) xs \<and> label_package l' = pkg}"
      using assms new_get [of s labels] by (auto simp: get table_of_def split: if_splits)
  next
    fix item
    assume "item \<in> insert (l, subs) xs"
    then show "case item of (l', s) \<Rightarrow> \<exists>lss. bt_get (add_subinclude l subs table) (label_package l') =
        Some lss \<and> bt_get lss s \<noteq> None"
      using assms cover by (cases item) (auto simp: get table_of_def)
  qed
qed

lemma record_sources_table:
  "table_of done_before (rec_subincludes r) \<Longrightarrow>
     table_of (set xs \<union> done_before) (rec_subincludes (record_sources xs r))"
proof (induction xs arbitrary: r done_before)
  case (Cons x xs)
  obtain l subs where x: "x = (l, subs)" by (cases x)
  from Cons.prems have "table_of (insert (l, subs) done_before) (rec_subincludes (record_source l subs r))"
    by (simp add: record_source_def table_of_add)
  from Cons.IH [OF this] show ?case by (simp add: x record_sources_def)
qed (simp add: record_sources_def)

lemma record_sources_recipes [simp]: "recipes (record_sources xs r) = recipes r"
  by (induction xs arbitrary: r) (auto simp: record_sources_def record_source_def)

text \<open>The two maps \<open>finish\<close> adds to, flattened.\<close>

definition overrides :: "subinclude_table \<Rightarrow> (label \<times> label list) list" where
  "overrides table = concat (map (\<lambda>(pkg, lss). concat (map (\<lambda>(subs, labels).
     if subs = default_list lss then [] else map (\<lambda>l. (l, subs)) labels) lss)) table)"

definition defaults :: "subinclude_table \<Rightarrow> (string \<times> label list) list" where
  "defaults table = concat (map (\<lambda>(pkg, lss).
     if default_list lss \<noteq> [] then [(pkg, default_list lss)] else []) table)"

lemma fold_insert_labels:
  "fold (\<lambda>lbl r. r\<lparr>source_subincludes := bt_insert lbl subs (source_subincludes r)\<rparr>) labels r =
     r\<lparr>source_subincludes := bt_extend (map (\<lambda>l. (l, subs)) labels) (source_subincludes r)\<rparr>"
  by (induction labels arbitrary: r) (simp_all add: bt_extend_def)

lemma fold_insert_lists:
  "fold (\<lambda>(subs, labels) r. if subs = d then r
       else fold (\<lambda>lbl r. r\<lparr>source_subincludes := bt_insert lbl subs (source_subincludes r)\<rparr>) labels r)
     lss r =
   r\<lparr>source_subincludes := bt_extend (concat (map (\<lambda>(subs, labels).
       if subs = d then [] else map (\<lambda>l. (l, subs)) labels) lss)) (source_subincludes r)\<rparr>"
  by (induction lss arbitrary: r) (auto simp: fold_insert_labels bt_extend_append)

lemma finish_flat:
  "fold finish_package table r =
     r\<lparr>source_subincludes := bt_extend (overrides table) (source_subincludes r),
       package_subincludes := bt_extend (defaults table) (package_subincludes r)\<rparr>"
proof (induction table arbitrary: r)
  case Nil
  show ?case by (simp add: overrides_def defaults_def)
next
  case (Cons item table)
  obtain pkg lss where item: "item = (pkg, lss)" by (cases item)
  have one: "finish_package item r =
      r\<lparr>source_subincludes := bt_extend (overrides [item]) (source_subincludes r),
        package_subincludes := bt_extend (defaults [item]) (package_subincludes r)\<rparr>"
    by (simp add: finish_package_def item fold_insert_lists overrides_def defaults_def Let_def
        bt_extend_def)
  show ?case
    by (simp add: one Cons.IH) (simp add: overrides_def defaults_def bt_extend_append item)
qed

lemma min_by_key_None [simp]: "min_by_key f xs = None \<longleftrightarrow> xs = []"
  by (cases xs) (auto split: option.splits)

lemma min_by_key_Some:
  "min_by_key f xs = Some x \<Longrightarrow> x \<in> set xs \<and> (\<forall>y \<in> set xs. f x \<le> f y)"
proof (induction xs arbitrary: x)
  case (Cons a xs)
  then show ?case by (fastforce split: option.splits if_splits)
qed simp

lemma iter_min_Some:
  assumes "xs \<noteq> []"
  shows "\<exists>m. iter_min xs = Some m \<and> m \<in> set xs \<and> (\<forall>y \<in> set xs. m \<le> y)"
proof (cases "iter_min xs")
  case None
  with assms show ?thesis by (simp add: iter_min_def)
next
  case (Some m)
  then show ?thesis using min_by_key_Some [of "\<lambda>x. x" xs m] by (simp add: iter_min_def)
qed

text \<open>The default of a package is the list of its lexicographically first source.\<close>

lemma default_list_first:
  assumes "table_of xs table" "bt_get table pkg = Some lss"
  shows "\<exists>l. (l, default_list lss) \<in> xs \<and> label_package l = pkg \<and>
    (\<forall>(l', s') \<in> xs. label_package l' = pkg \<longrightarrow> l \<le> l')"
proof -
  let ?key = "\<lambda>(s :: label list, labels :: label list). iter_min labels"
  have lss: "lss \<noteq> []" "bt_inv lss"
    and content: "\<And>s labels. bt_get lss s = Some labels \<Longrightarrow>
      labels \<noteq> [] \<and> set labels = {l. (l, s) \<in> xs \<and> label_package l = pkg}"
    using assms by (auto simp: table_of_def)
  from lss(1) obtain s labels where m: "min_by_key ?key lss = Some (s, labels)"
    by (metis min_by_key_None not_None_eq surj_pair)
  from min_by_key_Some [OF m] have mem: "(s, labels) \<in> set lss"
    and least: "\<And>s' labels'. (s', labels') \<in> set lss \<Longrightarrow> iter_min labels \<le> iter_min labels'"
    by auto
  from mem content have c: "labels \<noteq> []" "set labels = {l. (l, s) \<in> xs \<and> label_package l = pkg}"
    by (simp_all add: bt_get_eq_Some lss(2))
  obtain l where l: "iter_min labels = Some l" "l \<in> set labels"
    using iter_min_Some [OF c(1)] by blast
  have "l \<le> l'" if x: "(l', s') \<in> xs" "label_package l' = pkg" for l' s'
  proof -
    from assms x obtain labels' where get: "bt_get lss s' = Some labels'"
      by (fastforce simp: table_of_def)
    with content x have "l' \<in> set labels'" "labels' \<noteq> []" by auto
    with iter_min_Some obtain m' where m': "iter_min labels' = Some m'" "m' \<le> l'" by blast
    from get have "(s', labels') \<in> set lss" by (simp add: bt_get_eq_Some lss(2))
    from least [OF this] l(1) m' show ?thesis by simp
  qed
  moreover have "default_list lss = s" by (simp add: default_list_def m)
  ultimately show ?thesis using l(2) c(2) by blast
qed

definition single_valued_list :: "(label \<times> label list) set \<Rightarrow> bool" where
  "single_valued_list xs \<longleftrightarrow> (\<forall>l s s'. (l, s) \<in> xs \<longrightarrow> (l, s') \<in> xs \<longrightarrow> s = s')"

lemma set_overrides:
  assumes "table_of xs table"
  shows "(l, s) \<in> set (overrides table) \<longleftrightarrow>
    (l, s) \<in> xs \<and> (\<exists>lss. bt_get table (label_package l) = Some lss \<and> s \<noteq> default_list lss)"
proof -
  have inv: "bt_inv table" using assms by (simp add: table_of_def)
  have "(l, s) \<in> set (overrides table) \<longleftrightarrow>
      (\<exists>pkg lss labels. bt_get table pkg = Some lss \<and> bt_get lss s = Some labels \<and>
         s \<noteq> default_list lss \<and> l \<in> set labels)" (is "_ \<longleftrightarrow> ?rhs")
  proof -
    have "bt_inv lss" if "(pkg, lss) \<in> set table" for pkg lss
      using assms that by (auto simp: table_of_def simp flip: bt_get_eq_Some)
    moreover have "(l, s) \<in> set (overrides table) \<longleftrightarrow>
        (\<exists>pkg lss labels. (pkg, lss) \<in> set table \<and> (s, labels) \<in> set lss \<and>
           s \<noteq> default_list lss \<and> l \<in> set labels)"
    proof -
      have inner: "(l, s) \<in> set (if subs = d then [] else map (\<lambda>l. (l, subs)) labels) \<longleftrightarrow>
          subs = s \<and> s \<noteq> d \<and> l \<in> set labels" for subs d labels
        by auto
      show ?thesis
        unfolding overrides_def in_concat_map_pair inner by blast
    qed
    ultimately show ?thesis
      by (simp add: bt_get_eq_Some inv) (metis bt_get_eq_Some)
  qed
  also have "?rhs \<longleftrightarrow> (l, s) \<in> xs \<and>
      (\<exists>lss. bt_get table (label_package l) = Some lss \<and> s \<noteq> default_list lss)"
    using assms by (fastforce simp: table_of_def)
  finally show ?thesis .
qed

lemma set_defaults:
  assumes "table_of xs table"
  shows "(pkg, d) \<in> set (defaults table) \<longleftrightarrow>
    (\<exists>lss. bt_get table pkg = Some lss \<and> d = default_list lss \<and> d \<noteq> [])"
  using assms by (auto simp: defaults_def table_of_def bt_get_eq_Some split: if_splits)

lemma finish_lookups:
  assumes "table_of xs table" "single_valued_list xs"
    and "source_subincludes r = []" "package_subincludes r = []"
  shows "bt_get (source_subincludes (fold finish_package table r)) l = Some s \<longleftrightarrow>
      (l, s) \<in> xs \<and> (\<exists>lss. bt_get table (label_package l) = Some lss \<and> s \<noteq> default_list lss)"
    and "bt_get (package_subincludes (fold finish_package table r)) pkg = Some d \<longleftrightarrow>
      (\<exists>lss. bt_get table pkg = Some lss \<and> d = default_list lss \<and> d \<noteq> [])"
proof -
  have "bt_get (bt_of_list (overrides table)) l = Some s \<longleftrightarrow> (l, s) \<in> set (overrides table)"
    by (rule bt_get_of_list_functional)
      (use assms(2) in \<open>auto simp: set_overrides [OF assms(1)] single_valued_list_def\<close>)
  then show "bt_get (source_subincludes (fold finish_package table r)) l = Some s \<longleftrightarrow>
      (l, s) \<in> xs \<and> (\<exists>lss. bt_get table (label_package l) = Some lss \<and> s \<noteq> default_list lss)"
    by (simp add: finish_flat assms(3) set_overrides [OF assms(1)] flip: bt_of_list_def)
  have "bt_get (bt_of_list (defaults table)) pkg = Some d \<longleftrightarrow> (pkg, d) \<in> set (defaults table)"
    by (rule bt_get_of_list_functional) (auto simp: set_defaults [OF assms(1)])
  then show "bt_get (package_subincludes (fold finish_package table r)) pkg = Some d \<longleftrightarrow>
      (\<exists>lss. bt_get table pkg = Some lss \<and> d = default_list lss \<and> d \<noteq> [])"
    by (simp add: finish_flat assms(4) set_defaults [OF assms(1)] flip: bt_of_list_def)
qed

lemma default_list_unique:
  assumes "table_of xs t1" "table_of xs t2" "single_valued_list xs"
    and "bt_get t1 pkg = Some l1" "bt_get t2 pkg = Some l2"
  shows "default_list l1 = default_list l2"
proof -
  obtain a where a: "(a, default_list l1) \<in> xs" "label_package a = pkg"
      "\<And>l' s'. (l', s') \<in> xs \<Longrightarrow> label_package l' = pkg \<Longrightarrow> a \<le> l'"
    using default_list_first [OF assms(1,4)] by blast
  obtain b where b: "(b, default_list l2) \<in> xs" "label_package b = pkg"
      "\<And>l' s'. (l', s') \<in> xs \<Longrightarrow> label_package l' = pkg \<Longrightarrow> b \<le> l'"
    using default_list_first [OF assms(2,5)] by blast
  have "a = b" using a(3) [OF b(1,2)] b(3) [OF a(1,2)] by simp
  with a(1) b(1) assms(3) show ?thesis by (auto simp: single_valued_list_def)
qed

lemma table_of_packages:
  assumes "table_of xs table"
  shows "(\<exists>lss. bt_get table pkg = Some lss) \<longleftrightarrow> pkg \<in> (label_package \<circ> fst) ` xs"
proof
  assume "\<exists>lss. bt_get table pkg = Some lss"
  then obtain lss where "bt_get table pkg = Some lss" by blast
  from default_list_first [OF assms this] show "pkg \<in> (label_package \<circ> fst) ` xs" by force
next
  assume "pkg \<in> (label_package \<circ> fst) ` xs"
  with assms show "\<exists>lss. bt_get table pkg = Some lss" by (fastforce simp: table_of_def)
qed

lemma finish_canonical:
  assumes "table_of xs t1" "table_of xs t2" "single_valued_list xs"
    and "source_subincludes r = []" "package_subincludes r = []"
  shows "fold finish_package t1 r = fold finish_package t2 r"
proof -
  have tables: "(\<exists>lss. bt_get t1 pkg = Some lss \<and> P (default_list lss)) \<longleftrightarrow>
      (\<exists>lss. bt_get t2 pkg = Some lss \<and> P (default_list lss))" for pkg P
    using default_list_unique [OF assms(1-3)] table_of_packages [OF assms(1)]
      table_of_packages [OF assms(2)] by metis
  have opt: "x = y" if "\<And>v. x = Some v \<longleftrightarrow> y = Some v" for x y :: "'z option"
    using that by (metis not_None_eq)
  have "bt_extend (overrides t1) [] = bt_extend (overrides t2) []"
  proof (rule bt.store_ext)
    show "bt_get (bt_extend (overrides t1) []) k = bt_get (bt_extend (overrides t2) []) k" for k
      using finish_lookups(1) [OF assms(1,3,4,5)] finish_lookups(1) [OF assms(2,3,4,5)]
      by (intro opt) (simp add: finish_flat assms tables [of _ "\<lambda>d. _ \<noteq> d"])
  qed simp_all
  moreover have "bt_extend (defaults t1) [] = bt_extend (defaults t2) []"
  proof (rule bt.store_ext)
    show "bt_get (bt_extend (defaults t1) []) k = bt_get (bt_extend (defaults t2) []) k" for k
      using finish_lookups(2) [OF assms(1,3,4,5)] finish_lookups(2) [OF assms(2,3,4,5)]
      by (intro opt) (simp add: finish_flat assms tables [of _ "\<lambda>d. _ = d \<and> _ \<noteq> []"])
  qed simp_all
  ultimately show ?thesis by (simp add: finish_flat assms)
qed

lemma record_sources_fresh:
  "table_of (set xs) (rec_subincludes (record_sources xs (recorder_new c seed flag)))"
proof -
  have "table_of {} (rec_subincludes (recorder_new c seed flag))"
    by (simp add: recorder_new_def table_of_empty)
  from record_sources_table [OF this, of xs] show ?thesis by simp
qed

lemma distinct_single_valued: "distinct (map fst xs) \<Longrightarrow> single_valued_list (set xs)"
  by (auto simp: single_valued_list_def dest: eq_key_imp_eq_value)

lemma finish_subincludes:
  assumes "table_of xs table" "single_valued_list xs"
    and "source_subincludes r = []" "package_subincludes r = []" "(l, subs) \<in> xs"
  shows "subincludes (fold finish_package table r) l = subs"
proof -
  let ?R = "fold finish_package table r"
  note look = finish_lookups [OF assms(1-4)]
  obtain lss where lss: "bt_get table (label_package l) = Some lss"
    using assms(1,5) by (fastforce simp: table_of_def)
  show ?thesis
  proof (cases "subs = default_list lss")
    case False
    with look(1) [of l subs] lss assms(5) show ?thesis by (simp add: subincludes_def)
  next
    case True
    have none: "bt_get (source_subincludes ?R) l = None"
    proof (rule ccontr)
      assume "bt_get (source_subincludes ?R) l \<noteq> None"
      then obtain s where "bt_get (source_subincludes ?R) l = Some s" by blast
      with look(1) [of l s] assms(2,5) lss True show False by (auto simp: single_valued_list_def)
    qed
    show ?thesis
    proof (cases "default_list lss = []")
      case True
      have "bt_get (package_subincludes ?R) (label_package l) = None"
        using look(2) [of "label_package l"] lss True by (metis not_None_eq option.inject)
      with none True \<open>subs = default_list lss\<close> show ?thesis by (simp add: subincludes_def)
    next
      case False
      then have "bt_get (package_subincludes ?R) (label_package l) = Some (default_list lss)"
        using look(2) lss by simp
      with none True show ?thesis by (simp add: subincludes_def)
    qed
  qed
qed

subsection \<open>Properties of the recorder\<close>

text \<open>
  Compacting the recorded \<open>.bzl\<close> lists into package defaults and overrides loses nothing:
  looking a source up in the finished recipes returns exactly the list recorded for it.
\<close>

theorem finish_keeps_subincludes:
  assumes "distinct (map fst xs)" "(lbl, subs) \<in> set xs"
  shows "subincludes (finish (record_sources xs (recorder_new c seed flag))) lbl = subs"
proof -
  have "subincludes (fold finish_package
      (rec_subincludes (record_sources xs (recorder_new c seed flag)))
      (recipes (recorder_new c seed flag))) lbl = subs"
    by (rule finish_subincludes [OF record_sources_fresh distinct_single_valued])
      (simp_all add: assms recorder_new_def)
  then show ?thesis by (simp add: finish_def)
qed

definition sample_sources :: "(label \<times> label list) list" where
  "sample_sources =
     [(''//p:b'', [''//d:x.bzl'']), (''//p:a'', []), (''//q:z'', [''//d:x.bzl'', ''//d:y.bzl''])]"

theorem finish_keeps_subincludes_witness:
  "subincludes (finish (record_sources sample_sources (recorder_new crates_ref [] True))) ''//p:b'' =
     [''//d:x.bzl'']"
  by (rule finish_keeps_subincludes) (simp_all add: sample_sources_def)

text \<open>
  The finished recipes do not depend on the order in which the query listed the sources
  (the query runs with \<open>--order_output=no\<close>): recording the same sources in any order yields the
  same recipes, so the serialized file is the same.
\<close>

theorem finish_order_independent:
  assumes "distinct (map fst xs)" "distinct (map fst ys)" "set xs = set ys"
  shows "finish (record_sources xs (recorder_new c seed flag)) =
    finish (record_sources ys (recorder_new c seed flag))"
proof -
  have "table_of (set xs) (rec_subincludes (record_sources ys (recorder_new c seed flag)))"
    using record_sources_fresh [of ys] by (simp add: assms(3))
  from finish_canonical [OF record_sources_fresh this distinct_single_valued [OF assms(1)]]
  show ?thesis by (simp add: finish_def recorder_new_def)
qed

theorem finish_order_independent_witness:
  "finish (record_sources sample_sources (recorder_new crates_ref [] True)) =
   finish (record_sources (rev sample_sources) (recorder_new crates_ref [] True))"
  by (rule finish_order_independent [OF _ _ set_rev [symmetric]]) (simp_all add: sample_sources_def)

subsection \<open>Normalised workspace paths\<close>

lemma normalize_parts_all:
  "normalize_parts parts cs = Some out \<Longrightarrow> \<forall>seg \<in> set parts. P seg \<Longrightarrow>
     \<forall>seg. Normal seg \<in> set cs \<longrightarrow> P seg \<Longrightarrow> \<forall>seg \<in> set out. P seg"
proof (induction parts cs rule: normalize_parts.induct)
  case (4 parts cs)
  then show ?case by (auto split: if_splits dest: in_set_butlastD)
qed auto

lemma path_components_Normal:
  assumes "Normal seg \<in> set (path_components path)"
  shows "path_segment seg = [Normal seg] \<and> CHR ''/'' \<notin> set seg"
proof -
  from assms have "Normal seg \<in> set (concat (map path_segment (split_on (CHR ''/'') path)))"
    by (auto simp: path_components_def Let_def split: if_splits)
  then obtain s where "s \<in> set (split_on (CHR ''/'') path)" "Normal seg \<in> set (path_segment s)"
    by auto
  then show ?thesis
    by (auto simp: path_segment_def dest: split_on_pieces split: if_splits)
qed

lemma path_strip_prefix_Normal:
  "path_strip_prefix base path = Some cs \<Longrightarrow> Normal seg \<in> set cs \<Longrightarrow>
     path_segment seg = [Normal seg] \<and> CHR ''/'' \<notin> set seg"
  by (rule path_components_Normal [of seg path])
    (auto simp: path_strip_prefix_def strip_prefix_eq_Some)

text \<open>
  A normalised workspace path is one git can name: its segments are non-empty, none is a
  dot or a double dot, and it does not start with a slash, whatever the path was written as.
\<close>

theorem normalize_workspace_path_clean:
  assumes "normalize_workspace_path canonicalize workspace val = Some out"
  shows "out = [] \<or>
    (\<forall>seg \<in> set (split_on (CHR ''/'') out). seg \<noteq> [] \<and> seg \<noteq> ''.'' \<and> seg \<noteq> ''..'')"
proof -
  from assms obtain cs parts where out: "out = join ''/'' parts"
    and parts: "normalize_parts [] cs = Some parts"
    and cs: "\<forall>seg. Normal seg \<in> set cs \<longrightarrow> path_segment seg = [Normal seg] \<and> CHR ''/'' \<notin> set seg"
    by (auto simp: normalize_workspace_path_def Let_def split: option.splits if_splits
        dest: path_components_Normal path_strip_prefix_Normal)
  have clean: "\<forall>seg \<in> set parts. path_segment seg = [Normal seg] \<and> CHR ''/'' \<notin> set seg"
    by (rule normalize_parts_all [OF parts _ cs]) simp
  show ?thesis
  proof (cases "parts = []")
    case False
    then have "split_on (CHR ''/'') out = parts"
      using clean by (simp add: out)
    then show ?thesis using clean by (auto simp: path_segment_def split: if_splits)
  qed (simp add: out)
qed

theorem normalize_workspace_path_clean_witness:
  "normalize_workspace_path (\<lambda>_. None) ''/w'' ''%workspace%/a/./b/../c'' = Some ''a/c'' \<and>
   list_all (\<lambda>seg. seg \<noteq> [] \<and> seg \<noteq> ''.'' \<and> seg \<noteq> ''..'') (split_on (CHR ''/'') ''a/c'')"
proof -
  have run: "normalize_workspace_path (\<lambda>_. None) ''/w'' ''%workspace%/a/./b/../c'' = Some ''a/c''"
    by (simp add: normalize_workspace_path_def path_components_def path_segment_def
        is_absolute_def starts_with_def)
  with normalize_workspace_path_clean [OF run] show ?thesis by (simp add: list_all_iff)
qed

end
