(* ===== verification/Memo_Walk.thy ===== *)
theory Memo_Walk
  imports Prelude
begin

section \<open>Memoised depth-first evaluation\<close>

text \<open>
  The program computes a value per label by depth-first search over dependencies with a memo
  table and a stack of the labels being visited: \<^verbatim>\<open>calculate_distance\<close> in \<^verbatim>\<open>src/model.rs\<close> and
  \<^verbatim>\<open>Evaluator::rule\<close> in \<^verbatim>\<open>src/partial.rs\<close>. Both are only specified on dependencies without
  cycles: there the memo table must be invisible, and the value is the one the recursive
  specification gives. The locale states what one visit owes its callers, the lemma draws the
  global conclusion once for both.

  \<open>sem k v\<close> is the specification: the key \<open>k\<close> has value \<open>v\<close>. \<open>visit k path st\<close> is the code,
  with the stack and the state that carries the memo table.
\<close>

lemma accp_no_cycle: "Wellfounded.accp R k \<Longrightarrow> \<not> R\<^sup>+\<^sup>+ k k"
proof (induction rule: accp.induct)
  case (accI k)
  show ?case
  proof
    assume "R\<^sup>+\<^sup>+ k k"
    then obtain d where d: "R d k" and up: "R\<^sup>*\<^sup>* k d"
      by (metis tranclpD tranclp_into_rtranclp tranclp.cases rtranclp.rtrancl_refl)
    from up d have "R\<^sup>+\<^sup>+ d d"
      by (metis rtranclp_into_tranclp1 rtranclp_into_tranclp2)
    with accI d show False by blast
  qed
qed

text \<open>A walk may owe its value only on some stacks, such as those short enough for its fuel.\<close>

locale stacked_walk =
  fixes deps :: "'k \<Rightarrow> 'k list"
    and sem :: "'k \<Rightarrow> 'v \<Rightarrow> bool"
    and consistent :: "'s \<Rightarrow> bool"
    and visit :: "'k \<Rightarrow> 'k list \<Rightarrow> 's \<Rightarrow> ('e + 'v) \<times> 's"
    and stack_ok :: "'k list \<Rightarrow> bool"
  assumes sem_acc: "sem k v \<Longrightarrow> Wellfounded.accp (\<lambda>d k. d \<in> set (deps k)) k"
    and stack_empty: "stack_ok []"
    and stack_push: "stack_ok path \<Longrightarrow> sem k v \<Longrightarrow> k \<notin> set path \<Longrightarrow> stack_ok (path @ [k])"
    and visit_local:
      "sem k v \<Longrightarrow> k \<notin> set path \<Longrightarrow> stack_ok path \<Longrightarrow> consistent st \<Longrightarrow>
       (\<And>d w st'. d \<in> set (deps k) \<Longrightarrow> sem d w \<Longrightarrow> consistent st' \<Longrightarrow>
          \<exists>st''. visit d (path @ [k]) st' = (Inr w, st'') \<and> consistent st'') \<Longrightarrow>
       \<exists>st'. visit k path st = (Inr v, st') \<and> consistent st'"
begin

abbreviation dep_rel :: "'k \<Rightarrow> 'k \<Rightarrow> bool" where
  "dep_rel d k \<equiv> d \<in> set (deps k)"

text \<open>
  On a key with a specified value, a visit whose stack holds only keys that do not depend on it
  returns that value and keeps the memo table consistent.
\<close>

lemma visit_value:
  assumes "sem k v" "\<And>p. p \<in> set path \<Longrightarrow> \<not> dep_rel\<^sup>*\<^sup>* p k" "stack_ok path" "consistent st"
  shows "\<exists>st'. visit k path st = (Inr v, st') \<and> consistent st'"
proof -
  from assms(1) have "Wellfounded.accp dep_rel k" by (rule sem_acc)
  then show ?thesis using assms
  proof (induction arbitrary: v path st rule: accp.induct)
    case (accI k)
    have notin: "k \<notin> set path" using accI.prems(2) by blast
    show ?case
    proof (rule visit_local [OF accI.prems(1) notin accI.prems(3,4)])
      fix d w st'
      assume d: "d \<in> set (deps k)" and w: "sem d w" and st': "consistent st'"
      show "\<exists>st''. visit d (path @ [k]) st' = (Inr w, st'') \<and> consistent st''"
      proof (rule accI.IH [OF d w _ stack_push [OF accI.prems(3,1) notin] st'])
        fix p
        assume p: "p \<in> set (path @ [k])"
        show "\<not> dep_rel\<^sup>*\<^sup>* p d"
        proof (cases "p = k")
          case True
          have "\<not> dep_rel\<^sup>+\<^sup>+ k k"
            by (rule accp_no_cycle [OF sem_acc [OF accI.prems(1)]])
          with True d show ?thesis by (metis rtranclp_into_tranclp1)
        next
          case False
          with p accI.prems(2) d show ?thesis
            by (metis Un_iff empty_iff insert_iff list.set(1,2) rtranclp.rtrancl_into_rtrancl set_append)
        qed
      qed
    qed
  qed
qed

lemma visit_top: "sem k v \<Longrightarrow> consistent st \<Longrightarrow> \<exists>st'. visit k [] st = (Inr v, st') \<and> consistent st'"
  by (rule visit_value) (simp_all add: stack_empty)

end

text \<open>A walk that owes its value on every stack.\<close>

locale memo_walk =
  fixes deps :: "'k \<Rightarrow> 'k list"
    and sem :: "'k \<Rightarrow> 'v \<Rightarrow> bool"
    and consistent :: "'s \<Rightarrow> bool"
    and visit :: "'k \<Rightarrow> 'k list \<Rightarrow> 's \<Rightarrow> ('e + 'v) \<times> 's"
  assumes sem_acc: "sem k v \<Longrightarrow> Wellfounded.accp (\<lambda>d k. d \<in> set (deps k)) k"
    and sem_deps: "sem k v \<Longrightarrow> d \<in> set (deps k) \<Longrightarrow> \<exists>w. sem d w"
    and visit_local:
      "sem k v \<Longrightarrow> k \<notin> set path \<Longrightarrow> consistent st \<Longrightarrow>
       (\<And>d w st'. d \<in> set (deps k) \<Longrightarrow> sem d w \<Longrightarrow> consistent st' \<Longrightarrow>
          \<exists>st''. visit d (path @ [k]) st' = (Inr w, st'') \<and> consistent st'') \<Longrightarrow>
       \<exists>st'. visit k path st = (Inr v, st') \<and> consistent st'"

sublocale memo_walk \<subseteq> stacked: stacked_walk deps sem consistent visit "\<lambda>_. True"
  by unfold_locales (auto intro: sem_acc visit_local)

context memo_walk
begin

lemma visit_top: "sem k v \<Longrightarrow> consistent st \<Longrightarrow> \<exists>st'. visit k [] st = (Inr v, st') \<and> consistent st'"
  by (rule stacked.visit_top)

end

end
