(* ===== verification/Evaluate.thy ===== *)
theory Evaluate
  imports Recipes Memo_Walk
begin

section \<open>Evaluating recipes against a tree (partial.rs)\<close>

text \<open>
  \<^verbatim>\<open>evaluate\<close>, \<^verbatim>\<open>package_seeds\<close> and the memoising \<^verbatim>\<open>Evaluator\<close> of \<^verbatim>\<open>src/partial.rs\<close>. The
  specification \<open>rule_sem\<close> gives a rule's two digests by recursion over its dependencies with
  no memo tables and no stack; the code is shown to compute it, to return on every
  acyclic recipe set, to leave a hash alone when nothing it reads changed, and to change it when
  a source it reads changed.
\<close>

declare split_paired_All [simp del] split_paired_Ex [simp del]

record eval_env =
  ev_crates :: crates
  ev_recipes :: partial_recipes
  ev_tree :: tree_index
  ev_sources :: "(label, bytes) btree"

text \<open>The two memo tables of \<^verbatim>\<open>Evaluator\<close>.\<close>

record eval_state =
  soft_digests :: "string \<Rightarrow> bytes option option"
  cache :: "string \<Rightarrow> (bytes \<times> bytes) option"

definition empty_state :: eval_state where
  "empty_state = \<lparr>soft_digests = (\<lambda>_. None), cache = (\<lambda>_. None)\<rparr>"

definition source_or_soft ::
  "eval_env \<Rightarrow> label \<Rightarrow> eval_state \<Rightarrow> bytes option \<times> eval_state" where
  "source_or_soft e source st =
     (case bt_get (ev_sources e) source of
        Some digest \<Rightarrow> (Some digest, st)
      | None \<Rightarrow>
         (case soft_digests st source of
            Some soft \<Rightarrow> (soft, st)
          | None \<Rightarrow>
             (let soft = soft_digest (ev_crates e) (ev_tree e) source
              in (soft, st\<lparr>soft_digests := (soft_digests st)(source \<mapsto> soft)\<rparr>))))"

fun feed_sources ::
  "eval_env \<Rightarrow> string \<Rightarrow> label list \<Rightarrow> bytes \<Rightarrow> eval_state \<Rightarrow> (partial_error + bytes) \<times> eval_state" where
  "feed_sources e key [] acc st = (Inr acc, st)"
| "feed_sources e key (source # sources) acc st =
     (case source_or_soft e source st of
        (None, st') \<Rightarrow> (Inl (UntrackedSource source key), st')
      | (Some digest, st') \<Rightarrow> feed_sources e key sources (acc @ digest) st')"

text \<open>\<^verbatim>\<open>Evaluator::rule\<close> and the loop over a recipe's dependencies.\<close>

function eval_rule ::
    "eval_env \<Rightarrow> string \<Rightarrow> string list \<Rightarrow> eval_state \<Rightarrow>
     (partial_error + bytes \<times> bytes) \<times> eval_state"
  and eval_deps ::
    "eval_env \<Rightarrow> string list \<Rightarrow> string list \<Rightarrow> bytes \<Rightarrow> eval_state \<Rightarrow>
     (partial_error + bytes) \<times> eval_state" where
  "eval_rule e key path st =
     (case cache st key of
        Some digest \<Rightarrow> (Inr digest, st)
      | None \<Rightarrow>
     (case bt_get (rules (ev_recipes e)) key of
        None \<Rightarrow> (Inl (NoSuchRule key), st)
      | Some recipe \<Rightarrow>
     (case static_digest (ev_crates e) recipe of
        Inl err \<Rightarrow> (Inl err, st)
      | Inr fixed \<Rightarrow>
          if key \<in> set path then
            (let placeholder = sha256 (ev_crates e) (as_bytes ''cycle'' @ fixed)
             in (Inr (placeholder, placeholder), st))
          else
            (case feed_sources e key (recipe_sources recipe) fixed st of
               (Inl err, st1) \<Rightarrow> (Inl err, st1)
             | (Inr fed, st1) \<Rightarrow>
                 (case eval_deps e (recipe_deps recipe) (path @ [key]) [] st1 of
                    (Inl err, st2) \<Rightarrow> (Inl err, st2)
                  | (Inr overall, st2) \<Rightarrow>
                      (let direct = sha256 (ev_crates e) fed;
                           digest = (sha256 (ev_crates e) (overall @ direct), direct)
                       in (Inr digest, st2\<lparr>cache := (cache st2)(key \<mapsto> digest)\<rparr>)))))))"
| "eval_deps e [] path acc st = (Inr acc, st)"
| "eval_deps e (dep # deps) path acc st =
     (case eval_rule e dep path st of
        (Inl err, st') \<Rightarrow> (Inl err, st')
      | (Inr (dep_overall, _), st') \<Rightarrow> eval_deps e deps path (acc @ dep_overall) st')"
  by pat_completeness auto
termination
proof (relation "measures
    [case_sum (\<lambda>(e, key, path, st). card (fst ` set (rules (ev_recipes e)) - set path))
       (\<lambda>(e, deps, path, acc, st). card (fst ` set (rules (ev_recipes e)) - set path)),
     case_sum (\<lambda>_. 0) (\<lambda>(e, deps, path, acc, st). Suc (length deps))]"; clarsimp?)
  fix e key path recipe
  assume key: "bt_get (rules (ev_recipes e)) key = Some recipe" "key \<notin> set path"
  then have "key \<in> fst ` set (rules (ev_recipes e)) - set path"
    by (force dest: map_of_SomeD)
  then show "card (fst ` set (rules (ev_recipes e)) - insert key (set path)) <
      card (fst ` set (rules (ev_recipes e)) - set path)"
    by (metis Diff_insert card_Diff1_less finite_Diff finite_imageI finite_set)
qed

declare eval_rule.simps [simp del] eval_deps.simps(2) [simp del]

subsection \<open>Package seeds and the loop over the targets\<close>

text \<open>\<^verbatim>\<open>package_seeds\<close>; its local table of soft digests memoises the pure \<open>soft_digest\<close>.\<close>

definition package_labels :: "partial_recipes \<Rightarrow> label list \<Rightarrow> (string, label list) btree" where
  "package_labels rcp source_labels =
     fold (\<lambda>lbl packages.
       if subincludes rcp lbl = [] then packages
       else bt_upsert (label_package lbl) []
              (\<lambda>labels. bs_of_list (labels @ subincludes rcp lbl)) packages)
       source_labels []"

definition package_seed_bytes :: "crates \<Rightarrow> tree_index \<Rightarrow> label list \<Rightarrow> bytes" where
  "package_seed_bytes c tree labels =
     concat (map (\<lambda>lbl. case soft_digest c tree lbl of
       None \<Rightarrow> [] | Some digest \<Rightarrow> as_bytes lbl @ digest) labels)"

definition package_seeds ::
  "crates \<Rightarrow> partial_recipes \<Rightarrow> label list \<Rightarrow> tree_index \<Rightarrow> (string, bytes) btree" where
  "package_seeds c rcp source_labels tree =
     fold (\<lambda>(package, labels) seeds.
       if list_ex (\<lambda>lbl. soft_digest c tree lbl \<noteq> None) labels
       then bt_insert package (sha256 c (package_seed_bytes c tree labels)) seeds
       else seeds)
       (package_labels rcp source_labels) []"

definition source_labels_of :: "(label, string) btree \<Rightarrow> label list" where
  "source_labels_of targets = map fst (filter (\<lambda>(lbl, knd). knd = ''SourceFile'') targets)"

definition subinclude_seed :: "crates \<Rightarrow> partial_recipes \<Rightarrow> label \<Rightarrow> bytes" where
  "subinclude_seed c rcp lbl =
     sha256 c (as_bytes lbl @ concat (map as_bytes (subincludes rcp lbl)))"

definition eval_env_of ::
  "crates \<Rightarrow> partial_recipes \<Rightarrow> (label, string) btree \<Rightarrow> tree_index \<Rightarrow> eval_env" where
  "eval_env_of c rcp targets tree =
     \<lparr>ev_crates = c, ev_recipes = rcp, ev_tree = tree,
      ev_sources = bt_of_list (map (\<lambda>lbl. (lbl, source_digest c tree lbl (subinclude_seed c rcp lbl)))
        (source_labels_of targets))\<rparr>"

definition eval_package_seeds ::
  "crates \<Rightarrow> partial_recipes \<Rightarrow> (label, string) btree \<Rightarrow> tree_index \<Rightarrow> (string, bytes) btree" where
  "eval_package_seeds c rcp targets tree =
     (if package_seeds_on rcp then package_seeds c rcp (source_labels_of targets) tree else [])"

text \<open>The hash of a source target: its digest, the seed files, and its package's seed.\<close>

definition source_target_digest ::
  "eval_env \<Rightarrow> bytes \<Rightarrow> (string, bytes) btree \<Rightarrow> label \<Rightarrow> bytes \<Rightarrow> bytes" where
  "source_target_digest e seed seeds lbl digest =
     sha256 (ev_crates e) (digest @ seed @
       (case bt_get seeds (label_package lbl) of None \<Rightarrow> [] | Some s \<Rightarrow> s))"

text \<open>One iteration; indexing \<^verbatim>\<open>source_digests\<close> at a source label never fails, since the same
  labels filled it, so the model's missing case is never reached.\<close>

definition eval_target ::
  "eval_env \<Rightarrow> bytes \<Rightarrow> (string, bytes) btree \<Rightarrow> label \<Rightarrow> string \<Rightarrow> eval_state \<Rightarrow>
   (partial_error + bytes \<times> bytes) \<times> eval_state" where
  "eval_target e seed seeds lbl knd st =
     (if knd = ''Rule'' then eval_rule e lbl [] st
      else if knd = ''GeneratedFile'' then
        (case bt_get (generated (ev_recipes e)) lbl of
           None \<Rightarrow> (Inl (NoGeneratingRule lbl), st)
         | Some generating_rule \<Rightarrow> eval_rule e generating_rule [] st)
      else if knd = ''SourceFile'' then
        (case bt_get (ev_sources e) lbl of
           None \<Rightarrow> (Inl (UntrackedSource lbl lbl), st)
         | Some digest \<Rightarrow>
            (let d = source_target_digest e seed seeds lbl digest in (Inr (d, d), st)))
      else (Inl (UnknownKind knd lbl), st))"

definition target_hash_of :: "string \<Rightarrow> bytes \<times> bytes \<Rightarrow> target_hash" where
  "target_hash_of knd digest =
     \<lparr>kind = knd, hash = Sha256 (fst digest), direct_hash = Sha256 (snd digest)\<rparr>"

fun eval_targets ::
  "eval_env \<Rightarrow> bytes \<Rightarrow> (string, bytes) btree \<Rightarrow> (label \<times> string) list \<Rightarrow> eval_state \<Rightarrow>
   (label, target_hash) btree \<Rightarrow> partial_error + (label, target_hash) btree" where
  "eval_targets e seed seeds [] st hashes = Inr hashes"
| "eval_targets e seed seeds ((lbl, knd) # targets) st hashes =
     (case eval_target e seed seeds lbl knd st of
        (Inl err, st') \<Rightarrow> Inl err
      | (Inr digest, st') \<Rightarrow>
          eval_targets e seed seeds targets st' (bt_insert lbl (target_hash_of knd digest) hashes))"

definition evaluate ::
  "crates \<Rightarrow> partial_recipes \<Rightarrow> (label, string) btree \<Rightarrow> tree_index \<Rightarrow>
   partial_error + (label, target_hash) btree" where
  "evaluate c rcp targets tree =
     (if version rcp \<noteq> RECIPE_VERSION then Inl (RecipeVersionMismatch (version rcp))
      else case decode_digest c (seed_hash rcp) of
             Inl err \<Rightarrow> Inl err
           | Inr seed \<Rightarrow>
               eval_targets (eval_env_of c rcp targets tree) seed
                 (eval_package_seeds c rcp targets tree) targets empty_state [])"

subsection \<open>The specification\<close>

definition source_value :: "eval_env \<Rightarrow> label \<Rightarrow> bytes option" where
  "source_value e source =
     (case bt_get (ev_sources e) source of
        Some digest \<Rightarrow> Some digest
      | None \<Rightarrow> soft_digest (ev_crates e) (ev_tree e) source)"

definition rule_deps :: "eval_env \<Rightarrow> string \<Rightarrow> string list" where
  "rule_deps e key =
     (case bt_get (rules (ev_recipes e)) key of None \<Rightarrow> [] | Some recipe \<Rightarrow> recipe_deps recipe)"

inductive rule_sem :: "eval_env \<Rightarrow> string \<Rightarrow> bytes \<times> bytes \<Rightarrow> bool" for e where
  "bt_get (rules (ev_recipes e)) key = Some recipe \<Longrightarrow>
   static_digest (ev_crates e) recipe = Inr fixed \<Longrightarrow>
   map (source_value e) (recipe_sources recipe) = map Some sds \<Longrightarrow>
   list_all2 (rule_sem e) (recipe_deps recipe) dvs \<Longrightarrow>
   direct = sha256 (ev_crates e) (fixed @ concat sds) \<Longrightarrow>
   rule_sem e key (sha256 (ev_crates e) (concat (map fst dvs) @ direct), direct)"

inductive_cases rule_semE: "rule_sem e key v"

lemma rule_sem_functional: "rule_sem e key v \<Longrightarrow> rule_sem e key w \<Longrightarrow> v = w"
proof (induction arbitrary: w rule: rule_sem.induct)
  case (1 key recipe fixed sds dvs direct)
  from "1.prems" obtain fixed' sds' dvs' where w:
    "static_digest (ev_crates e) recipe = Inr fixed'"
    "map (source_value e) (recipe_sources recipe) = map Some sds'"
    "list_all2 (rule_sem e) (recipe_deps recipe) dvs'"
    "w = (sha256 (ev_crates e) (concat (map fst dvs') @ sha256 (ev_crates e) (fixed' @ concat sds')),
          sha256 (ev_crates e) (fixed' @ concat sds'))"
    using "1.hyps"(1) by (auto elim: rule_semE)
  have "fixed' = fixed" using w(1) "1.hyps"(2) by simp
  moreover have "sds' = sds" using w(2) "1.hyps"(3) by (simp add: inj_map_eq_map)
  moreover have "dvs = dvs'"
    using "1.IH" w(3)
    by (intro nth_equalityI) (auto simp: list_all2_conv_all_nth simp del: split_paired_All)
  ultimately show ?case by (simp add: w(4) "1.hyps")
qed

lemma rule_sem_rule_deps:
  "rule_sem e key v \<Longrightarrow> d \<in> set (rule_deps e key) \<Longrightarrow> \<exists>w. rule_sem e d w"
  by (elim rule_semE) (fastforce simp: rule_deps_def list_all2_conv_all_nth in_set_conv_nth)

lemma rule_sem_acc: "rule_sem e key v \<Longrightarrow> Wellfounded.accp (\<lambda>d k. d \<in> set (rule_deps e k)) key"
proof (induction rule: rule_sem.induct)
  case (1 key recipe fixed sds dvs direct)
  show ?case
  proof (rule accp.accI)
    fix d
    assume "d \<in> set (rule_deps e key)"
    with "1.hyps"(1) have "d \<in> set (recipe_deps recipe)" by (simp add: rule_deps_def)
    with "1.IH" show "Wellfounded.accp (\<lambda>d k. d \<in> set (rule_deps e k)) d"
      by (auto simp: list_all2_conv_all_nth in_set_conv_nth)
  qed
qed

subsection \<open>The code computes the specification\<close>

definition consistent_state :: "eval_env \<Rightarrow> eval_state \<Rightarrow> bool" where
  "consistent_state e st \<longleftrightarrow>
     (\<forall>s x. soft_digests st s = Some x \<longrightarrow> x = soft_digest (ev_crates e) (ev_tree e) s) \<and>
     (\<forall>k v. cache st k = Some v \<longrightarrow> rule_sem e k v)"

lemma consistent_empty [simp]: "consistent_state e empty_state"
  by (simp add: consistent_state_def empty_state_def)

lemma source_or_soft_value:
  assumes "consistent_state e st"
  shows "\<exists>st'. source_or_soft e s st = (source_value e s, st') \<and> consistent_state e st'"
  using assms
  by (auto simp: source_or_soft_def source_value_def consistent_state_def Let_def
      split: option.splits)

lemma feed_sources_value:
  assumes "consistent_state e st" "map (source_value e) ss = map Some sds"
  shows "\<exists>st'. feed_sources e key ss acc st = (Inr (acc @ concat sds), st') \<and> consistent_state e st'"
  using assms
proof (induction ss arbitrary: st acc sds)
  case (Cons s ss)
  then obtain d sds' where sds: "sds = d # sds'" "source_value e s = Some d"
    "map (source_value e) ss = map Some sds'"
    by (cases sds) auto
  obtain st1 where "source_or_soft e s st = (Some d, st1)" "consistent_state e st1"
    using source_or_soft_value [OF Cons.prems(1), of s] sds(2) by auto
  with Cons.IH [OF _ sds(3), of st1 "acc @ d"] sds(1) show ?case by auto
qed simp

lemma eval_deps_value:
  assumes "\<And>d w st'. d \<in> set ds \<Longrightarrow> rule_sem e d w \<Longrightarrow> consistent_state e st' \<Longrightarrow>
      \<exists>st''. eval_rule e d path st' = (Inr w, st'') \<and> consistent_state e st''"
    and "list_all2 (rule_sem e) ds vs" "consistent_state e st"
  shows "\<exists>st'. eval_deps e ds path acc st = (Inr (acc @ concat (map fst vs)), st') \<and>
    consistent_state e st'"
  using assms(2,1,3)
proof (induction ds vs arbitrary: acc st rule: list_all2_induct)
  case Nil
  then show ?case by simp
next
  case (Cons d ds v vs)
  obtain o' x where v: "v = (o', x)" by (cases v)
  obtain st1 where st1: "eval_rule e d path st = (Inr v, st1)" "consistent_state e st1"
    using Cons.prems(1) [of d v st] Cons.hyps(1) Cons.prems(2) by auto
  obtain st2 where "eval_deps e ds path (acc @ o') st1 = (Inr ((acc @ o') @ concat (map fst vs)), st2)"
      "consistent_state e st2"
    using Cons.IH [of st1 "acc @ o'"] Cons.prems(1) st1(2) by auto
  with st1 v show ?case by (simp add: eval_deps.simps(2))
qed

lemma eval_rule_local:
  assumes sem: "rule_sem e key v" and notin: "key \<notin> set path" and st: "consistent_state e st"
    and deps: "\<And>d w st'. d \<in> set (rule_deps e key) \<Longrightarrow> rule_sem e d w \<Longrightarrow> consistent_state e st' \<Longrightarrow>
      \<exists>st''. eval_rule e d (path @ [key]) st' = (Inr w, st'') \<and> consistent_state e st''"
  shows "\<exists>st'. eval_rule e key path st = (Inr v, st') \<and> consistent_state e st'"
proof (cases "cache st key")
  case (Some w)
  with st have "rule_sem e key w" by (simp add: consistent_state_def)
  with sem have "w = v" by (auto dest: rule_sem_functional)
  with Some st show ?thesis by (simp add: eval_rule.simps)
next
  case None
  from sem obtain recipe fixed sds dvs where r:
    "bt_get (rules (ev_recipes e)) key = Some recipe"
    "static_digest (ev_crates e) recipe = Inr fixed"
    "map (source_value e) (recipe_sources recipe) = map Some sds"
    "list_all2 (rule_sem e) (recipe_deps recipe) dvs"
    "v = (sha256 (ev_crates e) (concat (map fst dvs) @ sha256 (ev_crates e) (fixed @ concat sds)),
          sha256 (ev_crates e) (fixed @ concat sds))"
    by (auto elim: rule_semE)
  obtain st1 where st1: "feed_sources e key (recipe_sources recipe) fixed st =
      (Inr (fixed @ concat sds), st1)" "consistent_state e st1"
    using feed_sources_value [OF st r(3)] by blast
  have "d \<in> set (rule_deps e key)" if "d \<in> set (recipe_deps recipe)" for d
    using that r(1) by (simp add: rule_deps_def)
  then obtain st2 where st2: "eval_deps e (recipe_deps recipe) (path @ [key]) [] st1 =
      (Inr (concat (map fst dvs)), st2)" "consistent_state e st2"
    using eval_deps_value [OF _ r(4) st1(2), of "path @ [key]" "[]"] deps by auto
  have "eval_rule e key path st = (Inr v, st2\<lparr>cache := (cache st2)(key \<mapsto> v)\<rparr>)"
    using None r notin st1 st2 by (simp add: eval_rule.simps Let_def)
  moreover have "consistent_state e (st2\<lparr>cache := (cache st2)(key \<mapsto> v)\<rparr>)"
    using st2(2) sem by (auto simp: consistent_state_def)
  ultimately show ?thesis by blast
qed

interpretation ev: memo_walk "rule_deps e" "rule_sem e" "consistent_state e" "eval_rule e" for e
proof unfold_locales
  show "rule_sem e k v \<Longrightarrow> Wellfounded.accp (\<lambda>d k. d \<in> set (rule_deps e k)) k" for k v
    by (rule rule_sem_acc)
  show "rule_sem e k v \<Longrightarrow> d \<in> set (rule_deps e k) \<Longrightarrow> \<exists>w. rule_sem e d w" for k v d
    by (rule rule_sem_rule_deps)
qed (rule eval_rule_local)

text \<open>The value of a target, by kind.\<close>

inductive target_sem :: "eval_env \<Rightarrow> bytes \<Rightarrow> (string, bytes) btree \<Rightarrow> label \<Rightarrow> string \<Rightarrow> bytes \<times> bytes \<Rightarrow> bool"
  for e seed seeds where
  rule: "rule_sem e lbl v \<Longrightarrow> target_sem e seed seeds lbl ''Rule'' v"
| generated: "bt_get (generated (ev_recipes e)) lbl = Some r \<Longrightarrow> rule_sem e r v \<Longrightarrow>
    target_sem e seed seeds lbl ''GeneratedFile'' v"
| source: "bt_get (ev_sources e) lbl = Some digest \<Longrightarrow>
    d = source_target_digest e seed seeds lbl digest \<Longrightarrow>
    target_sem e seed seeds lbl ''SourceFile'' (d, d)"

lemma eval_target_value:
  assumes "target_sem e seed seeds lbl knd v" "consistent_state e st"
  shows "\<exists>st'. eval_target e seed seeds lbl knd st = (Inr v, st') \<and> consistent_state e st'"
  using assms
  by (cases rule: target_sem.cases) (auto simp: eval_target_def Let_def dest: ev.visit_top)

lemma eval_targets_value:
  assumes "consistent_state e st" "list_all2 (\<lambda>(lbl, knd) v. target_sem e seed seeds lbl knd v) ts vs"
  shows "eval_targets e seed seeds ts st hashes =
    Inr (bt_extend (map2 (\<lambda>(lbl, knd) v. (lbl, target_hash_of knd v)) ts vs) hashes)"
  using assms(2,1)
proof (induction ts vs arbitrary: st hashes rule: list_all2_induct)
  case Nil
  then show ?case by simp
next
  case (Cons t ts v vs)
  obtain lbl knd where t: "t = (lbl, knd)" by (cases t)
  with Cons.hyps(1) Cons.prems obtain st1 where
    "eval_target e seed seeds lbl knd st = (Inr v, st1)" "consistent_state e st1"
    using eval_target_value by fastforce
  with Cons.IH t show ?case by (simp add: bt_extend_def)
qed

lemma map2_fst:
  "length xs = length ys \<Longrightarrow> map fst (map2 (\<lambda>(a, b) v. (a, g b v)) xs ys) = map fst xs"
  by (induction xs ys rule: list_induct2) auto

lemma map_of_map2:
  assumes "distinct (map fst ts)" "length ts = length vs" "(lbl, knd) = ts ! i" "i < length ts"
  shows "map_of (map2 (\<lambda>(lbl, knd) v. (lbl, g knd v)) ts vs) lbl = Some (g knd (vs ! i))"
proof -
  have "map2 (\<lambda>(lbl, knd) v. (lbl, g knd v)) ts vs ! i = (lbl, g knd (vs ! i))"
    using assms by (auto split: prod.splits)
  then have "(lbl, g knd (vs ! i)) \<in> set (map2 (\<lambda>(lbl, knd) v. (lbl, g knd v)) ts vs)"
    using assms by (metis (no_types, lifting) length_map length_zip min_less_iff_conj nth_mem)
  moreover have "distinct (map fst (map2 (\<lambda>(lbl, knd) v. (lbl, g knd v)) ts vs))"
    using assms(1,2) by (simp only: map2_fst)
  ultimately show ?thesis by simp
qed

lemma evaluate_value:
  assumes targets: "bt_inv targets" and ok: "version rcp = RECIPE_VERSION" "decode_digest c (seed_hash rcp) = Inr seed"
    and sem: "\<And>lbl knd. (lbl, knd) \<in> set targets \<Longrightarrow>
      \<exists>v. target_sem (eval_env_of c rcp targets tree) seed (eval_package_seeds c rcp targets tree) lbl knd v"
  shows "\<exists>hs. evaluate c rcp targets tree = Inr hs \<and> bt_inv hs \<and> fst ` set hs = fst ` set targets \<and>
    (\<forall>lbl knd v. (lbl, knd) \<in> set targets \<longrightarrow>
       target_sem (eval_env_of c rcp targets tree) seed (eval_package_seeds c rcp targets tree) lbl knd v \<longrightarrow>
       bt_get hs lbl = Some (target_hash_of knd v))"
proof -
  let ?e = "eval_env_of c rcp targets tree" and ?seeds = "eval_package_seeds c rcp targets tree"
  let ?sem = "target_sem ?e seed ?seeds"
  have functional: "v = w" if "?sem lbl knd v" "?sem lbl knd w" for lbl knd v w
    using that by (auto elim!: target_sem.cases dest: rule_sem_functional)
  obtain vs where vs: "list_all2 (\<lambda>(lbl, knd) v. ?sem lbl knd v) targets vs"
  proof -
    have "\<forall>t \<in> set targets. \<exists>v. (\<lambda>(lbl, knd) v. ?sem lbl knd v) t v" using sem by auto
    then obtain f where "\<forall>t \<in> set targets. (\<lambda>(lbl, knd) v. ?sem lbl knd v) t (f t)" by metis
    then have "list_all2 (\<lambda>(lbl, knd) v. ?sem lbl knd v) targets (map f targets)"
      by (simp add: list_all2_conv_all_nth)
    then show thesis by (rule that)
  qed
  define kvs where "kvs = map2 (\<lambda>(lbl, knd) v. (lbl, target_hash_of knd v)) targets vs"
  have len: "length targets = length vs" using vs by (rule list_all2_lengthD)
  have keys: "map fst kvs = map fst targets" unfolding kvs_def by (rule map2_fst [OF len])
  have run: "evaluate c rcp targets tree = Inr (bt_of_list kvs)"
    using eval_targets_value [OF consistent_empty vs, of "[]"] ok
    by (simp add: evaluate_def kvs_def bt_of_list_def)
  have dist: "distinct (map fst targets)" using targets by (rule bt_distinct)
  have get: "bt_get (bt_of_list kvs) = map_of kvs"
    using dist by (intro bt_get_of_list) (simp only: keys)
  have "bt_get (bt_of_list kvs) lbl = Some (target_hash_of knd v)"
    if mem: "(lbl, knd) \<in> set targets" and v: "?sem lbl knd v" for lbl knd v
  proof -
    from mem obtain i where i: "i < length targets" "(lbl, knd) = targets ! i"
      by (metis in_set_conv_nth)
    with vs have "?sem lbl knd (vs ! i)"
      by (metis (no_types, lifting) case_prod_conv list_all2_nthD)
    with v functional have "v = vs ! i" by blast
    with map_of_map2 [OF dist len i(2,1)] show ?thesis unfolding get by (simp add: kvs_def)
  qed
  moreover have "fst ` set (bt_of_list kvs) = fst ` set targets"
    using get by (metis dom_map_of_conv_image_fst keys list.set_map)
  ultimately show ?thesis using run by auto
qed

subsection \<open>Every acyclic recipe set has values\<close>

text \<open>
  What a full generation records: every recipe's digest decodes, its sources are targets or
  tracked files, its dependencies are recorded rules, and the dependencies have no cycle.
\<close>

definition recipes_closed :: "eval_env \<Rightarrow> bool" where
  "recipes_closed e \<longleftrightarrow>
     (\<forall>(key, recipe) \<in> set (rules (ev_recipes e)).
        (\<exists>fixed. static_digest (ev_crates e) recipe = Inr fixed) \<and>
        (\<forall>s \<in> set (recipe_sources recipe). source_value e s \<noteq> None) \<and>
        (\<forall>d \<in> set (recipe_deps recipe). d \<in> fst ` set (rules (ev_recipes e))))"

definition dependency_graph :: "eval_env \<Rightarrow> (string \<times> string) set" where
  "dependency_graph e =
     {(d, key). key \<in> fst ` set (rules (ev_recipes e)) \<and> d \<in> set (rule_deps e key)}"

lemma finite_dependency_graph: "finite (dependency_graph e)"
proof -
  have "dependency_graph e = (\<Union>key \<in> fst ` set (rules (ev_recipes e)). (\<lambda>d. (d, key)) ` set (rule_deps e key))"
    by (auto simp: dependency_graph_def)
  then show ?thesis by simp
qed

lemma rule_sem_exists:
  assumes "recipes_closed e" "acyclic (dependency_graph e)"
  shows "key \<in> fst ` set (rules (ev_recipes e)) \<Longrightarrow> \<exists>v. rule_sem e key v"
proof (induction key rule: wf_induct_rule [OF finite_acyclic_wf [OF finite_dependency_graph assms(2)]])
  case (1 key)
  from "1.prems" obtain recipe where get: "bt_get (rules (ev_recipes e)) key = Some recipe"
    by (metis domIff dom_map_of_conv_image_fst not_None_eq)
  then have mem: "(key, recipe) \<in> set (rules (ev_recipes e))" by (rule map_of_SomeD)
  with assms(1) obtain fixed where fixed: "static_digest (ev_crates e) recipe = Inr fixed"
    and srcs: "\<forall>s \<in> set (recipe_sources recipe). source_value e s \<noteq> None"
    and deps: "\<forall>d \<in> set (recipe_deps recipe). d \<in> fst ` set (rules (ev_recipes e))"
    by (fastforce simp: recipes_closed_def)
  define sds where "sds = map (\<lambda>s. the (source_value e s)) (recipe_sources recipe)"
  have sds: "map (source_value e) (recipe_sources recipe) = map Some sds"
    using srcs by (simp add: sds_def)
  have "\<forall>d \<in> set (recipe_deps recipe). \<exists>v. rule_sem e d v"
  proof
    fix d
    assume d: "d \<in> set (recipe_deps recipe)"
    then have "(d, key) \<in> dependency_graph e"
      using "1.prems" get by (simp add: dependency_graph_def rule_deps_def)
    with "1.IH" deps d show "\<exists>v. rule_sem e d v" by blast
  qed
  then obtain f where "\<forall>d \<in> set (recipe_deps recipe). rule_sem e d (f d)" by metis
  then have "list_all2 (rule_sem e) (recipe_deps recipe) (map f (recipe_deps recipe))"
    by (simp add: list_all2_conv_all_nth)
  from rule_sem.intros [OF get fixed sds this refl] show ?case by blast
qed

subsection \<open>What a hash depends on\<close>

text \<open>Two environments that agree on the recipes: the same rules evaluated against two trees.\<close>

definition same_recipes :: "eval_env \<Rightarrow> eval_env \<Rightarrow> bool" where
  "same_recipes e1 e2 \<longleftrightarrow> ev_crates e1 = ev_crates e2 \<and> ev_recipes e1 = ev_recipes e2"

definition depends_on :: "eval_env \<Rightarrow> string \<Rightarrow> string \<Rightarrow> bool" where
  "depends_on e k d \<longleftrightarrow> (\<lambda>d k. d \<in> set (rule_deps e k))\<^sup>*\<^sup>* d k"

definition reads_source :: "eval_env \<Rightarrow> string \<Rightarrow> label \<Rightarrow> bool" where
  "reads_source e k s \<longleftrightarrow>
     (\<exists>recipe. bt_get (rules (ev_recipes e)) k = Some recipe \<and> s \<in> set (recipe_sources recipe))"

lemma depends_on_refl [simp]: "depends_on e k k"
  by (simp add: depends_on_def)

lemma depends_on_step: "d \<in> set (rule_deps e k) \<Longrightarrow> depends_on e d d' \<Longrightarrow> depends_on e k d'"
  unfolding depends_on_def by (rule rtranclp.rtrancl_into_rtrancl)

lemma rule_sem_local:
  assumes "rule_sem e1 k v" "same_recipes e1 e2"
    and "\<And>k' s. depends_on e1 k k' \<Longrightarrow> reads_source e1 k' s \<Longrightarrow> source_value e1 s = source_value e2 s"
  shows "rule_sem e2 k v"
  using assms
proof (induction rule: rule_sem.induct)
  case (1 key recipe fixed sds dvs direct)
  have same: "ev_crates e2 = ev_crates e1" "ev_recipes e2 = ev_recipes e1"
    using "1.prems"(1) by (simp_all add: same_recipes_def)
  have "source_value e1 s = source_value e2 s" if "s \<in> set (recipe_sources recipe)" for s
    using "1.prems"(2) [of key s] "1.hyps"(1) that by (auto simp: reads_source_def)
  then have srcs: "map (source_value e2) (recipe_sources recipe) = map Some sds"
    using "1.hyps"(3) by (metis map_cong)
  have "rule_sem e2 d w" if "d \<in> set (recipe_deps recipe)"
    "rule_sem e1 d w \<and> (same_recipes e1 e2 \<longrightarrow>
      (\<forall>k' s. depends_on e1 d k' \<longrightarrow> reads_source e1 k' s \<longrightarrow> source_value e1 s = source_value e2 s) \<longrightarrow>
      rule_sem e2 d w)" for d w
  proof -
    have "d \<in> set (rule_deps e1 key)" using that(1) "1.hyps"(1) by (simp add: rule_deps_def)
    then show ?thesis using that(2) "1.prems" by (blast intro: depends_on_step)
  qed
  then have "list_all2 (rule_sem e2) (recipe_deps recipe) dvs"
    by (rule list.rel_mono_strong [OF "1.IH"])
  from rule_sem.intros [OF _ _ srcs this, of key fixed] show ?case
    using "1.hyps" by (simp add: same)
qed

text \<open>The inputs SHA-256 is applied to while the rules are evaluated.\<close>

definition rule_preimages :: "eval_env \<Rightarrow> bytes set" where
  "rule_preimages e =
     {fixed @ concat sds |fixed sds key recipe.
        bt_get (rules (ev_recipes e)) key = Some recipe \<and>
        static_digest (ev_crates e) recipe = Inr fixed \<and>
        map (source_value e) (recipe_sources recipe) = map Some sds} \<union>
     {concat (map fst dvs) @ snd v |dvs v key recipe.
        bt_get (rules (ev_recipes e)) key = Some recipe \<and>
        list_all2 (rule_sem e) (recipe_deps recipe) dvs \<and> rule_sem e key v}"

lemma concat_blocks_inject:
  assumes "length xs = length ys" "\<forall>x \<in> set xs. length x = n" "\<forall>y \<in> set ys. length y = n"
  shows "concat xs = concat ys \<longleftrightarrow> xs = ys"
  using assms by (induction xs ys rule: list_induct2) auto

lemma static_digest_length: "static_digest c recipe = Inr fixed \<Longrightarrow> length fixed = 32"
  by (auto simp: static_digest_def decode_digest_def split: option.splits if_splits)

definition digests_32 :: "eval_env \<Rightarrow> bool" where
  "digests_32 e \<longleftrightarrow> crates_ok (ev_crates e) \<and> (\<forall>d \<in> snd ` set (ev_sources e). length d = 32)"

lemma source_value_length: "digests_32 e \<Longrightarrow> source_value e s = Some d \<Longrightarrow> length d = 32"
  by (auto simp: digests_32_def source_value_def dest!: map_of_SomeD dest: length_soft_digest
      split: option.splits)

lemma rule_sem_length: "digests_32 e \<Longrightarrow> rule_sem e k v \<Longrightarrow> length (fst v) = 32 \<and> length (snd v) = 32"
  by (elim rule_semE) (auto simp: digests_32_def)

lemma rule_sem_lengths:
  assumes "digests_32 e" "list_all2 (rule_sem e) ds vs"
  shows "\<forall>x \<in> set (map fst vs). length x = 32"
  using assms(2) by (induction rule: list_all2_induct) (simp_all add: rule_sem_length [OF assms(1)])

lemma map_Some_eq_imp_set: "map f xs = map Some ys \<Longrightarrow> y \<in> set ys \<Longrightarrow> \<exists>x \<in> set xs. f x = Some y"
  by (metis imageE image_eqI list.set_map)

text \<open>One rule: if a source it reads or a dependency's digest differs, so do its digests.\<close>

lemma rule_changes:
  assumes s: "same_recipes e1 e2" "digests_32 e1" "digests_32 e2"
    and inj: "inj_on (sha256 (ev_crates e1)) (rule_preimages e1 \<union> rule_preimages e2)"
    and v: "rule_sem e1 k v1" "rule_sem e2 k v2"
    and diff: "(\<exists>s. reads_source e1 k s \<and> source_value e1 s \<noteq> source_value e2 s) \<or>
      (\<exists>d w1 w2. d \<in> set (rule_deps e1 k) \<and> rule_sem e1 d w1 \<and> rule_sem e2 d w2 \<and> fst w1 \<noteq> fst w2)"
  shows "fst v1 \<noteq> fst v2"
proof
  assume eq: "fst v1 = fst v2"
  have same: "ev_crates e2 = ev_crates e1" "ev_recipes e2 = ev_recipes e1"
    using s(1) by (simp_all add: same_recipes_def)
  let ?sha = "sha256 (ev_crates e1)"
  from v(1) obtain recipe fixed sds1 dvs1 where r:
    "bt_get (rules (ev_recipes e1)) k = Some recipe" "static_digest (ev_crates e1) recipe = Inr fixed"
    "map (source_value e1) (recipe_sources recipe) = map Some sds1"
    "list_all2 (rule_sem e1) (recipe_deps recipe) dvs1"
    "v1 = (?sha (concat (map fst dvs1) @ ?sha (fixed @ concat sds1)), ?sha (fixed @ concat sds1))"
    by (auto elim: rule_semE)
  from v(2) obtain sds2 dvs2 where r2:
    "map (source_value e2) (recipe_sources recipe) = map Some sds2"
    "list_all2 (rule_sem e2) (recipe_deps recipe) dvs2"
    "v2 = (?sha (concat (map fst dvs2) @ ?sha (fixed @ concat sds2)), ?sha (fixed @ concat sds2))"
    using r(1,2) by (auto elim: rule_semE simp: same)
  have get2: "bt_get (rules (ev_recipes e2)) k = Some recipe" "static_digest (ev_crates e2) recipe = Inr fixed"
    using r(1,2) by (simp_all add: same)
  have pre: "concat (map fst dvs1) @ snd v1 \<in> rule_preimages e1"
      "concat (map fst dvs2) @ snd v2 \<in> rule_preimages e2"
    unfolding rule_preimages_def using r(1,4) get2(1) r2(2) v by blast+
  have pred: "fixed @ concat sds1 \<in> rule_preimages e1" "fixed @ concat sds2 \<in> rule_preimages e2"
    unfolding rule_preimages_def using r(1-3) get2 r2(1) by blast+
  have "?sha (concat (map fst dvs1) @ snd v1) = ?sha (concat (map fst dvs2) @ snd v2)"
    using eq r(5) r2(3) by simp
  then have whole: "concat (map fst dvs1) @ snd v1 = concat (map fst dvs2) @ snd v2"
    using inj_onD [OF inj] pre(1,2) by blast
  have len: "length dvs1 = length dvs2"
    using r(4) r2(2) by (metis list_all2_lengthD)
  have "length (snd v1) = length (snd v2)"
    using rule_sem_length s(2,3) v by metis
  with whole have deps: "concat (map fst dvs1) = concat (map fst dvs2)" and direct: "snd v1 = snd v2"
    by auto
  have "map fst dvs1 = map fst dvs2"
  proof (rule concat_blocks_inject [THEN iffD1, OF _ _ _ deps])
    show "length (map fst dvs1) = length (map fst dvs2)" by (simp add: len)
    show "\<forall>x \<in> set (map fst dvs1). length x = 32" "\<forall>x \<in> set (map fst dvs2). length x = 32"
      using rule_sem_lengths [OF s(2) r(4)] rule_sem_lengths [OF s(3) r2(2)] by blast+
  qed
  moreover have "sds1 = sds2"
  proof -
    have "?sha (fixed @ concat sds1) = ?sha (fixed @ concat sds2)"
      using direct r(5) r2(3) by simp
    then have "concat sds1 = concat sds2" using inj_onD [OF inj] pred by blast
    moreover have "length sds1 = length sds2" using r(3) r2(1) by (metis length_map)
    moreover have "\<forall>x \<in> set sds1. length x = 32" "\<forall>x \<in> set sds2. length x = 32"
      using map_Some_eq_imp_set [OF r(3)] map_Some_eq_imp_set [OF r2(1)]
        source_value_length s(2,3) by blast+
    ultimately show ?thesis using concat_blocks_inject by blast
  qed
  ultimately show False
    using diff
  proof (elim disjE exE conjE)
    fix s'
    assume a: "sds1 = sds2" "reads_source e1 k s'" "source_value e1 s' \<noteq> source_value e2 s'"
    then have "map (source_value e1) (recipe_sources recipe) = map (source_value e2) (recipe_sources recipe)"
      using r(3) r2(1) by simp
    with a(2,3) r(1) show False by (auto simp: reads_source_def)
  next
    fix d w1 w2
    assume eqs: "map fst dvs1 = map fst dvs2" and d: "d \<in> set (rule_deps e1 k)"
      "rule_sem e1 d w1" "rule_sem e2 d w2" "fst w1 \<noteq> fst w2"
    then obtain i where i: "i < length dvs1" "d = recipe_deps recipe ! i"
      using r(1,4) by (auto simp: rule_deps_def in_set_conv_nth list_all2_conv_all_nth)
    then have "w1 = dvs1 ! i" "w2 = dvs2 ! i"
      using r(4) r2(2) d(2,3) by (auto simp: list_all2_conv_all_nth dest: rule_sem_functional)
    with eqs i len d(4) show False by (metis nth_map)
  qed
qed

lemma change_propagates:
  assumes "same_recipes e1 e2" "digests_32 e1" "digests_32 e2"
    and "inj_on (sha256 (ev_crates e1)) (rule_preimages e1 \<union> rule_preimages e2)"
    and "depends_on e1 k k'" "rule_sem e1 k v1" "rule_sem e2 k v2"
    and "reads_source e1 k' s" "source_value e1 s \<noteq> source_value e2 s"
  shows "fst v1 \<noteq> fst v2"
  using assms(5,6,7) unfolding depends_on_def
proof (induction arbitrary: v1 v2 rule: rtranclp_induct)
  case base
  then show ?case using assms(8,9) by (intro rule_changes [OF assms(1-4)]) auto
next
  case (step d k)
  have deps_same: "rule_deps e2 k = rule_deps e1 k"
    using assms(1) by (simp add: rule_deps_def same_recipes_def)
  obtain w1 where w1: "rule_sem e1 d w1" using rule_sem_rule_deps step by blast
  obtain w2 where w2: "rule_sem e2 d w2"
    using rule_sem_rule_deps [OF step.prems(2)] step.hyps(2) deps_same by metis
  from step.IH [OF w1 w2] w1 w2 step.hyps(2) step.prems show ?case
    by (intro rule_changes [OF assms(1-4)]) auto
qed

subsection \<open>Evaluation of all targets\<close>

definition targets_named :: "partial_recipes \<Rightarrow> (label, string) btree \<Rightarrow> bool" where
  "targets_named rcp targets \<longleftrightarrow>
     (\<forall>(lbl, knd) \<in> set targets.
        knd = ''Rule'' \<and> bt_get (rules rcp) lbl \<noteq> None \<or>
        knd = ''GeneratedFile'' \<and> (\<exists>r. bt_get (generated rcp) lbl = Some r \<and> bt_get (rules rcp) r \<noteq> None) \<or>
        knd = ''SourceFile'')"

text \<open>The recipes a full generation records for a set of targets, as far as a tree goes.\<close>

definition evaluable :: "crates \<Rightarrow> partial_recipes \<Rightarrow> (label, string) btree \<Rightarrow> tree_index \<Rightarrow> bool" where
  "evaluable c rcp targets tree \<longleftrightarrow>
     version rcp = RECIPE_VERSION \<and> (\<exists>seed. decode_digest c (seed_hash rcp) = Inr seed) \<and>
     bt_inv targets \<and> targets_named rcp targets \<and>
     recipes_closed (eval_env_of c rcp targets tree) \<and>
     acyclic (dependency_graph (eval_env_of c rcp targets tree))"

lemma eval_env_of_sel [simp]:
  "ev_crates (eval_env_of c rcp targets tree) = c"
  "ev_recipes (eval_env_of c rcp targets tree) = rcp"
  "ev_tree (eval_env_of c rcp targets tree) = tree"
  by (simp_all add: eval_env_of_def)

lemma ev_sources_get:
  assumes "bt_inv targets"
  shows "bt_get (ev_sources (eval_env_of c rcp targets tree)) lbl =
    (if (lbl, ''SourceFile'') \<in> set targets
     then Some (source_digest c tree lbl (subinclude_seed c rcp lbl)) else None)"
proof -
  have "bt_inv (filter (\<lambda>(lbl, knd). knd = ''SourceFile'') targets)"
    using assms by (rule bt_inv_filter)
  then have "distinct (source_labels_of targets)"
    unfolding source_labels_of_def by (rule bt_distinct)
  then have dist: "distinct (map fst (map (\<lambda>lbl. (lbl, g lbl)) (source_labels_of targets)))"
    for g :: "label \<Rightarrow> bytes" by (simp add: comp_def)
  have mem: "lbl \<in> set (source_labels_of targets) \<longleftrightarrow> (lbl, ''SourceFile'') \<in> set targets"
    by (force simp: source_labels_of_def)
  show ?thesis
    by (simp add: eval_env_of_def bt_get_of_list [OF dist] map_of_map_restrict restrict_map_def mem)
qed

lemma same_recipes_eval_env [simp]:
  "same_recipes (eval_env_of c rcp targets t1) (eval_env_of c rcp targets t2)"
  by (simp add: same_recipes_def)

lemma digests_32_eval_env:
  assumes "crates_ok c" "bt_inv targets"
  shows "digests_32 (eval_env_of c rcp targets tree)"
proof -
  have "bt_inv (ev_sources (eval_env_of c rcp targets tree))" by (simp add: eval_env_of_def)
  then have "length d = 32" if "(l, d) \<in> set (ev_sources (eval_env_of c rcp targets tree))" for l d
    using that assms ev_sources_get [OF assms(2), of c rcp tree l]
    by (auto simp flip: bt_get_eq_Some split: if_splits)
  then show ?thesis using assms(1) by (auto simp: digests_32_def)
qed

lemma evaluable_sem:
  assumes "evaluable c rcp targets tree" "(lbl, knd) \<in> set targets"
  shows "\<exists>v. target_sem (eval_env_of c rcp targets tree) seed seeds lbl knd v"
proof -
  let ?e = "eval_env_of c rcp targets tree"
  have inv: "bt_inv targets" and closed: "recipes_closed ?e" and acyc: "acyclic (dependency_graph ?e)"
    using assms(1) by (auto simp: evaluable_def)
  have ex: "\<exists>v. rule_sem ?e r v" if "bt_get (rules rcp) r \<noteq> None" for r
    using rule_sem_exists [OF closed acyc, of r] that by (auto simp: map_of_eq_None_iff)
  from assms consider "knd = ''Rule''" "bt_get (rules rcp) lbl \<noteq> None"
    | r where "knd = ''GeneratedFile''" "bt_get (generated rcp) lbl = Some r" "bt_get (rules rcp) r \<noteq> None"
    | "knd = ''SourceFile''"
    by (fastforce simp: evaluable_def targets_named_def)
  then show ?thesis
  proof cases
    case 1
    with ex show ?thesis using target_sem.rule by metis
  next
    case 2
    from ex [OF 2(3)] obtain v where "rule_sem ?e r v" by blast
    with 2 have "target_sem ?e seed seeds lbl knd v" by (simp add: target_sem.generated)
    then show ?thesis by blast
  next
    case 3
    with assms(2) show ?thesis using target_sem.source ev_sources_get [OF inv] by metis
  qed
qed

subsection \<open>Properties of evaluation\<close>

text \<open>
  C6: evaluating the recipes of an acyclic graph always returns, with exactly the given targets,
  and the memo tables and the stack are invisible: every target's hash is the one the
  recursive specification gives. Evaluation is total on what a full generation records.
\<close>

theorem evaluate_correct:
  assumes "evaluable c rcp targets tree" "decode_digest c (seed_hash rcp) = Inr seed"
  shows "\<exists>hs. evaluate c rcp targets tree = Inr hs \<and> bt_inv hs \<and>
    fst ` set hs = fst ` set targets \<and>
    (\<forall>(lbl, knd) \<in> set targets. \<exists>v.
       target_sem (eval_env_of c rcp targets tree) seed (eval_package_seeds c rcp targets tree) lbl knd v \<and>
       bt_get hs lbl = Some (target_hash_of knd v))"
proof -
  have "bt_inv targets" "version rcp = RECIPE_VERSION" using assms(1) by (auto simp: evaluable_def)
  from evaluate_value [OF this assms(2) evaluable_sem [OF assms(1)]]
  obtain hs where hs: "evaluate c rcp targets tree = Inr hs" "bt_inv hs"
      "fst ` set hs = fst ` set targets"
    and get: "\<And>lbl knd v. (lbl, knd) \<in> set targets \<Longrightarrow>
      target_sem (eval_env_of c rcp targets tree) seed (eval_package_seeds c rcp targets tree) lbl knd v \<Longrightarrow>
      bt_get hs lbl = Some (target_hash_of knd v)"
    by blast
  have "\<forall>(lbl, knd) \<in> set targets. \<exists>v.
      target_sem (eval_env_of c rcp targets tree) seed (eval_package_seeds c rcp targets tree) lbl knd v \<and>
      bt_get hs lbl = Some (target_hash_of knd v)"
  proof clarify
    fix lbl knd
    assume m: "(lbl, knd) \<in> set targets"
    obtain v where "target_sem (eval_env_of c rcp targets tree) seed
        (eval_package_seeds c rcp targets tree) lbl knd v"
      using evaluable_sem [OF assms(1) m] by blast
    with get [OF m] show "\<exists>v. target_sem (eval_env_of c rcp targets tree) seed
        (eval_package_seeds c rcp targets tree) lbl knd v \<and>
        bt_get hs lbl = Some (target_hash_of knd v)" by blast
  qed
  with hs show ?thesis by blast
qed

text \<open>The inputs of SHA-256 for the source targets themselves.\<close>

definition source_preimages ::
  "crates \<Rightarrow> partial_recipes \<Rightarrow> (label, string) btree \<Rightarrow> tree_index \<Rightarrow> bytes set" where
  "source_preimages c rcp targets tree =
     {content_bytes c tree path @ subinclude_seed c rcp lbl @ as_bytes lbl |path lbl.
        (lbl, ''SourceFile'') \<in> set targets \<and> main_repo_path lbl = Some path}"

definition no_collision ::
  "crates \<Rightarrow> partial_recipes \<Rightarrow> (label, string) btree \<Rightarrow> tree_index \<Rightarrow> tree_index \<Rightarrow> bool" where
  "no_collision c rcp targets t1 t2 \<longleftrightarrow>
     inj_on (sha256 c)
       (rule_preimages (eval_env_of c rcp targets t1) \<union> rule_preimages (eval_env_of c rcp targets t2)) \<and>
     inj_on (sha256 c) (source_preimages c rcp targets t1 \<union> source_preimages c rcp targets t2)"

lemma regular_content_inject:
  assumes "tree_get t1 path = Some \<lparr>object = o1, entry_kind = File x1\<rparr>"
    and "tree_get t2 path = Some \<lparr>object = o2, entry_kind = File x2\<rparr>"
    and "content_bytes c t1 path = content_bytes c t2 path"
  shows "o1 = o2 \<and> x1 = x2"
  using assms by (auto simp: content_bytes_def update_entry_def split: if_splits)

lemma changed_file_changes_source:
  assumes "no_collision c rcp targets t1 t2" "bt_inv targets" "(s, ''SourceFile'') \<in> set targets"
    and path: "main_repo_path s = Some path"
    and files: "tree_get t1 path = Some \<lparr>object = o1, entry_kind = File x1\<rparr>"
      "tree_get t2 path = Some \<lparr>object = o2, entry_kind = File x2\<rparr>" "(o1, x1) \<noteq> (o2, x2)"
  shows "source_value (eval_env_of c rcp targets t1) s \<noteq> source_value (eval_env_of c rcp targets t2) s"
proof
  assume "source_value (eval_env_of c rcp targets t1) s = source_value (eval_env_of c rcp targets t2) s"
  then have "sha256 c (content_bytes c t1 path @ subinclude_seed c rcp s @ as_bytes s) =
      sha256 c (content_bytes c t2 path @ subinclude_seed c rcp s @ as_bytes s)"
    using assms(2,3) path by (simp add: source_value_def ev_sources_get source_digest_def)
  moreover have "content_bytes c t path @ subinclude_seed c rcp s @ as_bytes s \<in> source_preimages c rcp targets t" for t
    using assms(3) path unfolding source_preimages_def by blast
  ultimately have "content_bytes c t1 path = content_bytes c t2 path"
    using assms(1) by (auto simp: no_collision_def dest: inj_onD)
  from regular_content_inject [OF files(1,2) this] files(3) show False by simp
qed

lemma evaluate_rule_value:
  assumes "evaluable c rcp targets tree" "evaluate c rcp targets tree = Inr hs" "(k, ''Rule'') \<in> set targets"
  shows "\<exists>v. rule_sem (eval_env_of c rcp targets tree) k v \<and> bt_get hs k = Some (target_hash_of ''Rule'' v)"
proof -
  obtain seed where seed: "decode_digest c (seed_hash rcp) = Inr seed"
    using assms(1) by (auto simp: evaluable_def)
  have inv: "bt_inv targets" "version rcp = RECIPE_VERSION" using assms(1) by (auto simp: evaluable_def)
  obtain v where v: "target_sem (eval_env_of c rcp targets tree) seed
      (eval_package_seeds c rcp targets tree) k ''Rule'' v"
    using evaluable_sem [OF assms(1,3)] by blast
  then have "rule_sem (eval_env_of c rcp targets tree) k v" by (auto elim: target_sem.cases)
  moreover have "bt_get hs k = Some (target_hash_of ''Rule'' v)"
    using evaluate_value [OF inv seed evaluable_sem [OF assms(1)]] v assms(2,3) by auto
  ultimately show ?thesis by blast
qed


lemma rule_hash_unchanged:
  assumes "evaluable c rcp targets t1" "evaluable c rcp targets t2"
    and "evaluate c rcp targets t1 = Inr hs1" "evaluate c rcp targets t2 = Inr hs2"
    and "(k, ''Rule'') \<in> set targets"
    and "\<And>k' s. depends_on (eval_env_of c rcp targets t1) k k' \<Longrightarrow>
      reads_source (eval_env_of c rcp targets t1) k' s \<Longrightarrow>
      source_value (eval_env_of c rcp targets t1) s = source_value (eval_env_of c rcp targets t2) s"
  shows "bt_get hs1 k = bt_get hs2 k"
proof -
  obtain v1 where v1: "rule_sem (eval_env_of c rcp targets t1) k v1"
      "bt_get hs1 k = Some (target_hash_of ''Rule'' v1)"
    using evaluate_rule_value [OF assms(1,3,5)] by blast
  obtain v2 where v2: "rule_sem (eval_env_of c rcp targets t2) k v2"
      "bt_get hs2 k = Some (target_hash_of ''Rule'' v2)"
    using evaluate_rule_value [OF assms(2,4,5)] by blast
  have "rule_sem (eval_env_of c rcp targets t2) k v1"
    using rule_sem_local [OF v1(1) same_recipes_eval_env] assms(6) by blast
  then have "v1 = v2" using v2(1) by (rule rule_sem_functional)
  with v1(2) v2(2) show ?thesis by simp
qed

text \<open>
  C7: nothing else is reported. When every file a rule reads, directly or through its
  dependencies, has the same digest at two trees, the rule's two hashes are the same at both.
\<close>

theorem unchanged_sources_keep_hash:
  assumes "evaluable c rcp targets t1" "evaluable c rcp targets t2"
    and "evaluate c rcp targets t1 = Inr hs1" "evaluate c rcp targets t2 = Inr hs2"
    and "(k, ''Rule'') \<in> set targets"
    and "\<And>k' s. depends_on (eval_env_of c rcp targets t1) k k' \<Longrightarrow>
      reads_source (eval_env_of c rcp targets t1) k' s \<Longrightarrow>
      source_value (eval_env_of c rcp targets t1) s = source_value (eval_env_of c rcp targets t2) s"
  shows "bt_get hs1 k = bt_get hs2 k"
  using assms by (rule rule_hash_unchanged)

subsection \<open>A small workspace\<close>

definition sample_recipes :: partial_recipes where
  "sample_recipes =
     \<lparr>version = 1, seed_hash = hex_encode_ref (replicate 32 5), package_seeds_on = False,
      package_subincludes = [], source_subincludes = [],
      rules = [(''//a:bin'', \<lparr>static = hex_encode_ref (replicate 32 1), recipe_sources = [],
                  recipe_deps = [''//a:lib'']\<rparr>),
               (''//a:lib'', \<lparr>static = hex_encode_ref (replicate 32 2),
                  recipe_sources = [''//a:x.txt''], recipe_deps = []\<rparr>)],
      generated = [], load_inputs = []\<rparr>"

definition sample_targets :: "(label, string) btree" where
  "sample_targets =
     [(''//a:bin'', ''Rule''), (''//a:lib'', ''Rule''), (''//a:x.txt'', ''SourceFile'')]"

definition sample_tree_edited :: tree_index where
  "sample_tree_edited =
     sample_tree\<lparr>entries := bt_insert ''a/x.txt'' \<lparr>object = ''2f'', entry_kind = File False\<rparr>
       (entries sample_tree)\<rparr>"

abbreviation sample_env :: "tree_index \<Rightarrow> eval_env" where
  "sample_env t \<equiv> eval_env_of crates_ref sample_recipes sample_targets t"

definition sample_source :: "tree_index \<Rightarrow> bytes" where
  "sample_source t = source_digest crates_ref t ''//a:x.txt''
     (subinclude_seed crates_ref sample_recipes ''//a:x.txt'')"

definition sample_lib :: "tree_index \<Rightarrow> bytes \<times> bytes" where
  "sample_lib t =
     (let direct = sha256_ref (replicate 32 2 @ sample_source t) in (sha256_ref direct, direct))"

definition sample_bin :: "tree_index \<Rightarrow> bytes \<times> bytes" where
  "sample_bin t =
     (let direct = sha256_ref (replicate 32 1) in (sha256_ref (fst (sample_lib t) @ direct), direct))"

lemma decode_digest_ref [simp]:
  "length bs = 32 \<Longrightarrow> decode_digest crates_ref (hex_encode_ref bs) = Inr bs"
  using crates_ok_decode [OF crates_ref_ok, of bs] by (simp add: decode_digest_def crates_ref_def)

lemma sha256_crates_ref [simp]: "sha256 crates_ref = sha256_ref"
  by (simp add: crates_ref_def)

lemma bt_inv_sample_targets [simp]: "bt_inv sample_targets"
  by (simp add: sample_targets_def bt_inv_def)

lemma sample_rules:
  "bt_get (rules sample_recipes) k = Some recipe \<longleftrightarrow>
     k = ''//a:bin'' \<and> recipe = \<lparr>static = hex_encode_ref (replicate 32 1), recipe_sources = [],
        recipe_deps = [''//a:lib'']\<rparr> \<or>
     k = ''//a:lib'' \<and> recipe = \<lparr>static = hex_encode_ref (replicate 32 2),
        recipe_sources = [''//a:x.txt''], recipe_deps = []\<rparr>"
  by (auto simp: sample_recipes_def)

lemma sample_source_value [simp]:
  "source_value (sample_env t) ''//a:x.txt'' = Some (sample_source t)"
  by (simp add: source_value_def ev_sources_get sample_source_def) (simp add: sample_targets_def)

lemma sample_lib_sem: "rule_sem (sample_env t) ''//a:lib'' (sample_lib t)"
  using rule_sem.intros [of "sample_env t" "''//a:lib''" _ "replicate 32 2" "[sample_source t]" "[]"]
  by (simp add: sample_rules static_digest_def sample_lib_def Let_def)

lemma sample_bin_sem: "rule_sem (sample_env t) ''//a:bin'' (sample_bin t)"
  using rule_sem.intros [of "sample_env t" "''//a:bin''" _ "replicate 32 1" "[]" "[sample_lib t]"]
  by (simp add: sample_rules static_digest_def sample_bin_def Let_def sample_lib_sem)

lemma sample_rule_sem_iff [simp]:
  "rule_sem (sample_env t) ''//a:lib'' v \<longleftrightarrow> v = sample_lib t"
  "rule_sem (sample_env t) ''//a:bin'' v \<longleftrightarrow> v = sample_bin t"
  using sample_lib_sem sample_bin_sem by (metis rule_sem_functional)+

definition sample_preimages :: "tree_index \<Rightarrow> bytes list" where
  "sample_preimages t =
     [replicate 32 1, replicate 32 2 @ sample_source t,
      snd (sample_lib t), fst (sample_lib t) @ snd (sample_bin t)]"

lemma sample_deps_sem:
  "list_all2 (rule_sem (sample_env t)) [''//a:lib''] dvs \<longleftrightarrow> dvs = [sample_lib t]"
  by (cases dvs) auto

lemma rule_preimages_sample: "rule_preimages (sample_env t) \<subseteq> set (sample_preimages t)"
  unfolding rule_preimages_def sample_preimages_def
  by (clarsimp simp: sample_rules static_digest_def) (auto simp: sample_deps_sem eq_commute [of "(_, _)"] simp del: list_all2_Cons)

definition separates :: "(bytes \<Rightarrow> bytes) \<Rightarrow> bytes list \<Rightarrow> bool" where
  "separates f xs \<longleftrightarrow> list_all (\<lambda>x. list_all (\<lambda>y. f x = f y \<longrightarrow> x = y) xs) xs"

lemma separates_inj_on: "separates f xs \<Longrightarrow> A \<subseteq> set xs \<Longrightarrow> inj_on f A"
  by (auto simp: separates_def list_all_iff inj_on_def)

lemma sha256_ref_eq_iff:
  "sha256_ref xs = sha256_ref ys \<longleftrightarrow>
     (of_nat (length xs) :: u8) = of_nat (length ys) \<and> ref_checksum xs = ref_checksum ys"
  by (simp add: sha256_ref_def)

lemma sample_path [simp]: "main_repo_path ''//a:x.txt'' = Some ''a/x.txt''"
  by code_simp

lemma sample_seed: "subinclude_seed crates_ref sample_recipes ''//a:x.txt'' = sha256_ref (as_bytes ''//a:x.txt'')"
  by (simp add: subinclude_seed_def subincludes_def sample_recipes_def)

lemma sample_content:
  "content_bytes crates_ref sample_tree ''a/x.txt'' = [0x31, 0x66, 1, 0]"
  "content_bytes crates_ref sample_tree_edited ''a/x.txt'' = [0x32, 0x66, 1, 0]"
  by (simp_all add: content_bytes_def update_entry_def sample_tree_def sample_tree_edited_def tree_get_def as_bytes_def)

lemma ref_checksum_step: "ref_checksum (xs @ ys) = fold (\<lambda>b a. 3 * a + b + 1) ys (ref_checksum xs)"
  by (simp add: ref_checksum_def)

lemma ref_checksum_blocks:
  "fold (\<lambda>b a. 3 * a + b + 1) (replicate 30 0) (a :: u8) = 205891132094649 * a + 102945566047324"
  "fold (\<lambda>b a. 3 * a + b + 1) (replicate 32 1) (a :: u8) = 1853020188851841 * a + 1853020188851840"
  "fold (\<lambda>b a. 3 * a + b + 1) (replicate 32 2) (a :: u8) = 1853020188851841 * a + 2779530283277760"
  by (simp_all add: eval_nat_numeral)

lemma sample_source_digests:
  "sample_source sample_tree = replicate 30 0 @ [45, 109]"
  "sample_source sample_tree_edited = replicate 30 0 @ [45, 222]"
  by (simp_all add: sample_source_def source_digest_def sample_seed sample_content
     sha256_ref_def ref_checksum_def ref_checksum_blocks as_bytes_def
     del: fold_replicate)

lemma sample_no_collision:
  "no_collision crates_ref sample_recipes sample_targets sample_tree sample_tree_edited"
proof -
  have "separates sha256_ref (sample_preimages sample_tree @ sample_preimages sample_tree_edited)"
    by (simp add: separates_def sample_preimages_def sha256_ref_eq_iff sample_lib_def Let_def
        sample_bin_def sha256_ref_def ref_checksum_def ref_checksum_blocks sample_source_digests
        del: fold_replicate)
  then have "inj_on sha256_ref (rule_preimages (sample_env sample_tree) \<union> rule_preimages (sample_env sample_tree_edited))"
    by (rule separates_inj_on) (use rule_preimages_sample in auto)
  moreover have "inj_on sha256_ref (source_preimages crates_ref sample_recipes sample_targets sample_tree \<union>
      source_preimages crates_ref sample_recipes sample_targets sample_tree_edited)"
    by (auto simp: source_preimages_def sample_targets_def inj_on_def sha256_ref_eq_iff
      sample_content sample_seed ref_checksum_def sha256_ref_def
      ref_checksum_blocks as_bytes_def simp del: fold_replicate)
  ultimately show ?thesis by (simp add: no_collision_def)
qed

lemma sample_evaluable: "evaluable crates_ref sample_recipes sample_targets t"
proof -
  have "dependency_graph (sample_env t) \<subseteq> {(''//a:lib'', ''//a:bin'')}"
    by (auto simp: dependency_graph_def rule_deps_def sample_recipes_def)
  then have "acyclic (dependency_graph (sample_env t))"
    by (rule acyclic_subset [rotated]) (simp add: acyclic_insert wf_acyclic)
  moreover have "recipes_closed (sample_env t)"
  proof -
    have "rules sample_recipes =
       [(''//a:bin'', \<lparr>static = hex_encode_ref (replicate 32 1), recipe_sources = [],
          recipe_deps = [''//a:lib'']\<rparr>),
        (''//a:lib'', \<lparr>static = hex_encode_ref (replicate 32 2), recipe_sources = [''//a:x.txt''],
          recipe_deps = []\<rparr>)]"
      by (simp add: sample_recipes_def)
    then show ?thesis by (simp add: recipes_closed_def static_digest_def)
  qed
  ultimately show ?thesis
    by (simp add: evaluable_def targets_named_def)
      (simp add: sample_recipes_def sample_targets_def RECIPE_VERSION_def)
qed

lemma evaluate_returns: "evaluable c rcp targets tree \<Longrightarrow> \<exists>hs. evaluate c rcp targets tree = Inr hs"
  using evaluate_value [OF _ _ _ evaluable_sem] by (metis evaluable_def)

theorem evaluate_correct_witness:
  "\<exists>hs. evaluate crates_ref sample_recipes sample_targets sample_tree = Inr hs \<and>
     bt_get hs ''//a:bin'' = Some (target_hash_of ''Rule'' (sample_bin sample_tree))"
proof -
  have "decode_digest crates_ref (seed_hash sample_recipes) = Inr (replicate 32 5)"
    by (simp add: sample_recipes_def)
  from evaluate_correct [OF sample_evaluable this, of sample_tree] obtain hs v where
    "evaluate crates_ref sample_recipes sample_targets sample_tree = Inr hs"
    "target_sem (sample_env sample_tree) (replicate 32 5)
       (eval_package_seeds crates_ref sample_recipes sample_targets sample_tree) ''//a:bin'' ''Rule'' v"
    "bt_get hs ''//a:bin'' = Some (target_hash_of ''Rule'' v)"
    unfolding sample_targets_def by fastforce
  then show ?thesis by (auto elim: target_sem.cases)
qed


theorem unchanged_sources_keep_hash_witness:
  "\<exists>hs1 hs2.
     evaluate crates_ref sample_recipes sample_targets sample_tree = Inr hs1 \<and>
     evaluate crates_ref sample_recipes sample_targets (with_id sample_tree ''t2'') = Inr hs2 \<and>
     bt_get hs1 ''//a:bin'' = bt_get hs2 ''//a:bin''"
proof -
  obtain hs1 where 1: "evaluate crates_ref sample_recipes sample_targets sample_tree = Inr hs1"
    using evaluate_returns [OF sample_evaluable] by blast
  obtain hs2 where 2: "evaluate crates_ref sample_recipes sample_targets (with_id sample_tree ''t2'') = Inr hs2"
    using evaluate_returns [OF sample_evaluable] by blast
  have "s = ''//a:x.txt''" if "reads_source (sample_env sample_tree) k s" for k s
    using that by (auto simp: reads_source_def sample_rules)
  moreover have "sample_source sample_tree = sample_source (with_id sample_tree ''t2'')"
    unfolding sample_source_def
    by (rule source_digest_local) (simp_all add: with_id_def tree_get_def sample_tree_def bt_inv_def)
  ultimately have same: "source_value (sample_env sample_tree) s = source_value (sample_env (with_id sample_tree ''t2'')) s"
    if "reads_source (sample_env sample_tree) k s" for k s
    using that by (metis sample_source_value)
  have "(''//a:bin'', ''Rule'') \<in> set sample_targets" by (simp add: sample_targets_def)
  from unchanged_sources_keep_hash [OF sample_evaluable sample_evaluable 1 2 this same]
  have "bt_get hs1 ''//a:bin'' = bt_get hs2 ''//a:bin''" .
  with 1 2 show ?thesis by blast
qed

end
