(* ===== verification/Hash_File.thy ===== *)
theory Hash_File
  imports Recipes
begin

section \<open>The hash file (model.rs)\<close>

text \<open>
  \<^verbatim>\<open>HashFileData\<close> and its two shapes on disk: a bare \<open>{label: hash}\<close> object, or
  \<open>{"hashes": ..., "metadata": ...}\<close>. JSON text is written and read by \<^verbatim>\<open>serde_json\<close>; the model works on the tree
  of values, whose objects keep the order and the repetitions of the text, and takes the parser as
  an argument. Derived deserialisers accept a struct as an object (unknown keys ignored,
  repeated keys refused) or as an array of its fields.
\<close>

datatype json =
    JNull
  | JBool bool
  | JInt int
  | JFloat string
  | JStr string
  | JArr "json list"
  | JObj "(string \<times> json) list"

record hash_file_data =
  hashes :: "(label, target_hash) btree"
  module_graph_json :: "string option"
  dependency_fingerprint :: "string option"
  dep_edges :: "(string, string list) btree"
  partial :: "partial_recipes option"
  tree :: "string option"

definition hash_file_default :: hash_file_data where
  "hash_file_default =
     \<lparr>hashes = [], module_graph_json = None, dependency_fingerprint = None, dep_edges = [],
      partial = None, tree = None\<rparr>"

subsection \<open>Writing\<close>

definition ser_strings :: "string list \<Rightarrow> json" where
  "ser_strings xs = JArr (map JStr xs)"

definition ser_map :: "('a \<Rightarrow> json) \<Rightarrow> (string, 'a) btree \<Rightarrow> json" where
  "ser_map f t = JObj (map (\<lambda>(k, v). (k, f v)) t)"

definition ser_rule_recipe :: "rule_recipe \<Rightarrow> json" where
  "ser_rule_recipe r =
     JArr [JStr (static r), ser_strings (recipe_sources r), ser_strings (recipe_deps r)]"

text \<open>\<^verbatim>\<open>skip_serializing_if = "is_empty"\<close> on four fields.\<close>

definition ser_unless_empty :: "string \<Rightarrow> ('a list \<Rightarrow> json) \<Rightarrow> 'a list \<Rightarrow> (string \<times> json) list" where
  "ser_unless_empty name f xs = (if xs = [] then [] else [(name, f xs)])"

definition ser_partial_recipes :: "partial_recipes \<Rightarrow> json" where
  "ser_partial_recipes r =
     JObj ([(''version'', JInt (int (version r))),
            (''seedHash'', JStr (seed_hash r)),
            (''packageSeeds'', JBool (package_seeds_on r))] @
           ser_unless_empty ''packageSubincludes'' (ser_map ser_strings) (package_subincludes r) @
           ser_unless_empty ''sourceSubincludes'' (ser_map ser_strings) (source_subincludes r) @
           [(''rules'', ser_map ser_rule_recipe (rules r))] @
           ser_unless_empty ''generated'' (ser_map JStr) (generated r) @
           ser_unless_empty ''loadInputs'' ser_strings (load_inputs r))"

definition ser_optional :: "string \<Rightarrow> ('a \<Rightarrow> json) \<Rightarrow> 'a option \<Rightarrow> (string \<times> json) list" where
  "ser_optional name f x = (case x of None \<Rightarrow> [] | Some v \<Rightarrow> [(name, f v)])"

definition serialized_hashes :: "crates \<Rightarrow> (label, target_hash) btree \<Rightarrow> bool \<Rightarrow> json" where
  "serialized_hashes c hs include_target_type = ser_map (\<lambda>h. JStr (json_value c h include_target_type)) hs"

definition serialized_metadata :: "hash_file_data \<Rightarrow> bool \<Rightarrow> json" where
  "serialized_metadata data include_deps =
     JObj (ser_optional ''moduleGraphJson'' JStr (module_graph_json data) @
           ser_optional ''dependencyFingerprint'' JStr (dependency_fingerprint data) @
           (if include_deps \<and> dep_edges data \<noteq> [] then [(''depEdges'', ser_map ser_strings (dep_edges data))]
            else []) @
           ser_optional ''partialGraph'' ser_partial_recipes (partial data) @
           ser_optional ''tree'' JStr (tree data))"

definition no_metadata :: "hash_file_data \<Rightarrow> bool \<Rightarrow> bool" where
  "no_metadata data include_deps \<longleftrightarrow>
     module_graph_json data = None \<and> dependency_fingerprint data = None \<and> partial data = None \<and>
     tree data = None \<and> (\<not> include_deps \<or> dep_edges data = [])"

definition serialized :: "crates \<Rightarrow> hash_file_data \<Rightarrow> bool \<Rightarrow> bool \<Rightarrow> json" where
  "serialized c data include_target_type include_deps =
     (if no_metadata data include_deps then serialized_hashes c (hashes data) include_target_type
      else JObj [(''hashes'', serialized_hashes c (hashes data) include_target_type),
                 (''metadata'', serialized_metadata data include_deps)])"

text \<open>\<^verbatim>\<open>serde_json::Value\<close> keeps objects in key order: \<^verbatim>\<open>serde_json::to_value\<close>.\<close>

fun value_of :: "json \<Rightarrow> json" where
  "value_of (JArr xs) = JArr (map value_of xs)"
| "value_of (JObj kvs) = JObj (bt_of_list (map (\<lambda>(k, v). (k, value_of v)) kvs))"
| "value_of j = j"

definition insert_optional ::
  "string \<Rightarrow> ('a \<Rightarrow> json) \<Rightarrow> 'a option \<Rightarrow> (string, json) btree \<Rightarrow> (string, json) btree" where
  "insert_optional name f x metadata =
     (case x of None \<Rightarrow> metadata | Some v \<Rightarrow> bt_insert name (f v) metadata)"

definition to_value :: "crates \<Rightarrow> hash_file_data \<Rightarrow> bool \<Rightarrow> bool \<Rightarrow> json" where
  "to_value c data include_target_type include_deps =
     (let hs = bt_of_list (map (\<lambda>(lbl, h). (lbl, JStr (json_value c h include_target_type))) (hashes data))
      in if no_metadata data include_deps then JObj hs
         else
           (let m1 = insert_optional ''moduleGraphJson'' JStr (module_graph_json data) [];
                m2 = insert_optional ''dependencyFingerprint'' JStr (dependency_fingerprint data) m1;
                m3 = (if include_deps \<and> dep_edges data \<noteq> []
                      then bt_insert ''depEdges'' (value_of (ser_map ser_strings (dep_edges data))) m2
                      else m2);
                m4 = insert_optional ''partialGraph'' (\<lambda>p. value_of (ser_partial_recipes p)) (partial data) m3;
                m5 = insert_optional ''tree'' JStr (tree data) m4
            in JObj (bt_of_list [(''hashes'', JObj hs), (''metadata'', JObj m5)])))"

subsection \<open>Reading\<close>

fun de_string :: "json \<Rightarrow> string option" where
  "de_string (JStr s) = Some s"
| "de_string _ = None"

fun de_option :: "(json \<Rightarrow> 'a option) \<Rightarrow> json \<Rightarrow> 'a option option" where
  "de_option f JNull = Some None"
| "de_option f j = map_option Some (f j)"

fun de_bool :: "json \<Rightarrow> bool option" where
  "de_bool (JBool b) = Some b"
| "de_bool _ = None"

fun de_u32 :: "json \<Rightarrow> nat option" where
  "de_u32 (JInt n) = (if 0 \<le> n \<and> n < 2 ^ 32 then Some (nat n) else None)"
| "de_u32 _ = None"

fun de_seq :: "(json \<Rightarrow> 'a option) \<Rightarrow> json \<Rightarrow> 'a list option" where
  "de_seq f (JArr xs) = those (map f xs)"
| "de_seq f _ = None"

definition de_set :: "json \<Rightarrow> string list option" where
  "de_set j = map_option bs_of_list (de_seq de_string j)"

fun de_map :: "(json \<Rightarrow> 'a option) \<Rightarrow> json \<Rightarrow> (string, 'a) btree option" where
  "de_map f (JObj kvs) = map_option bt_of_list (those (map (\<lambda>(k, v). map_option (Pair k) (f v)) kvs))"
| "de_map f _ = None"

fun de_rule_recipe :: "json \<Rightarrow> rule_recipe option" where
  "de_rule_recipe (JArr [s, srcs, ds]) =
     (case (de_string s, de_seq de_string srcs, de_seq de_string ds) of
        (Some s', Some srcs', Some ds') \<Rightarrow> Some \<lparr>static = s', recipe_sources = srcs', recipe_deps = ds'\<rparr>
      | _ \<Rightarrow> None)"
| "de_rule_recipe _ = None"

text \<open>
  Field \<open>i\<close>, called \<open>name\<close>, of a struct with a derived deserialiser. \<open>absent_obj\<close> and \<open>absent_arr\<close> say what a
  missing field is in an object and in an array: nothing for a required field, the default
  for a \<^verbatim>\<open>#[serde(default)]\<close> field, and for a plain \<^verbatim>\<open>Option\<close> field the missing value in
  objects only.
\<close>

fun de_field :: "json \<Rightarrow> nat \<Rightarrow> string \<Rightarrow> (json \<Rightarrow> 'a option) \<Rightarrow> 'a option \<Rightarrow> 'a option \<Rightarrow> 'a option" where
  "de_field (JObj kvs) i name f absent_obj absent_arr =
     (case filter (\<lambda>kv. fst kv = name) kvs of
        [] \<Rightarrow> absent_obj
      | [kv] \<Rightarrow> f (snd kv)
      | _ \<Rightarrow> None)"
| "de_field (JArr xs) i name f absent_obj absent_arr =
     (if i < length xs then f (xs ! i) else absent_arr)"
| "de_field _ i name f absent_obj absent_arr = None"

fun struct_shape :: "nat \<Rightarrow> json \<Rightarrow> bool" where
  "struct_shape n (JObj kvs) = True"
| "struct_shape n (JArr xs) = (length xs \<le> n)"
| "struct_shape n _ = False"

definition de_partial_recipes :: "json \<Rightarrow> partial_recipes option" where
  "de_partial_recipes j =
     (if \<not> struct_shape 8 j then None
      else Option.bind (de_field j 0 ''version'' de_u32 None None) (\<lambda>v.
           Option.bind (de_field j 1 ''seedHash'' de_string None None) (\<lambda>seed.
           Option.bind (de_field j 2 ''packageSeeds'' de_bool None None) (\<lambda>pkg_seeds.
           Option.bind (de_field j 3 ''packageSubincludes'' (de_map (de_seq de_string)) (Some []) (Some [])) (\<lambda>pkg.
           Option.bind (de_field j 4 ''sourceSubincludes'' (de_map (de_seq de_string)) (Some []) (Some [])) (\<lambda>src.
           Option.bind (de_field j 5 ''rules'' (de_map de_rule_recipe) None None) (\<lambda>rs.
           Option.bind (de_field j 6 ''generated'' (de_map de_string) (Some []) (Some [])) (\<lambda>gen.
           Option.bind (de_field j 7 ''loadInputs'' de_set (Some []) (Some [])) (\<lambda>inputs.
             Some \<lparr>version = v, seed_hash = seed, package_seeds_on = pkg_seeds,
                   package_subincludes = pkg, source_subincludes = src, rules = rs,
                   generated = gen, load_inputs = inputs\<rparr>)))))))))"

text \<open>\<^verbatim>\<open>Metadata\<close>, given as the fields it sets in the hash file.\<close>

definition de_metadata :: "json \<Rightarrow> hash_file_data \<Rightarrow> hash_file_data option" where
  "de_metadata j data =
     (if \<not> struct_shape 5 j then None
      else Option.bind (de_field j 0 ''moduleGraphJson'' (de_option de_string) (Some None) None) (\<lambda>graph.
           Option.bind (de_field j 1 ''dependencyFingerprint'' (de_option de_string) (Some None) None) (\<lambda>fp.
           Option.bind (de_field j 2 ''depEdges'' (de_map (de_seq de_string)) (Some []) (Some [])) (\<lambda>edges.
           Option.bind (de_field j 3 ''partialGraph'' (de_option de_partial_recipes) (Some None) (Some None)) (\<lambda>prt.
           Option.bind (de_field j 4 ''tree'' (de_option de_string) (Some None) (Some None)) (\<lambda>t.
             Some (data\<lparr>module_graph_json := graph, dependency_fingerprint := fp, dep_edges := edges,
                        partial := prt, tree := t\<rparr>)))))))"

definition de_target_hash :: "json \<Rightarrow> target_hash option" where
  "de_target_hash j =
     Option.bind (de_string j) (\<lambda>s. case target_hash_parse s of Inl e \<Rightarrow> None | Inr h \<Rightarrow> Some h)"

text \<open>\<^verbatim>\<open>HashFileVisitor::visit_map\<close>, key by key.\<close>

fun visit_hash_file :: "(string \<times> json) list \<Rightarrow> hash_file_data \<Rightarrow> hash_file_data option" where
  "visit_hash_file [] data = Some data"
| "visit_hash_file ((key, v) # kvs) data =
     (if key = ''hashes'' then
        Option.bind (de_map de_target_hash v) (\<lambda>hs. visit_hash_file kvs (data\<lparr>hashes := hs\<rparr>))
      else if key = ''metadata'' then
        Option.bind (de_metadata v data) (visit_hash_file kvs)
      else
        Option.bind (de_target_hash v) (\<lambda>h.
          visit_hash_file kvs (data\<lparr>hashes := bt_insert key h (hashes data)\<rparr>)))"

fun de_hash_file :: "json \<Rightarrow> hash_file_data option" where
  "de_hash_file (JObj kvs) = visit_hash_file kvs hash_file_default"
| "de_hash_file _ = None"

text \<open>\<^verbatim>\<open>HashFileData::from_slice\<close>; \<open>parse\<close> is the JSON parser.\<close>

definition from_slice :: "(bytes \<Rightarrow> json option) \<Rightarrow> bytes \<Rightarrow> model_error + hash_file_data" where
  "from_slice parse bs =
     (case Option.bind (parse bs) de_hash_file of None \<Rightarrow> Inl InvalidHashJson | Some data \<Rightarrow> Inr data)"

subsection \<open>Lemmas\<close>

text \<open>
  The well-formed values of the Rust types: maps and sets are ordered, a \<^verbatim>\<open>u32\<close> is in range,
  hashes are the ones the program computes.
\<close>

definition recipes_wf :: "partial_recipes \<Rightarrow> bool" where
  "recipes_wf r \<longleftrightarrow>
     version r < 2 ^ 32 \<and> bt_inv (package_subincludes r) \<and> bt_inv (source_subincludes r) \<and>
     bt_inv (rules r) \<and> bt_inv (generated r) \<and> sorted_wrt (<) (load_inputs r)"

definition hash_file_wf :: "hash_file_data \<Rightarrow> bool" where
  "hash_file_wf d \<longleftrightarrow>
     bt_inv (hashes d) \<and> list_all (\<lambda>(lbl, h). written_hash h \<and> lbl \<notin> {''hashes'', ''metadata''}) (hashes d) \<and>
     bt_inv (dep_edges d) \<and> pred_option recipes_wf (partial d)"

lemma de_ser_strings [simp]: "de_seq de_string (ser_strings xs) = Some xs"
  by (simp add: ser_strings_def comp_def)

lemma de_map_ser_map:
  assumes "\<And>k v. (k, v) \<in> set t \<Longrightarrow> f (g v) = Some (h v)"
  shows "de_map f (ser_map g t) = Some (bt_of_list (map (\<lambda>(k, v). (k, h v)) t))"
proof -
  have "those (map (\<lambda>(k, v). map_option (Pair k) (f (g v))) t) = Some (map (\<lambda>(k, v). (k, h v)) t)"
    by (rule those_cong_Some) (auto dest: assms)
  then show ?thesis by (simp add: ser_map_def comp_def case_prod_unfold)
qed

lemma de_map_ser_map_id:
  assumes "\<And>k v. (k, v) \<in> set t \<Longrightarrow> f (g v) = Some v" "bt_inv t"
  shows "de_map f (ser_map g t) = Some t"
  using de_map_ser_map [of t f g "\<lambda>v. v"] assms by (simp add: bt_of_list_sorted)

lemma de_ser_rule_recipe [simp]: "de_rule_recipe (ser_rule_recipe r) = Some r"
  by (simp add: ser_rule_recipe_def)

lemma filter_unless_empty [simp]:
  "filter (\<lambda>kv. fst kv = n) (ser_unless_empty m g xs) = (if m = n then ser_unless_empty m g xs else [])"
  by (simp add: ser_unless_empty_def)

lemma filter_optional [simp]:
  "filter (\<lambda>kv. fst kv = n) (ser_optional m g x) = (if m = n then ser_optional m g x else [])"
  by (simp add: ser_optional_def split: option.splits)

lemma field_unless_empty:
  "f (g xs) = Some xs \<Longrightarrow>
   (case ser_unless_empty m g xs of [] \<Rightarrow> Some [] | [kv] \<Rightarrow> f (snd kv) | _ \<Rightarrow> None) = Some xs"
  by (simp add: ser_unless_empty_def)

lemma field_optional:
  "(\<And>v. x = Some v \<Longrightarrow> de_option f (g v) = Some (Some v)) \<Longrightarrow>
   (case ser_optional m g x of [] \<Rightarrow> Some None | [kv] \<Rightarrow> de_option f (snd kv) | _ \<Rightarrow> None) = Some x"
  by (simp add: ser_optional_def split: option.splits)

lemma de_ser_partial_recipes:
  assumes "recipes_wf r"
  shows "de_partial_recipes (ser_partial_recipes r) = Some r"
proof -
  have maps: "de_map (de_seq de_string) (ser_map ser_strings (package_subincludes r)) = Some (package_subincludes r)"
    "de_map (de_seq de_string) (ser_map ser_strings (source_subincludes r)) = Some (source_subincludes r)"
    "de_map de_rule_recipe (ser_map ser_rule_recipe (rules r)) = Some (rules r)"
    "de_map de_string (ser_map JStr (generated r)) = Some (generated r)"
    using assms by (simp_all add: recipes_wf_def de_map_ser_map_id)
  have inputs: "de_set (ser_strings (load_inputs r)) = Some (load_inputs r)"
    using assms by (simp add: de_set_def recipes_wf_def bs_of_list_sorted)
  have version: "de_u32 (JInt (int (version r))) = Some (version r)"
    using assms by (simp add: recipes_wf_def)
  show ?thesis
    using maps inputs version
    by (simp add: de_partial_recipes_def ser_partial_recipes_def field_unless_empty)
qed

text \<open>What reading a written file gives back: without their type the kinds are empty, without
  dependencies the edges are gone.\<close>

definition read_back :: "hash_file_data \<Rightarrow> bool \<Rightarrow> bool \<Rightarrow> hash_file_data" where
  "read_back d include_target_type include_deps =
     d\<lparr>hashes := map (\<lambda>(lbl, h). (lbl, if include_target_type then h else h\<lparr>kind := ''''\<rparr>)) (hashes d),
       dep_edges := (if include_deps then dep_edges d else [])\<rparr>"

lemma de_option_notnull: "f (g v) = Some v \<Longrightarrow> g v \<noteq> JNull \<Longrightarrow> de_option f (g v) = Some (Some v)"
  by (cases "g v") auto

lemma de_serialized_metadata:
  assumes "hash_file_wf d"
  shows "de_metadata (serialized_metadata d include_deps) data =
    Some (d\<lparr>hashes := hashes data, dep_edges := (if include_deps then dep_edges d else [])\<rparr>)"
proof -
  have edges: "de_map (de_seq de_string) (ser_map ser_strings (dep_edges d)) = Some (dep_edges d)"
    using assms by (simp add: hash_file_wf_def de_map_ser_map_id)
  have "de_option de_partial_recipes (ser_partial_recipes r) = Some (Some r)" if "partial d = Some r" for r
  proof (rule de_option_notnull)
    show "de_partial_recipes (ser_partial_recipes r) = Some r"
      using assms that by (simp add: hash_file_wf_def de_ser_partial_recipes)
  qed (simp add: ser_partial_recipes_def)
  then show ?thesis
    using edges by (simp add: de_metadata_def serialized_metadata_def field_optional)
qed

lemma bt_inv_map_snd: "bt_inv m \<Longrightarrow> bt_inv (map (\<lambda>(k, v). (k, g v)) m)"
  by (rule bt_inv_map_values) (auto split: prod.splits)

lemma de_target_hash_json_value:
  assumes "crates_ok c" "written_hash h"
  shows "de_target_hash (JStr (json_value c h include_target_type)) =
    Some (if include_target_type then h else h\<lparr>kind := ''''\<rparr>)"
  using assms by (simp add: de_target_hash_def written_hash_typed written_hash_untyped)

lemma de_serialized_hashes:
  assumes "crates_ok c" "hash_file_wf d"
  shows "de_map de_target_hash (serialized_hashes c (hashes d) include_target_type) =
    Some (hashes (read_back d include_target_type include_deps))"
proof -
  have "de_map de_target_hash (serialized_hashes c (hashes d) include_target_type) =
    Some (bt_of_list (map (\<lambda>(lbl, h). (lbl, if include_target_type then h else h\<lparr>kind := ''''\<rparr>)) (hashes d)))"
    unfolding serialized_hashes_def
    using assms by (intro de_map_ser_map de_target_hash_json_value) (auto simp: hash_file_wf_def list_all_iff)
  moreover have "bt_inv (map (\<lambda>(lbl, h). (lbl, if include_target_type then h else h\<lparr>kind := ''''\<rparr>)) (hashes d))"
    using assms(2) by (simp add: hash_file_wf_def bt_inv_map_snd)
  ultimately show ?thesis by (simp add: bt_of_list_sorted read_back_def)
qed

lemma visit_bare:
  assumes "crates_ok c" "list_all (\<lambda>(lbl, h). written_hash h \<and> lbl \<notin> {''hashes'', ''metadata''}) hs"
  shows "visit_hash_file (map (\<lambda>(k, h). (k, JStr (json_value c h typed))) hs) data =
    Some (data\<lparr>hashes := bt_extend (map (\<lambda>(k, h). (k, if typed then h else h\<lparr>kind := ''''\<rparr>)) hs) (hashes data)\<rparr>)"
  using assms(2)
  by (induction hs arbitrary: data)
    (auto simp: de_target_hash_json_value [OF assms(1)] bt_extend_def)

lemma from_slice_serialized:
  assumes "crates_ok c" "hash_file_wf d"
    and "parse bs = Some (serialized c d include_target_type include_deps)"
  shows "from_slice parse bs = Inr (read_back d include_target_type include_deps)"
proof -
  let ?hs = "hashes (read_back d include_target_type include_deps)"
  have "de_hash_file (serialized c d include_target_type include_deps) =
      Some (read_back d include_target_type include_deps)"
  proof (cases "no_metadata d include_deps")
    case True
    have "bt_extend (map (\<lambda>(k, h). (k, if include_target_type then h else h\<lparr>kind := ''''\<rparr>)) (hashes d)) [] = ?hs"
      using assms(2)
      by (simp add: read_back_def hash_file_wf_def bt_inv_map_snd bt_of_list_sorted flip: bt_of_list_def)
    with True assms(1,2) show ?thesis
      by (simp add: serialized_def serialized_hashes_def ser_map_def hash_file_wf_def visit_bare
          hash_file_default_def no_metadata_def read_back_def)
  next
    case False
    then show ?thesis
      using de_serialized_hashes [OF assms(1,2)] de_serialized_metadata [OF assms(2)]
      by (simp add: serialized_def read_back_def)
  qed
  with assms(3) show ?thesis by (simp add: from_slice_def)
qed

subsection \<open>Properties\<close>

text \<open>
  C26: a hash file the program wrote is read back as the same data, recipes and metadata
  included, in either shape and with either choice of what to write: only what the flags leave
  out is missing.
\<close>

theorem hash_file_roundtrip:
  assumes "crates_ok c" "hash_file_wf d"
    and "parse bs = Some (serialized c d include_target_type include_deps)"
  shows "from_slice parse bs = Inr (read_back d include_target_type include_deps)"
  by (rule from_slice_serialized [of c d parse bs, OF assms])

definition sample_hash_file :: hash_file_data where
  "sample_hash_file =
     \<lparr>hashes = [(''//a:bin'', sample_hash)], module_graph_json = None, dependency_fingerprint = Some ''f0'',
      dep_edges = [(''//a:bin'', [''//a:lib''])],
      partial = Some \<lparr>version = 1, seed_hash = ''00'', package_seeds_on = False, package_subincludes = [],
        source_subincludes = [], rules = [(''//a:bin'', \<lparr>static = ''ab'', recipe_sources = [''//a:x.txt''],
          recipe_deps = []\<rparr>)], generated = [], load_inputs = [''lock.json'']\<rparr>,
      tree = Some ''t1''\<rparr>"

theorem hash_file_roundtrip_witness:
  "from_slice (\<lambda>bs. if bs = [1] then Some (serialized crates_ref sample_hash_file True True) else None) [1] =
   Inr sample_hash_file"
proof -
  have "hash_file_wf sample_hash_file"
    by (simp add: hash_file_wf_def sample_hash_file_def recipes_wf_def bt_inv_def written_hash_def sample_hash_def)
  from hash_file_roundtrip [OF crates_ref_ok this, of
      "\<lambda>bs. if bs = [1] then Some (serialized crates_ref sample_hash_file True True) else None" "[1]" True True]
  show ?thesis by (simp add: read_back_def sample_hash_file_def)
qed

lemma value_of_strings [simp]: "value_of (ser_strings xs) = ser_strings xs"
  by (simp add: ser_strings_def)

lemma bt_of_list_append: "bt_of_list (xs @ ys) = bt_extend ys (bt_of_list xs)"
  by (simp add: bt_of_list_def bt_extend_append)

lemma extend_optional:
  "bt_extend (map (\<lambda>(k, v). (k, value_of v)) (ser_optional name f x)) t =
   insert_optional name (\<lambda>v. value_of (f v)) x t"
  by (simp add: ser_optional_def insert_optional_def bt_extend_def split: option.splits)

text \<open>
  The two writers agree: the value built in memory is the serialised file with its objects in
  key order, so a reader that does not look at the order of keys sees the same file.
\<close>

theorem to_value_serialized:
  "to_value c d include_target_type include_deps =
    value_of (serialized c d include_target_type include_deps)"
proof -
  have hs: "value_of (serialized_hashes c (hashes d) include_target_type) =
      JObj (bt_of_list (map (\<lambda>(lbl, h). (lbl, JStr (json_value c h include_target_type))) (hashes d)))"
    by (simp add: serialized_hashes_def ser_map_def comp_def case_prod_unfold)
  have meta: "value_of (serialized_metadata d include_deps) =
     JObj (insert_optional ''tree'' JStr (tree d)
       (insert_optional ''partialGraph'' (\<lambda>p. value_of (ser_partial_recipes p)) (partial d)
         (if include_deps \<and> dep_edges d \<noteq> []
          then bt_insert ''depEdges'' (value_of (ser_map ser_strings (dep_edges d)))
            (insert_optional ''dependencyFingerprint'' JStr (dependency_fingerprint d)
              (insert_optional ''moduleGraphJson'' JStr (module_graph_json d) []))
          else insert_optional ''dependencyFingerprint'' JStr (dependency_fingerprint d)
              (insert_optional ''moduleGraphJson'' JStr (module_graph_json d) []))))"
    unfolding serialized_metadata_def
    by (simp add: bt_of_list_def bt_extend_append extend_optional)
      (simp add: bt_extend_def)
  show ?thesis
    by (simp add: to_value_def serialized_def Let_def hs meta)
qed

end
