(* ===== verification/Options.thy ===== *)
theory Options
  imports Tree_Index
begin

section \<open>Options (bazel.rs, hash.rs)\<close>

text \<open>
  \<^verbatim>\<open>BazelOptions\<close> and \<^verbatim>\<open>HashOptions\<close>. Paths are strings; the cancellation handle of a served
  query is modelled with the subprocesses it kills, in the theory of cancellation. An ordered set is a sorted
  list, a hash set a list whose order nothing depends on.
\<close>

record bazel_options =
  workspace :: string
  bazel :: string
  startup_options :: "string list"
  command_options :: "string list"
  cquery_options :: "string list"
  use_cquery :: bool
  cquery_expression :: "string option"
  keep_going :: bool
  fine_grained_external_repos :: "string list"
  label_only_module_extensions :: "string list"
  isolated_dependency_root :: "string option"
  exclude_external_targets :: bool
  exclude_targets_query :: "string option"
  no_bazelrc :: bool
  verbose :: bool

record hash_options =
  bazel_opts :: bazel_options
  content_hash_map :: "(string, string) btree option"
  ignored_attributes :: "string list"
  seed_filepaths :: "string list"
  modified_filepaths :: "string list"
  track_deps :: bool
  always_affected_tags :: "string list"
  partial_tree :: "tree_index option"

end
