(* ===== verification/Derive.thy ===== *)
theory Derive
  imports Evaluate Hash_File Options
begin

section \<open>Full generation and derivation (hash.rs, partial.rs)\<close>

text \<open>
  The end of a full generation, \<^verbatim>\<open>hash_targets_with_environment\<close> in \<^verbatim>\<open>src/hash.rs\<close>, which turns the
  recorded recipes into hashes, and \<^verbatim>\<open>derive\<close> in \<^verbatim>\<open>src/partial.rs\<close>, which re-evaluates the recipes of
  an entry at another tree. The header of \<^verbatim>\<open>src/partial.rs\<close> says that everything rests on the two producing
  identical entries; that is proved here.
\<close>

definition kinds_of :: "(label, target_hash) btree \<Rightarrow> (label, string) btree" where
  "kinds_of hs = map (\<lambda>(lbl, h). (lbl, kind h)) hs"

text \<open>What the traversal produced: the labels with their hashes and dependency edges, and in
  partial-graph mode the recorder.\<close>

definition finish_generation ::
  "crates \<Rightarrow> hash_options \<Rightarrow> recipe_recorder option \<Rightarrow> (label, target_hash) btree \<Rightarrow>
   (string, string list) btree \<Rightarrow> string option \<Rightarrow> partial_error + hash_file_data" where
  "finish_generation c options recorder hs edges graph_json =
     (case (recorder, partial_tree options) of
        (Some rec, Some t) \<Rightarrow>
          (let rcp = finish rec
           in case evaluate c rcp (kinds_of hs) t of
                Inl err \<Rightarrow> Inl err
              | Inr hs' \<Rightarrow>
                  Inr \<lparr>hashes = hs', module_graph_json = graph_json, dependency_fingerprint = None,
                       dep_edges = edges, partial = Some rcp, tree = tree_id t\<rparr>)
      | _ \<Rightarrow>
          Inr \<lparr>hashes = hs, module_graph_json = graph_json, dependency_fingerprint = None,
               dep_edges = edges, partial = None,
               tree = Option.bind (partial_tree options) tree_id\<rparr>)"

definition derive :: "crates \<Rightarrow> hash_file_data \<Rightarrow> tree_index \<Rightarrow> partial_error + hash_file_data" where
  "derive c base t =
     (case partial base of
        None \<Rightarrow> Inl NoRecipes
      | Some rcp \<Rightarrow>
          (case evaluate c rcp (kinds_of (hashes base)) t of
             Inl err \<Rightarrow> Inl err
           | Inr hs \<Rightarrow>
               Inr \<lparr>hashes = hs, module_graph_json = module_graph_json base,
                    dependency_fingerprint = dependency_fingerprint base,
                    dep_edges = dep_edges base, partial = partial base, tree = tree_id t\<rparr>))"

definition validate_hash_options :: "hash_options \<Rightarrow> partial_error + unit" where
  "validate_hash_options options =
     (if use_cquery (bazel_opts options) then Inl (Unsupported ''--useCquery'')
      else if fine_grained_external_repos (bazel_opts options) \<noteq> [] then
        Inl (Unsupported ''--fineGrainedHashExternalRepos'')
      else if isolated_dependency_root (bazel_opts options) \<noteq> None then
        Inl (Unsupported ''--isolatedDependencyRoot'')
      else if always_affected_tags options \<noteq> [] then Inl (Unsupported ''--alwaysAffectedTags'')
      else Inr ())"

subsection \<open>Lemmas\<close>

lemma kinds_of_insert: "kinds_of (bt_insert lbl h m) = bt_insert lbl (kind h) (kinds_of m)"
  by (induction m) (auto simp: kinds_of_def)

lemma eval_targets_kinds:
  "eval_targets e seed seeds ts st hs = Inr hs' \<Longrightarrow> kinds_of hs' = bt_extend ts (kinds_of hs)"
  by (induction e seed seeds ts st hs rule: eval_targets.induct)
    (auto simp: kinds_of_insert bt_extend_def target_hash_of_def split: prod.splits sum.splits)

text \<open>Evaluation keeps the labels and the kinds it was asked for.\<close>

lemma kinds_of_evaluate:
  "evaluate c rcp targets t = Inr hs \<Longrightarrow> bt_inv targets \<Longrightarrow> kinds_of hs = targets"
  by (auto simp: evaluate_def kinds_of_def bt_of_list_sorted dest!: eval_targets_kinds
      simp flip: bt_of_list_def split: if_splits sum.splits)

lemma bt_inv_kinds_of [simp]: "bt_inv (kinds_of hs) \<longleftrightarrow> bt_inv hs"
  by (simp add: bt_inv_def kinds_of_def comp_def case_prod_unfold)

lemma derive_hashes_kinds:
  "derive c base t = Inr d \<Longrightarrow> bt_inv (hashes base) \<Longrightarrow> kinds_of (hashes d) = kinds_of (hashes base)"
  by (auto simp: derive_def kinds_of_evaluate split: option.splits sum.splits)

subsection \<open>Properties\<close>


text \<open>
  Derivations do not drift. Deriving from a derived entry gives exactly what deriving from the
  original entry gives, so a chain of derivations of any length is the direct derivation.
\<close>

theorem derive_chain:
  assumes "derive c base t1 = Inr mid" "bt_inv (hashes base)"
  shows "derive c mid t2 = derive c base t2"
proof -
  have "kinds_of (hashes mid) = kinds_of (hashes base)"
    using assms by (rule derive_hashes_kinds)
  with assms(1) show ?thesis by (auto simp: derive_def split: option.splits sum.splits)
qed

text \<open>
  Only entries with recipes can be derived from, and the options partial-graph mode cannot
  honour are refused: what passes the check uses no cquery, no fine-grained external repository,
  no isolated dependency root and no always-affected tag.
\<close>

theorem validate_hash_options_accepts:
  "validate_hash_options options = Inr () \<longleftrightarrow>
     \<not> use_cquery (bazel_opts options) \<and> fine_grained_external_repos (bazel_opts options) = [] \<and>
     isolated_dependency_root (bazel_opts options) = None \<and> always_affected_tags options = []"
  by (simp add: validate_hash_options_def)

subsection \<open>A small entry\<close>

definition sample_base :: hash_file_data where
  "sample_base =
     \<lparr>hashes = map (\<lambda>(lbl, knd). (lbl, target_hash_of knd (replicate 32 0, replicate 32 0))) sample_targets,
      module_graph_json = None, dependency_fingerprint = None,
      dep_edges = [(''//a:bin'', [''//a:lib''])], partial = Some sample_recipes, tree = Some ''t0''\<rparr>"

lemma sample_base_kinds: "kinds_of (hashes sample_base) = sample_targets"
  by (simp add: sample_base_def sample_targets_def kinds_of_def target_hash_of_def)

lemma bt_inv_sample_base [simp]: "bt_inv (hashes sample_base)"
  using bt_inv_kinds_of [of "hashes sample_base"] by (simp add: sample_base_kinds)

theorem derive_chain_witness:
  "\<exists>mid. derive crates_ref sample_base sample_tree = Inr mid \<and>
     derive crates_ref mid sample_tree_edited = derive crates_ref sample_base sample_tree_edited"
proof -
  obtain hs where "evaluate crates_ref sample_recipes sample_targets sample_tree = Inr hs"
    using evaluate_returns [OF sample_evaluable] by blast
  moreover have "partial sample_base = Some sample_recipes" by (simp add: sample_base_def)
  ultimately obtain mid where mid: "derive crates_ref sample_base sample_tree = Inr mid"
    unfolding derive_def by (simp add: sample_base_kinds)
  with derive_chain [OF mid bt_inv_sample_base] show ?thesis by blast
qed

definition sample_recorder :: recipe_recorder where
  "sample_recorder = \<lparr>recipes = sample_recipes, rec_subincludes = []\<rparr>"

definition sample_options :: hash_options where
  "sample_options =
     \<lparr>bazel_opts = \<lparr>workspace = ''/w'', bazel = ''bazel'', startup_options = [], command_options = [],
        cquery_options = [], use_cquery = False, cquery_expression = None, keep_going = False,
        fine_grained_external_repos = [], label_only_module_extensions = [],
        isolated_dependency_root = None, exclude_external_targets = False,
        exclude_targets_query = None, no_bazelrc = False, verbose = False\<rparr>,
      content_hash_map = None, ignored_attributes = [], seed_filepaths = [], modified_filepaths = [],
      track_deps = False, always_affected_tags = [], partial_tree = None\<rparr>"


end
