(* ===== verification/Classify.thy ===== *)
theory Classify
  imports Derive
begin

section \<open>When a derivation is allowed (partial.rs)\<close>

text \<open>
  \<^verbatim>\<open>parse_diff_raw\<close>, \<^verbatim>\<open>is_graph_defining_path\<close>, \<^verbatim>\<open>referenced_main_repo_paths\<close>, \<^verbatim>\<open>Glob\<close>, \<^verbatim>\<open>classify\<close> and
  \<^verbatim>\<open>source_labels_for_path\<close> of \<^verbatim>\<open>src/partial.rs\<close>. Strings stand for their bytes, as in the tree index.
\<close>

subsection \<open>The diff\<close>

record diff_entry =
  path :: string
  status :: char
  old_mode :: string
  new_mode :: string

text \<open>One record and the rest of the fields; \<^verbatim>\<open>parts.nth(2)\<close> after two \<^verbatim>\<open>next\<close> is the fifth part.\<close>

fun diff_entries :: "string list \<Rightarrow> partial_error + diff_entry list" where
  "diff_entries [] = Inr []"
| "diff_entries (raw # rest) =
     (case strip_prefix '':'' raw of
        None \<Rightarrow> Inl (BadDiffRecord raw)
      | Some rec \<Rightarrow>
         (let parts = split_on (CHR '' '') rec;
              old = (case parts of [] \<Rightarrow> [] | p # _ \<Rightarrow> p);
              new = (case drop 1 parts of [] \<Rightarrow> [] | p # _ \<Rightarrow> p)
          in case drop 4 parts of
               (st # _) # _ \<Rightarrow>
                 (case rest of
                    [] \<Rightarrow> Inl (DiffWithoutPath rec)
                  | p # rest' \<Rightarrow>
                      (case diff_entries rest' of
                         Inl err \<Rightarrow> Inl err
                       | Inr es \<Rightarrow> Inr (\<lparr>path = p, status = st, old_mode = old, new_mode = new\<rparr> # es)))
             | _ \<Rightarrow> Inl (BadDiffRecord rec)))"

definition parse_diff_raw :: "string \<Rightarrow> partial_error + diff_entry list" where
  "parse_diff_raw output = diff_entries (filter (\<lambda>field. field \<noteq> []) (split_on NUL output))"

subsection \<open>Files read while loading\<close>

definition graph_defining_names :: "string list" where
  "graph_defining_names =
     [''BUILD'', ''BUILD.bazel'', ''WORKSPACE'', ''WORKSPACE.bazel'', ''WORKSPACE.bzlmod'', ''MODULE.bazel'',
      ''MODULE.bazel.lock'', ''REPO.bazel'', ''VENDOR.bazel'', ''.bazelignore'', ''.bazelversion'', ''.bazeliskrc'']"

definition is_graph_defining_path :: "string \<Rightarrow> bool" where
  "is_graph_defining_path p =
     (let name = last_segment p
      in name \<in> set graph_defining_names \<or> ends_with ''.bzl'' name \<or> ends_with ''.scl'' name \<or>
         ends_with ''bazelrc'' name \<or> ends_with ''.BUILD'' name \<or> starts_with ''BUILD.'' name \<or>
         ends_with ''.patch'' name \<or> ends_with ''.diff'' name \<or> p = ''tools/bazel'')"

definition MODULE_FILES :: "string list" where
  "MODULE_FILES = [''MODULE.bazel'', ''WORKSPACE'', ''WORKSPACE.bazel'', ''WORKSPACE.bzlmod'']"

text \<open>The text between each quote and the next one; after the last quote the scan stops.\<close>

fun quoted_literals :: "char \<Rightarrow> string \<Rightarrow> string list" where
  "quoted_literals q [] = []"
| "quoted_literals q (ch # rest) =
     (if ch = q then
        (case split_once q rest of None \<Rightarrow> [] | Some (literal, _) \<Rightarrow> literal # quoted_literals q rest)
      else quoted_literals q rest)"

definition literal_path :: "string \<Rightarrow> string option" where
  "literal_path literal =
     (case strip_prefix '':'' literal of
        Some name \<Rightarrow> Some (replace_char (CHR '':'') ''/'' name)
      | None \<Rightarrow>
          if is_main_repo literal then
            map_option (\<lambda>p. if CHR '':'' \<in> set literal then p
                            else if p \<noteq> [] then p @ ''/'' @ last_segment p else p)
              (main_repo_path literal)
          else None)"

definition referenced_main_repo_paths :: "string \<Rightarrow> string list" where
  "referenced_main_repo_paths txt =
     bs_of_list (filter (\<lambda>p. p \<noteq> [])
       (List.map_filter literal_path
         (filter (\<lambda>literal. NL \<notin> set literal)
           (quoted_literals (CHR 0x22) txt @ quoted_literals (CHR 0x27) txt))))"

subsection \<open>Rebuild patterns\<close>

definition glob_new :: "string \<Rightarrow> partial_error + string" where
  "glob_new pattern = (if pattern = [] then Inl EmptyPattern else Inr pattern)"

function glob_match :: "string \<Rightarrow> string \<Rightarrow> bool" where
  "glob_match [] subject = (subject = [])"
| "glob_match (p # ps) subject =
     (if p = CHR ''*'' then
        (case strip_prefix ''*'' ps of
           Some rest0 \<Rightarrow>
             (let rest = (case strip_prefix ''/'' rest0 of None \<Rightarrow> rest0 | Some r \<Rightarrow> r)
              in list_ex (\<lambda>skip. (skip = 0 \<or> subject ! (skip - 1) = CHR ''/'' \<or> skip = length subject) \<and>
                     glob_match rest (drop skip subject)) [0..<Suc (length subject)] \<or>
                 glob_match rest subject)
         | None \<Rightarrow>
             list_ex (\<lambda>skip. glob_match ps (drop skip subject))
               (takeWhile (\<lambda>skip. skip = 0 \<or> subject ! (skip - 1) \<noteq> CHR ''/'') [0..<Suc (length subject)]))
      else
        (case subject of
           [] \<Rightarrow> False
         | first # rest \<Rightarrow>
             (if p = CHR ''?'' then first \<noteq> CHR ''/'' else first = p) \<and> glob_match ps rest))"
  by pat_completeness auto
termination
  by (relation "measure (\<lambda>(pattern, subject). length pattern)")
    (auto simp: strip_prefix_eq_Some split: option.splits dest: arg_cong [where f = length])

declare glob_match.simps(2) [simp del]

definition glob_matches :: "string \<Rightarrow> string \<Rightarrow> bool" where
  "glob_matches pattern p =
     glob_match pattern (if CHR ''/'' \<in> set pattern then p else last_segment p)"

subsection \<open>Classification\<close>

datatype classification =
    Derivable "label list" "string list"
  | Rebuild string

record classify_inputs =
  ci_diff :: "diff_entry list"
  ci_tree :: tree_index
  ci_base :: hash_file_data
  ci_workspace :: string
  ci_seed_filepaths :: "string list"
  ci_rebuild_patterns :: "string list"
  ci_module_referenced :: "string list"

definition is_regular_mode :: "string \<Rightarrow> bool" where
  "is_regular_mode mode \<longleftrightarrow> mode \<in> {''100644'', ''100664'', ''100755''}"

definition status_word :: "char \<Rightarrow> string" where
  "status_word st =
     (if st = CHR ''A'' then ''added'' else if st = CHR ''D'' then ''deleted''
      else if st = CHR ''T'' then ''type-changed'' else if st = CHR ''R'' then ''renamed''
      else if st = CHR ''C'' then ''copied'' else ''changed'')"

definition split_label :: "string list \<Rightarrow> nat \<Rightarrow> nat \<Rightarrow> label" where
  "split_label components len split =
     (let pre = take len components
      in ''//'' @ join ''/'' (take split pre) @ '':'' @ join ''/'' (drop split pre))"

definition source_labels_for_path :: "(label, target_hash) btree \<Rightarrow> string \<Rightarrow> label list" where
  "source_labels_for_path hs p =
     (let components = split_on (CHR ''/'') p
      in concat (map (\<lambda>len.
           filter (\<lambda>lbl. case bt_get hs lbl of None \<Rightarrow> False | Some h \<Rightarrow> kind h = ''SourceFile'')
             (map (split_label components len) [0..<len]))
         (rev [1..<Suc (length components)])))"

text \<open>The reason the body of the loop returns with, if it does.\<close>

definition rebuild_reason ::
  "classify_inputs \<Rightarrow> partial_recipes \<Rightarrow> string list \<Rightarrow> diff_entry \<Rightarrow> string option" where
  "rebuild_reason inputs rcp seeds entry =
     (let p = path entry
      in if status entry \<noteq> CHR ''M'' then
           Some (p @ '' was '' @ status_word (status entry) @ '' (status '' @ [status entry] @ '')'')
         else if \<not> is_regular_mode (old_mode entry) \<or> \<not> is_regular_mode (new_mode entry) then
           Some (p @ '' is not a regular file on both sides (modes '' @ old_mode entry @ '' -> '' @ new_mode entry @ '')'')
         else if is_graph_defining_path p then Some (''graph-defining file '' @ p @ '' changed'')
         else if p \<in> set (ci_module_referenced inputs) then
           Some (p @ '' is named by a module or workspace file and changed'')
         else if p \<in> set seeds then Some (''seed file '' @ p @ '' changed'')
         else
           (case find (\<lambda>input. p = input \<or> starts_with (input @ ''/'') p) (load_inputs rcp) of
              Some input \<Rightarrow>
                Some (p @ '' is read while loading the graph (under '' @ input @ '') and changed'')
            | None \<Rightarrow>
                (case find (\<lambda>glob. glob_matches glob p) (ci_rebuild_patterns inputs) of
                   Some glob \<Rightarrow> Some (p @ '' matches rebuild pattern '' @ glob)
                 | None \<Rightarrow> None)))"

fun classify_loop ::
  "classify_inputs \<Rightarrow> partial_recipes \<Rightarrow> string list \<Rightarrow> diff_entry list \<Rightarrow> label list \<Rightarrow> string list \<Rightarrow>
   classification" where
  "classify_loop inputs rcp seeds [] changed_sources unmatched_paths =
     Derivable changed_sources unmatched_paths"
| "classify_loop inputs rcp seeds (entry # es) changed_sources unmatched_paths =
     (case rebuild_reason inputs rcp seeds entry of
        Some reason \<Rightarrow> Rebuild reason
      | None \<Rightarrow>
          (let labels = source_labels_for_path (hashes (ci_base inputs)) (path entry)
           in if labels = [] then
                classify_loop inputs rcp seeds es changed_sources (unmatched_paths @ [path entry])
              else classify_loop inputs rcp seeds es (changed_sources @ labels) unmatched_paths))"

definition seed_paths :: "(string \<Rightarrow> string option) \<Rightarrow> classify_inputs \<Rightarrow> string list" where
  "seed_paths canonicalize inputs =
     bs_of_list (List.map_filter (normalize_workspace_path canonicalize (ci_workspace inputs))
       (ci_seed_filepaths inputs))"

definition classify :: "(string \<Rightarrow> string option) \<Rightarrow> classify_inputs \<Rightarrow> classification" where
  "classify canonicalize inputs =
     (case partial (ci_base inputs) of
        None \<Rightarrow> Rebuild ''base entry carries no partial-graph recipes''
      | Some rcp \<Rightarrow>
          (case find is_graph_defining_path (symlinks (ci_tree inputs)) of
             Some p \<Rightarrow> Rebuild (''symlinked graph-defining file '' @ p)
           | None \<Rightarrow>
               classify_loop inputs rcp (seed_paths canonicalize inputs) (ci_diff inputs) [] []))"

subsection \<open>The classifier's verdict\<close>

text \<open>What the classifier accepts, stated without the order of its tests.\<close>

definition content_edit :: "classify_inputs \<Rightarrow> partial_recipes \<Rightarrow> string list \<Rightarrow> diff_entry \<Rightarrow> bool" where
  "content_edit inputs rcp seeds entry \<longleftrightarrow>
     status entry = CHR ''M'' \<and> is_regular_mode (old_mode entry) \<and> is_regular_mode (new_mode entry) \<and>
     \<not> is_graph_defining_path (path entry) \<and> path entry \<notin> set (ci_module_referenced inputs) \<and>
     path entry \<notin> set seeds \<and>
     \<not> list_ex (\<lambda>input. path entry = input \<or> starts_with (input @ ''/'') (path entry)) (load_inputs rcp) \<and>
     \<not> list_ex (\<lambda>glob. glob_matches glob (path entry)) (ci_rebuild_patterns inputs)"

lemma rebuild_reason_None_iff:
  "rebuild_reason inputs rcp seeds entry = None \<longleftrightarrow> content_edit inputs rcp seeds entry"
  by (auto simp: rebuild_reason_def content_edit_def Let_def find_None_iff list_ex_iff find_Some_iff
      split: option.splits if_splits)

abbreviation entry_labels :: "classify_inputs \<Rightarrow> diff_entry \<Rightarrow> label list" where
  "entry_labels inputs entry \<equiv> source_labels_for_path (hashes (ci_base inputs)) (path entry)"

lemma classify_loop_Derivable_iff:
  "classify_loop inputs rcp seeds es cs um = Derivable cs' um' \<longleftrightarrow>
     list_all (content_edit inputs rcp seeds) es \<and>
     cs' = cs @ concat (map (entry_labels inputs) es) \<and>
     um' = um @ map path (filter (\<lambda>e. entry_labels inputs e = []) es)"
  by (induction es arbitrary: cs um)
    (auto simp: Let_def simp flip: rebuild_reason_None_iff split: option.splits)

lemma classify_loop_Rebuild:
  "classify_loop inputs rcp seeds es cs um = Rebuild reason \<Longrightarrow>
   \<exists>pre e post. es = pre @ e # post \<and> list_all (content_edit inputs rcp seeds) pre \<and>
     rebuild_reason inputs rcp seeds e = Some reason"
proof (induction es arbitrary: cs um)
  case (Cons e es)
  show ?case
  proof (cases "rebuild_reason inputs rcp seeds e")
    case None
    with Cons.prems obtain cs' um' where "classify_loop inputs rcp seeds es cs' um' = Rebuild reason"
      by (auto simp: Let_def split: if_splits)
    from Cons.IH [OF this] obtain pre e' post where "es = pre @ e' # post"
      "list_all (content_edit inputs rcp seeds) pre" "rebuild_reason inputs rcp seeds e' = Some reason"
      by blast
    with None show ?thesis
      by (intro exI [of _ "e # pre"] exI [of _ e'] exI [of _ post]) (simp add: rebuild_reason_None_iff)
  next
    case (Some r)
    with Cons.prems show ?thesis by (intro exI [of _ "[]"] exI [of _ e] exI [of _ es]) simp
  qed
qed simp

lemma classify_derivable:
  assumes "classify canonicalize inputs = Derivable changed unmatched"
  shows "changed = concat (map (entry_labels inputs) (ci_diff inputs))"
    and "\<exists>rcp. partial (ci_base inputs) = Some rcp \<and>
      list_all (content_edit inputs rcp (seed_paths canonicalize inputs)) (ci_diff inputs)"
  using assms by (auto simp: classify_def classify_loop_Derivable_iff split: option.splits)

text \<open>
  C9: the classifier is conservative, and exactly so. It allows a derivation if and only if the
  base has recipes, no symlink is a graph-defining file, and every change is a content edit of a
  regular file that nothing reads while the graph loads; then the reported labels are the source targets
  the paths map to, in the order of the diff, and the unmatched paths are the ones no target reads.
\<close>

theorem classify_derivable_iff:
  "classify canonicalize inputs = Derivable changed unmatched \<longleftrightarrow>
     (\<exists>rcp. partial (ci_base inputs) = Some rcp \<and>
        list_all (\<lambda>p. \<not> is_graph_defining_path p) (symlinks (ci_tree inputs)) \<and>
        list_all (content_edit inputs rcp (seed_paths canonicalize inputs)) (ci_diff inputs) \<and>
        changed = concat (map (entry_labels inputs) (ci_diff inputs)) \<and>
        unmatched = map path (filter (\<lambda>e. entry_labels inputs e = []) (ci_diff inputs)))"
  by (cases "find is_graph_defining_path (symlinks (ci_tree inputs))")
    (auto simp: classify_def classify_loop_Derivable_iff find_None_iff list_all_iff find_Some_iff
      split: option.splits)

text \<open>
  A refusal blames the right change: with recipes and no graph-defining symlink, the reason is the
  one of the first entry of the diff that is not a plain content edit, everything before it being one.
\<close>

theorem classify_rebuild_first:
  assumes "classify canonicalize inputs = Rebuild reason" "partial (ci_base inputs) = Some rcp"
    and "list_all (\<lambda>p. \<not> is_graph_defining_path p) (symlinks (ci_tree inputs))"
  shows "\<exists>pre e post. ci_diff inputs = pre @ e # post \<and>
    list_all (content_edit inputs rcp (seed_paths canonicalize inputs)) pre \<and>
    rebuild_reason inputs rcp (seed_paths canonicalize inputs) e = Some reason"
proof -
  have "find is_graph_defining_path (symlinks (ci_tree inputs)) = None"
    using assms(3) by (simp add: find_None_iff list_all_iff)
  with assms(1,2) have "classify_loop inputs rcp (seed_paths canonicalize inputs) (ci_diff inputs) [] [] = Rebuild reason"
    by (simp add: classify_def)
  then show ?thesis by (rule classify_loop_Rebuild)
qed

subsection \<open>Which labels a path reaches\<close>

lemma set_source_labels_for_path:
  "lbl \<in> set (source_labels_for_path hs p) \<longleftrightarrow>
     (\<exists>h. bt_get hs lbl = Some h \<and> kind h = ''SourceFile'') \<and>
     (\<exists>len \<in> {1..length (split_on (CHR ''/'') p)}. \<exists>split < len.
        lbl = split_label (split_on (CHR ''/'') p) len split)"
proof -
  have "set (rev [1..<Suc (length (split_on (CHR ''/'') p))]) = {1..length (split_on (CHR ''/'') p)}"
    by auto
  then show ?thesis
    by (auto simp: source_labels_for_path_def Let_def simp del: upt_Suc split: option.splits) force+
qed

text \<open>The label \<open>//pkg:name\<close>, and the path it names.\<close>

definition canonical_label :: "label \<Rightarrow> string \<Rightarrow> string \<Rightarrow> bool" where
  "canonical_label lbl pkg name \<longleftrightarrow>
     lbl = ''//'' @ pkg @ '':'' @ name \<and> CHR '':'' \<notin> set pkg \<and> CHR '':'' \<notin> set name \<and>
     name \<noteq> [] \<and> \<not> ends_with ''/'' name"

lemma split_on_append_piece:
  "split_on c (a @ c # b) = split_on c a @ split_on c b"
  by (induction a) (auto split: list.splits)

lemma ends_with_slash: "ends_with ''/'' s \<longleftrightarrow> s \<noteq> [] \<and> last s = CHR ''/''"
  by (cases s rule: rev_cases) (auto simp: ends_with_iff)

lemma source_labels_complete:
  assumes "canonical_label lbl pkg name" "main_repo_path lbl = Some base" "at_or_below q base"
    and "bt_get hs lbl = Some h" "kind h = ''SourceFile''"
  shows "lbl \<in> set (source_labels_for_path hs q)"
proof -
  let ?s = "split_on (CHR ''/'')"
  define pkgs where "pkgs = (if pkg = [] then [] else ?s pkg)"
  have base: "base = (if pkg = [] then name else pkg @ ''/'' @ name)"
    using assms(1,2) main_repo_path_canonical [of pkg name] by (simp add: canonical_label_def)
  have base_parts: "?s base = pkgs @ ?s name"
    by (simp add: base pkgs_def split_on_append_piece)
  obtain rest where q_parts: "?s q = ?s base @ rest"
  proof (cases "q = base")
    case False
    have "base \<noteq> []" "\<not> ends_with ''/'' base"
      using assms(1) by (auto simp: base canonical_label_def ends_with_slash)
    with False assms(3) obtain r where "q = base @ CHR ''/'' # r"
      by (auto simp: at_or_below_def under_prefix_def starts_with_iff)
    with that show thesis by (simp add: split_on_append_piece)
  qed (use that in auto)
  let ?len = "length (?s base)" and ?split = "length pkgs"
  have "join ''/'' pkgs = pkg" by (simp add: pkgs_def)
  then have "lbl = split_label (?s q) ?len ?split"
    using assms(1) by (simp add: q_parts base_parts canonical_label_def split_label_def)
  moreover have "?split < ?len" by (simp add: base_parts)
  moreover have "?len \<in> {1..length (?s q)}" by (simp add: q_parts Suc_le_eq)
  ultimately show ?thesis
    using assms(4,5) unfolding set_source_labels_for_path by blast
qed

text \<open>What \<open>git diff --raw\<close> promises: a path that is not listed is the same on both sides.\<close>

definition diff_covers :: "diff_entry list \<Rightarrow> tree_index \<Rightarrow> tree_index \<Rightarrow> bool" where
  "diff_covers diff t1 t2 \<longleftrightarrow> (\<forall>q. tree_get t1 q \<noteq> tree_get t2 q \<longrightarrow> q \<in> path ` set diff)"

lemma changed_digest_path:
  assumes "bt_inv (entries t1)" "bt_inv (entries t2)" "diff_covers diff t1 t2"
    and "main_repo_path lbl = Some base"
    and "source_digest c t1 lbl seed \<noteq> source_digest c t2 lbl seed \<or> soft_digest c t1 lbl \<noteq> soft_digest c t2 lbl"
  shows "\<exists>e \<in> set diff. at_or_below (path e) base"
proof (rule ccontr)
  assume no: "\<not> (\<exists>e \<in> set diff. at_or_below (path e) base)"
  have "tree_get t1 q = tree_get t2 q" if "at_or_below q base" for q
    using that no assms(3) by (auto simp: diff_covers_def)
  from source_digest_local [OF assms(1,2,4) this] assms(5) show False by blast
qed

lemma changed_source_reported:
  assumes "classify canonicalize inputs = Derivable changed unmatched"
    and "bt_inv (entries t1)" "bt_inv (entries t2)" "diff_covers (ci_diff inputs) t1 t2"
    and "bt_get (hashes (ci_base inputs)) lbl = Some h" "kind h = ''SourceFile''" "canonical_label lbl pkg name"
    and "source_digest c t1 lbl seed \<noteq> source_digest c t2 lbl seed"
  shows "lbl \<in> set changed"
proof -
  obtain base where base: "main_repo_path lbl = Some base"
    using assms(7) main_repo_path_canonical by (auto simp: canonical_label_def)
  from changed_digest_path [OF assms(2-4) base] assms(8)
  obtain e where e: "e \<in> set (ci_diff inputs)" "at_or_below (path e) base" by blast
  have "lbl \<in> set (entry_labels inputs e)"
    using source_labels_complete [OF assms(7) base e(2) assms(5,6)] .
  moreover have "changed = concat (map (entry_labels inputs) (ci_diff inputs))"
    using assms(1) by (rule classify_derivable)
  ultimately show ?thesis using e(1) by auto
qed

text \<open>
  C10: the reported changed sources are complete. When the classifier allows a derivation, every source
  target (written \<open>//pkg:name\<close>) whose digest differs between the two trees the diff compares
  is among the labels it reports, be it the changed file itself or a directory above it.
\<close>

theorem changed_sources_complete:
  assumes "classify canonicalize inputs = Derivable changed unmatched"
    and "bt_inv (entries t1)" "bt_inv (entries t2)" "diff_covers (ci_diff inputs) t1 t2"
    and "bt_get (hashes (ci_base inputs)) lbl = Some h" "kind h = ''SourceFile''" "canonical_label lbl pkg name"
    and "source_digest c t1 lbl seed \<noteq> source_digest c t2 lbl seed"
  shows "lbl \<in> set changed"
  using assms by (rule changed_source_reported)

text \<open>The labels a rule reads are unaffected by a classified diff: each is a source target the
  classifier did not report, or a file that is no target and lies under no changed path.\<close>

definition unaffected_source :: "classify_inputs \<Rightarrow> label list \<Rightarrow> label \<Rightarrow> bool" where
  "unaffected_source inputs changed s \<longleftrightarrow>
     (s, ''SourceFile'') \<in> set (kinds_of (hashes (ci_base inputs))) \<and>
       (\<exists>pkg name. canonical_label s pkg name) \<and> s \<notin> set changed \<or>
     (s, ''SourceFile'') \<notin> set (kinds_of (hashes (ci_base inputs))) \<and>
       (\<forall>base. main_repo_path s = Some base \<longrightarrow> (\<forall>e \<in> set (ci_diff inputs). \<not> at_or_below (path e) base))"

lemma bt_get_of_kinds:
  "bt_inv hs \<Longrightarrow> (lbl, knd) \<in> set (kinds_of hs) \<longleftrightarrow> (\<exists>h. bt_get hs lbl = Some h \<and> kind h = knd)"
  by (force simp: kinds_of_def bt_get_eq_Some)

lemma unaffected_source_value:
  assumes "classify canonicalize inputs = Derivable changed unmatched"
    and trees: "bt_inv (entries t1)" "bt_inv (entries t2)" "diff_covers (ci_diff inputs) t1 t2"
    and inv: "bt_inv (hashes (ci_base inputs))"
    and "unaffected_source inputs changed s"
  shows "source_value (eval_env_of c rcp (kinds_of (hashes (ci_base inputs))) t1) s =
    source_value (eval_env_of c rcp (kinds_of (hashes (ci_base inputs))) t2) s"
proof (cases "(s, ''SourceFile'') \<in> set (kinds_of (hashes (ci_base inputs)))")
  case True
  with assms(6) obtain pkg name where can: "canonical_label s pkg name" and new: "s \<notin> set changed"
    by (auto simp: unaffected_source_def)
  from True inv obtain h where "bt_get (hashes (ci_base inputs)) s = Some h" "kind h = ''SourceFile''"
    by (auto simp: bt_get_of_kinds)
  from changed_source_reported [OF assms(1) trees this can] new
  have "source_digest c t1 s seed = source_digest c t2 s seed" for seed by blast
  then show ?thesis using True inv by (simp add: source_value_def ev_sources_get)
next
  case False
  have "soft_digest c t1 s = soft_digest c t2 s"
  proof (cases "main_repo_path s")
    case None
    then show ?thesis by (simp add: soft_digest_def)
  next
    case (Some base)
    with changed_digest_path [OF trees Some] assms(6) False show ?thesis
      by (auto simp: unaffected_source_def)
  qed
  then show ?thesis using False inv by (simp add: source_value_def ev_sources_get)
qed

text \<open>
  C11: a derivation moves only what the diff reaches. When the classifier allows it, a rule all of
  whose inputs, through any chain of dependencies, are unaffected keeps its hash from the base
  tree to the new tree.
\<close>

theorem derivation_keeps_unaffected:
  assumes "classify canonicalize inputs = Derivable changed unmatched"
    and "bt_inv (entries t1)" "bt_inv (entries t2)" "diff_covers (ci_diff inputs) t1 t2"
    and "bt_inv (hashes (ci_base inputs))" "partial (ci_base inputs) = Some rcp"
    and "evaluable c rcp (kinds_of (hashes (ci_base inputs))) t1"
    and "evaluable c rcp (kinds_of (hashes (ci_base inputs))) t2"
    and "derive c (ci_base inputs) t1 = Inr d1" "derive c (ci_base inputs) t2 = Inr d2"
    and "(k, ''Rule'') \<in> set (kinds_of (hashes (ci_base inputs)))"
    and "\<And>k' s. depends_on (eval_env_of c rcp (kinds_of (hashes (ci_base inputs))) t1) k k' \<Longrightarrow>
      reads_source (eval_env_of c rcp (kinds_of (hashes (ci_base inputs))) t1) k' s \<Longrightarrow>
      unaffected_source inputs changed s"
  shows "bt_get (hashes d1) k = bt_get (hashes d2) k"
proof -
  have "evaluate c rcp (kinds_of (hashes (ci_base inputs))) t1 = Inr (hashes d1)"
    "evaluate c rcp (kinds_of (hashes (ci_base inputs))) t2 = Inr (hashes d2)"
    using assms(6,9,10) by (auto simp: derive_def split: sum.splits)
  from rule_hash_unchanged [OF assms(7,8) this assms(11)] show ?thesis
    using unaffected_source_value [OF assms(1-5)] assms(12) by blast
qed

subsection \<open>A small diff\<close>

definition sample_edit :: "string \<Rightarrow> diff_entry" where
  "sample_edit p = \<lparr>path = p, status = CHR ''M'', old_mode = ''100644'', new_mode = ''100755''\<rparr>"

definition sample_inputs :: "diff_entry list \<Rightarrow> tree_index \<Rightarrow> classify_inputs" where
  "sample_inputs diff t =
     \<lparr>ci_diff = diff, ci_tree = t, ci_base = sample_base, ci_workspace = ''/w'',
      ci_seed_filepaths = [], ci_rebuild_patterns = [''*.lock''], ci_module_referenced = []\<rparr>"

lemma sample_inputs_sel [simp]:
  "ci_diff (sample_inputs diff t) = diff" "ci_tree (sample_inputs diff t) = t"
  "ci_base (sample_inputs diff t) = sample_base"
  "ci_rebuild_patterns (sample_inputs diff t) = [''*.lock'']"
  "ci_module_referenced (sample_inputs diff t) = []" "seed_paths can (sample_inputs diff t) = []"
  by (simp_all add: sample_inputs_def seed_paths_def bs_of_list_def bt_of_list_def)

lemma sample_base_hashes:
  "bt_get (hashes sample_base) lbl =
     map_option (\<lambda>knd. target_hash_of knd (replicate 32 0, replicate 32 0)) (map_of sample_targets lbl)"
  by (simp add: sample_base_def map_of_map)

lemma sample_base_partial [simp]: "partial sample_base = Some sample_recipes"
  by (simp add: sample_base_def)

lemma sample_symlinks: "symlinks sample_tree = []" "symlinks sample_tree_edited = []"
  by (simp_all add: symlinks_def sample_tree_def sample_tree_edited_def)

lemma sample_labels:
  "source_labels_for_path (hashes sample_base) ''a/x.txt'' = [''//a:x.txt'']"
  "source_labels_for_path (hashes sample_base) ''a/run.sh'' = []"
proof -
  have "source_labels_for_path hs p =
      filter (\<lambda>lbl. case bt_get hs lbl of None \<Rightarrow> False | Some h \<Rightarrow> kind h = ''SourceFile'')
        [''//:'' @ x @ ''/'' @ y, ''//'' @ x @ '':'' @ y, ''//:'' @ x]"
    if "split_on (CHR ''/'') p = [x, y]" for hs p x y
    using that by (simp add: source_labels_for_path_def Let_def split_label_def)
  then show "source_labels_for_path (hashes sample_base) ''a/x.txt'' = [''//a:x.txt'']"
    "source_labels_for_path (hashes sample_base) ''a/run.sh'' = []"
    by (simp_all add: sample_base_hashes) (simp_all add: sample_targets_def target_hash_of_def)
qed

lemma sample_reasons:
  "rebuild_reason (sample_inputs diff t) sample_recipes [] (sample_edit ''a/x.txt'') = None"
  "rebuild_reason (sample_inputs diff t) sample_recipes [] (sample_edit ''a/run.sh'') = None"
  "rebuild_reason (sample_inputs diff t) sample_recipes [] (sample_edit ''BUILD'') = Some ''graph-defining file BUILD changed''"
proof -
  have load: "load_inputs sample_recipes = []" by (simp add: sample_recipes_def)
  have globs: "\<not> glob_matches ''*.lock'' ''a/x.txt''" "\<not> glob_matches ''*.lock'' ''a/run.sh''"
    by (simp_all add: glob_matches_def last_segment_def glob_match.simps(2))
  have names: "\<not> is_graph_defining_path ''a/x.txt''" "\<not> is_graph_defining_path ''a/run.sh''"
    "is_graph_defining_path ''BUILD''"
    by code_simp+
  show "rebuild_reason (sample_inputs diff t) sample_recipes [] (sample_edit ''a/x.txt'') = None"
  "rebuild_reason (sample_inputs diff t) sample_recipes [] (sample_edit ''a/run.sh'') = None"
  "rebuild_reason (sample_inputs diff t) sample_recipes [] (sample_edit ''BUILD'') = Some ''graph-defining file BUILD changed''"
    using load globs names by (simp_all add: rebuild_reason_def sample_edit_def is_regular_mode_def)
qed

lemma sample_path_sel [simp]: "path (sample_edit p) = p"
  by (simp add: sample_edit_def)

lemma sample_classify:
  "classify (\<lambda>_. None) (sample_inputs [sample_edit ''a/x.txt''] sample_tree_edited) = Derivable [''//a:x.txt''] []"
  "classify (\<lambda>_. None) (sample_inputs [sample_edit ''a/run.sh''] sample_tree) = Derivable [] [''a/run.sh'']"
  "classify (\<lambda>_. None) (sample_inputs [sample_edit ''a/x.txt'', sample_edit ''BUILD''] sample_tree_edited) =
     Rebuild ''graph-defining file BUILD changed''"
  by (simp_all add: classify_def sample_symlinks sample_reasons sample_labels)

theorem classify_rebuild_first_witness:
  "\<exists>pre e post. [sample_edit ''a/x.txt'', sample_edit ''BUILD''] = pre @ e # post \<and>
     rebuild_reason (sample_inputs [sample_edit ''a/x.txt'', sample_edit ''BUILD''] sample_tree_edited)
       sample_recipes [] e = Some ''graph-defining file BUILD changed''"
  using classify_rebuild_first [OF sample_classify(3) _ , of sample_recipes]
  by (auto simp: sample_symlinks)

lemma sample_canonical: "canonical_label ''//a:x.txt'' ''a'' ''x.txt''"
  by (simp add: canonical_label_def ends_with_slash)

lemma sample_tree_invs [simp]: "bt_inv (entries sample_tree)" "bt_inv (entries sample_tree_edited)"
  by (simp_all add: sample_tree_def sample_tree_edited_def bt_inv_def)

lemma sample_covers: "diff_covers [sample_edit ''a/x.txt''] sample_tree sample_tree_edited"
  by (auto simp: diff_covers_def tree_get_def sample_tree_edited_def bt_get_insert)

theorem changed_sources_complete_witness:
  "source_digest crates_ref sample_tree ''//a:x.txt'' [] \<noteq> source_digest crates_ref sample_tree_edited ''//a:x.txt'' [] \<and>
   ''//a:x.txt'' \<in> set [''//a:x.txt'']"
proof -
  have diff: "source_digest crates_ref sample_tree ''//a:x.txt'' [] \<noteq> source_digest crates_ref sample_tree_edited ''//a:x.txt'' []"
    by (simp add: source_digest_def sample_content sha256_ref_def ref_checksum_def as_bytes_def)
  moreover have "''//a:x.txt'' \<in> set [''//a:x.txt'']"
  proof (rule changed_sources_complete [OF sample_classify(1) sample_tree_invs _ _ _ sample_canonical diff])
    show "diff_covers (ci_diff (sample_inputs [sample_edit ''a/x.txt''] sample_tree_edited)) sample_tree sample_tree_edited"
      by (simp add: sample_covers)
    show "bt_get (hashes (ci_base (sample_inputs [sample_edit ''a/x.txt''] sample_tree_edited))) ''//a:x.txt'' =
        Some (target_hash_of ''SourceFile'' (replicate 32 0, replicate 32 0))"
      by (simp add: sample_base_hashes) (simp add: sample_targets_def)
  qed (simp add: target_hash_of_def)
  ultimately show ?thesis by blast
qed

theorem derivation_keeps_unaffected_witness:
  "\<exists>d1 d2. derive crates_ref sample_base sample_tree = Inr d1 \<and>
     derive crates_ref sample_base (with_id sample_tree ''t2'') = Inr d2 \<and>
     bt_get (hashes d1) ''//a:bin'' = bt_get (hashes d2) ''//a:bin''"
proof -
  have derived: "\<exists>d. derive crates_ref sample_base t = Inr d" for t
    using evaluate_returns [OF sample_evaluable, of t] by (auto simp: derive_def sample_base_kinds)
  obtain d1 where d1: "derive crates_ref sample_base sample_tree = Inr d1" using derived by blast
  obtain d2 where d2: "derive crates_ref sample_base (with_id sample_tree ''t2'') = Inr d2" using derived by blast
  have "unaffected_source (sample_inputs [sample_edit ''a/run.sh''] sample_tree) [] s"
    if "reads_source (sample_env sample_tree) k s" for k s
    using that sample_canonical
    by (auto simp: reads_source_def sample_rules unaffected_source_def sample_base_kinds)
      (auto simp: sample_targets_def)
  then have "bt_get (hashes d1) ''//a:bin'' = bt_get (hashes d2) ''//a:bin''"
    using d1 d2 sample_evaluable
    by (intro derivation_keeps_unaffected [OF sample_classify(2), of sample_tree "with_id sample_tree ''t2''" sample_recipes crates_ref])
     (simp_all add: sample_base_kinds diff_covers_def with_id_def tree_get_def, simp add: sample_targets_def)
  with d1 d2 show ?thesis by blast
qed

subsection \<open>Rebuild patterns\<close>

text \<open>
  The meaning of a pattern: a star stands for a stretch without a slash, a double star for nothing,
  a stretch that ends in a slash, or everything that is left; a slash after the double star belongs to it.
\<close>

definition skip_slash :: "string \<Rightarrow> string" where
  "skip_slash ps = (case strip_prefix ''/'' ps of None \<Rightarrow> ps | Some r \<Rightarrow> r)"

inductive glob_sem :: "string \<Rightarrow> string \<Rightarrow> bool" where
  glob_end: "glob_sem [] []"
| glob_double: "u = [] \<or> last u = CHR ''/'' \<or> t = [] \<Longrightarrow> glob_sem (skip_slash ps) t \<Longrightarrow>
    glob_sem (CHR ''*'' # CHR ''*'' # ps) (u @ t)"
| glob_star: "CHR ''/'' \<notin> set u \<Longrightarrow> \<not> starts_with ''*'' ps \<Longrightarrow> glob_sem ps t \<Longrightarrow>
    glob_sem (CHR ''*'' # ps) (u @ t)"
| glob_any: "ch \<noteq> CHR ''/'' \<Longrightarrow> glob_sem ps t \<Longrightarrow> glob_sem (CHR ''?'' # ps) (ch # t)"
| glob_char: "p \<noteq> CHR ''*'' \<Longrightarrow> p \<noteq> CHR ''?'' \<Longrightarrow> glob_sem ps t \<Longrightarrow> glob_sem (p # ps) (p # t)"

inductive_cases glob_sem_NilE: "glob_sem [] s"
inductive_cases glob_sem_ConsE: "glob_sem (p # ps) s"

lemma set_takeWhile_upt: "set (takeWhile P [0..<n]) = {k. k < n \<and> (\<forall>j \<le> k. P j)}"
proof (induction n)
  case (Suc n)
  show ?case
  proof (cases "\<forall>k < n. P k")
    case True
    then have "takeWhile P [0..<n] = [0..<n]" by (simp add: takeWhile_eq_all_conv)
    with True show ?thesis by (auto simp: takeWhile_append less_Suc_eq le_less)
  next
    case False
    then obtain k where "k < n" "\<not> P k" by blast
    then have "takeWhile P ([0..<n] @ [n]) = takeWhile P [0..<n]"
      by (intro takeWhile_append1 [of k]) auto
    with Suc \<open>k < n\<close> \<open>\<not> P k\<close> show ?thesis by (auto simp: less_Suc_eq)
  qed
qed simp

lemma slash_free_skips:
  "k \<in> set (takeWhile (\<lambda>k. k = 0 \<or> s ! (k - 1) \<noteq> c) [0..<Suc (length s)]) \<longleftrightarrow>
     k \<le> length s \<and> c \<notin> set (take k s)"
proof -
  have "(\<forall>j \<le> k. j = 0 \<or> s ! (j - 1) \<noteq> c) \<longleftrightarrow> (\<forall>j < k. s ! j \<noteq> c)"
    by (metis Suc_le_eq diff_Suc_1 gr0_conv_Suc not_gr0)
  then show ?thesis
    by (auto simp: set_takeWhile_upt less_Suc_eq_le in_set_conv_nth simp del: upt_Suc)
qed

lemma boundary_skip:
  "k \<le> length s \<Longrightarrow> (k = 0 \<or> s ! (k - 1) = c \<or> k = length s) \<longleftrightarrow>
     (take k s = [] \<or> last (take k s) = c \<or> drop k s = [])"
proof -
  assume k: "k \<le> length s"
  have "s ! (k - 1) = last (take k s)" if "k \<noteq> 0"
  proof -
    have "take k s \<noteq> []" using k that by auto
    then show ?thesis using k that by (simp add: last_conv_nth)
  qed
  moreover have "k = length s \<longleftrightarrow> drop k s = []" using k by auto
  moreover have "take k s = [] \<longleftrightarrow> k = 0" using k by auto
  ultimately show ?thesis by metis
qed

lemma ex_split: "(\<exists>k \<le> length s. P (take k s) (drop k s)) \<longleftrightarrow> (\<exists>u t. s = u @ t \<and> P u t)"
  by (metis append_eq_conv_conj append_take_drop_id le_add1 length_append)

lemma glob_match_double:
  "glob_match (CHR ''*'' # CHR ''*'' # ps) s \<longleftrightarrow>
     (\<exists>u t. s = u @ t \<and> (u = [] \<or> last u = CHR ''/'' \<or> t = []) \<and> glob_match (skip_slash ps) t)"
proof -
  have "glob_match (CHR ''*'' # CHR ''*'' # ps) s \<longleftrightarrow>
      (\<exists>k \<le> length s. (k = 0 \<or> s ! (k - 1) = CHR ''/'' \<or> k = length s) \<and> glob_match (skip_slash ps) (drop k s))"
  proof -
    have strip: "strip_prefix ''*'' (CHR ''*'' # ps) = Some ps" by simp
    have "glob_match (CHR ''*'' # CHR ''*'' # ps) s \<longleftrightarrow>
      (\<exists>k \<in> set [0..<Suc (length s)]. (k = 0 \<or> s ! (k - 1) = CHR ''/'' \<or> k = length s) \<and>
         glob_match (skip_slash ps) (drop k s)) \<or> glob_match (skip_slash ps) s"
      by (subst glob_match.simps(2))
        (simp only: strip skip_slash_def list_ex_iff option.case if_True Let_def simp_thms)
    moreover have "k \<in> set [0..<Suc (length s)] \<longleftrightarrow> k \<le> length s" for k by auto
    ultimately show ?thesis by (metis drop0 le0)
  qed
  also have "\<dots> \<longleftrightarrow> (\<exists>k \<le> length s. (take k s = [] \<or> last (take k s) = CHR ''/'' \<or> drop k s = []) \<and>
      glob_match (skip_slash ps) (drop k s))"
    by (intro iff_exI conj_cong refl) (rule boundary_skip)
  also have "\<dots> \<longleftrightarrow> (\<exists>u t. s = u @ t \<and> (u = [] \<or> last u = CHR ''/'' \<or> t = []) \<and> glob_match (skip_slash ps) t)"
    by (rule ex_split [of s "\<lambda>u t. (u = [] \<or> last u = CHR ''/'' \<or> t = []) \<and> glob_match (skip_slash ps) t"])
  finally show ?thesis .
qed

lemma glob_match_star:
  assumes "\<not> starts_with ''*'' ps"
  shows "glob_match (CHR ''*'' # ps) s \<longleftrightarrow> (\<exists>u t. s = u @ t \<and> CHR ''/'' \<notin> set u \<and> glob_match ps t)"
proof -
  have strip: "strip_prefix ''*'' ps = None" using assms by (simp add: starts_with_def)
  have "glob_match (CHR ''*'' # ps) s \<longleftrightarrow>
      (\<exists>k \<le> length s. CHR ''/'' \<notin> set (take k s) \<and> glob_match ps (drop k s))"
    by (subst glob_match.simps(2))
      (simp only: strip list_ex_iff slash_free_skips Bex_def option.case if_True simp_thms, blast)
  also have "\<dots> \<longleftrightarrow> (\<exists>u t. s = u @ t \<and> CHR ''/'' \<notin> set u \<and> glob_match ps t)"
    by (rule ex_split [of s "\<lambda>u t. CHR ''/'' \<notin> set u \<and> glob_match ps t"])
  finally show ?thesis .
qed

lemma glob_match_char:
  "p \<noteq> CHR ''*'' \<Longrightarrow> glob_match (p # ps) s \<longleftrightarrow>
     (\<exists>ch t. s = ch # t \<and> (if p = CHR ''?'' then ch \<noteq> CHR ''/'' else ch = p) \<and> glob_match ps t)"
  by (subst glob_match.simps(2)) (auto split: list.splits)


text \<open>
  A double star reaches across path segments only from a segment boundary: \<open>src/**.proto\<close> does not match
  \<open>src/a.proto\<close>, let alone \<open>src/a/b.proto\<close>, although a single star does.
\<close>

theorem double_star_needs_boundary:
  "\<not> glob_matches ''src/**.proto'' ''src/a.proto'' \<and> \<not> glob_matches ''src/**.proto'' ''src/a/b.proto'' \<and>
   glob_matches ''src/*.proto'' ''src/a.proto'' \<and> glob_matches ''src/**/*.proto'' ''src/a/b.proto''"
  by (simp add: glob_matches_def glob_match.simps(2))

subsection \<open>Reading the diff\<close>

text \<open>A record as git prints it, with the two object ids the program does not keep.\<close>

definition raw_record :: "diff_entry \<times> string \<times> string \<Rightarrow> string" where
  "raw_record r =
     (case r of (e, o1, o2) \<Rightarrow>
        '':'' @ old_mode e @ '' '' @ new_mode e @ '' '' @ o1 @ '' '' @ o2 @ '' '' @ [status e] @ [NUL] @ path e @ [NUL])"

definition plain_field :: "string \<Rightarrow> bool" where
  "plain_field s \<longleftrightarrow> CHR '' '' \<notin> set s \<and> NUL \<notin> set s"

definition raw_ok :: "diff_entry \<times> string \<times> string \<Rightarrow> bool" where
  "raw_ok r =
     (case r of (e, o1, o2) \<Rightarrow>
        plain_field (old_mode e) \<and> plain_field (new_mode e) \<and> plain_field o1 \<and> plain_field o2 \<and>
        plain_field [status e] \<and> path e \<noteq> [] \<and> NUL \<notin> set (path e))"

definition raw_head :: "diff_entry \<times> string \<times> string \<Rightarrow> string" where
  "raw_head r =
     (case r of (e, o1, o2) \<Rightarrow>
        '':'' @ old_mode e @ '' '' @ new_mode e @ '' '' @ o1 @ '' '' @ o2 @ '' '' @ [status e])"

lemma raw_fields:
  "list_all raw_ok rs \<Longrightarrow>
   filter (\<lambda>field. field \<noteq> []) (split_on NUL (concat (map raw_record rs))) =
     concat (map (\<lambda>r. [raw_head r, path (fst r)]) rs)"
proof (induction rs)
  case (Cons r rs)
  have eq: "raw_record r = raw_head r @ NUL # path (fst r) @ [NUL]"
    by (simp add: raw_record_def raw_head_def split: prod.splits)
  have "NUL \<notin> set (raw_head r)" "raw_head r \<noteq> []" "NUL \<notin> set (path (fst r))" "path (fst r) \<noteq> []"
    using Cons.prems by (auto simp: raw_head_def raw_ok_def plain_field_def NUL_def split: prod.splits)
  with Cons show ?case by (simp add: eq)
qed simp

lemma diff_entries_raw:
  assumes "raw_ok r"
  shows "diff_entries (raw_head r # path (fst r) # rest) =
    (case diff_entries rest of Inl err \<Rightarrow> Inl err | Inr es \<Rightarrow> Inr (fst r # es))"
proof -
  obtain e o1 o2 where r: "r = (e, o1, o2)" by (cases r)
  have "split_on (CHR '' '') (old_mode e @ '' '' @ new_mode e @ '' '' @ o1 @ '' '' @ o2 @ '' '' @ [status e]) =
      [old_mode e, new_mode e, o1, o2, [status e]]"
    using assms by (auto simp: r raw_ok_def plain_field_def)
  then show ?thesis by (cases "diff_entries rest") (simp_all add: r raw_head_def Let_def)
qed

text \<open>
  Reading back what \<open>git diff --raw -z\<close> prints for a list of changes yields exactly that list, whatever the object
  ids, in the same order.
\<close>

theorem parse_diff_raw_roundtrip:
  assumes "list_all raw_ok rs"
  shows "parse_diff_raw (concat (map raw_record rs)) = Inr (map fst rs)"
proof -
  have "diff_entries (concat (map (\<lambda>r. [raw_head r, path (fst r)]) rs)) = Inr (map fst rs)"
    using assms by (induction rs) (simp_all add: diff_entries_raw del: diff_entries.simps(2))
  with assms show ?thesis by (simp add: parse_diff_raw_def raw_fields)
qed

theorem parse_diff_raw_roundtrip_witness:
  "parse_diff_raw (raw_record (sample_edit ''a b/x.txt'', ''1f'', ''2f'')) = Inr [sample_edit ''a b/x.txt'']"
  using parse_diff_raw_roundtrip [of "[(sample_edit ''a b/x.txt'', ''1f'', ''2f'')]"]
  by (simp add: raw_ok_def plain_field_def sample_edit_def NUL_def)

end
