(* ===== verification/Module_Edges.thy ===== *)
theory Module_Edges
  imports Hash_File
begin

section \<open>The module graph (bazel.rs)\<close>

text \<open>
  What \<^verbatim>\<open>src/bazel.rs\<close> reads from the JSON of \<^verbatim>\<open>bazel mod graph\<close>: the dependency edges between modules with
  their cycles broken, and the repositories of modules the root does not see. Text is parsed by
  \<^verbatim>\<open>serde_json\<close>, a parameter; a parsed object is an ordered map.
\<close>

type_synonym json_parser = "string \<Rightarrow> json option"

definition get_str :: "(string, json) btree \<Rightarrow> string \<Rightarrow> string option" where
  "get_str obj key = (case bt_get obj key of Some (JStr s) \<Rightarrow> Some s | _ \<Rightarrow> None)"

definition get_array :: "(string, json) btree \<Rightarrow> string \<Rightarrow> json list option" where
  "get_array obj key = (case bt_get obj key of Some (JArr xs) \<Rightarrow> Some xs | _ \<Rightarrow> None)"

text \<open>\<^verbatim>\<open>&json[start..]\<close>: the text from its first opening brace.\<close>

definition from_brace :: "string \<Rightarrow> string" where
  "from_brace text = dropWhile (\<lambda>ch. ch \<noteq> CHR 0x7B) text"

lemma size_get_array:
  assumes "get_array obj key = Some xs" "x \<in> set xs"
  shows "size x < size (JObj obj)"
proof -
  have "(key, JArr xs) \<in> set obj"
    using assms(1) by (auto simp: get_array_def map_of_SomeD split: option.splits json.splits)
  moreover have "size x < size (JArr xs)" using assms(2) by (induction xs) auto
  ultimately show ?thesis by (induction obj) fastforce+
qed

subsection \<open>Dependency edges\<close>

definition add_edge :: "string \<Rightarrow> string \<Rightarrow> (string, string list) btree \<Rightarrow> (string, string list) btree" where
  "add_edge name dep edges = bt_insert name (bs_of_list (dep # (case bt_get edges name of None \<Rightarrow> [] | Some ds \<Rightarrow> ds))) edges"

function walk_edges :: "json \<Rightarrow> (string, string list) btree \<Rightarrow> (string, string list) btree" where
  "walk_edges (JObj obj) edges =
     (case get_str obj ''name'' of
        None \<Rightarrow> edges
      | Some name \<Rightarrow>
          (case get_array obj ''dependencies'' of
             None \<Rightarrow> edges
           | Some dependencies \<Rightarrow>
               fold (\<lambda>dependency edges.
                 walk_edges dependency
                   (case (case dependency of JObj o' \<Rightarrow> get_str o' ''name'' | _ \<Rightarrow> None) of
                      None \<Rightarrow> edges
                    | Some dependency_name \<Rightarrow> add_edge name dependency_name edges))
                 dependencies edges))"
| "walk_edges JNull edges = edges"
| "walk_edges (JBool b) edges = edges"
| "walk_edges (JInt i) edges = edges"
| "walk_edges (JFloat f) edges = edges"
| "walk_edges (JStr s) edges = edges"
| "walk_edges (JArr xs) edges = edges"
  by pat_completeness auto
termination by (relation "measure (\<lambda>(j, edges). size j)") (auto dest: size_get_array)

subsection \<open>Breaking cycles\<close>

definition deps_in :: "(string, string list) btree \<Rightarrow> string \<Rightarrow> string list" where
  "deps_in edges node = (case bt_get edges node of None \<Rightarrow> [] | Some ds \<Rightarrow> ds)"

definition graph_nodes :: "(string, string list) btree \<Rightarrow> string set" where
  "graph_nodes edges = fst ` set edges \<union> (\<Union>(n, ds) \<in> set edges. set ds)"

lemma deps_in_nodes: "d \<in> set (deps_in edges n) \<Longrightarrow> d \<in> graph_nodes edges"
  unfolding deps_in_def graph_nodes_def by (cases "bt_get edges n") (fastforce dest: map_of_SomeD)+

lemma finite_graph_nodes [simp]: "finite (graph_nodes edges)"
  by (auto simp: graph_nodes_def)

text \<open>
  \<^verbatim>\<open>visit\<close> of \<^verbatim>\<open>break_module_cycles\<close>. The path grows on the way down and its last node is removed on the way
  up; a node is visited only while it is not on the path, so the caller's path is the one it had.
\<close>

function visit :: "(string, string list) btree \<Rightarrow> string set \<Rightarrow> string \<Rightarrow>
    string set \<times> (string, string list) btree \<Rightarrow> string set \<times> (string, string list) btree" where
  "visit edges path node st =
     (if node \<in> fst st then st
      else
        (let path' = insert node path;
             (kept, (visited, result)) =
               fold (\<lambda>dependency (kept, st').
                 if dependency \<in> path' then (kept, st')
                 else (bs_of_list (dependency # kept), visit edges path' dependency st'))
               (deps_in edges node) ([], st)
         in (insert node visited, bt_insert node kept result)))"
  by pat_completeness auto
termination
proof (relation "measure (\<lambda>(edges, path, node, st). card (graph_nodes edges - insert node path))", goal_cases)
  case (2 edges path node st path' dep)
  then have "dep \<in> graph_nodes edges - path'" by (auto dest: deps_in_nodes)
  then have "card (graph_nodes edges - path' - {dep}) < card (graph_nodes edges - path')"
    by (intro card_Diff1_less) simp_all
  moreover have "graph_nodes edges - insert dep path' = graph_nodes edges - path' - {dep}" by blast
  ultimately show ?case using 2(2) by simp
qed simp

declare visit.simps [simp del]

definition break_module_cycles :: "(string, string list) btree \<Rightarrow> (string, string list) btree" where
  "break_module_cycles edges = snd (fold (visit edges {}) (map fst edges) ({}, []))"

definition parse_module_dependency_edges :: "json_parser \<Rightarrow> string \<Rightarrow> (string, string list) btree" where
  "parse_module_dependency_edges from_str text =
     (case from_str (from_brace text) of
        None \<Rightarrow> []
      | Some j \<Rightarrow> break_module_cycles (walk_edges j []))"


subsection \<open>The broken graph has no cycle\<close>

definition dep_rel :: "(string, string list) btree \<Rightarrow> (string \<times> string) set" where
  "dep_rel edges = {(n, d). d \<in> set (deps_in edges n)}"

definition modules_of :: "(string, string list) btree \<Rightarrow> string set" where
  "modules_of edges = {n. bt_get edges n \<noteq> None}"

lemma modules_of_insert [simp]: "modules_of (bt_insert n ds edges) = insert n (modules_of edges)"
  by (auto simp: modules_of_def bt_get_insert)

lemma modules_of_keys: "modules_of edges = fst ` set edges"
  using map_of_eq_None_iff [of edges] by (auto simp: modules_of_def simp del: not_None_eq)

text \<open>
  What the finished nodes \<open>V\<close> and their kept edges satisfy: the edges stay among finished nodes and form
  no cycle, and an edge was dropped only if its end leads back to its start.
\<close>

definition finished :: "(string, string list) btree \<Rightarrow> string set \<Rightarrow> (string, string list) btree \<Rightarrow> bool" where
  "finished edges V res \<longleftrightarrow>
     bt_inv res \<and> modules_of res = V \<and> dep_rel res \<subseteq> V \<times> V \<and> acyclic (dep_rel res) \<and>
     dep_rel res \<subseteq> dep_rel edges \<and>
     (\<forall>n d. (n, d) \<in> dep_rel edges \<longrightarrow> (n, d) \<notin> dep_rel res \<longrightarrow> n \<in> V \<longrightarrow> (d, n) \<in> (dep_rel edges)\<^sup>*)"

lemma acyclic_add_top:
  assumes "acyclic R" "R \<subseteq> V \<times> V" "n \<notin> V" "K \<subseteq> V"
  shows "acyclic (R \<union> {n} \<times> K)"
proof -
  have no_in: "(x, n) \<notin> R \<union> {n} \<times> K" for x using assms by auto
  have step: "(x, y) \<in> R\<^sup>+" if "(x, y) \<in> (R \<union> {n} \<times> K)\<^sup>+" "x \<noteq> n" for x y
    using that
  proof (induction rule: trancl_induct)
    case (step y z)
    then have "y \<noteq> n" using no_in by (metis tranclD2)
    with step show ?case by (auto intro: trancl.trancl_into_trancl)
  qed auto
  show ?thesis
  proof (rule acyclicI, rule allI, rule notI)
    fix x assume x: "(x, x) \<in> (R \<union> {n} \<times> K)\<^sup>+"
    then have "x \<noteq> n" using no_in by (metis tranclD2)
    with step x assms(1) show False by (auto simp: acyclic_def)
  qed
qed

lemma dep_rel_insert:
  assumes "node \<notin> modules_of res"
  shows "dep_rel (bt_insert node kept res) = dep_rel res \<union> {node} \<times> set kept"
proof -
  have "bt_get res node = None" using assms by (simp add: modules_of_def)
  then show ?thesis by (auto simp: dep_rel_def deps_in_def bt_get_insert split: if_splits option.splits)
qed

lemma finished_insert:
  assumes "finished edges V res" "node \<notin> V" "set kept \<subseteq> V" "set kept \<subseteq> set (deps_in edges node)"
    and "\<And>d. d \<in> set (deps_in edges node) \<Longrightarrow> d \<notin> set kept \<Longrightarrow> (d, node) \<in> (dep_rel edges)\<^sup>*"
  shows "finished edges (insert node V) (bt_insert node kept res)"
proof -
  have V: "modules_of res = V" using assms(1) by (simp add: finished_def)
  have rel: "dep_rel (bt_insert node kept res) = dep_rel res \<union> {node} \<times> set kept"
    using assms(2) V by (intro dep_rel_insert) simp
  have "acyclic (dep_rel res \<union> {node} \<times> set kept)"
    using assms by (intro acyclic_add_top [of _ V]) (auto simp: finished_def)
  moreover have "(d, n) \<in> (dep_rel edges)\<^sup>*"
    if "(n, d) \<in> dep_rel edges" "(n, d) \<notin> dep_rel res \<union> {node} \<times> set kept" "n \<in> insert node V" for n d
  proof (cases "n = node")
    case True
    with that assms(5) show ?thesis by (auto simp: dep_rel_def)
  next
    case False
    with that assms(1) show ?thesis unfolding finished_def by blast
  qed
  moreover have "{node} \<times> set kept \<subseteq> dep_rel edges" using assms(4) by (auto simp: dep_rel_def)
  ultimately show ?thesis
    using assms(1,3) unfolding finished_def rel by (auto simp: bt_inv_insert)
qed

text \<open>Every node on the path leads to the node being visited.\<close>

definition leads :: "(string, string list) btree \<Rightarrow> string set \<Rightarrow> string \<Rightarrow> bool" where
  "leads edges path node \<longleftrightarrow> (\<forall>p \<in> path. (p, node) \<in> (dep_rel edges)\<^sup>*)"

lemma visit_finished:
  "finished edges (fst st) (snd st) \<Longrightarrow> leads edges path node \<Longrightarrow> node \<notin> path \<Longrightarrow> path \<inter> fst st = {} \<Longrightarrow>
   finished edges (fst (visit edges path node st)) (snd (visit edges path node st)) \<and>
   insert node (fst st) \<subseteq> fst (visit edges path node st) \<and> path \<inter> fst (visit edges path node st) = {}"
proof (induction edges path node st rule: visit.induct)
  case (1 edges path node st)
  show ?case
  proof (cases "node \<in> fst st")
    case True
    then have "visit edges path node st = st" by (simp add: visit.simps [of edges path node])
    with 1(2,5) True show ?thesis by auto
  next
    case False
    define path' where "path' = insert node path"
    define loop where "loop = (\<lambda>ds acc. fold (\<lambda>dependency (kept, st').
        if dependency \<in> path' then (kept, st')
        else (bs_of_list (dependency # kept), visit edges path' dependency st')) ds acc)"
    have inner: "finished edges (fst st') (snd st') \<Longrightarrow> path' \<inter> fst st' = {} \<Longrightarrow>
        finished edges (fst (visit edges path' d st')) (snd (visit edges path' d st')) \<and>
        insert d (fst st') \<subseteq> fst (visit edges path' d st') \<and> path' \<inter> fst (visit edges path' d st') = {}"
      if d: "d \<in> set (deps_in edges node)" "d \<notin> path'" for d st'
    proof -
      assume st': "finished edges (fst st') (snd st')" "path' \<inter> fst st' = {}"
      have "(node, d) \<in> dep_rel edges" using d(1) by (simp add: dep_rel_def)
      then have "leads edges path' d" using 1(3) by (auto simp: leads_def path'_def intro: rtrancl_into_rtrancl)
      with 1(1) [OF False path'_def d] st' d(2) show ?thesis by auto
    qed
    have loop: "finished edges (fst (snd (loop ds (kept, st')))) (snd (snd (loop ds (kept, st')))) \<and>
        fst st' \<subseteq> fst (snd (loop ds (kept, st'))) \<and> path' \<inter> fst (snd (loop ds (kept, st'))) = {} \<and>
        set (fst (loop ds (kept, st'))) = set kept \<union> (set ds - path') \<and>
        set (fst (loop ds (kept, st'))) \<subseteq> fst (snd (loop ds (kept, st')))"
      if "set ds \<subseteq> set (deps_in edges node)" "finished edges (fst st') (snd st')" "path' \<inter> fst st' = {}"
        "set kept \<subseteq> fst st'" for ds kept st'
      using that
    proof (induction ds arbitrary: kept st')
      case (Cons d ds)
      show ?case
      proof (cases "d \<in> path'")
        case True
        then have same: "loop (d # ds) (kept, st') = loop ds (kept, st')" "set (d # ds) - path' = set ds - path'"
          by (auto simp: loop_def)
        have "set ds \<subseteq> set (deps_in edges node)" using Cons.prems(1) by simp
        from Cons.IH [OF this Cons.prems(2-4)] show ?thesis unfolding same .
      next
        case dnew: False
        let ?st = "visit edges path' d st'"
        have "loop (d # ds) (kept, st') = loop ds (bs_of_list (d # kept), ?st)" using dnew by (simp add: loop_def)
        moreover have v: "finished edges (fst ?st) (snd ?st)" "insert d (fst st') \<subseteq> fst ?st" "path' \<inter> fst ?st = {}"
          using inner [OF _ dnew Cons.prems(2,3)] Cons.prems(1) by auto
        moreover have "set (bs_of_list (d # kept)) \<subseteq> fst ?st" using v(2) Cons.prems(4) by auto
        ultimately show ?thesis
          using Cons.IH [of ?st "bs_of_list (d # kept)"] Cons.prems(1) dnew by auto
      qed
    qed (simp add: loop_def)
    obtain kept visited res where l: "loop (deps_in edges node) ([], st) = (kept, (visited, res))"
      by (metis surj_pair)
    have "path' \<inter> fst st = {}" using 1(5) False by (auto simp: path'_def)
    from loop [OF _ 1(2) this, of "deps_in edges node" "[]"] l
    have r: "finished edges visited res" "fst st \<subseteq> visited" "path' \<inter> visited = {}"
      "set kept = set (deps_in edges node) - path'" "set kept \<subseteq> visited" by auto
    have "visit edges path node st = (case loop (deps_in edges node) ([], st) of (kept, visited, result) \<Rightarrow>
        (insert node visited, bt_insert node kept result))"
      using False unfolding loop_def path'_def by (simp add: visit.simps [of edges path node] Let_def)
    then have v: "visit edges path node st = (insert node visited, bt_insert node kept res)" using l by simp
    have "(d, node) \<in> (dep_rel edges)\<^sup>*" if "d \<in> set (deps_in edges node)" "d \<notin> set kept" for d
      using that r(4) 1(3) by (auto simp: path'_def leads_def)
    then have "finished edges (insert node visited) (bt_insert node kept res)"
      using r by (intro finished_insert) (auto simp: path'_def)
    with v r 1(4) show ?thesis by (auto simp: path'_def)
  qed
qed

lemma visit_all_finished:
  "finished edges (fst st) (snd st) \<Longrightarrow>
   finished edges (fst (fold (visit edges {}) ns st)) (snd (fold (visit edges {}) ns st)) \<and>
   set ns \<union> fst st \<subseteq> fst (fold (visit edges {}) ns st)"
proof (induction ns arbitrary: st)
  case (Cons n ns)
  have "finished edges (fst (visit edges {} n st)) (snd (visit edges {} n st)) \<and>
      insert n (fst st) \<subseteq> fst (visit edges {} n st)"
    using visit_finished [OF Cons.prems, of "{}" n] by (simp add: leads_def)
  with Cons.IH [of "visit edges {} n st"] show ?case by auto
qed simp

text \<open>
  Breaking the cycles of the module graph yields a graph without cycles that keeps every module and every
  dependency that is not on a cycle; a graph without cycles keeps all its dependencies.
\<close>

theorem break_module_cycles_acyclic:
  "acyclic (dep_rel (break_module_cycles edges)) \<and>
   dep_rel (break_module_cycles edges) \<subseteq> dep_rel edges \<and>
   modules_of edges \<subseteq> modules_of (break_module_cycles edges) \<and>
   dep_rel edges - dep_rel (break_module_cycles edges) \<subseteq> {(n, d). (d, n) \<in> (dep_rel edges)\<^sup>*}"
proof -
  have "finished edges (fst ({}, [])) (snd ({}, []))"
    by (auto simp: finished_def dep_rel_def deps_in_def acyclic_def modules_of_def)
  from visit_all_finished [OF this, of "map fst edges"]
  have fin: "finished edges (fst (fold (visit edges {}) (map fst edges) ({}, []))) (break_module_cycles edges)"
    "modules_of edges \<subseteq> fst (fold (visit edges {}) (map fst edges) ({}, []))"
    by (simp_all add: break_module_cycles_def modules_of_keys)
  have "n \<in> modules_of edges" if "(n, d) \<in> dep_rel edges" for n d
    using that by (cases "bt_get edges n") (auto simp: dep_rel_def deps_in_def modules_of_def)
  with fin(2) have "n \<in> fst (fold (visit edges {}) (map fst edges) ({}, []))" if "(n, d) \<in> dep_rel edges" for n d
    using that by blast
  moreover have "\<And>n d. (n, d) \<in> dep_rel edges \<Longrightarrow> (n, d) \<notin> dep_rel (break_module_cycles edges) \<Longrightarrow>
      n \<in> fst (fold (visit edges {}) (map fst edges) ({}, [])) \<Longrightarrow> (d, n) \<in> (dep_rel edges)\<^sup>*"
    using fin(1) unfolding finished_def by blast
  ultimately have "dep_rel edges - dep_rel (break_module_cycles edges) \<subseteq> {(n, d). (d, n) \<in> (dep_rel edges)\<^sup>*}"
    by blast
  then show ?thesis using fin unfolding finished_def by simp
qed

subsection \<open>Modules the root does not see\<close>

definition WELL_KNOWN_MODULES :: "string list" where
  "WELL_KNOWN_MODULES = [''bazel_tools'', ''local_config_platform'', ''platforms'']"

definition count_char :: "char \<Rightarrow> string \<Rightarrow> nat" where
  "count_char ch s = length (filter (\<lambda>c. c = ch) s)"

function walk_keys :: "json \<Rightarrow> (string, string) btree \<Rightarrow> (string, string) btree" where
  "walk_keys (JObj obj) keys =
     (let keys1 =
        (case (get_str obj ''key'', get_str obj ''name'') of
           (Some key, Some name) \<Rightarrow> if key \<noteq> ''<root>'' then bt_insert key name keys else keys
         | _ \<Rightarrow> keys)
      in fold walk_keys (case get_array obj ''dependencies'' of None \<Rightarrow> [] | Some ds \<Rightarrow> ds) keys1)"
| "walk_keys JNull keys = keys"
| "walk_keys (JBool b) keys = keys"
| "walk_keys (JInt i) keys = keys"
| "walk_keys (JFloat f) keys = keys"
| "walk_keys (JStr s) keys = keys"
| "walk_keys (JArr xs) keys = keys"
  by pat_completeness auto
termination
proof (relation "measure (\<lambda>(j, keys). size j)", goal_cases)
  case (2 obj keys x d)
  then show ?case by (cases "get_array obj ''dependencies''") (auto dest: size_get_array)
qed simp

definition versions_by_name :: "(string, string) btree \<Rightarrow> string \<Rightarrow> nat" where
  "versions_by_name keys name = length (filter (\<lambda>n. n = name) (map snd keys))"

definition visible_modules :: "(string, string list) btree \<Rightarrow> string list" where
  "visible_modules canonical_to_apparent =
     map (\<lambda>canonical. hd (split_on CHR ''+'' canonical))
       (filter (\<lambda>canonical. count_char CHR ''+'' canonical \<le> 1) (map fst canonical_to_apparent))"

definition module_repo_name :: "(string, string) btree \<Rightarrow> string \<Rightarrow> string \<Rightarrow> string" where
  "module_repo_name keys key name =
     (let version = (case rsplit_once CHR ''@'' key of None \<Rightarrow> '''' | Some (_, v) \<Rightarrow> v)
      in if name \<in> set WELL_KNOWN_MODULES then name
         else if versions_by_name keys name > 1 then name @ ''+'' @ version
         else name @ ''+'')"

definition module_repo_names ::
  "(string, string) btree \<Rightarrow> (string, string list) btree \<Rightarrow> bool \<Rightarrow> (string, string) btree" where
  "module_repo_names keys canonical_to_apparent exact_visibility =
     bt_of_list (List.map_filter (\<lambda>(key, name).
       if \<not> exact_visibility \<and> name \<in> set (visible_modules canonical_to_apparent) then None
       else
         (let canonical = module_repo_name keys key name
          in if \<not> exact_visibility \<or> bt_get canonical_to_apparent canonical = None then Some (key, canonical) else None))
       keys)"

definition hidden_module_repo_names ::
  "json_parser \<Rightarrow> string \<Rightarrow> (string, string list) btree \<Rightarrow> (string, string) btree" where
  "hidden_module_repo_names from_str text canonical_to_apparent =
     (case from_str (from_brace text) of
        None \<Rightarrow> []
      | Some j \<Rightarrow> module_repo_names (walk_keys j []) canonical_to_apparent False)"

end
