(* ===== verification/Impact.thy ===== *)
theory Impact
  imports Target_Hash Labels Memo_Walk "HOL-Library.Product_Lexorder"
    "HOL-Library.Multiset"
begin

section \<open>Impacted targets and their distances (model.rs)\<close>

text \<open>
  The comparison of two hash files: \<^verbatim>\<open>impacted_targets\<close>, \<^verbatim>\<open>filter_and_sort_labels\<close>, \<^verbatim>\<open>impacted_types\<close>,
  \<^verbatim>\<open>calculate_distance\<close> and \<^verbatim>\<open>impacted_targets_with_distances\<close> of \<^verbatim>\<open>src/model.rs\<close>. A hash set is a list
  whose order nothing depends on. The order in which a \<^verbatim>\<open>HashMap\<close> is iterated is unspecified; it is an argument.
\<close>

datatype impact_type = Direct | Indirect

record impacted_target_with_distance =
  target :: label
  target_distance :: nat
  package_distance :: nat

definition kind_rank :: "target_hash option \<Rightarrow> nat" where
  "kind_rank h =
     (case h of
        None \<Rightarrow> 4
      | Some th \<Rightarrow>
          if kind th = '''' then 4
          else if kind th = ''SourceFile'' then 0
          else if kind th = ''GeneratedFile'' then 1
          else if kind th = ''Rule'' then 2
          else 3)"

definition accepts ::
  "label \<Rightarrow> (label, target_hash) btree \<Rightarrow> string list option \<Rightarrow> model_error + bool" where
  "accepts lbl to target_types =
     (case target_types of
        None \<Rightarrow> Inr True
      | Some types \<Rightarrow>
          (case bt_get to lbl of
             None \<Rightarrow> Inl (MissingFinalHash lbl)
           | Some h \<Rightarrow> if kind h = '''' then Inl NoTargetTypeInfo else Inr (kind h \<in> set types)))"

text \<open>The closure given to \<^verbatim>\<open>filter_map\<close>: keep, drop, or fail.\<close>

definition accept_label ::
  "(label, target_hash) btree \<Rightarrow> string list option \<Rightarrow> (label \<Rightarrow> 'a) \<Rightarrow> label \<Rightarrow> (model_error + 'a) option" where
  "accept_label to target_types f lbl =
     (case accepts lbl to target_types of
        Inr True \<Rightarrow> Some (Inr (f lbl))
      | Inr False \<Rightarrow> None
      | Inl err \<Rightarrow> Some (Inl err))"

definition kept_label :: "bool \<Rightarrow> label \<Rightarrow> bool" where
  "kept_label exclude_external lbl \<longleftrightarrow> \<not> exclude_external \<or> \<not> starts_with ''//external:'' lbl"

definition rank_of :: "(label, target_hash) btree \<Rightarrow> (label, target_hash) btree \<Rightarrow> label \<Rightarrow> nat" where
  "rank_of from to lbl =
     kind_rank (case bt_get to lbl of Some h \<Rightarrow> Some h | None \<Rightarrow> bt_get from lbl)"

definition filter_and_sort_labels ::
  "label list \<Rightarrow> (label, target_hash) btree \<Rightarrow> (label, target_hash) btree \<Rightarrow> string list option \<Rightarrow> bool \<Rightarrow>
   model_error + label list" where
  "filter_and_sort_labels labels from to target_types exclude_external =
     (case collect_results (List.map_filter (accept_label to target_types (\<lambda>lbl. lbl))
             (filter (kept_label exclude_external) labels)) of
        Inl err \<Rightarrow> Inl err
      | Inr impacted \<Rightarrow>
          Inr (map snd (remdups_adj (sort (map (\<lambda>lbl. (rank_of from to lbl, lbl)) impacted)))))"

definition hash_moved :: "(label, target_hash) btree \<Rightarrow> label \<Rightarrow> target_hash \<Rightarrow> bool" where
  "hash_moved from lbl h \<longleftrightarrow>
     \<not> (case bt_get from lbl of None \<Rightarrow> False | Some previous \<Rightarrow> same_as previous h)"

definition impacted_targets ::
  "(label, target_hash) btree \<Rightarrow> (label, target_hash) btree \<Rightarrow> string list option \<Rightarrow> bool \<Rightarrow>
   model_error + label list" where
  "impacted_targets from to target_types exclude_external =
     (case collect_results (List.map_filter (accept_label to target_types (\<lambda>lbl. lbl))
             (filter (kept_label exclude_external) (map fst (filter (\<lambda>(lbl, h). hash_moved from lbl h) to)))) of
        Inl err \<Rightarrow> Inl err
      | Inr impacted \<Rightarrow> filter_and_sort_labels impacted from to target_types exclude_external)"

definition impact_of :: "(label, target_hash) btree \<Rightarrow> label \<Rightarrow> target_hash \<Rightarrow> impact_type option" where
  "impact_of from lbl final_hash =
     (case bt_get from lbl of
        None \<Rightarrow> Some Direct
      | Some starting_hash \<Rightarrow>
          if \<not> same_as starting_hash final_hash then
            Some (if direct_hash starting_hash \<noteq> direct_hash final_hash then Direct else Indirect)
          else None)"

definition impacted_types ::
  "(label, target_hash) btree \<Rightarrow> (label, target_hash) btree \<Rightarrow> (label, impact_type) btree" where
  "impacted_types from to =
     List.map_filter (\<lambda>(lbl, h). map_option (Pair lbl) (impact_of from lbl h)) to"

subsection \<open>Distances\<close>

type_synonym distance_memo = "(label, nat \<times> nat) btree"

definition impacted_deps ::
  "(string, string list) btree \<Rightarrow> (label, impact_type) btree \<Rightarrow> label \<Rightarrow> label list" where
  "impacted_deps edges types lbl =
     filter (\<lambda>dep. bt_get types dep \<noteq> None) (case bt_get edges lbl of None \<Rightarrow> [] | Some ds \<Rightarrow> ds)"

text \<open>\<^verbatim>\<open>calculate_distance\<close> and its loop; the set of labels being visited grows on the way down and is
  restored on the way up. The package of a label is what precedes its first colon.\<close>

function calculate_distance ::
    "(string, string list) btree \<Rightarrow> (label, impact_type) btree \<Rightarrow> label \<Rightarrow> label list \<Rightarrow> distance_memo \<Rightarrow>
     (nat \<times> nat) \<times> distance_memo"
  and distance_loop ::
    "(string, string list) btree \<Rightarrow> (label, impact_type) btree \<Rightarrow> label \<Rightarrow> label list \<Rightarrow> label list \<Rightarrow>
     nat \<times> nat \<Rightarrow> distance_memo \<Rightarrow> (nat \<times> nat) \<times> distance_memo" where
  "calculate_distance edges types lbl visiting memo =
     (case bt_get memo lbl of
        Some distance \<Rightarrow> (distance, memo)
      | None \<Rightarrow>
          if bt_get types lbl = Some Direct then ((0, 0), bt_insert lbl (0, 0) memo)
          else if lbl \<in> set visiting then ((0, 0), memo)
          else if impacted_deps edges types lbl = [] then ((0, 0), bt_insert lbl (0, 0) memo)
          else
            (case distance_loop edges types lbl (impacted_deps edges types lbl) (visiting @ [lbl])
                    (usize_max, usize_max) memo of
               (result, memo') \<Rightarrow> (result, bt_insert lbl result memo')))"
| "distance_loop edges types lbl [] visiting acc memo = (acc, memo)"
| "distance_loop edges types lbl (dep # deps) visiting acc memo =
     (case calculate_distance edges types dep visiting memo of
        ((dep_target, dep_package), memo') \<Rightarrow>
          distance_loop edges types lbl deps visiting
            (min (fst acc) (saturating_add dep_target 1),
             min (snd acc) (dep_package + (if package_of dep \<noteq> package_of lbl then 1 else 0))) memo')"
  by pat_completeness auto
termination
proof (relation "measures
    [case_sum (\<lambda>(edges, types, lbl, visiting, memo). card (fst ` set edges - set visiting))
       (\<lambda>(edges, types, lbl, deps, visiting, acc, memo). card (fst ` set edges - set visiting)),
     case_sum (\<lambda>_. 0) (\<lambda>(edges, types, lbl, deps, visiting, acc, memo). Suc (length deps))]"; clarsimp?)
  fix edges :: "(string, string list) btree" and types and lbl :: label and visiting :: "label list"
  assume "lbl \<notin> set visiting" "impacted_deps edges types lbl \<noteq> []"
  then have "lbl \<in> fst ` set edges - set visiting"
    by (force simp: impacted_deps_def dest: map_of_SomeD split: option.splits)
  then show "card (fst ` set edges - insert lbl (set visiting)) < card (fst ` set edges - set visiting)"
    by (metis Diff_insert card_Diff1_less finite_Diff finite_imageI finite_set)
qed

declare calculate_distance.simps [simp del] distance_loop.simps(2) [simp del]

definition all_distances ::
  "(string, string list) btree \<Rightarrow> (label, impact_type) btree \<Rightarrow> label list \<Rightarrow> distance_memo" where
  "all_distances edges types keys =
     fold (\<lambda>lbl memo. snd (calculate_distance edges types lbl [] memo)) keys []"

definition with_distance :: "distance_memo \<Rightarrow> label \<Rightarrow> impacted_target_with_distance" where
  "with_distance memo lbl =
     (case bt_get memo lbl of
        None \<Rightarrow> \<lparr>target = lbl, target_distance = 0, package_distance = 0\<rparr>
      | Some (t, p) \<Rightarrow> \<lparr>target = lbl, target_distance = t, package_distance = p\<rparr>)"

text \<open>\<open>key_order\<close> and \<open>memo_order\<close> list the keys of a hash map in the order of its iteration.\<close>

definition impacted_targets_with_distances ::
  "(label list \<Rightarrow> label list) \<Rightarrow> (label list \<Rightarrow> label list) \<Rightarrow>
   (label, target_hash) btree \<Rightarrow> (label, target_hash) btree \<Rightarrow> (string, string list) btree \<Rightarrow>
   string list option \<Rightarrow> bool \<Rightarrow> model_error + impacted_target_with_distance list" where
  "impacted_targets_with_distances key_order memo_order from to edges target_types exclude_external =
     (let types = impacted_types from to;
          memo = all_distances edges types (key_order (bt_keys types))
      in case collect_results (List.map_filter (accept_label to target_types (with_distance memo))
                (filter (kept_label exclude_external) (memo_order (bt_keys memo)))) of
           Inl err \<Rightarrow> Inl err
         | Inr impacted \<Rightarrow>
             Inr (sort_key (\<lambda>t. (rank_of from to (target t), target t)) impacted))"

subsection \<open>Which labels are impacted\<close>

definition accepted_label :: "(label, target_hash) btree \<Rightarrow> string list option \<Rightarrow> label \<Rightarrow> bool" where
  "accepted_label to target_types lbl \<longleftrightarrow>
     (case target_types of
        None \<Rightarrow> True
      | Some types \<Rightarrow> (case bt_get to lbl of None \<Rightarrow> False | Some h \<Rightarrow> kind h \<in> set types))"

definition untyped_label :: "(label, target_hash) btree \<Rightarrow> string list option \<Rightarrow> label \<Rightarrow> bool" where
  "untyped_label to target_types lbl \<longleftrightarrow>
     target_types \<noteq> None \<and> (case bt_get to lbl of None \<Rightarrow> False | Some h \<Rightarrow> kind h = '''')"

lemma accept_label_value:
  "bt_get to lbl = Some h \<Longrightarrow> accept_label to target_types f lbl =
     (if untyped_label to target_types lbl then Some (Inl NoTargetTypeInfo)
      else if accepted_label to target_types lbl then Some (Inr (f lbl)) else None)"
  by (cases target_types)
    (simp_all add: accept_label_def accepts_def accepted_label_def untyped_label_def)

lemma collect_accepted:
  assumes "\<forall>l \<in> set ls. bt_get to l \<noteq> None"
  shows "collect_results (List.map_filter (accept_label to target_types f) ls) =
    (if list_ex (untyped_label to target_types) ls then Inl NoTargetTypeInfo
     else Inr (map f (filter (accepted_label to target_types) ls)))"
  using assms
proof (induction ls)
  case (Cons l ls)
  then obtain h where "bt_get to l = Some h" by auto
  with Cons show ?case by (simp add: map_filter_simps accept_label_value)
qed (simp add: map_filter_simps)

lemma distinct_remdups_adj: "sorted xs \<Longrightarrow> distinct (remdups_adj xs)"
  for xs :: "'a :: linorder list"
  by (induction xs rule: remdups_adj.induct) (auto simp: less_le_not_le)

lemma remdups_sort_eq: "remdups_adj (sort xs) = sorted_list_of_set (set xs)"
  for xs :: "'a :: linorder list"
  by (rule sorted_distinct_set_unique) (simp_all add: distinct_remdups_adj)

text \<open>The labels that moved and are not excluded.\<close>

definition moved_labels ::
  "(label, target_hash) btree \<Rightarrow> (label, target_hash) btree \<Rightarrow> bool \<Rightarrow> label set" where
  "moved_labels from to exclude_external =
     {lbl. \<exists>h. bt_get to lbl = Some h \<and> bt_get from lbl \<noteq> Some h \<and> kept_label exclude_external lbl}"

lemma set_moved:
  assumes "bt_inv to"
  shows "set (filter (kept_label x) (map fst (filter (\<lambda>(lbl, h). hash_moved from lbl h) to))) =
    moved_labels from to x"
  using assms
  by (force simp: moved_labels_def bt_get_eq_Some hash_moved_def split: option.splits)

lemma impacted_targets_closed:
  assumes "bt_inv to"
  shows "impacted_targets from to target_types exclude_external =
    (if \<exists>lbl \<in> moved_labels from to exclude_external. untyped_label to target_types lbl
     then Inl NoTargetTypeInfo
     else Inr (map snd (sorted_list_of_set
       ((\<lambda>lbl. (rank_of from to lbl, lbl)) `
          {lbl \<in> moved_labels from to exclude_external. accepted_label to target_types lbl}))))"
proof -
  let ?ls = "filter (kept_label exclude_external) (map fst (filter (\<lambda>(lbl, h). hash_moved from lbl h) to))"
  let ?acc = "filter (accepted_label to target_types) ?ls"
  have set_ls: "set ?ls = moved_labels from to exclude_external"
    using assms by (rule set_moved)
  have dom: "\<forall>l \<in> set ?ls. bt_get to l \<noteq> None"
    unfolding set_ls by (auto simp: moved_labels_def)
  have ex: "list_ex (untyped_label to target_types) ?ls \<longleftrightarrow>
      (\<exists>lbl \<in> moved_labels from to exclude_external. untyped_label to target_types lbl)"
    unfolding list_ex_iff set_ls ..
  show ?thesis
  proof (cases "list_ex (untyped_label to target_types) ?ls")
    case True
    then show ?thesis
      unfolding impacted_targets_def collect_accepted [OF dom] ex [symmetric] by simp
  next
    case False
    have kept: "filter (kept_label exclude_external) ?acc = ?acc" by (rule filter_True) auto
    have "\<forall>l \<in> set ?acc. bt_get to l \<noteq> None" using dom by auto
    note second = collect_accepted [OF this, of target_types "\<lambda>l. l"]
    have "\<not> list_ex (untyped_label to target_types) ?acc" using False by (auto simp: list_ex_iff)
    then have "filter_and_sort_labels ?acc from to target_types exclude_external =
        Inr (map snd (sorted_list_of_set (set (map (\<lambda>lbl. (rank_of from to lbl, lbl)) ?acc))))"
      unfolding filter_and_sort_labels_def kept second remdups_sort_eq by simp
    moreover have "set ?acc = {lbl \<in> moved_labels from to exclude_external. accepted_label to target_types lbl}"
      using set_ls by auto
    ultimately show ?thesis
      unfolding impacted_targets_def collect_accepted [OF dom] ex [symmetric]
      using False by (simp del: filter_filter set_filter)
  qed
qed

text \<open>
  C12: the impacted targets, in closed form: the labels of the final revision that are new or whose kind or
  hashes differ, minus excluded external targets and unwanted kinds; each once, ordered by kind and
  then by label. A deleted target is never impacted. The only failure is a kind filter on a file
  without kinds.
\<close>

theorem impacted_targets_spec:
  assumes "bt_inv to"
  shows "impacted_targets from to target_types exclude_external =
    (if \<exists>lbl \<in> moved_labels from to exclude_external. untyped_label to target_types lbl
     then Inl NoTargetTypeInfo
     else Inr (map snd (sorted_list_of_set
       ((\<lambda>lbl. (rank_of from to lbl, lbl)) `
          {lbl \<in> moved_labels from to exclude_external. accepted_label to target_types lbl}))))"
  using assms by (rule impacted_targets_closed)

lemma bt_inv_map_filter:
  assumes "bt_inv to"
  shows "bt_inv (List.map_filter (\<lambda>(lbl, h). map_option (Pair lbl) (f lbl h)) to)"
  using assms
  by (induction to) (auto simp: bt_inv_def map_filter_simps map_filter_def split: option.splits)

lemma bt_get_impacted_types:
  assumes "bt_inv to"
  shows "bt_get (impacted_types from to) lbl = Option.bind (bt_get to lbl) (impact_of from lbl)"
  using assms
proof -
  have "map_of (List.map_filter (\<lambda>(lbl, h). map_option (Pair lbl) (f lbl h)) to) lbl =
      Option.bind (map_of to lbl) (f lbl)" if "distinct (map fst to)" for f :: "label \<Rightarrow> target_hash \<Rightarrow> impact_type option"
    using that
  proof (induction to)
    case (Cons x to)
    have "lbl \<notin> fst ` set to \<Longrightarrow> map_of (List.map_filter (\<lambda>(lbl, h). map_option (Pair lbl) (f lbl h)) to) lbl = None"
      by (force simp: map_of_eq_None_iff map_filter_def)
    with Cons show ?case
      by (auto simp: map_filter_simps split: prod.splits option.splits)
  qed (simp add: map_filter_simps)
  then show ?thesis using assms by (simp add: impacted_types_def bt_distinct)
qed

text \<open>
  The two views of a comparison agree. A label has an impact type exactly when it is an impacted target, and
  the impact is direct exactly when the label is new or its own direct hash changed.
\<close>

theorem impacted_types_spec:
  assumes "bt_inv to"
  shows "fst ` set (impacted_types from to) = moved_labels from to False \<and>
    (bt_get (impacted_types from to) lbl = Some Direct \<longleftrightarrow>
       (\<exists>h. bt_get to lbl = Some h \<and>
          (\<forall>h0. bt_get from lbl = Some h0 \<longrightarrow> direct_hash h0 \<noteq> direct_hash h)))"
proof
  have "lbl \<in> fst ` set (impacted_types from to) \<longleftrightarrow> lbl \<in> moved_labels from to False" for lbl
  proof -
    have "lbl \<in> fst ` set (impacted_types from to) \<longleftrightarrow> bt_get (impacted_types from to) lbl \<noteq> None"
      by (simp add: map_of_eq_None_iff)
    also have "\<dots> \<longleftrightarrow> lbl \<in> moved_labels from to False"
      by (auto simp: bt_get_impacted_types assms impact_of_def moved_labels_def kept_label_def
          split: option.splits if_splits Option.bind_splits)
    finally show ?thesis .
  qed
  then show "fst ` set (impacted_types from to) = moved_labels from to False" by blast
  show "bt_get (impacted_types from to) lbl = Some Direct \<longleftrightarrow>
       (\<exists>h. bt_get to lbl = Some h \<and>
          (\<forall>h0. bt_get from lbl = Some h0 \<longrightarrow> direct_hash h0 \<noteq> direct_hash h))"
    by (auto simp: bt_get_impacted_types assms impact_of_def split: option.splits if_splits Option.bind_splits)
qed

subsection \<open>What a distance is\<close>

text \<open>
  A walk goes from a label through impacted dependencies to an origin, a label that is directly
  impacted or has no impacted dependency; it has a number of steps and a number of steps that
  enter another package.
\<close>

definition hop_deps :: "(string, string list) btree \<Rightarrow> (label, impact_type) btree \<Rightarrow> label \<Rightarrow> label list" where
  "hop_deps edges types lbl = (if bt_get types lbl = Some Direct then [] else impacted_deps edges types lbl)"

definition crossing :: "label \<Rightarrow> label \<Rightarrow> nat" where
  "crossing dep lbl = (if package_of dep \<noteq> package_of lbl then 1 else 0)"

inductive walk :: "(string, string list) btree \<Rightarrow> (label, impact_type) btree \<Rightarrow> label \<Rightarrow> nat \<Rightarrow> nat \<Rightarrow> bool"
  for edges types where
  at_origin: "hop_deps edges types lbl = [] \<Longrightarrow> walk edges types lbl 0 0"
| one_step: "d \<in> set (hop_deps edges types lbl) \<Longrightarrow> walk edges types d n c \<Longrightarrow>
    walk edges types lbl (Suc n) (c + crossing d lbl)"

inductive_cases walkE: "walk edges types lbl n c"

abbreviation hop :: "(string, string list) btree \<Rightarrow> (label, impact_type) btree \<Rightarrow> label \<Rightarrow> label \<Rightarrow> bool" where
  "hop edges types \<equiv> \<lambda>d l. d \<in> set (hop_deps edges types l)"

definition is_least :: "nat set \<Rightarrow> nat \<Rightarrow> bool" where
  "is_least S x \<longleftrightarrow> x \<in> S \<and> (\<forall>y \<in> S. x \<le> y)"

definition distance_sem ::
  "(string, string list) btree \<Rightarrow> (label, impact_type) btree \<Rightarrow> label \<Rightarrow> nat \<times> nat \<Rightarrow> bool" where
  "distance_sem edges types lbl v \<longleftrightarrow>
     Wellfounded.accp (hop edges types) lbl \<and>
     is_least {n. \<exists>c. walk edges types lbl n c} (fst v) \<and> is_least {c. \<exists>n. walk edges types lbl n c} (snd v)"

lemma is_least_unique: "is_least S x \<Longrightarrow> is_least S y \<Longrightarrow> x = y"
  by (auto simp: is_least_def intro: antisym)

lemma is_least_exists: "S \<noteq> {} \<Longrightarrow> \<exists>x. is_least S x"
  by (rule exI [of _ "LEAST x. x \<in> S"]) (auto simp: is_least_def intro: LeastI Least_le)

lemma distance_sem_functional:
  "distance_sem edges types lbl v \<Longrightarrow> distance_sem edges types lbl w \<Longrightarrow> v = w"
  by (auto simp: distance_sem_def prod_eq_iff intro: is_least_unique)

lemma walk_exists: "Wellfounded.accp (hop edges types) lbl \<Longrightarrow> \<exists>n c. walk edges types lbl n c"
proof (induction rule: accp.induct)
  case (accI lbl)
  show ?case
  proof (cases "hop_deps edges types lbl")
    case Nil
    then show ?thesis by (blast intro: walk.at_origin)
  next
    case (Cons d ds)
    then have "d \<in> set (hop_deps edges types lbl)" by simp
    with accI show ?thesis by (blast intro: walk.one_step)
  qed
qed

lemma distance_sem_exists:
  assumes "Wellfounded.accp (hop edges types) lbl"
  shows "\<exists>v. distance_sem edges types lbl v"
proof -
  obtain n c where "walk edges types lbl n c" using walk_exists [OF assms] by blast
  then obtain t p where "is_least {n. \<exists>c. walk edges types lbl n c} t" "is_least {c. \<exists>n. walk edges types lbl n c} p"
    using is_least_exists [of "{n. \<exists>c. walk edges types lbl n c}"]
      is_least_exists [of "{c. \<exists>n. walk edges types lbl n c}"] by blast
  with assms have "distance_sem edges types lbl (t, p)" by (simp add: distance_sem_def)
  then show ?thesis by blast
qed

lemma hop_deps_keys: "hop_deps edges types lbl \<noteq> [] \<Longrightarrow> lbl \<in> fst ` set edges"
  by (force simp: hop_deps_def impacted_deps_def dest: map_of_SomeD split: if_splits option.splits)

text \<open>A walk visits no label twice, so it is no longer than the edge table.\<close>

lemma walk_nodes:
  assumes "walk edges types lbl n c" "Wellfounded.accp (hop edges types) lbl"
  shows "c \<le> n \<and> (\<exists>vs. distinct vs \<and> length vs = n \<and> set vs \<subseteq> fst ` set edges \<and>
    (\<forall>v \<in> set vs. (hop edges types)\<^sup>*\<^sup>* v lbl))"
  using assms
proof (induction rule: walk.induct)
  case (at_origin lbl)
  show ?case by (auto intro: exI [of _ "[]"])
next
  case (one_step d lbl n c)
  then have "Wellfounded.accp (hop edges types) d" by (blast dest: accp_downward)
  with one_step obtain vs where vs: "c \<le> n" "distinct vs" "length vs = n" "set vs \<subseteq> fst ` set edges"
    "\<forall>v \<in> set vs. (hop edges types)\<^sup>*\<^sup>* v d" by blast
  have "lbl \<notin> set vs"
  proof
    assume "lbl \<in> set vs"
    with vs(5) one_step.hyps(1) have "(hop edges types)\<^sup>+\<^sup>+ lbl lbl"
      by (meson rtranclp_into_tranclp1)
    with accp_no_cycle [OF one_step.prems] show False by blast
  qed
  moreover have "lbl \<in> fst ` set edges"
    using one_step.hyps(1) by (intro hop_deps_keys [of edges types]) auto
  moreover have "\<forall>v \<in> set vs. (hop edges types)\<^sup>*\<^sup>* v lbl"
    using vs(5) one_step.hyps(1) by (meson rtranclp.rtrancl_into_rtrancl)
  ultimately have "distinct (lbl # vs) \<and> length (lbl # vs) = Suc n \<and> set (lbl # vs) \<subseteq> fst ` set edges \<and>
      (\<forall>v \<in> set (lbl # vs). (hop edges types)\<^sup>*\<^sup>* v lbl)"
    using vs by simp
  moreover have "c + crossing d lbl \<le> Suc n" using vs(1) by (simp add: crossing_def)
  ultimately show ?case by blast
qed

lemma walk_bound:
  assumes "walk edges types lbl n c" "Wellfounded.accp (hop edges types) lbl"
  shows "n \<le> length edges" "c \<le> length edges"
proof -
  obtain vs where vs: "c \<le> n" "distinct vs" "length vs = n" "set vs \<subseteq> fst ` set edges"
    using walk_nodes [OF assms] by blast
  then have "n = card (set vs)" by (simp add: distinct_card)
  also have "\<dots> \<le> card (fst ` set edges)" using vs(4) by (simp add: card_mono)
  also have "\<dots> \<le> length edges" by (metis card_length length_map list.set_map)
  finally show "n \<le> length edges" .
  with vs(1) show "c \<le> length edges" by simp
qed

subsection \<open>The code computes it\<close>

definition distances_ok :: "(string, string list) btree \<Rightarrow> (label, impact_type) btree \<Rightarrow> distance_memo \<Rightarrow> bool" where
  "distances_ok edges types memo \<longleftrightarrow>
     bt_inv memo \<and> (\<forall>k v. bt_get memo k = Some v \<longrightarrow> distance_sem edges types k v)"

lemma distances_ok_insert:
  "distances_ok edges types memo \<Longrightarrow> distance_sem edges types k v \<Longrightarrow> distances_ok edges types (bt_insert k v memo)"
  by (auto simp: distances_ok_def bt_get_insert bt_inv_insert split: if_splits)

lemma distance_loop_value:
  assumes "\<And>d w memo'. d \<in> set ds \<Longrightarrow> distance_sem edges types d w \<Longrightarrow> distances_ok edges types memo' \<Longrightarrow>
      \<exists>memo''. calculate_distance edges types d path memo' = (w, memo'') \<and> distances_ok edges types memo''"
    and "list_all2 (distance_sem edges types) ds vs" "distances_ok edges types memo"
  shows "\<exists>memo'. distance_loop edges types lbl ds path acc memo =
      ((fold min (map (\<lambda>v. saturating_add (fst v) 1) vs) (fst acc),
        fold min (map2 (\<lambda>d v. snd v + crossing d lbl) ds vs) (snd acc)), memo') \<and>
    distances_ok edges types memo'"
  using assms(2,1,3)
proof (induction ds vs arbitrary: acc memo rule: list_all2_induct)
  case Nil
  then show ?case by (cases acc) simp
next
  case (Cons d ds v vs)
  obtain memo1 where memo1: "calculate_distance edges types d path memo = (v, memo1)" "distances_ok edges types memo1"
    using Cons.prems(1) [of d v memo] Cons.hyps(1) Cons.prems(2) by auto
  let ?acc = "(min (fst acc) (saturating_add (fst v) 1), min (snd acc) (snd v + crossing d lbl))"
  obtain memo2 where "distance_loop edges types lbl ds path ?acc memo1 =
      ((fold min (map (\<lambda>v. saturating_add (fst v) 1) vs) (fst ?acc),
        fold min (map2 (\<lambda>d v. snd v + crossing d lbl) ds vs) (snd ?acc)), memo2)" "distances_ok edges types memo2"
    using Cons.IH [of memo1 ?acc] Cons.prems(1) memo1(2) by auto
  with memo1 show ?case
    by (cases v) (simp add: distance_loop.simps(2) crossing_def min.commute)
qed

lemma fold_min_least:
  assumes "x \<in> set ys" "\<forall>y \<in> set ys. x \<le> y" "x \<le> a"
  shows "fold min ys (a :: nat) = x"
proof -
  have "fold min ys a = Min (set (a # ys))" by (simp only: Min.set_eq_fold)
  also have "\<dots> = x" using assms by (intro Min_eqI) auto
  finally show ?thesis .
qed

lemma distance_sem_step:
  assumes sem: "distance_sem edges types lbl v" and len: "length edges < usize_max"
    and ds: "hop_deps edges types lbl = ds" "ds \<noteq> []" and vs: "list_all2 (distance_sem edges types) ds vs"
  shows "fold min (map (\<lambda>v. saturating_add (fst v) 1) vs) usize_max = fst v"
    and "fold min (map2 (\<lambda>d v. snd v + crossing d lbl) ds vs) usize_max = snd v"
proof -
  have acc: "Wellfounded.accp (hop edges types) lbl"
    and leastt: "is_least {n. \<exists>c. walk edges types lbl n c} (fst v)"
    and leastp: "is_least {c. \<exists>n. walk edges types lbl n c} (snd v)"
    using sem by (auto simp: distance_sem_def)
  have len_vs: "length vs = length ds" using vs by (simp add: list_all2_lengthD)
  have small: "n < usize_max" "c < usize_max" if "walk edges types lbl n c" for n c
    using walk_bound [OF that acc] len by auto
  have elem: "\<exists>n c. walk edges types (ds ! i) (fst (vs ! i)) c \<and> walk edges types (ds ! i) n (snd (vs ! i)) \<and>
      walk edges types lbl (Suc (fst (vs ! i))) (c + crossing (ds ! i) lbl) \<and>
      walk edges types lbl (Suc n) (snd (vs ! i) + crossing (ds ! i) lbl)" if "i < length ds" for i
  proof -
    have "distance_sem edges types (ds ! i) (vs ! i)" using vs that by (simp add: list_all2_nthD)
    moreover have "ds ! i \<in> set (hop_deps edges types lbl)" using that ds(1) by simp
    ultimately show ?thesis
      by (auto simp: distance_sem_def is_least_def intro: walk.one_step)
  qed
  have step: "\<exists>i c' n'. i < length ds \<and> n = Suc n' \<and> c = c' + crossing (ds ! i) lbl \<and>
      fst (vs ! i) \<le> n' \<and> snd (vs ! i) \<le> c'" if w: "walk edges types lbl n c" for n c
  proof -
    from w ds obtain d n' c' where d: "d \<in> set ds" "walk edges types d n' c'" "n = Suc n'" "c = c' + crossing d lbl"
      by (auto elim: walkE)
    then obtain i where i: "i < length ds" "d = ds ! i" by (auto simp: in_set_conv_nth)
    have "distance_sem edges types (ds ! i) (vs ! i)" using vs i by (simp add: list_all2_nthD)
    with d i have "fst (vs ! i) \<le> n'" "snd (vs ! i) \<le> c'"
      by (auto simp: distance_sem_def is_least_def)
    with d i show ?thesis by blast
  qed
  have sat: "saturating_add (fst (vs ! i)) 1 = Suc (fst (vs ! i))" if "i < length ds" for i
    using elem [OF that] small by (fastforce simp: saturating_add_def)
  show "fold min (map (\<lambda>v. saturating_add (fst v) 1) vs) usize_max = fst v"
  proof (rule fold_min_least)
    from leastt obtain c where w: "walk edges types lbl (fst v) c" by (auto simp: is_least_def)
    from step [OF w] obtain i n' where i: "i < length ds" "fst v = Suc n'" "fst (vs ! i) \<le> n'" by blast
    have "fst v \<le> Suc (fst (vs ! i))" using elem [OF i(1)] leastt by (auto simp: is_least_def)
    with i have "fst v = saturating_add (fst (vs ! i)) 1" using sat [OF i(1)] by simp
    with i len_vs show "fst v \<in> set (map (\<lambda>v. saturating_add (fst v) 1) vs)" by (force simp: in_set_conv_nth)
    show "\<forall>y \<in> set (map (\<lambda>v. saturating_add (fst v) 1) vs). fst v \<le> y"
      using elem leastt sat len_vs by (fastforce simp: is_least_def in_set_conv_nth)
    show "fst v \<le> usize_max" using small(1) [OF w] by simp
  qed
  show "fold min (map2 (\<lambda>d v. snd v + crossing d lbl) ds vs) usize_max = snd v"
  proof (rule fold_min_least)
    from leastp obtain n where w: "walk edges types lbl n (snd v)" by (auto simp: is_least_def)
    from step [OF w] obtain i c' where i: "i < length ds" "snd v = c' + crossing (ds ! i) lbl" "snd (vs ! i) \<le> c'"
      by blast
    have "snd v \<le> snd (vs ! i) + crossing (ds ! i) lbl" using elem [OF i(1)] leastp by (auto simp: is_least_def)
    with i have "snd v = snd (vs ! i) + crossing (ds ! i) lbl" by simp
    with i len_vs show "snd v \<in> set (map2 (\<lambda>d v. snd v + crossing d lbl) ds vs)"
      by (force simp: in_set_conv_nth)
    show "\<forall>y \<in> set (map2 (\<lambda>d v. snd v + crossing d lbl) ds vs). snd v \<le> y"
      using elem leastp len_vs by (fastforce simp: is_least_def in_set_conv_nth)
    show "snd v \<le> usize_max" using small(2) [OF w] by simp
  qed
qed

lemma distance_sem_deps:
  assumes "distance_sem edges types lbl v" "d \<in> set (hop_deps edges types lbl)"
  shows "\<exists>w. distance_sem edges types d w"
proof (rule distance_sem_exists)
  have "Wellfounded.accp (hop edges types) lbl" using assms(1) by (simp add: distance_sem_def)
  then show "Wellfounded.accp (hop edges types) d" using assms(2) by (rule accp_downward)
qed

definition distance_visit ::
  "(string, string list) btree \<Rightarrow> (label, impact_type) btree \<Rightarrow> label \<Rightarrow> label list \<Rightarrow> distance_memo \<Rightarrow>
   (unit + nat \<times> nat) \<times> distance_memo" where
  "distance_visit edges types lbl visiting memo = map_prod Inr id (calculate_distance edges types lbl visiting memo)"

lemma distance_visit_Inr [simp]:
  "distance_visit edges types lbl visiting memo = (Inr v, memo') \<longleftrightarrow>
     calculate_distance edges types lbl visiting memo = (v, memo')"
  by (cases "calculate_distance edges types lbl visiting memo") (simp add: distance_visit_def)

lemma calculate_distance_local:
  assumes sem: "distance_sem edges types lbl v" and notin: "lbl \<notin> set visiting" and ok: "distances_ok edges types memo"
    and len: "length edges < usize_max"
    and deps: "\<And>d w memo'. d \<in> set (hop_deps edges types lbl) \<Longrightarrow> distance_sem edges types d w \<Longrightarrow>
      distances_ok edges types memo' \<Longrightarrow>
      \<exists>memo''. calculate_distance edges types d (visiting @ [lbl]) memo' = (w, memo'') \<and> distances_ok edges types memo''"
  shows "\<exists>memo'. calculate_distance edges types lbl visiting memo = (v, memo') \<and> distances_ok edges types memo'"
proof (cases "bt_get memo lbl")
  case (Some w)
  with ok have "distance_sem edges types lbl w" unfolding distances_ok_def by blast
  with sem have "w = v" by (rule distance_sem_functional [symmetric])
  with Some ok show ?thesis by (simp add: calculate_distance.simps)
next
  case None
  show ?thesis
  proof (cases "hop_deps edges types lbl = []")
    case True
    then have "walk edges types lbl 0 0" by (rule walk.at_origin)
    with sem have "v = (0, 0)"
      by (auto simp: distance_sem_def is_least_def prod_eq_iff)
    with True None notin sem ok show ?thesis
      by (auto simp: calculate_distance.simps hop_deps_def distances_ok_insert split: if_splits)
  next
    case False
    obtain vs where vs: "list_all2 (distance_sem edges types) (hop_deps edges types lbl) vs"
    proof -
      have "\<forall>d \<in> set (hop_deps edges types lbl). \<exists>w. distance_sem edges types d w"
        using distance_sem_deps [OF sem] by blast
      then obtain f where "\<forall>d \<in> set (hop_deps edges types lbl). distance_sem edges types d (f d)" by metis
      then show thesis using that by (simp add: list_all2_conv_all_nth) (metis length_map nth_map nth_mem)
    qed
    have hop: "impacted_deps edges types lbl = hop_deps edges types lbl" "bt_get types lbl \<noteq> Some Direct"
      using False by (auto simp: hop_deps_def split: if_splits)
    obtain memo' where "distance_loop edges types lbl (hop_deps edges types lbl) (visiting @ [lbl]) (usize_max, usize_max) memo =
        (v, memo')" "distances_ok edges types memo'"
      using distance_loop_value [OF deps vs ok, of lbl "(usize_max, usize_max)"]
        distance_sem_step [OF sem len refl False vs] by auto
    then show ?thesis
      using None notin hop False sem by (simp add: calculate_distance.simps distances_ok_insert)
  qed
qed


interpretation dist: memo_walk "hop_deps edges types"
    "\<lambda>lbl v. length edges < usize_max \<and> distance_sem edges types lbl v"
    "distances_ok edges types" "distance_visit edges types" for edges types
proof unfold_locales
  show "length edges < usize_max \<and> distance_sem edges types k v \<Longrightarrow>
      Wellfounded.accp (hop edges types) k" for k v
    by (simp add: distance_sem_def)
  show "length edges < usize_max \<and> distance_sem edges types k v \<Longrightarrow> d \<in> set (hop_deps edges types k) \<Longrightarrow>
      \<exists>w. length edges < usize_max \<and> distance_sem edges types d w" for k v d
    using distance_sem_deps by blast
qed (use calculate_distance_local in \<open>auto simp: \<close>)

text \<open>The impacted labels of an acyclic dependency table.\<close>

definition acyclic_impact :: "(string, string list) btree \<Rightarrow> (label, impact_type) btree \<Rightarrow> bool" where
  "acyclic_impact edges types \<longleftrightarrow>
     length edges < usize_max \<and> (\<forall>lbl \<in> fst ` set types. Wellfounded.accp (hop edges types) lbl)"

text \<open>
  Distances are shortest distances. When no impacted label depends on itself, the first number computed
  for a label is the least number of dependency steps to a directly impacted label (or to one
  whose cause is outside the edge table), the second the least number of steps into another package; the memo table
  other labels filled does not change them and no addition overflows.
\<close>

theorem calculate_distance_shortest:
  assumes "acyclic_impact edges types" "lbl \<in> fst ` set types" "distances_ok edges types memo"
  shows "\<exists>t p memo'. calculate_distance edges types lbl [] memo = ((t, p), memo') \<and>
    distances_ok edges types memo' \<and>
    is_least {n. \<exists>c. walk edges types lbl n c} t \<and> is_least {c. \<exists>n. walk edges types lbl n c} p"
proof -
  obtain v where v: "distance_sem edges types lbl v"
    using distance_sem_exists [of edges types lbl] assms(1,2) unfolding acyclic_impact_def by blast
  with assms(1) have "length edges < usize_max \<and> distance_sem edges types lbl v" by (simp add: acyclic_impact_def)
  from dist.visit_top [OF this assms(3)] obtain memo' where
    "calculate_distance edges types lbl [] memo = (v, memo')" "distances_ok edges types memo'" by auto
  with v show ?thesis by (cases v) (auto simp: distance_sem_def)
qed

subsection \<open>All distances\<close>

definition bt_dom :: "('k, 'v) btree \<Rightarrow> 'k set" where
  "bt_dom m = fst ` set m"

lemma bt_dom_simps [simp]:
  "bt_dom [] = {}" "bt_dom (bt_insert k v m) = insert k (bt_dom m)"
  by (simp_all add: bt_dom_def fst_set_bt_insert)

lemma bt_get_dom: "bt_get m k = None \<longleftrightarrow> k \<notin> bt_dom m"
  by (simp add: bt_dom_def map_of_eq_None_iff)

lemma impacted_types_keys:
  assumes "bt_inv to"
  shows "bt_dom (impacted_types from to) = moved_labels from to False"
proof -
  have "lbl \<notin> bt_dom (impacted_types from to) \<longleftrightarrow> lbl \<notin> moved_labels from to False" for lbl
    unfolding bt_get_dom [symmetric]
    by (auto simp: bt_get_impacted_types assms impact_of_def moved_labels_def kept_label_def
        split: option.splits if_splits Option.bind_splits)
  then show ?thesis by blast
qed

lemma distance_keys:
  "\<And>v memo'. calculate_distance edges types lbl visiting memo = (v, memo') \<Longrightarrow>
     bt_dom memo \<subseteq> bt_dom memo' \<and> bt_dom memo' \<subseteq> bt_dom memo \<union> insert lbl (bt_dom types) \<and>
     (lbl \<notin> set visiting \<longrightarrow> lbl \<in> bt_dom memo')"
  "\<And>v memo'. distance_loop edges types lbl deps visiting acc memo = (v, memo') \<Longrightarrow>
     set deps \<subseteq> bt_dom types \<Longrightarrow>
     bt_dom memo \<subseteq> bt_dom memo' \<and> bt_dom memo' \<subseteq> bt_dom memo \<union> bt_dom types"
proof (induction edges types lbl visiting memo and edges types lbl deps visiting acc memo
    rule: calculate_distance_distance_loop.induct)
  case (1 edges types lbl visiting memo)
  have deps: "set (impacted_deps edges types lbl) \<subseteq> bt_dom types"
    by (auto simp: impacted_deps_def bt_get_dom simp flip: not_None_eq)
  show ?case
  proof (cases "bt_get memo lbl")
    case (Some w)
    then have "lbl \<in> bt_dom memo" using bt_get_dom [of memo lbl] by simp
    with Some "1.prems" show ?thesis by (auto simp: calculate_distance.simps)
  next
    case None
    with "1.prems" "1.IH" [OF None] deps show ?thesis
      by (auto simp: calculate_distance.simps split: if_splits prod.splits)
  qed
next
  case (2 edges types lbl visiting acc memo)
  then show ?case by simp
next
  case (3 edges types lbl dep deps visiting acc memo)
  obtain w memo1 where w: "calculate_distance edges types dep visiting memo = (w, memo1)" by fastforce
  then obtain t p where tp: "calculate_distance edges types dep visiting memo = ((t, p), memo1)" by (cases w) simp
  have one: "bt_dom memo \<subseteq> bt_dom memo1" "bt_dom memo1 \<subseteq> bt_dom memo \<union> insert dep (bt_dom types)"
    using "3.IH"(1) [OF tp] by blast+
  have "distance_loop edges types lbl deps visiting
      (min (fst acc) (saturating_add t 1), min (snd acc) (p + (if package_of dep \<noteq> package_of lbl then 1 else 0))) memo1 =
      (v, memo')"
    using "3.prems"(1) by (simp add: distance_loop.simps(2) tp)
  from "3.IH"(2) [OF tp [symmetric] refl this] "3.prems"(2) one show ?case by auto
qed

lemma all_distances_fold:
  assumes "acyclic_impact edges types" "set keys \<subseteq> bt_dom types" "distances_ok edges types memo"
    and "bt_dom memo \<subseteq> bt_dom types"
  shows "distances_ok edges types (fold (\<lambda>lbl memo. snd (calculate_distance edges types lbl [] memo)) keys memo) \<and>
    bt_dom (fold (\<lambda>lbl memo. snd (calculate_distance edges types lbl [] memo)) keys memo) \<subseteq> bt_dom types \<and>
    bt_dom memo \<union> set keys \<subseteq>
      bt_dom (fold (\<lambda>lbl memo. snd (calculate_distance edges types lbl [] memo)) keys memo)"
  using assms(2-)
proof (induction keys arbitrary: memo)
  case (Cons k keys)
  obtain v where v: "distance_sem edges types k v"
    using distance_sem_exists [of edges types k] assms(1) Cons.prems(1) unfolding acyclic_impact_def bt_dom_def by auto
  have "length edges < usize_max \<and> distance_sem edges types k v"
    using assms(1) v by (simp add: acyclic_impact_def)
  from dist.visit_top [OF this Cons.prems(2)] obtain memo1 where
    memo1: "calculate_distance edges types k [] memo = (v, memo1)" "distances_ok edges types memo1" by auto
  have "bt_dom memo1 \<subseteq> bt_dom types" "bt_dom memo \<subseteq> bt_dom memo1" "k \<in> bt_dom memo1"
    using distance_keys(1) [OF memo1(1)] Cons.prems(1,3) by auto
  with Cons.IH [OF _ memo1(2)] Cons.prems(1) memo1(1) show ?case by auto
qed simp

lemma all_distances_value:
  assumes "acyclic_impact edges types" "set keys = bt_dom types"
  shows "bt_inv (all_distances edges types keys)"
    and "bt_dom (all_distances edges types keys) = bt_dom types"
    and "lbl \<in> bt_dom types \<Longrightarrow> \<exists>v. bt_get (all_distances edges types keys) lbl = Some v \<and> distance_sem edges types lbl v"
proof -
  have "distances_ok edges types []" by (simp add: distances_ok_def)
  from all_distances_fold [OF assms(1) _ this, of keys] assms(2)
  have ok: "distances_ok edges types (all_distances edges types keys)"
    and dom: "bt_dom (all_distances edges types keys) = bt_dom types"
    by (auto simp: all_distances_def)
  then show "bt_inv (all_distances edges types keys)" by (simp add: distances_ok_def)
  show "bt_dom (all_distances edges types keys) = bt_dom types" by (rule dom)
  assume "lbl \<in> bt_dom types"
  with dom have "bt_get (all_distances edges types keys) lbl \<noteq> None" by (simp add: bt_get_dom)
  with ok show "\<exists>v. bt_get (all_distances edges types keys) lbl = Some v \<and> distance_sem edges types lbl v"
    unfolding distances_ok_def by blast
qed

lemma target_with_distance [simp]: "target (with_distance memo lbl) = lbl"
  by (simp add: with_distance_def split: option.splits prod.splits)

lemma sort_ranked:
  assumes "distinct ls"
  shows "sort_key (\<lambda>t. (rank_of from to (target t), target t)) (map (with_distance memo) ls) =
    map (with_distance memo) (map snd (sorted_list_of_set ((\<lambda>lbl. (rank_of from to lbl, lbl)) ` set ls)))"
proof (rule sort_key_inj_key_eq)
  let ?r = "\<lambda>lbl. (rank_of from to lbl, lbl)"
  let ?sorted = "sorted_list_of_set (?r ` set ls)"
  have "set (map snd ?sorted) = set ls" by (force simp: image_image)
  moreover have "distinct (map snd ?sorted)"
    by (auto simp: distinct_map inj_on_def)
  ultimately have "mset (map snd ?sorted) = mset ls"
    using assms by (metis set_eq_iff_mset_eq_distinct)
  then show "mset (map (with_distance memo) ls) = mset (map (with_distance memo) (map snd ?sorted))"
    by (metis mset_map)
  show "inj_on (\<lambda>t. (rank_of from to (target t), target t)) (set (map (with_distance memo) ls))"
    by (auto simp: inj_on_def)
  have "map ?r (map snd ?sorted) = ?sorted"
    unfolding map_map by (rule map_idI) auto
  then show "sorted (map (\<lambda>t. (rank_of from to (target t), target t)) (map (with_distance memo) (map snd ?sorted)))"
    by (simp add: comp_def)
qed

lemma distances_of_impacted_targets:
  assumes "bt_inv to" "acyclic_impact edges (impacted_types from to)"
    and "mset (key_order (bt_keys (impacted_types from to))) = mset (bt_keys (impacted_types from to))"
    and "\<And>ls. mset (memo_order ls) = mset ls"
  shows "\<exists>f. impacted_targets_with_distances key_order memo_order from to edges target_types exclude_external =
      map_sum id (map f) (impacted_targets from to target_types exclude_external) \<and>
    (\<forall>lbl \<in> moved_labels from to False. target (f lbl) = lbl \<and>
       distance_sem edges (impacted_types from to) lbl (target_distance (f lbl), package_distance (f lbl)))"
proof -
  let ?types = "impacted_types from to"
  let ?keys = "key_order (bt_keys ?types)"
  let ?memo = "all_distances edges ?types ?keys"
  have keys: "set ?keys = bt_dom ?types" using assms(3) unfolding bt_dom_def by (metis list.set_map set_mset_mset)
  note memo = all_distances_value [OF assms(2) keys]
  have dom: "bt_dom ?types = moved_labels from to False" by (rule impacted_types_keys [OF assms(1)])
  let ?ls = "filter (kept_label exclude_external) (memo_order (bt_keys ?memo))"
  have set_order: "set (memo_order (bt_keys ?memo)) = bt_dom ?memo"
    using assms(4) unfolding bt_dom_def by (metis list.set_map set_mset_mset)
  have set_ls: "set ?ls = moved_labels from to exclude_external"
    using set_order memo(2) dom by (auto simp: moved_labels_def kept_label_def)
  have dist_ls: "distinct ?ls"
    using memo(1) assms(4) [of "bt_keys ?memo"] by (metis bt_distinct distinct_filter mset_eq_imp_distinct_iff)
  have to_dom: "\<forall>l \<in> set ?ls. bt_get to l \<noteq> None" unfolding set_ls by (auto simp: moved_labels_def)
  have ex: "list_ex (untyped_label to target_types) ?ls \<longleftrightarrow>
      (\<exists>lbl \<in> moved_labels from to exclude_external. untyped_label to target_types lbl)"
    unfolding list_ex_iff set_ls ..
  have "set (filter (accepted_label to target_types) ?ls) =
      {lbl \<in> moved_labels from to exclude_external. accepted_label to target_types lbl}"
    using set_ls by auto
  then have "impacted_targets_with_distances key_order memo_order from to edges target_types exclude_external =
      map_sum id (map (with_distance ?memo)) (impacted_targets from to target_types exclude_external)"
    unfolding impacted_targets_with_distances_def Let_def collect_accepted [OF to_dom]
      impacted_targets_closed [OF assms(1)] ex
    using sort_ranked [of "filter (accepted_label to target_types) ?ls" "from" to ?memo] dist_ls
    by (simp del: filter_filter set_filter)
  moreover have "\<forall>lbl \<in> moved_labels from to False. target (with_distance ?memo lbl) = lbl \<and>
       distance_sem edges ?types lbl (target_distance (with_distance ?memo lbl), package_distance (with_distance ?memo lbl))"
    using memo(3) dom by (fastforce simp: with_distance_def)
  ultimately show ?thesis by blast
qed

text \<open>
  The list with distances is the list of impacted targets. Whatever order the hash maps are iterated in,
  \<open>impacted_targets_with_distances\<close> returns the labels \<open>impacted_targets\<close> returns, in the same order and with the same
  error, each with its shortest distances.
\<close>

theorem distances_match_impacted_targets:
  assumes "bt_inv to" "acyclic_impact edges (impacted_types from to)"
    and "mset (key_order (bt_keys (impacted_types from to))) = mset (bt_keys (impacted_types from to))"
    and "\<And>ls. mset (memo_order ls) = mset ls"
  shows "\<exists>f. impacted_targets_with_distances key_order memo_order from to edges target_types exclude_external =
      map_sum id (map f) (impacted_targets from to target_types exclude_external) \<and>
    (\<forall>lbl \<in> moved_labels from to False. target (f lbl) = lbl \<and>
       distance_sem edges (impacted_types from to) lbl (target_distance (f lbl), package_distance (f lbl)))"
  by (rule distances_of_impacted_targets [of to edges "from" key_order memo_order, OF assms])

subsection \<open>A small comparison\<close>

definition sample_state :: "u8 \<Rightarrow> u8 \<Rightarrow> target_hash" where
  "sample_state a b = \<lparr>kind = ''Rule'', hash = Sha256 (replicate 32 a), direct_hash = Sha256 (replicate 32 b)\<rparr>"

definition sample_from :: "(label, target_hash) btree" where
  "sample_from = [(''//a:lib'', sample_state 1 1), (''//b:bin'', sample_state 2 2), (''//b:old'', sample_state 3 3)]"

definition sample_to :: "(label, target_hash) btree" where
  "sample_to = [(''//a:lib'', sample_state 4 4), (''//b:bin'', sample_state 5 2), (''//c:new'', sample_state 6 6)]"

definition sample_dep_edges :: "(string, string list) btree" where
  "sample_dep_edges = [(''//b:bin'', [''//a:lib''])]"

lemma bt_inv_sample_to [simp]: "bt_inv sample_to"
  by (simp add: sample_to_def bt_inv_def)

lemma sample_moved: "moved_labels sample_from sample_to False = {''//a:lib'', ''//b:bin'', ''//c:new''}"
  by (auto simp: moved_labels_def sample_from_def sample_to_def kept_label_def sample_state_def split: if_splits)

lemma sample_rank: "lbl \<in> {''//a:lib'', ''//b:bin'', ''//c:new''} \<Longrightarrow> rank_of sample_from sample_to lbl = 2"
  by (auto simp: rank_of_def sample_to_def kind_rank_def sample_state_def)

theorem impacted_targets_spec_witness:
  "impacted_targets sample_from sample_to None False = Inr [''//a:lib'', ''//b:bin'', ''//c:new'']"
proof -
  have "(\<lambda>lbl. (rank_of sample_from sample_to lbl, lbl)) ` {''//a:lib'', ''//b:bin'', ''//c:new''} =
      {(2, ''//a:lib''), (2, ''//b:bin''), (2, ''//c:new'')}"
    using sample_rank by auto
  moreover have "{lbl \<in> moved_labels sample_from sample_to False. accepted_label sample_to None lbl} =
      {''//a:lib'', ''//b:bin'', ''//c:new''}"
    by (auto simp: accepted_label_def sample_moved)
  moreover have "map snd (sorted_list_of_set {(2 :: nat, ''//a:lib''), (2, ''//b:bin''), (2, ''//c:new'')}) =
      [''//a:lib'', ''//b:bin'', ''//c:new'']"
    by simp
  ultimately show ?thesis
    using impacted_targets_spec [OF bt_inv_sample_to, of sample_from None False]
    by (simp only: untyped_label_def simp_thms if_False bex_simps) simp
qed

lemma sample_types:
  "impacted_types sample_from sample_to = [(''//a:lib'', Direct), (''//b:bin'', Indirect), (''//c:new'', Direct)]"
  by (simp add: impacted_types_def impact_of_def sample_from_def sample_to_def sample_state_def map_filter_simps)

theorem impacted_types_spec_witness:
  "fst ` set (impacted_types sample_from sample_to) = moved_labels sample_from sample_to False \<and>
   bt_get (impacted_types sample_from sample_to) ''//b:bin'' \<noteq> Some Direct"
  using impacted_types_spec [OF bt_inv_sample_to, of sample_from "''//b:bin''"]
  by (simp add: sample_from_def sample_to_def sample_state_def)

lemma sample_hops:
  "hop_deps sample_dep_edges (impacted_types sample_from sample_to) lbl =
     (if lbl = ''//b:bin'' then [''//a:lib''] else [])"
  by (simp add: hop_deps_def impacted_deps_def sample_types sample_dep_edges_def)

lemma sample_acyclic: "acyclic_impact sample_dep_edges (impacted_types sample_from sample_to)"
proof -
  have lib: "Wellfounded.accp (hop sample_dep_edges (impacted_types sample_from sample_to)) ''//a:lib''"
    by (rule accp.accI) (simp add: sample_hops)
  have "Wellfounded.accp (hop sample_dep_edges (impacted_types sample_from sample_to)) lbl" for lbl
    by (rule accp.accI) (use lib in \<open>simp add: sample_hops split: if_splits\<close>)
  then show ?thesis by (simp add: acyclic_impact_def sample_dep_edges_def usize_max_def)
qed

theorem calculate_distance_shortest_witness:
  "fst (calculate_distance sample_dep_edges (impacted_types sample_from sample_to) ''//b:bin'' [] []) = (1, 1) \<and>
   is_least {n. \<exists>c. walk sample_dep_edges (impacted_types sample_from sample_to) ''//b:bin'' n c} 1"
proof -
  have "''//b:bin'' \<in> fst ` set (impacted_types sample_from sample_to)" by (simp add: sample_types)
  from calculate_distance_shortest [OF sample_acyclic this, of "[]"]
  obtain t p memo' where d: "calculate_distance sample_dep_edges (impacted_types sample_from sample_to) ''//b:bin'' [] [] =
      ((t, p), memo')"
    "is_least {n. \<exists>c. walk sample_dep_edges (impacted_types sample_from sample_to) ''//b:bin'' n c} t"
    by (auto simp: distances_ok_def)
  moreover have "(t, p) = (1, 1)"
    using d(1) by (simp add: calculate_distance.simps distance_loop.simps(2) sample_types impacted_deps_def
        sample_dep_edges_def saturating_add_def usize_max_def package_of_def split: prod.splits)
  ultimately show ?thesis by simp
qed

theorem distances_match_impacted_targets_witness:
  "\<exists>f. impacted_targets_with_distances rev rev sample_from sample_to sample_dep_edges None False =
      map_sum id (map f) (impacted_targets sample_from sample_to None False) \<and> target (f ''//b:bin'') = ''//b:bin''"
  using distances_match_impacted_targets [OF bt_inv_sample_to sample_acyclic, of rev rev None False]
  by (auto simp: sample_moved)

end
