(* ===== verification/Query_Target.thy ===== *)
theory Query_Target
  imports Labels Ordered_Map "HOL-Library.Multiset"
begin

section \<open>Query results (bazel.rs)\<close>

text \<open>
  The targets of a Bazel query as \<^verbatim>\<open>src/bazel.rs\<close> handles them: their names, the lowering and compaction
  of each target, the configured identities of a cquery, and the removal of duplicates. The messages
  are those of \<^verbatim>\<open>rust/proto/build.proto\<close> and \<^verbatim>\<open>rust/proto/analysis_v2.proto\<close>; an optional sub-message is an
  option. \<^verbatim>\<open>Attribute\<close> keeps the fields that the program reads, the others are one opaque list.
\<close>

datatype attribute_discriminator =
  INTEGER | STRING | LABEL | OUTPUT | STRING_LIST | LABEL_LIST | OUTPUT_LIST | DISTRIBUTION_SET | LICENSE |
  STRING_DICT | FILESET_ENTRY_LIST | LABEL_LIST_DICT | STRING_LIST_DICT | BOOLEAN | TRISTATE | INTEGER_LIST |
  DEPRECATED_STRING_DICT_UNARY | UNKNOWN | LABEL_DICT_UNARY | SELECTOR_LIST | LABEL_KEYED_STRING_DICT

record attribute =
  at_name :: string
  at_type :: attribute_discriminator
  at_string_value :: "string option"
  at_string_list_value :: "string list"
  at_string_dict_value :: "(string \<times> string) list"
  at_label_list_dict_value :: "(string \<times> string list) list"
  at_string_list_dict_value :: "(string \<times> string list) list"
  at_label_dict_unary_value :: "(string \<times> string) list"
  at_label_keyed_string_dict_value :: "(string \<times> string) list"
  at_other_fields :: bytes

record configured_rule_input =
  ci_label :: "string option"
  ci_configuration_checksum :: "string option"
  ci_configuration_id :: "nat option"

record rule =
  rule_name :: string
  rule_class :: string
  rule_location :: "string option"
  rule_attribute :: "attribute list"
  rule_input :: "string list"
  rule_output :: "string list"
  rule_default_setting :: "string list"
  rule_public_by_default :: "bool option"
  rule_is_skylark :: "bool option"
  rule_skylark_environment_hash_code :: "string option"
  rule_instantiation_stack :: "string list"
  rule_definition_stack :: "string list"
  rule_configured_input :: "configured_rule_input list"
  rule_class_key :: "string option"
  rule_unknown_fields :: bytes

record source_file =
  sf_name :: string
  sf_location :: "string option"
  sf_subinclude :: "string list"
  sf_package_group :: "string list"
  sf_visibility_label :: "string list"
  sf_feature :: "string list"
  sf_license :: "(string list \<times> string list) option"
  sf_package_contains_errors :: "bool option"
  sf_unknown_fields :: bytes

record generated_file =
  gf_name :: string
  gf_generating_rule :: string
  gf_location :: "string option"
  gf_unknown_fields :: bytes

record package_group =
  pg_name :: string
  pg_contained_package :: "string list"
  pg_included_package_group :: "string list"

record environment_group =
  eg_name :: string

datatype target_discriminator = Rule | SourceFile | GeneratedFile | PackageGroup | EnvironmentGroup

record qtarget =
  qt_type :: target_discriminator
  qt_rule :: "rule option"
  qt_source_file :: "source_file option"
  qt_generated_file :: "generated_file option"
  qt_package_group :: "package_group option"
  qt_environment_group :: "environment_group option"
  qt_unknown_fields :: bytes

definition rule_default :: rule where
  "rule_default = \<lparr>rule_name = '''', rule_class = '''', rule_location = None, rule_attribute = [], rule_input = [],
     rule_output = [], rule_default_setting = [], rule_public_by_default = None, rule_is_skylark = None,
     rule_skylark_environment_hash_code = None, rule_instantiation_stack = [], rule_definition_stack = [],
     rule_configured_input = [], rule_class_key = None, rule_unknown_fields = []\<rparr>"

definition attribute_default :: attribute where
  "attribute_default = \<lparr>at_name = '''', at_type = INTEGER, at_string_value = None, at_string_list_value = [],
     at_string_dict_value = [], at_label_list_dict_value = [], at_string_list_dict_value = [],
     at_label_dict_unary_value = [], at_label_keyed_string_dict_value = [], at_other_fields = []\<rparr>"

subsection \<open>Names and lowering\<close>

definition target_name :: "qtarget \<Rightarrow> label option" where
  "target_name t =
     (case qt_type t of
        Rule \<Rightarrow> map_option rule_name (qt_rule t)
      | SourceFile \<Rightarrow> map_option sf_name (qt_source_file t)
      | GeneratedFile \<Rightarrow> map_option gf_name (qt_generated_file t)
      | PackageGroup \<Rightarrow> map_option pg_name (qt_package_group t)
      | EnvironmentGroup \<Rightarrow> map_option eg_name (qt_environment_group t))"

definition compact_rule :: "rule \<Rightarrow> rule" where
  "compact_rule r = r\<lparr>rule_location := None, rule_output := [], rule_default_setting := [],
     rule_public_by_default := None, rule_is_skylark := None, rule_definition_stack := [],
     rule_class_key := None, rule_unknown_fields := []\<rparr>"

definition compact_source :: "source_file \<Rightarrow> source_file" where
  "compact_source s = s\<lparr>sf_location := None, sf_package_group := [], sf_visibility_label := [], sf_feature := [],
     sf_license := None, sf_package_contains_errors := None, sf_unknown_fields := []\<rparr>"

definition compact_generated :: "generated_file \<Rightarrow> generated_file" where
  "compact_generated g = g\<lparr>gf_location := None, gf_unknown_fields := []\<rparr>"

definition compact_target :: "qtarget \<Rightarrow> qtarget" where
  "compact_target t0 =
     (let t = t0\<lparr>qt_unknown_fields := []\<rparr>
      in case qt_type t of
           Rule \<Rightarrow> t\<lparr>qt_rule := map_option compact_rule (qt_rule t)\<rparr>
         | SourceFile \<Rightarrow> t\<lparr>qt_source_file := map_option compact_source (qt_source_file t)\<rparr>
         | GeneratedFile \<Rightarrow> t\<lparr>qt_generated_file := map_option compact_generated (qt_generated_file t)\<rparr>
         | _ \<Rightarrow> t)"

definition package_group_rule :: "package_group \<Rightarrow> rule" where
  "package_group_rule grp =
     (let packages = attribute_default\<lparr>at_name := ''packages'', at_type := STRING_LIST,
            at_string_list_value := pg_contained_package grp\<rparr>;
          r = rule_default\<lparr>rule_name := pg_name grp, rule_class := ''package_group''\<rparr>
      in r\<lparr>rule_attribute := rule_attribute r @ [packages], rule_input := pg_included_package_group grp\<rparr>)"

definition lower_target :: "qtarget \<Rightarrow> qtarget option" where
  "lower_target t =
     (case qt_type t of
        Rule \<Rightarrow> Some (compact_target t)
      | SourceFile \<Rightarrow> Some (compact_target t)
      | GeneratedFile \<Rightarrow> Some (compact_target t)
      | PackageGroup \<Rightarrow>
          (case qt_package_group t of
             None \<Rightarrow> None
           | Some grp \<Rightarrow>
               Some (compact_target (t\<lparr>qt_package_group := None, qt_type := Rule,
                 qt_rule := Some (package_group_rule grp)\<rparr>)))
      | EnvironmentGroup \<Rightarrow> None)"

definition configure_target :: "qtarget \<Rightarrow> string \<Rightarrow> qtarget" where
  "configure_target t checksum =
     (case qt_type t of
        Rule \<Rightarrow>
          t\<lparr>qt_rule := map_option (\<lambda>r. r\<lparr>rule_name := configured_key (rule_name r) checksum\<rparr>) (qt_rule t)\<rparr>
      | GeneratedFile \<Rightarrow>
          t\<lparr>qt_generated_file := map_option (\<lambda>g. g\<lparr>gf_name := configured_key (gf_name g) checksum,
              gf_generating_rule := configured_key (gf_generating_rule g) checksum\<rparr>) (qt_generated_file t)\<rparr>
      | _ \<Rightarrow> t)"

subsection \<open>Duplicates\<close>

text \<open>The names seen so far are a \<^verbatim>\<open>HashSet\<close>; \<open>insert\<close> says whether the name is new.\<close>

fun keep_decisions :: "label set \<Rightarrow> qtarget list \<Rightarrow> bool list" where
  "keep_decisions seen [] = []"
| "keep_decisions seen (t # ts) =
     (case target_name t of
        None \<Rightarrow> False # keep_decisions seen ts
      | Some n \<Rightarrow> (n \<notin> seen) # keep_decisions (insert n seen) ts)"

definition deduplicate_targets :: "qtarget list \<Rightarrow> qtarget list" where
  "deduplicate_targets targets = map fst (filter snd (zip targets (keep_decisions {} targets)))"

definition target_names :: "qtarget list \<Rightarrow> label list" where
  "target_names targets = List.map_filter target_name targets"

definition retain_supplemental_targets :: "qtarget list \<Rightarrow> qtarget list \<Rightarrow> qtarget list" where
  "retain_supplemental_targets extra primary =
     (if extra = [] then extra
      else
        (let primary_names = target_names primary;
             present = (if length extra \<le> length primary div 2
                        then set (filter (\<lambda>n. n \<in> set (target_names extra)) primary_names)
                        else set primary_names)
         in filter (\<lambda>t. case target_name t of None \<Rightarrow> False | Some n \<Rightarrow> n \<notin> present) extra))"

subsection \<open>Configured targets\<close>

definition NULL_CONFIGURATION_CHECKSUM :: string where
  "NULL_CONFIGURATION_CHECKSUM = ''null''"

definition non_null_checksum :: "string \<Rightarrow> string option" where
  "non_null_checksum checksum =
     (if checksum \<noteq> '''' \<and> checksum \<noteq> NULL_CONFIGURATION_CHECKSUM then Some checksum else None)"

record configuration =
  cf_id :: nat
  cf_checksum :: string

record configured_target =
  ct_target :: "qtarget option"
  ct_configuration :: "configuration option"
  ct_configuration_id :: nat

record cquery_result =
  cq_results :: "configured_target list"
  cq_configurations :: "configuration list"

record cquery_decoder =
  cd_targets :: "qtarget list"
  cd_configurations :: "nat \<rightharpoonup> string"
  cd_pending :: "(qtarget \<times> nat) list"

definition decoder_default :: cquery_decoder where
  "decoder_default = \<lparr>cd_targets = [], cd_configurations = Map.empty, cd_pending = []\<rparr>"

text \<open>The caller's \<^verbatim>\<open>transform\<close> is a closure with state of its own, threaded through every call.\<close>

type_synonym 's transform = "qtarget \<Rightarrow> 's \<Rightarrow> qtarget \<times> 's"

definition accept :: "'s transform \<Rightarrow> qtarget \<Rightarrow> string option \<Rightarrow> cquery_decoder \<times> 's \<Rightarrow> cquery_decoder \<times> 's" where
  "accept transform t checksum st =
     (case lower_target t of
        None \<Rightarrow> st
      | Some t1 \<Rightarrow>
          (let t2 = (case checksum of None \<Rightarrow> t1 | Some c \<Rightarrow> configure_target t1 c);
               (t3, s) = transform t2 (snd st)
           in ((fst st)\<lparr>cd_targets := cd_targets (fst st) @ [t3]\<rparr>, s)))"

definition add_configuration :: "configuration \<Rightarrow> cquery_decoder \<Rightarrow> cquery_decoder" where
  "add_configuration c d =
     (case non_null_checksum (cf_checksum c) of
        None \<Rightarrow> d
      | Some checksum \<Rightarrow> d\<lparr>cd_configurations := (cd_configurations d)(cf_id c \<mapsto> checksum)\<rparr>)"

definition inline_checksum :: "configured_target \<Rightarrow> string option" where
  "inline_checksum ct = Option.bind (ct_configuration ct) (\<lambda>c. non_null_checksum (cf_checksum c))"

definition push_result :: "'s transform \<Rightarrow> configured_target \<Rightarrow> cquery_decoder \<times> 's \<Rightarrow> cquery_decoder \<times> 's" where
  "push_result transform ct st =
     (case ct_target ct of
        None \<Rightarrow> st
      | Some t \<Rightarrow>
          (case (case inline_checksum ct of Some c \<Rightarrow> Some c | None \<Rightarrow> cd_configurations (fst st) (ct_configuration_id ct)) of
             Some checksum \<Rightarrow> accept transform t (Some checksum) st
           | None \<Rightarrow>
               if ct_configuration_id ct \<noteq> 0
               then ((fst st)\<lparr>cd_pending := cd_pending (fst st) @ [(t, ct_configuration_id ct)]\<rparr>, snd st)
               else accept transform t None st))"

definition push_cquery :: "'s transform \<Rightarrow> cquery_result \<Rightarrow> cquery_decoder \<times> 's \<Rightarrow> cquery_decoder \<times> 's" where
  "push_cquery transform result st =
     fold (push_result transform) (cq_results result)
       (fold add_configuration (cq_configurations result) (fst st), snd st)"

definition cquery_finish :: "'s transform \<Rightarrow> cquery_decoder \<times> 's \<Rightarrow> qtarget list \<times> 's" where
  "cquery_finish transform st =
     (let pending = cd_pending (fst st);
          (d, s) = fold (\<lambda>(t, i) st'. accept transform t (cd_configurations (fst st') i) st') pending
            ((fst st)\<lparr>cd_pending := []\<rparr>, snd st)
      in (cd_targets d, s))"

text \<open>Messages are decoded by the \<^verbatim>\<open>buffa\<close> crate; this is what \<^verbatim>\<open>decode_cquery_stream\<close> does with them.\<close>

definition decode_cquery :: "'s transform \<Rightarrow> cquery_result list \<Rightarrow> 's \<Rightarrow> qtarget list \<times> 's" where
  "decode_cquery transform results s = cquery_finish transform (fold (push_cquery transform) results (decoder_default, s))"


subsection \<open>Removing duplicates keeps the first of each name\<close>

definition named_as :: "label \<Rightarrow> qtarget \<Rightarrow> bool" where
  "named_as n t \<longleftrightarrow> target_name t = Some n"

lemma target_names_simps [simp]:
  "target_names [] = []"
  "target_names (t # ts) = (case target_name t of None \<Rightarrow> target_names ts | Some n \<Rightarrow> n # target_names ts)"
  by (simp_all add: target_names_def map_filter_simps split: option.splits)

definition dedup_from :: "label set \<Rightarrow> qtarget list \<Rightarrow> qtarget list" where
  "dedup_from seen ts = map fst (filter snd (zip ts (keep_decisions seen ts)))"

lemma dedup_from_simps [simp]:
  "dedup_from seen [] = []"
  "dedup_from seen (t # ts) =
     (case target_name t of
        None \<Rightarrow> dedup_from seen ts
      | Some n \<Rightarrow> (if n \<in> seen then dedup_from seen ts else t # dedup_from (insert n seen) ts))"
  by (auto simp: dedup_from_def insert_absorb split: option.splits)

lemma dedup_from_names:
  "distinct (target_names (dedup_from seen ts)) \<and> set (target_names (dedup_from seen ts)) = set (target_names ts) - seen"
  by (induction ts arbitrary: seen) (auto split: option.splits)

lemma dedup_from_first:
  "n \<notin> seen \<Longrightarrow> find (named_as n) (dedup_from seen ts) = find (named_as n) ts"
  by (induction ts arbitrary: seen) (auto simp: named_as_def split: option.splits)

text \<open>
  Removing duplicates keeps exactly one target per name, the first one of that name in the query output,
  and drops only nameless targets besides.
\<close>

theorem deduplicate_targets_keeps_first:
  "distinct (target_names (deduplicate_targets ts)) \<and>
   set (target_names (deduplicate_targets ts)) = set (target_names ts) \<and>
   find (named_as n) (deduplicate_targets ts) = find (named_as n) ts"
  using dedup_from_names [of "{}" ts] dedup_from_first [of n "{}" ts]
  by (simp add: deduplicate_targets_def dedup_from_def)

lemma retain_supplemental_reference:
  "retain_supplemental_targets extra primary =
     filter (\<lambda>t. case target_name t of None \<Rightarrow> False | Some n \<Rightarrow> n \<notin> set (target_names primary)) extra"
proof -
  have "n \<in> set (target_names extra)" if "t \<in> set extra" "target_name t = Some n" for t n
    using that by (induction extra) (auto split: option.splits)
  then show ?thesis
    by (auto simp: retain_supplemental_targets_def Let_def intro!: filter_cong split: option.splits)
qed

subsection \<open>Late configuration tables\<close>

text \<open>
  The checksum table of the whole stream: Bazel gives each configuration one id, and id 0 stands for
  no configuration.
\<close>

definition table_ok :: "(nat \<rightharpoonup> string) \<Rightarrow> cquery_result list \<Rightarrow> bool" where
  "table_ok tbl results \<longleftrightarrow>
     tbl 0 = None \<and>
     (\<forall>i c. tbl i = Some c \<longleftrightarrow>
        (\<exists>r \<in> set results. \<exists>cf \<in> set (cq_configurations r). cf_id cf = i \<and> non_null_checksum (cf_checksum cf) = Some c))"

definition named_target :: "(qtarget \<Rightarrow> qtarget) \<Rightarrow> string option \<Rightarrow> qtarget \<Rightarrow> qtarget option" where
  "named_target f checksum t =
     map_option (\<lambda>t1. f (case checksum of None \<Rightarrow> t1 | Some c \<Rightarrow> configure_target t1 c)) (lower_target t)"

text \<open>A configured target named by its own checksum, or else by the table.\<close>

definition named_result :: "(qtarget \<Rightarrow> qtarget) \<Rightarrow> (nat \<rightharpoonup> string) \<Rightarrow> configured_target \<Rightarrow> qtarget option" where
  "named_result f tbl ct =
     Option.bind (ct_target ct) (\<lambda>t.
       named_target f (case inline_checksum ct of Some c \<Rightarrow> Some c | None \<Rightarrow> tbl (ct_configuration_id ct)) t)"

definition stateless :: "(qtarget \<Rightarrow> qtarget) \<Rightarrow> 's transform" where
  "stateless f = (\<lambda>t s. (f t, s))"

lemma accept_stateless:
  "accept (stateless f) t ck st =
     (case named_target f ck t of None \<Rightarrow> st | Some t' \<Rightarrow> ((fst st)\<lparr>cd_targets := cd_targets (fst st) @ [t']\<rparr>, snd st))"
  by (auto simp: accept_def stateless_def named_target_def split: option.splits)

definition decoded :: "(qtarget \<Rightarrow> qtarget) \<Rightarrow> (nat \<rightharpoonup> string) \<Rightarrow> cquery_decoder \<Rightarrow> qtarget multiset" where
  "decoded f tbl d =
     mset (cd_targets d) + mset (List.map_filter (\<lambda>(t, i). named_target f (tbl i) t) (cd_pending d))"

lemma push_result_decoded:
  assumes "cd_configurations (fst st) \<subseteq>\<^sub>m tbl" "tbl 0 = None"
  shows "decoded f tbl (fst (push_result (stateless f) ct st)) =
      decoded f tbl (fst st) + (case named_result f tbl ct of None \<Rightarrow> {#} | Some t \<Rightarrow> {#t#})"
    and "cd_configurations (fst (push_result (stateless f) ct st)) = cd_configurations (fst st)"
proof -
  have known: "tbl i = Some c" if "cd_configurations (fst st) i = Some c" for i c
    using assms(1) that by (metis domI map_le_def)
  show "decoded f tbl (fst (push_result (stateless f) ct st)) =
      decoded f tbl (fst st) + (case named_result f tbl ct of None \<Rightarrow> {#} | Some t \<Rightarrow> {#t#})"
    using known assms(2)
    by (auto simp: push_result_def named_result_def accept_stateless decoded_def map_filter_def
        split: option.splits)
  show "cd_configurations (fst (push_result (stateless f) ct st)) = cd_configurations (fst st)"
    by (auto simp: push_result_def accept_stateless split: option.splits)
qed

lemma push_results_decoded:
  "cd_configurations (fst st) \<subseteq>\<^sub>m tbl \<Longrightarrow> tbl 0 = None \<Longrightarrow>
     decoded f tbl (fst (fold (push_result (stateless f)) cts st)) =
       decoded f tbl (fst st) + mset (List.map_filter (named_result f tbl) cts) \<and>
     cd_configurations (fst (fold (push_result (stateless f)) cts st)) = cd_configurations (fst st)"
proof (induction cts arbitrary: st)
  case (Cons ct cts)
  then show ?case
    using push_result_decoded [OF Cons.prems] by (cases "named_result f tbl ct") simp_all
qed (simp add: map_filter_simps)

lemma add_configurations:
  "cd_targets (fold add_configuration cs d) = cd_targets d" "cd_pending (fold add_configuration cs d) = cd_pending d"
  by (induction cs arbitrary: d) (simp_all add: add_configuration_def split: option.splits)

lemma add_configurations_le:
  assumes "\<And>cf c. cf \<in> set cs \<Longrightarrow> non_null_checksum (cf_checksum cf) = Some c \<Longrightarrow> tbl (cf_id cf) = Some c"
  shows "cd_configurations d \<subseteq>\<^sub>m tbl \<Longrightarrow> cd_configurations (fold add_configuration cs d) \<subseteq>\<^sub>m tbl"
  using assms
proof (induction cs arbitrary: d)
  case (Cons cf cs)
  have "cd_configurations (add_configuration cf d) \<subseteq>\<^sub>m tbl"
    using Cons.prems by (auto simp: add_configuration_def map_le_def split: option.splits)
  then show ?case using Cons by simp
qed simp

definition conf_ids :: "configuration list \<Rightarrow> nat set" where
  "conf_ids cs = cf_id ` {cf \<in> set cs. non_null_checksum (cf_checksum cf) \<noteq> None}"

lemma add_configurations_dom:
  "dom (cd_configurations (fold add_configuration cs d)) =
     dom (cd_configurations d) \<union> conf_ids cs"
  by (induction cs arbitrary: d) (auto simp: add_configuration_def conf_ids_def split: option.splits)

lemma push_cquery_decoded:
  assumes "cd_configurations (fst st) \<subseteq>\<^sub>m tbl" "tbl 0 = None"
    and "\<And>cf c. cf \<in> set (cq_configurations r) \<Longrightarrow> non_null_checksum (cf_checksum cf) = Some c \<Longrightarrow> tbl (cf_id cf) = Some c"
  shows "decoded f tbl (fst (push_cquery (stateless f) r st)) =
      decoded f tbl (fst st) + mset (List.map_filter (named_result f tbl) (cq_results r))"
    and "cd_configurations (fst (push_cquery (stateless f) r st)) \<subseteq>\<^sub>m tbl"
    and "dom (cd_configurations (fst (push_cquery (stateless f) r st))) =
      dom (cd_configurations (fst st)) \<union>
      conf_ids (cq_configurations r)"
proof -
  let ?st = "(fold add_configuration (cq_configurations r) (fst st), snd st)"
  have le: "cd_configurations (fst ?st) \<subseteq>\<^sub>m tbl" using add_configurations_le [OF assms(3) assms(1)] by simp
  note pushed = push_results_decoded [OF this assms(2), of f "cq_results r"]
  have "decoded f tbl (fst ?st) = decoded f tbl (fst st)" by (simp add: decoded_def add_configurations)
  then show "decoded f tbl (fst (push_cquery (stateless f) r st)) =
      decoded f tbl (fst st) + mset (List.map_filter (named_result f tbl) (cq_results r))"
    using pushed by (simp add: push_cquery_def)
  show "cd_configurations (fst (push_cquery (stateless f) r st)) \<subseteq>\<^sub>m tbl"
    using pushed le by (simp add: push_cquery_def)
  show "dom (cd_configurations (fst (push_cquery (stateless f) r st))) =
      dom (cd_configurations (fst st)) \<union>
      conf_ids (cq_configurations r)"
    using pushed by (simp add: push_cquery_def add_configurations_dom)
qed

lemma map_filter_append: "List.map_filter g (xs @ ys) = List.map_filter g xs @ List.map_filter g ys"
  by (simp add: map_filter_def)

lemma push_all_decoded:
  assumes "tbl 0 = None"
    and "\<And>r cf c. r \<in> set results \<Longrightarrow> cf \<in> set (cq_configurations r) \<Longrightarrow>
      non_null_checksum (cf_checksum cf) = Some c \<Longrightarrow> tbl (cf_id cf) = Some c"
  shows "cd_configurations (fst st) \<subseteq>\<^sub>m tbl \<Longrightarrow>
    decoded f tbl (fst (fold (push_cquery (stateless f)) results st)) =
      decoded f tbl (fst st) + mset (List.map_filter (named_result f tbl) (concat (map cq_results results))) \<and>
    cd_configurations (fst (fold (push_cquery (stateless f)) results st)) \<subseteq>\<^sub>m tbl \<and>
    dom (cd_configurations (fst (fold (push_cquery (stateless f)) results st))) =
      dom (cd_configurations (fst st)) \<union>
      (\<Union>r \<in> set results. conf_ids (cq_configurations r))"
  using assms(2)
proof (induction results arbitrary: st)
  case (Cons r rs)
  have le: "cd_configurations (fst (push_cquery (stateless f) r st)) \<subseteq>\<^sub>m tbl"
    by (rule push_cquery_decoded(2)) (use Cons.prems assms(1) in auto)
  have sub: "tbl (cf_id cf) = Some c"
    if "r' \<in> set rs" "cf \<in> set (cq_configurations r')" "non_null_checksum (cf_checksum cf) = Some c" for r' cf c
    using Cons.prems(2) [of r'] that by simp
  have ih: "decoded f tbl (fst (fold (push_cquery (stateless f)) rs (push_cquery (stateless f) r st))) =
      decoded f tbl (fst (push_cquery (stateless f) r st)) + mset (List.map_filter (named_result f tbl) (concat (map cq_results rs))) \<and>
    cd_configurations (fst (fold (push_cquery (stateless f)) rs (push_cquery (stateless f) r st))) \<subseteq>\<^sub>m tbl \<and>
    dom (cd_configurations (fst (fold (push_cquery (stateless f)) rs (push_cquery (stateless f) r st)))) =
      dom (cd_configurations (fst (push_cquery (stateless f) r st))) \<union> (\<Union>r \<in> set rs. conf_ids (cq_configurations r))"
    by (rule Cons.IH [OF le]) (rule sub)
  have own: "tbl (cf_id cf) = Some c"
    if "cf \<in> set (cq_configurations r)" "non_null_checksum (cf_checksum cf) = Some c" for cf c
    using Cons.prems(2) [of r] that by simp
  note one = push_cquery_decoded [where f = f, OF Cons.prems(1) assms(1) own]
  show ?case using ih one(1,3) by (simp add: map_filter_append Un_assoc)
qed (simp add: map_filter_simps)

lemma fold_accept_decoded:
  assumes "cd_configurations (fst st) = tbl"
  shows "mset (cd_targets (fst (fold (\<lambda>(t, i) st'. accept (stateless f) t (cd_configurations (fst st') i) st') ps st))) =
    mset (cd_targets (fst st)) + mset (List.map_filter (\<lambda>(t, i). named_target f (tbl i) t) ps)"
  using assms
proof (induction ps arbitrary: st)
  case (Cons p ps)
  obtain t i where p: "p = (t, i)" by (cases p)
  show ?case using Cons.prems Cons.IH [of "accept (stateless f) t (tbl i) st"]
    by (cases "named_target f (tbl i) t") (simp_all add: p accept_stateless map_filter_simps)
qed (simp add: map_filter_simps)

text \<open>
  A cquery stream decodes to the same targets however it is split into messages and wherever in it the
  configuration table arrives: each result is lowered and named by its inline checksum or by the
  table of the whole stream, also when the table comes after the result.
\<close>

theorem decode_cquery_late_table:
  assumes "table_ok tbl results"
  shows "mset (fst (decode_cquery (stateless f) results s)) =
    mset (List.map_filter (named_result f tbl) (concat (map cq_results results)))"
proof -
  define st where "st = fold (push_cquery (stateless f)) results (decoder_default, s)"
  have tbl_iff: "tbl i = Some c \<longleftrightarrow> (\<exists>r \<in> set results. \<exists>cf \<in> set (cq_configurations r). cf_id cf = i \<and>
      non_null_checksum (cf_checksum cf) = Some c)" for i c
    using assms unfolding table_ok_def by simp
  have tbl: "tbl 0 = None" "\<And>r cf c. r \<in> set results \<Longrightarrow> cf \<in> set (cq_configurations r) \<Longrightarrow>
      non_null_checksum (cf_checksum cf) = Some c \<Longrightarrow> tbl (cf_id cf) = Some c"
    using assms by (simp add: table_ok_def) (use tbl_iff in blast)
  have dom_tbl: "dom tbl = (\<Union>r \<in> set results. conf_ids (cq_configurations r))"
  proof -
    have "i \<in> dom tbl \<longleftrightarrow> i \<in> (\<Union>r \<in> set results. conf_ids (cq_configurations r))" for i
      unfolding dom_def conf_ids_def by (auto simp: tbl_iff)
    then show ?thesis by blast
  qed
  have "cd_configurations (fst (decoder_default, s)) \<subseteq>\<^sub>m tbl" by (simp add: decoder_default_def)
  from push_all_decoded [where f = f, OF tbl this]
  have all: "decoded f tbl (fst st) = mset (List.map_filter (named_result f tbl) (concat (map cq_results results)))"
    "cd_configurations (fst st) \<subseteq>\<^sub>m tbl" "dom (cd_configurations (fst st)) = dom tbl"
    by (simp_all add: st_def decoder_default_def decoded_def map_filter_simps dom_tbl)
  then have "cd_configurations (fst st) = tbl" by (metis map_le_antisym map_le_def)
  then show ?thesis
    using fold_accept_decoded [of "((fst st)\<lparr>cd_pending := []\<rparr>, snd st)" tbl f "cd_pending (fst st)"] all(1)
    by (simp add: decode_cquery_def st_def [symmetric] cquery_finish_def decoded_def Let_def case_prod_beta)
qed

definition sample_lib :: qtarget where
  "sample_lib = \<lparr>qt_type = Rule, qt_rule = Some (rule_default\<lparr>rule_name := ''//a:lib''\<rparr>), qt_source_file = None,
     qt_generated_file = None, qt_package_group = None, qt_environment_group = None, qt_unknown_fields = []\<rparr>"

definition sample_stream :: "cquery_result list" where
  "sample_stream =
     [\<lparr>cq_results = [\<lparr>ct_target = Some sample_lib, ct_configuration = None, ct_configuration_id = 1\<rparr>], cq_configurations = []\<rparr>,
      \<lparr>cq_results = [], cq_configurations = [\<lparr>cf_id = 1, cf_checksum = ''0af1''\<rparr>]\<rparr>]"

theorem decode_cquery_late_table_witness:
  "image_mset target_name (mset (fst (decode_cquery (stateless id) sample_stream ()))) = {#Some ''//a:lib|0af1''#}"
proof -
  have "table_ok [1 \<mapsto> ''0af1''] sample_stream"
    by (auto simp: table_ok_def sample_stream_def non_null_checksum_def NULL_CONFIGURATION_CHECKSUM_def)
  from decode_cquery_late_table [OF this, of id "()"] show ?thesis
    by (simp add: sample_stream_def named_result_def inline_checksum_def named_target_def lower_target_def
        sample_lib_def compact_target_def compact_rule_def configure_target_def target_name_def configured_key_def
        CONFIGURED_SEPARATOR_def map_filter_simps rule_default_def)
qed

end
