(* ===== verification/Module_Graph.thy ===== *)
theory Module_Graph
  imports Module_Edges Impact Query_Target
begin

section \<open>Changes of external modules (module_graph.rs)\<close>

text \<open>
  \<^verbatim>\<open>src/module_graph.rs\<close>: the modules of two graphs are compared, and targets that reach the repositories
  of a changed module are added to the impacted ones by a query. The JSON parser and the query that
  Bazel answers are parameters. The order in which hash sets are iterated does not matter, because
  what is collected from them is sorted.
\<close>

record module =
  m_name :: string
  m_version :: string

definition module_of :: "(string, json) btree \<Rightarrow> (string \<times> module) option" where
  "module_of obj =
     (case (get_str obj ''key'', get_str obj ''name'', get_str obj ''version'', get_str obj ''apparentName'') of
        (Some key, Some name, Some vers, Some _) \<Rightarrow>
          if name \<noteq> '''' then Some (key, \<lparr>m_name = name, m_version = vers\<rparr>) else None
      | _ \<Rightarrow> None)"

function walk_modules :: "json \<Rightarrow> (string, module) btree \<Rightarrow> (string, module) btree" where
  "walk_modules (JObj obj) modules =
     (let modules1 = (case module_of obj of None \<Rightarrow> modules | Some (key, md) \<Rightarrow> bt_insert key md modules)
      in case get_array obj ''dependencies'' of
           None \<Rightarrow> modules1
         | Some dependencies \<Rightarrow> fold walk_modules dependencies modules1)"
| "walk_modules JNull modules = modules"
| "walk_modules (JBool b) modules = modules"
| "walk_modules (JInt i) modules = modules"
| "walk_modules (JFloat f) modules = modules"
| "walk_modules (JStr s) modules = modules"
| "walk_modules (JArr xs) modules = modules"
  by pat_completeness auto
termination by (relation "measure (\<lambda>(j, modules). size j)") (auto dest: size_get_array)

definition parse_modules :: "json_parser \<Rightarrow> string \<Rightarrow> (string, module) btree" where
  "parse_modules from_str text =
     (case from_str (from_brace text) of None \<Rightarrow> [] | Some j \<Rightarrow> walk_modules j [])"

definition changed_module :: "(string, module) btree \<Rightarrow> (string, module) btree \<Rightarrow> string \<Rightarrow> string option" where
  "changed_module from to key =
     (case (bt_get from key, bt_get to key) of
        (Some left, Some right) \<Rightarrow> if m_version left = m_version right then None else Some (m_name right)
      | (None, Some md) \<Rightarrow> Some (m_name md)
      | (Some md, None) \<Rightarrow> Some (m_name md)
      | (None, None) \<Rightarrow> None)"

definition changed_modules :: "json_parser \<Rightarrow> string \<Rightarrow> string \<Rightarrow> string list" where
  "changed_modules from_str from_text to_text =
     (let from = parse_modules from_str from_text; to = parse_modules from_str to_text
      in if (from = []) \<noteq> (to = []) then []
         else bs_of_list (List.map_filter (changed_module from to) (map fst from @ map fst to)))"

definition canonical_is_base_for_module :: "string \<Rightarrow> string \<Rightarrow> bool" where
  "canonical_is_base_for_module canonical md =
     (case strip_prefix md canonical of
        None \<Rightarrow> False
      | Some [] \<Rightarrow> False
      | Some (separator # vers) \<Rightarrow>
          separator \<in> {CHR ''+'', CHR ''~''} \<and> CHR ''+'' \<notin> set vers \<and> CHR ''~'' \<notin> set vers)"

definition canonical_repo :: "label \<Rightarrow> string option" where
  "canonical_repo lbl =
     Option.bind (strip_prefix ''@@'' lbl) (\<lambda>rest. map_option fst (split_once_str ''//'' rest))"

definition rdeps_expression :: "string list \<Rightarrow> string" where
  "rdeps_expression repos = ''rdeps(//..., '' @ join '' + '' (map (\<lambda>repo. ''@@'' @ repo @ ''//...'') repos) @ '')''"

definition is_workspace_label :: "label \<Rightarrow> bool" where
  "is_workspace_label lbl \<longleftrightarrow> \<not> starts_with ''@@'' lbl \<and> \<not> starts_with ''//external:'' lbl"

definition module_repos :: "hash_file_data \<Rightarrow> hash_file_data \<Rightarrow> string list \<Rightarrow> string list" where
  "module_repos from to changed =
     bs_of_list (filter (\<lambda>repo. list_ex (canonical_is_base_for_module repo) changed)
       (List.map_filter canonical_repo (map fst (hashes from) @ map fst (hashes to))))"

definition impacted_with_module_query ::
  "json_parser \<Rightarrow> hash_file_data \<Rightarrow> hash_file_data \<Rightarrow> bool \<Rightarrow> (string \<Rightarrow> 'e + qtarget list) \<Rightarrow> model_error + label list" where
  "impacted_with_module_query from_str from to can_query query =
     (case impacted_targets (hashes from) (hashes to) None False of
        Inl e \<Rightarrow> Inl e
      | Inr labels \<Rightarrow>
          (let impacted = bs_of_list labels
           in if module_graph_json from = module_graph_json to then Inr impacted
              else
                (case (module_graph_json from, module_graph_json to) of
                   (Some from_graph, Some to_graph) \<Rightarrow>
                     (let changed = changed_modules from_str from_graph to_graph
                      in if changed = [] then Inr impacted
                         else if \<not> can_query then Inr (bs_of_list (map fst (hashes to)))
                         else
                           (let repos = module_repos from to changed
                            in if repos = [] then Inr impacted
                               else
                                 (case query (rdeps_expression repos) of
                                    Inr targets \<Rightarrow>
                                      Inr (bs_of_list (impacted @
                                        filter (\<lambda>lbl. \<not> starts_with ''@@'' lbl) (target_names targets)))
                                  | Inl err \<Rightarrow>
                                      (let workspace_targets = filter is_workspace_label (map fst (hashes to))
                                       in if workspace_targets = [] then Inr (bs_of_list (impacted @ map fst (hashes to)))
                                          else Inr (bs_of_list (impacted @ workspace_targets))))))
                 | _ \<Rightarrow> Inr impacted)))"

definition impacted_with_module_changes ::
  "json_parser \<Rightarrow> hash_file_data \<Rightarrow> hash_file_data \<Rightarrow> (string \<Rightarrow> 'e + qtarget list) option \<Rightarrow> model_error + label list" where
  "impacted_with_module_changes from_str from to bazel_query =
     impacted_with_module_query from_str from to (bazel_query \<noteq> None)
       (case bazel_query of None \<Rightarrow> (\<lambda>_. Inr []) | Some query \<Rightarrow> query)"

subsection \<open>The modules of a graph\<close>

text \<open>A node of the graph that describes a module, at any depth of \<^verbatim>\<open>dependencies\<close>.\<close>

inductive module_node :: "json \<Rightarrow> string \<Rightarrow> module \<Rightarrow> bool" where
  here: "module_of obj = Some (key, md) \<Longrightarrow> module_node (JObj obj) key md"
| below: "get_array obj ''dependencies'' = Some ds \<Longrightarrow> d \<in> set ds \<Longrightarrow> module_node d key md \<Longrightarrow>
    module_node (JObj obj) key md"

inductive_simps module_node_obj: "module_node (JObj obj) key md"

inductive_cases module_node_leaf [elim]:
  "module_node JNull key md" "module_node (JBool b) key md" "module_node (JInt i) key md"
  "module_node (JFloat f) key md" "module_node (JStr s) key md" "module_node (JArr xs) key md"

text \<open>Bazel describes a module the same way wherever it appears in the graph.\<close>

definition consistent :: "json \<Rightarrow> bool" where
  "consistent j \<longleftrightarrow> (\<forall>key md md'. module_node j key md \<longrightarrow> module_node j key md' \<longrightarrow> md = md')"

lemma fold_walk_modules:
  assumes "\<And>d m key md. d \<in> set ds \<Longrightarrow> bt_inv m \<Longrightarrow> bt_inv (walk_modules d m) \<and>
      (bt_get (walk_modules d m) key = Some md \<longrightarrow> module_node d key md \<or> bt_get m key = Some md) \<and>
      (bt_get (walk_modules d m) key = None \<longleftrightarrow> bt_get m key = None \<and> (\<forall>md. \<not> module_node d key md))"
  shows "bt_inv m \<Longrightarrow> bt_inv (fold walk_modules ds m) \<and>
      (bt_get (fold walk_modules ds m) key = Some md \<longrightarrow> (\<exists>d \<in> set ds. module_node d key md) \<or> bt_get m key = Some md) \<and>
      (bt_get (fold walk_modules ds m) key = None \<longleftrightarrow> bt_get m key = None \<and> (\<forall>d \<in> set ds. \<forall>md. \<not> module_node d key md))"
  using assms
proof (induction ds arbitrary: m)
  case (Cons d ds)
  have hd: "bt_inv (walk_modules d m) \<and>
      (bt_get (walk_modules d m) key = Some md \<longrightarrow> module_node d key md \<or> bt_get m key = Some md) \<and>
      (bt_get (walk_modules d m) key = None \<longleftrightarrow> bt_get m key = None \<and> (\<forall>md. \<not> module_node d key md))"
    using Cons.prems by simp
  have "bt_inv (fold walk_modules ds (walk_modules d m)) \<and>
      (bt_get (fold walk_modules ds (walk_modules d m)) key = Some md \<longrightarrow>
         (\<exists>d \<in> set ds. module_node d key md) \<or> bt_get (walk_modules d m) key = Some md) \<and>
      (bt_get (fold walk_modules ds (walk_modules d m)) key = None \<longleftrightarrow>
         bt_get (walk_modules d m) key = None \<and> (\<forall>d \<in> set ds. \<forall>md. \<not> module_node d key md))"
    by (rule Cons.IH) (use hd Cons.prems in auto)
  with hd show ?case by auto
qed simp

lemma walk_modules_nodes:
  "bt_inv m \<Longrightarrow> bt_inv (walk_modules j m) \<and>
   (bt_get (walk_modules j m) key = Some md \<longrightarrow> module_node j key md \<or> bt_get m key = Some md) \<and>
   (bt_get (walk_modules j m) key = None \<longleftrightarrow> bt_get m key = None \<and> (\<forall>md. \<not> module_node j key md))"
proof (induction j m arbitrary: key md rule: walk_modules.induct)
  case (1 obj m)
  define m1 where "m1 = (case module_of obj of None \<Rightarrow> m | Some (key, md) \<Rightarrow> bt_insert key md m)"
  have m1: "bt_inv m1" "bt_get m1 key = Some md \<longrightarrow> module_of obj = Some (key, md) \<or> bt_get m key = Some md"
    "bt_get m1 key = None \<longleftrightarrow> bt_get m key = None \<and> (\<forall>md. module_of obj \<noteq> Some (key, md))"
    using 1(2) by (auto simp: m1_def bt_inv_insert bt_get_insert split: option.splits)
  show ?case
  proof (cases "get_array obj ''dependencies''")
    case None
    then have "walk_modules (JObj obj) m = m1" by (simp add: m1_def)
    with m1 None show ?thesis by (auto simp: module_node_obj)
  next
    case (Some ds)
    then have eq: "walk_modules (JObj obj) m = fold walk_modules ds m1" by (simp add: m1_def)
    have "bt_inv (fold walk_modules ds m1) \<and>
      (bt_get (fold walk_modules ds m1) key = Some md \<longrightarrow> (\<exists>d \<in> set ds. module_node d key md) \<or> bt_get m1 key = Some md) \<and>
      (bt_get (fold walk_modules ds m1) key = None \<longleftrightarrow> bt_get m1 key = None \<and> (\<forall>d \<in> set ds. \<forall>md. \<not> module_node d key md))"
      using fold_walk_modules [OF 1(1) [OF m1_def Some]] m1(1) by blast
    then show ?thesis unfolding eq using m1 Some by (auto simp: module_node_obj)
  qed
qed auto

lemma parse_modules_nodes:
  assumes "from_str (from_brace text) = Some j" "consistent j"
  shows "bt_get (parse_modules from_str text) key = Some md \<longleftrightarrow> module_node j key md"
  using walk_modules_nodes [of "[]" j key] assms unfolding parse_modules_def consistent_def
  by (cases "bt_get (walk_modules j []) key") auto

lemma in_set_map_filter: "y \<in> set (List.map_filter g xs) \<longleftrightarrow> (\<exists>x \<in> set xs. g x = Some y)"
  by (induction xs) (auto simp: map_filter_simps split: option.splits)

lemma changed_modules_same [simp]: "changed_modules from_str text text = []"
proof -
  have "List.map_filter (changed_module m m) keys = []" for m keys
    by (induction keys) (auto simp: map_filter_simps changed_module_def split: option.splits)
  then show ?thesis by (simp add: changed_modules_def Let_def bs_of_list_def)
qed

text \<open>
  Comparing two module graphs reports exactly the names of the modules that one of them lacks or has at
  another version, wherever in the graph they appear.
\<close>

theorem changed_modules_exact:
  assumes "from_str (from_brace ft) = Some j1" "from_str (from_brace tt) = Some j2"
    and "consistent j1" "consistent j2" "module_node j1 k1 m1" "module_node j2 k2 m2"
  shows "nm \<in> set (changed_modules from_str ft tt) \<longleftrightarrow>
    (\<exists>key md. m_name md = nm \<and>
       (module_node j2 key md \<and> (\<nexists>md1. module_node j1 key md1 \<and> m_version md1 = m_version md) \<or>
        module_node j1 key md \<and> (\<nexists>md2. module_node j2 key md2)))"
proof -
  define mf where "mf = parse_modules from_str ft"
  define mt where "mt = parse_modules from_str tt"
  have f: "bt_get mf key = Some md \<longleftrightarrow> module_node j1 key md" for key md
    unfolding mf_def by (rule parse_modules_nodes [of from_str ft, OF assms(1,3)])
  have t: "bt_get mt key = Some md \<longleftrightarrow> module_node j2 key md" for key md
    unfolding mt_def by (rule parse_modules_nodes [of from_str tt, OF assms(2,4)])
  have "mf \<noteq> []" "mt \<noteq> []" using assms(5,6) f [of k1 m1] t [of k2 m2] by auto
  then have "nm \<in> set (changed_modules from_str ft tt) \<longleftrightarrow>
      nm \<in> set (List.map_filter (changed_module mf mt) (map fst mf @ map fst mt))"
    by (simp add: changed_modules_def mf_def [symmetric] mt_def [symmetric] Let_def)
  also have "\<dots> \<longleftrightarrow> (\<exists>key. changed_module mf mt key = Some nm)"
  proof -
    have "key \<in> set (map fst mf @ map fst mt)" if "changed_module mf mt key = Some nm" for key
      using that map_of_eq_None_iff [of mf key] map_of_eq_None_iff [of mt key]
      by (auto simp: changed_module_def split: option.splits)
    then show ?thesis unfolding in_set_map_filter by blast
  qed
  also have "\<dots> \<longleftrightarrow> (\<exists>key md. m_name md = nm \<and>
       (bt_get mt key = Some md \<and> (\<nexists>md1. bt_get mf key = Some md1 \<and> m_version md1 = m_version md) \<or>
        bt_get mf key = Some md \<and> (\<nexists>md2. bt_get mt key = Some md2)))"
  proof -
    have "changed_module mf mt key = Some nm \<longleftrightarrow> (\<exists>md. m_name md = nm \<and>
        (bt_get mt key = Some md \<and> (\<nexists>md1. bt_get mf key = Some md1 \<and> m_version md1 = m_version md) \<or>
         bt_get mf key = Some md \<and> (\<nexists>md2. bt_get mt key = Some md2)))" for key
      by (cases "bt_get mf key"; cases "bt_get mt key") (auto simp: changed_module_def)
    then show ?thesis by simp
  qed
  finally show ?thesis unfolding f t .
qed

subsection \<open>Adding the targets of changed modules\<close>

text \<open>
  Taking changed modules into account never fails and never loses a target that the hashes show as
  impacted. When Bazel cannot be asked every target counts as impacted; when the query fails, every
  target of the workspace does; when it answers, exactly the main-repository targets it names are
  added.
\<close>

theorem module_changes_never_narrow:
  assumes "bt_inv (hashes to)"
  shows "\<exists>S. impacted_with_module_query from_str from to can_query query = Inr S \<and>
    moved_labels (hashes from) (hashes to) False \<subseteq> set S \<and>
    (\<forall>fg tg. module_graph_json from = Some fg \<longrightarrow> module_graph_json to = Some tg \<longrightarrow>
       changed_modules from_str fg tg \<noteq> [] \<longrightarrow>
       (if \<not> can_query then set S = fst ` set (hashes to)
        else module_repos from to (changed_modules from_str fg tg) \<noteq> [] \<longrightarrow>
          (case query (rdeps_expression (module_repos from to (changed_modules from_str fg tg))) of
             Inl e \<Rightarrow> {lbl \<in> fst ` set (hashes to). is_workspace_label lbl} \<subseteq> set S
           | Inr ts \<Rightarrow> set S = moved_labels (hashes from) (hashes to) False \<union>
               {lbl \<in> set (target_names ts). \<not> starts_with ''@@'' lbl})))"
proof -
  have sub: "moved_labels (hashes from) (hashes to) False \<subseteq> fst ` set (hashes to)"
    by (auto simp: moved_labels_def dest!: map_of_SomeD intro: rev_image_eqI)
  obtain labels where l: "impacted_targets (hashes from) (hashes to) None False = Inr labels"
    "set labels = moved_labels (hashes from) (hashes to) False"
    using impacted_targets_closed [OF assms, of "hashes from" None False]
    using finite_subset [OF sub] by (simp add: untyped_label_def accepted_label_def image_image)
  show ?thesis
    using l sub
    by (simp add: impacted_with_module_query_def Let_def split: option.splits sum.splits) blast
qed

subsection \<open>Examples\<close>

definition sample_module :: "string \<Rightarrow> string \<Rightarrow> string \<Rightarrow> json list \<Rightarrow> json" where
  "sample_module key name vers ds =
     JObj [(''apparentName'', JStr name), (''dependencies'', JArr ds), (''key'', JStr key), (''name'', JStr name),
       (''version'', JStr vers)]"

text \<open>A parser that knows the two texts \<open>{1\<close> and \<open>{2\<close>.\<close>

definition sample_parser :: json_parser where
  "sample_parser text =
     (if text = ''{1'' then Some (sample_module ''<root>'' ''root'' '''' [sample_module ''go@1'' ''go'' ''1'' []])
      else if text = ''{2'' then Some (sample_module ''<root>'' ''root'' '''' [sample_module ''go@2'' ''go'' ''2'' []])
      else None)"

lemma module_node_sample:
  "module_node (sample_module k n v ds) key md \<longleftrightarrow>
     n \<noteq> '''' \<and> key = k \<and> md = \<lparr>m_name = n, m_version = v\<rparr> \<or> (\<exists>d \<in> set ds. module_node d key md)"
  unfolding sample_module_def module_node_obj by (auto simp: module_of_def get_str_def get_array_def)

theorem changed_modules_exact_witness:
  "''go'' \<in> set (changed_modules sample_parser ''noise {1'' ''{2'')"
proof -
  let ?j = "\<lambda>k v. sample_module ''<root>'' ''root'' '''' [sample_module k ''go'' v []]"
  have j: "sample_parser (from_brace ''noise {1'') = Some (?j ''go@1'' ''1'')"
    "sample_parser (from_brace ''{2'') = Some (?j ''go@2'' ''2'')"
    by (simp_all add: sample_parser_def from_brace_def)
  have c: "consistent (?j ''go@1'' ''1'')" "consistent (?j ''go@2'' ''2'')"
    by (auto simp: consistent_def module_node_sample)
  have n: "module_node (?j ''go@1'' ''1'') ''<root>'' \<lparr>m_name = ''root'', m_version = ''''\<rparr>"
    "module_node (?j ''go@2'' ''2'') ''<root>'' \<lparr>m_name = ''root'', m_version = ''''\<rparr>"
    by (simp_all add: module_node_sample)
  show ?thesis
    unfolding changed_modules_exact [of sample_parser, OF j c n]
    by (rule exI [of _ "''go@2''"], rule exI [of _ "\<lparr>m_name = ''go'', m_version = ''2''\<rparr>"]) (simp add: module_node_sample)
qed

theorem module_changes_never_narrow_witness:
  "\<exists>S. impacted_with_module_query (\<lambda>_. None) hash_file_default (hash_file_default\<lparr>hashes := sample_to\<rparr>) True (\<lambda>_. Inl ()) =
     Inr S \<and> {''//a:lib'', ''//b:bin'', ''//c:new''} \<subseteq> set S"
proof -
  have "bt_inv (hashes (hash_file_default\<lparr>hashes := sample_to\<rparr>))" by simp
  from module_changes_never_narrow [OF this, of "\<lambda>_. None" hash_file_default True "\<lambda>_. Inl ()"]
  obtain S where "impacted_with_module_query (\<lambda>_. None) hash_file_default (hash_file_default\<lparr>hashes := sample_to\<rparr>) True
      (\<lambda>_. Inl ()) = Inr S" "moved_labels [] sample_to False \<subseteq> set S"
    by (auto simp: hash_file_default_def)
  moreover have "{''//a:lib'', ''//b:bin'', ''//c:new''} \<subseteq> moved_labels [] sample_to False"
    by (simp add: moved_labels_def sample_to_def kept_label_def)
  ultimately show ?thesis by blast
qed

end
