(* ===== verification/Memory_Cache.thy ===== *)
theory Memory_Cache
  imports Hash_File "HOL-Library.Multiset"
begin

section \<open>The cache tiers of the server (server.rs)\<close>

text \<open>
  The in-memory tier \<^verbatim>\<open>MemoryCache\<close> and the pruning of the on-disk tier, both of \<^verbatim>\<open>src/server.rs\<close>. Sizes are
  64-bit unsigned integers; the arithmetic of the memory tier wraps, and its theorems show that it
  never does within the budget.
\<close>

definition wrap64 :: "nat \<Rightarrow> nat" where
  "wrap64 n = n mod 2 ^ 64"

definition wrapping_sub64 :: "nat \<Rightarrow> nat \<Rightarrow> nat" where
  "wrapping_sub64 a b = wrap64 (a + 2 ^ 64 - b)"

record 'd memory_entry =
  me_key :: string
  me_bytes :: nat
  me_data :: 'd

record 'd memory_cache =
  mc_budget :: nat
  mc_used :: nat
  mc_entries :: "'d memory_entry list"

definition mc_new :: "nat \<Rightarrow> 'd memory_cache" where
  "mc_new budget = \<lparr>mc_budget = budget, mc_used = 0, mc_entries = []\<rparr>"

text \<open>\<^verbatim>\<open>Iterator::position\<close> and \<^verbatim>\<open>VecDeque::remove\<close>.\<close>

fun position :: "('a \<Rightarrow> bool) \<Rightarrow> 'a list \<Rightarrow> nat option" where
  "position P [] = None"
| "position P (x # xs) = (if P x then Some 0 else map_option Suc (position P xs))"

definition remove_at :: "nat \<Rightarrow> 'a list \<Rightarrow> ('a \<times> 'a list) option" where
  "remove_at i xs = (if i < length xs then Some (xs ! i, take i xs @ drop (Suc i) xs) else None)"

definition mc_get :: "string \<Rightarrow> 'd memory_cache \<Rightarrow> 'd option \<times> 'd memory_cache" where
  "mc_get key c =
     (case position (\<lambda>e. me_key e = key) (mc_entries c) of
        None \<Rightarrow> (None, c)
      | Some index \<Rightarrow>
          (case remove_at index (mc_entries c) of
             None \<Rightarrow> (None, c)
           | Some (e, rest) \<Rightarrow> (Some (me_data e), c\<lparr>mc_entries := rest @ [e]\<rparr>)))"

fun mc_evict :: "nat \<Rightarrow> nat \<Rightarrow> nat \<Rightarrow> 'd memory_entry list \<Rightarrow> nat \<times> 'd memory_entry list" where
  "mc_evict budget bytes used [] = (used, [])"
| "mc_evict budget bytes used (e # es) =
     (if wrap64 (used + bytes) > budget then mc_evict budget bytes (wrapping_sub64 used (me_bytes e)) es
      else (used, e # es))"

definition mc_forget :: "string \<Rightarrow> 'd memory_cache \<Rightarrow> 'd memory_cache" where
  "mc_forget key c =
     (case position (\<lambda>e. me_key e = key) (mc_entries c) of
        None \<Rightarrow> c
      | Some index \<Rightarrow>
          (case remove_at index (mc_entries c) of
             None \<Rightarrow> c
           | Some (previous, rest) \<Rightarrow>
               c\<lparr>mc_used := wrapping_sub64 (mc_used c) (me_bytes previous), mc_entries := rest\<rparr>))"

definition mc_insert :: "string \<Rightarrow> nat \<Rightarrow> 'd \<Rightarrow> 'd memory_cache \<Rightarrow> 'd memory_cache" where
  "mc_insert key bytes data c =
     (if bytes > mc_budget c then c
      else
        (let c1 = mc_forget key c;
             (used, kept) = mc_evict (mc_budget c1) bytes (mc_used c1) (mc_entries c1)
         in c1\<lparr>mc_used := wrap64 (used + bytes),
               mc_entries := kept @ [\<lparr>me_key = key, me_bytes = bytes, me_data = data\<rparr>]\<rparr>))"

definition mc_len :: "'d memory_cache \<Rightarrow> nat" where
  "mc_len c = length (mc_entries c)"

subsection \<open>The invariant of the memory tier\<close>

definition total_bytes :: "'d memory_entry list \<Rightarrow> nat" where
  "total_bytes es = sum_list (map me_bytes es)"

definition mc_inv :: "'d memory_cache \<Rightarrow> bool" where
  "mc_inv c \<longleftrightarrow>
     mc_used c = total_bytes (mc_entries c) \<and> mc_used c \<le> mc_budget c \<and> mc_budget c < 2 ^ 63 \<and>
     distinct (map me_key (mc_entries c))"

lemma total_bytes_simps [simp]:
  "total_bytes [] = 0" "total_bytes (e # es) = me_bytes e + total_bytes es"
  "total_bytes (es @ fs) = total_bytes es + total_bytes fs"
  by (simp_all add: total_bytes_def)

lemma total_bytes_filter: "total_bytes (filter P es) \<le> total_bytes es"
  by (induction es) auto

lemma wrap64_id [simp]: "n < 2 ^ 64 \<Longrightarrow> wrap64 n = n"
  by (simp add: wrap64_def)

lemma wrapping_sub64_id [simp]: "b \<le> a \<Longrightarrow> a < 2 ^ 64 \<Longrightarrow> wrapping_sub64 a b = a - b"
proof -
  assume "b \<le> a" "a < 2 ^ 64"
  then have eq: "a + 2 ^ 64 - b = (a - b) + 2 ^ 64" by simp
  have "a - b < 2 ^ 64" using \<open>a < 2 ^ 64\<close> by simp
  then show ?thesis unfolding wrapping_sub64_def wrap64_def eq mod_add_self2 by (rule mod_less)
qed

lemma position_Some:
  "position P xs = Some i \<Longrightarrow> i < length xs \<and> P (xs ! i) \<and> (\<forall>j < i. \<not> P (xs ! j))"
proof (induction xs arbitrary: i)
  case (Cons x xs)
  show ?case
  proof (cases "P x")
    case False
    with Cons.prems obtain k where "position P xs = Some k" "i = Suc k" by auto
    with Cons.IH [of k] False show ?thesis by (auto simp: less_Suc_eq_0_disj)
  qed (use Cons.prems in simp)
qed simp

lemma position_None: "position P xs = None \<longleftrightarrow> (\<forall>x \<in> set xs. \<not> P x)"
  by (induction xs) auto

lemma position_split:
  assumes "position P xs = Some i"
  obtains before x after where "xs = before @ x # after" "length before = i" "P x" "\<forall>y \<in> set before. \<not> P y"
    "remove_at i xs = Some (x, before @ after)"
proof
  note i = position_Some [OF assms]
  show "xs = take i xs @ xs ! i # drop (Suc i) xs" using i by (simp add: id_take_nth_drop [symmetric])
  show "length (take i xs) = i" "P (xs ! i)" using i by simp_all
  show "\<forall>y \<in> set (take i xs). \<not> P y" using i by (auto simp: in_set_conv_nth)
  show "remove_at i xs = Some (xs ! i, take i xs @ drop (Suc i) xs)" using i by (simp add: remove_at_def)
qed

text \<open>With distinct keys the entry of a key is the only one, and forgetting it is a filter.\<close>

lemma mc_forget_filter:
  assumes "mc_inv c"
  shows "mc_forget key c = c\<lparr>mc_used := total_bytes (filter (\<lambda>e. me_key e \<noteq> key) (mc_entries c)),
    mc_entries := filter (\<lambda>e. me_key e \<noteq> key) (mc_entries c)\<rparr>"
proof (cases "position (\<lambda>e. me_key e = key) (mc_entries c)")
  case None
  then have "filter (\<lambda>e. me_key e \<noteq> key) (mc_entries c) = mc_entries c"
    by (auto simp: position_None intro: filter_True)
  then show ?thesis using None assms by (simp add: mc_forget_def mc_inv_def)
next
  case (Some i)
  then obtain b e a where s: "mc_entries c = b @ e # a" "me_key e = key" "\<forall>y \<in> set b. me_key y \<noteq> key"
    "remove_at i (mc_entries c) = Some (e, b @ a)" by (rule position_split) auto
  then have "filter (\<lambda>e. me_key e \<noteq> key) (mc_entries c) = b @ a"
    using assms by (auto simp: mc_inv_def filter_id_conv image_iff)
  moreover have "wrapping_sub64 (mc_used c) (me_bytes e) = total_bytes (b @ a)"
    using assms s(1) by (subst wrapping_sub64_id) (auto simp: mc_inv_def)
  ultimately show ?thesis using Some s(4) by (simp add: mc_forget_def)
qed

lemma mc_evict_drop:
  assumes "bytes \<le> budget" "budget < 2 ^ 63" "total_bytes es \<le> budget"
  shows "\<exists>k. mc_evict budget bytes (total_bytes es) es = (total_bytes (drop k es), drop k es) \<and>
    total_bytes (drop k es) + bytes \<le> budget \<and> (\<forall>j < k. budget < total_bytes (drop j es) + bytes)"
  using assms
proof (induction es)
  case Nil
  then show ?case by (intro exI [of _ 0]) simp
next
  case (Cons e es)
  have nowrap: "wrap64 (total_bytes (e # es) + bytes) = total_bytes (e # es) + bytes"
    using Cons.prems by (intro wrap64_id) simp
  show ?case
  proof (cases "total_bytes (e # es) + bytes > budget")
    case True
    have "wrapping_sub64 (total_bytes (e # es)) (me_bytes e) = total_bytes es"
      using Cons.prems by (subst wrapping_sub64_id) simp_all
    with True nowrap have step: "mc_evict budget bytes (total_bytes (e # es)) (e # es) = mc_evict budget bytes (total_bytes es) es"
      by simp
    from Cons obtain k where k: "mc_evict budget bytes (total_bytes es) es = (total_bytes (drop k es), drop k es)"
      "total_bytes (drop k es) + bytes \<le> budget" "\<forall>j < k. budget < total_bytes (drop j es) + bytes" by auto
    show ?thesis
      by (intro exI [of _ "Suc k"]) (use step k True in \<open>auto simp: less_Suc_eq_0_disj\<close>)
  next
    case False
    with nowrap show ?thesis by (intro exI [of _ 0]) simp
  qed
qed

lemma mc_insert_shape:
  fixes c :: "'d memory_cache" and key :: string and data :: 'd
  assumes inv: "mc_inv c" and bytes: "bytes \<le> mc_budget c"
  defines "others \<equiv> filter (\<lambda>e. me_key e \<noteq> key) (mc_entries c)"
  shows "\<exists>k. mc_insert key bytes data c =
      c\<lparr>mc_used := total_bytes (drop k others) + bytes,
        mc_entries := drop k others @ [\<lparr>me_key = key, me_bytes = bytes, me_data = data\<rparr>]\<rparr> \<and>
    total_bytes (drop k others) + bytes \<le> mc_budget c \<and>
    (\<forall>j < k. mc_budget c < total_bytes (drop j others) + bytes)"
proof -
  have "total_bytes others \<le> total_bytes (mc_entries c)"
    unfolding others_def by (rule total_bytes_filter)
  then have le: "total_bytes others \<le> mc_budget c" using inv by (simp add: mc_inv_def)
  have b63: "mc_budget c < 2 ^ 63" using inv by (simp add: mc_inv_def)
  from mc_evict_drop [OF bytes b63 le] obtain k where
    k: "mc_evict (mc_budget c) bytes (total_bytes others) others = (total_bytes (drop k others), drop k others)"
    "total_bytes (drop k others) + bytes \<le> mc_budget c" "\<forall>j < k. mc_budget c < total_bytes (drop j others) + bytes" by blast
  moreover have "wrap64 (total_bytes (drop k others) + bytes) = total_bytes (drop k others) + bytes"
    using k(2) b63 by (intro wrap64_id) simp
  ultimately show ?thesis
    using bytes by (intro exI [of _ k]) (simp add: mc_insert_def mc_forget_filter [OF inv] others_def [symmetric])
qed

datatype 'd mc_op = Get string | Insert string nat 'd

definition mc_step :: "'d mc_op \<Rightarrow> 'd memory_cache \<Rightarrow> 'd memory_cache" where
  "mc_step op c = (case op of Get key \<Rightarrow> snd (mc_get key c) | Insert key bytes data \<Rightarrow> mc_insert key bytes data c)"

lemma mc_inv_insert: "mc_inv c \<Longrightarrow> mc_inv (mc_insert key bytes data c)"
proof (cases "bytes \<le> mc_budget c")
  case True
  assume inv: "mc_inv c"
  let ?o = "filter (\<lambda>e. me_key e \<noteq> key) (mc_entries c)"
  from mc_insert_shape [OF inv True, of key data] obtain k where
    k: "mc_insert key bytes data c =
      c\<lparr>mc_used := total_bytes (drop k ?o) + bytes,
        mc_entries := drop k ?o @ [\<lparr>me_key = key, me_bytes = bytes, me_data = data\<rparr>]\<rparr>"
    "total_bytes (drop k ?o) + bytes \<le> mc_budget c" by blast
  have "distinct (map me_key ?o)" using inv by (simp add: mc_inv_def distinct_map_filter)
  then have "distinct (map me_key (drop k ?o))" by (simp add: drop_map [symmetric])
  moreover have "key \<notin> set (map me_key (drop k ?o))" by (auto dest: in_set_dropD)
  ultimately show ?thesis using k inv by (simp add: mc_inv_def)
qed (simp add: mc_insert_def)

lemma mc_inv_get: "mc_inv c \<Longrightarrow> mc_inv (snd (mc_get key c))"
proof (cases "position (\<lambda>e. me_key e = key) (mc_entries c)")
  case (Some i)
  assume inv: "mc_inv c"
  from Some obtain b e a where s: "mc_entries c = b @ e # a" "remove_at i (mc_entries c) = Some (e, b @ a)"
    by (rule position_split) auto
  have "snd (mc_get key c) = c\<lparr>mc_entries := b @ a @ [e]\<rparr>" using Some s(2) by (simp add: mc_get_def)
  then show ?thesis using inv s(1) by (auto simp: mc_inv_def)
qed (simp add: mc_get_def)

text \<open>
  C39: whatever sequence of lookups and insertions the server makes, the memory tier accounts for exactly the
  bytes it holds, stays within its budget, holds each key once, and its 64-bit counters never wrap.
\<close>

theorem memory_cache_within_budget:
  assumes "budget < 2 ^ 63"
  shows "mc_inv (fold mc_step ops (mc_new budget)) \<and> mc_budget (fold mc_step ops (mc_new budget)) = budget"
proof -
  have "mc_inv (fold mc_step ops c) \<and> mc_budget (fold mc_step ops c) = mc_budget c" if "mc_inv c" for c :: "'a memory_cache"
    using that
  proof (induction ops arbitrary: c)
    case (Cons op ops)
    have "mc_inv (mc_step op c)" using Cons.prems by (cases op) (simp_all add: mc_step_def mc_inv_insert mc_inv_get)
    moreover have "mc_budget (mc_step op c) = mc_budget c"
      by (cases op) (auto simp: mc_step_def mc_get_def mc_insert_def mc_forget_def Let_def split: option.splits prod.splits)
    ultimately show ?case using Cons.IH [of "mc_step op c"] by simp
  qed simp
  from this [of "mc_new budget"] assms show ?thesis by (simp add: mc_new_def mc_inv_def)
qed

lemma mc_get_found:
  "mc_inv c \<Longrightarrow> e \<in> set (mc_entries c) \<Longrightarrow> fst (mc_get (me_key e) c) = Some (me_data e)"
proof (cases "position (\<lambda>x. me_key x = me_key e) (mc_entries c)")
  case None
  assume "e \<in> set (mc_entries c)"
  with None show ?thesis by (auto simp: position_None)
next
  case (Some i)
  assume inv: "mc_inv c" and e: "e \<in> set (mc_entries c)"
  from Some obtain b x a where s: "mc_entries c = b @ x # a" "me_key x = me_key e"
    "remove_at i (mc_entries c) = Some (x, b @ a)" by (rule position_split) auto
  have "x = e" using inv e s(1,2) by (auto simp: mc_inv_def distinct_map dest: inj_onD)
  then show ?thesis using Some s(3) by (simp add: mc_get_def)
qed

text \<open>
  An inserted entry that fits the budget is found again, and makes room by giving up exactly the least
  recently used entries, no more of them than needed.
\<close>

theorem memory_cache_lru:
  assumes "mc_inv c" "bytes \<le> mc_budget c"
  shows "fst (mc_get key (mc_insert key bytes data c)) = Some data \<and>
    (\<exists>k. butlast (mc_entries (mc_insert key bytes data c)) = drop k (filter (\<lambda>e. me_key e \<noteq> key) (mc_entries c)) \<and>
       (\<forall>j < k. mc_budget c < total_bytes (drop j (filter (\<lambda>e. me_key e \<noteq> key) (mc_entries c))) + bytes))"
proof -
  from mc_insert_shape [OF assms, of key data] obtain k where
    k: "mc_insert key bytes data c = c\<lparr>mc_used := total_bytes (drop k (filter (\<lambda>e. me_key e \<noteq> key) (mc_entries c))) + bytes,
        mc_entries := drop k (filter (\<lambda>e. me_key e \<noteq> key) (mc_entries c)) @ [\<lparr>me_key = key, me_bytes = bytes, me_data = data\<rparr>]\<rparr>"
    "\<forall>j < k. mc_budget c < total_bytes (drop j (filter (\<lambda>e. me_key e \<noteq> key) (mc_entries c))) + bytes" by blast
  have "\<lparr>me_key = key, me_bytes = bytes, me_data = data\<rparr> \<in> set (mc_entries (mc_insert key bytes data c))"
    by (simp add: k(1))
  from mc_get_found [OF mc_inv_insert [OF assms(1)] this]
  have "fst (mc_get key (mc_insert key bytes data c)) = Some data" by simp
  moreover have "butlast (mc_entries (mc_insert key bytes data c)) = drop k (filter (\<lambda>e. me_key e \<noteq> key) (mc_entries c))"
    by (simp add: k(1))
  ultimately show ?thesis using k(2) by blast
qed

subsection \<open>Pruning the disk tier\<close>

text \<open>
  A directory is the list of its files as \<^verbatim>\<open>read_dir\<close> lists them, with the size and modification time
  that can be read. Removing a file may fail, which the code ignores.
\<close>

record dir_file =
  df_name :: string
  df_metadata :: "(nat \<times> nat option) option"

record cache_entry =
  ce_path :: string
  ce_size :: nat
  ce_modified :: nat

definition has_json_extension :: "string \<Rightarrow> bool" where
  "has_json_extension name =
     (case rsplit_once CHR ''.'' name of Some (stem, ext) \<Rightarrow> stem \<noteq> '''' \<and> ext = ''json'' | None \<Rightarrow> False)"

definition cache_entry_of :: "dir_file \<Rightarrow> cache_entry option" where
  "cache_entry_of f =
     (if \<not> has_json_extension (df_name f) then None
      else map_option (\<lambda>(size, modified).
        \<lparr>ce_path = df_name f, ce_size = size, ce_modified = (case modified of None \<Rightarrow> 0 | Some t \<Rightarrow> t)\<rparr>) (df_metadata f))"

definition cache_entries :: "dir_file list \<Rightarrow> cache_entry list" where
  "cache_entries files = List.map_filter cache_entry_of files"

definition remove_file :: "(string \<Rightarrow> bool) \<Rightarrow> string \<Rightarrow> dir_file list \<Rightarrow> dir_file list" where
  "remove_file locked path files = (if locked path then files else filter (\<lambda>f. df_name f \<noteq> path) files)"

record prune_limits =
  cache_max_age :: "nat option"
  cache_max_entries :: "nat option"
  cache_max_size :: "nat option"

definition by_modified :: "cache_entry list \<Rightarrow> cache_entry list" where
  "by_modified es = sort_key ce_modified es"

fun prune_count :: "(string \<Rightarrow> bool) \<Rightarrow> nat \<Rightarrow> cache_entry list \<Rightarrow> dir_file list \<Rightarrow> cache_entry list \<times> dir_file list" where
  "prune_count locked max_entries [] files = ([], files)"
| "prune_count locked max_entries (e # es) files =
     (if length (e # es) > max_entries then prune_count locked max_entries es (remove_file locked (ce_path e) files)
      else (e # es, files))"

fun prune_size :: "(string \<Rightarrow> bool) \<Rightarrow> nat \<Rightarrow> nat \<Rightarrow> cache_entry list \<Rightarrow> dir_file list \<Rightarrow> cache_entry list \<times> dir_file list" where
  "prune_size locked max_size tot [] files = ([], files)"
| "prune_size locked max_size tot (e # es) files =
     (if tot > max_size then prune_size locked max_size (tot - ce_size e) es (remove_file locked (ce_path e) files)
      else (e # es, files))"

definition prune_age :: "(string \<Rightarrow> bool) \<Rightarrow> nat \<Rightarrow> nat \<Rightarrow> cache_entry list \<Rightarrow> dir_file list \<Rightarrow> dir_file list" where
  "prune_age locked now max_age es files =
     fold (\<lambda>e fs. if now - ce_modified e > max_age then remove_file locked (ce_path e) fs else fs) es files"

definition prune_cache :: "(string \<Rightarrow> bool) \<Rightarrow> nat \<Rightarrow> prune_limits \<Rightarrow> dir_file list \<Rightarrow> dir_file list" where
  "prune_cache locked now limits files =
     (let es0 = by_modified (cache_entries files);
          (es1, files1) =
            (case cache_max_age limits of
               None \<Rightarrow> (es0, files)
             | Some max_age \<Rightarrow>
                 (let fs = prune_age locked now max_age es0 files in (by_modified (cache_entries fs), fs)));
          (es2, files2) =
            (case cache_max_entries limits of None \<Rightarrow> (es1, files1) | Some n \<Rightarrow> prune_count locked n es1 files1);
          (es3, files3) =
            (case cache_max_size limits of
               None \<Rightarrow> (es2, files2)
             | Some m \<Rightarrow> prune_size locked m (wrap64 (sum_list (map ce_size es2))) es2 files2)
      in files3)"

definition total_size :: "cache_entry list \<Rightarrow> nat" where
  "total_size es = sum_list (map ce_size es)"

text \<open>The list of entries the loops work on is what the directory holds, oldest first.\<close>

definition listed :: "cache_entry list \<Rightarrow> dir_file list \<Rightarrow> bool" where
  "listed es files \<longleftrightarrow> by_modified (cache_entries files) = es \<and> distinct (map ce_path es)"

lemma cache_entries_remove:
  "cache_entries (filter (\<lambda>f. df_name f \<noteq> p) files) = filter (\<lambda>e. ce_path e \<noteq> p) (cache_entries files)"
  by (induction files) (auto simp: cache_entries_def map_filter_simps cache_entry_of_def split: option.splits)

lemma listed_remove:
  assumes "listed (e # es) files"
  shows "listed es (filter (\<lambda>f. df_name f \<noteq> ce_path e) files)"
proof -
  have es: "by_modified (cache_entries files) = e # es" and d: "distinct (map ce_path (e # es))"
    using assms by (simp_all add: listed_def)
  have "by_modified (cache_entries (filter (\<lambda>f. df_name f \<noteq> ce_path e) files)) =
      filter (\<lambda>x. ce_path x \<noteq> ce_path e) (by_modified (cache_entries files))"
    by (simp add: cache_entries_remove by_modified_def filter_sort)
  also have "\<dots> = es" unfolding es using d by (auto simp: filter_id_conv image_iff)
  finally show ?thesis using d by (simp add: listed_def)
qed

lemma prune_count_listed:
  "listed es files \<Longrightarrow>
   (\<exists>k. fst (prune_count (\<lambda>_. False) n es files) = drop k es) \<and> length (fst (prune_count (\<lambda>_. False) n es files)) \<le> n \<and>
   listed (fst (prune_count (\<lambda>_. False) n es files)) (snd (prune_count (\<lambda>_. False) n es files))"
proof (induction "\<lambda>_ :: string. False" n es files rule: prune_count.induct)
  case (2 n e es files)
  show ?case
  proof (cases "length (e # es) > n")
    case True
    have "listed es (remove_file (\<lambda>_. False) (ce_path e) files)"
      using listed_remove [OF 2(2)] by (simp add: remove_file_def)
    from 2(1) [OF True this] True show ?thesis by (auto intro: exI [of _ "Suc k" for k])
  next
    case False
    then show ?thesis using 2(2) by (auto intro: exI [of _ 0])
  qed
qed auto

lemma prune_size_listed:
  "listed es files \<Longrightarrow> tot = total_size es \<Longrightarrow>
   (\<exists>k. fst (prune_size (\<lambda>_. False) m tot es files) = drop k es) \<and>
   total_size (fst (prune_size (\<lambda>_. False) m tot es files)) \<le> m \<and>
   listed (fst (prune_size (\<lambda>_. False) m tot es files)) (snd (prune_size (\<lambda>_. False) m tot es files))"
proof (induction "\<lambda>_ :: string. False" m tot es files rule: prune_size.induct)
  case (2 m tot e es files)
  show ?case
  proof (cases "tot > m")
    case True
    have "listed es (remove_file (\<lambda>_. False) (ce_path e) files)" "tot - ce_size e = total_size es"
      using listed_remove [OF 2(2)] 2(3) by (simp_all add: remove_file_def total_size_def)
    from 2(1) [OF True this] True show ?thesis by (auto intro: exI [of _ "Suc k" for k])
  next
    case False
    then show ?thesis using 2(2,3) by (auto intro: exI [of _ 0])
  qed
qed (auto simp: total_size_def)

lemma prune_age_entries:
  "cache_entries (prune_age (\<lambda>_. False) now a es files) =
     filter (\<lambda>x. \<forall>e \<in> set es. now - ce_modified e > a \<longrightarrow> ce_path x \<noteq> ce_path e) (cache_entries files)"
proof (induction es arbitrary: files)
  case (Cons e es)
  have "cache_entries (prune_age (\<lambda>_. False) now a (e # es) files) =
      cache_entries (prune_age (\<lambda>_. False) now a es (if now - ce_modified e > a then filter (\<lambda>f. df_name f \<noteq> ce_path e) files else files))"
    by (simp add: prune_age_def remove_file_def)
  then show ?case by (auto simp: Cons.IH cache_entries_remove intro!: filter_cong)
qed (simp add: prune_age_def)

lemma distinct_ce_path:
  assumes "distinct (map df_name files)"
  shows "distinct (map ce_path (by_modified (cache_entries files)))"
proof -
  have paths: "ce_path ` set (cache_entries files) \<subseteq> df_name ` set files" for files
    by (induction files) (auto simp: cache_entries_def map_filter_simps cache_entry_of_def split: option.splits)
  have "distinct (map ce_path (cache_entries files))"
    using assms
  proof (induction files)
    case (Cons f files)
    then show ?case using paths [of files]
      by (cases "cache_entry_of f") (auto simp: cache_entries_def map_filter_simps cache_entry_of_def split: if_splits)
  qed (simp add: cache_entries_def map_filter_simps)
  then show ?thesis by (simp add: by_modified_def distinct_map)
qed

definition young :: "nat \<Rightarrow> prune_limits \<Rightarrow> cache_entry \<Rightarrow> bool" where
  "young now limits e \<longleftrightarrow> (case cache_max_age limits of None \<Rightarrow> True | Some a \<Rightarrow> now - ce_modified e \<le> a)"

lemma prune_age_listed:
  assumes "listed es files"
  shows "listed (filter (\<lambda>e. now - ce_modified e \<le> a) es) (prune_age (\<lambda>_. False) now a es files)"
proof -
  have es: "by_modified (cache_entries files) = es" "distinct (map ce_path es)"
    using assms by (simp_all add: listed_def)
  have iff: "(\<forall>e \<in> set es. now - ce_modified e > a \<longrightarrow> ce_path x \<noteq> ce_path e) \<longleftrightarrow> now - ce_modified x \<le> a" if "x \<in> set es" for x
  proof -
    have same: "ce_path x = ce_path e \<longrightarrow> x = e" if "e \<in> set es" for e
      using that \<open>x \<in> set es\<close> es(2) by (simp add: distinct_map inj_on_def)
    show ?thesis
    proof
      show "\<forall>e \<in> set es. now - ce_modified e > a \<longrightarrow> ce_path x \<noteq> ce_path e" if "now - ce_modified x \<le> a"
        using same that by (auto dest!: same)
      show "now - ce_modified x \<le> a" if "\<forall>e \<in> set es. now - ce_modified e > a \<longrightarrow> ce_path x \<noteq> ce_path e"
        using that \<open>x \<in> set es\<close> by (cases "a < now - ce_modified x") auto
    qed
  qed
  have "by_modified (cache_entries (prune_age (\<lambda>_. False) now a es files)) =
      filter (\<lambda>x. \<forall>e \<in> set es. now - ce_modified e > a \<longrightarrow> ce_path x \<noteq> ce_path e) es"
    unfolding prune_age_entries es(1) [unfolded by_modified_def, symmetric] by_modified_def filter_sort ..
  also have "\<dots> = filter (\<lambda>e. now - ce_modified e \<le> a) es" using iff by (rule filter_cong [OF refl])
  finally show ?thesis using es(2) by (simp add: listed_def distinct_map_filter)
qed

lemma total_size_drop: "total_size (drop k es) \<le> total_size es"
  unfolding total_size_def by (metis append_take_drop_id le_add2 map_append sum_list_append)

lemma total_size_filter: "total_size (filter P es) \<le> total_size es"
  by (induction es) (auto simp: total_size_def)

lemma total_size_sort: "total_size (by_modified es) = total_size es"
  unfolding total_size_def by_modified_def
  by (metis mset_map mset_sort sum_mset_sum_list)

lemma prune_cache_listed:
  assumes "distinct (map df_name files)" "total_size (cache_entries files) < 2 ^ 64"
  shows "\<exists>es k. listed es (prune_cache (\<lambda>_. False) now limits files) \<and>
    es = drop k (filter (young now limits) (by_modified (cache_entries files))) \<and>
    (\<forall>n. cache_max_entries limits = Some n \<longrightarrow> length es \<le> n) \<and>
    (\<forall>m. cache_max_size limits = Some m \<longrightarrow> total_size es \<le> m)"
proof -
  define es0 where "es0 = by_modified (cache_entries files)"
  define r1 where "r1 = (case cache_max_age limits of None \<Rightarrow> (es0, files)
    | Some max_age \<Rightarrow> (let fs = prune_age (\<lambda>_. False) now max_age es0 files in (by_modified (cache_entries fs), fs)))"
  define r2 where "r2 = (case cache_max_entries limits of None \<Rightarrow> r1 | Some n \<Rightarrow> prune_count (\<lambda>_. False) n (fst r1) (snd r1))"
  define r3 where "r3 = (case cache_max_size limits of None \<Rightarrow> r2
    | Some m \<Rightarrow> prune_size (\<lambda>_. False) m (wrap64 (sum_list (map ce_size (fst r2)))) (fst r2) (snd r2))"
  have final: "prune_cache (\<lambda>_. False) now limits files = snd r3"
    by (simp add: prune_cache_def r3_def r2_def r1_def es0_def Let_def case_prod_beta split: option.splits)
  have "listed es0 files" using distinct_ce_path [OF assms(1)] by (simp add: listed_def es0_def)
  have r1: "listed (fst r1) (snd r1) \<and> fst r1 = filter (young now limits) es0"
  proof (cases "cache_max_age limits")
    case None
    then show ?thesis using \<open>listed es0 files\<close> by (simp add: r1_def young_def)
  next
    case (Some a)
    have "young now limits = (\<lambda>e. now - ce_modified e \<le> a)" using Some by (simp add: young_def fun_eq_iff)
    with prune_age_listed [OF \<open>listed es0 files\<close>, of now a] Some show ?thesis
      by (simp add: r1_def Let_def listed_def)
  qed
  have "\<exists>k. listed (fst r2) (snd r2) \<and> fst r2 = drop k (fst r1) \<and>
      (\<forall>n. cache_max_entries limits = Some n \<longrightarrow> length (fst r2) \<le> n)"
  proof (cases "cache_max_entries limits")
    case None
    then show ?thesis using conjunct1 [OF r1] by (intro exI [of _ 0]) (simp add: r2_def)
  next
    case (Some n)
    then show ?thesis using prune_count_listed [OF conjunct1 [OF r1], of n] by (auto simp: r2_def)
  qed
  then obtain k where r2: "listed (fst r2) (snd r2)" "fst r2 = drop k (fst r1)"
    "\<forall>n. cache_max_entries limits = Some n \<longrightarrow> length (fst r2) \<le> n" by blast
  have "total_size (fst r2) \<le> total_size (cache_entries files)"
    unfolding r2(2) conjunct2 [OF r1] es0_def
    using total_size_drop total_size_filter total_size_sort by (metis order_trans)
  then have tot: "wrap64 (sum_list (map ce_size (fst r2))) = total_size (fst r2)"
    using assms(2) by (simp add: total_size_def)
  have "\<exists>j. listed (fst r3) (snd r3) \<and> fst r3 = drop j (fst r2) \<and>
      (\<forall>m. cache_max_size limits = Some m \<longrightarrow> total_size (fst r3) \<le> m)"
  proof (cases "cache_max_size limits")
    case None
    then show ?thesis using r2(1) by (intro exI [of _ 0]) (simp add: r3_def)
  next
    case (Some m)
    then show ?thesis using prune_size_listed [OF r2(1) refl, of m] by (auto simp: r3_def tot)
  qed
  then obtain j where r3: "listed (fst r3) (snd r3)" "fst r3 = drop j (fst r2)"
    "\<forall>m. cache_max_size limits = Some m \<longrightarrow> total_size (fst r3) \<le> m" by blast
  have "length (fst r3) \<le> n" if "cache_max_entries limits = Some n" for n
    using r2(3) r3(2) that by (auto intro: le_trans)
  then show ?thesis
    using r3 r2(2) r1 by (intro exI [of _ "fst r3"] exI [of _ "j + k"]) (simp add: final es0_def)
qed


subsection \<open>Examples\<close>

definition sample_cache :: "string memory_cache" where
  "sample_cache = mc_insert ''a'' 2 ''A'' (mc_new 5)"

lemma sample_cache_inv: "mc_inv sample_cache" "4 \<le> mc_budget sample_cache"
  by (simp_all add: sample_cache_def mc_inv_insert mc_new_def mc_inv_def mc_insert_def mc_forget_def Let_def wrap64_def)

theorem memory_cache_within_budget_witness:
  "mc_inv (fold mc_step [Insert ''a'' 2 ''A'', Insert ''b'' 4 ''B'', Get ''a''] (mc_new 5))"
  using memory_cache_within_budget [of 5 "[Insert ''a'' 2 ''A'', Insert ''b'' 4 ''B'', Get ''a'']"] by simp

theorem memory_cache_lru_witness:
  "fst (mc_get ''b'' (mc_insert ''b'' 4 ''B'' sample_cache)) = Some ''B''"
  using memory_cache_lru [OF sample_cache_inv, of "''b''" "''B''"] by simp

definition sample_files :: "dir_file list" where
  "sample_files = [\<lparr>df_name = ''x.json'', df_metadata = Some (10, Some 5)\<rparr>, \<lparr>df_name = ''y.json'', df_metadata = Some (20, Some 3)\<rparr>]"


end
