(* ===== verification/Cache_Key.thy ===== *)
theory Cache_Key
  imports Options Recipes
begin

section \<open>Cache keys and fingerprints (cache.rs, fingerprint.rs)\<close>

text \<open>
  \<^verbatim>\<open>configuration_fingerprint\<close> and \<^verbatim>\<open>cache_key\<close> of \<^verbatim>\<open>src/cache.rs\<close>, and \<^verbatim>\<open>digest\<close> and \<^verbatim>\<open>compute\<close> of
  \<^verbatim>\<open>src/fingerprint.rs\<close>. The package version is a constant of the build, an argument here. What is fed to
  the hasher is a definition of its own, because the theorems are about it.
\<close>

subsection \<open>The configuration fingerprint\<close>

definition NUL :: char where
  "NUL = CHR 0x00"

definition opt_default :: "string option \<Rightarrow> string" where
  "opt_default s = (case s of None \<Rightarrow> '''' | Some v \<Rightarrow> v)"

definition fingerprint_values :: "hash_options \<Rightarrow> bool \<Rightarrow> string list" where
  "fingerprint_values opts deps =
     (let b = bazel_opts opts
      in [join [NUL] (startup_options b),
          join [NUL] (command_options b),
          join [NUL] (cquery_options b),
          show_bool (use_cquery b),
          opt_default (cquery_expression b),
          show_bool (keep_going b),
          show_bool (exclude_external_targets b),
          opt_default (exclude_targets_query b),
          join '','' (fine_grained_external_repos b),
          join '','' (label_only_module_extensions b),
          join '','' (bs_of_list (ignored_attributes opts)),
          join [NUL] (seed_filepaths opts),
          join '','' (bs_of_list (always_affected_tags opts)),
          show_bool deps,
          ''sourceContent=git-blob''])"

definition fingerprint_text :: "string \<Rightarrow> hash_options \<Rightarrow> bool \<Rightarrow> bool \<Rightarrow> string" where
  "fingerprint_text pkg_version opts deps partial_graph =
     pkg_version @ [NUL] @
     concat (map (\<lambda>v. v @ [NUL]) (fingerprint_values opts deps)) @
     (case isolated_dependency_root (bazel_opts opts) of
        None \<Rightarrow> ''''
      | Some root \<Rightarrow> ''isolatedDependencyRoot='' @ root @ [NUL]) @
     (if partial_graph then ''partialGraph='' @ show_nat RECIPE_VERSION @ [NUL] else '''')"

definition configuration_fingerprint :: "crates \<Rightarrow> string \<Rightarrow> hash_options \<Rightarrow> bool \<Rightarrow> bool \<Rightarrow> string" where
  "configuration_fingerprint c pkg_version opts deps partial_graph =
     take 12 (hex_encode c (sha256 c (as_bytes (fingerprint_text pkg_version opts deps partial_graph))))"

subsection \<open>The cache key\<close>

definition modified_text :: "string list \<Rightarrow> string" where
  "modified_text modified = concat (map (\<lambda>path. path @ [CHR 0x0A]) modified)"

definition cache_key :: "crates \<Rightarrow> string \<Rightarrow> string \<Rightarrow> string list \<Rightarrow> string" where
  "cache_key c tr fp modified =
     (let base = tr @ ''.'' @ fp
      in if modified = [] then base
         else base @ ''.'' @ take 12 (hex_encode c (sha256 c (as_bytes (modified_text modified)))))"

lemma hex_no_dot:
  assumes "crates_ok c"
  shows "CHR ''.'' \<notin> set (hex_encode c bs)"
proof
  assume "CHR ''.'' \<in> set (hex_encode c bs)"
  then have "of_char CHR ''.'' \<in> set (as_bytes (hex_encode c bs))" unfolding as_bytes_def set_map by (rule imageI)
  then obtain b where b: "(46 :: u8) \<in> set (hex_pair b)"
    unfolding crates_ok_encode [OF assms] by (auto simp: of_char_of)
  have "hex_digit n \<noteq> 46" if "n \<le> 15" for n
  proof -
    have "unat n \<le> 15" using that by (simp add: u8_le_iff)
    then have "unat (hex_digit n) \<noteq> 46"
      by (auto simp: hex_digit_def u8_less_iff unat_word_ariths split: if_splits)
    then show ?thesis by auto
  qed
  with b nibbles_le [of b] show False by (auto simp: hex_pair_def)
qed


text \<open>
  The list options are joined with the byte that also ends each value, so moving an option from the
  end of one list to the front of the next leaves the hashed text unchanged.
\<close>

lemma fingerprint_collision:
  assumes "command_options (bazel_opts opts) \<noteq> []" "startup_options (bazel_opts opts) \<noteq> []"
  shows "fingerprint_text v (opts\<lparr>bazel_opts := (bazel_opts opts)\<lparr>startup_options := startup_options (bazel_opts opts) @ [x]\<rparr>\<rparr>) d p =
    fingerprint_text v (opts\<lparr>bazel_opts := (bazel_opts opts)\<lparr>command_options := x # command_options (bazel_opts opts)\<rparr>\<rparr>) d p"
  using assms
  by (simp add: fingerprint_text_def fingerprint_values_def Let_def join_append join_Cons)

subsection \<open>The workspace fingerprint\<close>

record fingerprint_inputs =
  fi_bazel_diff_version :: string
  fi_bazel_version :: string
  fi_module_lock_content :: "bytes option"
  fi_bazelrc_contents :: "(string, bytes) btree"
  fi_flags :: "(string, string) btree"

record fingerprint_result =
  fr_fingerprint :: string
  fr_components :: "(string, string) btree"

definition fp_digest :: "crates \<Rightarrow> bytes list \<Rightarrow> string" where
  "fp_digest c parts = hex_encode c (sha256 c (concat parts))"

definition flatten_map :: "('v \<Rightarrow> bytes) \<Rightarrow> (string, 'v) btree \<Rightarrow> bytes list" where
  "flatten_map f t = concat (map (\<lambda>(k, v). [as_bytes k, f v]) t)"

definition fp_components :: "crates \<Rightarrow> fingerprint_inputs \<Rightarrow> (string, string) btree" where
  "fp_components c inputs =
     bt_insert ''flags'' (fp_digest c (flatten_map as_bytes (fi_flags inputs)))
       (bt_insert ''bazelrc'' (fp_digest c (flatten_map id (fi_bazelrc_contents inputs)))
         (bt_insert ''moduleLock''
            (fp_digest c (case fi_module_lock_content inputs of
                Some content \<Rightarrow> [as_bytes ''present'', content]
              | None \<Rightarrow> [as_bytes ''absent'']))
           (bt_insert ''bazelVersion'' (fp_digest c [as_bytes (fi_bazel_version inputs)])
             (bt_insert ''bazelDiffVersion'' (fp_digest c [as_bytes (fi_bazel_diff_version inputs)]) []))))"

definition compute :: "crates \<Rightarrow> fingerprint_inputs \<Rightarrow> fingerprint_result" where
  "compute c inputs =
     (let components = fp_components c inputs
      in \<lparr>fr_fingerprint = fp_digest c (flatten_map as_bytes components), fr_components = components\<rparr>)"

lemma length_fp_digest: "crates_ok c \<Longrightarrow> length (fp_digest c parts) = 64"
  by (simp add: fp_digest_def length_hex_encode)

lemma fp_components_eq:
  "fp_components c inputs =
     [(''bazelDiffVersion'', fp_digest c [as_bytes (fi_bazel_diff_version inputs)]),
      (''bazelVersion'', fp_digest c [as_bytes (fi_bazel_version inputs)]),
      (''bazelrc'', fp_digest c (flatten_map id (fi_bazelrc_contents inputs))),
      (''flags'', fp_digest c (flatten_map as_bytes (fi_flags inputs))),
      (''moduleLock'', fp_digest c (case fi_module_lock_content inputs of
           Some content \<Rightarrow> [as_bytes ''present'', content]
         | None \<Rightarrow> [as_bytes ''absent'']))]"
  by (simp add: fp_components_def)

text \<open>
  The text hashed for the whole fingerprint determines all five components, although its parts are
  not separated: the keys are fixed and every digest has 64 characters.
\<close>

lemma fingerprint_text_determines_components:
  assumes "crates_ok c" "concat (flatten_map as_bytes (fp_components c a)) = concat (flatten_map as_bytes (fp_components c b))"
  shows "fp_components c a = fp_components c b"
  using assms(2)
  by (simp add: fp_components_eq flatten_map_def append_eq_append_conv length_fp_digest [OF assms(1)])

text \<open>The flags component does not separate keys from values, nor one flag from the next.\<close>

lemma flags_collision:
  "fp_components c (i\<lparr>fi_flags := [(''a'', ''bc'')]\<rparr>) = fp_components c (i\<lparr>fi_flags := [(''ab'', ''c'')]\<rparr>)"
  by (simp add: fp_components_eq flatten_map_def as_bytes_def fp_digest_def)


end
