(* ===== verification/Cancel.thy ===== *)
theory Cancel
  imports Prelude
begin

section \<open>Cancellation (cancel.rs)\<close>

text \<open>
  The token of \<^verbatim>\<open>src/cancel.rs\<close> and the calls that use it, as a system of threads: workers that run one
  subprocess each through \<^verbatim>\<open>Cancellation::output\<close>, and threads that call \<^verbatim>\<open>Cancellation::cancel\<close>. A step is
  one access to the shared state (an atomic load or store, or one critical section of a lock), so
  every interleaving the code allows is a sequence of steps. A killed process is doomed until the
  operating system reports its exit. Ids are counted without wrapping: the code counts children in 64
  bits. The contents of the pipes are left out: a reader ends with its process, and one that fails is
  an I/O error. A kill reaches its process; a poll of \<^verbatim>\<open>wait_for_exit\<close> that finds the process
  running changes nothing and is no step.
\<close>

datatype proc = Running | Doomed | Exited

text \<open>Where a worker is in \<^verbatim>\<open>output_configured\<close>: the steps between its accesses to shared state.\<close>

datatype worker =
    Start
  | Checked
  | Spawned nat
  | HasId nat nat
  | Registered nat nat
  | Waiting nat nat
  | Reaped nat nat
  | Unregistered
  | Returned
  | FailedCancelled
  | FailedIo

text \<open>Where a thread is in \<^verbatim>\<open>cancel\<close>: before, after the store, killing what it saw, done.\<close>

datatype canceller = CIdle | CStored | CKilling "nat list" | CDone

record sys =
  cancelled :: bool
  next_id :: nat
  children :: "(nat \<times> nat) list"
  procs :: "nat \<Rightarrow> proc"
  next_pid :: nat
  workers :: "worker list"
  cancellers :: "canceller list"

subsection \<open>The accesses to shared state\<close>

text \<open>\<^verbatim>\<open>check\<close>: whether the caller goes on.\<close>

definition check :: "sys \<Rightarrow> bool" where
  "check s \<longleftrightarrow> \<not> cancelled s"

definition kill :: "nat \<Rightarrow> sys \<Rightarrow> sys" where
  "kill pid s = s\<lparr>procs := (procs s)(pid := (case procs s pid of Exited \<Rightarrow> Exited | _ \<Rightarrow> Doomed))\<rparr>"

definition spawn :: "sys \<Rightarrow> nat \<times> sys" where
  "spawn s = (next_pid s, s\<lparr>procs := (procs s)(next_pid s := Running), next_pid := Suc (next_pid s)\<rparr>)"

text \<open>\<^verbatim>\<open>register\<close> takes an id first and enters the child under the registry's lock afterwards.\<close>

definition take_id :: "sys \<Rightarrow> nat \<times> sys" where
  "take_id s = (next_id s, s\<lparr>next_id := Suc (next_id s)\<rparr>)"

definition enter_child :: "nat \<Rightarrow> nat \<Rightarrow> sys \<Rightarrow> sys" where
  "enter_child i pid s = s\<lparr>children := (i, pid) # filter (\<lambda>(j, _). j \<noteq> i) (children s)\<rparr>"

text \<open>\<^verbatim>\<open>Drop for Registered\<close>.\<close>

definition unregister :: "nat \<Rightarrow> sys \<Rightarrow> sys" where
  "unregister i s = s\<lparr>children := filter (\<lambda>(j, _). j \<noteq> i) (children s)\<rparr>"

text \<open>\<^verbatim>\<open>lock(&self.children).values().cloned()\<close> in \<^verbatim>\<open>cancel\<close>.\<close>

definition child_pids :: "sys \<Rightarrow> nat list" where
  "child_pids s = map snd (children s)"

definition running_children :: "sys \<Rightarrow> nat" where
  "running_children s = length (children s)"

definition set_worker :: "nat \<Rightarrow> worker \<Rightarrow> sys \<Rightarrow> sys" where
  "set_worker w pc s = s\<lparr>workers := (workers s)[w := pc]\<rparr>"

definition set_canceller :: "nat \<Rightarrow> canceller \<Rightarrow> sys \<Rightarrow> sys" where
  "set_canceller c pc s = s\<lparr>cancellers := (cancellers s)[c := pc]\<rparr>"

subsection \<open>Steps\<close>

definition at_worker :: "sys \<Rightarrow> nat \<Rightarrow> worker \<Rightarrow> bool" where
  "at_worker s w pc \<longleftrightarrow> w < length (workers s) \<and> workers s ! w = pc"

definition at_canceller :: "sys \<Rightarrow> nat \<Rightarrow> canceller \<Rightarrow> bool" where
  "at_canceller s c pc \<longleftrightarrow> c < length (cancellers s) \<and> cancellers s ! c = pc"

inductive step :: "sys \<Rightarrow> sys \<Rightarrow> bool" where
  check_ok: "at_worker s w Start \<Longrightarrow> check s \<Longrightarrow> step s (set_worker w Checked s)"
| check_fails: "at_worker s w Start \<Longrightarrow> \<not> check s \<Longrightarrow> step s (set_worker w FailedCancelled s)"
| spawn_ok: "at_worker s w Checked \<Longrightarrow> spawn s = (pid, s') \<Longrightarrow> step s (set_worker w (Spawned pid) s')"
| spawn_fails: "at_worker s w Checked \<Longrightarrow> step s (set_worker w FailedIo s)"
| take_id: "at_worker s w (Spawned pid) \<Longrightarrow> take_id s = (i, s') \<Longrightarrow> step s (set_worker w (HasId i pid) s')"
| enter: "at_worker s w (HasId i pid) \<Longrightarrow> step s (set_worker w (Registered i pid) (enter_child i pid s))"
| recheck_ok: "at_worker s w (Registered i pid) \<Longrightarrow> \<not> cancelled s \<Longrightarrow> step s (set_worker w (Waiting i pid) s)"
| recheck_kills: "at_worker s w (Registered i pid) \<Longrightarrow> cancelled s \<Longrightarrow>
    step s (set_worker w (Waiting i pid) (kill pid s))"
| waited: "at_worker s w (Waiting i pid) \<Longrightarrow> procs s pid = Exited \<Longrightarrow> step s (set_worker w (Reaped i pid) s)"
| wait_fails: "at_worker s w (Waiting i pid) \<Longrightarrow> step s (set_worker w FailedIo (unregister i s))"
| dropped: "at_worker s w (Reaped i pid) \<Longrightarrow> step s (set_worker w Unregistered (unregister i s))"
| final_fails: "at_worker s w Unregistered \<Longrightarrow> \<not> check s \<Longrightarrow> step s (set_worker w FailedCancelled s)"
| final_ok: "at_worker s w Unregistered \<Longrightarrow> check s \<Longrightarrow> step s (set_worker w Returned s)"
| reader_fails: "at_worker s w Unregistered \<Longrightarrow> check s \<Longrightarrow> step s (set_worker w FailedIo s)"
| cancel_store: "at_canceller s c CIdle \<Longrightarrow> step s (set_canceller c CStored (s\<lparr>cancelled := True\<rparr>))"
| cancel_list: "at_canceller s c CStored \<Longrightarrow> step s (set_canceller c (CKilling (child_pids s)) s)"
| cancel_kill: "at_canceller s c (CKilling (pid # ps)) \<Longrightarrow> step s (set_canceller c (CKilling ps) (kill pid s))"
| cancel_done: "at_canceller s c (CKilling []) \<Longrightarrow> step s (set_canceller c CDone s)"
| doomed_exits: "procs s pid = Doomed \<Longrightarrow> pid < next_pid s \<Longrightarrow> step s (s\<lparr>procs := (procs s)(pid := Exited)\<rparr>)"

text \<open>A process may also exit of its own accord; nothing makes it.\<close>

inductive own_exit :: "sys \<Rightarrow> sys \<Rightarrow> bool" where
  "procs s pid = Running \<Longrightarrow> pid < next_pid s \<Longrightarrow> own_exit s (s\<lparr>procs := (procs s)(pid := Exited)\<rparr>)"

definition init :: "nat \<Rightarrow> nat \<Rightarrow> sys" where
  "init ws cs = \<lparr>cancelled = False, next_id = 0, children = [], procs = (\<lambda>_. Exited), next_pid = 0,
     workers = replicate ws Start, cancellers = replicate cs CIdle\<rparr>"

definition reachable :: "nat \<Rightarrow> nat \<Rightarrow> sys \<Rightarrow> bool" where
  "reachable ws cs s \<longleftrightarrow> (\<lambda>a b. step a b \<or> own_exit a b)\<^sup>*\<^sup>* (init ws cs) s"

subsection \<open>Invariants\<close>

fun id_of :: "worker \<Rightarrow> nat option" where
  "id_of (HasId i pid) = Some i"
| "id_of (Registered i pid) = Some i"
| "id_of (Waiting i pid) = Some i"
| "id_of (Reaped i pid) = Some i"
| "id_of _ = None"

fun entry_of :: "worker \<Rightarrow> (nat \<times> nat) option" where
  "entry_of (Registered i pid) = Some (i, pid)"
| "entry_of (Waiting i pid) = Some (i, pid)"
| "entry_of (Reaped i pid) = Some (i, pid)"
| "entry_of _ = None"

fun pid_of :: "worker \<Rightarrow> nat option" where
  "pid_of (Spawned pid) = Some pid"
| "pid_of (HasId i pid) = Some pid"
| "pid_of (Registered i pid) = Some pid"
| "pid_of (Waiting i pid) = Some pid"
| "pid_of (Reaped i pid) = Some pid"
| "pid_of _ = None"

text \<open>No two workers share an id, and ids and processes are below their counters.\<close>

definition ids_ok :: "sys \<Rightarrow> bool" where
  "ids_ok s \<longleftrightarrow>
     (\<forall>w w' i. w < length (workers s) \<longrightarrow> w' < length (workers s) \<longrightarrow> id_of (workers s ! w) = Some i \<longrightarrow>
        id_of (workers s ! w') = Some i \<longrightarrow> w = w') \<and>
     (\<forall>w i. w < length (workers s) \<longrightarrow> id_of (workers s ! w) = Some i \<longrightarrow> i < next_id s) \<and>
     (\<forall>w pid. w < length (workers s) \<longrightarrow> pid_of (workers s ! w) = Some pid \<longrightarrow> pid < next_pid s)"

text \<open>The registry holds exactly the children of the workers between entering and leaving it.\<close>

definition entries_ok :: "sys \<Rightarrow> bool" where
  "entries_ok s \<longleftrightarrow>
     (\<forall>e. e \<in> set (children s) \<longleftrightarrow> (\<exists>w < length (workers s). entry_of (workers s ! w) = Some e))"

text \<open>What a canceller has listed and not yet killed.\<close>

fun pending :: "canceller \<Rightarrow> nat list option" where
  "pending (CKilling ps) = Some ps"
| "pending CDone = Some []"
| "pending _ = None"

definition cancel_ok :: "sys \<Rightarrow> bool" where
  "cancel_ok s \<longleftrightarrow>
     (\<forall>c < length (cancellers s). cancellers s ! c \<noteq> CIdle \<longrightarrow> cancelled s) \<and>
     (\<forall>c < length (cancellers s). \<forall>ps w i pid. pending (cancellers s ! c) = Some ps \<longrightarrow> at_worker s w (Waiting i pid) \<longrightarrow>
        procs s pid \<noteq> Running \<or> pid \<in> set ps)"

lemmas access_defs = check_def kill_def spawn_def take_id_def enter_child_def unregister_def set_worker_def
  set_canceller_def at_worker_def at_canceller_def

lemma ids_ok_update:
  assumes "ids_ok s" "w < length (workers s)" "workers s' = (workers s)[w := pc]"
    and "next_id s \<le> next_id s'" "next_pid s \<le> next_pid s'"
    and "id_of pc = None \<or> id_of pc = id_of (workers s ! w) \<or> id_of pc = Some (next_id s) \<and> next_id s < next_id s'"
    and "pid_of pc = None \<or> pid_of pc = pid_of (workers s ! w) \<or> pid_of pc = Some (next_pid s) \<and> next_pid s < next_pid s'"
  shows "ids_ok s'"
proof -
  have old: "i < next_id s" if "v < length (workers s)" "id_of (workers s ! v) = Some i" for v i
    using assms(1) that unfolding ids_ok_def by blast
  have old_pid: "pid < next_pid s" if "v < length (workers s)" "pid_of (workers s ! v) = Some pid" for v pid
    using assms(1) that unfolding ids_ok_def by blast
  have at: "workers s' ! v = (if v = w then pc else workers s ! v)" if "v < length (workers s)" for v
    using assms(3) that by (simp add: nth_list_update)
  have bound: "i < next_id s'" if "v < length (workers s)" "id_of (workers s' ! v) = Some i" for v i
  proof (cases "v = w")
    case True
    then have "id_of pc = Some i" using that at by simp
    then show ?thesis using assms(4,6) old [OF assms(2), of i] by auto
  next
    case False
    then show ?thesis using that at old [OF that(1)] assms(4) by (auto intro: less_le_trans)
  qed
  have pids: "pid < next_pid s'" if "v < length (workers s)" "pid_of (workers s' ! v) = Some pid" for v pid
  proof (cases "v = w")
    case True
    then have "pid_of pc = Some pid" using that at by simp
    then show ?thesis using assms(5,7) old_pid [OF assms(2), of pid] by auto
  next
    case False
    then show ?thesis using that at old_pid [OF that(1)] assms(5) by (auto intro: less_le_trans)
  qed
  have same: "v = v'" if "v < length (workers s)" "v' < length (workers s)" "id_of (workers s ! v) = Some i"
      "id_of (workers s ! v') = Some i" for v v' i
    using assms(1) that unfolding ids_ok_def by blast
  have uniq: "v = v'" if "v < length (workers s)" "v' < length (workers s)" "id_of (workers s' ! v) = Some i"
      "id_of (workers s' ! v') = Some i" for v v' i
  proof (cases "v = w \<or> v' = w")
    case True
    note prems = that
    show ?thesis
    proof (rule ccontr)
      assume ne: "v \<noteq> v'"
      then obtain u where u: "u < length (workers s)" "u \<noteq> w" "id_of (workers s ! u) = Some i" "id_of pc = Some i"
        using prems True at by (cases "v = w") auto
      then show False using assms(2,6) old [OF u(1,3)] same [OF u(1) assms(2) u(3)] by auto
    qed
  next
    case False
    then show ?thesis using that same assms(3) by (auto simp: nth_list_update)
  qed
  show ?thesis unfolding ids_ok_def using bound pids uniq assms(3) by auto
qed

lemma ids_ok_same: "ids_ok s \<Longrightarrow> workers s' = workers s \<Longrightarrow> next_id s' = next_id s \<Longrightarrow> next_pid s' = next_pid s \<Longrightarrow> ids_ok s'"
  by (simp add: ids_ok_def)

text \<open>A step moves one worker, or none.\<close>

definition idle :: "sys \<Rightarrow> sys \<Rightarrow> bool" where
  "idle s s' \<longleftrightarrow> workers s' = workers s \<and> next_id s' = next_id s \<and> next_pid s' = next_pid s \<and> children s' = children s"

definition moves :: "sys \<Rightarrow> sys \<Rightarrow> nat \<Rightarrow> worker \<Rightarrow> bool" where
  "moves s s' w pc \<longleftrightarrow>
     w < length (workers s) \<and> workers s' = (workers s)[w := pc] \<and> next_id s \<le> next_id s' \<and> next_pid s \<le> next_pid s' \<and>
     (id_of pc = None \<or> id_of pc = id_of (workers s ! w) \<or> id_of pc = Some (next_id s) \<and> next_id s < next_id s') \<and>
     (pid_of pc = None \<or> pid_of pc = pid_of (workers s ! w) \<or> pid_of pc = Some (next_pid s) \<and> next_pid s < next_pid s') \<and>
     (entry_of pc = entry_of (workers s ! w) \<and> children s' = children s \<or>
      (\<exists>i pid. workers s ! w = HasId i pid \<and> entry_of pc = Some (i, pid) \<and>
         children s' = (i, pid) # filter (\<lambda>(j, _). j \<noteq> i) (children s)) \<or>
      (\<exists>i pid. entry_of (workers s ! w) = Some (i, pid) \<and> entry_of pc = None \<and>
         children s' = filter (\<lambda>(j, _). j \<noteq> i) (children s)))"

lemma step_shape:
  assumes "step s s'"
  shows "idle s s' \<or> (\<exists>w pc. moves s s' w pc)"
  using assms
proof (cases rule: step.cases)
  case (check_ok w)
  then have "moves s s' w (Checked)" by (auto simp: moves_def access_defs)
  then show ?thesis by blast
next
  case (check_fails w)
  then have "moves s s' w (FailedCancelled)" by (auto simp: moves_def access_defs)
  then show ?thesis by blast
next
  case (spawn_ok w pid t)
  then have "moves s s' w (Spawned pid)" by (auto simp: moves_def access_defs)
  then show ?thesis by blast
next
  case (spawn_fails w)
  then have "moves s s' w (FailedIo)" by (auto simp: moves_def access_defs)
  then show ?thesis by blast
next
  case (take_id w pid i t)
  then have "moves s s' w (HasId i pid)" by (auto simp: moves_def access_defs)
  then show ?thesis by blast
next
  case (enter w i pid)
  then have "moves s s' w (Registered i pid)" by (auto simp: moves_def access_defs)
  then show ?thesis by blast
next
  case (recheck_ok w i pid)
  then have "moves s s' w (Waiting i pid)" by (auto simp: moves_def access_defs)
  then show ?thesis by blast
next
  case (recheck_kills w i pid)
  then have "moves s s' w (Waiting i pid)" by (auto simp: moves_def access_defs)
  then show ?thesis by blast
next
  case (waited w i pid)
  then have "moves s s' w (Reaped i pid)" by (auto simp: moves_def access_defs)
  then show ?thesis by blast
next
  case (wait_fails w i pid)
  then have "moves s s' w (FailedIo)" by (auto simp: moves_def access_defs)
  then show ?thesis by blast
next
  case (dropped w i pid)
  then have "moves s s' w (Unregistered)" by (auto simp: moves_def access_defs)
  then show ?thesis by blast
next
  case (final_fails w)
  then have "moves s s' w (FailedCancelled)" by (auto simp: moves_def access_defs)
  then show ?thesis by blast
next
  case (final_ok w)
  then have "moves s s' w (Returned)" by (auto simp: moves_def access_defs)
  then show ?thesis by blast
next
  case (reader_fails w)
  then have "moves s s' w (FailedIo)" by (auto simp: moves_def access_defs)
  then show ?thesis by blast
qed (auto simp: idle_def access_defs)

lemma step_ids_ok:
  assumes "step s s'" "ids_ok s"
  shows "ids_ok s'"
  using step_shape [OF assms(1)]
proof (elim disjE exE)
  assume "idle s s'"
  with assms(2) show ?thesis by (simp add: ids_ok_same idle_def)
next
  fix w pc assume "moves s s' w pc"
  then show ?thesis unfolding moves_def by (intro ids_ok_update [OF assms(2), of w s' pc]) simp_all
qed

lemma own_exit_ids_ok: "own_exit s s' \<Longrightarrow> ids_ok s \<Longrightarrow> ids_ok s'"
  by (erule own_exit.cases) (auto intro: ids_ok_same)

lemma entries_ok_update:
  assumes "entries_ok s" "ids_ok s" "w < length (workers s)" "workers s' = (workers s)[w := pc]"
    and "set (children s') = set (children s) - {e. entry_of (workers s ! w) = Some e} \<union> {e. entry_of pc = Some e}"
  shows "entries_ok s'"
proof -
  have "entry_of (workers s ! v) \<noteq> Some e" if "v < length (workers s)" "v \<noteq> w" "entry_of (workers s ! w) = Some e" for v e
  proof
    assume "entry_of (workers s ! v) = Some e"
    moreover have "id_of pc' = Some (fst e)" if "entry_of pc' = Some e" for pc' using that by (cases pc') auto
    ultimately have "id_of (workers s ! v) = Some (fst e)" "id_of (workers s ! w) = Some (fst e)" using that by blast+
    with assms(2,3) that(1,2) show False unfolding ids_ok_def by blast
  qed
  note other = this
  have at: "workers s' ! v = (if v = w then pc else workers s ! v)" if "v < length (workers s)" for v
    using assms(4) that by (simp add: nth_list_update)
  have mem: "e \<in> set (children s) \<longleftrightarrow> (\<exists>v < length (workers s). entry_of (workers s ! v) = Some e)" for e
    using assms(1) unfolding entries_ok_def by blast
  have "e \<in> set (children s') \<longleftrightarrow> (\<exists>v < length (workers s). entry_of (workers s' ! v) = Some e)" for e
  proof
    assume "e \<in> set (children s')"
    then consider "entry_of pc = Some e" | "e \<in> set (children s)" "entry_of (workers s ! w) \<noteq> Some e"
      unfolding assms(5) by blast
    then show "\<exists>v < length (workers s). entry_of (workers s' ! v) = Some e"
    proof cases
      case 1
      then show ?thesis using assms(3) at by auto
    next
      case 2
      then obtain v where "v < length (workers s)" "entry_of (workers s ! v) = Some e" "v \<noteq> w" using mem by blast
      then show ?thesis using at by auto
    qed
  next
    assume "\<exists>v < length (workers s). entry_of (workers s' ! v) = Some e"
    then obtain v where v: "v < length (workers s)" "entry_of (workers s' ! v) = Some e" by blast
    show "e \<in> set (children s')"
    proof (cases "v = w")
      case True
      then show ?thesis using v at assms(5) by simp
    next
      case False
      then have "entry_of (workers s ! v) = Some e" using v at by simp
      then have "e \<in> set (children s)" "entry_of (workers s ! w) \<noteq> Some e" using mem v(1) other [OF v(1) False] by blast+
      then show ?thesis using assms(5) by simp
    qed
  qed
  then show ?thesis using assms(4) by (simp add: entries_ok_def)
qed

lemma entries_ok_same: "entries_ok s \<Longrightarrow> workers s' = workers s \<Longrightarrow> children s' = children s \<Longrightarrow> entries_ok s'"
  by (simp add: entries_ok_def)

text \<open>Within the registry an id names one child.\<close>

lemma registry_id:
  assumes "entries_ok s" "ids_ok s" "(i, p) \<in> set (children s)" "w < length (workers s)" "id_of (workers s ! w) = Some i"
  shows "entry_of (workers s ! w) = Some (i, p)"
proof -
  obtain v where v: "v < length (workers s)" "entry_of (workers s ! v) = Some (i, p)"
    using assms(1,3) unfolding entries_ok_def by blast
  then have "id_of (workers s ! v) = Some i" by (cases "workers s ! v") auto
  with assms(2,4,5) v(1) have "v = w" unfolding ids_ok_def by blast
  with v show ?thesis by simp
qed


lemma step_entries_ok:
  assumes "step s s'" "ids_ok s" "entries_ok s"
  shows "entries_ok s'"
  using step_shape [OF assms(1)]
proof (elim disjE exE)
  assume "idle s s'"
  with assms(3) show ?thesis by (simp add: entries_ok_same idle_def)
next
  fix w pc assume m: "moves s s' w pc"
  then have w: "w < length (workers s)" "workers s' = (workers s)[w := pc]" by (simp_all add: moves_def)
  from m consider "entry_of pc = entry_of (workers s ! w)" "children s' = children s"
    | i pid where "workers s ! w = HasId i pid" "entry_of pc = Some (i, pid)"
        "children s' = (i, pid) # filter (\<lambda>(j, _). j \<noteq> i) (children s)"
    | i pid where "entry_of (workers s ! w) = Some (i, pid)" "entry_of pc = None"
        "children s' = filter (\<lambda>(j, _). j \<noteq> i) (children s)"
    unfolding moves_def by blast
  then show ?thesis
  proof cases
    case 1
    then have "{e. entry_of (workers s ! w) = Some e} \<subseteq> set (children s)"
      using assms(3) w(1) unfolding entries_ok_def by blast
    with 1 show ?thesis by (intro entries_ok_update [OF assms(3,2) w]) auto
  next
    case (2 i pid)
    have "(i, p) \<notin> set (children s)" for p
      using registry_id [OF assms(3,2) _ w(1), of i p] 2(1) by auto
    then have "filter (\<lambda>(j, _). j \<noteq> i) (children s) = children s" by (auto simp: filter_id_conv)
    with 2 show ?thesis by (intro entries_ok_update [OF assms(3,2) w]) auto
  next
    case (3 i pid)
    have "id_of (workers s ! w) = Some i" using 3(1) by (cases "workers s ! w") auto
    then have "p = pid" if "(i, p) \<in> set (children s)" for p
      using registry_id [OF assms(3,2) that w(1)] 3(1) by simp
    with 3 show ?thesis by (intro entries_ok_update [OF assms(3,2) w]) auto
  qed
qed

lemma own_exit_entries_ok: "own_exit s s' \<Longrightarrow> entries_ok s \<Longrightarrow> entries_ok s'"
  by (erule own_exit.cases) (auto intro: entries_ok_same)

lemma waiting_registered:
  "entries_ok s \<Longrightarrow> at_worker s w (Waiting i pid) \<Longrightarrow> pid \<in> set (child_pids s)"
  unfolding child_pids_def entries_ok_def at_worker_def by (force intro: rev_image_eqI)

text \<open>Processes only ever move towards their exit, except for a new one.\<close>

lemma step_procs:
  assumes "step s s'" "ids_ok s" "w < length (workers s)" "pid_of (workers s ! w) = Some pid" "procs s pid \<noteq> Running"
  shows "procs s' pid \<noteq> Running"
proof -
  have "pid < next_pid s" using assms(2-4) unfolding ids_ok_def by blast
  with assms(1,5) show ?thesis
    by (elim step.cases) (auto simp: access_defs split: proc.splits if_splits)
qed


lemma step_cancel_ok:
  assumes st: "step s s'" and "ids_ok s" "entries_ok s" "cancel_ok s"
  shows "cancel_ok s'"
proof -
  have flag: "cancelled s" if "c < length (cancellers s)" "cancellers s ! c \<noteq> CIdle" for c
    using assms(4) that unfolding cancel_ok_def by blast
  have "\<forall>c < length (cancellers s'). cancellers s' ! c \<noteq> CIdle \<longrightarrow> cancelled s'"
    using st flag by (elim step.cases) (auto simp: access_defs nth_list_update split: if_splits)
  moreover have "procs s' pid \<noteq> Running \<or> pid \<in> set ps'"
    if c: "c < length (cancellers s')" "pending (cancellers s' ! c) = Some ps'" and w: "at_worker s' w (Waiting i pid)" for c ps' w i pid
  proof -
    have len: "length (cancellers s') = length (cancellers s)" using st by (elim step.cases) (auto simp: access_defs)
    have prev: "procs s' pid \<noteq> Running \<or> pid \<in> set ps"
      if "pending (cancellers s ! c) = Some ps" "at_worker s w (Waiting i pid)" for ps
    proof (cases "procs s pid = Running")
      case True
      with assms(4) c(1) len that show ?thesis unfolding cancel_ok_def by auto
    next
      case False
      then show ?thesis using step_procs [OF st assms(2), of w pid] that(2) by (simp add: at_worker_def)
    qed
    have notidle: "cancellers s ! c \<noteq> CIdle" if "pending (cancellers s ! c) = Some ps" for ps
      using that by (cases "cancellers s ! c") auto
    show ?thesis
    proof (cases "at_worker s w (Waiting i pid)")
      case True
      show ?thesis
        using st c prev [OF _ True] True waiting_registered [OF assms(3) True]
        by (elim step.cases)
          (auto simp: set_worker_def set_canceller_def spawn_def take_id_def kill_def enter_child_def unregister_def at_canceller_def
            nth_list_update split: if_splits proc.splits)
    next
      case False
      have "procs s' pid \<noteq> Running"
        using st w False c flag [OF _ notidle] len
        by (elim step.cases)
          (auto simp: nth_list_update kill_def at_worker_def set_worker_def set_canceller_def spawn_def take_id_def enter_child_def
            unregister_def split: if_splits proc.splits)
      then show ?thesis ..
    qed
  qed
  ultimately show ?thesis unfolding cancel_ok_def by blast
qed


definition inv :: "sys \<Rightarrow> bool" where
  "inv s \<longleftrightarrow> ids_ok s \<and> entries_ok s \<and> cancel_ok s"

lemma inv_init: "inv (init ws cs)"
  by (auto simp: inv_def init_def ids_ok_def entries_ok_def cancel_ok_def at_worker_def)

lemma inv_step: "step s s' \<Longrightarrow> inv s \<Longrightarrow> inv s'"
  using step_ids_ok step_entries_ok step_cancel_ok unfolding inv_def by blast

lemma inv_own_exit: "own_exit s s' \<Longrightarrow> inv s \<Longrightarrow> inv s'"
proof -
  assume e: "own_exit s s'" and i: "inv s"
  have "cancel_ok s'"
    using e i unfolding inv_def cancel_ok_def by (elim own_exit.cases) (auto simp: at_worker_def)
  then show "inv s'" using own_exit_ids_ok [OF e] own_exit_entries_ok [OF e] i unfolding inv_def by blast
qed

lemma reachable_inv: "reachable ws cs s \<Longrightarrow> inv s"
  unfolding reachable_def by (induction rule: rtranclp_induct) (auto intro: inv_init inv_step inv_own_exit)

lemma cancelled_child_not_running:
  assumes "reachable ws cs s" "at_canceller s c CDone" "at_worker s w (Waiting i pid)"
  shows "procs s pid \<noteq> Running"
proof -
  have "cancel_ok s" using reachable_inv [OF assms(1)] by (simp add: inv_def)
  with assms(2,3) show ?thesis unfolding cancel_ok_def at_canceller_def by fastforce
qed

text \<open>
  C13: once a call to \<^verbatim>\<open>cancel\<close> has returned, no worker is waiting for a process that is still free to run: each
  one it waits for has exited or has been killed, in every interleaving, also when the process was
  started or registered while the cancellation was under way.
\<close>

theorem no_child_survives_cancel:
  assumes "reachable ws cs s" "at_canceller s c CDone" "at_worker s w (Waiting i pid)"
  shows "procs s pid \<noteq> Running"
  using assms by (rule cancelled_child_not_running)

definition ended :: "worker \<Rightarrow> bool" where
  "ended pc \<longleftrightarrow> pc \<in> {Returned, FailedCancelled, FailedIo}"

lemma stopped_workers_ended:
  assumes "reachable ws cs s" "at_canceller s c CDone" "\<nexists>s'. step s s'"
  shows "list_all ended (workers s) \<and> running_children s = 0"
proof -
  have inv: "ids_ok s" "entries_ok s" "cancel_ok s" using reachable_inv [OF assms(1)] by (simp_all add: inv_def)
  have ended: "ended (workers s ! w)" if w: "w < length (workers s)" for w
  proof (cases "workers s ! w")
    case (Waiting i pid)
    have at: "at_worker s w (Waiting i pid)" using Waiting w by (simp add: at_worker_def)
    have "procs s pid \<noteq> Running" by (rule cancelled_child_not_running [OF assms(1,2) at])
    moreover have "pid < next_pid s" using inv(1) w Waiting unfolding ids_ok_def by fastforce
    ultimately show ?thesis using assms(3) step.waited [OF at] step.doomed_exits [of s pid] by (cases "procs s pid") auto
  next
    case Start
    then show ?thesis using assms(3) w step.check_ok [of s w] step.check_fails [of s w] by (auto simp: at_worker_def)
  next
    case Unregistered
    then show ?thesis using assms(3) w step.final_ok [of s w] step.final_fails [of s w] by (auto simp: at_worker_def)
  next
    case (Registered i pid)
    then show ?thesis using assms(3) w step.recheck_ok [of s w i pid] step.recheck_kills [of s w i pid] by (auto simp: at_worker_def)
  next
    case (Spawned pid)
    then show ?thesis using assms(3) w step.take_id [of s w pid] by (auto simp: at_worker_def take_id_def)
  next
    case Checked
    then show ?thesis using assms(3) w step.spawn_fails [of s w] by (auto simp: at_worker_def)
  next
    case (HasId i pid)
    then show ?thesis using assms(3) w step.enter [of s w i pid] by (auto simp: at_worker_def)
  next
    case (Reaped i pid)
    then show ?thesis using assms(3) w step.dropped [of s w i pid] by (auto simp: at_worker_def)
  qed (simp_all add: ended_def)
  have "entry_of (workers s ! w) = None" if "w < length (workers s)" for w
    using ended [OF that] by (auto simp: ended_def)
  then have "children s = []" using inv(2) unfolding entries_ok_def by (metis equals0I option.distinct(1) set_empty)
  with ended show ?thesis by (simp add: list_all_length running_children_def)
qed


subsection \<open>Every run of steps ends\<close>

fun work :: "worker \<Rightarrow> nat" where
  "work Start = 10"
| "work Checked = 9"
| "work (Spawned pid) = 6"
| "work (HasId i pid) = 5"
| "work (Registered i pid) = 4"
| "work (Waiting i pid) = 3"
| "work (Reaped i pid) = 2"
| "work Unregistered = 1"
| "work _ = 0"

fun cancel_work :: "nat \<Rightarrow> canceller \<Rightarrow> nat" where
  "cancel_work n CIdle = n + 3"
| "cancel_work n CStored = n + 2"
| "cancel_work n (CKilling ps) = length ps + 1"
| "cancel_work n CDone = 0"

definition proc_work :: "proc \<Rightarrow> nat" where
  "proc_work p = (case p of Running \<Rightarrow> 2 | Doomed \<Rightarrow> 1 | Exited \<Rightarrow> 0)"

definition remaining :: "sys \<Rightarrow> nat" where
  "remaining s = sum_list (map work (workers s)) + sum_list (map (cancel_work (length (workers s))) (cancellers s)) +
     (\<Sum>pid < next_pid s. proc_work (procs s pid))"

lemma sum_list_map_update:
  fixes f :: "'a \<Rightarrow> nat"
  shows "k < length xs \<Longrightarrow> sum_list (map f (xs[k := x])) + f (xs ! k) = sum_list (map f xs) + f x"
proof (induction xs arbitrary: k)
  case (Cons y ys)
  then show ?case by (cases k) (auto simp: add.commute add.left_commute)
qed simp

lemma proc_sum_kill:
  "(\<Sum>p < n. proc_work (((procs s)(pid := (case procs s pid of Exited \<Rightarrow> Exited | _ \<Rightarrow> Doomed))) p)) \<le> (\<Sum>p < n. proc_work (procs s p))"
  by (intro sum_mono) (auto simp: proc_work_def split: proc.splits)

lemma proc_sum_exit:
  fixes n :: nat
  assumes "pid < n" "ps pid = Doomed"
  shows "(\<Sum>p < n. proc_work ((ps(pid := Exited)) p)) < (\<Sum>p < n. proc_work (ps p))"
proof (rule sum_strict_mono_ex1)
  show "\<exists>p \<in> {..<n}. proc_work ((ps(pid := Exited)) p) < proc_work (ps p)"
    using assms by (auto simp: proc_work_def intro!: bexI [of _ pid])
qed (auto simp: proc_work_def split: proc.splits)

lemma distinct_children:
  "step s s' \<Longrightarrow> distinct (map fst (children s)) \<Longrightarrow> distinct (map fst (children s'))"
  by (elim step.cases) (auto simp: access_defs distinct_map_filter)

lemma children_bound:
  assumes "entries_ok s" "distinct (map fst (children s))"
  shows "length (children s) \<le> length (workers s)"
proof -
  have "set (children s) \<subseteq> the ` entry_of ` set (workers s)"
    using assms(1) unfolding entries_ok_def by (force simp: in_set_conv_nth)
  then have "card (set (children s)) \<le> card (the ` entry_of ` set (workers s))" by (intro card_mono) simp_all
  also have "\<dots> \<le> length (workers s)"
    by (metis card_image_le card_length finite_imageI finite_set le_trans)
  finally show ?thesis using assms(2) by (simp add: distinct_map distinct_card)
qed


lemma remaining_worker:
  assumes "w < length (workers s)" "workers s' = (workers s)[w := pc]" "cancellers s' = cancellers s"
    and "work pc + (\<Sum>p < next_pid s'. proc_work (procs s' p)) < work (workers s ! w) + (\<Sum>p < next_pid s. proc_work (procs s p))"
  shows "remaining s' < remaining s"
  using sum_list_map_update [OF assms(1), of work pc] assms by (simp add: remaining_def)

lemma remaining_canceller:
  assumes "c < length (cancellers s)" "cancellers s' = (cancellers s)[c := pc]" "workers s' = workers s"
    and "cancel_work (length (workers s)) pc + (\<Sum>p < next_pid s'. proc_work (procs s' p)) <
      cancel_work (length (workers s)) (cancellers s ! c) + (\<Sum>p < next_pid s. proc_work (procs s p))"
  shows "remaining s' < remaining s"
  using sum_list_map_update [OF assms(1), of "cancel_work (length (workers s))" pc] assms by (simp add: remaining_def)

lemma proc_sum_spawn:
  fixes n :: nat
  shows "(\<Sum>p < Suc n. proc_work ((ps(n := Running)) p)) = (\<Sum>p < n. proc_work (ps p)) + 2"
proof -
  have "(\<Sum>p < n. proc_work ((ps(n := Running)) p)) = (\<Sum>p < n. proc_work (ps p))" by (intro sum.cong) simp_all
  then show ?thesis by (simp add: proc_work_def)
qed

lemma step_decreases:
  assumes "step s s'" "length (children s) \<le> length (workers s)"
  shows "remaining s' < remaining s"
  using assms(1)
proof (cases rule: step.cases)
  case (spawn_ok w pid t)
  then show ?thesis
    by (intro remaining_worker [of w s s' "Spawned pid"])
      (auto simp: access_defs proc_sum_spawn simp del: sum.lessThan_Suc fun_upd_apply)
next
  case (recheck_kills w i pid)
  then show ?thesis using proc_sum_kill [where n = "next_pid s" and s = s and pid = pid]
    by (intro remaining_worker [of w s s' "Waiting i pid"]) (auto simp: access_defs simp del: fun_upd_apply)
next
  case (cancel_kill c pid ps)
  then show ?thesis using proc_sum_kill [where n = "next_pid s" and s = s and pid = pid]
    by (intro remaining_canceller [of c s s' "CKilling ps"]) (auto simp: access_defs simp del: fun_upd_apply)
next
  case (doomed_exits pid)
  then show ?thesis using proc_sum_exit [of pid "next_pid s" "procs s"] by (simp add: remaining_def del: fun_upd_apply)
next
  case (cancel_list c)
  then show ?thesis using assms(2)
    by (intro remaining_canceller [of c s s' "CKilling (child_pids s)"]) (auto simp: access_defs child_pids_def)
next
  case (cancel_store c)
  then show ?thesis by (intro remaining_canceller [of c s s' CStored]) (auto simp: access_defs)
next
  case (cancel_done c)
  then show ?thesis by (intro remaining_canceller [of c s s' CDone]) (auto simp: access_defs)
qed (fastforce intro: remaining_worker simp: access_defs)+

text \<open>A transition is a step of a thread or a process that exits of its own accord.\<close>

definition transition :: "sys \<Rightarrow> sys \<Rightarrow> bool" where
  "transition s s' \<longleftrightarrow> step s s' \<or> own_exit s s'"

lemma proc_sum_own_exit:
  fixes n :: nat
  assumes "pid < n" "ps pid = Running"
  shows "(\<Sum>p < n. proc_work ((ps(pid := Exited)) p)) < (\<Sum>p < n. proc_work (ps p))"
proof (rule sum_strict_mono_ex1)
  show "\<exists>p \<in> {..<n}. proc_work ((ps(pid := Exited)) p) < proc_work (ps p)"
    using assms by (auto simp: proc_work_def intro!: bexI [of _ pid])
qed (auto simp: proc_work_def split: proc.splits)

lemma own_exit_decreases: "own_exit s s' \<Longrightarrow> remaining s' < remaining s"
  by (elim own_exit.cases) (auto simp: remaining_def proc_sum_own_exit simp del: fun_upd_apply)

lemma reachable_transition: "reachable ws cs s \<Longrightarrow> transition s s' \<Longrightarrow> reachable ws cs s'"
  unfolding reachable_def transition_def by (auto intro: rtranclp.rtrancl_into_rtrancl)

lemma reachable_transitions: "transition\<^sup>*\<^sup>* s s' \<Longrightarrow> reachable ws cs s \<Longrightarrow> reachable ws cs s'"
  by (induction rule: rtranclp_induct) (auto intro: reachable_transition)

lemma reachable_distinct_children: "reachable ws cs s \<Longrightarrow> distinct (map fst (children s))"
  unfolding reachable_def
proof (induction rule: rtranclp_induct)
  case (step s s')
  then show ?case by (auto intro: distinct_children elim: own_exit.cases)
qed (simp add: init_def)

lemma transition_decreases: "reachable ws cs s \<Longrightarrow> transition s s' \<Longrightarrow> remaining s' < remaining s"
  using children_bound reachable_inv reachable_distinct_children step_decreases own_exit_decreases
  unfolding inv_def transition_def by blast

lemma no_infinite_run:
  assumes "reachable ws cs (run 0)"
  shows "\<exists>n. \<not> transition (run n) (run (Suc n))"
proof (rule ccontr)
  assume "\<nexists>n. \<not> transition (run n) (run (Suc n))"
  then have go: "transition (run n) (run (Suc n))" for n by blast
  have "reachable ws cs (run n)" for n by (induction n) (auto intro: assms reachable_transition go)
  then have "(run (Suc n), run n) \<in> measure remaining" for n
    using transition_decreases [OF _ go] by auto
  then show False using wf_iff_no_infinite_down_chain [of "measure remaining"] by blast
qed

lemma canceller_done_stays: "transition\<^sup>*\<^sup>* s s' \<Longrightarrow> at_canceller s c CDone \<Longrightarrow> at_canceller s' c CDone"
proof (induction rule: rtranclp_induct)
  case (step s s')
  then show ?case unfolding transition_def
    by (elim disjE step.cases own_exit.cases) (auto simp: access_defs nth_list_update)
qed simp


subsection \<open>One run\<close>

text \<open>A worker starts a process and waits for it; the other thread cancels, and its kill dooms the process.\<close>

definition cancelled_wait :: sys where
  "cancelled_wait = \<lparr>cancelled = True, next_id = 1, children = [(0, 0)], procs = (\<lambda>_. Exited)(0 := Doomed), next_pid = 1,
     workers = [Waiting 0 0], cancellers = [CDone]\<rparr>"

lemmas run_defs = access_defs init_def child_pids_def cancelled_wait_def

lemma cancelled_wait_reachable: "reachable 1 1 cancelled_wait"
proof -
  let ?r = "\<lambda>a b. step a b \<or> own_exit a b"
  have add: "?r\<^sup>*\<^sup>* (init 1 1) t" if "?r\<^sup>*\<^sup>* (init 1 1) s" "step s t" for s t
    using that by (auto intro: rtranclp.rtrancl_into_rtrancl)
  define at :: "bool \<Rightarrow> nat \<Rightarrow> (nat \<times> nat) list \<Rightarrow> (nat \<Rightarrow> proc) \<Rightarrow> nat \<Rightarrow> worker \<Rightarrow> canceller \<Rightarrow> sys" where
    "at b i cs p n w c = \<lparr>cancelled = b, next_id = i, children = cs, procs = p, next_pid = n, workers = [w], cancellers = [c]\<rparr>"
    for b i cs p n w c
  let ?idle = "\<lambda>_. Exited" and ?run = "(\<lambda>_. Exited)(0 := Running)" and ?doom = "(\<lambda>_. Exited)(0 := Doomed)"
  have 0: "?r\<^sup>*\<^sup>* (init 1 1) (at False 0 [] ?idle 0 Start CIdle)" by (simp add: at_def init_def)
  have 1: "?r\<^sup>*\<^sup>* (init 1 1) (at False 0 [] ?idle 0 Checked CIdle)"
    by (rule add [OF 0]) (use step.check_ok [of "at False 0 [] ?idle 0 Start CIdle" 0] in \<open>simp add: run_defs at_def\<close>)
  have 2: "?r\<^sup>*\<^sup>* (init 1 1) (at False 0 [] ?run 1 (Spawned 0) CIdle)"
    by (rule add [OF 1]) (use step.spawn_ok [of "at False 0 [] ?idle 0 Checked CIdle" 0 0] in \<open>simp add: run_defs at_def\<close>)
  have 3: "?r\<^sup>*\<^sup>* (init 1 1) (at False 1 [] ?run 1 (HasId 0 0) CIdle)"
    by (rule add [OF 2]) (use step.take_id [of "at False 0 [] ?run 1 (Spawned 0) CIdle" 0 0 0] in \<open>simp add: run_defs at_def\<close>)
  have 4: "?r\<^sup>*\<^sup>* (init 1 1) (at False 1 [(0, 0)] ?run 1 (Registered 0 0) CIdle)"
    by (rule add [OF 3]) (use step.enter [of "at False 1 [] ?run 1 (HasId 0 0) CIdle" 0 0 0] in \<open>simp add: run_defs at_def\<close>)
  have 5: "?r\<^sup>*\<^sup>* (init 1 1) (at False 1 [(0, 0)] ?run 1 (Waiting 0 0) CIdle)"
    by (rule add [OF 4]) (use step.recheck_ok [of "at False 1 [(0, 0)] ?run 1 (Registered 0 0) CIdle" 0 0 0] in \<open>simp add: run_defs at_def\<close>)
  have 6: "?r\<^sup>*\<^sup>* (init 1 1) (at True 1 [(0, 0)] ?run 1 (Waiting 0 0) CStored)"
    by (rule add [OF 5]) (use step.cancel_store [of "at False 1 [(0, 0)] ?run 1 (Waiting 0 0) CIdle" 0] in \<open>simp add: run_defs at_def\<close>)
  have 7: "?r\<^sup>*\<^sup>* (init 1 1) (at True 1 [(0, 0)] ?run 1 (Waiting 0 0) (CKilling [0]))"
    by (rule add [OF 6]) (use step.cancel_list [of "at True 1 [(0, 0)] ?run 1 (Waiting 0 0) CStored" 0] in \<open>simp add: run_defs at_def\<close>)
  have 8: "?r\<^sup>*\<^sup>* (init 1 1) (at True 1 [(0, 0)] ?doom 1 (Waiting 0 0) (CKilling []))"
    by (rule add [OF 7]) (use step.cancel_kill [of "at True 1 [(0, 0)] ?run 1 (Waiting 0 0) (CKilling [0])" 0 0 "[]"] in \<open>simp add: run_defs at_def\<close>)
  have "?r\<^sup>*\<^sup>* (init 1 1) (at True 1 [(0, 0)] ?doom 1 (Waiting 0 0) CDone)"
    by (rule add [OF 8]) (use step.cancel_done [of "at True 1 [(0, 0)] ?doom 1 (Waiting 0 0) (CKilling [])" 0] in \<open>simp add: run_defs at_def\<close>)
  then show ?thesis by (simp add: reachable_def cancelled_wait_def at_def)
qed

theorem no_child_survives_cancel_witness: "procs cancelled_wait 0 \<noteq> Running"
  by (rule no_child_survives_cancel [OF cancelled_wait_reachable, of 0 0 0])
    (simp_all add: at_canceller_def at_worker_def cancelled_wait_def)


end
