(* ===== verification/Rule_Definition.thy ===== *)
theory Rule_Definition
  imports Query_Target Options
begin

section \<open>Definitions and inputs of a rule (hash.rs)\<close>

text \<open>
  What \<^verbatim>\<open>src/hash.rs\<close> reads off one rule before the graph is walked: the digest of its definition, with the
  URLs left out that an integrity pins, its inputs with the synthetic nodes of external repositories,
  its tags and its visibility groups. The protobuf encoding of an attribute (\<^verbatim>\<open>encode_with_cache\<close> of the
  \<^verbatim>\<open>buffa\<close> crate) is the parameter \<open>enc\<close>; the map from canonical repositories to nodes, which a Bazel
  call provides, is an argument as in the code.
\<close>

definition EXTERNAL :: string where
  "EXTERNAL = ''//external:''"

definition set_and_not_empty :: "string option \<Rightarrow> bool" where
  "set_and_not_empty v = (case v of None \<Rightarrow> False | Some s \<Rightarrow> s \<noteq> [])"

definition pins_download_content :: "rule \<Rightarrow> bool" where
  "pins_download_content r \<longleftrightarrow>
     starts_with EXTERNAL (rule_name r) \<and>
     (\<exists>a \<in> set (rule_attribute r). (at_name a = ''sha256'' \<or> at_name a = ''integrity'') \<and> set_and_not_empty (at_string_value a))"

definition clear_pinned_patch :: "string \<times> string \<Rightarrow> string \<times> string" where
  "clear_pinned_patch e = (if snd e \<noteq> [] then ([], snd e) else e)"

definition module_file_pinned :: "attribute list \<Rightarrow> bool" where
  "module_file_pinned attrs \<longleftrightarrow>
     (\<exists>other \<in> set attrs. at_name other = ''remote_module_file_integrity'' \<and> set_and_not_empty (at_string_value other))"

definition pinned_files :: "attribute list \<Rightarrow> string list" where
  "pinned_files attrs =
     map fst (filter (\<lambda>e. snd e \<noteq> []) (concat (map at_string_dict_value
       (filter (\<lambda>other. at_name other = ''remote_file_integrity'') attrs))))"

definition clear_pinned_file :: "string list \<Rightarrow> string \<times> string list \<Rightarrow> string \<times> string list" where
  "clear_pinned_file pinned e = (if fst e \<in> set pinned then (fst e, []) else e)"

definition without_integrity_pinned_urls :: "attribute \<Rightarrow> attribute list \<Rightarrow> attribute option" where
  "without_integrity_pinned_urls a attrs =
     (if at_name a = ''remote_patches'' then
        Some (a\<lparr>at_string_dict_value := map clear_pinned_patch (at_string_dict_value a)\<rparr>)
      else if at_name a = ''remote_module_file_urls'' then
        Some (if module_file_pinned attrs then a\<lparr>at_string_list_value := []\<rparr> else a)
      else if at_name a = ''remote_file_urls'' then
        Some (a\<lparr>at_string_list_dict_value := map (clear_pinned_file (pinned_files attrs)) (at_string_list_dict_value a)\<rparr>)
      else None)"

definition hash_attribute :: "(attribute \<Rightarrow> bytes) \<Rightarrow> attribute \<Rightarrow> string list \<Rightarrow> bool \<Rightarrow> attribute list option \<Rightarrow> bytes" where
  "hash_attribute enc a ignored skip_urls repository_attributes =
     (if at_name a = ''generator_location'' \<or> at_name a \<in> set ignored then []
      else if skip_urls \<and> (at_name a = ''url'' \<or> at_name a = ''urls'') then []
      else case Option.bind repository_attributes (without_integrity_pinned_urls a) of
             Some stripped \<Rightarrow> enc stripped
           | None \<Rightarrow> enc a)"

definition definition_prefix :: "rule \<Rightarrow> bytes" where
  "definition_prefix r =
     as_bytes (rule_class r) @ as_bytes (target_label (rule_name r)) @
     (case rule_skylark_environment_hash_code r of Some h \<Rightarrow> as_bytes h | None \<Rightarrow> [])"

definition rule_definition_digest :: "crates \<Rightarrow> (attribute \<Rightarrow> bytes) \<Rightarrow> rule \<Rightarrow> string list \<Rightarrow> bytes" where
  "rule_definition_digest c enc r ignored =
     (let skip_urls = pins_download_content r;
          repository_attributes = (if starts_with EXTERNAL (rule_name r) then Some (rule_attribute r) else None);
          attributes = (if sorted (map at_name (rule_attribute r)) then rule_attribute r
                        else sort_key at_name (rule_attribute r))
      in sha256 c (definition_prefix r @
           concat (map (\<lambda>a. hash_attribute enc a ignored skip_urls repository_attributes) attributes)))"

definition prehash_rule :: "crates \<Rightarrow> (attribute \<Rightarrow> bytes) \<Rightarrow> rule \<Rightarrow> string list \<Rightarrow> bytes \<times> rule" where
  "prehash_rule c enc r ignored =
     (rule_definition_digest c enc r ignored,
      r\<lparr>rule_attribute := filter (\<lambda>a. at_name a = ''tags'' \<or> at_name a = ''visibility'') (rule_attribute r)\<rparr>)"

subsection \<open>Inputs\<close>

definition is_canonical_external_label :: "label \<Rightarrow> bool" where
  "is_canonical_external_label lbl \<longleftrightarrow> starts_with ''@@'' lbl \<and> \<not> starts_with ''@@//'' lbl"

definition needs_repo_nodes :: "string list \<Rightarrow> bool \<Rightarrow> bool" where
  "needs_repo_nodes inputs canonical_fine \<longleftrightarrow> canonical_fine \<or> list_ex is_canonical_external_label inputs"

definition external_input_repo :: "string \<Rightarrow> (string, string) btree \<Rightarrow> (string \<times> string) option" where
  "external_input_repo input canonical_repo_nodes =
     (if is_main_repo input \<or> \<not> starts_with ''@'' input then None
      else case split_once_str ''//'' input of
             None \<Rightarrow> None
           | Some (repo, _) \<Rightarrow>
               (let name = trim_start_matches (CHR ''@'') repo;
                    node = (if starts_with ''@@'' repo
                            then (case bt_get canonical_repo_nodes name of None \<Rightarrow> name | Some n \<Rightarrow> n)
                            else name)
                in Some (name, node)))"

definition names_fine_grained_repo :: "string \<Rightarrow> string \<Rightarrow> string list \<Rightarrow> (string, string) btree \<Rightarrow> bool" where
  "names_fine_grained_repo name node fine canonical_repo_nodes =
     list_ex (\<lambda>r. let repo = trim_start_matches (CHR ''@'') r
                  in repo = name \<or> repo = node \<or> bt_get canonical_repo_nodes repo = Some node) fine"

text \<open>\<^verbatim>\<open>Cow::Owned\<close> is a rewritten input: \<open>None\<close> stands for \<^verbatim>\<open>Cow::Borrowed(input)\<close>.\<close>

definition external_node :: "string \<Rightarrow> string list \<Rightarrow> (string, string) btree \<Rightarrow> string option" where
  "external_node input fine canonical_repo_nodes =
     (case external_input_repo input canonical_repo_nodes of
        None \<Rightarrow> None
      | Some (name, node) \<Rightarrow>
          if names_fine_grained_repo name node fine canonical_repo_nodes then None else Some (EXTERNAL @ node))"

definition transform_external_input :: "string \<Rightarrow> string list \<Rightarrow> (string, string) btree \<Rightarrow> string" where
  "transform_external_input input fine canonical_repo_nodes =
     (case external_node input fine canonical_repo_nodes of None \<Rightarrow> input | Some node \<Rightarrow> node)"

text \<open>\<^verbatim>\<open>sort_unstable\<close> and \<^verbatim>\<open>dedup\<close>.\<close>

definition sort_dedup :: "'a::linorder list \<Rightarrow> 'a list" where
  "sort_dedup xs = remdups_adj (sort xs)"

definition rule_inputs :: "rule \<Rightarrow> bool \<Rightarrow> string list \<Rightarrow> (string, string) btree \<Rightarrow> string list" where
  "rule_inputs r use_cq fine canonical_repo_nodes =
     (let external_synthetic =
            filter (starts_with EXTERNAL)
              (map (\<lambda>i. transform_external_input i fine canonical_repo_nodes)
                (filter (\<lambda>i. use_cq \<or> \<not> starts_with EXTERNAL i) (rule_input r)));
          inputs = (if use_cq
                    then map (\<lambda>i. encode_configured_input (ci_label i) (ci_configuration_checksum i)) (rule_configured_input r)
                    else rule_input r)
      in sort_dedup (inputs @ external_synthetic))"

text \<open>\<^verbatim>\<open>Labels::prepare_inputs\<close> rewrites the inputs of one rule in place, ahead of the walk.\<close>

definition prepared_inputs :: "string list \<Rightarrow> string list \<Rightarrow> (string, string) btree \<Rightarrow> string list" where
  "prepared_inputs inputs fine mapping =
     (let canonical_fine = list_ex (starts_with ''@@'') fine;
          canonical = (if needs_repo_nodes inputs canonical_fine then mapping else [])
      in sort_dedup (inputs @ List.map_filter (\<lambda>i. external_node i fine canonical) inputs))"

text \<open>What the walk computes for a rule whose inputs were not prepared.\<close>

definition walk_inputs :: "bazel_options \<Rightarrow> (string, string) btree \<Rightarrow> rule \<Rightarrow> string list" where
  "walk_inputs b mapping r =
     (let canonical = (if needs_repo_nodes (rule_input r) (list_ex (starts_with ''@@'') (fine_grained_external_repos b))
                       then mapping else [])
      in rule_inputs r (use_cquery b) (fine_grained_external_repos b) canonical)"

definition find_attribute :: "string \<Rightarrow> rule \<Rightarrow> attribute option" where
  "find_attribute name r = find (\<lambda>a. at_name a = name) (rule_attribute r)"

definition rule_tags :: "rule \<Rightarrow> string list" where
  "rule_tags r = (case find_attribute ''tags'' r of None \<Rightarrow> [] | Some a \<Rightarrow> at_string_list_value a)"

definition visibility_package_groups :: "rule \<Rightarrow> string list" where
  "visibility_package_groups r =
     (let groups = (case find_attribute ''visibility'' r of None \<Rightarrow> [] | Some a \<Rightarrow> at_string_list_value a)
      in sort_dedup (filter (\<lambda>l. \<not> starts_with ''//visibility:'' l \<and> \<not> ends_with '':__pkg__'' l \<and> \<not> ends_with '':__subpackages__'' l) groups))"

subsection \<open>The definition digest\<close>

lemma sorted_attributes: "(if sorted (map f xs) then xs else sort_key f xs) = sort_key f xs"
  by (simp add: sort_key_id_if_sorted)

lemma sort_key_mset:
  assumes "mset xs = mset ys" "distinct (map f xs)"
  shows "sort_key f xs = sort_key f ys"
proof (rule properties_for_sort_key)
  show "mset (sort_key f ys) = mset xs" using assms(1) by simp
  have "distinct (map f ys)" using assms by (metis mset_eq_imp_distinct_iff mset_map)
  show "filter (\<lambda>x. f k = f x) (sort_key f ys) = filter (\<lambda>x. f k = f x) xs" if "k \<in> set (sort_key f ys)" for k
  proof -
    have one: "filter (\<lambda>x. f k = f x) zs = [k]" if "distinct (map f zs)" "k \<in> set zs" for zs
      using that by (induction zs) (auto simp: filter_empty_conv image_iff)
    have "k \<in> set ys" using that by simp
    then have "k \<in> set xs" using assms(1) mset_eq_setD by blast
    moreover have "distinct (map f (sort_key f ys))"
      using \<open>distinct (map f ys)\<close> by (metis mset_eq_imp_distinct_iff mset_map mset_sort)
    ultimately show ?thesis using one [OF assms(2)] one [of "sort_key f ys"] that by simp
  qed
qed simp

text \<open>The attributes the digest takes in, ignored ones apart.\<close>

definition digested_attributes :: "rule \<Rightarrow> attribute list" where
  "digested_attributes r =
     filter (\<lambda>a. at_name a \<noteq> ''generator_location'' \<and> \<not> (pins_download_content r \<and> at_name a \<in> {''url'', ''urls''})) (rule_attribute r)"

lemma pins_download_content_cong:
  assumes "set (digested_attributes r) = set (digested_attributes r')" "rule_name r = rule_name r'"
  shows "pins_download_content r = pins_download_content r'"
proof -
  have "a \<in> set (rule_attribute r) \<longleftrightarrow> a \<in> set (rule_attribute r')" if "at_name a = ''sha256'' \<or> at_name a = ''integrity''" for a
  proof -
    have "a \<in> set (digested_attributes q) \<longleftrightarrow> a \<in> set (rule_attribute q)" for q using that by (auto simp: digested_attributes_def)
    then show ?thesis using assms(1) by blast
  qed
  then show ?thesis using assms(2) unfolding pins_download_content_def by auto
qed

lemma without_integrity_cong:
  assumes "\<And>b. at_name b \<in> {''remote_module_file_integrity'', ''remote_file_integrity''} \<Longrightarrow> b \<in> set xs \<longleftrightarrow> b \<in> set ys"
  shows "without_integrity_pinned_urls a xs = without_integrity_pinned_urls a ys"
proof -
  have "module_file_pinned xs = module_file_pinned ys" using assms unfolding module_file_pinned_def by auto
  moreover have "set (pinned_files xs) = set (pinned_files ys)"
    using assms unfolding pinned_files_def by (fastforce simp: image_iff)
  ultimately show ?thesis by (simp add: without_integrity_pinned_urls_def clear_pinned_file_def)
qed

lemma concat_map_skip: "(\<And>x. x \<in> set xs \<Longrightarrow> \<not> P x \<Longrightarrow> f x = []) \<Longrightarrow> concat (map f xs) = concat (map f (filter P xs))"
  by (induction xs) auto

lemma sort_key_filter: "sort_key f (filter P xs) = filter P (sort_key f xs)"
  by (simp add: filter_sort)

lemma rule_definition_digested:
  "rule_definition_digest c enc r ignored =
     sha256 c (definition_prefix r @ concat (map
       (\<lambda>a. hash_attribute enc a ignored (pins_download_content r)
         (if starts_with EXTERNAL (rule_name r) then Some (rule_attribute r) else None))
       (sort_key at_name (digested_attributes r))))"
  unfolding rule_definition_digest_def Let_def sorted_attributes digested_attributes_def sort_key_filter
  by (intro arg_cong [where f = "sha256 c"] arg_cong2 [where f = "(@)"] concat_map_skip refl)
    (auto simp: hash_attribute_def)

text \<open>
  The digest of a rule's definition depends on its class, label and environment and on its attributes only:
  neither their order nor, for a repository that pins what it downloads, the URLs it is fetched from
  change it, and \<^verbatim>\<open>generator_location\<close> never does.
\<close>

theorem rule_definition_order_and_mirrors:
  assumes "rule_name r = rule_name r'" "rule_class r = rule_class r'"
    and "rule_skylark_environment_hash_code r = rule_skylark_environment_hash_code r'"
    and "distinct (map at_name (rule_attribute r))"
    and "mset (digested_attributes r) = mset (digested_attributes r')"
  shows "rule_definition_digest c enc r ignored = rule_definition_digest c enc r' ignored"
proof -
  have set: "set (digested_attributes r) = set (digested_attributes r')" using assms(5) mset_eq_setD by blast
  have pins: "pins_download_content r = pins_download_content r'" by (rule pins_download_content_cong [OF set assms(1)])
  have "b \<in> set (rule_attribute r) \<longleftrightarrow> b \<in> set (rule_attribute r')"
    if "at_name b \<in> {''remote_module_file_integrity'', ''remote_file_integrity''}" for b
  proof -
    have "b \<in> set (digested_attributes q) \<longleftrightarrow> b \<in> set (rule_attribute q)" for q using that by (auto simp: digested_attributes_def)
    then show ?thesis using set by blast
  qed
  then have "without_integrity_pinned_urls a (rule_attribute r) = without_integrity_pinned_urls a (rule_attribute r')" for a
    by (rule without_integrity_cong)
  moreover have "distinct (map at_name (digested_attributes r))"
    using assms(4) by (simp add: digested_attributes_def distinct_map_filter)
  then have "sort_key at_name (digested_attributes r) = sort_key at_name (digested_attributes r')"
    by (rule sort_key_mset [OF assms(5)])
  moreover have "definition_prefix r = definition_prefix r'" using assms(1-3) by (simp add: definition_prefix_def)
  ultimately show ?thesis using assms(1) pins by (simp add: rule_definition_digested hash_attribute_def cong: if_cong option.case_cong)
qed

text \<open>Prehashing drops the attributes the walk does not read.\<close>

lemma find_filter: "(\<And>x. P x \<Longrightarrow> Q x) \<Longrightarrow> find P (filter Q xs) = find P xs"
  by (induction xs) auto

lemma prehash_rule_keeps_reads:
  assumes "prehash_rule c enc r ignored = (d, r')"
  shows "rule_tags r' = rule_tags r" "visibility_package_groups r' = visibility_package_groups r"
    "rule_inputs r' = rule_inputs r" "rule_name r' = rule_name r" "rule_class r' = rule_class r"
    "d = rule_definition_digest c enc r ignored"
  using assms
  by (auto simp: prehash_rule_def rule_tags_def visibility_package_groups_def find_attribute_def find_filter rule_inputs_def fun_eq_iff)

subsection \<open>Prepared inputs\<close>

lemma set_sort_dedup [simp]: "set (sort_dedup xs) = set xs"
  by (simp add: sort_dedup_def)

lemma sorted_sort_dedup: "sorted_wrt (<) (sort_dedup xs)"
proof -
  have "sorted (remdups_adj ys) \<and> distinct (remdups_adj ys)" if "sorted ys" for ys :: "'a list"
    using that by (induction ys rule: remdups_adj.induct) auto
  then show ?thesis by (simp add: sort_dedup_def strict_sorted_iff)
qed

lemma sort_dedup_cong: "set xs = set ys \<Longrightarrow> sort_dedup xs = sort_dedup ys"
  by (metis set_sort_dedup sorted_sort_dedup strict_sorted_equal)

lemma external_node_starts: "external_node i fine cn = Some n \<Longrightarrow> starts_with EXTERNAL n"
  by (auto simp: external_node_def starts_with_iff split: option.splits if_splits)

lemma external_node_main: "starts_with EXTERNAL i \<Longrightarrow> external_node i fine cn = None"
  by (auto simp: external_node_def external_input_repo_def EXTERNAL_def starts_with_iff)

lemma synthetic_inputs:
  "filter (starts_with EXTERNAL) (map (\<lambda>i. transform_external_input i fine cn) (filter (\<lambda>i. \<not> starts_with EXTERNAL i) ins)) =
   List.map_filter (\<lambda>i. external_node i fine cn) ins"
proof (induction ins)
  case (Cons i ins)
  then show ?case
    using external_node_main [of i fine cn] external_node_starts [of i fine cn]
    by (cases "external_node i fine cn") (auto simp: transform_external_input_def map_filter_simps)
qed (simp add: map_filter_simps)

text \<open>
  Preparing the inputs of a rule ahead of the walk gives exactly the inputs the walk would compute for it:
  sorted, without duplicates, each external input joined by the node of its repository unless the
  repository is fine-grained.
\<close>

theorem prepared_inputs_equal_walk:
  assumes "\<not> use_cquery b"
  shows "prepared_inputs (rule_input r) (fine_grained_external_repos b) mapping = walk_inputs b mapping r"
  using assms by (simp add: prepared_inputs_def walk_inputs_def rule_inputs_def Let_def synthetic_inputs)

subsection \<open>Concrete rules\<close>

definition sample_archive :: "string \<Rightarrow> rule" where
  "sample_archive url = rule_default\<lparr>rule_name := ''//external:z'', rule_class := ''http_archive'', rule_attribute :=
     [attribute_default\<lparr>at_name := ''url'', at_string_value := Some url\<rparr>,
      attribute_default\<lparr>at_name := ''sha256'', at_string_value := Some ''ab''\<rparr>]\<rparr>"

definition sample_encoding :: "attribute \<Rightarrow> bytes" where
  "sample_encoding a = as_bytes (at_name a) @ (case at_string_value a of None \<Rightarrow> [] | Some v \<Rightarrow> as_bytes v)"

theorem rule_definition_order_and_mirrors_witness:
  "rule_definition_digest crates_ref sample_encoding (sample_archive ''x'') [] =
   rule_definition_digest crates_ref sample_encoding ((sample_archive ''y'')\<lparr>rule_attribute := rev (rule_attribute (sample_archive ''y''))\<rparr>) []"
  by (rule rule_definition_order_and_mirrors)
    (simp_all add: sample_archive_def rule_default_def attribute_default_def digested_attributes_def pins_download_content_def
      set_and_not_empty_def EXTERNAL_def starts_with_def)

definition sample_bazel_options :: bazel_options where
  "sample_bazel_options = \<lparr>workspace = ''/w'', bazel = ''bazel'', startup_options = [], command_options = [], cquery_options = [],
     use_cquery = False, cquery_expression = None, keep_going = False, fine_grained_external_repos = [''@pip''],
     label_only_module_extensions = [], isolated_dependency_root = None, exclude_external_targets = False,
     exclude_targets_query = None, no_bazelrc = False, verbose = False\<rparr>"

theorem prepared_inputs_equal_walk_witness:
  "walk_inputs sample_bazel_options [(''m+'', ''m'')] (rule_default\<lparr>rule_input := [''@pip//:a'', ''@@m+//:b'', ''//c:d'']\<rparr>) =
   [''//c:d'', ''//external:m'', ''@@m+//:b'', ''@pip//:a'']"
proof -
  have "prepared_inputs [''@pip//:a'', ''@@m+//:b'', ''//c:d''] [''@pip''] [(''m+'', ''m'')] =
      [''//c:d'', ''//external:m'', ''@@m+//:b'', ''@pip//:a'']"
    by code_simp
  then show ?thesis
    using prepared_inputs_equal_walk [of sample_bazel_options "rule_default\<lparr>rule_input := [''@pip//:a'', ''@@m+//:b'', ''//c:d'']\<rparr>" "[(''m+'', ''m'')]"]
    by (simp add: sample_bazel_options_def)
qed

end
