(* ===== verification/Hash_Walk.thy ===== *)
theory Hash_Walk
  imports Rule_Definition Recipes Memo_Walk
begin

section \<open>The hashing walk (hash.rs)\<close>

text \<open>
  The depth-first traversal of \<^verbatim>\<open>src/hash.rs\<close> that digests every rule: the digest builder with the recipe
  it records, the slots a label resolves to, and \<^verbatim>\<open>HashContext::node_digest\<close>. Rule nodes are shared
  (\<^verbatim>\<open>Rc<RuleNode>\<close>), so a node is an index into the context's list of nodes and a slot holds the index;
  the digest of a node is its write-once cell. What the walk reads from the file system and from Bazel
  is a field of the environment. \<open>node_digest\<close> takes fuel, one unit per nested call; the walk never needs
  more than one per rule node, plus one. Warnings on stderr are left out.
\<close>

subsection \<open>The digest builder\<close>

record target_digest =
  td_overall :: bytes
  td_direct :: bytes
  td_deps :: "string list option"

record recipe_builder =
  rb_fixed :: bytes
  rb_sources :: "label list"
  rb_deps :: "string list"

record digest_builder =
  db_overall :: bytes
  db_direct :: bytes
  db_deps :: "string list"
  db_track_deps :: bool
  db_recipe :: "recipe_builder option"

definition builder_new :: "bool \<Rightarrow> bool \<Rightarrow> digest_builder" where
  "builder_new track record_recipe =
     \<lparr>db_overall = [], db_direct = [], db_deps = [], db_track_deps = track,
      db_recipe = (if record_recipe then Some \<lparr>rb_fixed = [], rb_sources = [], rb_deps = []\<rparr> else None)\<rparr>"

definition add_direct :: "bytes \<Rightarrow> digest_builder \<Rightarrow> digest_builder" where
  "add_direct bs b =
     b\<lparr>db_direct := db_direct b @ bs,
       db_recipe := map_option (\<lambda>r. r\<lparr>rb_fixed := rb_fixed r @ bs\<rparr>) (db_recipe b)\<rparr>"

definition add_source :: "label \<Rightarrow> bytes \<Rightarrow> digest_builder \<Rightarrow> digest_builder" where
  "add_source lbl digest b =
     b\<lparr>db_direct := db_direct b @ digest,
       db_recipe := map_option (\<lambda>r. r\<lparr>rb_sources := rb_sources r @ [lbl]\<rparr>) (db_recipe b)\<rparr>"

definition add_transitive :: "string \<Rightarrow> string \<Rightarrow> bytes \<Rightarrow> digest_builder \<Rightarrow> digest_builder" where
  "add_transitive lbl canonical bs b =
     b\<lparr>db_overall := db_overall b @ bs,
       db_deps := (if db_track_deps b then db_deps b @ [lbl] else db_deps b),
       db_recipe := map_option (\<lambda>r. r\<lparr>rb_deps := rb_deps r @ [canonical]\<rparr>) (db_recipe b)\<rparr>"

definition builder_finish :: "crates \<Rightarrow> digest_builder \<Rightarrow> target_digest \<times> rule_recipe option" where
  "builder_finish c b =
     (let direct = sha256 c (db_direct b);
          overall = sha256 c (db_overall b @ direct)
      in (\<lparr>td_overall = overall, td_direct = direct, td_deps = (if db_deps b = [] then None else Some (db_deps b))\<rparr>,
          map_option (\<lambda>r. rule_recipe_new c (sha256 c (rb_fixed r)) (rb_sources r) (rb_deps r)) (db_recipe b)))"

subsection \<open>Nodes, slots and the context\<close>

record input_group =
  ig_extension :: string
  ig_labels :: "string list"

record prepared_rule =
  pr_definition_digest :: bytes
  pr_shared_inputs :: "input_group option"
  pr_loading_inputs :: "string list"

record rule_node =
  rn_rule :: rule
  rn_prepared :: prepared_rule
  rn_digest :: "target_digest option"
  rn_input_positions :: "nat option list option"

text \<open>\<^verbatim>\<open>NonZeroUsize\<close> positions count from one in the code and from zero here.\<close>

record label_slot =
  sl_rule :: "nat option"
  sl_source :: "nat option"
  sl_replaced_canonical :: "nat option"

record labels =
  lb_ids :: "(string, nat) btree"
  lb_slots :: "label_slot list"

definition slot_default :: label_slot where
  "slot_default = \<lparr>sl_rule = None, sl_source = None, sl_replaced_canonical = None\<rparr>"

datatype hash_error =
    OutOfFuel
  | DigestSetTwice
  | UnableToFindRule string
  | UnexpectedGeneratingRule string
  | SourceError string
  | CqueryUnsupported
  | UnboundRoot
  | MissingSyntheticRoot string
  | PartialFailed partial_error

record walk_env =
  we_crates :: crates
  we_options :: hash_options
  we_soft_digest :: "label \<Rightarrow> string + bytes option"
  we_repo_nodes :: "(string, string) btree"
  we_repo_mapping :: "(string, string) btree"
  we_seed_hash :: bytes
  we_package_bzl_seeds :: "(string, bytes) btree"
  we_always_affected_seed :: bytes

record hash_context =
  cx_nodes :: "rule_node list"
  cx_labels :: labels
  cx_source_digests :: "bytes list"
  cx_instances :: "(string, string list) btree option"
  cx_group_digests :: "(string, bytes \<times> bytes) btree"
  cx_bzl_digests :: "(string, bytes option) btree"
  cx_cycle_warnings :: "string list"
  cx_recorder :: "recipe_recorder option"

definition slot_id :: "labels \<Rightarrow> string \<Rightarrow> nat option" where
  "slot_id ls name = bt_get (lb_ids ls) name"

definition slot_get :: "labels \<Rightarrow> string \<Rightarrow> label_slot option" where
  "slot_get ls name = map_option (\<lambda>i. lb_slots ls ! i) (slot_id ls name)"

text \<open>\<^verbatim>\<open>Labels::slot\<close>: the id of the name's slot, which is added when there is none.\<close>

definition slot_entry :: "labels \<Rightarrow> string \<Rightarrow> nat \<times> labels" where
  "slot_entry ls name =
     (case slot_id ls name of
        Some i \<Rightarrow> (i, ls)
      | None \<Rightarrow> (length (lb_slots ls), ls\<lparr>lb_ids := bt_insert name (length (lb_slots ls)) (lb_ids ls),
                                          lb_slots := lb_slots ls @ [slot_default]\<rparr>))"

definition node_digest_of :: "hash_context \<Rightarrow> nat \<Rightarrow> target_digest option" where
  "node_digest_of cx n = rn_digest (cx_nodes cx ! n)"

definition node_name :: "hash_context \<Rightarrow> nat \<Rightarrow> string" where
  "node_name cx n = rule_name (rn_rule (cx_nodes cx ! n))"

definition slot_completed :: "hash_context \<Rightarrow> label_slot \<Rightarrow> string \<Rightarrow> target_digest option" where
  "slot_completed cx slot key =
     Option.bind
       (case sl_replaced_canonical slot of
          Some n \<Rightarrow> Some n
        | None \<Rightarrow> Option.bind (sl_rule slot) (\<lambda>n. if node_name cx n = key then Some n else None))
       (node_digest_of cx)"

datatype input = ISource bytes | IRule string nat "bytes option"

definition slot_resolving :: "hash_context \<Rightarrow> label_slot \<Rightarrow> string \<Rightarrow> input option" where
  "slot_resolving cx slot key =
     (let prior = map_option td_overall (Option.bind (sl_replaced_canonical slot) (node_digest_of cx))
      in map_option (\<lambda>n. IRule key n prior) (sl_rule slot))"

definition slot_source :: "hash_context \<Rightarrow> label_slot \<Rightarrow> bytes option" where
  "slot_source cx slot = map_option (\<lambda>i. cx_source_digests cx ! i) (sl_source slot)"

text \<open>\<^verbatim>\<open>rules.slot(label).set_source(&mut source_digests, digest)\<close>.\<close>

definition set_source :: "label \<Rightarrow> bytes \<Rightarrow> hash_context \<Rightarrow> hash_context" where
  "set_source lbl digest cx =
     (case slot_entry (cx_labels cx) lbl of
        (i, ls) \<Rightarrow>
          (case sl_source (lb_slots ls ! i) of
             Some j \<Rightarrow> cx\<lparr>cx_labels := ls, cx_source_digests := (cx_source_digests cx)[j := digest]\<rparr>
           | None \<Rightarrow> cx\<lparr>cx_labels := ls\<lparr>lb_slots := (lb_slots ls)[i := (lb_slots ls ! i)\<lparr>sl_source := Some (length (cx_source_digests cx))\<rparr>]\<rparr>,
                         cx_source_digests := cx_source_digests cx @ [digest]\<rparr>))"

definition configured_label_instances :: "string list \<Rightarrow> (string, string list) btree" where
  "configured_label_instances keys =
     map (\<lambda>(lbl, ks). (lbl, sort ks))
       (fold (\<lambda>key m. case split_configured key of
                        (lbl, Some _) \<Rightarrow> bt_upsert lbl [] (\<lambda>ks. ks @ [key]) m
                      | (_, None) \<Rightarrow> m) keys [])"

definition rule_keys :: "labels \<Rightarrow> string list" where
  "rule_keys ls = map fst (filter (\<lambda>(_, i). sl_rule (lb_slots ls ! i) \<noteq> None) (lb_ids ls))"

definition label_instances :: "hash_context \<Rightarrow> (string, string list) btree \<times> hash_context" where
  "label_instances cx =
     (case cx_instances cx of
        Some m \<Rightarrow> (m, cx)
      | None \<Rightarrow> (let m = configured_label_instances (rule_keys (cx_labels cx)) in (m, cx\<lparr>cx_instances := Some m\<rparr>)))"

definition resolve_input :: "string \<Rightarrow> label \<Rightarrow> nat option \<Rightarrow> nat list \<Rightarrow> hash_context \<Rightarrow> input option \<times> hash_context" where
  "resolve_input encoded_input input_label input_slot path cx =
     (let ls = cx_labels cx;
          bare = (case input_slot of Some i \<Rightarrow> Some (lb_slots ls ! i) | None \<Rightarrow> slot_get ls input_label);
          configured = (if encoded_input \<noteq> input_label
                        then Option.bind (slot_get ls encoded_input) (\<lambda>s. slot_resolving cx s encoded_input) else None)
      in case Option.bind bare (slot_source cx) of
           Some digest \<Rightarrow> (Some (ISource digest), cx)
         | None \<Rightarrow>
        (case configured of
           Some resolved \<Rightarrow> (Some resolved, cx)
         | None \<Rightarrow>
        (case Option.bind bare (\<lambda>s. slot_resolving cx s input_label) of
           Some resolved \<Rightarrow> (Some resolved, cx)
         | None \<Rightarrow>
        (case label_instances cx of
           (instances, cx') \<Rightarrow>
          (case bt_get instances input_label of
             Some (fallback # _) \<Rightarrow>
               if list_ex (\<lambda>n. node_name cx' n = fallback) path then (None, cx')
               else (Option.bind (slot_get ls fallback) (\<lambda>s. slot_resolving cx' s fallback), cx')
           | _ \<Rightarrow> (None, cx'))))))"

definition is_extension_repo :: "string \<Rightarrow> bool" where
  "is_extension_repo canonical \<longleftrightarrow> 2 \<le> length (filter (\<lambda>ch. ch = CHR ''+'') canonical)"

definition extension_usage_prefix :: "string \<Rightarrow> string option" where
  "extension_usage_prefix canonical =
     (if \<not> is_extension_repo canonical then None
      else map_option fst (rsplit_once (CHR ''+'') canonical))"

definition extension_view_node :: "string \<Rightarrow> string \<Rightarrow> string" where
  "extension_view_node node extension = node @ ''%'' @ extension"

definition rule_extension :: "walk_env \<Rightarrow> string \<Rightarrow> string option" where
  "rule_extension e key =
     (case strip_prefix ''@'' (target_label key) of
        None \<Rightarrow> None
      | Some rest \<Rightarrow>
     (case split_once_str ''//'' rest of
        None \<Rightarrow> None
      | Some (repo, _) \<Rightarrow>
     (case strip_prefix ''@'' repo of
        Some canonical \<Rightarrow> if canonical = [] then None else extension_usage_prefix canonical
      | None \<Rightarrow> Option.bind (bt_get (we_repo_mapping e) repo) extension_usage_prefix)))"

subsection \<open>Seeds\<close>

definition bzl_paths :: "rule \<Rightarrow> string list" where
  "bzl_paths r =
     bs_of_list (filter (\<lambda>p. (ends_with ''.bzl'' p \<or> ends_with ''.scl'' p) \<and> \<not> is_absolute p \<and> \<not> starts_with ''external/'' p \<and>
         \<not> starts_with ''@'' p \<and> \<not> starts_with ''../'' p)
       (map (\<lambda>frame. hd (split_on (CHR '':'') frame)) (rule_instantiation_stack r)))"

fun hash_bzl_paths :: "walk_env \<Rightarrow> string list \<Rightarrow> bytes \<Rightarrow> hash_context \<Rightarrow> (hash_error + bytes) \<times> hash_context" where
  "hash_bzl_paths e [] acc cx = (Inr acc, cx)"
| "hash_bzl_paths e (p # ps) acc cx =
     (case bt_get (cx_bzl_digests cx) p of
        Some cached \<Rightarrow> hash_bzl_paths e ps (acc @ (case cached of None \<Rightarrow> [] | Some d \<Rightarrow> as_bytes p @ d)) cx
      | None \<Rightarrow>
          (case we_soft_digest e (''//'' @ p) of
             Inl msg \<Rightarrow> (Inl (SourceError msg), cx)
           | Inr digest \<Rightarrow>
               hash_bzl_paths e ps (acc @ (case digest of None \<Rightarrow> [] | Some d \<Rightarrow> as_bytes p @ d))
                 (cx\<lparr>cx_bzl_digests := bt_insert p digest (cx_bzl_digests cx)\<rparr>)))"

definition rule_bzl_seed :: "walk_env \<Rightarrow> rule \<Rightarrow> hash_context \<Rightarrow> (hash_error + bytes option) \<times> hash_context" where
  "rule_bzl_seed e r cx =
     (if rule_instantiation_stack r = [] then (Inr None, cx)
      else case hash_bzl_paths e (bzl_paths r) [] cx of
             (Inl err, cx') \<Rightarrow> (Inl err, cx')
           | (Inr bs, cx') \<Rightarrow> (Inr (Some (sha256 (we_crates e) bs)), cx'))"

subsection \<open>Shared repository inputs\<close>

fun group_digest :: "hash_context \<Rightarrow> string list \<Rightarrow> bytes \<times> bytes \<Rightarrow> (bytes \<times> bytes) option" where
  "group_digest cx [] acc = Some acc"
| "group_digest cx (lbl # lbls) (names, transitive) =
     (case slot_get (cx_labels cx) lbl of
        None \<Rightarrow> None
      | Some slot \<Rightarrow>
          if sl_source slot \<noteq> None then None
          else (case slot_completed cx slot lbl of
                  None \<Rightarrow> None
                | Some digest \<Rightarrow> group_digest cx lbls (names @ as_bytes lbl, transitive @ td_overall digest)))"

definition use_group :: "input_group \<Rightarrow> bytes \<times> bytes \<Rightarrow> digest_builder \<Rightarrow> digest_builder" where
  "use_group grp d b =
     (let b1 = add_direct (fst d) b
      in b1\<lparr>db_overall := snd d,
            db_deps := (if db_track_deps b1 then ig_labels grp else db_deps b1),
            db_recipe := map_option (\<lambda>r. r\<lparr>rb_deps := ig_labels grp\<rparr>) (db_recipe b1)\<rparr>)"

text \<open>\<^verbatim>\<open>apply_repository_inputs\<close>; \<open>None\<close> is the answer \<^verbatim>\<open>false\<close>.\<close>

definition apply_repository_inputs :: "input_group \<Rightarrow> digest_builder \<Rightarrow> hash_context \<Rightarrow> (digest_builder \<times> hash_context) option" where
  "apply_repository_inputs grp b cx =
     (case bt_get (cx_group_digests cx) (ig_extension grp) of
        Some d \<Rightarrow> Some (use_group grp d b, cx)
      | None \<Rightarrow>
          (case group_digest cx (ig_labels grp) ([], []) of
             None \<Rightarrow> None
           | Some d \<Rightarrow> Some (use_group grp d b, cx\<lparr>cx_group_digests := bt_insert (ig_extension grp) d (cx_group_digests cx)\<rparr>)))"

subsection \<open>The walk\<close>

type_synonym walk_step = "nat \<Rightarrow> nat list \<Rightarrow> hash_context \<Rightarrow> (hash_error + target_digest) \<times> hash_context"

definition has_rule :: "hash_context \<Rightarrow> string \<Rightarrow> bool" where
  "has_rule cx key \<longleftrightarrow> (case slot_get (cx_labels cx) key of None \<Rightarrow> False | Some slot \<Rightarrow> sl_rule slot \<noteq> None)"

text \<open>The node an input is read through: the view without the extension's own repositories, when there is one.\<close>

definition extension_view :: "hash_context \<Rightarrow> string option \<Rightarrow> string \<Rightarrow> string option" where
  "extension_view cx extension encoded_input =
     (case extension of
        None \<Rightarrow> None
      | Some ext \<Rightarrow>
     (case strip_prefix EXTERNAL encoded_input of
        None \<Rightarrow> None
      | Some node \<Rightarrow>
          (let view = EXTERNAL @ extension_view_node node ext
           in if has_rule cx view then Some view else None)))"

definition visit_soft :: "walk_env \<Rightarrow> label \<Rightarrow> digest_builder \<Rightarrow> hash_context \<Rightarrow> (hash_error + digest_builder) \<times> hash_context" where
  "visit_soft e input_label b cx =
     (case we_soft_digest e input_label of
        Inl msg \<Rightarrow> (Inl (SourceError msg), cx)
      | Inr None \<Rightarrow> (Inr b, cx)
      | Inr (Some digest) \<Rightarrow> (Inr (add_source input_label digest b), set_source input_label digest cx))"

text \<open>A dependency's overall digest: a prior one, the node's own when it is finished, or the walk's.\<close>

definition visit_dependency :: "walk_step \<Rightarrow> nat \<Rightarrow> bytes option \<Rightarrow> nat list \<Rightarrow> hash_context \<Rightarrow> (hash_error + bytes) \<times> hash_context" where
  "visit_dependency walk n prior path cx =
     (case prior of
        Some digest \<Rightarrow> (Inr digest, cx)
      | None \<Rightarrow>
     (case node_digest_of cx n of
        Some digest \<Rightarrow> (Inr (td_overall digest), cx)
      | None \<Rightarrow>
          (case walk n path cx of
             (Inl err, cx') \<Rightarrow> (Inl err, cx')
           | (Inr digest, cx') \<Rightarrow> (Inr (td_overall digest), cx'))))"

definition input_position :: "rule_node \<Rightarrow> nat \<Rightarrow> nat option" where
  "input_position node position =
     (case rn_input_positions node of
        None \<Rightarrow> None
      | Some ids \<Rightarrow> if position < length ids then ids ! position else None)"

definition visit_input :: "walk_step \<Rightarrow> walk_env \<Rightarrow> nat \<Rightarrow> string option \<Rightarrow> nat list \<Rightarrow> nat \<Rightarrow> string \<Rightarrow>
    digest_builder \<Rightarrow> hash_context \<Rightarrow> (hash_error + digest_builder) \<times> hash_context" where
  "visit_input walk e n extension path position input b cx =
     (let (encoded_input, input_slot) =
            (case extension_view cx extension input of
               Some view \<Rightarrow> (view, None)
             | None \<Rightarrow> (input, input_position (cx_nodes cx ! n) position));
          b1 = add_direct (as_bytes encoded_input) b;
          input_label = target_label encoded_input
      in case resolve_input encoded_input input_label input_slot path cx of
           (Some (ISource digest), cx1) \<Rightarrow> (Inr (add_source input_label digest b1), cx1)
         | (Some (IRule dependency m prior), cx1) \<Rightarrow>
             if dependency = node_name cx1 n then visit_soft e input_label b1 cx1
             else (case visit_dependency walk m prior path cx1 of
                     (Inl err, cx2) \<Rightarrow> (Inl err, cx2)
                   | (Inr digest, cx2) \<Rightarrow> (Inr (add_transitive dependency (node_name cx2 m) digest b1), cx2))
         | (None, cx1) \<Rightarrow> visit_soft e input_label b1 cx1)"

fun visit_inputs :: "walk_step \<Rightarrow> walk_env \<Rightarrow> nat \<Rightarrow> string option \<Rightarrow> nat list \<Rightarrow> nat \<Rightarrow> string list \<Rightarrow>
    digest_builder \<Rightarrow> hash_context \<Rightarrow> (hash_error + digest_builder) \<times> hash_context" where
  "visit_inputs walk e n extension path position [] b cx = (Inr b, cx)"
| "visit_inputs walk e n extension path position (i # is) b cx =
     (case visit_input walk e n extension path position i b cx of
        (Inl err, cx') \<Rightarrow> (Inl err, cx')
      | (Inr b', cx') \<Rightarrow> visit_inputs walk e n extension path (Suc position) is b' cx')"

definition visit_package_group :: "walk_step \<Rightarrow> nat \<Rightarrow> nat list \<Rightarrow> string \<Rightarrow>
    digest_builder \<Rightarrow> hash_context \<Rightarrow> (hash_error + digest_builder) \<times> hash_context" where
  "visit_package_group walk n path grp b cx =
     (if grp = target_label (node_name cx n) then (Inr b, cx)
      else case slot_get (cx_labels cx) grp of
             None \<Rightarrow> (Inr b, cx)
           | Some slot \<Rightarrow>
          (case sl_rule slot of
             None \<Rightarrow> (Inr b, cx)
           | Some m \<Rightarrow>
               if rule_class (rn_rule (cx_nodes cx ! m)) \<noteq> ''package_group'' then (Inr b, cx)
               else (let b1 = add_direct (as_bytes grp) b
                     in case visit_dependency walk m (map_option td_overall (slot_completed cx slot grp)) path cx of
                          (Inl err, cx') \<Rightarrow> (Inl err, cx')
                        | (Inr digest, cx') \<Rightarrow> (Inr (add_transitive grp grp digest b1), cx'))))"

fun visit_package_groups :: "walk_step \<Rightarrow> nat \<Rightarrow> nat list \<Rightarrow> string list \<Rightarrow>
    digest_builder \<Rightarrow> hash_context \<Rightarrow> (hash_error + digest_builder) \<times> hash_context" where
  "visit_package_groups walk n path [] b cx = (Inr b, cx)"
| "visit_package_groups walk n path (g # gs) b cx =
     (case visit_package_group walk n path g b cx of
        (Inl err, cx') \<Rightarrow> (Inl err, cx')
      | (Inr b', cx') \<Rightarrow> visit_package_groups walk n path gs b' cx')"

definition seeded_builder :: "walk_env \<Rightarrow> rule_node \<Rightarrow> bytes option \<Rightarrow> bool \<Rightarrow> digest_builder" where
  "seeded_builder e node bzl_seed recording =
     (let b = add_direct (we_seed_hash e) (add_direct (pr_definition_digest (rn_prepared node))
                (builder_new (track_deps (we_options e)) recording));
          b1 = (case bzl_seed of
                  Some seed \<Rightarrow> add_direct seed b
                | None \<Rightarrow>
                    (case bt_get (we_package_bzl_seeds e) (label_package (target_label (rule_name (rn_rule node)))) of
                       Some seed \<Rightarrow> add_direct seed b
                     | None \<Rightarrow> b))
      in if always_affected_tags (we_options e) \<noteq> [] \<and>
            list_ex (\<lambda>tag. tag \<in> set (always_affected_tags (we_options e))) (rule_tags (rn_rule node))
         then add_direct (we_always_affected_seed e) b1 else b1)"

definition node_extension :: "walk_env \<Rightarrow> rule_node \<Rightarrow> string option" where
  "node_extension e node =
     (if \<not> use_cquery (bazel_opts (we_options e)) \<and> label_only_module_extensions (bazel_opts (we_options e)) \<noteq> []
      then rule_extension e (rule_name (rn_rule node)) else None)"

definition node_inputs :: "walk_env \<Rightarrow> rule_node \<Rightarrow> string list" where
  "node_inputs e node =
     (if rn_input_positions node \<noteq> None then rule_input (rn_rule node)
      else walk_inputs (bazel_opts (we_options e)) (we_repo_nodes e) (rn_rule node))"

text \<open>\<^verbatim>\<open>rule.digest.set(digest).expect(..)\<close> and the recorder's entry.\<close>

definition record_recipe :: "nat \<Rightarrow> rule_recipe option \<Rightarrow> hash_context \<Rightarrow> hash_context" where
  "record_recipe n recipe cx =
     (case (cx_recorder cx, recipe) of
        (Some recorder, Some rcp) \<Rightarrow> cx\<lparr>cx_recorder := Some (record_rule (node_name cx n) rcp recorder)\<rparr>
      | _ \<Rightarrow> cx)"

definition complete_node :: "walk_env \<Rightarrow> nat \<Rightarrow> digest_builder \<Rightarrow> hash_context \<Rightarrow> (hash_error + target_digest) \<times> hash_context" where
  "complete_node e n b cx =
     (let (digest, recipe) = builder_finish (we_crates e) b;
          cx1 = record_recipe n recipe cx
      in if node_digest_of cx1 n \<noteq> None then (Inl DigestSetTwice, cx1)
         else (Inr digest, cx1\<lparr>cx_nodes := (cx_nodes cx1)[n := (cx_nodes cx1 ! n)\<lparr>rn_digest := Some digest\<rparr>]\<rparr>))"

definition hash_node :: "walk_step \<Rightarrow> walk_env \<Rightarrow> nat \<Rightarrow> nat list \<Rightarrow> hash_context \<Rightarrow> (hash_error + target_digest) \<times> hash_context" where
  "hash_node walk e n path cx =
     (let node = cx_nodes cx ! n
      in case rule_bzl_seed e (rn_rule node) cx of
           (Inl err, cx1) \<Rightarrow> (Inl err, cx1)
         | (Inr bzl_seed, cx1) \<Rightarrow>
        (let b = seeded_builder e node bzl_seed (cx_recorder cx1 \<noteq> None);
             inputs = node_inputs e node;
             (inputs', b', cx2) =
               (case pr_shared_inputs (rn_prepared node) of
                  None \<Rightarrow> (inputs, b, cx1)
                | Some grp \<Rightarrow>
                    (case apply_repository_inputs grp b cx1 of
                       Some (b', cx2) \<Rightarrow> (inputs, b', cx2)
                     | None \<Rightarrow> (inputs @ ig_labels grp, b, cx1)))
         in case visit_inputs walk e n (node_extension e node) path 0 inputs' b' cx2 of
              (Inl err, cx3) \<Rightarrow> (Inl err, cx3)
            | (Inr b3, cx3) \<Rightarrow>
                (let groups = (if ''visibility'' \<in> set (ignored_attributes (we_options e)) then []
                               else visibility_package_groups (rn_rule node))
                 in case visit_package_groups walk n path groups b3 cx3 of
                      (Inl err, cx4) \<Rightarrow> (Inl err, cx4)
                    | (Inr b4, cx4) \<Rightarrow> complete_node e n b4 cx4)))"

text \<open>A back edge is hashed from the definition of its target only.\<close>

definition cycle_placeholder :: "walk_env \<Rightarrow> rule_node \<Rightarrow> target_digest" where
  "cycle_placeholder e node =
     (let d = sha256 (we_crates e) (as_bytes ''cycle'' @ pr_definition_digest (rn_prepared node))
      in \<lparr>td_overall = d, td_direct = d, td_deps = None\<rparr>)"

primrec node_digest :: "walk_env \<Rightarrow> nat \<Rightarrow> walk_step" where
  "node_digest e 0 n path cx = (Inl OutOfFuel, cx)"
| "node_digest e (Suc fuel) n path cx =
     (case node_digest_of cx n of
        Some digest \<Rightarrow> (Inr digest, cx)
      | None \<Rightarrow>
          if n \<in> set path then
            (Inr (cycle_placeholder e (cx_nodes cx ! n)),
             cx\<lparr>cx_cycle_warnings := List.insert (node_name cx n) (cx_cycle_warnings cx)\<rparr>)
          else hash_node (node_digest e fuel) e n (path @ [n]) cx)"

definition rule_digest :: "walk_env \<Rightarrow> string \<Rightarrow> hash_context \<Rightarrow> (hash_error + target_digest) \<times> hash_context" where
  "rule_digest e key cx =
     (case slot_get (cx_labels cx) key of
        None \<Rightarrow> (Inl (UnableToFindRule key), cx)
      | Some slot \<Rightarrow>
     (case Option.bind (sl_replaced_canonical slot) (node_digest_of cx) of
        Some digest \<Rightarrow> (Inr digest, cx)
      | None \<Rightarrow>
     (case sl_rule slot of
        None \<Rightarrow> (Inl (UnableToFindRule key), cx)
      | Some n \<Rightarrow> node_digest e (Suc (length (cx_nodes cx))) n [] cx)))"

end
