(* ===== verification/Hash_Total.thy ===== *)
theory Hash_Total
  imports Hash_Walk
begin

section \<open>The walk returns\<close>

text \<open>
  Whatever the graph, cycles included, \<^verbatim>\<open>node_digest\<close> of \<^verbatim>\<open>src/hash.rs\<close> returns: its recursion is bounded
  by the number of rule nodes and no node is completed twice, so the \<^verbatim>\<open>expect\<close> on the digest cell never
  fails. What a call owes its callers is stated once, as \<open>walk_ok\<close>, and carried through the loops.
\<close>

definition static_node :: "rule_node \<Rightarrow> rule_node" where
  "static_node node = node\<lparr>rn_digest := None\<rparr>"

lemma static_node_sel [simp]:
  "rn_rule (static_node node) = rn_rule node" "rn_prepared (static_node node) = rn_prepared node"
  "rn_input_positions (static_node node) = rn_input_positions node" "rn_digest (static_node node) = None"
  by (simp_all add: static_node_def)

lemma static_node_digest [simp]: "static_node (node\<lparr>rn_digest := d\<rparr>) = static_node node"
  by (simp add: static_node_def)

text \<open>Every index points into its list.\<close>

definition slot_ok :: "nat \<Rightarrow> nat \<Rightarrow> label_slot \<Rightarrow> bool" where
  "slot_ok nodes sources slot \<longleftrightarrow>
     pred_option (\<lambda>n. n < nodes) (sl_rule slot) \<and> pred_option (\<lambda>n. n < nodes) (sl_replaced_canonical slot) \<and>
     pred_option (\<lambda>j. j < sources) (sl_source slot)"

definition positions_ok :: "nat \<Rightarrow> rule_node \<Rightarrow> bool" where
  "positions_ok slots node \<longleftrightarrow> pred_option (list_all (pred_option (\<lambda>i. i < slots))) (rn_input_positions node)"

definition graph_ok :: "hash_context \<Rightarrow> bool" where
  "graph_ok cx \<longleftrightarrow>
     list_all (slot_ok (length (cx_nodes cx)) (length (cx_source_digests cx))) (lb_slots (cx_labels cx)) \<and>
     list_all (\<lambda>(_, i). i < length (lb_slots (cx_labels cx))) (lb_ids (cx_labels cx)) \<and>
     list_all (positions_ok (length (lb_slots (cx_labels cx)))) (cx_nodes cx)"

definition keeps :: "nat set \<Rightarrow> hash_context \<Rightarrow> hash_context \<Rightarrow> bool" where
  "keeps P cx cx' \<longleftrightarrow>
     graph_ok cx' \<and> map static_node (cx_nodes cx') = map static_node (cx_nodes cx) \<and>
     (\<forall>p \<in> P. node_digest_of cx' p = node_digest_of cx p)"

definition settled :: "hash_error + 'a \<Rightarrow> bool" where
  "settled r \<longleftrightarrow> r \<noteq> Inl OutOfFuel \<and> r \<noteq> Inl DigestSetTwice"

definition walk_ok :: "nat \<Rightarrow> walk_step \<Rightarrow> nat list \<Rightarrow> bool" where
  "walk_ok N walk path \<longleftrightarrow>
     (\<forall>m cx r cx'. graph_ok cx \<longrightarrow> length (cx_nodes cx) = N \<longrightarrow> m < N \<longrightarrow> walk m path cx = (r, cx') \<longrightarrow>
        keeps (set path) cx cx' \<and> settled r)"

lemma settled_simps [simp]: "settled (Inr x)" "settled (Inl (SourceError m))"
  by (simp_all add: settled_def)

lemma settled_Inl: "settled (Inl err :: hash_error + 'a) \<Longrightarrow> settled (Inl err :: hash_error + 'b)"
  by (simp add: settled_def)

lemma keeps_refl [simp]: "graph_ok cx \<Longrightarrow> keeps P cx cx"
  by (simp add: keeps_def)

lemma keeps_trans: "keeps P cx cx' \<Longrightarrow> keeps P cx' cx'' \<Longrightarrow> keeps P cx cx''"
  by (simp add: keeps_def)

lemma keeps_graph: "keeps P cx cx' \<Longrightarrow> graph_ok cx'"
  by (simp add: keeps_def)

lemma keeps_length: "keeps P cx cx' \<Longrightarrow> length (cx_nodes cx') = length (cx_nodes cx)"
  unfolding keeps_def by (metis length_map)

lemma keeps_same_nodes:
  "graph_ok cx' \<Longrightarrow> cx_nodes cx' = cx_nodes cx \<Longrightarrow> keeps P cx cx'"
  by (simp add: keeps_def node_digest_of_def)

lemma graph_ok_cong:
  "graph_ok cx \<Longrightarrow> cx_nodes cx' = cx_nodes cx \<Longrightarrow> cx_labels cx' = cx_labels cx \<Longrightarrow> cx_source_digests cx' = cx_source_digests cx \<Longrightarrow> graph_ok cx'"
  by (simp add: graph_ok_def)

lemma keeps_other: "graph_ok cx \<Longrightarrow> cx_nodes cx' = cx_nodes cx \<Longrightarrow> cx_labels cx' = cx_labels cx \<Longrightarrow>
    cx_source_digests cx' = cx_source_digests cx \<Longrightarrow> keeps P cx cx'"
  by (blast intro: keeps_same_nodes graph_ok_cong)

lemma slot_get_ok:
  assumes "graph_ok cx" "slot_get (cx_labels cx) key = Some slot"
  shows "slot_ok (length (cx_nodes cx)) (length (cx_source_digests cx)) slot"
proof -
  obtain i where i: "bt_get (lb_ids (cx_labels cx)) key = Some i" "slot = lb_slots (cx_labels cx) ! i"
    using assms(2) by (auto simp: slot_get_def slot_id_def)
  then have "(key, i) \<in> set (lb_ids (cx_labels cx))" by (simp add: map_of_SomeD)
  then show ?thesis using assms(1) i(2) by (auto simp: graph_ok_def list_all_iff)
qed

lemma position_ok:
  assumes "graph_ok cx" "n < length (cx_nodes cx)" "input_position (cx_nodes cx ! n) k = Some i"
  shows "slot_ok (length (cx_nodes cx)) (length (cx_source_digests cx)) (lb_slots (cx_labels cx) ! i)"
proof -
  have "positions_ok (length (lb_slots (cx_labels cx))) (cx_nodes cx ! n)" using assms(1,2) by (simp add: graph_ok_def list_all_iff)
  then have "i < length (lb_slots (cx_labels cx))"
    using assms(3) by (auto simp: positions_ok_def input_position_def list_all_length split: option.splits if_splits)
  then show ?thesis using assms(1) by (simp add: graph_ok_def list_all_iff)
qed

lemma slot_resolving_ok:
  "slot_ok N S slot \<Longrightarrow> slot_resolving cx slot key = Some (IRule d m prior) \<Longrightarrow> m < N"
  by (auto simp: slot_resolving_def slot_ok_def Let_def)

lemma slot_resolving_rule: "slot_resolving cx slot key \<noteq> Some (ISource d)"
  by (auto simp: slot_resolving_def Let_def)

lemma label_instances_keeps:
  assumes "label_instances cx = (m, cx')"
  shows "cx_nodes cx' = cx_nodes cx" "cx_labels cx' = cx_labels cx" "cx_source_digests cx' = cx_source_digests cx"
    "cx_recorder cx' = cx_recorder cx"
  using assms by (auto simp: label_instances_def Let_def split: option.splits)

lemma resolve_input_keeps:
  assumes "resolve_input enc lbl pos path cx = (r, cx')" "graph_ok cx"
  shows "keeps P cx cx'"
  using assms label_instances_keeps
  by (auto simp: resolve_input_def Let_def intro!: keeps_other split: option.splits prod.splits list.splits if_splits)

lemma resolve_input_range:
  assumes "resolve_input enc lbl pos path cx = (Some (IRule d m prior), cx')" "graph_ok cx"
    and "\<And>i. pos = Some i \<Longrightarrow> slot_ok (length (cx_nodes cx)) (length (cx_source_digests cx)) (lb_slots (cx_labels cx) ! i)"
  shows "m < length (cx_nodes cx)"
proof -
  let ?N = "length (cx_nodes cx)" and ?S = "length (cx_source_digests cx)"
  define bare where "bare = (case pos of Some i \<Rightarrow> Some (lb_slots (cx_labels cx) ! i) | None \<Rightarrow> slot_get (cx_labels cx) lbl)"
  have bare: "slot_ok ?N ?S s" if "bare = Some s" for s
    using that assms(3) slot_get_ok [OF assms(2)] by (auto simp: bare_def split: option.splits)
  obtain s key cy where "slot_ok ?N ?S s" "slot_resolving cy s key = Some (IRule d m prior)"
    using assms(1) bare slot_get_ok [OF assms(2)]
    unfolding resolve_input_def Let_def bare_def [symmetric]
    by (auto split: option.splits prod.splits list.splits if_splits simp: bind_eq_Some_conv) blast+
  then show ?thesis by (rule slot_resolving_ok)
qed

lemma slot_entry_ok:
  assumes "slot_entry ls name = (i, ls')" "list_all (\<lambda>(_, i). i < length (lb_slots ls)) (lb_ids ls)"
  shows "i < length (lb_slots ls')" "length (lb_slots ls) \<le> length (lb_slots ls')"
    "list_all (\<lambda>(_, i). i < length (lb_slots ls')) (lb_ids ls')"
    "set (lb_slots ls') \<subseteq> insert slot_default (set (lb_slots ls))"
proof -
  have ins: "set (bt_insert k v m) \<subseteq> insert (k, v) (set m)" for k :: string and v :: nat and m
    by (induction m rule: bt_insert.induct) auto
  show "i < length (lb_slots ls')" "length (lb_slots ls) \<le> length (lb_slots ls')"
    "set (lb_slots ls') \<subseteq> insert slot_default (set (lb_slots ls))"
    using assms by (auto simp: slot_entry_def slot_id_def list_all_iff dest: map_of_SomeD split: option.splits)
  show "list_all (\<lambda>(_, i). i < length (lb_slots ls')) (lb_ids ls')"
    using assms ins [of name "length (lb_slots ls)" "lb_ids ls"]
    by (fastforce simp: slot_entry_def list_all_iff split: option.splits)
qed

lemma slot_ok_mono: "slot_ok N S slot \<Longrightarrow> S \<le> S' \<Longrightarrow> slot_ok N S' slot"
  by (auto simp: slot_ok_def elim!: option.pred_mono_strong)

lemma positions_ok_mono: "positions_ok S node \<Longrightarrow> S \<le> S' \<Longrightarrow> positions_ok S' node"
  by (fastforce simp: positions_ok_def list_all_iff elim!: option.pred_mono_strong)

lemma set_source_keeps:
  assumes "graph_ok cx"
  shows "keeps P cx (set_source lbl d cx)"
proof (rule keeps_same_nodes)
  obtain i ls where e: "slot_entry (cx_labels cx) lbl = (i, ls)" by force
  note ok = slot_entry_ok [OF e] assms [unfolded graph_ok_def]
  have slots: "\<forall>slot \<in> set (lb_slots ls). slot_ok (length (cx_nodes cx)) (length (cx_source_digests cx)) slot"
    using ok(4,5) by (auto simp: list_all_iff slot_ok_def slot_default_def)
  have pos: "list_all (positions_ok (length (lb_slots ls))) (cx_nodes cx)"
    using ok by (auto simp: list_all_iff intro: positions_ok_mono)
  show "graph_ok (set_source lbl d cx)"
  proof (cases "sl_source (lb_slots ls ! i)")
    case None
    have "slot_ok (length (cx_nodes cx)) (Suc (length (cx_source_digests cx))) slot"
      if "slot \<in> set ((lb_slots ls)[i := (lb_slots ls ! i)\<lparr>sl_source := Some (length (cx_source_digests cx))\<rparr>])" for slot
    proof -
      have "slot_ok (length (cx_nodes cx)) (length (cx_source_digests cx)) (lb_slots ls ! i)" using slots ok by simp
      then show ?thesis using slots that by (auto dest!: subsetD [OF set_update_subset_insert] simp: slot_ok_def intro: slot_ok_mono [unfolded slot_ok_def] elim!: option.pred_mono_strong)
    qed
    then show ?thesis using None e ok pos slots by (simp add: set_source_def graph_ok_def list_all_iff)
  next
    case (Some j)
    then show ?thesis using e ok pos slots by (simp add: set_source_def graph_ok_def list_all_iff)
  qed
  show "cx_nodes (set_source lbl d cx) = cx_nodes cx"
    using e by (simp add: set_source_def split: option.splits)
qed

lemma hash_bzl_paths_keeps:
  "hash_bzl_paths e ps acc cx = (r, cx') \<Longrightarrow> graph_ok cx \<Longrightarrow> keeps P cx cx' \<and> settled r"
proof (induction e ps acc cx arbitrary: r cx' rule: hash_bzl_paths.induct)
  case (2 e p ps acc cx)
  have step: "keeps P cx (cx\<lparr>cx_bzl_digests := x\<rparr>)" for x using "2.prems"(2) by (intro keeps_other) simp_all
  show ?case
  proof (cases "bt_get (cx_bzl_digests cx) p")
    case None
    show ?thesis
    proof (cases "we_soft_digest e (''//'' @ p)")
      case (Inr digest)
      then show ?thesis using "2.IH"(1) [OF None Inr] "2.prems" None step keeps_graph [OF step] by (auto intro: keeps_trans)
    qed (use "2.prems" None in auto)
  next
    case (Some cached)
    then show ?thesis using "2.IH"(2) [OF Some] "2.prems" by simp
  qed
qed simp

lemma rule_bzl_seed_keeps: "rule_bzl_seed e r cx = (x, cx') \<Longrightarrow> graph_ok cx \<Longrightarrow> keeps P cx cx' \<and> settled x"
  unfolding rule_bzl_seed_def
  by (auto split: if_splits sum.splits prod.splits dest!: hash_bzl_paths_keeps [where P = P] elim: settled_Inl)

lemma apply_repository_inputs_keeps:
  "apply_repository_inputs grp b cx = Some (b', cx') \<Longrightarrow> graph_ok cx \<Longrightarrow> keeps P cx cx'"
  by (auto simp: apply_repository_inputs_def intro!: keeps_other split: option.splits)

subsection \<open>The loops\<close>

lemma visit_soft_keeps: "visit_soft e lbl b cx = (r, cx') \<Longrightarrow> graph_ok cx \<Longrightarrow> keeps P cx cx' \<and> settled r"
  by (auto simp: visit_soft_def intro: set_source_keeps split: sum.splits option.splits)

lemma visit_dependency_keeps:
  assumes "walk_ok N walk path" "graph_ok cx" "length (cx_nodes cx) = N" "m < N"
    and "visit_dependency walk m prior path cx = (r, cx')"
  shows "keeps (set path) cx cx' \<and> settled r"
proof -
  obtain w cy where w: "walk m path cx = (w, cy)" by force
  have "keeps (set path) cx cy \<and> settled w" using assms(1-4) w unfolding walk_ok_def by blast
  then show ?thesis using assms(2,5) w
    by (auto simp: visit_dependency_def split: option.splits sum.splits elim: settled_Inl)
qed

lemma visit_input_keeps:
  assumes "walk_ok N walk path" "graph_ok cx" "length (cx_nodes cx) = N" "n < N"
    and "visit_input walk e n ext path k input b cx = (r, cx')"
  shows "keeps (set path) cx cx' \<and> settled r"
proof -
  define ei where "ei = (case extension_view cx ext input of Some view \<Rightarrow> (view, None) | None \<Rightarrow> (input, input_position (cx_nodes cx ! n) k))"
  obtain encoded pos where ei': "ei = (encoded, pos)" by force
  have pos: "slot_ok (length (cx_nodes cx)) (length (cx_source_digests cx)) (lb_slots (cx_labels cx) ! i)" if "pos = Some i" for i
    using that ei' position_ok [OF assms(2)] assms(3,4) by (auto simp: ei_def split: option.splits)
  obtain ri cx1 where res: "resolve_input encoded (target_label encoded) pos path cx = (ri, cx1)" by force
  have k1: "keeps (set path) cx cx1" by (rule resolve_input_keeps [OF res assms(2)])
  note ok1 = keeps_graph [OF k1]
  have soft: "keeps (set path) cx cx' \<and> settled r" if "visit_soft e lbl b1 cx1 = (r, cx')" for lbl b1
    using visit_soft_keeps [OF that ok1] k1 keeps_trans by blast
  note v = assms(5) [unfolded visit_input_def Let_def, folded ei_def, unfolded ei', simplified prod.case, unfolded res, simplified prod.case]
  show ?thesis
  proof (cases ri)
    case None
    then show ?thesis using v soft by simp
  next
    case (Some inp)
    show ?thesis
    proof (cases inp)
      case (ISource d)
      then show ?thesis using v Some k1 by auto
    next
      case (IRule d m prior)
      have m: "m < N" using resolve_input_range [OF _ assms(2) pos] res Some IRule assms(3) by auto
      show ?thesis
      proof (cases "d = node_name cx1 n")
        case True
        then show ?thesis using v Some IRule soft by simp
      next
        case False
        obtain rd cx2 where vd: "visit_dependency walk m prior path cx1 = (rd, cx2)" by force
        have "keeps (set path) cx1 cx2 \<and> settled rd"
          by (rule visit_dependency_keeps [OF assms(1) ok1 _ m vd]) (use keeps_length [OF k1] assms(3) in simp)
        then show ?thesis using v Some IRule False vd k1
          by (auto split: sum.splits intro: keeps_trans elim: settled_Inl)
      qed
    qed
  qed
qed

lemma visit_inputs_keeps:
  assumes "walk_ok N walk path" "n < N"
  shows "graph_ok cx \<Longrightarrow> length (cx_nodes cx) = N \<Longrightarrow> visit_inputs walk e n ext path k is b cx = (r, cx') \<Longrightarrow>
    keeps (set path) cx cx' \<and> settled r"
proof (induction "is" arbitrary: k b cx)
  case (Cons i "is")
  obtain ri cx1 where v: "visit_input walk e n ext path k i b cx = (ri, cx1)" by force
  have k1: "keeps (set path) cx cx1 \<and> settled ri" by (rule visit_input_keeps [OF assms(1) Cons.prems(1,2) assms(2) v])
  show ?case
  proof (cases ri)
    case (Inl err)
    then show ?thesis using v k1 Cons.prems(3) by (auto elim: settled_Inl)
  next
    case (Inr b')
    have "keeps (set path) cx1 cx' \<and> settled r"
      using Cons.IH [of cx1 "Suc k" b'] k1 v Inr Cons.prems(2,3) keeps_length keeps_graph by force
    then show ?thesis using k1 keeps_trans by blast
  qed
qed auto

lemma visit_package_group_keeps:
  assumes "walk_ok N walk path" "graph_ok cx" "length (cx_nodes cx) = N"
    and "visit_package_group walk n path grp b cx = (r, cx')"
  shows "keeps (set path) cx cx' \<and> settled r"
proof (cases "\<exists>slot m. slot_get (cx_labels cx) grp = Some slot \<and> sl_rule slot = Some m")
  case True
  then obtain slot m where s: "slot_get (cx_labels cx) grp = Some slot" "sl_rule slot = Some m" by blast
  have m: "m < N" using slot_get_ok [OF assms(2) s(1)] s(2) assms(3) by (simp add: slot_ok_def)
  obtain rd cx1 where vd: "visit_dependency walk m (map_option td_overall (slot_completed cx slot grp)) path cx = (rd, cx1)" by force
  have "keeps (set path) cx cx1 \<and> settled rd" by (rule visit_dependency_keeps [OF assms(1-3) m vd])
  then show ?thesis using assms(2,4) s vd
    by (auto simp: visit_package_group_def split: if_splits sum.splits elim: settled_Inl)
next
  case False
  then show ?thesis using assms(2,4) by (auto simp: visit_package_group_def split: if_splits option.splits)
qed

lemma visit_package_groups_keeps:
  assumes "walk_ok N walk path"
  shows "graph_ok cx \<Longrightarrow> length (cx_nodes cx) = N \<Longrightarrow> visit_package_groups walk n path gs b cx = (r, cx') \<Longrightarrow>
    keeps (set path) cx cx' \<and> settled r"
proof (induction gs arbitrary: b cx)
  case (Cons g gs)
  obtain ri cx1 where v: "visit_package_group walk n path g b cx = (ri, cx1)" by force
  have k1: "keeps (set path) cx cx1 \<and> settled ri" by (rule visit_package_group_keeps [OF assms(1) Cons.prems(1,2) v])
  show ?case
  proof (cases ri)
    case (Inl err)
    then show ?thesis using v k1 Cons.prems(3) by (auto elim: settled_Inl)
  next
    case (Inr b')
    have "keeps (set path) cx1 cx' \<and> settled r"
      using Cons.IH [of cx1 b'] k1 v Inr Cons.prems(2,3) keeps_length keeps_graph by force
    then show ?thesis using k1 keeps_trans by blast
  qed
qed auto

subsection \<open>One node, and all of them\<close>

lemma static_nth:
  assumes "map static_node (cx_nodes cx') = map static_node (cx_nodes cx)" "n < length (cx_nodes cx)"
  shows "static_node (cx_nodes cx' ! n) = static_node (cx_nodes cx ! n)"
  using assms by (metis length_map nth_map)

lemma complete_node_keeps:
  assumes "complete_node e n b cx = (r, cx')" "graph_ok cx" "node_digest_of cx n = None" "n \<notin> P"
  shows "keeps P cx cx' \<and> settled r"
proof -
  obtain digest recipe where f: "builder_finish (we_crates e) b = (digest, recipe)" by force
  define cx1 where "cx1 = record_recipe n recipe cx"
  have c: "cx_nodes cx1 = cx_nodes cx" "cx_labels cx1 = cx_labels cx" "cx_source_digests cx1 = cx_source_digests cx"
    by (simp_all add: cx1_def record_recipe_def split: option.splits)
  then have c': "r = Inr digest" "cx' = cx1\<lparr>cx_nodes := (cx_nodes cx1)[n := (cx_nodes cx1 ! n)\<lparr>rn_digest := Some digest\<rparr>]\<rparr>"
    using assms(1,3) f by (simp_all add: complete_node_def node_digest_of_def flip: cx1_def)
  note c = c c'
  have "list_all (positions_ok k) ((cx_nodes cx)[n := (cx_nodes cx ! n)\<lparr>rn_digest := Some digest\<rparr>])"
    if "list_all (positions_ok k) (cx_nodes cx)" for k
    using that unfolding list_all_length length_list_update
    by (metis (mono_tags, lifting) nth_list_update_eq nth_list_update_neq positions_ok_def rule_node.select_convs(4) rule_node.surjective rule_node.update_convs(3))
  then have "graph_ok cx'" using assms(2) c by (simp add: graph_ok_def)
  moreover have "map static_node (cx_nodes cx') = map static_node (cx_nodes cx)"
    using c by (simp add: map_update list_update_same_conv) (metis list_update_beyond list_update_id length_map linorder_not_le map_update nth_map)
  moreover have "\<forall>p \<in> P. (cx_nodes cx)[n := x] ! p = cx_nodes cx ! p" for x using assms(4) by (metis nth_list_update_neq)
  ultimately show ?thesis using c by (simp add: keeps_def node_digest_of_def)
qed

lemma hash_node_keeps:
  assumes walk: "walk_ok N walk (path @ [n])" and "graph_ok cx" "length (cx_nodes cx) = N" "n < N" "n \<notin> set path"
    and "node_digest_of cx n = None" and r: "hash_node walk e n (path @ [n]) cx = (r, cx')"
  shows "keeps (set path) cx cx' \<and> settled r"
proof -
  let ?P = "set (path @ [n])" and ?node = "cx_nodes cx ! n"
  have weaken: "keeps (set path) cx cy" if "keeps ?P cx cy" for cy using that by (simp add: keeps_def)
  obtain bz cx1 where bz: "rule_bzl_seed e (rn_rule ?node) cx = (bz, cx1)" by force
  have k1: "keeps ?P cx cx1 \<and> settled bz" by (rule rule_bzl_seed_keeps [OF bz assms(2)])
  show ?thesis
  proof (cases bz)
    case (Inl err)
    then show ?thesis using r bz k1 weaken by (auto simp: hash_node_def Let_def elim: settled_Inl)
  next
    case (Inr seed)
    define b where "b = seeded_builder e ?node seed (cx_recorder cx1 \<noteq> None)"
    define shared where "shared = (case pr_shared_inputs (rn_prepared ?node) of
        None \<Rightarrow> (node_inputs e ?node, b, cx1)
      | Some grp \<Rightarrow> (case apply_repository_inputs grp b cx1 of
          Some (b', cx2) \<Rightarrow> (node_inputs e ?node, b', cx2)
        | None \<Rightarrow> (node_inputs e ?node @ ig_labels grp, b, cx1)))"
    obtain inputs b' cx2 where sh: "shared = (inputs, b', cx2)" by (cases shared)
    have "keeps ?P cx1 cx2"
      using sh k1 keeps_graph apply_repository_inputs_keeps [where P = ?P and cx = cx1]
      by (auto simp: shared_def split: option.splits)
    then have k2: "keeps ?P cx cx2" using k1 keeps_trans by blast
    obtain ri cx3 where vi: "visit_inputs walk e n (node_extension e ?node) (path @ [n]) 0 inputs b' cx2 = (ri, cx3)" by force
    have k3: "keeps ?P cx2 cx3 \<and> settled ri"
      using visit_inputs_keeps [OF walk assms(4) keeps_graph [OF k2] _ vi] keeps_length [OF k2] assms(3) by simp
    define gs where "gs = (if ''visibility'' \<in> set (ignored_attributes (we_options e)) then [] else visibility_package_groups (rn_rule ?node))"
    note r' = r [unfolded hash_node_def Let_def bz prod.case Inr sum.case, folded b_def gs_def, folded shared_def, unfolded sh prod.case vi]
    show ?thesis
    proof (cases ri)
      case (Inl err)
      then show ?thesis using r' k3 weaken [OF keeps_trans [OF k2]] by (auto elim: settled_Inl)
    next
      case (Inr b3)
      obtain rg cx4 where vg: "visit_package_groups walk n (path @ [n]) gs b3 cx3 = (rg, cx4)" by force
      have k23: "keeps ?P cx cx3" using k2 k3 keeps_trans by blast
      have kg: "keeps ?P cx3 cx4 \<and> settled rg"
        using visit_package_groups_keeps [OF walk keeps_graph [OF k23] _ vg] keeps_length [OF k23] assms(3) by simp
      then have k4: "keeps ?P cx cx4" using k23 keeps_trans by blast
      show ?thesis
      proof (cases rg)
        case (Inl err)
        then show ?thesis using r' Inr vg kg k4 weaken by (auto elim: settled_Inl)
      next
        case (Inr b4)
        have "complete_node e n b4 cx4 = (r, cx')" using r' \<open>ri = Inr b3\<close> vg Inr by simp
        moreover have "node_digest_of cx4 n = None" using k4 assms(6) by (simp add: keeps_def)
        ultimately have "keeps (set path) cx4 cx' \<and> settled r" using complete_node_keeps keeps_graph [OF k4] assms(5) by blast
        then show ?thesis using weaken [OF k4] keeps_trans by blast
      qed
    qed
  qed
qed

lemma node_digest_ok:
  "distinct path \<Longrightarrow> set path \<subseteq> {..<N} \<Longrightarrow> N < fuel + length path \<Longrightarrow> walk_ok N (node_digest e fuel) path"
proof (induction fuel arbitrary: path)
  case 0
  have "length path \<le> N" using 0 by (metis card_lessThan card_mono distinct_card finite_lessThan)
  then show ?case using 0 by simp
next
  case (Suc fuel)
  show ?case unfolding walk_ok_def
  proof (intro allI impI)
    fix m cx r cx'
    assume cx: "graph_ok cx" "length (cx_nodes cx) = N" "m < N" and r: "node_digest e (Suc fuel) m path cx = (r, cx')"
    consider (finished) d where "node_digest_of cx m = Some d" | (cycle) "node_digest_of cx m = None" "m \<in> set path"
      | (fresh) "node_digest_of cx m = None" "m \<notin> set path" by fastforce
    then show "keeps (set path) cx cx' \<and> settled r"
    proof cases
      case cycle
      then show ?thesis using r cx(1) by (auto intro: keeps_other)
    next
      case fresh
      have "walk_ok N (node_digest e fuel) (path @ [m])" using fresh Suc.prems cx(3) by (intro Suc.IH) auto
      then show ?thesis using hash_node_keeps [of N _ path m cx e r cx'] fresh cx r by simp
    qed (use r cx(1) in auto)
  qed
qed

lemma rule_digest_keeps:
  assumes "graph_ok cx" "rule_digest e key cx = (r, cx')"
  shows "keeps {} cx cx' \<and> settled r"
proof (cases "\<exists>slot n. slot_get (cx_labels cx) key = Some slot \<and>
    Option.bind (sl_replaced_canonical slot) (node_digest_of cx) = None \<and> sl_rule slot = Some n")
  case True
  then obtain slot n where s: "slot_get (cx_labels cx) key = Some slot"
    "Option.bind (sl_replaced_canonical slot) (node_digest_of cx) = None" "sl_rule slot = Some n" by blast
  have n: "n < length (cx_nodes cx)" using slot_get_ok [OF assms(1) s(1)] s(3) by (simp add: slot_ok_def)
  have walk: "walk_ok (length (cx_nodes cx)) (node_digest e (Suc (length (cx_nodes cx)))) []"
    by (rule node_digest_ok) simp_all
  have "node_digest e (Suc (length (cx_nodes cx))) n [] cx = (r, cx')"
    using assms(2) s by (simp only: rule_digest_def option.case)
  then have "keeps (set []) cx cx' \<and> settled r" using walk assms(1) n unfolding walk_ok_def by blast
  then show ?thesis by simp
next
  case False
  then show ?thesis using assms by (auto simp: rule_digest_def settled_def split: option.splits)
qed

text \<open>
  Hashing a rule returns, whatever the graph: from a context whose indices are in range the walk never
  runs out of the fuel it is given and never completes a rule twice, also when rules depend on each
  other in a cycle. It keeps the graph, and it fails only where a source cannot be read or the rule is
  unknown.
\<close>

theorem rule_digest_returns:
  assumes "graph_ok cx" "rule_digest e key cx = (r, cx')"
  shows "r \<noteq> Inl OutOfFuel \<and> r \<noteq> Inl DigestSetTwice \<and> graph_ok cx' \<and>
    map static_node (cx_nodes cx') = map static_node (cx_nodes cx)"
  using rule_digest_keeps [OF assms] by (simp add: keeps_def settled_def)

subsection \<open>Two rules in a cycle\<close>

definition sample_hash_options :: hash_options where
  "sample_hash_options = \<lparr>bazel_opts = sample_bazel_options, content_hash_map = None, ignored_attributes = [], seed_filepaths = [],
     modified_filepaths = [], track_deps = True, always_affected_tags = [], partial_tree = None\<rparr>"

definition sample_walk_env :: walk_env where
  "sample_walk_env = \<lparr>we_crates = crates_ref, we_options = sample_hash_options,
     we_soft_digest = (\<lambda>lbl. Inr (if lbl = ''//a:f'' then Some [7] else None)),
     we_repo_nodes = [], we_repo_mapping = [], we_seed_hash = [1], we_package_bzl_seeds = [], we_always_affected_seed = [2]\<rparr>"

definition sample_node :: "string \<Rightarrow> string list \<Rightarrow> rule_node" where
  "sample_node name inputs = \<lparr>rn_rule = rule_default\<lparr>rule_name := name, rule_input := inputs\<rparr>,
     rn_prepared = \<lparr>pr_definition_digest = as_bytes name, pr_shared_inputs = None, pr_loading_inputs = []\<rparr>,
     rn_digest = None, rn_input_positions = None\<rparr>"

definition sample_context :: "rule_node list \<Rightarrow> hash_context" where
  "sample_context nodes = \<lparr>cx_nodes = nodes,
     cx_labels = \<lparr>lb_ids = map (\<lambda>i. (rule_name (rn_rule (nodes ! i)), i)) [0..<length nodes],
       lb_slots = map (\<lambda>i. slot_default\<lparr>sl_rule := Some i\<rparr>) [0..<length nodes]\<rparr>,
     cx_source_digests = [], cx_instances = None, cx_group_digests = [], cx_bzl_digests = [], cx_cycle_warnings = [], cx_recorder = None\<rparr>"

definition sample_cycle :: hash_context where
  "sample_cycle = sample_context [sample_node ''//a:x'' [''//a:y''], sample_node ''//a:y'' [''//a:f'', ''//a:x'']]"

theorem rule_digest_returns_witness: "fst (rule_digest sample_walk_env ''//a:x'' sample_cycle) \<noteq> Inl OutOfFuel"
proof -
  have "graph_ok sample_cycle" by (simp add: sample_cycle_def sample_context_def graph_ok_def slot_ok_def slot_default_def positions_ok_def sample_node_def)
  then show ?thesis using rule_digest_returns [of sample_cycle sample_walk_env "''//a:x''"] by (metis prod.collapse)
qed

end
