(* ===== verification/Hash_Reference.thy ===== *)
theory Hash_Reference
  imports Hash_Total
begin

section \<open>The walk computes the reference digest\<close>

text \<open>
  Without cycles the digest of a rule is defined by the rules below it alone. The reference lists what a
  rule contributes (bytes, source digests, dependencies) from the graph as it was before the walk, and
  folds the contributions in order. The walk reaches the same value through its memo cells, its table of
  shared repository inputs, its cached digests and the sources it promotes on the way, in whatever order
  the rules are asked for. The statement covers plain queries: no configured keys, no generated file
  that takes the name of a rule.
\<close>

datatype contribution = CBytes bytes | CSource label bytes | CDep string string nat

definition label_rule :: "hash_context \<Rightarrow> string \<Rightarrow> nat option" where
  "label_rule cx key = Option.bind (slot_get (cx_labels cx) key) sl_rule"

definition label_source :: "hash_context \<Rightarrow> string \<Rightarrow> bytes option" where
  "label_source cx key = Option.bind (slot_get (cx_labels cx) key) (slot_source cx)"

text \<open>A file's digest when it can be read, nothing otherwise.\<close>

definition soft_value :: "walk_env \<Rightarrow> label \<Rightarrow> bytes option" where
  "soft_value e lbl = (case we_soft_digest e lbl of Inr d \<Rightarrow> d | Inl _ \<Rightarrow> None)"

definition soft_contribution :: "walk_env \<Rightarrow> label \<Rightarrow> contribution list" where
  "soft_contribution e lbl = (case soft_value e lbl of None \<Rightarrow> [] | Some d \<Rightarrow> [CSource lbl d])"

definition viewed_input :: "hash_context \<Rightarrow> string option \<Rightarrow> string \<Rightarrow> string" where
  "viewed_input cx extension input = (case extension_view cx extension input of Some view \<Rightarrow> view | None \<Rightarrow> input)"

definition input_contribution :: "walk_env \<Rightarrow> hash_context \<Rightarrow> nat \<Rightarrow> string \<Rightarrow> contribution list" where
  "input_contribution e cx n input =
     (let encoded = viewed_input cx (node_extension e (cx_nodes cx ! n)) input;
          lbl = target_label encoded
      in CBytes (as_bytes encoded) #
         (case label_source cx lbl of
            Some d \<Rightarrow> [CSource lbl d]
          | None \<Rightarrow>
              (case label_rule cx lbl of
                 Some m \<Rightarrow> if lbl = node_name cx n then soft_contribution e lbl else [CDep lbl (node_name cx m) m]
               | None \<Rightarrow> soft_contribution e lbl)))"

definition group_contribution :: "hash_context \<Rightarrow> nat \<Rightarrow> string \<Rightarrow> contribution list" where
  "group_contribution cx n grp =
     (if grp = target_label (node_name cx n) then []
      else case label_rule cx grp of
             None \<Rightarrow> []
           | Some m \<Rightarrow> if rule_class (rn_rule (cx_nodes cx ! m)) \<noteq> ''package_group'' then []
                       else [CBytes (as_bytes grp), CDep grp grp m])"

definition shared_labels :: "rule_node \<Rightarrow> string list" where
  "shared_labels node = (case pr_shared_inputs (rn_prepared node) of None \<Rightarrow> [] | Some grp \<Rightarrow> ig_labels grp)"

definition node_groups :: "walk_env \<Rightarrow> rule_node \<Rightarrow> string list" where
  "node_groups e node =
     (if ''visibility'' \<in> set (ignored_attributes (we_options e)) then [] else visibility_package_groups (rn_rule node))"

definition contributions :: "walk_env \<Rightarrow> hash_context \<Rightarrow> nat \<Rightarrow> contribution list" where
  "contributions e cx n =
     concat (map (input_contribution e cx n) (node_inputs e (cx_nodes cx ! n) @ shared_labels (cx_nodes cx ! n))) @
     concat (map (group_contribution cx n) (node_groups e (cx_nodes cx ! n)))"

definition bzl_seed_value :: "walk_env \<Rightarrow> rule \<Rightarrow> bytes option" where
  "bzl_seed_value e r =
     (if rule_instantiation_stack r = [] then None
      else Some (sha256 (we_crates e) (concat (map (\<lambda>p. case soft_value e (''//'' @ p) of None \<Rightarrow> [] | Some d \<Rightarrow> as_bytes p @ d) (bzl_paths r)))))"

definition start_builder :: "walk_env \<Rightarrow> hash_context \<Rightarrow> nat \<Rightarrow> digest_builder" where
  "start_builder e cx n =
     seeded_builder e (cx_nodes cx ! n) (bzl_seed_value e (rn_rule (cx_nodes cx ! n))) (cx_recorder cx \<noteq> None)"

fun contribute :: "(nat \<Rightarrow> bytes) \<Rightarrow> contribution \<Rightarrow> digest_builder \<Rightarrow> digest_builder" where
  "contribute overall (CBytes bs) b = add_direct bs b"
| "contribute overall (CSource lbl d) b = add_source lbl d b"
| "contribute overall (CDep key canonical m) b = add_transitive key canonical (overall m) b"

definition node_deps :: "walk_env \<Rightarrow> hash_context \<Rightarrow> nat \<Rightarrow> nat list" where
  "node_deps e cx n = List.map_filter (\<lambda>x. case x of CDep _ _ m \<Rightarrow> Some m | _ \<Rightarrow> None) (contributions e cx n)"

definition overall_of :: "(nat \<Rightarrow> target_digest) \<Rightarrow> nat \<Rightarrow> bytes" where
  "overall_of v m = td_overall (v m)"

definition reference_value :: "walk_env \<Rightarrow> hash_context \<Rightarrow> (nat \<Rightarrow> target_digest) \<Rightarrow> nat \<Rightarrow> target_digest" where
  "reference_value e cx v n =
     fst (builder_finish (we_crates e) (fold (contribute (overall_of v)) (contributions e cx n) (start_builder e cx n)))"

inductive node_sem :: "walk_env \<Rightarrow> hash_context \<Rightarrow> nat \<Rightarrow> target_digest \<Rightarrow> bool" for e cx where
  "n < length (cx_nodes cx) \<Longrightarrow> (\<forall>m \<in> set (node_deps e cx n). node_sem e cx m (v m)) \<Longrightarrow> d = reference_value e cx v n \<Longrightarrow> node_sem e cx n d"

inductive_cases node_semE: "node_sem e cx n d"

lemma CDep_node_deps: "CDep key canonical m \<in> set (contributions e cx n) \<Longrightarrow> m \<in> set (node_deps e cx n)"
  by (force simp: node_deps_def List.map_filter_def)

lemma contribute_cong: "(\<And>key canonical m. x = CDep key canonical m \<Longrightarrow> f m = g m) \<Longrightarrow> contribute f x = contribute g x"
  by (cases x) (auto simp: fun_eq_iff)

lemma reference_value_cong:
  assumes "\<And>m. m \<in> set (node_deps e cx n) \<Longrightarrow> v m = w m"
  shows "reference_value e cx v n = reference_value e cx w n"
proof -
  have "fold (contribute (overall_of v)) (contributions e cx n) b = fold (contribute (overall_of w)) (contributions e cx n) b" for b
    by (intro fold_cong refl contribute_cong) (use assms CDep_node_deps in \<open>auto simp: overall_of_def\<close>)
  then show ?thesis by (simp add: reference_value_def)
qed

lemma node_sem_functional: "node_sem e cx n d \<Longrightarrow> node_sem e cx n d' \<Longrightarrow> d = d'"
proof (induction arbitrary: d' rule: node_sem.induct)
  case (1 n v d)
  from "1.prems" obtain w where w: "\<forall>m \<in> set (node_deps e cx n). node_sem e cx m (w m)" "d' = reference_value e cx w n"
    by (auto elim: node_semE)
  have "reference_value e cx v n = reference_value e cx w n" by (rule reference_value_cong) (use "1.IH" w(1) in blast)
  then show ?case using w(2) "1.hyps" by simp
qed

lemma node_sem_deps: "node_sem e cx n d \<Longrightarrow> m \<in> set (node_deps e cx n) \<Longrightarrow> \<exists>d'. node_sem e cx m d'"
  by (auto elim: node_semE)

lemma node_sem_acc: "node_sem e cx n d \<Longrightarrow> Wellfounded.accp (\<lambda>m n. m \<in> set (node_deps e cx n)) n"
  by (induction rule: node_sem.induct) (auto intro: accp.accI)

subsection \<open>The graphs the reference covers\<close>

text \<open>The hubs of one extension list the same repositories and read nothing else.\<close>

definition shared_ok :: "walk_env \<Rightarrow> hash_context \<Rightarrow> nat \<Rightarrow> bool" where
  "shared_ok e cx n \<longleftrightarrow>
     (\<forall>grp. pr_shared_inputs (rn_prepared (cx_nodes cx ! n)) = Some grp \<longrightarrow>
        node_inputs e (cx_nodes cx ! n) = [] \<and> starts_with EXTERNAL (node_name cx n) \<and> target_label (node_name cx n) = node_name cx n \<and>
        node_name cx n \<notin> set (ig_labels grp) \<and> (\<forall>l \<in> set (ig_labels grp). target_label l = l) \<and>
        (\<forall>m < length (cx_nodes cx). \<forall>grp'. pr_shared_inputs (rn_prepared (cx_nodes cx ! m)) = Some grp' \<longrightarrow>
           ig_extension grp' = ig_extension grp \<longrightarrow> ig_labels grp' = ig_labels grp))"

definition prepared_ok :: "walk_env \<Rightarrow> hash_context \<Rightarrow> nat \<Rightarrow> bool" where
  "prepared_ok e cx n \<longleftrightarrow>
     (\<forall>k i. input_position (cx_nodes cx ! n) k = Some i \<longrightarrow>
        k < length (node_inputs e (cx_nodes cx ! n)) \<and>
        slot_id (cx_labels cx) (target_label (node_inputs e (cx_nodes cx ! n) ! k)) = Some i)"

text \<open>No two names share a slot.\<close>

definition slots_apart :: "labels \<Rightarrow> bool" where
  "slots_apart ls \<longleftrightarrow> (\<forall>key key' i. slot_id ls key = Some i \<longrightarrow> slot_id ls key' = Some i \<longrightarrow> key = key')"

definition plain_graph :: "walk_env \<Rightarrow> hash_context \<Rightarrow> bool" where
  "plain_graph e cx \<longleftrightarrow>
     graph_ok cx \<and> bt_inv (lb_ids (cx_labels cx)) \<and> slots_apart (cx_labels cx) \<and>
     cx_instances cx = None \<and> cx_group_digests cx = [] \<and> cx_bzl_digests cx = [] \<and>
     list_all (\<lambda>slot. sl_replaced_canonical slot = None) (lb_slots (cx_labels cx)) \<and>
     list_all (\<lambda>key. target_label key = key) (rule_keys (cx_labels cx)) \<and>
     (\<forall>lbl msg. we_soft_digest e lbl \<noteq> Inl msg) \<and>
     (\<forall>n < length (cx_nodes cx).
        node_digest_of cx n = None \<and> soft_value e (node_name cx n) = None \<and> shared_ok e cx n \<and> prepared_ok e cx n)"

subsection \<open>States between the calls\<close>

definition group_value :: "walk_env \<Rightarrow> hash_context \<Rightarrow> string list \<Rightarrow> bytes \<times> bytes \<Rightarrow> bool" where
  "group_value e cx0 lbls d \<longleftrightarrow>
     (\<exists>ms ds. list_all2 (\<lambda>l m. label_rule cx0 l = Some m \<and> label_source cx0 l = None \<and> node_name cx0 m = l) lbls ms \<and>
        list_all2 (node_sem e cx0) ms ds \<and> d = (concat (map as_bytes lbls), concat (map td_overall ds)))"

definition consistent :: "walk_env \<Rightarrow> hash_context \<Rightarrow> hash_context \<Rightarrow> bool" where
  "consistent e cx0 cx \<longleftrightarrow>
     graph_ok cx \<and> bt_inv (lb_ids (cx_labels cx)) \<and> slots_apart (cx_labels cx) \<and>
     map static_node (cx_nodes cx) = map static_node (cx_nodes cx0) \<and>
     (cx_recorder cx = None \<longleftrightarrow> cx_recorder cx0 = None) \<and>
     cx_instances cx \<in> {None, Some []} \<and>
     list_all (\<lambda>slot. sl_replaced_canonical slot = None) (lb_slots (cx_labels cx)) \<and>
     (\<forall>n d. n < length (cx_nodes cx0) \<longrightarrow> node_digest_of cx n = Some d \<longrightarrow> node_sem e cx0 n d) \<and>
     (\<forall>key. label_rule cx key = label_rule cx0 key) \<and>
     (\<forall>key i. slot_id (cx_labels cx0) key = Some i \<longrightarrow> slot_id (cx_labels cx) key = Some i) \<and>
     (\<forall>key d. label_source cx0 key = Some d \<longrightarrow> label_source cx key = Some d) \<and>
     (\<forall>key d. label_source cx key = Some d \<longrightarrow> label_source cx0 key = Some d \<or>
        label_source cx0 key = None \<and> label_rule cx0 key = None \<and> soft_value e key = Some d) \<and>
     (\<forall>p x. bt_get (cx_bzl_digests cx) p = Some x \<longrightarrow> we_soft_digest e (''//'' @ p) = Inr x) \<and>
     (\<forall>n < length (cx_nodes cx0). \<forall>grp d. pr_shared_inputs (rn_prepared (cx_nodes cx0 ! n)) = Some grp \<longrightarrow>
        bt_get (cx_group_digests cx) (ig_extension grp) = Some d \<longrightarrow> group_value e cx0 (ig_labels grp) d)"

lemma consistent_start: "plain_graph e cx \<Longrightarrow> consistent e cx cx"
  by (auto simp: plain_graph_def consistent_def)

lemma consistentD:
  assumes "consistent e cx0 cx"
  shows "graph_ok cx" "bt_inv (lb_ids (cx_labels cx))" "map static_node (cx_nodes cx) = map static_node (cx_nodes cx0)"
    "cx_recorder cx = None \<longleftrightarrow> cx_recorder cx0 = None" "cx_instances cx \<in> {None, Some []}"
    "list_all (\<lambda>slot. sl_replaced_canonical slot = None) (lb_slots (cx_labels cx))"
    "n < length (cx_nodes cx0) \<Longrightarrow> node_digest_of cx n = Some d \<Longrightarrow> node_sem e cx0 n d"
    "label_rule cx key = label_rule cx0 key"
    "slot_id (cx_labels cx0) key = Some i \<Longrightarrow> slot_id (cx_labels cx) key = Some i"
    "label_source cx0 key = Some y \<Longrightarrow> label_source cx key = Some y"
    "bt_get (cx_bzl_digests cx) p = Some x \<Longrightarrow> we_soft_digest e (''//'' @ p) = Inr x"
    "slots_apart (cx_labels cx)"
  using assms unfolding consistent_def by blast+

lemma consistent_source:
  assumes "consistent e cx0 cx" "label_source cx key = Some d"
  shows "label_source cx0 key = Some d \<or> label_source cx0 key = None \<and> label_rule cx0 key = None \<and> soft_value e key = Some d"
  using assms unfolding consistent_def by blast

lemma consistent_group:
  assumes "consistent e cx0 cx" "n < length (cx_nodes cx0)" "pr_shared_inputs (rn_prepared (cx_nodes cx0 ! n)) = Some grp"
    "bt_get (cx_group_digests cx) (ig_extension grp) = Some d"
  shows "group_value e cx0 (ig_labels grp) d"
  using assms unfolding consistent_def by blast

lemma consistent_node:
  assumes "consistent e cx0 cx" "n < length (cx_nodes cx0)"
  shows "rn_rule (cx_nodes cx ! n) = rn_rule (cx_nodes cx0 ! n)" "rn_prepared (cx_nodes cx ! n) = rn_prepared (cx_nodes cx0 ! n)"
    "rn_input_positions (cx_nodes cx ! n) = rn_input_positions (cx_nodes cx0 ! n)" "node_name cx n = node_name cx0 n"
    "length (cx_nodes cx) = length (cx_nodes cx0)"
proof -
  have "static_node (cx_nodes cx ! n) = static_node (cx_nodes cx0 ! n)"
    by (rule static_nth [OF consistentD(3) [OF assms(1)] assms(2)])
  then show "rn_rule (cx_nodes cx ! n) = rn_rule (cx_nodes cx0 ! n)" "rn_prepared (cx_nodes cx ! n) = rn_prepared (cx_nodes cx0 ! n)"
    "rn_input_positions (cx_nodes cx ! n) = rn_input_positions (cx_nodes cx0 ! n)" "node_name cx n = node_name cx0 n"
    by (metis static_node_sel node_name_def)+
  show "length (cx_nodes cx) = length (cx_nodes cx0)" using consistentD(3) [OF assms(1)] by (metis length_map)
qed

lemma consistent_view: "consistent e cx0 cx \<Longrightarrow> extension_view cx ext input = extension_view cx0 ext input"
proof -
  assume c: "consistent e cx0 cx"
  have "has_rule cy key \<longleftrightarrow> label_rule cy key \<noteq> None" for cy key
    by (auto simp: has_rule_def label_rule_def split: option.splits)
  then have "has_rule cx = has_rule cx0" using consistentD(8) [OF c] by (simp add: fun_eq_iff)
  then show ?thesis by (simp only: extension_view_def)
qed

text \<open>A change of anything else keeps the state consistent.\<close>

lemma consistent_cong:
  assumes "consistent e cx0 cx" "cx_nodes cx' = cx_nodes cx" "cx_labels cx' = cx_labels cx" "cx_source_digests cx' = cx_source_digests cx"
    "cx_recorder cx' = None \<longleftrightarrow> cx_recorder cx = None" "cx_instances cx' \<in> {None, Some []}"
    "\<And>p x. bt_get (cx_bzl_digests cx') p = Some x \<Longrightarrow> we_soft_digest e (''//'' @ p) = Inr x"
    "\<And>n grp d. n < length (cx_nodes cx0) \<Longrightarrow> pr_shared_inputs (rn_prepared (cx_nodes cx0 ! n)) = Some grp \<Longrightarrow>
       bt_get (cx_group_digests cx') (ig_extension grp) = Some d \<Longrightarrow> group_value e cx0 (ig_labels grp) d"
  shows "consistent e cx0 cx'"
proof -
  have "slot_source cx' = slot_source cx" using assms(4) by (simp add: slot_source_def fun_eq_iff)
  then have same: "label_rule cx' = label_rule cx" "label_source cx' = label_source cx" "node_digest_of cx' = node_digest_of cx"
    using assms(2,3) by (auto simp: label_rule_def [abs_def] label_source_def [abs_def] node_digest_of_def [abs_def])
  show ?thesis using assms(1) graph_ok_cong [OF consistentD(1) [OF assms(1)] assms(2-4)]
    unfolding consistent_def same assms(2,3) using assms(5-8) by - (elim conjE, intro conjI; (assumption | simp | blast))
qed

subsection \<open>Resolving an input\<close>

lemma split_configured_Some: "split_configured key = (lbl, Some ck) \<Longrightarrow> key \<noteq> lbl"
  by (auto simp: split_configured_def rsplit_once_Some split: option.splits if_splits)

lemma no_instances: "list_all (\<lambda>key. target_label key = key) keys \<Longrightarrow> configured_label_instances keys = []"
proof -
  assume "list_all (\<lambda>key. target_label key = key) keys"
  then have "fold (\<lambda>key m. case split_configured key of (lbl, Some _) \<Rightarrow> bt_upsert lbl [] (\<lambda>ks. ks @ [key]) m | (_, None) \<Rightarrow> m) keys [] = []"
    by (induction keys) (auto simp: target_label_def dest: split_configured_Some split: prod.splits option.splits)
  then show ?thesis by (simp add: configured_label_instances_def)
qed

lemma rule_keys_iff:
  "bt_inv (lb_ids (cx_labels cx)) \<Longrightarrow> key \<in> set (rule_keys (cx_labels cx)) \<longleftrightarrow> label_rule cx key \<noteq> None"
proof
  assume inv: "bt_inv (lb_ids (cx_labels cx))" and "key \<in> set (rule_keys (cx_labels cx))"
  then obtain i where "(key, i) \<in> set (lb_ids (cx_labels cx))" "sl_rule (lb_slots (cx_labels cx) ! i) \<noteq> None"
    by (auto simp: rule_keys_def)
  then show "label_rule cx key \<noteq> None" using bt_get_eq_Some [OF inv, of key i] by (simp add: label_rule_def slot_get_def slot_id_def)
next
  assume "label_rule cx key \<noteq> None"
  then obtain i where "bt_get (lb_ids (cx_labels cx)) key = Some i" "sl_rule (lb_slots (cx_labels cx) ! i) \<noteq> None"
    by (auto simp: label_rule_def slot_get_def slot_id_def bind_eq_Some_conv)
  then show "key \<in> set (rule_keys (cx_labels cx))" by (force simp: rule_keys_def dest: map_of_SomeD)
qed

lemma plain_rule_key:
  assumes "plain_graph e cx0" "label_rule cx0 key \<noteq> None"
  shows "target_label key = key"
  using assms rule_keys_iff [of cx0 key] by (auto simp: plain_graph_def list_all_iff)

lemma label_instances_plain:
  assumes "plain_graph e cx0" "consistent e cx0 cx"
  obtains cx' where "label_instances cx = ([], cx')" "consistent e cx0 cx'"
proof -
  have "list_all (\<lambda>key. target_label key = key) (rule_keys (cx_labels cx))"
    using rule_keys_iff [OF consistentD(2) [OF assms(2)]] consistentD(8) [OF assms(2)] plain_rule_key [OF assms(1)]
    by (auto simp: list_all_iff)
  then have "label_instances cx = ([], cx\<lparr>cx_instances := Some []\<rparr>)"
    using consistentD(5) [OF assms(2)] by (auto simp: label_instances_def no_instances)
  moreover have "consistent e cx0 (cx\<lparr>cx_instances := Some []\<rparr>)"
    by (rule consistent_cong [OF assms(2)]) (use consistentD(11) [OF assms(2)] consistent_group [OF assms(2)] in auto)
  ultimately show thesis using that by blast
qed

lemma consistent_replaced:
  assumes "consistent e cx0 cx" "slot_get (cx_labels cx) key = Some slot"
  shows "sl_replaced_canonical slot = None"
proof -
  obtain i where i: "(key, i) \<in> set (lb_ids (cx_labels cx))" "slot = lb_slots (cx_labels cx) ! i"
    using assms(2) by (auto simp: slot_get_def slot_id_def dest: map_of_SomeD)
  have "i < length (lb_slots (cx_labels cx))" using consistentD(1) [OF assms(1)] i(1) by (auto simp: graph_ok_def list_all_iff)
  then show ?thesis using consistentD(6) [OF assms(1)] i(2) by (simp add: list_all_iff)
qed

lemma slot_resolving_plain:
  assumes "consistent e cx0 cx" "slot_get (cx_labels cx) key = Some slot"
  shows "slot_resolving cx slot key' = map_option (\<lambda>m. IRule key' m None) (label_rule cx0 key)"
proof -
  have "sl_replaced_canonical slot = None" by (rule consistent_replaced [OF assms])
  moreover have "sl_rule slot = label_rule cx0 key" using consistentD(8) [OF assms(1), of key] assms(2) by (simp add: label_rule_def)
  ultimately show ?thesis by (simp add: slot_resolving_def)
qed

lemma resolve_input_value:
  assumes "plain_graph e cx0" "consistent e cx0 cx"
    and pos: "\<And>i. pos = Some i \<Longrightarrow> slot_id (cx_labels cx0) (target_label enc) = Some i"
  shows "\<exists>cx'. resolve_input enc (target_label enc) pos path cx =
      (case label_source cx (target_label enc) of
         Some d \<Rightarrow> Some (ISource d)
       | None \<Rightarrow> map_option (\<lambda>m. IRule (target_label enc) m None) (label_rule cx0 (target_label enc)), cx') \<and> consistent e cx0 cx'"
proof -
  let ?lbl = "target_label enc" and ?ls = "cx_labels cx"
  have bare: "(case pos of Some i \<Rightarrow> Some (lb_slots ?ls ! i) | None \<Rightarrow> slot_get ?ls ?lbl) = slot_get ?ls ?lbl"
    using pos consistentD(9) [OF assms(2)] by (auto simp: slot_get_def split: option.splits)
  have conf: "(if enc \<noteq> ?lbl then Option.bind (slot_get ?ls enc) (\<lambda>s. slot_resolving cx s enc) else None) = None"
  proof (cases "enc = ?lbl")
    case False
    then have "label_rule cx0 enc = None" using plain_rule_key [OF assms(1), of enc] by fastforce
    then show ?thesis using slot_resolving_plain [OF assms(2), of enc] by (cases "slot_get ?ls enc") auto
  qed simp
  have rule: "Option.bind (slot_get ?ls ?lbl) (\<lambda>s. slot_resolving cx s ?lbl) = map_option (\<lambda>m. IRule ?lbl m None) (label_rule cx0 ?lbl)"
    using slot_resolving_plain [OF assms(2), of ?lbl] consistentD(8) [OF assms(2), of ?lbl]
    by (cases "slot_get ?ls ?lbl") (auto simp: label_rule_def)
  obtain cx1 where inst: "label_instances cx = ([], cx1)" "consistent e cx0 cx1" by (rule label_instances_plain [OF assms(1,2)])
  show ?thesis unfolding resolve_input_def Let_def bare conf rule label_source_def [symmetric] inst(1)
    using assms(2) inst(2) by (auto split: option.splits)
qed

subsection \<open>Promoting a source\<close>

lemma slot_entry_ids:
  assumes "slot_entry ls name = (i, ls')"
  shows "slot_id ls' key = (if key = name then Some i else slot_id ls key)"
    "bt_inv (lb_ids ls) \<Longrightarrow> bt_inv (lb_ids ls')"
  using assms by (auto simp: slot_entry_def slot_id_def bt_get_insert bt_inv_insert split: option.splits)

lemma slot_id_less: "graph_ok cx \<Longrightarrow> slot_id (cx_labels cx) key = Some i \<Longrightarrow> i < length (lb_slots (cx_labels cx))"
  by (auto simp: graph_ok_def slot_id_def list_all_iff dest: map_of_SomeD)

lemma slot_entry_slots:
  assumes "graph_ok cx" "slot_entry (cx_labels cx) name = (i, ls')"
  shows "key \<noteq> name \<Longrightarrow> slot_get ls' key = slot_get (cx_labels cx) key"
    "lb_slots ls' ! i = (case slot_get (cx_labels cx) name of Some s \<Rightarrow> s | None \<Rightarrow> slot_default)"
    "slots_apart (cx_labels cx) \<Longrightarrow> slots_apart ls'"
proof -
  show "slot_get ls' key = slot_get (cx_labels cx) key" if "key \<noteq> name"
    using assms that slot_id_less [OF assms(1), of key]
    by (cases "slot_id (cx_labels cx) key")
      (auto simp: slot_entry_def slot_get_def slot_id_def bt_get_insert nth_append split: option.splits)
  show "lb_slots ls' ! i = (case slot_get (cx_labels cx) name of Some s \<Rightarrow> s | None \<Rightarrow> slot_default)"
    using assms(2) by (auto simp: slot_entry_def slot_get_def split: option.splits)
  show "slots_apart ls'" if "slots_apart (cx_labels cx)"
  proof -
    have "i \<noteq> j" if "key \<noteq> name" "slot_id (cx_labels cx) key = Some j" for key j
      using assms(2) slot_id_less [OF assms(1) that(2)] \<open>slots_apart (cx_labels cx)\<close> that
      by (auto simp: slot_entry_def slots_apart_def split: option.splits)
    then show ?thesis using that unfolding slots_apart_def slot_entry_ids(1) [OF assms(2)] by (metis option.inject)
  qed
qed

lemma set_source_effect:
  assumes "graph_ok cx" "slots_apart (cx_labels cx)" "label_source cx lbl = None"
  shows "label_source (set_source lbl d cx) key = (if key = lbl then Some d else label_source cx key)"
    "label_rule (set_source lbl d cx) key = label_rule cx key"
    "slot_id (cx_labels (set_source lbl d cx)) key =
       (if key = lbl then Some (fst (slot_entry (cx_labels cx) lbl)) else slot_id (cx_labels cx) key)"
    "cx_nodes (set_source lbl d cx) = cx_nodes cx" "cx_recorder (set_source lbl d cx) = cx_recorder cx"
    "cx_instances (set_source lbl d cx) = cx_instances cx" "cx_group_digests (set_source lbl d cx) = cx_group_digests cx"
    "cx_bzl_digests (set_source lbl d cx) = cx_bzl_digests cx"
    "slots_apart (cx_labels (set_source lbl d cx))"
    "bt_inv (lb_ids (cx_labels cx)) \<Longrightarrow> bt_inv (lb_ids (cx_labels (set_source lbl d cx)))"
    "list_all (\<lambda>slot. sl_replaced_canonical slot = None) (lb_slots (cx_labels cx)) \<Longrightarrow>
       list_all (\<lambda>slot. sl_replaced_canonical slot = None) (lb_slots (cx_labels (set_source lbl d cx)))"
proof -
  obtain i ls where e: "slot_entry (cx_labels cx) lbl = (i, ls)" by force
  let ?slot = "lb_slots ls ! i" and ?S = "length (cx_source_digests cx)"
  have ids_ok: "list_all (\<lambda>(_, i). i < length (lb_slots (cx_labels cx))) (lb_ids (cx_labels cx))" using assms(1) by (simp add: graph_ok_def)
  note ok = slot_entry_ok [OF e ids_ok] and ids = slot_entry_ids [OF e] and slots = slot_entry_slots [OF assms(1) e]
  have none: "sl_source ?slot = None"
    using assms(3) by (auto simp: slots(2) label_source_def slot_source_def slot_default_def split: option.splits)
  define ls' where "ls' = ls\<lparr>lb_slots := (lb_slots ls)[i := ?slot\<lparr>sl_source := Some ?S\<rparr>]\<rparr>"
  have set: "set_source lbl d cx = cx\<lparr>cx_labels := ls', cx_source_digests := cx_source_digests cx @ [d]\<rparr>"
    using e none by (simp add: set_source_def ls'_def)
  have at_id: "slot_get ls' lbl = Some (?slot\<lparr>sl_source := Some ?S\<rparr>)"
    using ok(1) ids(1) [of lbl] by (simp add: slot_get_def ls'_def slot_id_def)
  have other: "slot_get ls' key = slot_get (cx_labels cx) key" if "key \<noteq> lbl" for key
  proof -
    have "slot_id ls key \<noteq> Some i" using that slots(3) [OF assms(2)] ids(1) [of lbl] unfolding slots_apart_def by auto
    then have "slot_get ls' key = slot_get ls key" by (cases "slot_id ls key") (auto simp: slot_get_def ls'_def slot_id_def)
    then show ?thesis using slots(1) [OF that] by simp
  qed
  have old: "slot_source (set_source lbl d cx) s = slot_source cx s" if "slot_get (cx_labels cx) key = Some s" for key s
    using slot_get_ok [OF assms(1) that] by (cases "sl_source s") (auto simp: set slot_source_def slot_ok_def nth_append)
  show "label_source (set_source lbl d cx) key = (if key = lbl then Some d else label_source cx key)"
  proof (cases "key = lbl")
    case True
    then show ?thesis using at_id by (simp add: label_source_def set slot_source_def)
  next
    case False
    then show ?thesis using other [OF False] old [of key]
      by (cases "slot_get (cx_labels cx) key") (simp_all add: label_source_def set)
  qed
  show "label_rule (set_source lbl d cx) key = label_rule cx key"
  proof (cases "key = lbl")
    case True
    then show ?thesis using at_id by (simp add: label_rule_def set slots(2) slot_default_def split: option.splits)
  next
    case False
    then show ?thesis using other [OF False] by (simp add: label_rule_def set)
  qed
  show "slot_id (cx_labels (set_source lbl d cx)) key =
       (if key = lbl then Some (fst (slot_entry (cx_labels cx) lbl)) else slot_id (cx_labels cx) key)"
    using ids(1) [of key] e by (simp add: set ls'_def slot_id_def)
  show "cx_nodes (set_source lbl d cx) = cx_nodes cx" "cx_recorder (set_source lbl d cx) = cx_recorder cx"
    "cx_instances (set_source lbl d cx) = cx_instances cx" "cx_group_digests (set_source lbl d cx) = cx_group_digests cx"
    "cx_bzl_digests (set_source lbl d cx) = cx_bzl_digests cx" by (simp_all add: set)
  show "slots_apart (cx_labels (set_source lbl d cx))" using slots(3) [OF assms(2)] by (simp add: set ls'_def slots_apart_def slot_id_def)
  show "bt_inv (lb_ids (cx_labels (set_source lbl d cx)))" if "bt_inv (lb_ids (cx_labels cx))" using ids(2) that by (simp add: set ls'_def)
  show "list_all (\<lambda>slot. sl_replaced_canonical slot = None) (lb_slots (cx_labels (set_source lbl d cx)))"
    if all: "list_all (\<lambda>slot. sl_replaced_canonical slot = None) (lb_slots (cx_labels cx))"
  proof -
    have "\<forall>slot \<in> set (lb_slots ls). sl_replaced_canonical slot = None" using all ok(4) by (auto simp: list_all_iff slot_default_def)
    then show ?thesis using ok(1) by (auto simp: set ls'_def list_all_iff dest!: subsetD [OF set_update_subset_insert])
  qed
qed

lemma consistent_set_source:
  assumes "consistent e cx0 cx" "label_source cx lbl = None" "label_rule cx0 lbl = None" "soft_value e lbl = Some d"
  shows "consistent e cx0 (set_source lbl d cx)"
proof -
  note c = consistentD [OF assms(1)]
  note eff = set_source_effect [OF c(1,12) assms(2), of d]
  have none: "label_source cx0 lbl = None" using c(10) assms(2) by (cases "label_source cx0 lbl") auto
  have "slot_id (cx_labels cx0) lbl = Some i \<Longrightarrow> fst (slot_entry (cx_labels cx) lbl) = i" for i
    using c(9) [of lbl i] by (simp add: slot_entry_def)
  moreover have "graph_ok (set_source lbl d cx)" using keeps_graph [OF set_source_keeps [OF c(1)]] .
  moreover have "node_digest_of (set_source lbl d cx) = node_digest_of cx" by (simp add: node_digest_of_def eff(4) fun_eq_iff)
  ultimately show ?thesis using assms none unfolding consistent_def eff
    by - (elim conjE, intro conjI; (assumption | simp add: eff | (auto simp: eff)))
qed

subsection \<open>The parts of a visit\<close>

lemma readable: "plain_graph e cx0 \<Longrightarrow> we_soft_digest e lbl = Inr (soft_value e lbl)"
  unfolding plain_graph_def soft_value_def by (cases "we_soft_digest e lbl") auto

lemma hash_bzl_paths_value:
  assumes "plain_graph e cx0"
  shows "consistent e cx0 cx \<Longrightarrow> \<exists>cx'. hash_bzl_paths e ps acc cx =
    (Inr (acc @ concat (map (\<lambda>p. case soft_value e (''//'' @ p) of None \<Rightarrow> [] | Some d \<Rightarrow> as_bytes p @ d) ps)), cx') \<and> consistent e cx0 cx'"
proof (induction ps arbitrary: acc cx)
  case (Cons p ps)
  let ?x = "case soft_value e (''//'' @ p) of None \<Rightarrow> [] | Some d \<Rightarrow> as_bytes p @ d"
  show ?case
  proof (cases "bt_get (cx_bzl_digests cx) p")
    case (Some cached)
    then have "cached = soft_value e (''//'' @ p)" using consistentD(11) [OF Cons.prems Some] readable [OF assms] by simp
    then show ?thesis using Cons.IH [OF Cons.prems, of "acc @ ?x"] Some by (simp add: append_assoc)
  next
    case None
    let ?cx = "cx\<lparr>cx_bzl_digests := bt_insert p (soft_value e (''//'' @ p)) (cx_bzl_digests cx)\<rparr>"
    have "consistent e cx0 ?cx"
      by (rule consistent_cong [OF Cons.prems])
        (use consistentD(5,11) [OF Cons.prems] consistent_group [OF Cons.prems] readable [OF assms] in
          \<open>auto simp: bt_get_insert split: if_splits\<close>)
    then show ?thesis using Cons.IH [of ?cx "acc @ ?x"] None readable [OF assms] by simp
  qed
qed simp

lemma rule_bzl_seed_value:
  assumes "plain_graph e cx0" "consistent e cx0 cx"
  shows "\<exists>cx'. rule_bzl_seed e r cx = (Inr (bzl_seed_value e r), cx') \<and> consistent e cx0 cx'"
proof (cases "rule_instantiation_stack r = []")
  case False
  obtain cx' where "hash_bzl_paths e (bzl_paths r) [] cx =
      (Inr (concat (map (\<lambda>p. case soft_value e (''//'' @ p) of None \<Rightarrow> [] | Some d \<Rightarrow> as_bytes p @ d) (bzl_paths r))), cx')"
      "consistent e cx0 cx'"
    using hash_bzl_paths_value [OF assms, of "bzl_paths r" "[]"] by auto
  then show ?thesis using False by (simp add: rule_bzl_seed_def bzl_seed_value_def)
qed (simp add: rule_bzl_seed_def bzl_seed_value_def assms)

text \<open>What the recursive call owes the loops.\<close>

definition serves :: "walk_env \<Rightarrow> hash_context \<Rightarrow> walk_step \<Rightarrow> nat list \<Rightarrow> (nat \<Rightarrow> target_digest) \<Rightarrow> nat set \<Rightarrow> bool" where
  "serves e cx0 walk path v M \<longleftrightarrow>
     (\<forall>m \<in> M. m < length (cx_nodes cx0) \<and> node_sem e cx0 m (v m) \<and>
        (\<forall>cx. consistent e cx0 cx \<longrightarrow> (\<exists>cx'. walk m path cx = (Inr (v m), cx') \<and> consistent e cx0 cx')))"

lemma visit_dependency_value:
  assumes "serves e cx0 walk path v M" "m \<in> M" "consistent e cx0 cx" "prior = None \<or> prior = Some (td_overall (v m))"
  shows "\<exists>cx'. visit_dependency walk m prior path cx = (Inr (td_overall (v m)), cx') \<and> consistent e cx0 cx'"
proof (cases prior)
  case None
  have m: "m < length (cx_nodes cx0)" "node_sem e cx0 m (v m)" using assms(1,2) by (auto simp: serves_def)
  show ?thesis
  proof (cases "node_digest_of cx m")
    case (Some d)
    then have "d = v m" using consistentD(7) [OF assms(3) m(1) Some] m(2) node_sem_functional by blast
    then show ?thesis using None Some assms(3) by (simp add: visit_dependency_def)
  next
    case dn: None
    obtain cx' where "walk m path cx = (Inr (v m), cx')" "consistent e cx0 cx'" using assms(1-3) unfolding serves_def by blast
    then show ?thesis using None dn by (simp add: visit_dependency_def)
  qed
qed (use assms in \<open>auto simp: visit_dependency_def\<close>)

lemma visit_soft_value:
  assumes "plain_graph e cx0" "consistent e cx0 cx"
    and "soft_value e lbl = None \<or> label_source cx lbl = None \<and> label_rule cx0 lbl = None"
  shows "\<exists>cx'. visit_soft e lbl b cx = (Inr (fold (contribute f) (soft_contribution e lbl) b), cx') \<and> consistent e cx0 cx'"
proof (cases "soft_value e lbl")
  case None
  then show ?thesis using readable [OF assms(1), of lbl] assms(2) by (simp add: visit_soft_def soft_contribution_def)
next
  case (Some d)
  then have "consistent e cx0 (set_source lbl d cx)" using assms consistent_set_source by auto
  then show ?thesis using readable [OF assms(1), of lbl] Some by (simp add: visit_soft_def soft_contribution_def)
qed

lemma resolve_input_same:
  assumes "resolve_input enc lbl pos path cx = (r, cx')"
  shows "label_source cx' key = label_source cx key"
proof -
  have "cx' = cx \<or> cx' = snd (label_instances cx)"
    using assms by (auto simp: resolve_input_def Let_def split: option.splits prod.splits list.splits if_splits)
  then have "cx_labels cx' = cx_labels cx" "cx_source_digests cx' = cx_source_digests cx"
    using label_instances_keeps [of cx "fst (label_instances cx)" "snd (label_instances cx)"] by auto
  moreover from this(2) have "slot_source cx' = slot_source cx" by (simp add: slot_source_def fun_eq_iff)
  ultimately show ?thesis by (simp add: label_source_def)
qed

lemma visit_input_value:
  assumes "plain_graph e cx0" "consistent e cx0 cx" "n < length (cx_nodes cx0)"
    and serve: "serves e cx0 walk path v M"
    and deps: "\<And>key nm m. CDep key nm m \<in> set (input_contribution e cx0 n input) \<Longrightarrow> m \<in> M"
    and pos: "\<And>i. input_position (cx_nodes cx0 ! n) k = Some i \<Longrightarrow> slot_id (cx_labels cx0) (target_label input) = Some i"
  shows "\<exists>cx'. visit_input walk e n (node_extension e (cx_nodes cx0 ! n)) path k input b cx =
      (Inr (fold (contribute (overall_of v)) (input_contribution e cx0 n input) b), cx') \<and> consistent e cx0 cx'"
proof -
  let ?ext = "node_extension e (cx_nodes cx0 ! n)"
  define enc where "enc = viewed_input cx0 ?ext input"
  define lbl where "lbl = target_label enc"
  define slot where "slot = (case extension_view cx0 ?ext input of Some _ \<Rightarrow> None | None \<Rightarrow> input_position (cx_nodes cx0 ! n) k)"
  have node: "input_position (cx_nodes cx ! n) k = input_position (cx_nodes cx0 ! n) k"
    using consistent_node(3) [OF assms(2,3)] by (simp add: input_position_def)
  have ei: "(case extension_view cx ?ext input of Some view \<Rightarrow> (view, None) | None \<Rightarrow> (input, input_position (cx_nodes cx ! n) k)) = (enc, slot)"
    using consistent_view [OF assms(2)] node by (auto simp: enc_def viewed_input_def slot_def split: option.splits)
  have "slot_id (cx_labels cx0) (target_label enc) = Some i" if "slot = Some i" for i
    using that pos by (auto simp: slot_def enc_def viewed_input_def split: option.splits)
  then obtain cx1 where res: "resolve_input enc lbl slot path cx =
      (case label_source cx lbl of Some d \<Rightarrow> Some (ISource d) | None \<Rightarrow> map_option (\<lambda>m. IRule lbl m None) (label_rule cx0 lbl), cx1)"
    and c1: "consistent e cx0 cx1"
    using resolve_input_value [OF assms(1,2), of slot enc path] unfolding lbl_def by blast
  have src1: "label_source cx1 lbl = label_source cx lbl" by (rule resolve_input_same [OF res])
  have contr: "input_contribution e cx0 n input = CBytes (as_bytes enc) #
      (case label_source cx0 lbl of Some d \<Rightarrow> [CSource lbl d]
       | None \<Rightarrow> (case label_rule cx0 lbl of
           Some m \<Rightarrow> if lbl = node_name cx0 n then soft_contribution e lbl else [CDep lbl (node_name cx0 m) m]
         | None \<Rightarrow> soft_contribution e lbl))"
    by (simp only: input_contribution_def Let_def enc_def lbl_def)
  note go = visit_input_def Let_def ei prod.case lbl_def [symmetric] res
  show ?thesis
  proof (cases "label_source cx lbl")
    case (Some d)
    have "input_contribution e cx0 n input = [CBytes (as_bytes enc), CSource lbl d]"
      using consistent_source [OF assms(2) Some] contr by (auto simp: soft_contribution_def)
    then show ?thesis using Some c1 unfolding go by simp
  next
    case None
    have none0: "label_source cx0 lbl = None" using consistentD(10) [OF assms(2), of lbl] None by (cases "label_source cx0 lbl") auto
    show ?thesis
    proof (cases "label_rule cx0 lbl")
      case rn: None
      then show ?thesis
        using visit_soft_value [OF assms(1) c1, of lbl "add_direct (as_bytes enc) b" "overall_of v"] None none0 src1 contr
        unfolding go by simp
    next
      case (Some m)
      show ?thesis
      proof (cases "lbl = node_name cx0 n")
        case True
        have "soft_value e lbl = None" using assms(1,3) True by (simp add: plain_graph_def)
        then show ?thesis
          using visit_soft_value [OF assms(1) c1, of lbl "add_direct (as_bytes enc) b" "overall_of v"] None none0 contr Some True
            consistent_node(4) [OF c1 assms(3)]
          unfolding go by simp
      next
        case False
        have m: "m \<in> M" using deps [of lbl "node_name cx0 m" m] contr none0 Some False by simp
        obtain cx2 where d: "visit_dependency walk m None path cx1 = (Inr (td_overall (v m)), cx2)" "consistent e cx0 cx2"
          using visit_dependency_value [OF serve m c1, of None] by blast
        have "m < length (cx_nodes cx0)" using serve m by (simp add: serves_def)
        then show ?thesis using None none0 contr Some False d consistent_node(4) [OF c1 assms(3)] consistent_node(4) [OF d(2)]
          unfolding go by (simp add: overall_of_def)
      qed
    qed
  qed
qed

lemma visit_inputs_value:
  assumes "plain_graph e cx0" "n < length (cx_nodes cx0)" "serves e cx0 walk path v M"
  shows "consistent e cx0 cx \<Longrightarrow> (\<And>key nm m. CDep key nm m \<in> set (concat (map (input_contribution e cx0 n) is)) \<Longrightarrow> m \<in> M) \<Longrightarrow>
    (\<And>j i. j < length is \<Longrightarrow> input_position (cx_nodes cx0 ! n) (k + j) = Some i \<Longrightarrow> slot_id (cx_labels cx0) (target_label (is ! j)) = Some i) \<Longrightarrow>
    \<exists>cx'. visit_inputs walk e n (node_extension e (cx_nodes cx0 ! n)) path k is b cx =
      (Inr (fold (contribute (overall_of v)) (concat (map (input_contribution e cx0 n) is)) b), cx') \<and> consistent e cx0 cx'"
proof (induction "is" arbitrary: k b cx)
  case (Cons i "is")
  obtain cx1 where c1: "visit_input walk e n (node_extension e (cx_nodes cx0 ! n)) path k i b cx =
      (Inr (fold (contribute (overall_of v)) (input_contribution e cx0 n i) b), cx1)" "consistent e cx0 cx1"
    using visit_input_value [OF assms(1) Cons.prems(1) assms(2,3), of i k b] Cons.prems(2) Cons.prems(3) [of 0] by force
  have "slot_id (cx_labels cx0) (target_label (is ! j)) = Some x"
    if "j < length is" "input_position (cx_nodes cx0 ! n) (Suc k + j) = Some x" for j x
    using Cons.prems(3) [of "Suc j" x] that by simp
  moreover have "m \<in> M" if "CDep key nm m \<in> set (concat (map (input_contribution e cx0 n) is))" for key nm m
    using Cons.prems(2) [of key nm m] that by auto
  ultimately have "\<exists>cx'. visit_inputs walk e n (node_extension e (cx_nodes cx0 ! n)) path (Suc k) is
      (fold (contribute (overall_of v)) (input_contribution e cx0 n i) b) cx1 =
      (Inr (fold (contribute (overall_of v)) (concat (map (input_contribution e cx0 n) is))
        (fold (contribute (overall_of v)) (input_contribution e cx0 n i) b)), cx') \<and> consistent e cx0 cx'"
    by (intro Cons.IH c1(2))
  then show ?case using c1(1) by simp
qed simp

lemma visit_package_group_value:
  assumes "plain_graph e cx0" "consistent e cx0 cx" "n < length (cx_nodes cx0)" "serves e cx0 walk path v M"
    and deps: "\<And>key nm m. CDep key nm m \<in> set (group_contribution cx0 n grp) \<Longrightarrow> m \<in> M"
  shows "\<exists>cx'. visit_package_group walk n path grp b cx =
      (Inr (fold (contribute (overall_of v)) (group_contribution cx0 n grp) b), cx') \<and> consistent e cx0 cx'"
proof (cases "grp = target_label (node_name cx0 n) \<or> label_rule cx0 grp = None")
  case True
  then have "group_contribution cx0 n grp = []" by (auto simp: group_contribution_def)
  moreover have "grp = target_label (node_name cx n) \<or> label_rule cx grp = None"
    using True consistent_node(4) [OF assms(2,3)] consistentD(8) [OF assms(2)] by simp
  ultimately show ?thesis using assms(2)
    by (auto simp: visit_package_group_def label_rule_def bind_eq_None_conv split: option.splits)
next
  case False
  then obtain m where m: "label_rule cx0 grp = Some m" and ne: "grp \<noteq> target_label (node_name cx0 n)" by blast
  obtain slot where s: "slot_get (cx_labels cx) grp = Some slot" "sl_rule slot = Some m"
    using consistentD(8) [OF assms(2), of grp] m by (auto simp: label_rule_def bind_eq_Some_conv)
  have mN: "m < length (cx_nodes cx0)"
    using slot_get_ok [OF consistentD(1) [OF assms(2)] s(1)] s(2) consistent_node(5) [OF assms(2,3)] by (simp add: slot_ok_def)
  have cls: "rule_class (rn_rule (cx_nodes cx ! m)) = rule_class (rn_rule (cx_nodes cx0 ! m))" using consistent_node(1) [OF assms(2) mN] by simp
  show ?thesis
  proof (cases "rule_class (rn_rule (cx_nodes cx0 ! m)) = ''package_group''")
    case True
    have contr: "group_contribution cx0 n grp = [CBytes (as_bytes grp), CDep grp grp m]" using m ne True by (simp add: group_contribution_def)
    have mM: "m \<in> M" using deps contr by simp
    have sem: "node_sem e cx0 m (v m)" using assms(4) mM by (simp add: serves_def)
    have "sl_replaced_canonical slot = None" by (rule consistent_replaced [OF assms(2) s(1)])
    then have prior: "map_option td_overall (slot_completed cx slot grp) = None \<or> map_option td_overall (slot_completed cx slot grp) = Some (td_overall (v m))"
    proof (cases "slot_completed cx slot grp")
      case (Some d)
      then have "node_digest_of cx m = Some d"
        using s(2) \<open>sl_replaced_canonical slot = None\<close> by (auto simp: slot_completed_def bind_eq_Some_conv split: if_splits)
      then have "node_sem e cx0 m d" by (rule consistentD(7) [OF assms(2) mN])
      with sem have "v m = d" by (rule node_sem_functional)
      then show ?thesis using Some by simp
    qed simp
    obtain cx' where "visit_dependency walk m (map_option td_overall (slot_completed cx slot grp)) path cx = (Inr (td_overall (v m)), cx')"
        "consistent e cx0 cx'"
      using visit_dependency_value [OF assms(4) mM assms(2) prior] by blast
    then show ?thesis using contr s ne True cls consistent_node(4) [OF assms(2,3)] by (simp add: visit_package_group_def overall_of_def)
  next
    case False
    then show ?thesis using assms(2) m s ne cls consistent_node(4) [OF assms(2,3)]
      by (simp add: visit_package_group_def group_contribution_def)
  qed
qed

lemma visit_package_groups_value:
  assumes "plain_graph e cx0" "n < length (cx_nodes cx0)" "serves e cx0 walk path v M"
  shows "consistent e cx0 cx \<Longrightarrow> (\<And>key nm m. CDep key nm m \<in> set (concat (map (group_contribution cx0 n) gs)) \<Longrightarrow> m \<in> M) \<Longrightarrow>
    \<exists>cx'. visit_package_groups walk n path gs b cx =
      (Inr (fold (contribute (overall_of v)) (concat (map (group_contribution cx0 n) gs)) b), cx') \<and> consistent e cx0 cx'"
proof (induction gs arbitrary: b cx)
  case (Cons g gs)
  obtain cx1 where c1: "visit_package_group walk n path g b cx =
      (Inr (fold (contribute (overall_of v)) (group_contribution cx0 n g) b), cx1)" "consistent e cx0 cx1"
    using visit_package_group_value [OF assms(1) Cons.prems(1) assms(2,3), of g b] Cons.prems(2) by force
  have "m \<in> M" if "CDep key nm m \<in> set (concat (map (group_contribution cx0 n) gs))" for key nm m
    using Cons.prems(2) [of key nm m] that by auto
  then have "\<exists>cx'. visit_package_groups walk n path gs (fold (contribute (overall_of v)) (group_contribution cx0 n g) b) cx1 =
      (Inr (fold (contribute (overall_of v)) (concat (map (group_contribution cx0 n) gs))
        (fold (contribute (overall_of v)) (group_contribution cx0 n g) b)), cx') \<and> consistent e cx0 cx'"
    by (intro Cons.IH c1(2))
  then show ?case using c1(1) by simp
qed simp

subsection \<open>Shared inputs are the inputs read one by one\<close>

lemma group_digest_value:
  assumes c: "consistent e cx0 cx"
  shows "group_digest cx lbls (names, tr) = Some d \<Longrightarrow>
    \<exists>ms ds. list_all2 (\<lambda>l m. label_rule cx0 l = Some m \<and> label_source cx0 l = None \<and> node_name cx0 m = l) lbls ms \<and>
      list_all2 (node_sem e cx0) ms ds \<and> d = (names @ concat (map as_bytes lbls), tr @ concat (map td_overall ds))"
proof (induction lbls arbitrary: names tr)
  case (Cons l lbls)
  obtain slot digest where s: "slot_get (cx_labels cx) l = Some slot" "sl_source slot = None" "slot_completed cx slot l = Some digest"
    and rest: "group_digest cx lbls (names @ as_bytes l, tr @ td_overall digest) = Some d"
    using Cons.prems by (auto split: option.splits if_splits)
  obtain m where m: "sl_rule slot = Some m" "node_name cx m = l" "node_digest_of cx m = Some digest"
    using s(3) consistent_replaced [OF c s(1)] by (auto simp: slot_completed_def bind_eq_Some_conv split: if_splits)
  have "m < length (cx_nodes cx)" using slot_get_ok [OF consistentD(1) [OF c] s(1)] m(1) by (simp add: slot_ok_def)
  then have mN: "m < length (cx_nodes cx0)" using consistentD(3) [OF c] by (metis length_map)
  have rule: "label_rule cx0 l = Some m" using consistentD(8) [OF c, of l] s(1) m(1) by (simp add: label_rule_def)
  have "label_source cx l = None" using s(1,2) by (simp add: label_source_def slot_source_def)
  then have src: "label_source cx0 l = None" using consistentD(10) [OF c, of l] by (cases "label_source cx0 l") auto
  have nm: "node_name cx0 m = l" using consistent_node(4) [OF c mN] m(2) by simp
  have sem: "node_sem e cx0 m digest" by (rule consistentD(7) [OF c mN m(3)])
  obtain ms ds where "list_all2 (\<lambda>l m. label_rule cx0 l = Some m \<and> label_source cx0 l = None \<and> node_name cx0 m = l) lbls ms"
      "list_all2 (node_sem e cx0) ms ds" "d = ((names @ as_bytes l) @ concat (map as_bytes lbls), (tr @ td_overall digest) @ concat (map td_overall ds))"
    using Cons.IH [OF rest] by blast
  then show ?case using rule src nm sem by (intro exI [of _ "m # ms"] exI [of _ "digest # ds"]) simp
qed simp

definition list_group :: "string list \<Rightarrow> bytes \<Rightarrow> digest_builder \<Rightarrow> digest_builder" where
  "list_group lbls tr b =
     b\<lparr>db_direct := db_direct b @ concat (map as_bytes lbls), db_overall := db_overall b @ tr,
       db_deps := (if db_track_deps b then db_deps b @ lbls else db_deps b),
       db_recipe := map_option (\<lambda>r. r\<lparr>rb_fixed := rb_fixed r @ concat (map as_bytes lbls), rb_deps := rb_deps r @ lbls\<rparr>) (db_recipe b)\<rparr>"

lemma list_group_Cons:
  "list_group lbls tr (add_transitive l l x (add_direct (as_bytes l) b)) = list_group (l # lbls) (x @ tr) b"
  by (cases b; cases "db_recipe b") (auto simp: list_group_def add_transitive_def add_direct_def)

lemma list_group_Nil: "list_group [] [] b = b"
  by (cases b; cases "db_recipe b") (auto simp: list_group_def)

lemma fold_group_contributions:
  assumes "list_all2 (\<lambda>l m. contr l = [CBytes (as_bytes l), CDep l l m]) lbls ms"
  shows "fold (contribute f) (concat (map contr lbls)) b = list_group lbls (concat (map f ms)) b"
  using assms by (induction lbls ms arbitrary: b rule: list_all2_induct) (simp_all add: list_group_Nil list_group_Cons)

definition pristine :: "digest_builder \<Rightarrow> bool" where
  "pristine b \<longleftrightarrow> db_overall b = [] \<and> db_deps b = [] \<and> pred_option (\<lambda>r. rb_deps r = []) (db_recipe b)"

lemma pristine_seeded: "pristine (seeded_builder e node bz recording)"
  by (auto simp: pristine_def seeded_builder_def builder_new_def add_direct_def Let_def option.pred_map split: option.splits)

lemma use_group_list: "pristine b \<Longrightarrow> use_group grp (concat (map as_bytes (ig_labels grp)), tr) b = list_group (ig_labels grp) tr b"
  by (cases b; cases "db_recipe b") (auto simp: pristine_def use_group_def list_group_def add_direct_def)

lemma external_no_extension:
  assumes "starts_with EXTERNAL (rule_name (rn_rule node))" "target_label (rule_name (rn_rule node)) = rule_name (rn_rule node)"
  shows "node_extension e node = None"
proof -
  have "strip_prefix ''@'' (rule_name (rn_rule node)) = None" using assms(1) by (auto simp: starts_with_iff EXTERNAL_def)
  then show ?thesis using assms(2) by (simp add: node_extension_def rule_extension_def)
qed

lemma plain_shared:
  assumes "plain_graph e cx" "n < length (cx_nodes cx)" "pr_shared_inputs (rn_prepared (cx_nodes cx ! n)) = Some grp"
  shows "node_inputs e (cx_nodes cx ! n) = []" "starts_with EXTERNAL (node_name cx n)" "target_label (node_name cx n) = node_name cx n"
    "node_name cx n \<notin> set (ig_labels grp)" "l \<in> set (ig_labels grp) \<Longrightarrow> target_label l = l"
    "m < length (cx_nodes cx) \<Longrightarrow> pr_shared_inputs (rn_prepared (cx_nodes cx ! m)) = Some grp' \<Longrightarrow>
       ig_extension grp' = ig_extension grp \<Longrightarrow> ig_labels grp' = ig_labels grp"
proof -
  have "shared_ok e cx n" using assms(1,2) unfolding plain_graph_def by blast
  note sh = this [unfolded shared_ok_def, rule_format, OF assms(3)]
  show "node_inputs e (cx_nodes cx ! n) = []" "starts_with EXTERNAL (node_name cx n)" "target_label (node_name cx n) = node_name cx n"
    "node_name cx n \<notin> set (ig_labels grp)" using sh by blast+
  show "target_label l = l" if "l \<in> set (ig_labels grp)" using sh that by blast
  show "ig_labels grp' = ig_labels grp" if "m < length (cx_nodes cx)" "pr_shared_inputs (rn_prepared (cx_nodes cx ! m)) = Some grp'"
      "ig_extension grp' = ig_extension grp"
    using sh that by blast
qed

lemma shared_contribution:
  assumes "plain_graph e cx0" "n < length (cx_nodes cx0)" "pr_shared_inputs (rn_prepared (cx_nodes cx0 ! n)) = Some grp"
    and "l \<in> set (ig_labels grp)" "label_rule cx0 l = Some m" "label_source cx0 l = None" "node_name cx0 m = l"
  shows "input_contribution e cx0 n l = [CBytes (as_bytes l), CDep l l m]"
proof -
  note sh = plain_shared(2-5) [OF assms(1-3)]
  have "node_extension e (cx_nodes cx0 ! n) = None" using sh(1,2) by (intro external_no_extension) (simp_all add: node_name_def)
  then have "viewed_input cx0 (node_extension e (cx_nodes cx0 ! n)) l = l" by (simp add: viewed_input_def extension_view_def)
  then show ?thesis using assms(4-7) sh(3) sh(4) [OF assms(4)] by (auto simp: input_contribution_def)
qed

lemma apply_repository_inputs_value:
  assumes "plain_graph e cx0" "consistent e cx0 cx" "n < length (cx_nodes cx0)"
    and shared: "pr_shared_inputs (rn_prepared (cx_nodes cx0 ! n)) = Some grp"
    and used: "apply_repository_inputs grp b cx = Some (b', cx')" and "pristine b"
    and v: "\<And>m. m \<in> set (node_deps e cx0 n) \<Longrightarrow> node_sem e cx0 m (v m)"
  shows "b' = fold (contribute (overall_of v)) (concat (map (input_contribution e cx0 n) (ig_labels grp))) b \<and> consistent e cx0 cx'"
proof -
  obtain d where d: "group_value e cx0 (ig_labels grp) d" and b': "b' = use_group grp d b" and c': "consistent e cx0 cx'"
  proof (cases "bt_get (cx_group_digests cx) (ig_extension grp)")
    case (Some d)
    then show thesis using that consistent_group [OF assms(2,3) shared Some] used assms(2) by (auto simp: apply_repository_inputs_def)
  next
    case None
    then obtain d where gd: "group_digest cx (ig_labels grp) ([], []) = Some d" "b' = use_group grp d b"
        "cx' = cx\<lparr>cx_group_digests := bt_insert (ig_extension grp) d (cx_group_digests cx)\<rparr>"
      using used by (auto simp: apply_repository_inputs_def split: option.splits)
    have gv: "group_value e cx0 (ig_labels grp) d"
      using group_digest_value [OF assms(2) gd(1)] by (auto simp: group_value_def)
    have same: "ig_labels grp' = ig_labels grp"
      if "m < length (cx_nodes cx0)" "pr_shared_inputs (rn_prepared (cx_nodes cx0 ! m)) = Some grp'" "ig_extension grp' = ig_extension grp" for m grp'
      by (rule plain_shared(6) [OF assms(1,3) shared that])
    have "consistent e cx0 cx'" unfolding gd(3)
    proof (rule consistent_cong [OF assms(2)])
      fix m grp' d'
      assume m: "m < length (cx_nodes cx0)" "pr_shared_inputs (rn_prepared (cx_nodes cx0 ! m)) = Some grp'"
        and get: "bt_get (cx_group_digests (cx\<lparr>cx_group_digests := bt_insert (ig_extension grp) d (cx_group_digests cx)\<rparr>)) (ig_extension grp') = Some d'"
      show "group_value e cx0 (ig_labels grp') d'"
      proof (cases "ig_extension grp' = ig_extension grp")
        case True
        then show ?thesis using get gv same [OF m True] by (simp add: bt_get_insert)
      next
        case False
        then show ?thesis using get consistent_group [OF assms(2) m] by (simp add: bt_get_insert)
      qed
    qed (use consistentD(5,11) [OF assms(2)] in simp_all)
    then show thesis using that gv gd(2) by blast
  qed
  obtain ms ds where g: "list_all2 (\<lambda>l m. label_rule cx0 l = Some m \<and> label_source cx0 l = None \<and> node_name cx0 m = l) (ig_labels grp) ms"
      "list_all2 (node_sem e cx0) ms ds" "d = (concat (map as_bytes (ig_labels grp)), concat (map td_overall ds))"
    using d by (auto simp: group_value_def)
  have contr: "list_all2 (\<lambda>l m. input_contribution e cx0 n l = [CBytes (as_bytes l), CDep l l m]) (ig_labels grp) ms"
    using g(1) shared_contribution [OF assms(1,3) shared] by (auto simp: list_all2_conv_all_nth)
  have inputs: "node_inputs e (cx_nodes cx0 ! n) = []" by (rule plain_shared(1) [OF assms(1,3) shared])
  have "m \<in> set (node_deps e cx0 n)" if "m \<in> set ms" for m
  proof -
    note prems = that
    obtain i where "i < length ms" "ms ! i = m" using prems by (auto simp: in_set_conv_nth)
    define l where "l = ig_labels grp ! i"
    have "l \<in> set (ig_labels grp)" "input_contribution e cx0 n l = [CBytes (as_bytes l), CDep l l m]"
      using contr \<open>i < length ms\<close> \<open>ms ! i = m\<close> by (auto simp: list_all2_conv_all_nth l_def)
    then have "CDep l l m \<in> set (contributions e cx0 n)" using shared by (force simp: contributions_def shared_labels_def)
    then show ?thesis by (rule CDep_node_deps)
  qed
  then have "list_all2 (\<lambda>m d. d = v m) ms ds"
    using g(2) v node_sem_functional by (auto simp: list_all2_conv_all_nth)
  then have "ds = map v ms" by (simp add: list_all2_conv_all_nth nth_equalityI)
  then have "d = (concat (map as_bytes (ig_labels grp)), concat (map (overall_of v) ms))"
    using g(3) by (simp add: comp_def overall_of_def [abs_def])
  then show ?thesis using c' b' use_group_list [OF assms(6)] fold_group_contributions [OF contr, of "overall_of v" b] by simp
qed

subsection \<open>One node\<close>

lemma complete_node_value:
  assumes "consistent e cx0 cx" "n < length (cx_nodes cx0)" "node_sem e cx0 n (fst (builder_finish (we_crates e) b))"
    and "settled (fst (complete_node e n b cx))"
  shows "\<exists>cx'. complete_node e n b cx = (Inr (fst (builder_finish (we_crates e) b)), cx') \<and> consistent e cx0 cx'"
proof -
  obtain digest recipe where f: "builder_finish (we_crates e) b = (digest, recipe)" by force
  define cx1 where "cx1 = record_recipe n recipe cx"
  have c1: "consistent e cx0 cx1"
    by (rule consistent_cong [OF assms(1)])
      (use consistentD(5,11) [OF assms(1)] consistent_group [OF assms(1)] in \<open>auto simp: cx1_def record_recipe_def split: option.splits\<close>)
  have none: "node_digest_of cx1 n = None" using assms(4) f by (auto simp: complete_node_def settled_def simp flip: cx1_def split: if_splits)
  define cx2 where "cx2 = cx1\<lparr>cx_nodes := (cx_nodes cx1)[n := (cx_nodes cx1 ! n)\<lparr>rn_digest := Some digest\<rparr>]\<rparr>"
  have done_: "complete_node e n b cx = (Inr digest, cx2)" using f none by (simp add: complete_node_def cx2_def flip: cx1_def)
  have k: "keeps {} cx cx2"
    using complete_node_keeps [OF done_ consistentD(1) [OF assms(1)], of "{}"] none
    by (auto simp: cx1_def node_digest_of_def record_recipe_def split: option.splits)
  have same: "label_rule cx2 = label_rule cx1" "label_source cx2 = label_source cx1" "cx_labels cx2 = cx_labels cx1"
    "cx_recorder cx2 = cx_recorder cx1" "cx_instances cx2 = cx_instances cx1" "cx_bzl_digests cx2 = cx_bzl_digests cx1"
    "cx_group_digests cx2 = cx_group_digests cx1"
    by (auto simp: cx2_def label_rule_def [abs_def] label_source_def [abs_def] slot_source_def [abs_def])
  have "map static_node (cx_nodes cx2) = map static_node (cx_nodes cx0)" using k consistentD(3) [OF assms(1)] by (simp add: keeps_def)
  moreover have "node_sem e cx0 m d" if "m < length (cx_nodes cx0)" "node_digest_of cx2 m = Some d" for m d
  proof (cases "m = n")
    case True
    have "n < length (cx_nodes cx1)" using consistent_node(5) [OF c1 assms(2)] assms(2) by simp
    then have "d = digest" using that True by (simp add: cx2_def node_digest_of_def)
    then show ?thesis using assms(3) f True by simp
  next
    case False
    then show ?thesis using that consistentD(7) [OF c1, of m d] by (simp add: cx2_def node_digest_of_def)
  qed
  ultimately have "consistent e cx0 cx2" using c1 keeps_graph [OF k] unfolding consistent_def same
    by - (elim conjE, intro conjI; (assumption | blast))
  then show ?thesis using done_ f by simp
qed

lemma hash_node_value:
  assumes plain: "plain_graph e cx0" and c: "consistent e cx0 cx" and n: "n < length (cx_nodes cx0)" "n \<notin> set path"
    and none: "node_digest_of cx n = None" and sem: "node_sem e cx0 n d"
    and ok: "walk_ok (length (cx_nodes cx0)) walk (path @ [n])"
    and serve: "serves e cx0 walk (path @ [n]) v (set (node_deps e cx0 n))"
  shows "\<exists>cx'. hash_node walk e n (path @ [n]) cx = (Inr d, cx') \<and> consistent e cx0 cx'"
proof -
  let ?node = "cx_nodes cx0 ! n" and ?p = "path @ [n]" and ?f = "contribute (overall_of v)"
  let ?ins = "node_inputs e ?node @ shared_labels ?node"
  have v: "node_sem e cx0 m (v m)" if "m \<in> set (node_deps e cx0 n)" for m using serve that by (simp add: serves_def)
  have d: "d = reference_value e cx0 v n"
    using sem v n(1) node_sem_functional node_sem.intros [of n cx0 e v] by blast
  note node = consistent_node [OF c n(1)]
  have ext: "node_extension e (cx_nodes cx ! n) = node_extension e ?node" "node_inputs e (cx_nodes cx ! n) = node_inputs e ?node"
    and groups: "node_groups e (cx_nodes cx ! n) = node_groups e ?node"
    using node by (simp_all add: node_extension_def node_inputs_def node_groups_def)
  have seeded: "seeded_builder e (cx_nodes cx ! n) bz rec = seeded_builder e ?node bz rec" for bz rec
    by (simp only: seeded_builder_def node)
  obtain cx1 where bz: "rule_bzl_seed e (rn_rule ?node) cx = (Inr (bzl_seed_value e (rn_rule ?node)), cx1)" and c1: "consistent e cx0 cx1"
    using rule_bzl_seed_value [OF plain c] by blast
  have start: "seeded_builder e ?node (bzl_seed_value e (rn_rule ?node)) (cx_recorder cx1 \<noteq> None) = start_builder e cx0 n"
    using consistentD(4) [OF c1] by (simp add: start_builder_def)
  define shared where "shared = (case pr_shared_inputs (rn_prepared ?node) of
        None \<Rightarrow> (node_inputs e ?node, start_builder e cx0 n, cx1)
      | Some grp \<Rightarrow> (case apply_repository_inputs grp (start_builder e cx0 n) cx1 of
          Some (b', cx2) \<Rightarrow> (node_inputs e ?node, b', cx2)
        | None \<Rightarrow> (node_inputs e ?node @ ig_labels grp, start_builder e cx0 n, cx1)))"
  have deps: "m \<in> set (node_deps e cx0 n)" if "CDep key nm m \<in> set (concat (map (input_contribution e cx0 n) ?ins)) \<or>
      CDep key nm m \<in> set (concat (map (group_contribution cx0 n) (node_groups e ?node)))" for key nm m
    using that by (intro CDep_node_deps [of key nm]) (auto simp: contributions_def)
  have pos: "slot_id (cx_labels cx0) (target_label (?ins ! j)) = Some i" if "input_position ?node j = Some i" for i j
    using plain n(1) that by (auto simp: plain_graph_def prepared_ok_def nth_append)
  obtain ins b2 cx2 where sh: "shared = (ins, b2, cx2)" and c2: "consistent e cx0 cx2" and
    ins: "ins = ?ins \<and> b2 = start_builder e cx0 n \<or>
      ins = [] \<and> b2 = fold ?f (concat (map (input_contribution e cx0 n) ?ins)) (start_builder e cx0 n)"
  proof (cases "pr_shared_inputs (rn_prepared ?node)")
    case None
    then show thesis using that c1 by (simp add: shared_def shared_labels_def)
  next
    case (Some grp)
    have empty: "node_inputs e ?node = []" by (rule plain_shared(1) [OF plain n(1) Some])
    show thesis
    proof (cases "apply_repository_inputs grp (start_builder e cx0 n) cx1")
      case app: None
      then show thesis using that c1 Some by (simp add: shared_def shared_labels_def)
    next
      case app: (Some bc)
      obtain b' cx' where bc: "bc = (b', cx')" by force
      have "pristine (start_builder e cx0 n)" by (simp add: start_builder_def pristine_seeded)
      then have "b' = fold ?f (concat (map (input_contribution e cx0 n) (ig_labels grp))) (start_builder e cx0 n) \<and> consistent e cx0 cx'"
        using apply_repository_inputs_value [OF plain c1 n(1) Some _ _ v] app bc by blast
      then show thesis using that Some app bc empty by (simp add: shared_def shared_labels_def)
    qed
  qed
  have "\<exists>cx3. visit_inputs walk e n (node_extension e ?node) ?p 0 ins b2 cx2 =
      (Inr (fold ?f (concat (map (input_contribution e cx0 n) ?ins)) (start_builder e cx0 n)), cx3) \<and> consistent e cx0 cx3"
  proof (cases "ins = ?ins \<and> b2 = start_builder e cx0 n")
    case True
    have "\<exists>cx3. visit_inputs walk e n (node_extension e ?node) ?p 0 ?ins (start_builder e cx0 n) cx2 =
        (Inr (fold ?f (concat (map (input_contribution e cx0 n) ?ins)) (start_builder e cx0 n)), cx3) \<and> consistent e cx0 cx3"
    proof (rule visit_inputs_value [OF plain n(1) serve c2])
      show "m \<in> set (node_deps e cx0 n)" if "CDep key nm m \<in> set (concat (map (input_contribution e cx0 n) ?ins))" for key nm m
        using deps that by blast
      show "slot_id (cx_labels cx0) (target_label (?ins ! j)) = Some i" if "input_position ?node (0 + j) = Some i" for j i
        using pos that by simp
    qed
    then show ?thesis using True by simp
  next
    case False
    then show ?thesis using ins c2 by auto
  qed
  then obtain cx3 where vi: "visit_inputs walk e n (node_extension e ?node) ?p 0 ins b2 cx2 =
      (Inr (fold ?f (concat (map (input_contribution e cx0 n) ?ins)) (start_builder e cx0 n)), cx3)" and c3: "consistent e cx0 cx3" by blast
  obtain cx4 where vg: "visit_package_groups walk n ?p (node_groups e ?node) (fold ?f (concat (map (input_contribution e cx0 n) ?ins)) (start_builder e cx0 n)) cx3 =
      (Inr (fold ?f (contributions e cx0 n) (start_builder e cx0 n)), cx4)" and c4: "consistent e cx0 cx4"
    using visit_package_groups_value [OF plain n(1) serve c3, of "node_groups e ?node"] deps by (fastforce simp: contributions_def)
  let ?b = "fold ?f (contributions e cx0 n) (start_builder e cx0 n)"
  have all: "hash_node walk e n ?p cx = complete_node e n ?b cx4"
    unfolding hash_node_def Let_def node(1,2) bz prod.case sum.case seeded start ext shared_def [symmetric] sh vi
      node_groups_def [symmetric] groups vg prod.case sum.case ..
  have "d = fst (builder_finish (we_crates e) ?b)" using d by (simp add: reference_value_def)
  moreover have "settled (fst (hash_node walk e n ?p cx))"
    using hash_node_keeps [OF ok consistentD(1) [OF c] node(5) n none] by (metis prod.collapse)
  ultimately show ?thesis using complete_node_value [OF c4 n(1), of ?b] sem all by simp
qed

subsection \<open>All nodes\<close>

text \<open>The fuel left at a stack: one unit per node that is not on it, plus one.\<close>

definition walk_at :: "walk_env \<Rightarrow> hash_context \<Rightarrow> walk_step" where
  "walk_at e cx0 n path cx = node_digest e (Suc (length (cx_nodes cx0)) - length path) n path cx"

definition stack_ok :: "hash_context \<Rightarrow> nat list \<Rightarrow> bool" where
  "stack_ok cx0 path \<longleftrightarrow> distinct path \<and> set path \<subseteq> {..<length (cx_nodes cx0)}"

lemma stack_length: "stack_ok cx0 path \<Longrightarrow> length path \<le> length (cx_nodes cx0)"
  unfolding stack_ok_def by (metis card_lessThan card_mono distinct_card finite_lessThan)

lemma walk_at_local:
  assumes plain: "plain_graph e cx0" and sem: "node_sem e cx0 n d" and path: "n \<notin> set path" "stack_ok cx0 path" and c: "consistent e cx0 cx"
    and deps: "\<And>m w cx'. m \<in> set (node_deps e cx0 n) \<Longrightarrow> node_sem e cx0 m w \<Longrightarrow> consistent e cx0 cx' \<Longrightarrow>
      \<exists>cx''. walk_at e cx0 m (path @ [n]) cx' = (Inr w, cx'') \<and> consistent e cx0 cx''"
  shows "\<exists>cx'. walk_at e cx0 n path cx = (Inr d, cx') \<and> consistent e cx0 cx'"
proof -
  let ?N = "length (cx_nodes cx0)"
  have n: "n < ?N" using sem by (auto elim: node_semE)
  obtain v where v: "\<And>m. m \<in> set (node_deps e cx0 n) \<Longrightarrow> node_sem e cx0 m (v m)" using node_semE [OF sem] by metis
  have stack: "stack_ok cx0 (path @ [n])" using path n by (auto simp: stack_ok_def)
  obtain fuel where fuel: "Suc ?N - length path = Suc fuel" "Suc ?N - length (path @ [n]) = fuel"
    using stack_length [OF path(2)] by (cases "Suc ?N - length path") auto
  have ok: "walk_ok ?N (node_digest e fuel) (path @ [n])"
    using stack stack_length [OF stack] fuel by (intro node_digest_ok) (auto simp: stack_ok_def)
  have dN: "m < ?N" if "m \<in> set (node_deps e cx0 n)" for m using v [OF that] by (auto elim: node_semE)
  have serve: "serves e cx0 (node_digest e fuel) (path @ [n]) v (set (node_deps e cx0 n))"
    using deps v dN fuel(2) unfolding serves_def walk_at_def by blast
  show ?thesis
  proof (cases "node_digest_of cx n")
    case (Some d')
    then have "d' = d" using consistentD(7) [OF c n Some] node_sem_functional [OF sem] by blast
    then show ?thesis using Some c fuel(1) by (simp add: walk_at_def)
  next
    case None
    then show ?thesis using hash_node_value [OF plain c n path(1) None sem ok serve] path(1) fuel(1) by (simp add: walk_at_def)
  qed
qed

text \<open>On a graph outside the reference the law holds of no key.\<close>

definition plain_sem :: "walk_env \<Rightarrow> hash_context \<Rightarrow> nat \<Rightarrow> target_digest \<Rightarrow> bool" where
  "plain_sem e cx0 n d \<longleftrightarrow> plain_graph e cx0 \<and> node_sem e cx0 n d"

interpretation hw: stacked_walk "node_deps e cx0" "plain_sem e cx0" "consistent e cx0" "walk_at e cx0" "stack_ok cx0" for e cx0
proof unfold_locales
  fix n d path
  show "plain_sem e cx0 n d \<Longrightarrow> Wellfounded.accp (\<lambda>m n. m \<in> set (node_deps e cx0 n)) n"
    unfolding plain_sem_def by (blast intro: node_sem_acc)
  show "stack_ok cx0 path \<Longrightarrow> plain_sem e cx0 n d \<Longrightarrow> n \<notin> set path \<Longrightarrow> stack_ok cx0 (path @ [n])"
    by (auto simp: stack_ok_def plain_sem_def elim: node_semE)
  show "stack_ok cx0 []" by (simp add: stack_ok_def)
next
  fix n d path cx
  assume a: "plain_sem e cx0 n d" "n \<notin> set path" "stack_ok cx0 path" "consistent e cx0 cx"
    and deps: "\<And>m w cx'. m \<in> set (node_deps e cx0 n) \<Longrightarrow> plain_sem e cx0 m w \<Longrightarrow> consistent e cx0 cx' \<Longrightarrow>
      \<exists>cx''. walk_at e cx0 m (path @ [n]) cx' = (Inr w, cx'') \<and> consistent e cx0 cx''"
  then show "\<exists>cx'. walk_at e cx0 n path cx = (Inr d, cx') \<and> consistent e cx0 cx'"
    using walk_at_local [of e cx0 n d path cx] unfolding plain_sem_def by blast
qed

text \<open>The rules asked for one after the other, as \<^verbatim>\<open>hash_targets_with_environment\<close> does.\<close>

fun rule_digests :: "walk_env \<Rightarrow> string list \<Rightarrow> hash_context \<Rightarrow> (hash_error + target_digest list) \<times> hash_context" where
  "rule_digests e [] cx = (Inr [], cx)"
| "rule_digests e (key # keys) cx =
     (case rule_digest e key cx of
        (Inl err, cx') \<Rightarrow> (Inl err, cx')
      | (Inr d, cx') \<Rightarrow>
          (case rule_digests e keys cx' of
             (Inl err, cx'') \<Rightarrow> (Inl err, cx'')
           | (Inr ds, cx'') \<Rightarrow> (Inr (d # ds), cx'')))"

lemma rule_digest_value:
  assumes "plain_graph e cx0" "consistent e cx0 cx" "label_rule cx0 key = Some n" "node_sem e cx0 n d"
  shows "\<exists>cx'. rule_digest e key cx = (Inr d, cx') \<and> consistent e cx0 cx'"
proof -
  obtain slot where s: "slot_get (cx_labels cx) key = Some slot" "sl_rule slot = Some n"
    using consistentD(8) [OF assms(2), of key] assms(3) by (auto simp: label_rule_def bind_eq_Some_conv)
  have len: "length (cx_nodes cx) = length (cx_nodes cx0)" using consistentD(3) [OF assms(2)] by (metis length_map)
  have "rule_digest e key cx = walk_at e cx0 n [] cx"
    using s consistent_replaced [OF assms(2) s(1)] len by (simp add: rule_digest_def walk_at_def)
  then show ?thesis using hw.visit_top [of e cx0 n d cx] assms by (simp add: plain_sem_def)
qed

lemma rule_digests_value:
  assumes "plain_graph e cx0"
  shows "consistent e cx0 cx \<Longrightarrow> list_all2 (\<lambda>key d. \<exists>n. label_rule cx0 key = Some n \<and> node_sem e cx0 n d) keys ds \<Longrightarrow>
    \<exists>cx'. rule_digests e keys cx = (Inr ds, cx') \<and> consistent e cx0 cx'"
proof (induction keys arbitrary: cx ds)
  case (Cons key keys)
  then obtain n d ds' where ds: "ds = d # ds'" "label_rule cx0 key = Some n" "node_sem e cx0 n d"
    "list_all2 (\<lambda>key d. \<exists>n. label_rule cx0 key = Some n \<and> node_sem e cx0 n d) keys ds'"
    by (auto simp: list_all2_Cons1)
  obtain cx1 where c1: "rule_digest e key cx = (Inr d, cx1)" "consistent e cx0 cx1"
    using rule_digest_value [OF assms Cons.prems(1) ds(2,3)] by blast
  obtain cx2 where "rule_digests e keys cx1 = (Inr ds', cx2)" "consistent e cx0 cx2" using Cons.IH [OF c1(2) ds(4)] by blast
  then show ?case using c1 ds(1) by simp
qed simp

lemma label_rule_range: "graph_ok cx \<Longrightarrow> label_rule cx key = Some n \<Longrightarrow> n < length (cx_nodes cx)"
  by (auto simp: label_rule_def bind_eq_Some_conv slot_ok_def dest: slot_get_ok)

lemma node_deps_range:
  assumes "graph_ok cx" "m \<in> set (node_deps e cx n)"
  shows "m < length (cx_nodes cx)"
proof -
  obtain key nm where "CDep key nm m \<in> set (contributions e cx n)"
    using assms(2) by (auto simp: node_deps_def List.map_filter_def split: contribution.splits)
  then obtain l where "label_rule cx l = Some m"
    by (auto simp: contributions_def input_contribution_def group_contribution_def soft_contribution_def Let_def
        split: option.splits if_splits)
  then show ?thesis by (rule label_rule_range [OF assms(1)])
qed

definition dependency_relation :: "walk_env \<Rightarrow> hash_context \<Rightarrow> (nat \<times> nat) set" where
  "dependency_relation e cx = {(m, n). n < length (cx_nodes cx) \<and> m \<in> set (node_deps e cx n)}"

lemma node_sem_exists:
  assumes "graph_ok cx" "acyclic (dependency_relation e cx)" "n < length (cx_nodes cx)"
  shows "\<exists>d. node_sem e cx n d"
proof -
  have "dependency_relation e cx \<subseteq> {..<length (cx_nodes cx)} \<times> {..<length (cx_nodes cx)}"
    using node_deps_range [OF assms(1)] by (auto simp: dependency_relation_def)
  then have "finite (dependency_relation e cx)" by (rule finite_subset) simp
  then have "wf (dependency_relation e cx)" using assms(2) by (rule finite_acyclic_wf)
  then show ?thesis using assms(3)
  proof (induction n rule: wf_induct_rule)
    case (less n)
    then have "\<forall>m \<in> set (node_deps e cx n). \<exists>d. node_sem e cx m d"
      using node_deps_range [OF assms(1)] by (auto simp: dependency_relation_def)
    then obtain v where "\<forall>m \<in> set (node_deps e cx n). node_sem e cx m (v m)" by metis
    then show ?case using less.prems node_sem.intros by blast
  qed
qed

text \<open>
  C2: on a plain graph without cycles every rule gets its reference digest, whatever was hashed before it: for
  any list of rules, in any order and with repetitions, the walk succeeds, and the digest of each rule
  is the one its own contributions and the reference digests of its dependencies determine. The memo
  cells, the shared repository inputs, the prepared positions and the promoted sources never show.
\<close>

theorem rule_digests_reference:
  assumes "plain_graph e cx" "acyclic (dependency_relation e cx)" "\<And>key. key \<in> set keys \<Longrightarrow> label_rule cx key \<noteq> None"
  shows "\<exists>ds cx'. rule_digests e keys cx = (Inr ds, cx') \<and>
    list_all2 (\<lambda>key d. \<exists>n. label_rule cx key = Some n \<and> node_sem e cx n d) keys ds"
proof -
  have ok: "graph_ok cx" using assms(1) by (simp add: plain_graph_def)
  have "\<exists>d. \<exists>n. label_rule cx key = Some n \<and> node_sem e cx n d" if "key \<in> set keys" for key
    using assms(3) [OF that] node_sem_exists [OF ok assms(2)] label_rule_range [OF ok, of key] by auto
  then obtain f where "\<And>key. key \<in> set keys \<Longrightarrow> \<exists>n. label_rule cx key = Some n \<and> node_sem e cx n (f key)" by metis
  then have "list_all2 (\<lambda>key d. \<exists>n. label_rule cx key = Some n \<and> node_sem e cx n d) keys (map f keys)"
    by (simp add: list_all2_conv_all_nth)
  then show ?thesis using rule_digests_value [OF assms(1) consistent_start [OF assms(1)]] by blast
qed

subsection \<open>Two rules in a chain\<close>

definition sample_chain :: hash_context where
  "sample_chain = sample_context [sample_node ''//a:x'' [''//a:y''], sample_node ''//a:y'' [''//a:f'']]"

lemma sample_chain_contributions:
  "node_inputs sample_walk_env (cx_nodes sample_chain ! 0) = [''//a:y'']"
  "node_inputs sample_walk_env (cx_nodes sample_chain ! 1) = [''//a:f'']"
  "contributions sample_walk_env sample_chain 0 = [CBytes (as_bytes ''//a:y''), CDep ''//a:y'' ''//a:y'' 1]"
  "contributions sample_walk_env sample_chain 1 = [CBytes (as_bytes ''//a:f''), CSource ''//a:f'' [7]]"
  by code_simp+

lemma sample_chain_deps:
  "node_deps sample_walk_env sample_chain 0 = [1]" "node_deps sample_walk_env sample_chain 1 = []"
  by (simp_all add: node_deps_def sample_chain_contributions map_filter_simps del: One_nat_def)

lemma sample_chain_length [simp]: "length (cx_nodes sample_chain) = 2"
  by (simp add: sample_chain_def sample_context_def)

lemma sample_chain_relation: "dependency_relation sample_walk_env sample_chain = {(1, 0)}"
  using sample_chain_deps by (auto simp: dependency_relation_def less_2_cases_iff)

lemma sample_chain_plain: "plain_graph sample_walk_env sample_chain"
proof -
  have ids: "lb_ids (cx_labels sample_chain) = [(''//a:x'', 0), (''//a:y'', 1)]" by code_simp
  have slots: "slots_apart (cx_labels sample_chain)"
    by (auto simp: slots_apart_def slot_id_def ids split: if_splits)
  have "graph_ok sample_chain"
    by (simp add: sample_chain_def sample_context_def graph_ok_def slot_ok_def slot_default_def positions_ok_def sample_node_def)
  moreover have "bt_inv (lb_ids (cx_labels sample_chain))" unfolding ids by (simp add: bt_inv_def)
  moreover have "list_all (\<lambda>slot. sl_replaced_canonical slot = None) (lb_slots (cx_labels sample_chain))"
    "list_all (\<lambda>key. target_label key = key) (rule_keys (cx_labels sample_chain))"
    "node_digest_of sample_chain 0 = None" "node_digest_of sample_chain 1 = None"
    "soft_value sample_walk_env (node_name sample_chain 0) = None" "soft_value sample_walk_env (node_name sample_chain 1) = None"
    by code_simp+
  moreover have "shared_ok sample_walk_env sample_chain n" "prepared_ok sample_walk_env sample_chain n" if "n < 2" for n
    using that by (auto simp: less_2_cases_iff shared_ok_def prepared_ok_def sample_chain_def sample_context_def sample_node_def input_position_def)
  ultimately show ?thesis using slots
    by (auto simp: plain_graph_def less_2_cases_iff) (simp_all add: sample_chain_def sample_context_def sample_walk_env_def)
qed

theorem rule_digests_reference_witness:
  "\<exists>d d' cx'. rule_digests sample_walk_env [''//a:x'', ''//a:y''] sample_chain = (Inr [d, d'], cx') \<and> node_sem sample_walk_env sample_chain 0 d"
proof -
  have rules: "label_rule sample_chain ''//a:x'' = Some 0" "label_rule sample_chain ''//a:y'' = Some 1" by code_simp+
  have "acyclic (dependency_relation sample_walk_env sample_chain)"
    unfolding sample_chain_relation by (simp add: acyclic_def trancl_insert)
  then show ?thesis
    using rule_digests_reference [OF sample_chain_plain, of "[''//a:x'', ''//a:y'']"] rules
    by (fastforce simp: list_all2_Cons1)
qed

end
