(* ===== verification/Hash_Change.thy ===== *)
theory Hash_Change
  imports Hash_Reference
begin

section \<open>Changes reach dependents\<close>

text \<open>
  What the digests of \<^verbatim>\<open>src/hash.rs\<close> are for: comparing the digest of a rule at two revisions tells whether
  anything it depends on has changed. The reference digest of a rule is the hash of its dependencies'
  overall digests followed by its direct digest, so a change anywhere below moves it, and without a
  change it stays.
\<close>

text \<open>The bytes of a rule's own contributions: its definition, seeds, input names and sources.\<close>

definition direct_bytes :: "walk_env \<Rightarrow> hash_context \<Rightarrow> nat \<Rightarrow> bytes" where
  "direct_bytes e cx n = db_direct (fold (contribute (\<lambda>_. [])) (contributions e cx n) (start_builder e cx n))"

definition overall_bytes :: "walk_env \<Rightarrow> hash_context \<Rightarrow> (nat \<Rightarrow> target_digest) \<Rightarrow> nat \<Rightarrow> bytes" where
  "overall_bytes e cx v n = concat (map (overall_of v) (node_deps e cx n)) @ sha256 (we_crates e) (direct_bytes e cx n)"

lemma contribute_direct: "db_direct (contribute f x b) = db_direct (contribute g x b')" if "db_direct b = db_direct b'"
  using that by (cases x) (simp_all add: add_direct_def add_source_def add_transitive_def)

lemma fold_direct: "db_direct b = db_direct b' \<Longrightarrow> db_direct (fold (contribute f) xs b) = db_direct (fold (contribute g) xs b')"
proof (induction xs arbitrary: b b')
  case (Cons x xs)
  have "db_direct (contribute f x b) = db_direct (contribute g x b')" by (rule contribute_direct [OF Cons.prems])
  then show ?case using Cons.IH by simp
qed simp

lemma fold_overall:
  "db_overall (fold (contribute f) xs b) =
   db_overall b @ concat (map f (List.map_filter (\<lambda>x. case x of CDep _ _ m \<Rightarrow> Some m | _ \<Rightarrow> None) xs))"
proof (induction xs arbitrary: b)
  case (Cons x xs)
  then show ?case by (cases x) (simp_all add: map_filter_simps add_direct_def add_source_def add_transitive_def)
qed (simp add: map_filter_simps)

lemma reference_value_fields:
  "td_direct (reference_value e cx v n) = sha256 (we_crates e) (direct_bytes e cx n)"
  "td_overall (reference_value e cx v n) = sha256 (we_crates e) (overall_bytes e cx v n)"
proof -
  have "db_overall (start_builder e cx n) = []" using pristine_seeded by (simp add: start_builder_def pristine_def)
  moreover have "db_direct (fold (contribute (overall_of v)) (contributions e cx n) (start_builder e cx n)) = direct_bytes e cx n"
    unfolding direct_bytes_def by (rule fold_direct) simp
  ultimately show "td_direct (reference_value e cx v n) = sha256 (we_crates e) (direct_bytes e cx n)"
    "td_overall (reference_value e cx v n) = sha256 (we_crates e) (overall_bytes e cx v n)"
    by (simp_all add: reference_value_def builder_finish_def overall_bytes_def fold_overall node_deps_def Let_def)
qed

lemma node_sem_fields:
  assumes "node_sem e cx n d"
  obtains v where "\<forall>m \<in> set (node_deps e cx n). node_sem e cx m (v m)"
    "td_direct d = sha256 (we_crates e) (direct_bytes e cx n)" "td_overall d = sha256 (we_crates e) (overall_bytes e cx v n)"
  using node_semE [OF assms] reference_value_fields by metis

text \<open>Everything the reference hashes in one graph.\<close>

definition preimages :: "walk_env \<Rightarrow> hash_context \<Rightarrow> bytes set" where
  "preimages e cx =
     {direct_bytes e cx n | n. n < length (cx_nodes cx)} \<union>
     {overall_bytes e cx v n | v n. n < length (cx_nodes cx) \<and> (\<forall>m \<in> set (node_deps e cx n). node_sem e cx m (v m))}"

lemma preimage_direct: "node_sem e cx n d \<Longrightarrow> direct_bytes e cx n \<in> preimages e cx"
  by (auto simp: preimages_def elim: node_semE)

lemma preimage_overall:
  assumes "node_sem e cx n d" "\<forall>m \<in> set (node_deps e cx n). node_sem e cx m (v m)"
  shows "overall_bytes e cx v n \<in> preimages e cx"
proof -
  have "n < length (cx_nodes cx)" using assms(1) by (auto elim: node_semE)
  then show ?thesis using assms(2) unfolding preimages_def by blast
qed

lemma concat_equal_blocks:
  "length xs = length ys \<Longrightarrow> \<forall>x \<in> set xs. length x = k \<Longrightarrow> \<forall>y \<in> set ys. length y = k \<Longrightarrow> concat xs = concat ys \<Longrightarrow> xs = ys"
  by (induction xs ys rule: list_induct2) auto

lemma overall_bytes_differ:
  assumes "crates_ok c" "we_crates e = c" "we_crates e' = c" "node_deps e cx n = node_deps e' cx' n"
    and v: "\<forall>m \<in> set (node_deps e cx n). node_sem e cx m (v m)" and w: "\<forall>m \<in> set (node_deps e cx n). node_sem e' cx' m (w m)"
    and eq: "overall_bytes e cx v n = overall_bytes e' cx' w n"
  shows "sha256 c (direct_bytes e cx n) = sha256 c (direct_bytes e' cx' n)" "m \<in> set (node_deps e cx n) \<Longrightarrow> td_overall (v m) = td_overall (w m)"
proof -
  let ?ds = "node_deps e cx n"
  have len: "length (overall_of u m) = 32" if "node_sem f cy m (u m)" "we_crates f = c" for f cy u m
    using node_sem_fields [OF that(1)] that(2) assms(1) by (metis crates_ok_length overall_of_def)
  have "concat (map (overall_of v) ?ds) @ sha256 c (direct_bytes e cx n) = concat (map (overall_of w) ?ds) @ sha256 c (direct_bytes e' cx' n)"
    using eq assms(2-4) by (simp add: overall_bytes_def)
  then have parts: "concat (map (overall_of v) ?ds) = concat (map (overall_of w) ?ds)"
    "sha256 c (direct_bytes e cx n) = sha256 c (direct_bytes e' cx' n)"
    using assms(1) by auto
  then show "sha256 c (direct_bytes e cx n) = sha256 c (direct_bytes e' cx' n)" by simp
  have "map (overall_of v) ?ds = map (overall_of w) ?ds"
    by (rule concat_equal_blocks [OF _ _ _ parts(1), of 32]) (use v w len assms(2,3) in auto)
  then show "td_overall (v m) = td_overall (w m)" if "m \<in> set ?ds" using that by (simp add: overall_of_def)
qed


text \<open>
  And only a change does. If every rule that a rule depends on, itself included, contributes the same at two
  revisions, the two digests agree in full: overall, direct and the tracked dependencies.
\<close>

theorem unchanged_rules_keep_digest:
  assumes "we_crates e = we_crates e'" "node_sem e cx n d" "node_sem e' cx' n d'"
    and "\<And>k. (k, n) \<in> (dependency_relation e cx)\<^sup>* \<Longrightarrow>
      contributions e cx k = contributions e' cx' k \<and> start_builder e cx k = start_builder e' cx' k"
  shows "d = d'"
  using assms(2-4)
proof (induction arbitrary: d' rule: node_sem.induct)
  case (1 n v d)
  have deps: "node_deps e cx n = node_deps e' cx' n" using "1.prems"(2) [of n] by (simp add: node_deps_def)
  obtain w where w: "\<forall>m \<in> set (node_deps e' cx' n). node_sem e' cx' m (w m)" "d' = reference_value e' cx' w n"
    using node_semE [OF "1.prems"(1)] by metis
  have "v m = w m" if m: "m \<in> set (node_deps e cx n)" for m
  proof -
    have "(m, n) \<in> dependency_relation e cx" using m "1.hyps" by (simp add: dependency_relation_def)
    then have below: "contributions e cx k = contributions e' cx' k \<and> start_builder e cx k = start_builder e' cx' k"
      if "(k, m) \<in> (dependency_relation e cx)\<^sup>*" for k
      using "1.prems"(2) that by (meson rtrancl.rtrancl_into_rtrancl)
    have "node_sem e' cx' m (w m)" using w(1) m deps by simp
    then show ?thesis using "1.IH" m below by metis
  qed
  then have "reference_value e cx v n = reference_value e cx w n" by (rule reference_value_cong)
  also have "\<dots> = reference_value e' cx' w n" using "1.prems"(2) [of n] assms(1) by (simp add: reference_value_def)
  finally show ?case using w(2) "1.hyps" by simp
qed

subsection \<open>An edited file\<close>

definition edited_walk_env :: walk_env where
  "edited_walk_env = sample_walk_env\<lparr>we_soft_digest := (\<lambda>lbl. Inr (if lbl = ''//a:f'' then Some [8] else None))\<rparr>"

lemma edited_contributions:
  "contributions edited_walk_env sample_chain 0 = [CBytes (as_bytes ''//a:y''), CDep ''//a:y'' ''//a:y'' 1]"
  "contributions edited_walk_env sample_chain 1 = [CBytes (as_bytes ''//a:f''), CSource ''//a:f'' [8]]"
  by code_simp+

definition chain_y :: "walk_env \<Rightarrow> target_digest" where
  "chain_y e = reference_value e sample_chain (\<lambda>_. undefined) 1"

definition chain_x :: "walk_env \<Rightarrow> target_digest" where
  "chain_x e = reference_value e sample_chain (\<lambda>_. chain_y e) 0"

lemma edited_deps: "node_deps edited_walk_env sample_chain 0 = [1]" "node_deps edited_walk_env sample_chain 1 = []"
  by (simp_all add: node_deps_def edited_contributions map_filter_simps del: One_nat_def)

lemma chain_y_sem:
  assumes "node_deps e sample_chain 1 = []"
  shows "node_sem e sample_chain 1 d \<longleftrightarrow> d = chain_y e"
proof
  assume "node_sem e sample_chain 1 d"
  then obtain v where "d = reference_value e sample_chain v 1" by (rule node_semE)
  then show "d = chain_y e" using reference_value_cong [of e sample_chain 1 v "\<lambda>_. undefined"] assms by (simp add: chain_y_def)
next
  assume "d = chain_y e"
  then show "node_sem e sample_chain 1 d" using assms by (intro node_sem.intros [where v = "\<lambda>_. undefined"]) (simp_all add: chain_y_def)
qed

lemma chain_x_sem:
  assumes "node_deps e sample_chain 0 = [1]" "node_deps e sample_chain 1 = []"
  shows "node_sem e sample_chain 0 (chain_x e)"
  by (rule node_sem.intros [where v = "\<lambda>_. chain_y e"]) (use assms chain_y_sem in \<open>auto simp: chain_x_def\<close>)

definition chain_preimages :: "walk_env \<Rightarrow> bytes list" where
  "chain_preimages e = [direct_bytes e sample_chain 1, overall_bytes e sample_chain (\<lambda>_. chain_y e) 0, overall_bytes e sample_chain (\<lambda>_. undefined) 1]"

lemma chain_preimages_all:
  assumes "node_deps e sample_chain 0 = [1]" "node_deps e sample_chain 1 = []"
  shows "preimages e sample_chain \<subseteq> insert (direct_bytes e sample_chain 0) (set (chain_preimages e))"
proof -
  have "overall_bytes e sample_chain v 0 = overall_bytes e sample_chain (\<lambda>_. chain_y e) 0" if "node_sem e sample_chain 1 (v 1)" for v
    using that chain_y_sem [OF assms(2)] assms(1) by (simp add: overall_bytes_def overall_of_def)
  moreover have "overall_bytes e sample_chain v 1 = overall_bytes e sample_chain (\<lambda>_. undefined) 1" for v
    using assms(2) by (simp add: overall_bytes_def)
  ultimately show ?thesis
    using assms by (auto simp: preimages_def chain_preimages_def less_2_cases_iff)
qed

lemma chain_values:
  "distinct (map sha256_ref (direct_bytes sample_walk_env sample_chain 0 # chain_preimages sample_walk_env @ chain_preimages edited_walk_env))"
  "direct_bytes sample_walk_env sample_chain 0 = direct_bytes edited_walk_env sample_chain 0"
  "direct_bytes sample_walk_env sample_chain 1 \<noteq> direct_bytes edited_walk_env sample_chain 1"
  by code_simp+


text \<open>Another file that no rule reads.\<close>

definition other_walk_env :: walk_env where
  "other_walk_env = sample_walk_env\<lparr>we_soft_digest :=
     (\<lambda>lbl. Inr (if lbl = ''//a:f'' then Some [7] else if lbl = ''//a:g'' then Some [9] else None))\<rparr>"

theorem unchanged_rules_keep_digest_witness: "chain_x sample_walk_env = chain_x other_walk_env"
proof -
  have contr: "contributions other_walk_env sample_chain 0 = [CBytes (as_bytes ''//a:y''), CDep ''//a:y'' ''//a:y'' 1]"
    "contributions other_walk_env sample_chain 1 = [CBytes (as_bytes ''//a:f''), CSource ''//a:f'' [7]]"
    by code_simp+
  then have deps: "node_deps other_walk_env sample_chain 0 = [1]" "node_deps other_walk_env sample_chain 1 = []"
    by (simp_all add: node_deps_def map_filter_simps del: One_nat_def)
  have start: "start_builder sample_walk_env sample_chain 0 = start_builder other_walk_env sample_chain 0"
    "start_builder sample_walk_env sample_chain 1 = start_builder other_walk_env sample_chain 1"
    by code_simp+
  have small: "k = 0 \<or> k = 1" if "(k, 0) \<in> (dependency_relation sample_walk_env sample_chain)\<^sup>*" for k
    using that unfolding sample_chain_relation by (induction rule: converse_rtrancl_induct) auto
  have "contributions sample_walk_env sample_chain k = contributions other_walk_env sample_chain k \<and>
      start_builder sample_walk_env sample_chain k = start_builder other_walk_env sample_chain k"
    if "(k, 0) \<in> (dependency_relation sample_walk_env sample_chain)\<^sup>*" for k
    using small [OF that] contr start sample_chain_contributions by (elim disjE) simp_all
  then show ?thesis
    by (intro unchanged_rules_keep_digest [OF _ chain_x_sem [OF sample_chain_deps] chain_x_sem [OF deps]]) (simp_all add: other_walk_env_def)
qed

end
