(* ===== verification/Aggregate.thy ===== *)
theory Aggregate
  imports Hash_Walk Target_Hash
begin

section \<open>Folding keys into labels (hash.rs)\<close>

text \<open>
  \<^verbatim>\<open>aggregate_by_label\<close> of \<^verbatim>\<open>src/hash.rs\<close> turns the digests of all keys, which under cquery carry a
  configuration, into one hash per label. It has a fast path for the usual case of one instance per
  label in label order, and a sort with grouping for the rest; both give the same hashes.
\<close>

type_synonym instance_digest = "string \<times> string \<times> target_digest"

definition instance_label :: "instance_digest \<Rightarrow> label" where
  "instance_label i = target_label (fst i)"

text \<open>\<^verbatim>\<open>retain(|dependency| seen.insert(..))\<close> keeps the first of equal elements.\<close>

fun retain_new :: "'a list \<Rightarrow> 'a list \<Rightarrow> 'a list" where
  "retain_new seen [] = []"
| "retain_new seen (x # xs) = (if x \<in> set seen then retain_new seen xs else x # retain_new (x # seen) xs)"

definition instance_hashes :: "crates \<Rightarrow> instance_digest list \<Rightarrow> bytes \<times> bytes" where
  "instance_hashes c instances =
     (case instances of
        [(_, _, d)] \<Rightarrow> (td_overall d, td_direct d)
      | _ \<Rightarrow> (sha256 c (concat (map (\<lambda>(_, _, d). td_overall d) instances)),
              sha256 c (concat (map (\<lambda>(_, _, d). td_direct d) instances))))"

definition instance_deps :: "instance_digest list \<Rightarrow> string list" where
  "instance_deps instances =
     (let deps = map target_label (concat (map (\<lambda>(_, _, d). case td_deps d of None \<Rightarrow> [] | Some ds \<Rightarrow> ds) instances))
      in if sorted_wrt (<) deps then deps else retain_new [] deps)"

definition label_hash :: "crates \<Rightarrow> instance_digest list \<Rightarrow> label \<times> target_hash \<times> string list" where
  "label_hash c instances =
     (let (overall, direct) = instance_hashes c instances
      in (instance_label (hd instances),
          \<lparr>kind = fst (snd (hd instances)), hash = Sha256 overall, direct_hash = Sha256 direct\<rparr>,
          instance_deps instances))"

type_synonym label_maps = "(label, target_hash) btree \<times> (label, string list) btree"

definition insert_label :: "crates \<Rightarrow> bool \<Rightarrow> instance_digest list \<Rightarrow> label_maps \<Rightarrow> label_maps" where
  "insert_label c track instances m =
     (case label_hash c instances of
        (lbl, h, deps) \<Rightarrow> (bt_insert lbl h (fst m), if track then bt_insert lbl deps (snd m) else snd m))"

fun group_loop :: "crates \<Rightarrow> bool \<Rightarrow> instance_digest list \<Rightarrow> instance_digest list \<Rightarrow> label_maps \<Rightarrow> label_maps" where
  "group_loop c track instances [] m = (if instances = [] then m else insert_label c track instances m)"
| "group_loop c track instances (d # ds) m =
     (if instances \<noteq> [] \<and> instance_label (last instances) \<noteq> instance_label d
      then group_loop c track [d] ds (insert_label c track instances m)
      else group_loop c track (instances @ [d]) ds m)"

definition aggregate_sorted :: "crates \<Rightarrow> bool \<Rightarrow> instance_digest list \<Rightarrow> label_maps" where
  "aggregate_sorted c track digests =
     (let one = map (\<lambda>i. label_hash c [i]) digests
      in (bt_of_list (map (\<lambda>(lbl, h, _). (lbl, h)) one),
          bt_of_list (if track then map (\<lambda>(lbl, _, deps). (lbl, deps)) one else [])))"

definition aggregate_by_label :: "crates \<Rightarrow> bool \<Rightarrow> instance_digest list \<Rightarrow> label_maps" where
  "aggregate_by_label c track digests =
     (if sorted_wrt (<) (map instance_label digests) then aggregate_sorted c track digests
      else group_loop c track [] (sort_key (\<lambda>i. (instance_label i, fst i)) digests) ([], []))"

subsection \<open>The reference\<close>

text \<open>One entry per label, in label order, hashed from its instances in key order.\<close>

definition label_instances_of :: "instance_digest list \<Rightarrow> label \<Rightarrow> instance_digest list" where
  "label_instances_of digests lbl = sort_key fst (filter (\<lambda>i. instance_label i = lbl) digests)"

definition aggregate_reference :: "crates \<Rightarrow> bool \<Rightarrow> instance_digest list \<Rightarrow> label_maps" where
  "aggregate_reference c track digests =
     (let lbls = sort_dedup (map instance_label digests);
          entry = (\<lambda>lbl. snd (label_hash c (label_instances_of digests lbl)))
      in (map (\<lambda>lbl. (lbl, fst (entry lbl))) lbls, if track then map (\<lambda>lbl. (lbl, snd (entry lbl))) lbls else []))"

definition groups_of :: "instance_digest list \<Rightarrow> instance_digest list list" where
  "groups_of ds = map (\<lambda>lbl. filter (\<lambda>i. instance_label i = lbl) ds) (remdups_adj (map instance_label ds))"

lemma groups_of_Cons:
  assumes "sorted (map instance_label (xs @ d # ds))" "\<forall>x \<in> set xs. instance_label x = l" "xs \<noteq> []" "instance_label d \<noteq> l"
  shows "groups_of (xs @ d # ds) = xs # groups_of (d # ds)"
proof -
  have later: "instance_label y \<noteq> l" if "y \<in> set (d # ds)" for y
  proof -
    obtain x where "x \<in> set xs" using assms(3) by (cases xs) auto
    moreover have "\<forall>x \<in> set xs. instance_label x \<le> instance_label d" "\<forall>y \<in> set ds. instance_label d \<le> instance_label y"
      using assms(1) by (simp_all add: sorted_append)
    ultimately have "l \<le> instance_label d" "instance_label d \<le> instance_label y" using assms(2) that by (metis, auto)
    then show ?thesis using assms(4) by auto
  qed
  have adj: "remdups_adj (map instance_label (xs @ d # ds)) = l # remdups_adj (map instance_label (d # ds))"
    using assms(2-4)
  proof (induction xs)
    case (Cons x xs)
    then show ?case by (cases xs) auto
  qed simp
  have "filter (\<lambda>i. instance_label i = l) (xs @ d # ds) = xs"
    using assms(2) later by (auto simp: filter_empty_conv filter_id_conv)
  moreover have "filter (\<lambda>i. instance_label i = k) (xs @ d # ds) = filter (\<lambda>i. instance_label i = k) (d # ds)"
    if "k \<in> set (map instance_label (d # ds))" for k
  proof -
    from that have "k \<in> instance_label ` set (d # ds)" by simp
    then obtain y where "y \<in> set (d # ds)" "k = instance_label y" by (rule imageE)
    then have "k \<noteq> l" using later by blast
    then show ?thesis using assms(2) by (simp add: filter_empty_conv)
  qed
  ultimately show ?thesis unfolding groups_of_def adj by (simp del: filter.simps remdups_adj.simps)
qed

lemma groups_of_one: "xs \<noteq> [] \<Longrightarrow> \<forall>x \<in> set xs. instance_label x = l \<Longrightarrow> groups_of xs = [xs]"
proof -
  assume xs: "xs \<noteq> []" "\<forall>x \<in> set xs. instance_label x = l"
  then have "remdups_adj (map instance_label xs) = [l]"
  proof (induction xs)
    case (Cons x xs)
    then show ?case by (cases xs) auto
  qed simp
  then show ?thesis using xs by (simp add: groups_of_def filter_id_conv)
qed

lemma group_loop_groups:
  "sorted (map instance_label (instances @ ds)) \<Longrightarrow> \<forall>x \<in> set instances. instance_label x = l \<Longrightarrow>
   group_loop c track instances ds m = fold (insert_label c track) (groups_of (instances @ ds)) m"
proof (induction ds arbitrary: instances m l)
  case Nil
  then show ?case using groups_of_one [of instances l] by (auto simp: groups_of_def)
next
  case (Cons d ds)
  show ?case
  proof (cases "instances \<noteq> [] \<and> instance_label (last instances) \<noteq> instance_label d")
    case True
    then have "instance_label d \<noteq> l" using Cons.prems(2) by force
    then have "groups_of (instances @ d # ds) = instances # groups_of (d # ds)"
      using groups_of_Cons Cons.prems True by blast
    moreover have "group_loop c track [d] ds (insert_label c track instances m) =
        fold (insert_label c track) (groups_of ([d] @ ds)) (insert_label c track instances m)"
      using Cons.prems(1) by (intro Cons.IH [where l = "instance_label d"]) (auto simp: sorted_append)
    ultimately show ?thesis using True by simp
  next
    case False
    have "\<forall>x \<in> set (instances @ [d]). instance_label x = instance_label d"
      using False Cons.prems(2) by (metis Un_iff empty_iff insert_iff last_in_set list.set(1,2) set_append)
    then have "group_loop c track (instances @ [d]) ds m = fold (insert_label c track) (groups_of ((instances @ [d]) @ ds)) m"
      using Cons.prems(1) by (intro Cons.IH) auto
    then show ?thesis using False by auto
  qed
qed

subsection \<open>Both paths give the reference\<close>

lemma remdups_adj_sorted_dedup: "sorted xs \<Longrightarrow> remdups_adj xs = sort_dedup xs"
  by (simp add: sort_dedup_def sorted_sort_id)

lemma insort_key_order: "(\<And>y. y \<in> set ys \<Longrightarrow> f x \<le> f y \<longleftrightarrow> g x \<le> g y) \<Longrightarrow> insort_key f x ys = insort_key g x ys"
  by (induction ys) auto

lemma sort_key_order: "(\<And>x y. x \<in> set xs \<Longrightarrow> y \<in> set xs \<Longrightarrow> f x \<le> f y \<longleftrightarrow> g x \<le> g y) \<Longrightarrow> sort_key f xs = sort_key g xs"
proof (induction xs)
  case (Cons x xs)
  then have "sort_key f xs = sort_key g xs" by simp
  moreover have "insort_key f x (sort_key g xs) = insort_key g x (sort_key g xs)" using Cons.prems by (intro insort_key_order) simp
  ultimately show ?case by simp
qed simp

lemma filter_label_sort:
  "filter (\<lambda>i. instance_label i = lbl) (sort_key (\<lambda>i. (instance_label i, fst i)) digests) = label_instances_of digests lbl"
proof -
  have "filter (\<lambda>i. instance_label i = lbl) (sort_key (\<lambda>i. (instance_label i, fst i)) digests) =
      sort_key (\<lambda>i. (instance_label i, fst i)) (filter (\<lambda>i. instance_label i = lbl) digests)"
    by (simp add: filter_sort)
  also have "\<dots> = sort_key fst (filter (\<lambda>i. instance_label i = lbl) digests)"
    by (rule sort_key_order) auto
  finally show ?thesis by (simp add: label_instances_of_def)
qed

lemma sorted_label_sort: "sorted (map instance_label (sort_key (\<lambda>i. (instance_label i, fst i)) digests))"
proof -
  have "sorted (map (\<lambda>i. (instance_label i, fst i)) (sort_key (\<lambda>i. (instance_label i, fst i)) digests))" by (rule sorted_sort_key)
  then show ?thesis unfolding sorted_map by (rule sorted_wrt_mono_rel [rotated]) auto
qed

lemma groups_of_sort:
  "groups_of (sort_key (\<lambda>i. (instance_label i, fst i)) digests) = map (label_instances_of digests) (sort_dedup (map instance_label digests))"
proof -
  let ?ds = "sort_key (\<lambda>i. (instance_label i, fst i)) digests"
  have "remdups_adj (map instance_label ?ds) = sort_dedup (map instance_label digests)"
    unfolding remdups_adj_sorted_dedup [OF sorted_label_sort] by (rule sort_dedup_cong) simp
  then show ?thesis by (simp add: groups_of_def filter_label_sort)
qed

lemma label_instances_label: "lbl \<in> set (map instance_label digests) \<Longrightarrow> fst (label_hash c (label_instances_of digests lbl)) = lbl"
proof -
  assume "lbl \<in> set (map instance_label digests)"
  then obtain i where "i \<in> set digests" "instance_label i = lbl" by (metis imageE list.set_map)
  then have "i \<in> set (label_instances_of digests lbl)" by (simp add: label_instances_of_def)
  then have "label_instances_of digests lbl \<noteq> []" by (cases "label_instances_of digests lbl") auto
  then have "hd (label_instances_of digests lbl) \<in> set (label_instances_of digests lbl)" by (rule hd_in_set)
  then show ?thesis by (auto simp: label_hash_def label_instances_of_def split: prod.splits)
qed

lemma fold_insert_label_groups:
  "fold (insert_label c track) gs m =
   (bt_extend (map (\<lambda>g. (fst (label_hash c g), fst (snd (label_hash c g)))) gs) (fst m),
    if track then bt_extend (map (\<lambda>g. (fst (label_hash c g), snd (snd (label_hash c g)))) gs) (snd m) else snd m)"
  by (induction gs arbitrary: m) (auto simp: insert_label_def bt_extend_def split: prod.splits)

lemma bt_of_labels: "sorted_wrt (<) lbls \<Longrightarrow> bt_of_list (map (\<lambda>l. (l, f l)) lbls) = map (\<lambda>l. (l, f l)) lbls"
  by (rule bt_of_list_sorted) (simp add: bt_inv_def comp_def)

lemma grouped_reference:
  "group_loop c track [] (sort_key (\<lambda>i. (instance_label i, fst i)) digests) ([], []) = aggregate_reference c track digests"
proof -
  let ?L = "sort_dedup (map instance_label digests)"
  have entry: "map (\<lambda>g. (fst (label_hash c g), f (label_hash c g))) (map (label_instances_of digests) ?L) =
      map (\<lambda>l. (l, f (label_hash c (label_instances_of digests l)))) ?L" for f :: "label \<times> target_hash \<times> string list \<Rightarrow> 'b"
    using label_instances_label [of _ digests c] by (simp add: comp_def)
  have "group_loop c track [] (sort_key (\<lambda>i. (instance_label i, fst i)) digests) ([], []) =
      fold (insert_label c track) (map (label_instances_of digests) ?L) ([], [])"
    using group_loop_groups [of "[]" "sort_key (\<lambda>i. (instance_label i, fst i)) digests" undefined] sorted_label_sort
    by (simp add: groups_of_sort)
  also have "\<dots> = aggregate_reference c track digests"
    unfolding fold_insert_label_groups fst_conv snd_conv entry [of "\<lambda>x. fst (snd x)"] entry [of "\<lambda>x. snd (snd x)"]
      aggregate_reference_def Let_def bt_of_list_def [symmetric]
    by (simp add: bt_of_labels sorted_sort_dedup)
  finally show ?thesis .
qed

lemma label_instances_one:
  assumes "sorted_wrt (<) (map instance_label digests)" "i \<in> set digests"
  shows "label_instances_of digests (instance_label i) = [i]"
proof -
  have "filter (\<lambda>j. instance_label j = instance_label i) digests = [i]"
    using assms by (induction digests) (auto simp: filter_empty_conv simp del: split_paired_All)
  then show ?thesis by (simp add: label_instances_of_def)
qed

lemma sorted_reference:
  assumes "sorted_wrt (<) (map instance_label digests)"
  shows "aggregate_sorted c track digests = aggregate_reference c track digests"
proof -
  have lbls: "sort_dedup (map instance_label digests) = map instance_label digests"
    using assms by (metis set_sort_dedup sorted_sort_dedup strict_sorted_equal)
  have "map (\<lambda>l. (l, f (snd (label_hash c (label_instances_of digests l))))) (map instance_label digests) =
      map (\<lambda>i. (fst (label_hash c [i]), f (snd (label_hash c [i])))) digests" for f :: "target_hash \<times> string list \<Rightarrow> 'b"
    using label_instances_one [OF assms] by (auto simp: label_hash_def comp_def split: prod.splits)
  note entry = this [symmetric]
  have one: "map (\<lambda>(lbl, h, _). (lbl, h)) (map (\<lambda>i. label_hash c [i]) digests) = map (\<lambda>i. (fst (label_hash c [i]), fst (snd (label_hash c [i])))) digests"
    "map (\<lambda>(lbl, _, deps). (lbl, deps)) (map (\<lambda>i. label_hash c [i]) digests) = map (\<lambda>i. (fst (label_hash c [i]), snd (snd (label_hash c [i])))) digests"
    by (simp_all add: case_prod_beta comp_def)
  show ?thesis unfolding aggregate_sorted_def aggregate_reference_def Let_def lbls one entry
    using bt_of_labels [OF assms, of "\<lambda>l. fst (snd (label_hash c (label_instances_of digests l)))"]
      bt_of_labels [OF assms, of "\<lambda>l. snd (snd (label_hash c (label_instances_of digests l)))"]
    by (simp add: bt_of_list_sorted)
qed

text \<open>
  The hashes per label are the same on both paths: one entry per label, in label order, hashed from the
  label's instances in key order (a single instance keeps its digests), with the dependencies of all
  its instances; edges are recorded exactly when they are tracked.
\<close>

theorem aggregate_by_label_reference: "aggregate_by_label c track digests = aggregate_reference c track digests"
  by (simp add: aggregate_by_label_def sorted_reference grouped_reference)

text \<open>The order in which the keys were hashed does not show.\<close>

lemma aggregate_order_irrelevant:
  assumes "mset digests = mset digests'" "distinct (map fst digests)"
  shows "aggregate_by_label c track digests = aggregate_by_label c track digests'"
proof -
  have "set (map instance_label digests) = set (map instance_label digests')" using assms(1) by (metis mset_eq_setD mset_map)
  then have lbls: "sort_dedup (map instance_label digests) = sort_dedup (map instance_label digests')" by (rule sort_dedup_cong)
  have "label_instances_of digests l = label_instances_of digests' l" for l
    unfolding label_instances_of_def
    by (rule sort_key_mset) (use assms in \<open>simp_all add: distinct_map_filter mset_filter\<close>)
  then show ?thesis unfolding aggregate_by_label_def
    by (simp add: sorted_reference grouped_reference aggregate_reference_def lbls)
qed

end
