(* ===== verification/Hash_Targets.thy ===== *)
theory Hash_Targets
  imports Hash_Total Derive Aggregate
begin

section \<open>Hashing the targets of a query (hash.rs)\<close>

text \<open>
  \<^verbatim>\<open>hash_targets_with_environment\<close> of \<^verbatim>\<open>src/hash.rs\<close>: the targets of a query become slots and rule nodes,
  sources are digested, generated files are linked to their rules, the walk digests every target in
  label order, and the digests become the entries of a hash file. What the file system and Bazel
  provide are fields of \<open>hash_inputs\<close>. Sources are digested in parallel; of several that fail, the
  first is reported here. The error of the walk and its callers is one type.
\<close>

record hash_inputs =
  hi_crates :: crates
  hi_options :: hash_options
  hi_encode :: "attribute \<Rightarrow> bytes"
  hi_seed_files :: "string + bytes"
  hi_digest_source :: "label \<Rightarrow> bytes \<Rightarrow> string + bytes"
  hi_soft_digest :: "label \<Rightarrow> string + bytes option"
  hi_canonicalize :: "string \<Rightarrow> string option"
  hi_marker_inputs :: "string list"
  hi_repo_mapping_known :: bool
  hi_repo_mapping :: "(string, string) btree"
  hi_repo_nodes :: "(string, string) btree"
  hi_scoped_repositories :: "string list"
  hi_scoped_inputs :: "string list"
  hi_repository_input_digest :: "string \<Rightarrow> string + bytes"
  hi_invocation_seed :: bytes
  hi_module_graph_json :: "string option"

datatype hash_target = HRule string | HGenerated string string | HSource label

fun hash_target_label :: "hash_target \<Rightarrow> string" where
  "hash_target_label (HRule lbl) = lbl"
| "hash_target_label (HGenerated name _) = name"
| "hash_target_label (HSource lbl) = lbl"

subsection \<open>Definitions prepared while the query is read\<close>

record prepared_rules =
  ps_ids :: "(string, nat) btree"
  ps_prepared :: "prepared_rule option list"

definition prepared_extend :: "(string \<times> prepared_rule) list \<Rightarrow> prepared_rules \<Rightarrow> prepared_rules" where
  "prepared_extend =
     fold (\<lambda>(name, p) ps.
       (case bt_get (ps_ids ps) name of
          Some i \<Rightarrow> ps\<lparr>ps_prepared := (ps_prepared ps)[i := Some p]\<rparr>
        | None \<Rightarrow> ps\<lparr>ps_ids := bt_insert name (length (ps_prepared ps)) (ps_ids ps), ps_prepared := ps_prepared ps @ [Some p]\<rparr>))"

definition attribute_label_values :: "attribute \<Rightarrow> string list" where
  "attribute_label_values a =
     (case at_string_value a of None \<Rightarrow> [] | Some v \<Rightarrow> [v]) @ at_string_list_value a @
     map snd (at_label_dict_unary_value a) @ map fst (at_label_keyed_string_dict_value a) @
     concat (map snd (at_label_list_dict_value a)) @ concat (map snd (at_string_list_dict_value a))"

definition attribute_main_repo_labels :: "attribute list \<Rightarrow> string list" where
  "attribute_main_repo_labels attrs =
     concat (map (\<lambda>a. filter (\<lambda>v. main_repo_path v \<noteq> None)
       (attribute_label_values a @ map snd (at_string_dict_value a) @ map fst (at_label_dict_unary_value a))) attrs)"

definition rule_loading_inputs :: "(string \<Rightarrow> string option) \<Rightarrow> rule \<Rightarrow> string \<Rightarrow> string list" where
  "rule_loading_inputs canonicalize r ws =
     (if \<not> starts_with EXTERNAL (rule_name r) then []
      else (if rule_class r = ''local_repository''
            then (case Option.bind (find_attribute ''path'' r) at_string_value of
                    None \<Rightarrow> []
                  | Some path \<Rightarrow> (case normalize_workspace_path canonicalize ws path of None \<Rightarrow> [] | Some p \<Rightarrow> [p]))
            else []) @
           filter (\<lambda>p. p \<noteq> []) (List.map_filter label_path (attribute_main_repo_labels (rule_attribute r))))"

definition partial_loading_inputs :: "hash_inputs \<Rightarrow> rule \<Rightarrow> string list" where
  "partial_loading_inputs hi r =
     (if partial_tree (hi_options hi) = None then []
      else rule_loading_inputs (hi_canonicalize hi) r (workspace (bazel_opts (hi_options hi))))"

subsection \<open>Slots and nodes\<close>

definition source_seed :: "crates \<Rightarrow> label \<Rightarrow> label list \<Rightarrow> bytes" where
  "source_seed c name subs = sha256 c (as_bytes name @ concat (map as_bytes subs))"

definition rule_node_new :: "rule \<Rightarrow> prepared_rule \<Rightarrow> rule_node" where
  "rule_node_new r p = \<lparr>rn_rule = r, rn_prepared = p, rn_digest = None, rn_input_positions = None\<rparr>"

record build =
  bd_labels :: labels
  bd_prepared :: "prepared_rule option list"
  bd_nodes :: "rule_node list"
  bd_decoded :: "rule list"
  bd_sources :: "(label \<times> label list) list"
  bd_targets :: "hash_target list"
  bd_recorder :: "recipe_recorder option"

definition set_rule :: "nat \<Rightarrow> nat \<Rightarrow> labels \<Rightarrow> labels" where
  "set_rule i n ls = ls\<lparr>lb_slots := (lb_slots ls)[i := (lb_slots ls ! i)\<lparr>sl_rule := Some n\<rparr>]\<rparr>"

text \<open>\<^verbatim>\<open>prepared.get_mut(id)?.take()\<close>.\<close>

definition take_prepared :: "string \<Rightarrow> build \<Rightarrow> (nat \<times> prepared_rule) option" where
  "take_prepared name bd =
     (case slot_id (bd_labels bd) name of
        None \<Rightarrow> None
      | Some i \<Rightarrow> if i < length (bd_prepared bd) then map_option (Pair i) (bd_prepared bd ! i) else None)"

definition add_rule :: "rule \<Rightarrow> build \<Rightarrow> build" where
  "add_rule r bd0 =
     (let bd = bd0\<lparr>bd_targets := bd_targets bd0 @ [HRule (rule_name r)]\<rparr>
      in case take_prepared (rule_name r) bd of
           Some (i, p) \<Rightarrow> bd\<lparr>bd_prepared := (bd_prepared bd)[i := None], bd_nodes := bd_nodes bd @ [rule_node_new r p],
                              bd_labels := set_rule i (length (bd_nodes bd)) (bd_labels bd)\<rparr>
         | None \<Rightarrow> bd\<lparr>bd_decoded := bd_decoded bd @ [r]\<rparr>)"

definition add_target :: "qtarget \<Rightarrow> build \<Rightarrow> build" where
  "add_target t bd =
     (case qt_type t of
        Rule \<Rightarrow> (case qt_rule t of None \<Rightarrow> bd | Some r \<Rightarrow> add_rule r bd)
      | GeneratedFile \<Rightarrow>
          (case qt_generated_file t of
             None \<Rightarrow> bd
           | Some f \<Rightarrow> bd\<lparr>bd_targets := bd_targets bd @ [HGenerated (gf_name f) (gf_generating_rule f)]\<rparr>)
      | SourceFile \<Rightarrow>
          (case qt_source_file t of
             None \<Rightarrow> bd
           | Some s \<Rightarrow> bd\<lparr>bd_recorder := map_option (record_source (sf_name s) (sf_subinclude s)) (bd_recorder bd),
                            bd_targets := bd_targets bd @ [HSource (sf_name s)],
                            bd_sources := bd_sources bd @ [(sf_name s, sf_subinclude s)]\<rparr>)
      | _ \<Rightarrow> bd)"

definition build_start :: "prepared_rules \<Rightarrow> recipe_recorder option \<Rightarrow> build" where
  "build_start ps recorder =
     \<lparr>bd_labels = \<lparr>lb_ids = ps_ids ps, lb_slots = replicate (length (ps_ids ps)) slot_default\<rparr>, bd_prepared = ps_prepared ps,
      bd_nodes = [], bd_decoded = [], bd_sources = [], bd_targets = [], bd_recorder = recorder\<rparr>"

definition context_of :: "build \<Rightarrow> hash_context" where
  "context_of bd =
     \<lparr>cx_nodes = bd_nodes bd, cx_labels = bd_labels bd, cx_source_digests = [], cx_instances = None, cx_group_digests = [],
      cx_bzl_digests = [], cx_cycle_warnings = [], cx_recorder = bd_recorder bd\<rparr>"

definition digest_sources :: "hash_inputs \<Rightarrow> (label \<times> label list) list \<Rightarrow> hash_error + (label \<times> bytes) list" where
  "digest_sources hi sources =
     collect_results (map (\<lambda>(name, subs).
       case hi_digest_source hi name (source_seed (hi_crates hi) name subs) of
         Inl msg \<Rightarrow> Inl (SourceError msg)
       | Inr d \<Rightarrow> Inr (name, d)) sources)"

definition add_decoded :: "hash_inputs \<Rightarrow> rule \<Rightarrow> hash_context \<Rightarrow> hash_context" where
  "add_decoded hi r cx =
     (let p = \<lparr>pr_definition_digest = rule_definition_digest (hi_crates hi) (hi_encode hi) r (ignored_attributes (hi_options hi)),
               pr_shared_inputs = None, pr_loading_inputs = partial_loading_inputs hi r\<rparr>
      in case slot_entry (cx_labels cx) (rule_name r) of
           (i, ls) \<Rightarrow> cx\<lparr>cx_labels := set_rule i (length (cx_nodes cx)) ls, cx_nodes := cx_nodes cx @ [rule_node_new r p]\<rparr>)"

subsection \<open>The hub of an isolated dependency root\<close>

definition le_bytes64 :: "nat \<Rightarrow> bytes" where
  "le_bytes64 n = map (\<lambda>i. of_nat (n div 256 ^ i)) [0..<8]"

definition sized_label :: "string \<Rightarrow> bytes" where
  "sized_label lbl = le_bytes64 (length lbl) @ as_bytes lbl"

definition in_scope :: "hash_inputs \<Rightarrow> string \<Rightarrow> bool" where
  "in_scope hi lbl \<longleftrightarrow>
     (case split_once_str ''//'' (trim_start_matches (CHR ''@'') lbl) of
        None \<Rightarrow> False
      | Some (repo, _) \<Rightarrow> repo \<noteq> [] \<and> repo \<in> set (hi_scoped_repositories hi))"

definition scoped_files :: "hash_inputs \<Rightarrow> hash_context \<Rightarrow> (string \<times> bytes) list" where
  "scoped_files hi cx =
     filter (\<lambda>(lbl, _). in_scope hi lbl)
       (List.map_filter (\<lambda>(lbl, i). map_option (Pair lbl) (slot_source cx (lb_slots (cx_labels cx) ! i))) (lb_ids (cx_labels cx)))"

definition scoped_input_bytes :: "hash_inputs \<Rightarrow> hash_error + bytes" where
  "scoped_input_bytes hi =
     (case collect_results (map (\<lambda>lbl.
             case hi_repository_input_digest hi lbl of
               Inl msg \<Rightarrow> Inl (SourceError msg)
             | Inr d \<Rightarrow> Inr (sized_label lbl @ d)) (hi_scoped_inputs hi)) of
        Inl err \<Rightarrow> Inl err
      | Inr ds \<Rightarrow> Inr (concat ds))"

definition update_definition :: "nat \<Rightarrow> bytes \<Rightarrow> rule_node list \<Rightarrow> rule_node list" where
  "update_definition n d nodes = nodes[n := (nodes ! n)\<lparr>rn_prepared := (rn_prepared (nodes ! n))\<lparr>pr_definition_digest := d\<rparr>\<rparr>]"

definition fold_scoped_sources :: "hash_inputs \<Rightarrow> hash_context \<Rightarrow> hash_error + hash_context" where
  "fold_scoped_sources hi cx =
     (if hi_scoped_repositories hi = [] then Inr cx
      else case isolated_dependency_root (bazel_opts (hi_options hi)) of
             None \<Rightarrow> Inl UnboundRoot
           | Some root \<Rightarrow>
          (let name = EXTERNAL @ trim_start_matches (CHR ''@'') root
           in case Option.bind (slot_get (cx_labels cx) name) sl_rule of
                None \<Rightarrow> Inl (MissingSyntheticRoot name)
              | Some n \<Rightarrow>
                  (case scoped_input_bytes hi of
                     Inl err \<Rightarrow> Inl err
                   | Inr inputs \<Rightarrow>
                       (let digest = sha256 (hi_crates hi) (pr_definition_digest (rn_prepared (cx_nodes cx ! n)) @
                              concat (map (\<lambda>(lbl, bs). sized_label lbl @ bs) (scoped_files hi cx)) @
                              as_bytes ''repository inputs'' @ inputs)
                        in Inr (cx\<lparr>cx_nodes := update_definition n digest (cx_nodes cx)\<rparr>)))))"

subsection \<open>Inputs ahead of the walk, and generated files\<close>

definition prepare_node :: "hash_inputs \<Rightarrow> labels \<Rightarrow> rule_node \<Rightarrow> rule_node" where
  "prepare_node hi ls node =
     (let inputs = prepared_inputs (rule_input (rn_rule node)) (fine_grained_external_repos (bazel_opts (hi_options hi))) (hi_repo_nodes hi)
      in node\<lparr>rn_rule := (rn_rule node)\<lparr>rule_input := inputs\<rparr>,
              rn_input_positions := Some (map (\<lambda>key. slot_id ls (target_label key)) inputs)\<rparr>)"

text \<open>\<^verbatim>\<open>Labels::prepare_inputs\<close>: every rule a slot holds; no node is shared yet.\<close>

definition prepare_inputs :: "hash_inputs \<Rightarrow> hash_context \<Rightarrow> hash_context" where
  "prepare_inputs hi cx =
     (if \<not> use_cquery (bazel_opts (hi_options hi)) \<and> hi_repo_mapping_known hi then
        cx\<lparr>cx_nodes := fold (\<lambda>slot nodes. case sl_rule slot of
             None \<Rightarrow> nodes
           | Some n \<Rightarrow> nodes[n := prepare_node hi (cx_labels cx) (nodes ! n)]) (lb_slots (cx_labels cx)) (cx_nodes cx)\<rparr>
      else cx)"

definition add_instance :: "string \<Rightarrow> hash_context \<Rightarrow> hash_context" where
  "add_instance name cx =
     (case (cx_instances cx, split_configured name) of
        (Some m, (lbl, Some _)) \<Rightarrow>
          cx\<lparr>cx_instances := Some (bt_upsert lbl [] (\<lambda>ks. if name \<in> set ks then ks else insort name ks) m)\<rparr>
      | _ \<Rightarrow> cx)"

definition generating_node :: "string \<Rightarrow> hash_context \<Rightarrow> nat option \<times> hash_context" where
  "generating_node gen cx =
     (case Option.bind (slot_get (cx_labels cx) gen) sl_rule of
        Some n \<Rightarrow> (Some n, cx)
      | None \<Rightarrow>
          (case label_instances cx of
             (instances, cx') \<Rightarrow>
               (case bt_get instances (target_label gen) of
                  Some (key # _) \<Rightarrow> (Option.bind (slot_get (cx_labels cx') key) sl_rule, cx')
                | _ \<Rightarrow> (None, cx'))))"

definition alias_slot :: "hash_context \<Rightarrow> string \<Rightarrow> nat \<Rightarrow> label_slot \<Rightarrow> label_slot" where
  "alias_slot cx name n slot =
     (case sl_rule slot of
        Some prev \<Rightarrow>
          if node_name cx prev = name \<and> sl_replaced_canonical slot = None
          then slot\<lparr>sl_rule := Some n, sl_replaced_canonical := Some prev\<rparr>
          else slot\<lparr>sl_rule := Some n\<rparr>
      | None \<Rightarrow> slot\<lparr>sl_rule := Some n\<rparr>)"

definition link_generated :: "string \<Rightarrow> string \<Rightarrow> hash_context \<Rightarrow> hash_error + hash_context" where
  "link_generated name gen cx =
     (case generating_node gen cx of
        (None, _) \<Rightarrow> Inl (UnexpectedGeneratingRule gen)
      | (Some n, cx1) \<Rightarrow>
          (case slot_entry (cx_labels cx1) name of
             (i, ls) \<Rightarrow>
               Inr (add_instance name
                 (cx1\<lparr>cx_recorder := map_option (record_generated name (node_name cx1 n)) (cx_recorder cx1),
                      cx_labels := ls\<lparr>lb_slots := (lb_slots ls)[i := alias_slot cx1 name n (lb_slots ls ! i)]\<rparr>\<rparr>))))"

fun link_all :: "hash_target list \<Rightarrow> hash_context \<Rightarrow> hash_error + hash_context" where
  "link_all [] cx = Inr cx"
| "link_all (HGenerated name gen # ts) cx =
     (case link_generated name gen cx of Inl err \<Rightarrow> Inl err | Inr cx' \<Rightarrow> link_all ts cx')"
| "link_all (_ # ts) cx = link_all ts cx"

definition record_loading :: "hash_inputs \<Rightarrow> hash_context \<Rightarrow> hash_context" where
  "record_loading hi cx =
     cx\<lparr>cx_recorder := map_option (\<lambda>rec.
          record_loading_inputs (hi_marker_inputs hi)
            (fold (\<lambda>slot rec. case sl_rule slot of
                 None \<Rightarrow> rec
               | Some n \<Rightarrow> record_loading_inputs (pr_loading_inputs (rn_prepared (cx_nodes cx ! n))) rec)
              (lb_slots (cx_labels cx)) rec)) (cx_recorder cx)\<rparr>"

subsection \<open>Seeds of packages\<close>

definition has_instantiation_stacks :: "qtarget list \<Rightarrow> bool" where
  "has_instantiation_stacks ts =
     list_ex (\<lambda>t. qt_type t = Rule \<and> (case qt_rule t of None \<Rightarrow> False | Some r \<Rightarrow> rule_instantiation_stack r \<noteq> [])) ts"

definition package_subinclude_sets :: "qtarget list \<Rightarrow> (string, string list) btree" where
  "package_subinclude_sets ts =
     fold (\<lambda>t m. case qt_source_file t of
         None \<Rightarrow> m
       | Some s \<Rightarrow> if sf_subinclude s = [] then m
                   else bt_upsert (label_package (sf_name s)) [] (\<lambda>ls. bs_of_list (ls @ sf_subinclude s)) m) ts []"

fun package_bytes :: "hash_inputs \<Rightarrow> string list \<Rightarrow> hash_error + bytes option" where
  "package_bytes hi [] = Inr None"
| "package_bytes hi (lbl # lbls) =
     (case hi_soft_digest hi lbl of
        Inl msg \<Rightarrow> Inl (SourceError msg)
      | Inr digest \<Rightarrow>
          (case package_bytes hi lbls of
             Inl err \<Rightarrow> Inl err
           | Inr rest \<Rightarrow>
               (case digest of
                  None \<Rightarrow> Inr rest
                | Some d \<Rightarrow> Inr (Some (as_bytes lbl @ d @ (case rest of None \<Rightarrow> [] | Some bs \<Rightarrow> bs))))))"

fun package_bzl_seeds :: "hash_inputs \<Rightarrow> (string \<times> string list) list \<Rightarrow> hash_error + (string, bytes) btree" where
  "package_bzl_seeds hi [] = Inr []"
| "package_bzl_seeds hi ((package, lbls) # rest) =
     (case package_bytes hi lbls of
        Inl err \<Rightarrow> Inl err
      | Inr bs \<Rightarrow>
          (case package_bzl_seeds hi rest of
             Inl err \<Rightarrow> Inl err
           | Inr seeds \<Rightarrow>
               Inr (case bs of None \<Rightarrow> seeds | Some b \<Rightarrow> bt_insert package (sha256 (hi_crates hi) b) seeds)))"

subsection \<open>The pipeline\<close>

definition hash_source :: "walk_env \<Rightarrow> label \<Rightarrow> hash_context \<Rightarrow> target_digest" where
  "hash_source e lbl cx =
     (let d = sha256 (we_crates e)
            ((case Option.bind (slot_get (cx_labels cx) lbl) (slot_source cx) of None \<Rightarrow> [] | Some d \<Rightarrow> d) @ we_seed_hash e @
             (case bt_get (we_package_bzl_seeds e) (label_package lbl) of None \<Rightarrow> [] | Some seed \<Rightarrow> seed))
      in \<lparr>td_overall = d, td_direct = d, td_deps = None\<rparr>)"

definition hash_one :: "walk_env \<Rightarrow> hash_target \<Rightarrow> hash_context \<Rightarrow> (hash_error + instance_digest) \<times> hash_context" where
  "hash_one e t cx =
     (case t of
        HRule key \<Rightarrow>
          (case rule_digest e key cx of
             (Inl err, cx') \<Rightarrow> (Inl err, cx')
           | (Inr d, cx') \<Rightarrow> (Inr (key, ''Rule'', d), cx'))
      | HGenerated name gen \<Rightarrow>
          (case rule_digest e gen cx of
             (Inl err, cx') \<Rightarrow> (Inl err, cx')
           | (Inr d, cx') \<Rightarrow>
               (Inr (name, ''GeneratedFile'', d\<lparr>td_deps := (if track_deps (we_options e) then Some [gen] else None)\<rparr>), cx'))
      | HSource lbl \<Rightarrow> (Inr (lbl, ''SourceFile'', hash_source e lbl cx), cx))"

fun hash_all :: "walk_env \<Rightarrow> hash_target list \<Rightarrow> hash_context \<Rightarrow> (hash_error + instance_digest list) \<times> hash_context" where
  "hash_all e [] cx = (Inr [], cx)"
| "hash_all e (t # ts) cx =
     (case hash_one e t cx of
        (Inl err, cx') \<Rightarrow> (Inl err, cx')
      | (Inr d, cx') \<Rightarrow>
          (case hash_all e ts cx' of
             (Inl err, cx'') \<Rightarrow> (Inl err, cx'')
           | (Inr ds, cx'') \<Rightarrow> (Inr (d # ds), cx'')))"

definition walk_env_of :: "hash_inputs \<Rightarrow> bytes \<Rightarrow> (string, bytes) btree \<Rightarrow> walk_env" where
  "walk_env_of hi seed seeds =
     \<lparr>we_crates = hi_crates hi, we_options = hi_options hi, we_soft_digest = hi_soft_digest hi, we_repo_nodes = hi_repo_nodes hi,
      we_repo_mapping = hi_repo_mapping hi, we_seed_hash = seed, we_package_bzl_seeds = seeds,
      we_always_affected_seed = hi_invocation_seed hi\<rparr>"

definition initial_context :: "hash_inputs \<Rightarrow> build \<Rightarrow> (label \<times> bytes) list \<Rightarrow> hash_context" where
  "initial_context hi bd physical =
     fold (add_decoded hi) (bd_decoded bd) (fold (\<lambda>(lbl, d). set_source lbl d) physical (context_of bd))"

text \<open>Everything up to the walk: the context it starts from.\<close>

definition prepare_context :: "hash_inputs \<Rightarrow> build \<Rightarrow> hash_error + hash_context" where
  "prepare_context hi bd =
     (case digest_sources hi (bd_sources bd) of
        Inl err \<Rightarrow> Inl err
      | Inr physical \<Rightarrow>
     (case fold_scoped_sources hi (initial_context hi bd physical) of
        Inl err \<Rightarrow> Inl err
      | Inr cx \<Rightarrow>
     (case link_all (bd_targets bd) (prepare_inputs hi cx) of
        Inl err \<Rightarrow> Inl err
      | Inr cx' \<Rightarrow> Inr (record_loading hi cx'))))"

definition hash_targets_with_environment ::
  "hash_inputs \<Rightarrow> qtarget list \<Rightarrow> (string \<times> prepared_rule) list \<Rightarrow> hash_error + hash_file_data" where
  "hash_targets_with_environment hi targets definitions =
     (let options = hi_options hi; c = hi_crates hi
      in if partial_tree options \<noteq> None \<and> use_cquery (bazel_opts options) then Inl CqueryUnsupported
         else
     (case hi_seed_files hi of
        Inl msg \<Rightarrow> Inl (SourceError msg)
      | Inr seed \<Rightarrow>
     (case (if has_instantiation_stacks targets then Inr [] else package_bzl_seeds hi (package_subinclude_sets targets)) of
        Inl err \<Rightarrow> Inl err
      | Inr seeds \<Rightarrow>
          (let recorder = (if partial_tree options \<noteq> None then Some (recorder_new c seed (\<not> has_instantiation_stacks targets)) else None);
               bd = fold add_target targets (build_start (prepared_extend definitions \<lparr>ps_ids = [], ps_prepared = []\<rparr>) recorder)
           in case prepare_context hi bd of
                Inl err \<Rightarrow> Inl err
              | Inr cx \<Rightarrow>
                  (case hash_all (walk_env_of hi seed seeds) (sort_key hash_target_label (bd_targets bd)) cx of
                     (Inl err, _) \<Rightarrow> Inl err
                   | (Inr digests, cx') \<Rightarrow>
                       (let (hs, edges) = aggregate_by_label c (track_deps options) digests
                        in case finish_generation c options (cx_recorder cx') hs edges (hi_module_graph_json hi) of
                             Inl err \<Rightarrow> Inl (PartialFailed err)
                           | Inr d \<Rightarrow> Inr d))))))"

subsection \<open>The context is well formed\<close>

lemma slot_ok_mono2: "slot_ok N S slot \<Longrightarrow> N \<le> N' \<Longrightarrow> S \<le> S' \<Longrightarrow> slot_ok N' S' slot"
  by (auto simp: slot_ok_def elim!: option.pred_mono_strong)

definition ids_below :: "nat \<Rightarrow> (string, nat) btree \<Rightarrow> bool" where
  "ids_below k ids \<longleftrightarrow> list_all (\<lambda>(_, i). i < k) ids"

lemma set_bt_insert: "set (bt_insert k v m) \<subseteq> insert (k, v) (set m)"
  by (induction m rule: bt_insert.induct) auto

lemma ids_below_insert: "ids_below k ids \<Longrightarrow> k \<le> k' \<Longrightarrow> i < k' \<Longrightarrow> ids_below k' (bt_insert name i ids)"
  using set_bt_insert [of name i ids] by (fastforce simp: ids_below_def list_all_iff)

lemma length_bt_insert: "bt_get m k = None \<Longrightarrow> length (bt_insert k v m) = Suc (length m)"
  by (induction m rule: bt_insert.induct) (auto split: if_splits)

lemma prepared_extend_ok:
  "length (ps_prepared ps) = length (ps_ids ps) \<Longrightarrow> ids_below (length (ps_ids ps)) (ps_ids ps) \<Longrightarrow>
   length (ps_prepared (prepared_extend ds ps)) = length (ps_ids (prepared_extend ds ps)) \<and>
   ids_below (length (ps_ids (prepared_extend ds ps))) (ps_ids (prepared_extend ds ps))"
proof (induction ds arbitrary: ps)
  case (Cons d ds)
  obtain name p where d: "d = (name, p)" by force
  define ps' where "ps' = (case bt_get (ps_ids ps) name of
      Some i \<Rightarrow> ps\<lparr>ps_prepared := (ps_prepared ps)[i := Some p]\<rparr>
    | None \<Rightarrow> ps\<lparr>ps_ids := bt_insert name (length (ps_prepared ps)) (ps_ids ps), ps_prepared := ps_prepared ps @ [Some p]\<rparr>)"
  have "length (ps_prepared ps') = length (ps_ids ps') \<and> ids_below (length (ps_ids ps')) (ps_ids ps')"
    using Cons.prems by (auto simp: ps'_def length_bt_insert intro: ids_below_insert split: option.splits)
  then show ?case using Cons.IH [of ps'] d by (simp add: prepared_extend_def ps'_def)
qed (simp add: prepared_extend_def)

definition labels_ok :: "nat \<Rightarrow> nat \<Rightarrow> labels \<Rightarrow> bool" where
  "labels_ok nodes sources ls \<longleftrightarrow> list_all (slot_ok nodes sources) (lb_slots ls) \<and> ids_below (length (lb_slots ls)) (lb_ids ls)"

lemma graph_ok_labels:
  "graph_ok cx \<longleftrightarrow> labels_ok (length (cx_nodes cx)) (length (cx_source_digests cx)) (cx_labels cx) \<and>
     list_all (positions_ok (length (lb_slots (cx_labels cx)))) (cx_nodes cx)"
  by (simp add: graph_ok_def labels_ok_def ids_below_def)

lemma labels_ok_update:
  "labels_ok N S ls \<Longrightarrow> N \<le> N' \<Longrightarrow> slot_ok N' S slot \<Longrightarrow> labels_ok N' S (ls\<lparr>lb_slots := (lb_slots ls)[i := slot]\<rparr>)"
  using set_update_subset_insert [of "lb_slots ls" i slot] by (fastforce simp: labels_ok_def list_all_iff intro: slot_ok_mono2)

lemma labels_ok_nth: "labels_ok N S ls \<Longrightarrow> i < length (lb_slots ls) \<Longrightarrow> slot_ok N S (lb_slots ls ! i)"
  by (simp add: labels_ok_def list_all_iff)

lemma slot_ok_default [simp]: "slot_ok N S slot_default"
  by (simp add: slot_ok_def slot_default_def)

lemma labels_ok_entry:
  assumes "slot_entry ls name = (i, ls')" "labels_ok N S ls"
  shows "labels_ok N S ls'" "i < length (lb_slots ls')" "length (lb_slots ls) \<le> length (lb_slots ls')"
proof -
  have ids: "list_all (\<lambda>(_, i). i < length (lb_slots ls)) (lb_ids ls)" using assms(2) by (simp add: labels_ok_def ids_below_def)
  note ok = slot_entry_ok [OF assms(1) ids]
  show "i < length (lb_slots ls')" "length (lb_slots ls) \<le> length (lb_slots ls')" by (rule ok(1), rule ok(2))
  show "labels_ok N S ls'" using ok(3,4) assms(2) by (auto simp: labels_ok_def list_all_iff ids_below_def)
qed

lemma labels_ok_set_rule:
  assumes "labels_ok N S ls" "i < length (lb_slots ls)" "n < N'" "N \<le> N'"
  shows "labels_ok N' S (set_rule i n ls)"
proof -
  have "slot_ok N' S (lb_slots ls ! i)" using labels_ok_nth [OF assms(1,2)] assms(4) by (rule slot_ok_mono2) simp
  then show ?thesis using assms unfolding set_rule_def by (intro labels_ok_update) (auto simp: slot_ok_def)
qed

lemma set_rule_length [simp]: "length (lb_slots (set_rule i n ls)) = length (lb_slots ls)"
  by (simp add: set_rule_def)

definition build_ok :: "build \<Rightarrow> bool" where
  "build_ok bd \<longleftrightarrow> labels_ok (length (bd_nodes bd)) 0 (bd_labels bd) \<and> list_all (\<lambda>node. rn_input_positions node = None) (bd_nodes bd)"

lemma take_prepared_targets [simp]: "take_prepared name (bd\<lparr>bd_targets := x\<rparr>) = take_prepared name bd"
  by (cases "slot_id (bd_labels bd) name") (simp_all add: take_prepared_def)

lemma build_ok_add_target: "build_ok bd \<Longrightarrow> build_ok (add_target t bd)"
proof -
  assume ok: "build_ok bd"
  have "build_ok (add_rule r bd)" for r
  proof (cases "take_prepared (rule_name r) bd")
    case (Some ip)
    obtain i p where ip: "ip = (i, p)" by force
    have i: "i < length (lb_slots (bd_labels bd))"
      using Some ip ok by (auto simp: take_prepared_def slot_id_def build_ok_def labels_ok_def ids_below_def list_all_iff
          dest: map_of_SomeD split: option.splits if_splits)
    show ?thesis using Some ip ok labels_ok_set_rule [OF _ i, of "length (bd_nodes bd)" 0 "length (bd_nodes bd)" "Suc (length (bd_nodes bd))"]
      by (simp add: add_rule_def build_ok_def rule_node_new_def)
  next
    case None
    then show ?thesis using ok by (simp add: add_rule_def build_ok_def)
  qed
  then show ?thesis using ok by (auto simp: add_target_def build_ok_def split: target_discriminator.splits option.splits)
qed

lemma build_ok_fold: "build_ok bd \<Longrightarrow> build_ok (fold add_target ts bd)"
  by (induction ts arbitrary: bd) (auto intro: build_ok_add_target)

lemma build_ok_start: "build_ok (build_start (prepared_extend ds \<lparr>ps_ids = [], ps_prepared = []\<rparr>) recorder)"
  using prepared_extend_ok [of "\<lparr>ps_ids = [], ps_prepared = []\<rparr>" ds]
  by (auto simp: build_ok_def build_start_def labels_ok_def list_all_iff ids_below_def)

lemma context_of_ok: "build_ok bd \<Longrightarrow> graph_ok (context_of bd)"
  by (auto simp: graph_ok_labels build_ok_def context_of_def positions_ok_def list_all_iff)

lemma set_sources_ok: "graph_ok cx \<Longrightarrow> graph_ok (fold (\<lambda>(lbl, d). set_source lbl d) physical cx)"
  by (induction physical arbitrary: cx) (auto intro: keeps_graph [OF set_source_keeps])

lemma add_decoded_ok:
  assumes "graph_ok cx"
  shows "graph_ok (add_decoded hi r cx)"
proof -
  obtain i ls where e: "slot_entry (cx_labels cx) (rule_name r) = (i, ls)" by force
  have l0: "labels_ok (length (cx_nodes cx)) (length (cx_source_digests cx)) (cx_labels cx)" using assms by (simp add: graph_ok_labels)
  note entry = labels_ok_entry [OF e l0]
  have "labels_ok (Suc (length (cx_nodes cx))) (length (cx_source_digests cx)) (set_rule i (length (cx_nodes cx)) ls)"
    by (rule labels_ok_set_rule [OF entry(1,2)]) simp_all
  moreover have "list_all (positions_ok (length (lb_slots ls))) (cx_nodes cx)"
    using assms entry(3) by (auto simp: graph_ok_labels list_all_iff intro: positions_ok_mono)
  ultimately show ?thesis using e by (simp add: add_decoded_def graph_ok_labels rule_node_new_def positions_ok_def)
qed

lemma initial_context_ok: "build_ok bd \<Longrightarrow> graph_ok (initial_context hi bd physical)"
proof -
  have "graph_ok cx \<Longrightarrow> graph_ok (fold (add_decoded hi) rs cx)" for rs cx
    by (induction rs arbitrary: cx) (auto intro: add_decoded_ok)
  then show "build_ok bd \<Longrightarrow> ?thesis" by (simp add: initial_context_def set_sources_ok context_of_ok)
qed

lemma update_definition_ok: "graph_ok cx \<Longrightarrow> graph_ok (cx\<lparr>cx_nodes := update_definition n d (cx_nodes cx)\<rparr>)"
proof -
  assume ok: "graph_ok cx"
  let ?k = "length (lb_slots (cx_labels cx))"
  have "list_all (positions_ok ?k) (update_definition n d (cx_nodes cx))"
  proof (cases "n < length (cx_nodes cx)")
    case True
    then have "positions_ok ?k (cx_nodes cx ! n)" using ok by (simp add: graph_ok_labels list_all_iff)
    then show ?thesis using ok set_update_subset_insert [of "cx_nodes cx" n]
      by (fastforce simp: graph_ok_labels list_all_iff update_definition_def positions_ok_def)
  qed (use ok in \<open>simp add: update_definition_def graph_ok_labels list_update_beyond\<close>)
  then show ?thesis using ok by (simp add: graph_ok_labels update_definition_def)
qed

lemma fold_scoped_sources_ok: "fold_scoped_sources hi cx = Inr cx' \<Longrightarrow> graph_ok cx \<Longrightarrow> graph_ok cx'"
  by (auto simp: fold_scoped_sources_def Let_def intro: update_definition_ok split: if_splits option.splits sum.splits)

lemma prepare_node_ok: "ids_below k (lb_ids ls) \<Longrightarrow> positions_ok k (prepare_node hi ls node)"
  by (auto simp: prepare_node_def positions_ok_def Let_def list_all_iff ids_below_def slot_id_def pred_option_def dest: map_of_SomeD)

lemma prepare_inputs_ok:
  assumes "graph_ok cx"
  shows "graph_ok (prepare_inputs hi cx)"
proof -
  let ?ls = "cx_labels cx" and ?k = "length (lb_slots (cx_labels cx))"
  let ?f = "\<lambda>slot nodes. case sl_rule slot of None \<Rightarrow> nodes | Some n \<Rightarrow> nodes[n := prepare_node hi ?ls (nodes ! n)]"
  have ids: "ids_below ?k (lb_ids ?ls)" using assms by (simp add: graph_ok_labels labels_ok_def)
  have step: "length (fold ?f slots nodes) = length nodes \<and> list_all (positions_ok ?k) (fold ?f slots nodes)"
    if "list_all (positions_ok ?k) nodes" for slots nodes
    using that
  proof (induction slots arbitrary: nodes)
    case (Cons slot slots)
    have "list_all (positions_ok ?k) (?f slot nodes)"
      using Cons.prems set_update_subset_insert [of nodes] prepare_node_ok [OF ids] by (fastforce simp: list_all_iff split: option.splits)
    moreover have "length (?f slot nodes) = length nodes" by (simp split: option.splits)
    ultimately show ?case using Cons.IH [of "?f slot nodes"] by (simp only: fold.simps comp_def)
  qed simp
  have "length (fold ?f (lb_slots ?ls) (cx_nodes cx)) = length (cx_nodes cx) \<and> list_all (positions_ok ?k) (fold ?f (lb_slots ?ls) (cx_nodes cx))"
    by (rule step) (use assms in \<open>simp add: graph_ok_labels\<close>)
  then show ?thesis using assms by (simp only: prepare_inputs_def graph_ok_labels split: if_split) simp
qed

lemma generating_node_ok:
  assumes "generating_node gen cx = (r, cx')" "graph_ok cx"
  shows "graph_ok cx'" "r = Some n \<Longrightarrow> n < length (cx_nodes cx')"
proof -
  obtain m cy where li: "label_instances cx = (m, cy)" by force
  note same = label_instances_keeps [OF li]
  have cy: "graph_ok cy" using graph_ok_cong [OF assms(2) same(1-3)] .
  have "cx' = cx \<or> cx' = cy" using assms(1) li by (auto simp: generating_node_def split: option.splits list.splits)
  then show ok: "graph_ok cx'" using assms(2) cy by auto
  assume "r = Some n"
  then obtain key where "Option.bind (slot_get (cx_labels cx') key) sl_rule = Some n"
    using assms(1) li by (auto simp: generating_node_def split: option.splits list.splits)
  then obtain slot where "slot_get (cx_labels cx') key = Some slot" "sl_rule slot = Some n" by (auto simp: bind_eq_Some_conv)
  then show "n < length (cx_nodes cx')" using slot_get_ok [OF ok] by (fastforce simp: slot_ok_def)
qed

lemma alias_slot_ok: "slot_ok N S slot \<Longrightarrow> n < N \<Longrightarrow> slot_ok N S (alias_slot cx name n slot)"
  by (auto simp: alias_slot_def slot_ok_def split: option.splits)

lemma link_generated_ok:
  assumes "link_generated name gen cx = Inr cx'" "graph_ok cx"
  shows "graph_ok cx'"
proof -
  obtain n cx1 where g: "generating_node gen cx = (Some n, cx1)"
    using assms(1) by (auto simp: link_generated_def split: prod.splits option.splits)
  note ok1 = generating_node_ok [OF g assms(2)]
  obtain i ls where e: "slot_entry (cx_labels cx1) name = (i, ls)" by force
  have l1: "labels_ok (length (cx_nodes cx1)) (length (cx_source_digests cx1)) (cx_labels cx1)" using ok1(1) by (simp add: graph_ok_labels)
  note entry = labels_ok_entry [OF e l1]
  define cx2 where "cx2 = cx1\<lparr>cx_recorder := map_option (record_generated name (node_name cx1 n)) (cx_recorder cx1),
      cx_labels := ls\<lparr>lb_slots := (lb_slots ls)[i := alias_slot cx1 name n (lb_slots ls ! i)]\<rparr>\<rparr>"
  have "labels_ok (length (cx_nodes cx1)) (length (cx_source_digests cx1)) (cx_labels cx2)"
    using labels_ok_update [OF entry(1) order_refl alias_slot_ok [OF labels_ok_nth [OF entry(1,2)] ok1(2)]] by (simp add: cx2_def)
  moreover have "list_all (positions_ok (length (lb_slots ls))) (cx_nodes cx1)"
    using ok1(1) entry(3) by (auto simp: graph_ok_labels list_all_iff intro: positions_ok_mono)
  ultimately have "graph_ok cx2" by (simp add: graph_ok_labels cx2_def)
  moreover have "cx' = add_instance name cx2" using assms(1) g e by (simp add: link_generated_def cx2_def)
  ultimately show ?thesis by (auto simp: add_instance_def graph_ok_labels split: option.splits prod.splits)
qed

lemma link_all_ok: "link_all ts cx = Inr cx' \<Longrightarrow> graph_ok cx \<Longrightarrow> graph_ok cx'"
proof (induction ts cx rule: link_all.induct)
  case (2 name gen ts cx)
  then obtain cx1 where l: "link_generated name gen cx = Inr cx1" "link_all ts cx1 = Inr cx'" by (auto split: sum.splits)
  then show ?case using "2.IH" [OF l(1,2)] link_generated_ok [OF l(1) "2.prems"(2)] by blast
qed auto

lemma prepare_context_ok:
  assumes "prepare_context hi (fold add_target targets (build_start (prepared_extend definitions \<lparr>ps_ids = [], ps_prepared = []\<rparr>) recorder)) = Inr cx"
  shows "graph_ok cx"
proof -
  define bd where "bd = fold add_target targets (build_start (prepared_extend definitions \<lparr>ps_ids = [], ps_prepared = []\<rparr>) recorder)"
  have bd: "build_ok bd" unfolding bd_def by (rule build_ok_fold [OF build_ok_start])
  obtain physical cx1 cx2 where p: "fold_scoped_sources hi (initial_context hi bd physical) = Inr cx1"
      "link_all (bd_targets bd) (prepare_inputs hi cx1) = Inr cx2" "cx = record_loading hi cx2"
    using assms unfolding bd_def [symmetric] prepare_context_def by (auto split: sum.splits)
  have "graph_ok cx1" by (rule fold_scoped_sources_ok [OF p(1) initial_context_ok [OF bd]])
  then have "graph_ok cx2" using link_all_ok [OF p(2)] prepare_inputs_ok by blast
  then show ?thesis using p(3) by (simp add: record_loading_def graph_ok_def)
qed

text \<open>
  C20: the context the walk starts from is well formed for every answer of the query: each slot id, rule node,
  source digest and prepared input position points into its table, whatever targets, duplicate names,
  generated aliases and prepared definitions the query gave.
\<close>

theorem prepared_context_well_formed:
  assumes "prepare_context hi (fold add_target targets (build_start (prepared_extend definitions \<lparr>ps_ids = [], ps_prepared = []\<rparr>) recorder)) = Inr cx"
  shows "graph_ok cx"
  by (rule prepare_context_ok [OF assms])

subsection \<open>The pipeline returns\<close>

lemma collect_results_error: "collect_results rs = Inl err \<Longrightarrow> Inl err \<in> set rs"
  by (induction rs rule: collect_results.induct) (auto split: sum.splits)

lemma settled_digest_sources: "settled (digest_sources hi sources)"
proof (cases "digest_sources hi sources")
  case (Inl err)
  then obtain msg where "err = SourceError msg"
    by (auto simp: digest_sources_def dest!: collect_results_error split: sum.splits)
  then show ?thesis using Inl by simp
qed simp

lemma settled_scoped: "settled (fold_scoped_sources hi cx)"
proof -
  have "settled (scoped_input_bytes hi)"
  proof (cases "scoped_input_bytes hi")
    case (Inl err)
    then obtain msg where "err = SourceError msg"
      by (auto simp: scoped_input_bytes_def dest!: collect_results_error split: sum.splits)
    then show ?thesis using Inl by simp
  qed simp
  then show ?thesis by (auto simp: fold_scoped_sources_def settled_def Let_def split: option.splits sum.splits)
qed

lemma settled_link_all: "settled (link_all ts cx)"
  by (induction ts cx rule: link_all.induct) (auto simp: link_generated_def settled_def split: sum.splits prod.splits option.splits)

lemma settled_prepare_context: "settled (prepare_context hi bd)"
  using settled_digest_sources [of hi "bd_sources bd"] settled_scoped [of hi] settled_link_all [of "bd_targets bd"]
  by (auto simp: prepare_context_def split: sum.splits) (metis settled_Inl)+

lemma settled_package_bzl_seeds: "settled (package_bzl_seeds hi sets)"
proof -
  have "settled (package_bytes hi lbls)" for lbls
    by (induction lbls) (auto simp: settled_def split: sum.splits option.splits)
  then show ?thesis by (induction hi sets rule: package_bzl_seeds.induct) (auto split: sum.splits, (metis settled_Inl)+)
qed

lemma hash_one_keeps:
  assumes "hash_one e t cx = (r, cx')" "graph_ok cx"
  shows "keeps {} cx cx' \<and> settled r"
  using assms rule_digest_keeps
  by (auto simp: hash_one_def split: hash_target.splits prod.splits sum.splits elim: settled_Inl) (metis settled_Inl)+

lemma hash_all_keeps: "hash_all e ts cx = (r, cx') \<Longrightarrow> graph_ok cx \<Longrightarrow> keeps {} cx cx' \<and> settled r"
proof (induction ts arbitrary: cx r)
  case (Cons t ts)
  obtain r1 cx1 where one: "hash_one e t cx = (r1, cx1)" by force
  note k1 = hash_one_keeps [OF one Cons.prems(2)]
  obtain r2 cx2 where rest: "hash_all e ts cx1 = (r2, cx2)" by force
  have k2: "cx2 = cx' \<longrightarrow> keeps {} cx1 cx' \<and> settled r2" using Cons.IH rest k1 keeps_graph by blast
  show ?case using Cons.prems(1) one rest k1 k2
    by (auto split: sum.splits intro: keeps_trans elim: settled_Inl)
qed simp

text \<open>
  C4: hashing the targets of a query returns for every answer of Bazel and every state of the sources, cyclic
  graphs included: a failure is one of the errors the code raises, never an endless walk and never the
  panic of a rule completed twice.
\<close>

theorem hash_targets_returns:
  "hash_targets_with_environment hi targets definitions \<noteq> Inl OutOfFuel \<and>
   hash_targets_with_environment hi targets definitions \<noteq> Inl DigestSetTwice"
proof -
  define recorder where "recorder seed = (if partial_tree (hi_options hi) \<noteq> None
    then Some (recorder_new (hi_crates hi) seed (\<not> has_instantiation_stacks targets)) else None)" for seed
  define bd where "bd seed = fold add_target targets (build_start (prepared_extend definitions \<lparr>ps_ids = [], ps_prepared = []\<rparr>) (recorder seed))" for seed
  have cx: "graph_ok cx" if "prepare_context hi (bd seed) = Inr cx" for seed cx
    using prepare_context_ok that unfolding bd_def .
  define seeds where "seeds = (if has_instantiation_stacks targets then Inr [] else package_bzl_seeds hi (package_subinclude_sets targets))"
  have seeds: "settled seeds" using settled_package_bzl_seeds by (simp add: seeds_def)
  define walked where "walked seed sd cx = hash_all (walk_env_of hi seed sd) (sort_key hash_target_label (bd_targets (bd seed))) cx" for seed sd cx
  have walked: "settled r" if "prepare_context hi (bd seed) = Inr cx" "walked seed sd cx = (r, cx')" for seed sd cx r cx'
    using hash_all_keeps [OF that(2) [unfolded walked_def] cx [OF that(1)]] by simp
  have "settled (hash_targets_with_environment hi targets definitions)"
    unfolding hash_targets_with_environment_def Let_def
    unfolding recorder_def [symmetric] seeds_def [symmetric]
    unfolding bd_def [symmetric] walked_def [symmetric]
    using seeds settled_prepare_context [of hi "bd seed" for seed] walked
    by (simp only: split: if_splits sum.splits prod.splits) (auto simp: settled_def, (blast dest: walked [unfolded settled_def])+)
  then show ?thesis by (simp add: settled_def)
qed

subsection \<open>What the entry covers\<close>

text \<open>The key a target of the query is hashed under.\<close>

definition hashed_key :: "qtarget \<Rightarrow> string option" where
  "hashed_key t =
     (case qt_type t of
        Rule \<Rightarrow> map_option rule_name (qt_rule t)
      | GeneratedFile \<Rightarrow> map_option gf_name (qt_generated_file t)
      | SourceFile \<Rightarrow> map_option sf_name (qt_source_file t)
      | _ \<Rightarrow> None)"

lemma add_target_keys:
  "map hash_target_label (bd_targets (add_target t bd)) = map hash_target_label (bd_targets bd) @ List.map_filter hashed_key [t]"
  by (auto simp: add_target_def add_rule_def hashed_key_def map_filter_simps Let_def split: target_discriminator.splits option.splits)

lemma fold_add_target_keys:
  "map hash_target_label (bd_targets (fold add_target ts bd)) = map hash_target_label (bd_targets bd) @ List.map_filter hashed_key ts"
proof (induction ts arbitrary: bd)
  case (Cons t ts)
  then show ?case using add_target_keys [of t bd] by (simp add: map_filter_simps split: option.splits)
qed (simp add: map_filter_simps)

lemma built_keys:
  "hash_target_label ` set (bd_targets (fold add_target ts (build_start ps recorder))) = set (List.map_filter hashed_key ts)"
proof -
  have "map hash_target_label (bd_targets (fold add_target ts (build_start ps recorder))) = List.map_filter hashed_key ts"
    unfolding fold_add_target_keys by (simp add: build_start_def)
  then show ?thesis by (metis list.set_map)
qed

lemma hash_all_keys: "hash_all e ts cx = (Inr ds, cx') \<Longrightarrow> map fst ds = map hash_target_label ts"
proof (induction ts arbitrary: cx ds)
  case (Cons t ts)
  then obtain d cx1 ds' where "hash_one e t cx = (Inr d, cx1)" "hash_all e ts cx1 = (Inr ds', cx')" "ds = d # ds'"
    by (auto split: prod.splits sum.splits)
  then show ?case using Cons.IH by (auto simp: hash_one_def split: hash_target.splits prod.splits sum.splits)
qed simp

lemma aggregate_keys:
  "map fst (fst (aggregate_by_label c track ds)) = sort_dedup (map instance_label ds)"
  "snd (aggregate_by_label c track ds) = (if track then snd (aggregate_by_label c True ds) else [])"
  "map fst (snd (aggregate_by_label c True ds)) = sort_dedup (map instance_label ds)"
  by (auto simp: aggregate_by_label_def sorted_reference grouped_reference aggregate_reference_def Let_def comp_def)

lemma finish_generation_labels:
  assumes "finish_generation c options rec hs edges graph = Inr d" "bt_inv hs"
  shows "map fst (hashes d) = map fst hs" "dep_edges d = edges"
proof -
  have labels: "map fst (kinds_of m) = map fst m" for m by (simp add: kinds_of_def case_prod_beta comp_def)
  show "map fst (hashes d) = map fst hs" "dep_edges d = edges"
    using assms kinds_of_evaluate labels
    by (auto simp: finish_generation_def Let_def split: option.splits sum.splits) (metis bt_inv_kinds_of kinds_of_evaluate labels)
qed

lemma hash_targets_Inr:
  assumes "hash_targets_with_environment hi targets definitions = Inr d"
  obtains seed sd cx digests cx' where
    "hash_all (walk_env_of hi seed sd) (sort_key hash_target_label (bd_targets (fold add_target targets
        (build_start (prepared_extend definitions \<lparr>ps_ids = [], ps_prepared = []\<rparr>)
          (if partial_tree (hi_options hi) \<noteq> None then Some (recorder_new (hi_crates hi) seed (\<not> has_instantiation_stacks targets)) else None))))) cx = (Inr digests, cx')"
    "finish_generation (hi_crates hi) (hi_options hi) (cx_recorder cx') (fst (aggregate_by_label (hi_crates hi) (track_deps (hi_options hi)) digests))
        (snd (aggregate_by_label (hi_crates hi) (track_deps (hi_options hi)) digests)) (hi_module_graph_json hi) = Inr d"
proof -
  define recorder where "recorder seed = (if partial_tree (hi_options hi) \<noteq> None
    then Some (recorder_new (hi_crates hi) seed (\<not> has_instantiation_stacks targets)) else None)" for seed
  define bd where "bd seed = fold add_target targets (build_start (prepared_extend definitions \<lparr>ps_ids = [], ps_prepared = []\<rparr>) (recorder seed))" for seed
  obtain seed sd cx digests cx' where w: "hash_all (walk_env_of hi seed sd) (sort_key hash_target_label (bd_targets (bd seed))) cx = (Inr digests, cx')"
      and f: "finish_generation (hi_crates hi) (hi_options hi) (cx_recorder cx') (fst (aggregate_by_label (hi_crates hi) (track_deps (hi_options hi)) digests))
        (snd (aggregate_by_label (hi_crates hi) (track_deps (hi_options hi)) digests)) (hi_module_graph_json hi) = Inr d"
    using assms unfolding hash_targets_with_environment_def Let_def
    unfolding recorder_def [symmetric]
    unfolding bd_def [symmetric]
    by (auto split: if_splits sum.splits prod.splits)
  show thesis by (rule that [OF w [unfolded bd_def recorder_def] f])
qed

lemma bt_inv_aggregate: "bt_inv (fst (aggregate_by_label c track ds))"
  unfolding bt_inv_def aggregate_keys by (rule sorted_sort_dedup)

lemma generated_entry_evaluates:
  assumes "hash_targets_with_environment hi targets definitions = Inr base" "partial_tree (hi_options hi) = Some t" "partial base = Some rcp"
  shows "evaluate (hi_crates hi) rcp (kinds_of (hashes base)) t = Inr (hashes base)" "bt_inv (hashes base)"
proof -
  obtain rec hs edges g where f: "finish_generation (hi_crates hi) (hi_options hi) rec hs edges g = Inr base" "bt_inv hs"
    using hash_targets_Inr [OF assms(1)] bt_inv_aggregate by metis
  then have e: "evaluate (hi_crates hi) rcp (kinds_of hs) t = Inr (hashes base)"
    using assms(2,3) by (auto simp: finish_generation_def Let_def split: option.splits sum.splits)
  moreover have "kinds_of (hashes base) = kinds_of hs" using kinds_of_evaluate [OF e] f(2) by simp
  ultimately show "evaluate (hi_crates hi) rcp (kinds_of (hashes base)) t = Inr (hashes base)" "bt_inv (hashes base)"
    using f(2) by (simp_all flip: bt_inv_kinds_of)
qed

lemma hash_targets_label_order:
  assumes "hash_targets_with_environment hi targets definitions = Inr d"
  shows "map fst (hashes d) = sort_dedup (map target_label (List.map_filter hashed_key targets)) \<and>
    map fst (dep_edges d) = (if track_deps (hi_options hi) then map fst (hashes d) else [])"
proof -
  obtain seed sd cx digests cx' where w: "hash_all (walk_env_of hi seed sd) (sort_key hash_target_label (bd_targets (fold add_target targets
        (build_start (prepared_extend definitions \<lparr>ps_ids = [], ps_prepared = []\<rparr>)
          (if partial_tree (hi_options hi) \<noteq> None then Some (recorder_new (hi_crates hi) seed (\<not> has_instantiation_stacks targets)) else None))))) cx = (Inr digests, cx')"
      and f: "finish_generation (hi_crates hi) (hi_options hi) (cx_recorder cx') (fst (aggregate_by_label (hi_crates hi) (track_deps (hi_options hi)) digests))
        (snd (aggregate_by_label (hi_crates hi) (track_deps (hi_options hi)) digests)) (hi_module_graph_json hi) = Inr d"
    by (rule hash_targets_Inr [OF assms])
  let ?lbls = "sort_dedup (map instance_label digests)"
  have "set (map fst digests) = set (List.map_filter hashed_key targets)"
    unfolding hash_all_keys [OF w] by (simp only: set_map set_sort built_keys)
  then have "set (map instance_label digests) = set (map target_label (List.map_filter hashed_key targets))"
    by (simp add: instance_label_def image_image flip: image_comp) (metis image_image list.set_map)
  then have lbls: "?lbls = sort_dedup (map target_label (List.map_filter hashed_key targets))" by (rule sort_dedup_cong)
  note labels = finish_generation_labels [OF f bt_inv_aggregate]
  show ?thesis unfolding labels lbls [symmetric] aggregate_keys(1) by (subst aggregate_keys(2)) (simp add: aggregate_keys(3))
qed

text \<open>
  C15: the entry covers exactly the targets of the query: one hash per label of a rule, generated file or source
  file, in label order, with the configurations of a label folded together, and edges for the same
  labels exactly when dependencies are tracked. Other kinds of target have no hash.
\<close>

theorem hash_targets_labels:
  assumes "hash_targets_with_environment hi targets definitions = Inr d"
  shows "map fst (hashes d) = sort_dedup (map target_label (List.map_filter hashed_key targets)) \<and>
    map fst (dep_edges d) = (if track_deps (hi_options hi) then map fst (hashes d) else [])"
  by (rule hash_targets_label_order [OF assms])

subsection \<open>A package\<close>

definition sample_hash_inputs :: hash_inputs where
  "sample_hash_inputs = \<lparr>hi_crates = crates_ref, hi_options = sample_hash_options, hi_encode = (\<lambda>_. []), hi_seed_files = Inr [1],
     hi_digest_source = (\<lambda>lbl seed. Inr (as_bytes lbl @ seed)), hi_soft_digest = (\<lambda>_. Inr None), hi_canonicalize = Some,
     hi_marker_inputs = [], hi_repo_mapping_known = True, hi_repo_mapping = [], hi_repo_nodes = [], hi_scoped_repositories = [],
     hi_scoped_inputs = [], hi_repository_input_digest = (\<lambda>_. Inr []), hi_invocation_seed = [2], hi_module_graph_json = None\<rparr>"

definition sample_query :: "qtarget list" where
  "sample_query =
     [Query_Target.sample_lib\<lparr>qt_rule := Some (rule_default\<lparr>rule_name := ''//a:lib'', rule_input := [''//a:f'', ''//a:lib'']\<rparr>)\<rparr>,
      Query_Target.sample_lib\<lparr>qt_type := GeneratedFile, qt_rule := None, qt_generated_file := Some \<lparr>gf_name = ''//a:out'', gf_generating_rule = ''//a:lib'', gf_location = None, gf_unknown_fields = []\<rparr>\<rparr>,
      Query_Target.sample_lib\<lparr>qt_type := SourceFile, qt_rule := None, qt_source_file := Some \<lparr>sf_name = ''//a:f'', sf_location = None, sf_subinclude = [], sf_package_group = [],
        sf_visibility_label = [], sf_feature = [], sf_license = None, sf_package_contains_errors = None, sf_unknown_fields = []\<rparr>\<rparr>]"

lemma sample_prepared:
  "(case prepare_context sample_hash_inputs (fold add_target sample_query (build_start (prepared_extend [] \<lparr>ps_ids = [], ps_prepared = []\<rparr>) None)) of
      Inl _ \<Rightarrow> [] | Inr cx \<Rightarrow> map fst (lb_ids (cx_labels cx))) = [''//a:f'', ''//a:lib'', ''//a:out'']"
  by code_simp

theorem prepared_context_well_formed_witness:
  "\<exists>cx. prepare_context sample_hash_inputs (fold add_target sample_query (build_start (prepared_extend [] \<lparr>ps_ids = [], ps_prepared = []\<rparr>) None)) = Inr cx \<and>
    graph_ok cx \<and> map fst (lb_ids (cx_labels cx)) = [''//a:f'', ''//a:lib'', ''//a:out'']"
  using sample_prepared prepared_context_well_formed [of sample_hash_inputs sample_query "[]" None]
  by (simp split: sum.splits)

lemma sample_hashed: "\<not> isl (hash_targets_with_environment sample_hash_inputs sample_query [])"
  by code_simp

theorem hash_targets_labels_witness:
  "\<exists>d. hash_targets_with_environment sample_hash_inputs sample_query [] = Inr d \<and>
    map fst (hashes d) = [''//a:f'', ''//a:lib'', ''//a:out'']"
proof -
  obtain d where d: "hash_targets_with_environment sample_hash_inputs sample_query [] = Inr d" using sample_hashed by (metis isl_def sum.exhaust)
  have "sort_dedup (map target_label (List.map_filter hashed_key sample_query)) = [''//a:f'', ''//a:lib'', ''//a:out'']" by code_simp
  then show ?thesis using hash_targets_labels [OF d] d by simp
qed

end
