(* ===== verification/Pipeline.thy ===== *)
theory Pipeline
  imports Hash_Targets Impact
begin

section \<open>From a query to the impacted targets\<close>

text \<open>
  The stages of a run in partial-graph mode joined: the entry of a generation evaluates its own
  recipes, a derivation evaluates them at another tree, and a rule is impacted between the two exactly
  when a source it reaches moved. A workspace of two rules and a file runs through all of them.
\<close>

lemma impacted_rule_iff:
  assumes "crates_ok c" "evaluable c rcp targets t1" "evaluable c rcp targets t2"
    and "evaluate c rcp targets t1 = Inr hs1" "evaluate c rcp targets t2 = Inr hs2" "bt_inv hs2"
    and "(k, ''Rule'') \<in> set targets" "no_collision c rcp targets t1 t2"
  shows "\<exists>impacted. impacted_targets hs1 hs2 None False = Inr impacted \<and>
    (k \<in> set impacted \<longleftrightarrow>
      (\<exists>k' s. depends_on (eval_env_of c rcp targets t1) k k' \<and> reads_source (eval_env_of c rcp targets t1) k' s \<and>
        source_value (eval_env_of c rcp targets t1) s \<noteq> source_value (eval_env_of c rcp targets t2) s))"
proof -
  have inv: "bt_inv targets" using assms(2) by (simp add: evaluable_def)
  obtain v1 where v1: "rule_sem (eval_env_of c rcp targets t1) k v1" "bt_get hs1 k = Some (target_hash_of ''Rule'' v1)"
    using evaluate_rule_value [OF assms(2,4,7)] by blast
  obtain v2 where v2: "rule_sem (eval_env_of c rcp targets t2) k v2" "bt_get hs2 k = Some (target_hash_of ''Rule'' v2)"
    using evaluate_rule_value [OF assms(3,5,7)] by blast
  let ?changed = "\<exists>k' s. depends_on (eval_env_of c rcp targets t1) k k' \<and> reads_source (eval_env_of c rcp targets t1) k' s \<and>
      source_value (eval_env_of c rcp targets t1) s \<noteq> source_value (eval_env_of c rcp targets t2) s"
  have moved: "fst v1 \<noteq> fst v2" if ?changed
  proof -
    note prems = that
    obtain k' s where r: "depends_on (eval_env_of c rcp targets t1) k k'" "reads_source (eval_env_of c rcp targets t1) k' s"
      "source_value (eval_env_of c rcp targets t1) s \<noteq> source_value (eval_env_of c rcp targets t2) s" using prems by blast
    show ?thesis
      by (rule change_propagates [OF same_recipes_eval_env digests_32_eval_env digests_32_eval_env _ r(1) v1(1) v2(1) r(2,3)])
        (use assms(1,8) inv in \<open>simp_all add: no_collision_def\<close>)
  qed
  have still: "bt_get hs1 k = bt_get hs2 k" if "\<not> ?changed"
    using rule_hash_unchanged [OF assms(2-5,7)] that by blast
  have "bt_get hs2 k \<noteq> None \<and> bt_get hs1 k \<noteq> bt_get hs2 k \<longleftrightarrow> ?changed"
    using moved still v1(2) v2(2) by (auto simp: target_hash_of_def)
  then have "k \<in> moved_labels hs1 hs2 False \<longleftrightarrow> ?changed" by (auto simp: moved_labels_def kept_label_def)
  moreover have "finite (moved_labels hs1 hs2 False)"
    by (rule finite_subset [of _ "fst ` set hs2"]) (force simp: moved_labels_def dest!: map_of_SomeD, simp)
  ultimately show ?thesis
    unfolding impacted_targets_closed [OF assms(6)]
    by (auto simp: untyped_label_def accepted_label_def) (force simp: image_iff)+
qed

subsection \<open>Two rules and a file\<close>

definition pipeline_query :: "qtarget list" where
  "pipeline_query =
     [Query_Target.sample_lib\<lparr>qt_rule := Some (rule_default\<lparr>rule_name := ''//a:bin'', rule_input := [''//a:lib'']\<rparr>)\<rparr>,
      Query_Target.sample_lib\<lparr>qt_rule := Some (rule_default\<lparr>rule_name := ''//a:lib'', rule_input := [''//a:x.txt'']\<rparr>)\<rparr>,
      Query_Target.sample_lib\<lparr>qt_type := SourceFile, qt_rule := None, qt_source_file := Some \<lparr>sf_name = ''//a:x.txt'', sf_location = None, sf_subinclude = [],
        sf_package_group = [], sf_visibility_label = [], sf_feature = [], sf_license = None, sf_package_contains_errors = None, sf_unknown_fields = []\<rparr>\<rparr>]"

definition pipeline_inputs :: "crates \<Rightarrow> hash_inputs" where
  "pipeline_inputs c = sample_hash_inputs\<lparr>hi_crates := c, hi_options := sample_options\<lparr>partial_tree := Some sample_tree\<rparr>, hi_seed_files := Inr (replicate 32 5)\<rparr>"


definition rule_fixed :: "crates \<Rightarrow> string \<Rightarrow> string \<Rightarrow> bytes" where
  "rule_fixed c name input = sha256 c (sha256 c (as_bytes name) @ replicate 32 5 @ as_bytes input)"

definition pipeline_recipes_at :: "crates \<Rightarrow> partial_recipes" where
  "pipeline_recipes_at c = sample_recipes\<lparr>seed_hash := hex_encode c (replicate 32 5), package_seeds_on := True,
     rules := [(''//a:bin'', \<lparr>static = hex_encode c (rule_fixed c ''//a:bin'' ''//a:lib''), recipe_sources = [], recipe_deps = [''//a:lib'']\<rparr>),
               (''//a:lib'', \<lparr>static = hex_encode c (rule_fixed c ''//a:lib'' ''//a:x.txt''), recipe_sources = [''//a:x.txt''], recipe_deps = []\<rparr>)]\<rparr>"

definition pipeline_build :: "crates \<Rightarrow> build" where
  "pipeline_build c = fold add_target pipeline_query (build_start (prepared_extend [] \<lparr>ps_ids = [], ps_prepared = []\<rparr>)
     (Some (recorder_new c (replicate 32 5) True)))"

definition pipeline_walk :: "crates \<Rightarrow> (partial_recipes \<times> (string \<times> string) list) option" where
  "pipeline_walk c =
     (case prepare_context (pipeline_inputs c) (pipeline_build c) of
        Inl _ \<Rightarrow> None
      | Inr cx \<Rightarrow>
          (case hash_all (walk_env_of (pipeline_inputs c) (replicate 32 5) []) (sort_key hash_target_label (bd_targets (pipeline_build c))) cx of
             (Inl _, _) \<Rightarrow> None
           | (Inr ds, cx') \<Rightarrow> map_option (\<lambda>rec. (finish rec, map (\<lambda>(key, knd, _). (key, knd)) ds)) (cx_recorder cx')))"

lemma pipeline_walk_value: "P (pipeline_walk c) \<longrightarrow> P (Some (pipeline_recipes_at c, sample_targets))"
  by (code_simp, simp)

definition pipeline_recipes :: partial_recipes where
  "pipeline_recipes = pipeline_recipes_at crates_ref"

lemma pipeline_fixed:
  "rule_fixed crates_ref ''//a:bin'' ''//a:lib'' = replicate 30 0 @ [0x47, 0x19]"
  "rule_fixed crates_ref ''//a:lib'' ''//a:x.txt'' = replicate 30 0 @ [0x49, 0x20]"
  by code_simp+

lemma pipeline_recipes_eq:
  "pipeline_recipes = sample_recipes\<lparr>seed_hash := hex_encode_ref (replicate 32 5), package_seeds_on := True,
     rules := [(''//a:bin'', \<lparr>static = hex_encode_ref (replicate 30 0 @ [0x47, 0x19]), recipe_sources = [], recipe_deps = [''//a:lib'']\<rparr>),
               (''//a:lib'', \<lparr>static = hex_encode_ref (replicate 30 0 @ [0x49, 0x20]), recipe_sources = [''//a:x.txt''], recipe_deps = []\<rparr>)]\<rparr>"
  by (simp only: pipeline_recipes_def pipeline_recipes_at_def pipeline_fixed) (simp add: crates_ref_def)

abbreviation pipeline_env :: "tree_index \<Rightarrow> eval_env" where
  "pipeline_env t \<equiv> eval_env_of crates_ref pipeline_recipes sample_targets t"

lemma pipeline_rules:
  "bt_get (rules pipeline_recipes) k = Some recipe \<longleftrightarrow>
     k = ''//a:bin'' \<and> recipe = \<lparr>static = hex_encode_ref (replicate 30 0 @ [0x47, 0x19]), recipe_sources = [], recipe_deps = [''//a:lib'']\<rparr> \<or>
     k = ''//a:lib'' \<and> recipe = \<lparr>static = hex_encode_ref (replicate 30 0 @ [0x49, 0x20]), recipe_sources = [''//a:x.txt''], recipe_deps = []\<rparr>"
  by (auto simp: pipeline_recipes_eq)

definition pipeline_source :: "tree_index \<Rightarrow> bytes" where
  "pipeline_source t = source_digest crates_ref t ''//a:x.txt'' (subinclude_seed crates_ref pipeline_recipes ''//a:x.txt'')"

lemma pipeline_source_value [simp]: "source_value (pipeline_env t) ''//a:x.txt'' = Some (pipeline_source t)"
  by (simp add: source_value_def ev_sources_get pipeline_source_def) (simp add: sample_targets_def)

lemma pipeline_evaluable: "evaluable crates_ref pipeline_recipes sample_targets t"
proof -
  have rules: "rules pipeline_recipes =
     [(''//a:bin'', \<lparr>static = hex_encode_ref (replicate 30 0 @ [0x47, 0x19]), recipe_sources = [], recipe_deps = [''//a:lib'']\<rparr>),
      (''//a:lib'', \<lparr>static = hex_encode_ref (replicate 30 0 @ [0x49, 0x20]), recipe_sources = [''//a:x.txt''], recipe_deps = []\<rparr>)]"
    by (simp add: pipeline_recipes_eq)
  have "dependency_graph (pipeline_env t) \<subseteq> {(''//a:lib'', ''//a:bin'')}"
    by (auto simp: dependency_graph_def rule_deps_def pipeline_recipes_eq)
  then have "acyclic (dependency_graph (pipeline_env t))"
    by (rule acyclic_subset [rotated]) (simp add: acyclic_insert wf_acyclic)
  moreover have "recipes_closed (pipeline_env t)" using rules by (simp add: recipes_closed_def static_digest_def)
  ultimately show ?thesis
    by (simp add: evaluable_def targets_named_def)
      (simp add: pipeline_recipes_eq sample_recipes_def sample_targets_def RECIPE_VERSION_def)
qed

definition pipeline_lib :: "tree_index \<Rightarrow> bytes \<times> bytes" where
  "pipeline_lib t = (let direct = sha256_ref (replicate 30 0 @ [0x49, 0x20] @ pipeline_source t) in (sha256_ref direct, direct))"

definition pipeline_bin :: "tree_index \<Rightarrow> bytes \<times> bytes" where
  "pipeline_bin t = (let direct = sha256_ref (replicate 30 0 @ [0x47, 0x19]) in (sha256_ref (fst (pipeline_lib t) @ direct), direct))"

lemma pipeline_lib_sem: "rule_sem (pipeline_env t) ''//a:lib'' (pipeline_lib t)"
  using rule_sem.intros [of "pipeline_env t" "''//a:lib''" _ "replicate 30 0 @ [0x49, 0x20]" "[pipeline_source t]" "[]"]
  by (simp add: pipeline_rules static_digest_def pipeline_lib_def Let_def)

lemma pipeline_bin_sem: "rule_sem (pipeline_env t) ''//a:bin'' (pipeline_bin t)"
  using rule_sem.intros [of "pipeline_env t" "''//a:bin''" _ "replicate 30 0 @ [0x47, 0x19]" "[]" "[pipeline_lib t]"]
  by (simp add: pipeline_rules static_digest_def pipeline_bin_def Let_def pipeline_lib_sem)

lemma pipeline_sem_iff [simp]:
  "rule_sem (pipeline_env t) ''//a:lib'' v \<longleftrightarrow> v = pipeline_lib t"
  "rule_sem (pipeline_env t) ''//a:bin'' v \<longleftrightarrow> v = pipeline_bin t"
  using pipeline_lib_sem pipeline_bin_sem by (metis rule_sem_functional)+

definition pipeline_preimages :: "tree_index \<Rightarrow> bytes list" where
  "pipeline_preimages t =
     [replicate 30 0 @ [0x47, 0x19], replicate 30 0 @ [0x49, 0x20] @ pipeline_source t,
      snd (pipeline_lib t), fst (pipeline_lib t) @ snd (pipeline_bin t)]"

lemma pipeline_deps_sem: "list_all2 (rule_sem (pipeline_env t)) [''//a:lib''] dvs \<longleftrightarrow> dvs = [pipeline_lib t]"
  by (cases dvs) auto

lemma rule_preimages_pipeline: "rule_preimages (pipeline_env t) \<subseteq> set (pipeline_preimages t)"
  unfolding rule_preimages_def pipeline_preimages_def
  by (clarsimp simp: pipeline_rules static_digest_def) (auto simp: pipeline_deps_sem eq_commute [of "(_, _)"] simp del: list_all2_Cons)

lemma pipeline_seed: "subinclude_seed crates_ref pipeline_recipes lbl = subinclude_seed crates_ref sample_recipes lbl"
proof -
  have "source_subincludes pipeline_recipes = source_subincludes sample_recipes" "package_subincludes pipeline_recipes = package_subincludes sample_recipes"
    by (simp_all add: pipeline_recipes_eq)
  then show ?thesis by (simp only: subinclude_seed_def subincludes_def)
qed

lemma pipeline_source_digests:
  "pipeline_source sample_tree = replicate 30 0 @ [45, 109]" "pipeline_source sample_tree_edited = replicate 30 0 @ [45, 222]"
  using sample_source_digests by (simp_all only: pipeline_source_def pipeline_seed sample_source_def)

lemma pipeline_separates:
  "separates sha256_ref (pipeline_preimages sample_tree @ pipeline_preimages sample_tree_edited)"
  by (simp add: separates_def pipeline_preimages_def sha256_ref_eq_iff pipeline_lib_def Let_def
      pipeline_bin_def sha256_ref_def ref_checksum_def ref_checksum_blocks pipeline_source_digests
      del: fold_replicate)

lemma pipeline_no_collision: "no_collision crates_ref pipeline_recipes sample_targets sample_tree sample_tree_edited"
proof -
  have "inj_on sha256_ref (rule_preimages (pipeline_env sample_tree) \<union> rule_preimages (pipeline_env sample_tree_edited))"
    by (rule separates_inj_on [OF pipeline_separates]) (use rule_preimages_pipeline in auto)
  moreover have "source_preimages crates_ref pipeline_recipes sample_targets t = source_preimages crates_ref sample_recipes sample_targets t" for t
    by (simp add: source_preimages_def pipeline_seed)
  ultimately show ?thesis using sample_no_collision by (simp add: no_collision_def)
qed


lemma pipeline_kinds:
  assumes "map (\<lambda>(key, knd, _). (key, knd)) ds = sample_targets"
  shows "kinds_of (fst (aggregate_by_label c track ds)) = sample_targets"
proof -
  obtain d1 d2 d3 where ds: "ds = [(''//a:bin'', ''Rule'', d1), (''//a:lib'', ''Rule'', d2), (''//a:x.txt'', ''SourceFile'', d3)]"
    using assms by (auto simp: sample_targets_def map_eq_Cons_conv)
  have lbls: "target_label ''//a:bin'' = ''//a:bin''" "target_label ''//a:lib'' = ''//a:lib''" "target_label ''//a:x.txt'' = ''//a:x.txt''"
    by code_simp+
  show ?thesis
    by (simp add: ds aggregate_by_label_def aggregate_sorted_def label_hash_def instance_hashes_def instance_label_def lbls bt_of_list_def
        bt_extend_def kinds_of_def sample_targets_def)
qed

lemma pipeline_run:
  obtains base where "hash_targets_with_environment (pipeline_inputs crates_ref) pipeline_query [] = Inr base"
    "partial base = Some pipeline_recipes" "kinds_of (hashes base) = sample_targets"
proof -
  have "pipeline_walk crates_ref = Some (pipeline_recipes, sample_targets)"
    using pipeline_walk_value [of "\<lambda>x. pipeline_walk crates_ref = x" crates_ref] by (simp add: pipeline_recipes_def)
  then obtain cx ds cx' rec where w: "prepare_context (pipeline_inputs crates_ref) (pipeline_build crates_ref) = Inr cx"
      "hash_all (walk_env_of (pipeline_inputs crates_ref) (replicate 32 5) []) (sort_key hash_target_label (bd_targets (pipeline_build crates_ref))) cx = (Inr ds, cx')"
      "cx_recorder cx' = Some rec" "finish rec = pipeline_recipes" "map (\<lambda>(key, knd, _). (key, knd)) ds = sample_targets"
    by (auto simp: pipeline_walk_def split: sum.splits prod.splits)
  obtain hs where hs: "evaluate crates_ref pipeline_recipes sample_targets sample_tree = Inr hs"
    using evaluate_returns [OF pipeline_evaluable] by blast
  have stacks: "\<not> has_instantiation_stacks pipeline_query" "package_subinclude_sets pipeline_query = []" by code_simp+
  have inp: "hi_crates (pipeline_inputs crates_ref) = crates_ref" "hi_seed_files (pipeline_inputs crates_ref) = Inr (replicate 32 5)"
    "partial_tree (hi_options (pipeline_inputs crates_ref)) = Some sample_tree" "\<not> use_cquery (bazel_opts (hi_options (pipeline_inputs crates_ref)))"
    by (simp_all add: pipeline_inputs_def sample_hash_inputs_def sample_options_def)
  have "\<exists>base. hash_targets_with_environment (pipeline_inputs crates_ref) pipeline_query [] = Inr base \<and> partial base = Some pipeline_recipes \<and> hashes base = hs"
    using w(1,2) hs
    by (simp add: hash_targets_with_environment_def inp stacks Let_def w(3-5) finish_generation_def pipeline_kinds case_prod_beta
        flip: pipeline_build_def)
  moreover have "kinds_of hs = sample_targets" using kinds_of_evaluate [OF hs] by simp
  ultimately show thesis using that by blast
qed

end
