(* ===== verification/Git.thy ===== *)
theory Git
  imports Classify
begin

section \<open>Git (git.rs)\<close>

text \<open>
  The operations of \<^verbatim>\<open>Git\<close> in \<^verbatim>\<open>src/git.rs\<close> that the server and the command line use: revisions and trees,
  the tree index, checking out, and the decision whether a revision can be derived from another.
  The git binary and the lock file are parameters that act on a world of any type, each call as the code
  makes it and in its order. Output is a byte string, so the lossy decoding is the identity; whitespace
  is that of ASCII.
\<close>

record git_output =
  go_success :: bool
  go_stdout :: string
  go_stderr :: string

record 'w git =
  git_path :: "string list \<Rightarrow> 'w \<Rightarrow> (string + git_output) \<times> 'w"
  git_workspace :: string
  git_lock_is_file :: "'w \<Rightarrow> bool"
  git_remove_lock :: "'w \<Rightarrow> (string + unit) \<times> 'w"
  git_canonicalize :: "string \<Rightarrow> string option"

datatype git_error =
    FailedToExecute string
  | GitFailed "string list" string
  | MissingRevision string
  | InvalidSha string string
  | MissingTree string
  | InvalidTree string string
  | CheckoutFailed string
  | LockNotRemoved string
  | BadDiff partial_error

definition git_out :: "'w git \<Rightarrow> string list \<Rightarrow> 'w \<Rightarrow> (git_error + git_output) \<times> 'w" where
  "git_out g args w =
     (case git_path g args w of
        (Inl msg, w') \<Rightarrow> (Inl (FailedToExecute msg), w')
      | (Inr out, w') \<Rightarrow> (Inr out, w'))"

definition git_stdout :: "'w git \<Rightarrow> string list \<Rightarrow> 'w \<Rightarrow> (git_error + string) \<times> 'w" where
  "git_stdout g args w =
     (case git_out g args w of
        (Inl err, w') \<Rightarrow> (Inl err, w')
      | (Inr out, w') \<Rightarrow> (if go_success out then Inr (go_stdout out) else Inl (GitFailed args (go_stderr out)), w'))"

definition git_run :: "'w git \<Rightarrow> string list \<Rightarrow> 'w \<Rightarrow> (git_error + unit) \<times> 'w" where
  "git_run g args w =
     (case git_stdout g args w of (Inl err, w') \<Rightarrow> (Inl err, w') | (Inr _, w') \<Rightarrow> (Inr (), w'))"

definition resolve_sha :: "'w git \<Rightarrow> string \<Rightarrow> 'w \<Rightarrow> (git_error + string) \<times> 'w" where
  "resolve_sha g revision w =
     (case git_out g [''rev-parse'', ''--verify'', revision @ ''^{commit}''] w of
        (Inl err, w') \<Rightarrow> (Inl err, w')
      | (Inr out, w') \<Rightarrow>
          (if \<not> go_success out then Inl (MissingRevision revision)
           else let sha = str_trim (go_stdout out)
                in if length sha \<noteq> 40 then Inl (InvalidSha revision sha) else Inr sha, w'))"

definition resolve_tree :: "'w git \<Rightarrow> string \<Rightarrow> 'w \<Rightarrow> (git_error + string) \<times> 'w" where
  "resolve_tree g revision w =
     (case git_out g [''rev-parse'', ''--verify'', revision @ ''^{tree}''] w of
        (Inl err, w') \<Rightarrow> (Inl err, w')
      | (Inr out, w') \<Rightarrow>
          (if \<not> go_success out then Inl (MissingTree revision)
           else let t = str_trim (go_stdout out)
                in if length t \<noteq> 40 then Inl (InvalidTree revision t) else Inr t, w'))"

definition git_tree_index :: "'w git \<Rightarrow> string \<Rightarrow> 'w \<Rightarrow> (git_error + tree_index) \<times> 'w" where
  "git_tree_index g revision w =
     (case resolve_tree g revision w of
        (Inl err, w1) \<Rightarrow> (Inl err, w1)
      | (Inr t, w1) \<Rightarrow>
          (case git_stdout g [''ls-tree'', ''-r'', ''-z'', t] w1 of
             (Inl err, w2) \<Rightarrow> (Inl err, w2)
           | (Inr out, w2) \<Rightarrow> (Inr (with_id (parse_ls_tree out) t), w2)))"

definition git_show :: "'w git \<Rightarrow> string \<Rightarrow> string \<Rightarrow> 'w \<Rightarrow> (git_error + string) \<times> 'w" where
  "git_show g revision p = git_stdout g [''show'', revision @ '':'' @ p]"

definition checkout_args :: "string \<Rightarrow> string list" where
  "checkout_args sha = [''-c'', ''advice.detachedHead=false'', ''checkout'', ''--force'', sha]"

text \<open>The first test of \<^verbatim>\<open>checkout\<close>: nothing to do when \<^verbatim>\<open>HEAD\<close> is the revision already.\<close>

definition head_is :: "'w git \<Rightarrow> string \<Rightarrow> 'w \<Rightarrow> bool \<times> 'w" where
  "head_is g sha w =
     (case git_out g [''rev-parse'', ''HEAD''] w of
        (Inl _, w') \<Rightarrow> (False, w')
      | (Inr out, w') \<Rightarrow> (go_success out \<and> str_trim (go_stdout out) = sha, w'))"

definition git_checkout :: "'w git \<Rightarrow> string \<Rightarrow> 'w \<Rightarrow> (git_error + unit) \<times> 'w" where
  "git_checkout g sha w =
     (case head_is g sha w of
        (True, w1) \<Rightarrow> (Inr (), w1)
      | (False, w1) \<Rightarrow>
          (case git_run g (checkout_args sha) w1 of
             (Inr _, w2) \<Rightarrow> (Inr (), w2)
           | (Inl _, w2) \<Rightarrow>
               if \<not> git_lock_is_file g w2 then (Inl (CheckoutFailed sha), w2)
               else (case git_remove_lock g w2 of
                       (Inl msg, w3) \<Rightarrow> (Inl (LockNotRemoved msg), w3)
                     | (Inr _, w3) \<Rightarrow> git_run g (checkout_args sha) w3)))"

subsection \<open>Deriving a revision from another\<close>

record derivation_policy =
  dp_seed_filepaths :: "string list"
  dp_rebuild_patterns :: "string list"

fun module_references :: "'w git \<Rightarrow> string \<Rightarrow> tree_index \<Rightarrow> string list \<Rightarrow> string list \<Rightarrow> 'w \<Rightarrow> (git_error + string list) \<times> 'w" where
  "module_references g revision t [] acc w = (Inr (bs_of_list acc), w)"
| "module_references g revision t (file # files) acc w =
     (if tree_get t file = None then module_references g revision t files acc w
      else case git_show g revision file w of
             (Inl err, w') \<Rightarrow> (Inl err, w')
           | (Inr txt, w') \<Rightarrow> module_references g revision t files (acc @ referenced_main_repo_paths txt) w')"

definition classify_revisions ::
  "'w git \<Rightarrow> string \<Rightarrow> string \<Rightarrow> hash_file_data \<Rightarrow> tree_index \<Rightarrow> derivation_policy \<Rightarrow> 'w \<Rightarrow> (git_error + classification) \<times> 'w" where
  "classify_revisions g base_revision revision base t policy w =
     (case git_stdout g [''diff'', ''--raw'', ''--no-renames'', ''-z'', base_revision, revision] w of
        (Inl err, w1) \<Rightarrow> (Inl err, w1)
      | (Inr out, w1) \<Rightarrow>
     (case parse_diff_raw out of
        Inl err \<Rightarrow> (Inl (BadDiff err), w1)
      | Inr diff \<Rightarrow>
     (case module_references g revision t MODULE_FILES [] w1 of
        (Inl err, w2) \<Rightarrow> (Inl err, w2)
      | (Inr refs, w2) \<Rightarrow>
          (Inr (classify (git_canonicalize g)
             \<lparr>ci_diff = diff, ci_tree = t, ci_base = base, ci_workspace = git_workspace g, ci_seed_filepaths = dp_seed_filepaths policy,
              ci_rebuild_patterns = dp_rebuild_patterns policy, ci_module_referenced = refs\<rparr>), w2))))"

subsection \<open>Checking out\<close>

text \<open>
  What git documents, for an observer \<open>head\<close> of the checked-out revision: \<^verbatim>\<open>rev-parse HEAD\<close> prints it, a
  successful \<^verbatim>\<open>checkout\<close> moves it to the revision, a failed one and a removed lock leave it.
\<close>

definition git_heads :: "'w git \<Rightarrow> ('w \<Rightarrow> string) \<Rightarrow> bool" where
  "git_heads g head \<longleftrightarrow>
     (\<forall>w out w'. git_path g [''rev-parse'', ''HEAD''] w = (out, w') \<longrightarrow>
        head w' = head w \<and> (\<forall>o'. out = Inr o' \<longrightarrow> go_success o' \<longrightarrow> str_trim (go_stdout o') = head w)) \<and>
     (\<forall>sha w out w'. git_path g (checkout_args sha) w = (out, w') \<longrightarrow>
        head w' = (if \<exists>o'. out = Inr o' \<and> go_success o' then sha else head w)) \<and>
     (\<forall>w r w'. git_remove_lock g w = (r, w') \<longrightarrow> head w' = head w)"

lemma git_run_head:
  assumes "git_heads g head" "git_run g (checkout_args sha) w = (r, w')"
  shows "head w' = (if r = Inr () then sha else head w)"
proof -
  obtain out w1 where p: "git_path g (checkout_args sha) w = (out, w1)" by force
  have "head w1 = (if \<exists>o'. out = Inr o' \<and> go_success o' then sha else head w)"
    using assms(1) p unfolding git_heads_def by blast
  then show ?thesis using assms(2) p
    by (cases out) (auto simp: git_run_def git_stdout_def git_out_def split: if_splits)
qed

lemma head_is_head:
  assumes "git_heads g head" "head_is g sha w = (b, w')"
  shows "head w' = head w" "b \<Longrightarrow> head w = sha"
proof -
  obtain out w1 where p: "git_path g [''rev-parse'', ''HEAD''] w = (out, w1)" by force
  have h: "head w1 = head w" "\<And>o'. out = Inr o' \<Longrightarrow> go_success o' \<Longrightarrow> str_trim (go_stdout o') = head w"
    using assms(1) p unfolding git_heads_def by blast+
  show "head w' = head w" "b \<Longrightarrow> head w = sha"
    using assms(2) p h by (cases out; auto simp: head_is_def git_out_def)+
qed

lemma git_checkout_head:
  assumes "git_heads g head" "git_checkout g sha w = (r, w')"
  shows "r = Inr () \<Longrightarrow> head w' = sha" "r \<noteq> Inr () \<Longrightarrow> head w' = head w"
proof -
  obtain b w1 where h: "head_is g sha w = (b, w1)" by force
  note h1 = head_is_head [OF assms(1) h]
  obtain r2 w2 where c: "git_run g (checkout_args sha) w1 = (r2, w2)" by force
  note c2 = git_run_head [OF assms(1) c]
  obtain r3 w3 where l: "git_remove_lock g w2 = (r3, w3)" by force
  have l3: "head w3 = head w2" using assms(1) l unfolding git_heads_def by blast
  obtain r4 w4 where c': "git_run g (checkout_args sha) w3 = (r4, w4)" by force
  note c4 = git_run_head [OF assms(1) c']
  show "r = Inr () \<Longrightarrow> head w' = sha" "r \<noteq> Inr () \<Longrightarrow> head w' = head w"
    using assms(2) h h1 c c2 l l3 c' c4
    by (cases b; cases r2; cases r3; auto simp: git_checkout_def split: if_splits)+
qed

text \<open>
  When checking out returns, the working tree is at the revision, whether it was there already, the first
  attempt succeeded, or a stale lock had to be cleared; when it fails, the working tree is where it was.
\<close>

theorem checkout_lands:
  assumes "git_heads g head" "git_checkout g sha w = (r, w')"
  shows "head w' = (if r = Inr () then sha else head w)"
  using git_checkout_head [OF assms] by simp

lemma git_tree_index_id:
  assumes "git_tree_index g revision w = (Inr t, w')"
  shows "\<exists>i. tree_id t = Some i \<and> length i = 40 \<and> resolve_tree g revision w = (Inr i, snd (resolve_tree g revision w))"
proof -
  obtain i w1 where r: "resolve_tree g revision w = (Inr i, w1)"
    using assms by (auto simp: git_tree_index_def split: prod.splits sum.splits)
  then have "length i = 40" by (auto simp: resolve_tree_def Let_def split: prod.splits sum.splits if_splits)
  then show ?thesis using assms r by (auto simp: git_tree_index_def with_id_def split: prod.splits sum.splits)
qed

subsection \<open>A repository with a stale lock\<close>

text \<open>The world says whether the second of two revisions is checked out and whether a lock is there.\<close>

definition sample_head :: "bool \<times> bool \<Rightarrow> string" where
  "sample_head w = (if fst w then ''b'' else ''a'')"

definition sample_git :: "(bool \<times> bool) git" where
  "sample_git = \<lparr>git_path = (\<lambda>args w.
       if args = [''rev-parse'', ''HEAD''] then (Inr \<lparr>go_success = True, go_stdout = sample_head w @ [CHR 0x0A], go_stderr = ''''\<rparr>, w)
       else if \<not> snd w \<and> args = checkout_args ''a'' then (Inr \<lparr>go_success = True, go_stdout = '''', go_stderr = ''''\<rparr>, (False, False))
       else if \<not> snd w \<and> args = checkout_args ''b'' then (Inr \<lparr>go_success = True, go_stdout = '''', go_stderr = ''''\<rparr>, (True, False))
       else (Inr \<lparr>go_success = False, go_stdout = '''', go_stderr = ''locked''\<rparr>, w)),
     git_workspace = ''/w'', git_lock_is_file = snd, git_remove_lock = (\<lambda>w. (Inr (), (fst w, False))), git_canonicalize = Some\<rparr>"

lemma sample_git_heads: "git_heads sample_git sample_head"
proof -
  have "str_trim (sample_head w @ [CHR 0x0A]) = sample_head w" for w
    by (simp add: sample_head_def str_trim_def is_whitespace_def)
  then show ?thesis
    by (auto simp: git_heads_def sample_git_def checkout_args_def sample_head_def split: if_splits)
qed

theorem checkout_lands_witness:
  "fst (git_checkout sample_git ''b'' (False, True)) = Inr () \<and> sample_head (snd (git_checkout sample_git ''b'' (False, True))) = ''b''"
proof -
  have "fst (git_checkout sample_git ''b'' (False, True)) = Inr ()" by code_simp
  then show ?thesis using checkout_lands [OF sample_git_heads surjective_pairing, of "''b''" "(False, True)"] by simp
qed

end
