(* ===== verification/Tracked_Packages.thy ===== *)
theory Tracked_Packages
  imports Tree_Index
begin

section \<open>Packages the revision does not track (server.rs)\<close>

text \<open>
  \<^verbatim>\<open>untracked_packages\<close> and \<^verbatim>\<open>below_symlink_or_submodule\<close> of \<^verbatim>\<open>src/server.rs\<close>: which packages of an answer were
  loaded from files the revision does not have. A loop over the end of a path prefix is a recursion on that end.
\<close>

definition label_packages :: "label list \<Rightarrow> string list" where
  "label_packages lbls =
     bs_of_list (map (\<lambda>lbl. let p = drop 2 lbl in case split_once (CHR '':'') p of None \<Rightarrow> p | Some (package, _) \<Rightarrow> package)
       (filter (\<lambda>lbl. starts_with ''//'' lbl \<and> \<not> starts_with ''//external:'' lbl) lbls))"

text \<open>\<^verbatim>\<open>package[end..].find('/').map_or(package.len(), |offset| end + offset)\<close>.\<close>

definition next_end :: "string \<Rightarrow> nat \<Rightarrow> nat" where
  "next_end package e = e + length (takeWhile (\<lambda>ch. ch \<noteq> CHR ''/'') (drop e package))"

definition links_elsewhere :: "tree_index \<Rightarrow> string \<Rightarrow> bool" where
  "links_elsewhere tree p \<longleftrightarrow>
     (case tree_get tree p of None \<Rightarrow> False | Some entry \<Rightarrow> entry_kind entry = Symlink \<or> entry_kind entry = Submodule)"

function below_from :: "string \<Rightarrow> tree_index \<Rightarrow> nat \<Rightarrow> bool" where
  "below_from package tree e =
     (if e < length package then
        (if links_elsewhere tree (take (next_end package e) package) then True
         else below_from package tree (next_end package e + 1))
      else False)"
  by auto
termination
  by (relation "measure (\<lambda>(package, tree, e). length package - e)") (auto simp: next_end_def)

declare below_from.simps [simp del]

definition below_symlink_or_submodule :: "string \<Rightarrow> tree_index \<Rightarrow> bool" where
  "below_symlink_or_submodule package tree = below_from package tree 0"

definition build_file :: "string \<Rightarrow> string \<Rightarrow> string" where
  "build_file package name = (if package = [] then name else package @ ''/'' @ name)"

definition untracked_packages :: "label list \<Rightarrow> tree_index \<Rightarrow> string list" where
  "untracked_packages lbls tree =
     filter (\<lambda>package. tree_get tree (build_file package ''BUILD'') = None \<and> tree_get tree (build_file package ''BUILD.bazel'') = None \<and>
         \<not> below_symlink_or_submodule package tree) (label_packages lbls)"

subsection \<open>What the loop decides\<close>

lemma next_end_bounds: "e \<le> length package \<Longrightarrow> e \<le> next_end package e \<and> next_end package e \<le> length package"
  using length_takeWhile_le [of "\<lambda>ch. ch \<noteq> CHR ''/''" "drop e package"] by (auto simp: next_end_def)

lemma next_end_stop: "e \<le> length package \<Longrightarrow> next_end package e < length package \<Longrightarrow> package ! next_end package e = CHR ''/''"
proof -
  assume e: "e \<le> length package" "next_end package e < length package"
  then have "length (takeWhile (\<lambda>ch. ch \<noteq> CHR ''/'') (drop e package)) < length (drop e package)" by (auto simp: next_end_def)
  from nth_length_takeWhile [OF this] show ?thesis using e(1) by (simp add: next_end_def)
qed

lemma next_end_first: "e \<le> k \<Longrightarrow> k < next_end package e \<Longrightarrow> e \<le> length package \<Longrightarrow> package ! k \<noteq> CHR ''/''"
proof -
  assume k: "e \<le> k" "k < next_end package e" "e \<le> length package"
  let ?t = "takeWhile (\<lambda>ch. ch \<noteq> CHR ''/'') (drop e package)"
  have j: "k - e < length ?t" using k by (simp add: next_end_def)
  have "?t ! (k - e) \<noteq> CHR ''/''" using set_takeWhileD [OF nth_mem [OF j]] by blast
  moreover have "?t ! (k - e) = drop e package ! (k - e)" by (rule takeWhile_nth [OF j])
  ultimately show ?thesis using k by simp
qed

text \<open>The ends the loop visits are those of the ancestors, and of a package that does not end in a slash.\<close>

definition stop_at :: "string \<Rightarrow> nat \<Rightarrow> bool" where
  "stop_at package k \<longleftrightarrow>
     k < length package \<and> package ! k = CHR ''/'' \<or> k = length package \<and> package \<noteq> [] \<and> last package \<noteq> CHR ''/''"

lemma stop_at_next:
  assumes "e < length package" "e \<le> k" "stop_at package k" "k \<noteq> next_end package e"
  shows "next_end package e + 1 \<le> k \<and> next_end package e + 1 < length package"
proof -
  let ?n = "next_end package e"
  have n: "e \<le> ?n" "?n \<le> length package" using next_end_bounds [of e package] assms(1) by auto
  have "\<not> k < ?n" using next_end_first [of e k package] assms n by (auto simp: stop_at_def)
  then have k: "?n < k" using assms(4) by simp
  then have "?n < length package" using assms(3) by (auto simp: stop_at_def)
  then have "package ! ?n = CHR ''/''" using next_end_stop [of e package] assms(1) by simp
  then have "?n \<noteq> length package - 1" if "last package \<noteq> CHR ''/''" "package \<noteq> []" using that by (auto simp: last_conv_nth)
  then show ?thesis using k assms(3) by (auto simp: stop_at_def)
qed

lemma stop_at_next_end:
  assumes "e < length package"
  shows "stop_at package (next_end package e)"
proof (cases "next_end package e < length package")
  case True
  then show ?thesis using next_end_stop [of e package] assms by (simp add: stop_at_def)
next
  case False
  then have n: "next_end package e = length package" using next_end_bounds [of e package] assms by simp
  have "package ! (length package - 1) \<noteq> CHR ''/''" by (rule next_end_first [of e]) (use n assms in auto)
  moreover have "package \<noteq> []" using assms by auto
  ultimately show ?thesis using n by (simp add: stop_at_def last_conv_nth)
qed

lemma below_from_iff:
  "below_from package tree e \<longleftrightarrow> e < length package \<and> (\<exists>k \<ge> e. stop_at package k \<and> links_elsewhere tree (take k package))"
proof (induction package tree e rule: below_from.induct)
  case (1 package tree e)
  show ?case
  proof (cases "e < length package")
    case True
    let ?n = "next_end package e"
    have n: "e \<le> ?n" using next_end_bounds [of e package] True by simp
    show ?thesis
    proof (cases "links_elsewhere tree (take ?n package)")
      case True
      then show ?thesis using stop_at_next_end [of e package] n \<open>e < length package\<close> by (subst below_from.simps) auto
    next
      case False
      have "below_from package tree e \<longleftrightarrow> below_from package tree (?n + 1)"
        using False True by (subst below_from.simps) simp
      also have "\<dots> \<longleftrightarrow> (\<exists>k \<ge> e. stop_at package k \<and> links_elsewhere tree (take k package))"
        unfolding "1.IH" [OF True False]
      proof
        assume "?n + 1 < length package \<and> (\<exists>k \<ge> ?n + 1. stop_at package k \<and> links_elsewhere tree (take k package))"
        then show "\<exists>k \<ge> e. stop_at package k \<and> links_elsewhere tree (take k package)" using n by (meson add_leD1 order_trans)
      next
        assume "\<exists>k \<ge> e. stop_at package k \<and> links_elsewhere tree (take k package)"
        then obtain k where k: "e \<le> k" "stop_at package k" "links_elsewhere tree (take k package)" by blast
        then have "k \<noteq> ?n" using False by blast
        then show "?n + 1 < length package \<and> (\<exists>k \<ge> ?n + 1. stop_at package k \<and> links_elsewhere tree (take k package))"
          using stop_at_next [OF True k(1,2)] k by blast
      qed
      finally show ?thesis using True by simp
    qed
  qed (subst below_from.simps, simp)
qed

text \<open>The package or a directory above it, as paths.\<close>

definition ancestor_or_self :: "string \<Rightarrow> string \<Rightarrow> bool" where
  "ancestor_or_self p package \<longleftrightarrow> p = package \<and> package \<noteq> [] \<and> last package \<noteq> CHR ''/'' \<or> (\<exists>rest. package = p @ CHR ''/'' # rest)"

lemma below_symlink_or_submodule_iff:
  "below_symlink_or_submodule package tree \<longleftrightarrow> (\<exists>p. ancestor_or_self p package \<and> links_elsewhere tree p)"
proof -
  have "(\<exists>k. stop_at package k \<and> p = take k package) \<longleftrightarrow> ancestor_or_self p package" for p
  proof
    assume "\<exists>k. stop_at package k \<and> p = take k package"
    then obtain k where k: "stop_at package k" "p = take k package" by blast
    show "ancestor_or_self p package"
    proof (cases "k < length package")
      case True
      then have "package = p @ CHR ''/'' # drop (Suc k) package" using k id_take_nth_drop [OF True] by (simp add: stop_at_def)
      then show ?thesis by (auto simp: ancestor_or_self_def)
    next
      case False
      then show ?thesis using k by (auto simp: ancestor_or_self_def stop_at_def)
    qed
  next
    assume "ancestor_or_self p package"
    then consider "p = package" "package \<noteq> []" "last package \<noteq> CHR ''/''" | rest where "package = p @ CHR ''/'' # rest"
      by (auto simp: ancestor_or_self_def)
    then show "\<exists>k. stop_at package k \<and> p = take k package"
    proof cases
      case 1
      then show ?thesis by (intro exI [of _ "length package"]) (simp add: stop_at_def)
    next
      case 2
      then show ?thesis by (intro exI [of _ "length p"]) (simp add: stop_at_def)
    qed
  qed
  moreover have "package \<noteq> []" if "stop_at package k" for k using that by (auto simp: stop_at_def)
  ultimately show ?thesis unfolding below_symlink_or_submodule_def below_from_iff by (metis le0 length_greater_0_conv)
qed

text \<open>
  The packages reported are exactly those of main-repository labels that have neither \<^verbatim>\<open>BUILD\<close> nor
  \<^verbatim>\<open>BUILD.bazel\<close> in the tree and lie at or below no symbolic link or submodule of it; each once, in order.
\<close>

theorem untracked_packages_spec:
  "set (untracked_packages lbls tree) =
     {package \<in> set (label_packages lbls).
        tree_get tree (build_file package ''BUILD'') = None \<and> tree_get tree (build_file package ''BUILD.bazel'') = None \<and>
        \<not> (\<exists>p. ancestor_or_self p package \<and> links_elsewhere tree p)} \<and>
   sorted_wrt (<) (untracked_packages lbls tree)"
  by (auto simp: untracked_packages_def below_symlink_or_submodule_iff label_packages_def sorted_wrt_filter)

end
