(* ===== verification/Service.thy ===== *)
theory Service
  imports Git Tracked_Packages Memory_Cache Cache_Key Hash_Targets
begin

section \<open>Retrieving hashes through the cache tiers (server.rs)\<close>

text \<open>
  \<^verbatim>\<open>get_hashes_locked\<close> of \<^verbatim>\<open>src/server.rs\<close> with the tiers it goes through: memory, the cache directory and the
  shared store, the guard on dependency fingerprints, the derivation from a base, and the full generation.
  Git, Bazel, the JSON text, gzip and whether a file or object can be read or written are parameters;
  they see and change a world of any type. A hit refreshes the file's time, kept as a log of touched
  names. Timings and log lines are left out.
\<close>

record service_config =
  sc_options :: hash_options
  sc_track_deps :: bool
  sc_dependency_fingerprint :: bool
  sc_partial_graph :: bool
  sc_rebuild_patterns :: "string list"
  sc_allow_untracked_packages :: bool

datatype fetched = Found bytes | Missing | Failed

record 'w service_env =
  se_crates :: crates
  se_config :: service_config
  se_fingerprint :: string
  se_git :: "'w git"
  se_parse :: "bytes \<Rightarrow> json option"
  se_print :: "json \<Rightarrow> bytes"
  se_gzip :: "bytes \<Rightarrow> bytes option"
  se_gunzip :: "bytes \<Rightarrow> bytes option"
  se_readable :: "string \<Rightarrow> 'w \<Rightarrow> bool"
  se_writable :: "string \<Rightarrow> 'w \<Rightarrow> bool"
  se_fetchable :: "string \<Rightarrow> 'w \<Rightarrow> bool"
  se_storable :: "string \<Rightarrow> 'w \<Rightarrow> bool"
  se_discover :: "hash_options \<Rightarrow> 'w \<Rightarrow> (string + hash_inputs \<times> qtarget list \<times> (string \<times> prepared_rule) list) \<times> 'w"
  se_workspace_fingerprint :: "'w \<Rightarrow> (string + string) \<times> 'w"
  se_cancelled :: "'w \<Rightarrow> bool"

record 'w service =
  sv_memory :: "hash_file_data memory_cache"
  sv_disk :: "(string, bytes) btree"
  sv_remote :: "(string, bytes) btree option"
  sv_world :: 'w
  sv_touched :: "string list"
  sv_partial_derived :: nat
  sv_partial_rebuilds :: nat
  sv_untracked_rejections :: nat

datatype service_error =
    GitError git_error
  | ReadFailed string
  | InvalidEntry model_error
  | WriteFailed string
  | IsolatedRootUnsupported
  | DiscoveryFailed string
  | HashingFailed hash_error
  | UntrackedPackages "string list"
  | QueryCancelled

record retrieval =
  rt_data :: hash_file_data
  rt_hit :: bool
  rt_mode :: "string option"

type_synonym ('w, 'a) served = "(service_error + 'a) \<times> string option \<times> 'w service"

subsection \<open>Names\<close>

definition COMPRESSED_SUFFIX :: string where
  "COMPRESSED_SUFFIX = ''.json.gz''"

definition PLAIN_SUFFIX :: string where
  "PLAIN_SUFFIX = ''.json''"

definition entry_path :: "string \<Rightarrow> string" where
  "entry_path key = key @ ''.json''"

definition temporary_path :: "string \<Rightarrow> string" where
  "temporary_path key = key @ ''.tmp''"

definition service_key :: "'w service_env \<Rightarrow> string \<Rightarrow> string list \<Rightarrow> string" where
  "service_key e t modified = cache_key (se_crates e) t (se_fingerprint e) modified"

subsection \<open>The shared store\<close>

definition remote_fetch :: "'w service_env \<Rightarrow> string \<Rightarrow> (string, bytes) btree \<Rightarrow> 'w \<Rightarrow> fetched" where
  "remote_fetch e name store w =
     (if \<not> se_fetchable e name w then Failed
      else case bt_get store name of None \<Rightarrow> Missing | Some bs \<Rightarrow> Found bs)"

definition remote_get :: "'w service_env \<Rightarrow> string \<Rightarrow> (string, bytes) btree \<Rightarrow> 'w \<Rightarrow> bytes option" where
  "remote_get e key store w =
     (case remote_fetch e (key @ COMPRESSED_SUFFIX) store w of
        Found bs \<Rightarrow> se_gunzip e bs
      | Missing \<Rightarrow>
          (case remote_fetch e (key @ PLAIN_SUFFIX) store w of
             Found bs \<Rightarrow> Some bs
           | Missing \<Rightarrow> None
           | Failed \<Rightarrow> None)
      | Failed \<Rightarrow> None)"

definition remote_put :: "'w service_env \<Rightarrow> string \<Rightarrow> bytes \<Rightarrow> 'w \<Rightarrow> (string, bytes) btree \<Rightarrow> (string, bytes) btree" where
  "remote_put e key data w store =
     (case se_gzip e data of
        None \<Rightarrow> store
      | Some compressed \<Rightarrow>
          if se_storable e (key @ COMPRESSED_SUFFIX) w then bt_insert (key @ COMPRESSED_SUFFIX) compressed store else store)"

subsection \<open>The guard\<close>

definition checkout :: "'w service_env \<Rightarrow> string \<Rightarrow> 'w service \<Rightarrow> (service_error + unit) \<times> 'w service" where
  "checkout e sha s =
     (case git_checkout (se_git e) sha (sv_world s) of
        (Inl err, w) \<Rightarrow> (Inl (GitError err), s\<lparr>sv_world := w\<rparr>)
      | (Inr _, w) \<Rightarrow> (Inr (), s\<lparr>sv_world := w\<rparr>))"

text \<open>\<^verbatim>\<open>match dependency_fingerprint_for_workspace(state)\<close>: a failure is logged and gives no fingerprint.\<close>

definition workspace_fingerprint :: "'w service_env \<Rightarrow> 'w service \<Rightarrow> string option \<times> 'w service" where
  "workspace_fingerprint e s =
     (case se_workspace_fingerprint e (sv_world s) of
        (Inl _, w) \<Rightarrow> (None, s\<lparr>sv_world := w\<rparr>)
      | (Inr fp, w) \<Rightarrow> (Some fp, s\<lparr>sv_world := w\<rparr>))"

definition matches_fingerprint :: "'w service_env \<Rightarrow> string \<Rightarrow> hash_file_data \<Rightarrow> string option \<Rightarrow> 'w service \<Rightarrow> ('w, bool) served" where
  "matches_fingerprint e sha data cur s =
     (case dependency_fingerprint data of
        None \<Rightarrow> (Inr False, cur, s)
      | Some cached \<Rightarrow>
          (case cur of
             Some fp \<Rightarrow> (Inr (fp = cached), cur, s)
           | None \<Rightarrow>
               (case checkout e sha s of
                  (Inl err, s1) \<Rightarrow> (Inl err, None, s1)
                | (Inr _, s1) \<Rightarrow>
                    (case workspace_fingerprint e s1 of
                       (None, s2) \<Rightarrow> (Inr False, None, s2)
                     | (Some fp, s2) \<Rightarrow> (Inr (fp = cached), Some fp, s2)))))"

definition servable :: "'w service_env \<Rightarrow> string \<Rightarrow> hash_file_data \<Rightarrow> string option \<Rightarrow> 'w service \<Rightarrow> ('w, bool) served" where
  "servable e sha data cur s =
     (if \<not> sc_dependency_fingerprint (se_config e) then (Inr True, cur, s) else matches_fingerprint e sha data cur s)"

subsection \<open>The tiers\<close>

definition touch :: "string \<Rightarrow> 'w service \<Rightarrow> 'w service" where
  "touch p s = (if bt_get (sv_disk s) p = None then s else s\<lparr>sv_touched := sv_touched s @ [p]\<rparr>)"

definition remember :: "string \<Rightarrow> bytes \<Rightarrow> hash_file_data \<Rightarrow> 'w service \<Rightarrow> 'w service" where
  "remember key bs data s = s\<lparr>sv_memory := mc_insert key (length bs) data (sv_memory s)\<rparr>"

definition try_memory :: "'w service_env \<Rightarrow> string \<Rightarrow> string \<Rightarrow> string option \<Rightarrow> 'w service \<Rightarrow> ('w, hash_file_data option) served" where
  "try_memory e sha key cur s =
     (case mc_get key (sv_memory s) of
        (None, m) \<Rightarrow> (Inr None, cur, s\<lparr>sv_memory := m\<rparr>)
      | (Some data, m) \<Rightarrow>
          (case servable e sha data cur (s\<lparr>sv_memory := m\<rparr>) of
             (Inl err, cur', s') \<Rightarrow> (Inl err, cur', s')
           | (Inr ok, cur', s') \<Rightarrow> if ok then (Inr (Some data), cur', touch (entry_path key) s') else (Inr None, cur', s')))"

definition try_disk :: "'w service_env \<Rightarrow> string \<Rightarrow> string \<Rightarrow> string option \<Rightarrow> 'w service \<Rightarrow> ('w, hash_file_data option) served" where
  "try_disk e sha key cur s =
     (case bt_get (sv_disk s) (entry_path key) of
        None \<Rightarrow> (Inr None, cur, s)
      | Some bs \<Rightarrow>
     (if \<not> se_readable e (entry_path key) (sv_world s) then (Inl (ReadFailed (entry_path key)), cur, s)
      else case from_slice (se_parse e) bs of
        Inl err \<Rightarrow> (Inl (InvalidEntry err), cur, s)
      | Inr data \<Rightarrow>
          (case servable e sha data cur s of
             (Inl err, cur', s') \<Rightarrow> (Inl err, cur', s')
           | (Inr ok, cur', s') \<Rightarrow>
               if ok then (Inr (Some data), cur', remember key bs data (touch (entry_path key) s')) else (Inr None, cur', s'))))"

definition write_entry :: "'w service_env \<Rightarrow> string \<Rightarrow> bytes \<Rightarrow> 'w service \<Rightarrow> (service_error + unit) \<times> 'w service" where
  "write_entry e p bs s =
     (if se_writable e p (sv_world s) then (Inr (), s\<lparr>sv_disk := bt_insert p bs (sv_disk s)\<rparr>) else (Inl (WriteFailed p), s))"

definition try_remote :: "'w service_env \<Rightarrow> string \<Rightarrow> string \<Rightarrow> string option \<Rightarrow> 'w service \<Rightarrow> ('w, hash_file_data option) served" where
  "try_remote e sha key cur s =
     (case Option.bind (sv_remote s) (\<lambda>store. remote_get e key store (sv_world s)) of
        None \<Rightarrow> (Inr None, cur, s)
      | Some bs \<Rightarrow>
     (case from_slice (se_parse e) bs of
        Inl err \<Rightarrow> (Inl (InvalidEntry err), cur, s)
      | Inr data \<Rightarrow>
          (case servable e sha data cur s of
             (Inl err, cur', s') \<Rightarrow> (Inl err, cur', s')
           | (Inr ok, cur', s') \<Rightarrow>
               if ok then
                 (case write_entry e (entry_path key) bs s' of
                    (Inl err, s'') \<Rightarrow> (Inl err, cur', s'')
                  | (Inr _, s'') \<Rightarrow> (Inr (Some data), cur', remember key bs data s''))
               else (Inr None, cur', s'))))"

definition or_else :: "('w, 'a option) served \<Rightarrow> (string option \<Rightarrow> 'w service \<Rightarrow> ('w, 'a option) served) \<Rightarrow> ('w, 'a option) served" where
  "or_else r next =
     (case r of
        (Inr None, cur, s) \<Rightarrow> next cur s
      | _ \<Rightarrow> r)"

definition lookup :: "'w service_env \<Rightarrow> string \<Rightarrow> string \<Rightarrow> 'w service \<Rightarrow> ('w, hash_file_data option) served" where
  "lookup e sha key s = or_else (or_else (try_memory e sha key None s) (try_disk e sha key)) (try_remote e sha key)"

subsection \<open>Producing an entry\<close>

definition generate_hashes :: "'w service_env \<Rightarrow> hash_options \<Rightarrow> 'w \<Rightarrow> (service_error + hash_file_data) \<times> 'w" where
  "generate_hashes e options w =
     (if isolated_dependency_root (bazel_opts options) \<noteq> None \<and>
         (content_hash_map options \<noteq> None \<or> modified_filepaths options \<noteq> [] \<or> partial_tree options \<noteq> None)
      then (Inl IsolatedRootUnsupported, w)
      else case se_discover e options w of
             (Inl msg, w') \<Rightarrow> (Inl (DiscoveryFailed msg), w')
           | (Inr (hi, targets, definitions), w') \<Rightarrow>
               if se_cancelled e w' then (Inl QueryCancelled, w')
               else (case hash_targets_with_environment (hi\<lparr>hi_options := options\<rparr>) targets definitions of
                  Inl err \<Rightarrow> (Inl (HashingFailed err), w')
                | Inr data \<Rightarrow> (Inr data, w')))"

definition check_tracked_packages :: "'w service_env \<Rightarrow> hash_file_data \<Rightarrow> tree_index \<Rightarrow> 'w service \<Rightarrow> (service_error + unit) \<times> 'w service" where
  "check_tracked_packages e data t s =
     (let untracked = untracked_packages (map fst (hashes data)) t
      in if untracked = [] \<or> sc_allow_untracked_packages (se_config e) then (Inr (), s)
         else (Inl (UntrackedPackages untracked), s\<lparr>sv_untracked_rejections := sv_untracked_rejections s + 1\<rparr>))"

definition generate_full :: "'w service_env \<Rightarrow> string \<Rightarrow> hash_options \<Rightarrow> tree_index option \<Rightarrow> 'w service \<Rightarrow> (service_error + hash_file_data) \<times> 'w service" where
  "generate_full e sha options t s =
     (case checkout e sha s of
        (Inl err, s1) \<Rightarrow> (Inl err, s1)
      | (Inr _, s1) \<Rightarrow>
          (case generate_hashes e (if sc_partial_graph (se_config e) then options\<lparr>partial_tree := t\<rparr> else options) (sv_world s1) of
             (Inl err, w) \<Rightarrow> (Inl err, s1\<lparr>sv_world := w\<rparr>)
           | (Inr data, w) \<Rightarrow>
               (case t of
                  None \<Rightarrow> (Inr data, s1\<lparr>sv_world := w\<rparr>)
                | Some index \<Rightarrow>
                    (case check_tracked_packages e data index (s1\<lparr>sv_world := w\<rparr>) of
                       (Inl err, s2) \<Rightarrow> (Inl err, s2)
                     | (Inr _, s2) \<Rightarrow> (Inr data, s2)))))"

definition policy_of :: "service_config \<Rightarrow> derivation_policy" where
  "policy_of c = \<lparr>dp_seed_filepaths = seed_filepaths (sc_options c), dp_rebuild_patterns = sc_rebuild_patterns c\<rparr>"

definition classify_base :: "'w service_env \<Rightarrow> string \<Rightarrow> (string \<times> hash_file_data) option \<Rightarrow> tree_index \<Rightarrow> 'w service \<Rightarrow> (service_error + classification) \<times> 'w service" where
  "classify_base e sha base t s =
     (case base of
        None \<Rightarrow> (Inr (Rebuild ''no base revision to derive from''), s)
      | Some (base_sha, data) \<Rightarrow>
          if partial data = None then (Inr (Rebuild (''base entry '' @ base_sha @ '' carries no partial-graph recipes'')), s)
          else (case classify_revisions (se_git e) base_sha sha data t (policy_of (se_config e)) (sv_world s) of
                  (Inl err, w) \<Rightarrow> (Inl (GitError err), s\<lparr>sv_world := w\<rparr>)
                | (Inr cl, w) \<Rightarrow> (Inr cl, s\<lparr>sv_world := w\<rparr>)))"

definition derive_base :: "'w service_env \<Rightarrow> (string \<times> hash_file_data) option \<Rightarrow> tree_index \<Rightarrow> service_error + classification \<Rightarrow> hash_file_data option" where
  "derive_base e base t outcome =
     (case (outcome, base) of
        (Inr (Derivable _ _), Some (_, data)) \<Rightarrow>
          (case derive (se_crates e) data t of Inl _ \<Rightarrow> None | Inr d \<Rightarrow> Some d)
      | _ \<Rightarrow> None)"

definition attempt_derivation :: "'w service_env \<Rightarrow> string \<Rightarrow> (string \<times> hash_file_data) option \<Rightarrow> tree_index option \<Rightarrow> 'w service \<Rightarrow> hash_file_data option \<times> 'w service" where
  "attempt_derivation e sha base t s =
     (case t of
        None \<Rightarrow> (None, s)
      | Some index \<Rightarrow>
          if \<not> sc_partial_graph (se_config e) then (None, s)
          else (let (outcome, s1) = classify_base e sha base index s
                in case derive_base e base index outcome of
                     None \<Rightarrow> (None, s1\<lparr>sv_partial_rebuilds := sv_partial_rebuilds s1 + 1\<rparr>)
                   | Some d \<Rightarrow> (Some d, s1\<lparr>sv_partial_derived := sv_partial_derived s1 + 1\<rparr>)))"

text \<open>The tree index, when sources are hashed from git.\<close>

definition list_tree :: "'w service_env \<Rightarrow> string \<Rightarrow> string list \<Rightarrow> 'w service \<Rightarrow> (service_error + tree_index option) \<times> 'w service" where
  "list_tree e sha modified s =
     (if modified = [] \<and> content_hash_map (sc_options (se_config e)) = None then
        (case git_tree_index (se_git e) sha (sv_world s) of
           (Inl err, w) \<Rightarrow> (Inl (GitError err), s\<lparr>sv_world := w\<rparr>)
         | (Inr t, w) \<Rightarrow> (Inr (Some t), s\<lparr>sv_world := w\<rparr>))
      else (Inr None, s))"

definition options_for :: "'w service_env \<Rightarrow> string list \<Rightarrow> tree_index option \<Rightarrow> hash_options" where
  "options_for e modified t =
     (let options = (sc_options (se_config e))\<lparr>modified_filepaths := modified, track_deps := sc_track_deps (se_config e)\<rparr>
      in case t of None \<Rightarrow> options | Some index \<Rightarrow> options\<lparr>content_hash_map := Some (content_hashes index)\<rparr>)"

definition produce :: "'w service_env \<Rightarrow> string \<Rightarrow> string list \<Rightarrow> (string \<times> hash_file_data) option \<Rightarrow> 'w service \<Rightarrow> (service_error + hash_file_data) \<times> 'w service" where
  "produce e sha modified base s =
     (case list_tree e sha modified s of
        (Inl err, s1) \<Rightarrow> (Inl err, s1)
      | (Inr t, s1) \<Rightarrow>
          (case attempt_derivation e sha base t s1 of
             (Some d, s2) \<Rightarrow> (Inr d, s2)
           | (None, s2) \<Rightarrow> generate_full e sha (options_for e modified t) t s2))"

definition stamp :: "'w service_env \<Rightarrow> string option \<Rightarrow> hash_file_data \<Rightarrow> 'w service \<Rightarrow> hash_file_data \<times> 'w service" where
  "stamp e cur data s =
     (if sc_dependency_fingerprint (se_config e) \<and> dependency_fingerprint data = None then
        (case cur of
           Some fp \<Rightarrow> (data\<lparr>dependency_fingerprint := Some fp\<rparr>, s)
         | None \<Rightarrow> (case workspace_fingerprint e s of (fp, s') \<Rightarrow> (data\<lparr>dependency_fingerprint := fp\<rparr>, s')))
      else (data, s))"

text \<open>A temporary file is written and renamed; the shared store may refuse its copy.\<close>

definition store_entry :: "'w service_env \<Rightarrow> string \<Rightarrow> hash_file_data \<Rightarrow> 'w service \<Rightarrow> (service_error + unit) \<times> 'w service" where
  "store_entry e key data s =
     (let bs = se_print e (serialized (se_crates e) data True (sc_track_deps (se_config e)))
      in case write_entry e (temporary_path key) bs s of
           (Inl err, s1) \<Rightarrow> (Inl err, s1)
         | (Inr _, s1) \<Rightarrow>
             (if \<not> se_writable e (entry_path key) (sv_world s1) then (Inl (WriteFailed (entry_path key)), s1)
              else (let s2 = s1\<lparr>sv_disk := bt_insert (entry_path key) bs (filter (\<lambda>(name, _). name \<noteq> temporary_path key) (sv_disk s1))\<rparr>;
                        s3 = s2\<lparr>sv_remote := map_option (remote_put e key bs (sv_world s2)) (sv_remote s2)\<rparr>
                    in (Inr (), remember key bs data s3))))"

definition complete_miss :: "'w service_env \<Rightarrow> string \<Rightarrow> string \<Rightarrow> string list \<Rightarrow> (string \<times> hash_file_data) option \<Rightarrow> string option \<Rightarrow> 'w service \<Rightarrow> (service_error + retrieval) \<times> 'w service" where
  "complete_miss e sha key modified base cur s =
     (case produce e sha modified base s of
        (Inl err, s1) \<Rightarrow> (Inl err, s1)
      | (Inr data, s1) \<Rightarrow>
          if se_cancelled e (sv_world s1) then (Inl QueryCancelled, s1)
          else (let (data', s2) = stamp e cur data s1
                in case store_entry e key data' s2 of
                     (Inl err, s3) \<Rightarrow> (Inl err, s3)
                   | (Inr _, s3) \<Rightarrow>
                       (Inr \<lparr>rt_data = data', rt_hit = False,
                             rt_mode = (if sv_partial_derived s1 \<noteq> sv_partial_derived s then Some ''derived''
                                        else if sv_partial_rebuilds s1 \<noteq> sv_partial_rebuilds s then Some ''full'' else None)\<rparr>, s3)))"

definition get_hashes_locked :: "'w service_env \<Rightarrow> string \<Rightarrow> string list \<Rightarrow> (string \<times> hash_file_data) option \<Rightarrow> 'w service \<Rightarrow> (service_error + retrieval) \<times> 'w service" where
  "get_hashes_locked e sha modified base s =
     (case resolve_tree (se_git e) sha (sv_world s) of
        (Inl err, w) \<Rightarrow> (Inl (GitError err), s\<lparr>sv_world := w\<rparr>)
      | (Inr t, w) \<Rightarrow>
          (let key = service_key e t modified
           in case lookup e sha key (s\<lparr>sv_world := w\<rparr>) of
                (Inl err, _, s1) \<Rightarrow> (Inl err, s1)
              | (Inr (Some data), _, s1) \<Rightarrow> (Inr \<lparr>rt_data = data, rt_hit = True, rt_mode = None\<rparr>, s1)
              | (Inr None, cur, s1) \<Rightarrow> complete_miss e sha key modified base cur s1))"

end
