(* ===== verification/Service_Tiers.thy ===== *)
theory Service_Tiers
  imports Service
begin

section \<open>What the tiers hold\<close>

text \<open>
  The contract of a tier, and the invariant of the server's three tiers: whatever is true of every entry a
  revision produces is true of every entry held and served under its key. The states of a server are
  reached by requests, pruning and whatever else happens to the working tree.
\<close>

subsection \<open>The contract of a tier\<close>

locale tier =
  fixes holds :: "'s \<Rightarrow> string \<Rightarrow> 'd \<Rightarrow> bool" and put :: "string \<Rightarrow> 'b \<Rightarrow> 's \<Rightarrow> 's" and decodes :: "'b \<Rightarrow> 'd \<Rightarrow> bool"
  assumes put_only: "holds (put key b s) key' d \<Longrightarrow> holds s key' d \<or> key' = key \<and> decodes b d"
begin

lemma put_keeps:
  "(\<And>key d. holds s key d \<Longrightarrow> P key d) \<Longrightarrow> (\<And>d. decodes b d \<Longrightarrow> P key d) \<Longrightarrow> holds (put key b s) key' d' \<Longrightarrow> P key' d'"
  using put_only by blast

end

definition memory_holds :: "'d memory_cache \<Rightarrow> string \<Rightarrow> 'd \<Rightarrow> bool" where
  "memory_holds m key d \<longleftrightarrow> (\<exists>en \<in> set (mc_entries m). me_key en = key \<and> me_data en = d)"

definition disk_holds :: "(bytes \<Rightarrow> json option) \<Rightarrow> (string, bytes) btree \<Rightarrow> string \<Rightarrow> hash_file_data \<Rightarrow> bool" where
  "disk_holds parse disk key d \<longleftrightarrow> (\<exists>bs. bt_get disk (entry_path key) = Some bs \<and> from_slice parse bs = Inr d)"

definition remote_holds :: "'w service_env \<Rightarrow> (string, bytes) btree \<Rightarrow> string \<Rightarrow> hash_file_data \<Rightarrow> bool" where
  "remote_holds e store key d \<longleftrightarrow> (\<exists>w bs. remote_get e key store w = Some bs \<and> from_slice (se_parse e) bs = Inr d)"

lemma entry_path_inject [simp]: "entry_path key = entry_path key' \<longleftrightarrow> key = key'"
  by (simp add: entry_path_def)

lemma temporary_not_entry [simp]: "temporary_path key \<noteq> entry_path key'" "entry_path key' \<noteq> temporary_path key"
proof -
  have "last (temporary_path key) \<noteq> last (entry_path key')" by (simp add: temporary_path_def entry_path_def)
  then show "temporary_path key \<noteq> entry_path key'" "entry_path key' \<noteq> temporary_path key" by auto
qed

lemma suffixes_differ [simp]: "key @ COMPRESSED_SUFFIX \<noteq> key' @ PLAIN_SUFFIX" "key' @ PLAIN_SUFFIX \<noteq> key @ COMPRESSED_SUFFIX"
proof -
  have "last (key @ COMPRESSED_SUFFIX) \<noteq> last (key' @ PLAIN_SUFFIX)" by (simp add: COMPRESSED_SUFFIX_def PLAIN_SUFFIX_def)
  then show "key @ COMPRESSED_SUFFIX \<noteq> key' @ PLAIN_SUFFIX" "key' @ PLAIN_SUFFIX \<noteq> key @ COMPRESSED_SUFFIX" by auto
qed

lemma set_mc_evict: "set (snd (mc_evict budget bytes used es)) \<subseteq> set es"
  by (induction budget bytes used es rule: mc_evict.induct) auto

lemma set_mc_forget: "set (mc_entries (mc_forget key m)) \<subseteq> set (mc_entries m)"
  by (auto simp: mc_forget_def remove_at_def split: option.splits if_splits dest: in_set_takeD in_set_dropD)

lemma set_mc_insert: "set (mc_entries (mc_insert key bytes data m)) \<subseteq> insert \<lparr>me_key = key, me_bytes = bytes, me_data = data\<rparr> (set (mc_entries m))"
proof -
  obtain used kept where ev: "mc_evict (mc_budget (mc_forget key m)) bytes (mc_used (mc_forget key m)) (mc_entries (mc_forget key m)) = (used, kept)" by force
  have "set kept \<subseteq> set (mc_entries m)"
    using set_mc_evict [of "mc_budget (mc_forget key m)" bytes "mc_used (mc_forget key m)" "mc_entries (mc_forget key m)"] ev set_mc_forget [of key m] by auto
  then show ?thesis using ev by (auto simp: mc_insert_def Let_def)
qed

lemma set_mc_get: "mc_get key m = (r, m') \<Longrightarrow> set (mc_entries m') = set (mc_entries m)"
proof (cases "position (\<lambda>e. me_key e = key) (mc_entries m)")
  case (Some i)
  assume r: "mc_get key m = (r, m')"
  from Some obtain b x a where "mc_entries m = b @ x # a" "remove_at i (mc_entries m) = Some (x, b @ a)" by (rule position_split) auto
  then show ?thesis using r Some by (auto simp: mc_get_def)
qed (auto simp: mc_get_def)

lemma mc_get_holds: "mc_get key m = (Some d, m') \<Longrightarrow> memory_holds m key d"
proof (cases "position (\<lambda>e. me_key e = key) (mc_entries m)")
  case (Some i)
  assume r: "mc_get key m = (Some d, m')"
  from Some obtain b x a where "mc_entries m = b @ x # a" "remove_at i (mc_entries m) = Some (x, b @ a)" "me_key x = key"
    by (rule position_split) auto
  then show ?thesis using r Some by (auto simp: mc_get_def memory_holds_def)
qed (simp add: mc_get_def)

interpretation mt: tier memory_holds "\<lambda>key (n, d). mc_insert key n d" "\<lambda>(n, d) d'. d' = d"
proof
  fix key key' :: string and b :: "nat \<times> 'd" and s :: "'d memory_cache" and d
  assume "memory_holds ((case b of (n, d) \<Rightarrow> mc_insert key n d) s) key' d"
  then show "memory_holds s key' d \<or> key' = key \<and> (case b of (n, d) \<Rightarrow> \<lambda>d'. d' = d) d"
    using set_mc_insert [of key "fst b" "snd b" s] by (fastforce simp: memory_holds_def split: prod.splits)
qed

interpretation dt: tier "disk_holds parse" "\<lambda>key. bt_insert (entry_path key)" "\<lambda>bs d. from_slice parse bs = Inr d" for parse
  by unfold_locales (auto simp: disk_holds_def bt_get_insert split: if_splits)

lemma remote_fetch_insert: "name \<noteq> name' \<Longrightarrow> remote_fetch e name (bt_insert name' z store) w = remote_fetch e name store w"
  by (simp add: remote_fetch_def bt_get_insert)

definition remote_decodes :: "'w service_env \<Rightarrow> bytes \<Rightarrow> hash_file_data \<Rightarrow> bool" where
  "remote_decodes e bs d \<longleftrightarrow> (\<exists>z raw. se_gzip e bs = Some z \<and> se_gunzip e z = Some raw \<and> from_slice (se_parse e) raw = Inr d)"

lemma remote_put_holds:
  assumes "remote_holds e (remote_put e key bs w store) key' d"
  shows "remote_holds e store key' d \<or> key' = key \<and> remote_decodes e bs d"
proof (cases "\<exists>z. se_gzip e bs = Some z \<and> se_storable e (key @ COMPRESSED_SUFFIX) w")
  case True
  then obtain z where z: "se_gzip e bs = Some z" "remote_put e key bs w store = bt_insert (key @ COMPRESSED_SUFFIX) z store"
    by (auto simp: remote_put_def)
  obtain w' bs' where r: "remote_get e key' (bt_insert (key @ COMPRESSED_SUFFIX) z store) w' = Some bs'" "from_slice (se_parse e) bs' = Inr d"
    using assms z(2) by (auto simp: remote_holds_def)
  show ?thesis
  proof (cases "key' = key")
    case True
    then have "se_gunzip e z = Some bs'" using r(1) by (auto simp: remote_get_def remote_fetch_def bt_get_insert split: if_splits)
    then show ?thesis using True r(2) z(1) by (auto simp: remote_decodes_def)
  next
    case False
    have fetch: "remote_fetch e (key' @ COMPRESSED_SUFFIX) (bt_insert (key @ COMPRESSED_SUFFIX) z store) w' = remote_fetch e (key' @ COMPRESSED_SUFFIX) store w'"
      "remote_fetch e (key' @ PLAIN_SUFFIX) (bt_insert (key @ COMPRESSED_SUFFIX) z store) w' = remote_fetch e (key' @ PLAIN_SUFFIX) store w'"
      using False by (simp_all add: remote_fetch_insert)
    have "remote_get e key' store w' = Some bs'" using r(1) unfolding remote_get_def fetch .
    then show ?thesis using r(2) by (auto simp: remote_holds_def)
  qed
next
  case False
  then have "remote_put e key bs w store = store" by (auto simp: remote_put_def split: option.splits)
  then show ?thesis using assms by simp
qed

interpretation rt: tier "remote_holds e" "\<lambda>key (bs, w). remote_put e key bs w" "\<lambda>(bs, _). remote_decodes e bs" for e
  by unfold_locales (auto dest: remote_put_holds)

subsection \<open>The invariant of the three tiers\<close>

definition tiers_hold :: "'w service_env \<Rightarrow> (string \<Rightarrow> hash_file_data \<Rightarrow> bool) \<Rightarrow> 'w service \<Rightarrow> bool" where
  "tiers_hold e P s \<longleftrightarrow>
     (\<forall>key d. memory_holds (sv_memory s) key d \<longrightarrow> P key d) \<and> (\<forall>key d. disk_holds (se_parse e) (sv_disk s) key d \<longrightarrow> P key d) \<and>
     (\<forall>store key d. sv_remote s = Some store \<longrightarrow> remote_holds e store key d \<longrightarrow> P key d)"

text \<open>The base a request brings was itself served, for its own revision.\<close>

definition base_holds :: "'w service_env \<Rightarrow> (string \<Rightarrow> hash_file_data \<Rightarrow> bool) \<Rightarrow> string list \<Rightarrow> (string \<times> hash_file_data) option \<Rightarrow> bool" where
  "base_holds e P modified base \<longleftrightarrow>
     (\<forall>sha data. base = Some (sha, data) \<longrightarrow>
        (\<exists>w t w'. resolve_tree (se_git e) sha w = (Inr t, w') \<and> P (service_key e t modified) data))"

text \<open>
  What has to be true of the entries: it is true of those a revision produces, generated or derived, and it
  does not depend on the fingerprint or on being written and read back.
\<close>

definition entries_property :: "'w service_env \<Rightarrow> (string \<Rightarrow> hash_file_data \<Rightarrow> bool) \<Rightarrow> bool" where
  "entries_property e P \<longleftrightarrow>
     (\<forall>sha modified base s d s' w t w'. resolve_tree (se_git e) sha w = (Inr t, w') \<longrightarrow> base_holds e P modified base \<longrightarrow>
        produce e sha modified base s = (Inr d, s') \<longrightarrow> P (service_key e t modified) d) \<and>
     (\<forall>key d fp. P key d \<longrightarrow> P key (d\<lparr>dependency_fingerprint := fp\<rparr>)) \<and>
     (\<forall>key d d'. P key d \<longrightarrow>
        from_slice (se_parse e) (se_print e (serialized (se_crates e) d True (sc_track_deps (se_config e)))) = Inr d' \<or>
        remote_decodes e (se_print e (serialized (se_crates e) d True (sc_track_deps (se_config e)))) d' \<longrightarrow> P key d')"

lemma tiers_hold_cong:
  "tiers_hold e P s \<Longrightarrow> sv_memory s' = sv_memory s \<Longrightarrow> sv_disk s' = sv_disk s \<Longrightarrow> sv_remote s' = sv_remote s \<Longrightarrow> tiers_hold e P s'"
  by (simp add: tiers_hold_def)

text \<open>The same tiers, whatever happened to the world and the counters.\<close>

definition same_tiers :: "'w service \<Rightarrow> 'w service \<Rightarrow> bool" where
  "same_tiers s s' \<longleftrightarrow> sv_memory s' = sv_memory s \<and> sv_disk s' = sv_disk s \<and> sv_remote s' = sv_remote s"

lemma same_tiers_refl [simp]: "same_tiers s s"
  by (simp add: same_tiers_def)

lemma same_tiers_trans: "same_tiers s s' \<Longrightarrow> same_tiers s' s'' \<Longrightarrow> same_tiers s s''"
  by (simp add: same_tiers_def)

lemma same_tiers_hold: "same_tiers s s' \<Longrightarrow> tiers_hold e P s \<Longrightarrow> tiers_hold e P s'"
  by (simp add: same_tiers_def tiers_hold_def)

lemma checkout_same: "checkout e sha s = (r, s') \<Longrightarrow> same_tiers s s'"
  by (auto simp: checkout_def same_tiers_def split: prod.splits sum.splits)

lemma workspace_fingerprint_same: "workspace_fingerprint e s = (r, s') \<Longrightarrow> same_tiers s s'"
  by (auto simp: workspace_fingerprint_def same_tiers_def split: prod.splits sum.splits)

lemma servable_same: "servable e sha d cur s = (r, cur', s') \<Longrightarrow> same_tiers s s'"
  by (auto simp: servable_def matches_fingerprint_def split: if_splits option.splits prod.splits sum.splits
      dest!: checkout_same workspace_fingerprint_same intro: same_tiers_trans)

lemma touch_same: "same_tiers s (touch p s)"
  by (simp add: touch_def same_tiers_def)

lemma stamp_same: "stamp e cur d s = (d', s') \<Longrightarrow> same_tiers s s' \<and> (d' = d \<or> (\<exists>fp. d' = d\<lparr>dependency_fingerprint := fp\<rparr>))"
  by (auto simp: stamp_def split: if_splits option.splits prod.splits dest!: workspace_fingerprint_same)

lemma list_tree_same: "list_tree e sha modified s = (r, s') \<Longrightarrow> same_tiers s s'"
  by (auto simp: list_tree_def same_tiers_def split: if_splits prod.splits sum.splits)

lemma classify_base_same: "classify_base e sha base t s = (r, s') \<Longrightarrow> same_tiers s s'"
  by (auto simp: classify_base_def same_tiers_def split: if_splits option.splits prod.splits sum.splits)

lemma attempt_derivation_same: "attempt_derivation e sha base t s = (r, s') \<Longrightarrow> same_tiers s s'"
  by (auto simp: attempt_derivation_def Let_def split: if_splits option.splits prod.splits dest!: classify_base_same)
    (auto simp: same_tiers_def)

lemma generate_full_same: "generate_full e sha options t s = (r, s') \<Longrightarrow> same_tiers s s'"
  by (auto simp: generate_full_def check_tracked_packages_def Let_def split: if_splits option.splits prod.splits sum.splits
      dest!: checkout_same) (auto simp: same_tiers_def)

lemma produce_same: "produce e sha modified base s = (r, s') \<Longrightarrow> same_tiers s s'"
  by (auto simp: produce_def split: option.splits prod.splits sum.splits
      dest!: list_tree_same attempt_derivation_same generate_full_same intro: same_tiers_trans)


lemma try_memory_hold:
  assumes "try_memory e sha key cur s = (r, cur', s')" "tiers_hold e P s"
  shows "tiers_hold e P s' \<and> (\<forall>d. r = Inr (Some d) \<longrightarrow> P key d)"
proof -
  obtain o' m where g: "mc_get key (sv_memory s) = (o', m)" by force
  let ?s = "s\<lparr>sv_memory := m\<rparr>"
  have "tiers_hold e P ?s" using assms(2) set_mc_get [OF g] by (simp add: tiers_hold_def memory_holds_def)
  then have keep: "tiers_hold e P s''" if "same_tiers ?s s''" for s'' using that same_tiers_hold by blast
  show ?thesis
  proof (cases o')
    case None
    then show ?thesis using assms(1) g keep by (auto simp: try_memory_def)
  next
    case (Some d)
    have "memory_holds (sv_memory s) key d" by (rule mc_get_holds [OF g [unfolded Some]])
    then have "P key d" using assms(2) by (simp add: tiers_hold_def)
    then show ?thesis using assms(1) g Some keep
      by (auto simp: try_memory_def split: prod.splits sum.splits if_splits dest!: servable_same intro: same_tiers_trans [OF _ touch_same])
  qed
qed

lemma remember_hold:
  "tiers_hold e P s \<Longrightarrow> P key d \<Longrightarrow> tiers_hold e P (remember key bs d s)"
  using mt.put_keeps [of "sv_memory s" P "(length bs, d)" key] by (simp add: tiers_hold_def remember_def)

lemma write_entry_hold:
  assumes "write_entry e (entry_path key) bs s = (r, s')" "tiers_hold e P s" "\<And>d. from_slice (se_parse e) bs = Inr d \<Longrightarrow> P key d"
  shows "tiers_hold e P s'"
  using assms dt.put_keeps [of "se_parse e" "sv_disk s" P bs key]
  by (auto simp: write_entry_def tiers_hold_def split: if_splits)

lemma try_disk_hold:
  assumes "try_disk e sha key cur s = (r, cur', s')" "tiers_hold e P s"
  shows "tiers_hold e P s' \<and> (\<forall>d. r = Inr (Some d) \<longrightarrow> P key d)"
proof (cases "\<exists>bs d. bt_get (sv_disk s) (entry_path key) = Some bs \<and> from_slice (se_parse e) bs = Inr d \<and> se_readable e (entry_path key) (sv_world s)")
  case True
  then obtain bs d where d: "bt_get (sv_disk s) (entry_path key) = Some bs" "from_slice (se_parse e) bs = Inr d" "se_readable e (entry_path key) (sv_world s)"
    by blast
  have "P key d" using assms(2) d(1,2) by (auto simp: tiers_hold_def disk_holds_def)
  then show ?thesis using assms d
    by (auto simp: try_disk_def split: prod.splits sum.splits if_splits dest!: servable_same
        intro!: remember_hold intro: same_tiers_hold same_tiers_hold [OF touch_same])
next
  case False
  then show ?thesis using assms by (auto simp: try_disk_def split: option.splits sum.splits if_splits)
qed

lemma try_remote_hold:
  assumes "try_remote e sha key cur s = (r, cur', s')" "tiers_hold e P s"
  shows "tiers_hold e P s' \<and> (\<forall>d. r = Inr (Some d) \<longrightarrow> P key d)"
proof (cases "\<exists>store bs d. sv_remote s = Some store \<and> remote_get e key store (sv_world s) = Some bs \<and> from_slice (se_parse e) bs = Inr d")
  case True
  then obtain store bs d where d: "sv_remote s = Some store" "remote_get e key store (sv_world s) = Some bs" "from_slice (se_parse e) bs = Inr d" by blast
  have "remote_holds e store key d" using d(2,3) unfolding remote_holds_def by blast
  then have "P key d" using assms(2) d(1) by (simp add: tiers_hold_def)
  moreover have "tiers_hold e P s''" if "write_entry e (entry_path key) bs s1 = (x, s'')" "same_tiers s s1" for s1 s'' x
    using write_entry_hold [OF that(1) same_tiers_hold [OF that(2) assms(2)]] \<open>P key d\<close> d(3) by simp
  ultimately show ?thesis using assms d
    by (auto simp: try_remote_def split: prod.splits sum.splits if_splits dest!: servable_same
        intro!: remember_hold intro: same_tiers_hold)
next
  case False
  then show ?thesis using assms by (auto simp: try_remote_def bind_eq_Some_conv split: option.splits sum.splits)
qed

lemma lookup_hold:
  assumes "lookup e sha key s = (r, cur', s')" "tiers_hold e P s"
  shows "tiers_hold e P s' \<and> (\<forall>d. r = Inr (Some d) \<longrightarrow> P key d)"
proof -
  obtain r1 c1 s1 where m: "try_memory e sha key None s = (r1, c1, s1)" by (cases "try_memory e sha key None s")
  note h1 = try_memory_hold [OF m assms(2)]
  obtain r2 c2 s2 where d: "try_disk e sha key c1 s1 = (r2, c2, s2)" by (cases "try_disk e sha key c1 s1")
  note h2 = try_disk_hold [OF d]
  obtain r3 c3 s3 where t: "try_remote e sha key c2 s2 = (r3, c3, s3)" by (cases "try_remote e sha key c2 s2")
  note h3 = try_remote_hold [OF t]
  consider (hit) x where "r1 = Inr (Some x)" | (err) x where "r1 = Inl x" | (miss) "r1 = Inr None" by (metis option.exhaust sum.exhaust)
  then show ?thesis
  proof cases
    case miss
    note second = this
    consider (hit) x where "r2 = Inr (Some x)" | (err) x where "r2 = Inl x" | (miss) "r2 = Inr None" by (metis option.exhaust sum.exhaust)
    then show ?thesis
      using assms(1) m d t h1 h2 h3 second by cases (auto simp: lookup_def or_else_def)
  qed (use assms(1) m h1 in \<open>auto simp: lookup_def or_else_def\<close>)
qed


lemma store_entry_hold:
  assumes "store_entry e key d s = (r, s')" "tiers_hold e P s" "P key d" "entries_property e P"
  shows "tiers_hold e P s'"
proof -
  define bs where "bs = se_print e (serialized (se_crates e) d True (sc_track_deps (se_config e)))"
  have dec: "from_slice (se_parse e) bs = Inr d' \<Longrightarrow> P key d'" "remote_decodes e bs d' \<Longrightarrow> P key d'" for d'
    using assms(3,4) unfolding entries_property_def bs_def by blast+
  obtain x s1 where t: "write_entry e (temporary_path key) bs s = (x, s1)" by force
  have s1: "sv_memory s1 = sv_memory s" "sv_remote s1 = sv_remote s"
      "bt_get (sv_disk s1) (entry_path k) = bt_get (sv_disk s) (entry_path k)" for k
    using t by (auto simp: write_entry_def bt_get_insert split: if_splits)
  have h1: "tiers_hold e P s1" using assms(2) by (simp add: tiers_hold_def s1 disk_holds_def)
  define s2 where "s2 = s1\<lparr>sv_disk := bt_insert (entry_path key) bs (filter (\<lambda>(name, _). name \<noteq> temporary_path key) (sv_disk s1))\<rparr>"
  have h2: "tiers_hold e P s2"
    using h1 dec(1) by (auto simp: tiers_hold_def s2_def disk_holds_def bt_get_insert bt_get_filter_key split: if_splits)
  define s3 where "s3 = s2\<lparr>sv_remote := map_option (remote_put e key bs (sv_world s2)) (sv_remote s2)\<rparr>"
  have h3: "tiers_hold e P s3"
  proof (cases "sv_remote s2")
    case (Some store)
    have "P k d'" if "remote_holds e (remote_put e key bs (sv_world s2) store) k d'" for k d'
      using rt.put_keeps [of e store P "(bs, sv_world s2)" key k d'] that h2 Some dec(2) by (simp add: tiers_hold_def)
    then show ?thesis using h2 Some by (simp add: tiers_hold_def s3_def)
  qed (use h2 in \<open>simp add: tiers_hold_def s3_def\<close>)
  have "s' = s1 \<or> s' = remember key bs d s3"
    using assms(1) t by (auto simp: store_entry_def Let_def s3_def s2_def simp flip: bs_def split: sum.splits if_splits)
  then show ?thesis using h1 remember_hold [OF h3 assms(3)] by blast
qed

lemma complete_miss_hold:
  assumes "complete_miss e sha key modified base cur s = (r, s')" "tiers_hold e P s" "entries_property e P"
    and "base_holds e P modified base" "resolve_tree (se_git e) sha w = (Inr t, w')" "key = service_key e t modified"
  shows "tiers_hold e P s' \<and> (\<forall>rt. r = Inr rt \<longrightarrow> P key (rt_data rt))"
proof -
  obtain x s1 where p: "produce e sha modified base s = (x, s1)" by force
  have h1: "tiers_hold e P s1" using same_tiers_hold [OF produce_same [OF p] assms(2)] .
  show ?thesis
  proof (cases x)
    case (Inl err)
    then show ?thesis using assms(1) p h1 by (auto simp: complete_miss_def)
  next
    case (Inr d)
    have pd: "P key d" using assms(3-6) p Inr unfolding entries_property_def by blast
    obtain d' s2 where st: "stamp e cur d s1 = (d', s2)" by force
    have h2: "tiers_hold e P s2" "P key d'"
      using stamp_same [OF st] same_tiers_hold h1 pd assms(3) unfolding entries_property_def by blast+
    obtain y s3 where se: "store_entry e key d' s2 = (y, s3)" by force
    have "tiers_hold e P s3" by (rule store_entry_hold [OF se h2 assms(3)])
    then show ?thesis using assms(1) p Inr st se h1 h2(2) by (auto simp: complete_miss_def split: if_splits sum.splits)
  qed
qed

lemma get_hashes_hold:
  assumes "get_hashes_locked e sha modified base s = (r, s')" "tiers_hold e P s" "entries_property e P" "base_holds e P modified base"
  shows "tiers_hold e P s'"
    "r = Inr rt \<Longrightarrow> \<exists>t w'. resolve_tree (se_git e) sha (sv_world s) = (Inr t, w') \<and> P (service_key e t modified) (rt_data rt)"
proof -
  have "tiers_hold e P s' \<and> (r = Inr rt \<longrightarrow> (\<exists>t w'. resolve_tree (se_git e) sha (sv_world s) = (Inr t, w') \<and> P (service_key e t modified) (rt_data rt)))" for rt
  proof -
    obtain x w where res: "resolve_tree (se_git e) sha (sv_world s) = (x, w)" by force
    show ?thesis
    proof (cases x)
      case (Inl err)
      then show ?thesis using assms(1,2) res by (auto simp: get_hashes_locked_def intro: tiers_hold_cong)
    next
      case (Inr t)
      let ?key = "service_key e t modified"
      have h: "tiers_hold e P (s\<lparr>sv_world := w\<rparr>)" using assms(2) by (rule tiers_hold_cong) simp_all
      obtain y cur s1 where l: "lookup e sha ?key (s\<lparr>sv_world := w\<rparr>) = (y, cur, s1)" by (cases "lookup e sha ?key (s\<lparr>sv_world := w\<rparr>)")
      note h1 = lookup_hold [OF l h]
      consider (hit) d where "y = Inr (Some d)" | (err) z where "y = Inl z" | (miss) "y = Inr None" by (metis option.exhaust sum.exhaust)
      then show ?thesis
      proof cases
        case miss
        then have "complete_miss e sha ?key modified base cur s1 = (r, s')"
          using assms(1) res Inr l by (simp add: get_hashes_locked_def Let_def)
        from complete_miss_hold [OF this _ assms(3,4), of "sv_world s" t w] h1 res Inr show ?thesis by auto
      qed (use assms(1) res Inr l h1 in \<open>auto simp: get_hashes_locked_def Let_def\<close>)
    qed
  qed
  then show "tiers_hold e P s'"
    "r = Inr rt \<Longrightarrow> \<exists>t w'. resolve_tree (se_git e) sha (sv_world s) = (Inr t, w') \<and> P (service_key e t modified) (rt_data rt)" by blast+
qed

subsection \<open>The life of a server\<close>

text \<open>Requests, pruned files, and changes of the working tree or the store's availability, in any order.\<close>

inductive server_reaches :: "'w service_env \<Rightarrow> (string \<Rightarrow> hash_file_data \<Rightarrow> bool) \<Rightarrow> 'w service \<Rightarrow> 'w service \<Rightarrow> bool" for e P s0 where
  start: "server_reaches e P s0 s0"
| request: "server_reaches e P s0 s \<Longrightarrow> base_holds e P modified base \<Longrightarrow> get_hashes_locked e sha modified base s = (r, s') \<Longrightarrow> server_reaches e P s0 s'"
| prune: "server_reaches e P s0 s \<Longrightarrow> server_reaches e P s0 (s\<lparr>sv_disk := filter (\<lambda>(name, _). Q name) (sv_disk s)\<rparr>)"
| world: "server_reaches e P s0 s \<Longrightarrow> server_reaches e P s0 (s\<lparr>sv_world := w\<rparr>)"

lemma server_reaches_hold:
  assumes "server_reaches e P s0 s" "tiers_hold e P s0" "entries_property e P"
  shows "tiers_hold e P s"
  using assms(1)
proof induction
  case start
  show ?case by (rule assms(2))
next
  case (request s modified base sha r s')
  show ?case by (rule get_hashes_hold(1) [OF request.hyps(3) request.IH assms(3) request.hyps(2)])
next
  case (prune s Q)
  then show ?case by (auto simp: tiers_hold_def disk_holds_def bt_get_filter_key split: if_splits)
next
  case (world s w)
  then show ?case by (auto intro: tiers_hold_cong)
qed

end
