(* ===== verification/Service_Hits.thy ===== *)
theory Service_Hits
  imports Service_Tiers
begin

section \<open>What a server serves\<close>

text \<open>
  What a server serves is right for its revision. What a hit is: the next request for a revision that was answered is answered from a tier with the same
  hashes; under \<^verbatim>\<open>--dependencyFingerprint\<close> a hit carries the fingerprint of the revision checked out; and an
  entry of the shared store that is not a hash file fails the request.
\<close>

subsection \<open>Served entries\<close>

text \<open>
  C16: the cache is transparent. Whatever holds of every entry a revision produces, generated or derived, and
  survives stamping a fingerprint and a write and read, holds of every entry a server serves for the
  revision, after any sequence of requests, prunings and changes of the working tree, from
  whichever tier the answer comes and whatever the store or the disk refused on the way.
\<close>

theorem served_entries_right:
  assumes "tiers_hold e P s0" "entries_property e P" "server_reaches e P s0 s" "base_holds e P modified base"
    and "get_hashes_locked e sha modified base s = (Inr rt, s')"
  shows "\<exists>t w. resolve_tree (se_git e) sha (sv_world s) = (Inr t, w) \<and> P (service_key e t modified) (rt_data rt)"
  using get_hashes_hold(2) [OF assms(5) server_reaches_hold [OF assms(3,1,2)] assms(2,4)] by blast

subsection \<open>Guarded hits\<close>

definition fingerprint_at :: "'w service_env \<Rightarrow> ('w \<Rightarrow> string) \<Rightarrow> string \<Rightarrow> string option \<Rightarrow> bool" where
  "fingerprint_at e head sha cur \<longleftrightarrow>
     (\<forall>fp. cur = Some fp \<longrightarrow> (\<exists>w w'. head w = sha \<and> se_workspace_fingerprint e w = (Inr fp, w')))"

lemma matches_fingerprint_at:
  assumes "git_heads (se_git e) head" "matches_fingerprint e sha data cur s = (r, cur', s')" "fingerprint_at e head sha cur"
  shows "fingerprint_at e head sha cur' \<and> (r = Inr True \<longrightarrow> (\<exists>fp. dependency_fingerprint data = Some fp \<and> cur' = Some fp))"
proof (cases "dependency_fingerprint data")
  case None
  then show ?thesis using assms(2,3) by (auto simp: matches_fingerprint_def)
next
  case (Some cached)
  show ?thesis
  proof (cases cur)
    case None
    obtain x w where c: "git_checkout (se_git e) sha (sv_world s) = (x, w)" by force
    obtain y w2 where f: "se_workspace_fingerprint e w = (y, w2)" by force
    have "x = Inr () \<Longrightarrow> head w = sha" using git_checkout_head(1) [OF assms(1) c] .
    then show ?thesis using assms(2) Some None c f
      by (cases x; cases y; auto simp: matches_fingerprint_def checkout_def workspace_fingerprint_def fingerprint_at_def)
  qed (use assms(2,3) Some in \<open>auto simp: matches_fingerprint_def\<close>)
qed

definition guarded :: "'w service_env \<Rightarrow> ('w \<Rightarrow> string) \<Rightarrow> string \<Rightarrow> ('w, hash_file_data option) served \<Rightarrow> bool" where
  "guarded e head sha r \<longleftrightarrow>
     fingerprint_at e head sha (fst (snd r)) \<and>
     (\<forall>d. fst r = Inr (Some d) \<longrightarrow> (\<exists>w w' fp. head w = sha \<and> se_workspace_fingerprint e w = (Inr fp, w') \<and> dependency_fingerprint d = Some fp))"

lemma servable_guarded:
  assumes "git_heads (se_git e) head" "sc_dependency_fingerprint (se_config e)" "fingerprint_at e head sha cur"
    and "servable e sha d cur s = (r, cur', s')"
  shows "guarded e head sha (Inl err, cur', s'')" "guarded e head sha (Inr None, cur', s'')" "r = Inr True \<Longrightarrow> guarded e head sha (Inr (Some d), cur', s'')"
proof -
  have m: "matches_fingerprint e sha d cur s = (r, cur', s')" using assms(2,4) by (simp add: servable_def)
  note f = matches_fingerprint_at [OF assms(1) m assms(3)]
  show "guarded e head sha (Inl err, cur', s'')" "guarded e head sha (Inr None, cur', s'')" using f by (simp_all add: guarded_def)
  show "guarded e head sha (Inr (Some d), cur', s'')" if "r = Inr True" using f that by (auto simp: guarded_def fingerprint_at_def)
qed

lemma tiers_guarded:
  assumes "git_heads (se_git e) head" "sc_dependency_fingerprint (se_config e)" "fingerprint_at e head sha cur"
  shows "guarded e head sha (try_memory e sha key cur s)" "guarded e head sha (try_disk e sha key cur s)" "guarded e head sha (try_remote e sha key cur s)"
proof -
  note g = servable_guarded [OF assms]
  have plain: "guarded e head sha (Inl err, cur, s'')" "guarded e head sha (Inr None, cur, s'')" for err s''
    using assms(3) by (simp_all add: guarded_def)
  show "guarded e head sha (try_memory e sha key cur s)"
    unfolding try_memory_def using plain g by (auto split: prod.splits option.splits sum.splits if_splits)
  show "guarded e head sha (try_disk e sha key cur s)"
    unfolding try_disk_def using plain g by (auto split: prod.splits option.splits sum.splits if_splits)
  show "guarded e head sha (try_remote e sha key cur s)"
    unfolding try_remote_def using plain g by (auto split: prod.splits option.splits sum.splits if_splits)
qed

lemma or_else_guarded:
  "guarded e head sha r \<Longrightarrow> (\<And>cur s. fingerprint_at e head sha cur \<Longrightarrow> guarded e head sha (next cur s)) \<Longrightarrow> guarded e head sha (or_else r next)"
  by (auto simp: or_else_def guarded_def split: prod.splits sum.splits option.splits)

lemma lookup_guarded:
  assumes "git_heads (se_git e) head" "sc_dependency_fingerprint (se_config e)"
  shows "guarded e head sha (lookup e sha key s)"
proof -
  have none: "fingerprint_at e head sha None" by (simp add: fingerprint_at_def)
  show ?thesis unfolding lookup_def
    by (intro or_else_guarded tiers_guarded [OF assms] none)
qed

text \<open>
  C17: under \<^verbatim>\<open>--dependencyFingerprint\<close> an entry is served from a tier only when it carries the fingerprint that
  Bazel gave for the workspace with that very revision checked out. An entry without one is never served.
\<close>

theorem guarded_hits_match:
  assumes "git_heads (se_git e) head" "sc_dependency_fingerprint (se_config e)"
    and "get_hashes_locked e sha modified base s = (Inr rt, s')" "rt_hit rt"
  shows "\<exists>w w' fp. head w = sha \<and> se_workspace_fingerprint e w = (Inr fp, w') \<and> dependency_fingerprint (rt_data rt) = Some fp"
proof -
  obtain t w cur where r: "lookup e sha (service_key e t modified) (s\<lparr>sv_world := w\<rparr>) = (Inr (Some (rt_data rt)), cur, s')"
    using assms(3,4) by (auto simp: get_hashes_locked_def complete_miss_def Let_def split: prod.splits sum.splits option.splits if_splits)
  show ?thesis using lookup_guarded [OF assms(1,2), of sha "service_key e t modified" "s\<lparr>sv_world := w\<rparr>"] unfolding r by (simp add: guarded_def)
qed

subsection \<open>Corrupt entries\<close>

text \<open>
  A read failure of the shared store is a miss, but an object that decompresses to something else than
  a hash file is not: the request fails, and so does every later one for the revision.
\<close>

lemma corrupt_remote_entry_fails:
  assumes "resolve_tree (se_git e) sha (sv_world s) = (Inr t, w)" "mc_get (service_key e t modified) (sv_memory s) = (None, sv_memory s)"
    and "bt_get (sv_disk s) (entry_path (service_key e t modified)) = None" "sv_remote s = Some store"
    and "remote_get e (service_key e t modified) store w = Some bs" "from_slice (se_parse e) bs = Inl err"
  shows "get_hashes_locked e sha modified base s = (Inl (InvalidEntry err), s\<lparr>sv_world := w\<rparr>)"
  using assms by (simp add: get_hashes_locked_def lookup_def or_else_def try_memory_def try_disk_def try_remote_def Let_def)


subsection \<open>Answering again\<close>

text \<open>An entry a lookup finds without the guard: remembered, or on disk and not remembered.\<close>

definition held :: "'w service_env \<Rightarrow> string \<Rightarrow> 'w service \<Rightarrow> hash_file_data \<Rightarrow> bool" where
  "held e key s d \<longleftrightarrow>
     fst (mc_get key (sv_memory s)) = Some d \<or> fst (mc_get key (sv_memory s)) = None \<and> disk_holds (se_parse e) (sv_disk s) key d"

lemma mc_get_None: "fst (mc_get key m) = None \<Longrightarrow> mc_get key m = (None, m)"
  by (auto simp: mc_get_def split: option.splits)

lemma held_lookup:
  assumes "\<not> sc_dependency_fingerprint (se_config e)" "held e key s d" "se_readable e (entry_path key) (sv_world s)"
  shows "fst (lookup e sha key s) = Inr (Some d)"
proof (cases "fst (mc_get key (sv_memory s))")
  case None
  then obtain bs where "bt_get (sv_disk s) (entry_path key) = Some bs" "from_slice (se_parse e) bs = Inr d"
    using assms(2) by (auto simp: held_def disk_holds_def)
  then show ?thesis using assms(1,3) mc_get_None [OF None]
    by (simp add: lookup_def or_else_def try_memory_def try_disk_def servable_def)
next
  case (Some d')
  then obtain m where "mc_get key (sv_memory s) = (Some d', m)" by (cases "mc_get key (sv_memory s)") simp
  then show ?thesis using assms(1,2) by (simp add: lookup_def or_else_def try_memory_def servable_def held_def)
qed

lemma remember_held:
  assumes "mc_inv (sv_memory s)" "fst (mc_get key (sv_memory s)) = None" "bt_get (sv_disk s) (entry_path key) = Some bs" "from_slice (se_parse e) bs = Inr d'"
  shows "held e key (remember key bs d s) d \<or> held e key (remember key bs d s) d'"
proof (cases "length bs \<le> mc_budget (sv_memory s)")
  case True
  then show ?thesis using memory_cache_lru [OF assms(1)] by (simp add: held_def remember_def)
next
  case False
  then show ?thesis using assms by (auto simp: held_def remember_def mc_insert_def disk_holds_def)
qed

lemma mc_get_again:
  assumes "mc_inv m" "mc_get key m = (Some d, m')"
  shows "fst (mc_get key m') = Some d"
proof -
  obtain en where "en \<in> set (mc_entries m')" "me_key en = key" "me_data en = d"
    using mc_get_holds [OF assms(2)] set_mc_get [OF assms(2)] by (auto simp: memory_holds_def)
  then show ?thesis using mc_get_found [of m' en] mc_inv_get [OF assms(1), of key] assms(2) by simp
qed

lemma lookup_hit_held:
  assumes "\<not> sc_dependency_fingerprint (se_config e)" "mc_inv (sv_memory s)" "lookup e sha key s = (Inr (Some d), cur, s')"
  shows "held e key s' d"
proof (cases "fst (mc_get key (sv_memory s))")
  case (Some d')
  then obtain m where m: "mc_get key (sv_memory s) = (Some d', m)" by (cases "mc_get key (sv_memory s)") simp
  then have "d' = d" "s' = touch (entry_path key) (s\<lparr>sv_memory := m\<rparr>)"
    using assms(1,3) by (simp_all add: lookup_def or_else_def try_memory_def servable_def)
  then show ?thesis using mc_get_again [OF assms(2) m] by (simp add: held_def touch_def)
next
  case None
  note miss = mc_get_None [OF None]
  show ?thesis
  proof (cases "bt_get (sv_disk s) (entry_path key)")
    case (Some bs)
    then have r: "from_slice (se_parse e) bs = Inr d" "s' = remember key bs d (touch (entry_path key) s)"
      using assms(1,3) miss by (auto simp: lookup_def or_else_def try_memory_def try_disk_def servable_def split: if_splits sum.splits)
    then show ?thesis using remember_held [of "touch (entry_path key) s" key bs e d d] assms(2) None Some by (simp add: touch_def)
  next
    case (None)
    then obtain store bs where r: "from_slice (se_parse e) bs = Inr d" "s' = remember key bs d (s\<lparr>sv_disk := bt_insert (entry_path key) bs (sv_disk s)\<rparr>)"
      using assms(1,3) miss
      by (auto simp: lookup_def or_else_def try_memory_def try_disk_def try_remote_def write_entry_def servable_def split: if_splits sum.splits option.splits)
    then show ?thesis using remember_held [of "s\<lparr>sv_disk := bt_insert (entry_path key) bs (sv_disk s)\<rparr>" key bs e d d] assms(2) miss
      by (simp add: bt_get_insert)
  qed
qed

lemma lookup_miss_memory:
  assumes "\<not> sc_dependency_fingerprint (se_config e)" "lookup e sha key s = (Inr None, cur, s')"
  shows "sv_memory s' = sv_memory s" "fst (mc_get key (sv_memory s)) = None"
proof -
  show none: "fst (mc_get key (sv_memory s)) = None"
    using assms by (auto simp: lookup_def or_else_def try_memory_def servable_def split: prod.splits option.splits)
  then show "sv_memory s' = sv_memory s"
    using assms mc_get_None [OF none]
    by (auto simp: lookup_def or_else_def try_memory_def try_disk_def try_remote_def servable_def split: if_splits sum.splits option.splits prod.splits)
qed

lemma store_entry_held:
  assumes "store_entry e key d s = (Inr (), s')" "mc_inv (sv_memory s)" "fst (mc_get key (sv_memory s)) = None"
    and "from_slice (se_parse e) (se_print e (serialized (se_crates e) d True (sc_track_deps (se_config e)))) = Inr d'"
  shows "held e key s' d \<or> held e key s' d'"
proof -
  let ?bs = "se_print e (serialized (se_crates e) d True (sc_track_deps (se_config e)))"
  obtain s2 where s2: "s' = remember key ?bs d s2" "sv_memory s2 = sv_memory s" "bt_get (sv_disk s2) (entry_path key) = Some ?bs"
    using assms(1) by (auto simp: store_entry_def write_entry_def Let_def bt_get_insert split: if_splits sum.splits prod.splits)
  then show ?thesis using remember_held [of s2 key ?bs e d' d] assms(2-4) by simp
qed

lemma complete_miss_held:
  assumes "complete_miss e sha key modified base cur s = (Inr rt, s')" "mc_inv (sv_memory s)" "fst (mc_get key (sv_memory s)) = None"
    and "from_slice (se_parse e) (se_print e (serialized (se_crates e) (rt_data rt) True (sc_track_deps (se_config e)))) = Inr d'"
  shows "held e key s' (rt_data rt) \<or> held e key s' d'"
proof -
  obtain d s1 where p: "produce e sha modified base s = (Inr d, s1)" using assms(1) by (auto simp: complete_miss_def split: sum.splits prod.splits)
  obtain d2 s2 where t: "stamp e cur d s1 = (d2, s2)" by force
  have same: "sv_memory s2 = sv_memory s" using produce_same [OF p] stamp_same [OF t] by (simp add: same_tiers_def)
  have "store_entry e key d2 s2 = (Inr (), s')" "rt_data rt = d2"
    using assms(1) p t by (auto simp: complete_miss_def split: sum.splits prod.splits if_splits)
  then show ?thesis using store_entry_held [of e key d2 s2 s' d'] assms(2-4) same by simp
qed

text \<open>
  C21: an answer is remembered. Without the dependency guard, once a request for a revision is answered, the
  next request for the same tree and the same modified paths, whatever its base, is answered by a
  hit with the same hashes, as long as the cache directory can be read: from memory, or from the disk when
  the entry is larger than the memory budget. Bazel is not run again.
\<close>

theorem answered_request_hits:
  assumes "\<not> sc_dependency_fingerprint (se_config e)" "crates_ok (se_crates e)" "mc_inv (sv_memory s)"
    and "get_hashes_locked e sha modified base s = (Inr rt, s1)" "hash_file_wf (rt_data rt)"
    and "se_parse e (se_print e (serialized (se_crates e) (rt_data rt) True (sc_track_deps (se_config e)))) =
      Some (serialized (se_crates e) (rt_data rt) True (sc_track_deps (se_config e)))"
    and "resolve_tree (se_git e) sha (sv_world s) = (Inr t, w)" "resolve_tree (se_git e) sha' (sv_world s1) = (Inr t, w')"
    and "se_readable e (entry_path (service_key e t modified)) w'"
  shows "\<exists>rt' s2. get_hashes_locked e sha' modified base' s1 = (Inr rt', s2) \<and> rt_hit rt' \<and> hashes (rt_data rt') = hashes (rt_data rt)"
proof -
  let ?key = "service_key e t modified" and ?s = "s\<lparr>sv_world := w\<rparr>"
  have rb: "from_slice (se_parse e) (se_print e (serialized (se_crates e) (rt_data rt) True (sc_track_deps (se_config e)))) =
      Inr (read_back (rt_data rt) True (sc_track_deps (se_config e)))"
    using from_slice_serialized [of "se_crates e" "rt_data rt" "se_parse e"] assms(2,5,6) by blast
  have same: "hashes (read_back (rt_data rt) True b) = hashes (rt_data rt)" for b by (simp add: read_back_def case_prod_unfold)
  obtain x cur s3 where l: "lookup e sha ?key ?s = (x, cur, s3)" by (cases "lookup e sha ?key ?s")
  consider (hit) "x = Inr (Some (rt_data rt))" "s1 = s3" | (miss) "x = Inr None" "complete_miss e sha ?key modified base cur s3 = (Inr rt, s1)"
    using assms(4,7) l by (auto simp: get_hashes_locked_def Let_def split: sum.splits option.splits)
  then have "\<exists>d. held e ?key s1 d \<and> hashes d = hashes (rt_data rt)"
  proof cases
    case hit
    then show ?thesis using lookup_hit_held [OF assms(1) _ l [unfolded hit(1)]] assms(3) by auto
  next
    case miss
    note m = lookup_miss_memory [OF assms(1) l [unfolded miss(1)]]
    show ?thesis using complete_miss_held [OF miss(2) _ _ rb] m assms(3) same by auto
  qed
  then obtain d where d: "held e ?key (s1\<lparr>sv_world := w'\<rparr>) d" "hashes d = hashes (rt_data rt)" by (auto simp: held_def)
  obtain c2 s2 where "lookup e sha' ?key (s1\<lparr>sv_world := w'\<rparr>) = (Inr (Some d), c2, s2)"
    using held_lookup [OF assms(1) d(1), of sha'] assms(9) by (cases "lookup e sha' ?key (s1\<lparr>sv_world := w'\<rparr>)") simp
  then show ?thesis using assms(8) d(2) by (simp add: get_hashes_locked_def Let_def)
qed


subsection \<open>A server\<close>

text \<open>A repository of one revision, an entry that reads as \<open>sample_hash_file\<close>, and a workspace of one package.\<close>

definition one_revision_git :: "unit git" where
  "one_revision_git = \<lparr>git_path = (\<lambda>args w.
       if args = [''rev-parse'', ''HEAD''] then (Inr \<lparr>go_success = True, go_stdout = ''s'', go_stderr = ''''\<rparr>, w)
       else if hd args = ''rev-parse'' then (Inr \<lparr>go_success = True, go_stdout = replicate 40 (CHR ''a''), go_stderr = ''''\<rparr>, w)
       else if hd args = ''ls-tree'' then (Inr \<lparr>go_success = True, go_stdout = '''', go_stderr = ''''\<rparr>, w)
       else (Inr \<lparr>go_success = False, go_stdout = '''', go_stderr = ''read-only''\<rparr>, w)),
     git_workspace = ''/w'', git_lock_is_file = (\<lambda>_. False), git_remove_lock = (\<lambda>w. (Inr (), w)), git_canonicalize = Some\<rparr>"

definition sample_service_env :: "bool \<Rightarrow> unit service_env" where
  "sample_service_env guard = \<lparr>se_crates = crates_ref,
     se_config = \<lparr>sc_options = sample_hash_options, sc_track_deps = True, sc_dependency_fingerprint = guard, sc_partial_graph = False,
       sc_rebuild_patterns = [], sc_allow_untracked_packages = True\<rparr>,
     se_fingerprint = ''c'', se_git = one_revision_git, se_parse = (\<lambda>_. Some (serialized crates_ref sample_hash_file True True)), se_print = (\<lambda>_. [1]),
     se_gzip = Some, se_gunzip = Some, se_readable = (\<lambda>_ _. True), se_writable = (\<lambda>_ _. True), se_fetchable = (\<lambda>_ _. True), se_storable = (\<lambda>_ _. True),
     se_discover = (\<lambda>_ w. (Inr (sample_hash_inputs, sample_query, []), w)), se_workspace_fingerprint = (\<lambda>w. (Inr ''f0'', w)), se_cancelled = (\<lambda>_. False)\<rparr>"

definition sample_service :: "(string, bytes) btree \<Rightarrow> unit service" where
  "sample_service disk = \<lparr>sv_memory = mc_new 10, sv_disk = disk, sv_remote = Some [], sv_world = (), sv_touched = [], sv_partial_derived = 0,
     sv_partial_rebuilds = 0, sv_untracked_rejections = 0\<rparr>"

lemma sample_service_env_sel [simp]:
  "se_git (sample_service_env guard) = one_revision_git" "se_crates (sample_service_env guard) = crates_ref"
  "sc_dependency_fingerprint (se_config (sample_service_env guard)) = guard" "sc_track_deps (se_config (sample_service_env guard)) = True"
  "sc_partial_graph (se_config (sample_service_env guard)) = False" "sc_allow_untracked_packages (se_config (sample_service_env guard)) = True"
  "sc_options (se_config (sample_service_env guard)) = sample_hash_options" "se_cancelled (sample_service_env guard) u = False"
  "se_parse (sample_service_env guard) bs = Some (serialized crates_ref sample_hash_file True True)" "se_print (sample_service_env guard) v = [1]"
  "se_readable (sample_service_env guard) p u" "se_writable (sample_service_env guard) p u"
  "se_discover (sample_service_env guard) o' u = (Inr (sample_hash_inputs, sample_query, []), u)"
  "se_workspace_fingerprint (sample_service_env guard) u = (Inr ''f0'', u)"
  by (simp_all add: sample_service_env_def)

lemma one_revision_heads: "git_heads one_revision_git (\<lambda>_. ''s'')"
proof -
  have "str_trim ''s'' = ''s''" by code_simp
  then show ?thesis by (auto simp: git_heads_def one_revision_git_def checkout_args_def)
qed

lemma one_revision_tree [simp]: "resolve_tree one_revision_git sha w = (Inr (replicate 40 (CHR ''a'')), w)"
proof -
  have "str_trim (replicate 40 (CHR ''a'')) = replicate 40 (CHR ''a'')" by code_simp
  then show ?thesis by (simp add: resolve_tree_def git_out_def one_revision_git_def Let_def)
qed

lemma one_revision_checkout: "git_checkout one_revision_git ''s'' () = (Inr (), ())"
  by code_simp

lemma one_revision_index: "git_tree_index one_revision_git ''s'' () = (Inr (with_id (parse_ls_tree '''') (replicate 40 (CHR ''a''))), ())"
  by (simp add: git_tree_index_def) (simp add: git_stdout_def git_out_def one_revision_git_def)

lemma sample_hash_file_wf: "hash_file_wf sample_hash_file"
  by (simp add: hash_file_wf_def sample_hash_file_def recipes_wf_def bt_inv_def written_hash_def sample_hash_def)

lemma sample_service_slice: "from_slice (se_parse (sample_service_env guard)) bs = Inr sample_hash_file"
proof -
  have "from_slice (\<lambda>_. Some (serialized crates_ref sample_hash_file True True)) bs = Inr (read_back sample_hash_file True True)"
    using from_slice_serialized [OF crates_ref_ok sample_hash_file_wf, of "\<lambda>_. Some (serialized crates_ref sample_hash_file True True)" bs True True] by blast
  then show ?thesis by (simp add: sample_service_env_def read_back_def sample_hash_file_def)
qed

lemma sample_hash_file_fingerprint [simp]: "dependency_fingerprint sample_hash_file = Some ''f0''"
  by (simp add: sample_hash_file_def)

definition sample_key :: "bool \<Rightarrow> string" where
  "sample_key guard = service_key (sample_service_env guard) (replicate 40 (CHR ''a'')) []"

lemma mc_get_new [simp]: "mc_get key (mc_new n) = (None, mc_new n)"
  by (simp add: mc_get_def mc_new_def)

lemma sample_service_hit:
  "\<exists>s'. get_hashes_locked (sample_service_env guard) ''s'' [] None (sample_service [(entry_path (sample_key guard), [1])]) =
     (Inr \<lparr>rt_data = sample_hash_file, rt_hit = True, rt_mode = None\<rparr>, s') \<and> sv_world s' = ()"
proof -
  show ?thesis unfolding sample_key_def
    by (simp add: one_revision_checkout sample_service_slice remember_def touch_def get_hashes_locked_def Let_def lookup_def or_else_def try_memory_def try_disk_def servable_def matches_fingerprint_def
      checkout_def workspace_fingerprint_def sample_service_def)
qed


theorem guarded_hits_match_witness:
  "\<exists>rt s' fp. get_hashes_locked (sample_service_env True) ''s'' [] None (sample_service [(entry_path (sample_key True), [1])]) = (Inr rt, s') \<and>
     rt_hit rt \<and> se_workspace_fingerprint (sample_service_env True) () = (Inr fp, ()) \<and> dependency_fingerprint (rt_data rt) = Some fp"
proof -
  obtain s' where s': "get_hashes_locked (sample_service_env True) ''s'' [] None (sample_service [(entry_path (sample_key True), [1])]) =
      (Inr \<lparr>rt_data = sample_hash_file, rt_hit = True, rt_mode = None\<rparr>, s')" using sample_service_hit by blast
  from guarded_hits_match [of "sample_service_env True" "\<lambda>_. ''s''", OF _ _ s'] one_revision_heads s' show ?thesis by auto
qed

theorem answered_request_hits_witness:
  "\<exists>rt s1 rt' s2. get_hashes_locked (sample_service_env False) ''s'' [] None (sample_service [(entry_path (sample_key False), [1])]) = (Inr rt, s1) \<and>
     get_hashes_locked (sample_service_env False) ''t'' [] None s1 = (Inr rt', s2) \<and> rt_hit rt' \<and> hashes (rt_data rt') = hashes (rt_data rt)"
proof -
  obtain s1 where s1: "get_hashes_locked (sample_service_env False) ''s'' [] None (sample_service [(entry_path (sample_key False), [1])]) =
      (Inr \<lparr>rt_data = sample_hash_file, rt_hit = True, rt_mode = None\<rparr>, s1)" using sample_service_hit by blast
  have "mc_inv (sv_memory (sample_service d))" for d by (simp add: mc_inv_def mc_new_def sample_service_def)
  from answered_request_hits [OF _ _ this s1, of _ _ "''t''"] crates_ref_ok sample_hash_file_wf s1
  show ?thesis by simp
qed

subsection \<open>A generated entry\<close>

definition sample_labels :: "string \<Rightarrow> hash_file_data \<Rightarrow> bool" where
  "sample_labels key d \<longleftrightarrow> set (map fst (hashes d)) \<subseteq> {''//a:bin'', ''//a:f'', ''//a:lib'', ''//a:out''}"

lemma sample_produce:
  assumes "produce (sample_service_env False) sha modified base s = (Inr d, s')"
  shows "sample_labels key d"
proof -
  obtain options where "hash_targets_with_environment (sample_hash_inputs\<lparr>hi_options := options\<rparr>) sample_query [] = Inr d"
    using assms by (auto simp: produce_def attempt_derivation_def generate_full_def generate_hashes_def check_tracked_packages_def Let_def
        split: prod.splits sum.splits option.splits if_splits)
  from hash_targets_label_order [OF this] have "map fst (hashes d) = sort_dedup (map target_label (List.map_filter hashed_key sample_query))" by blast
  also have "\<dots> = [''//a:f'', ''//a:lib'', ''//a:out'']" by code_simp
  finally show ?thesis by (simp only: sample_labels_def) simp
qed

lemma sample_entries_property: "entries_property (sample_service_env False) sample_labels"
proof -
  have "sample_labels key d" if "remote_decodes (sample_service_env False) bs d" for key bs d
    using that by (auto simp: remote_decodes_def sample_service_slice) (simp add: sample_labels_def sample_hash_file_def)
  moreover have "sample_labels key sample_hash_file" for key by (simp add: sample_labels_def sample_hash_file_def)
  ultimately show ?thesis using sample_produce
    by (auto simp: entries_property_def sample_service_slice) (simp add: sample_labels_def)
qed


lemma sample_produce_returns: "\<exists>d. produce (sample_service_env False) ''s'' [] None (sample_service []) = (Inr d, sample_service [])"
proof -
  have "\<not> isl (hash_targets_with_environment (sample_hash_inputs\<lparr>hi_options := options_for (sample_service_env False) []
      (Some (with_id (parse_ls_tree '''') (replicate 40 (CHR ''a''))))\<rparr>) sample_query [])" by code_simp
  then obtain d where "hash_targets_with_environment (sample_hash_inputs\<lparr>hi_options := options_for (sample_service_env False) []
      (Some (with_id (parse_ls_tree '''') (replicate 40 (CHR ''a''))))\<rparr>) sample_query [] = Inr d" by (metis isl_def sum.exhaust)
  moreover have "content_hash_map sample_hash_options = None" "isolated_dependency_root (bazel_opts sample_hash_options) = None" by code_simp+
  then have "isolated_dependency_root (bazel_opts (options_for (sample_service_env False) [] t)) = None" for t
    by (simp add: options_for_def Let_def split: option.splits)
  ultimately show ?thesis using \<open>content_hash_map sample_hash_options = None\<close>
    by (simp add: produce_def list_tree_def one_revision_index attempt_derivation_def generate_full_def checkout_def one_revision_checkout
        generate_hashes_def check_tracked_packages_def Let_def sample_service_def)
qed

lemma sample_request_returns:
  "\<exists>rt s'. get_hashes_locked (sample_service_env False) ''s'' [] None (sample_service []) = (Inr rt, s') \<and> \<not> rt_hit rt"
proof -
  obtain d where "produce (sample_service_env False) ''s'' [] None (sample_service []) = (Inr d, sample_service [])" using sample_produce_returns by blast
  moreover have "lookup (sample_service_env False) ''s'' key (sample_service []\<lparr>sv_world := ()\<rparr>) = (Inr None, None, sample_service [])" for key
    by (simp add: lookup_def or_else_def try_memory_def try_disk_def try_remote_def sample_service_def remote_get_def remote_fetch_def)
  ultimately show ?thesis
    by (simp add: get_hashes_locked_def Let_def complete_miss_def stamp_def store_entry_def write_entry_def)
qed

theorem served_entries_right_witness:
  "\<exists>rt s'. get_hashes_locked (sample_service_env False) ''s'' [] None (sample_service []) = (Inr rt, s') \<and>
     (\<exists>t w. resolve_tree one_revision_git ''s'' () = (Inr t, w) \<and> sample_labels (service_key (sample_service_env False) t []) (rt_data rt))"
proof -
  obtain rt s' where r: "get_hashes_locked (sample_service_env False) ''s'' [] None (sample_service []) = (Inr rt, s')"
    using sample_request_returns by blast
  have "tiers_hold (sample_service_env False) sample_labels (sample_service [])"
    by (simp add: tiers_hold_def sample_service_def memory_holds_def mc_new_def disk_holds_def remote_holds_def remote_get_def remote_fetch_def)
  from served_entries_right [OF this sample_entries_property server_reaches.start _ r] r show ?thesis
    by (simp add: base_holds_def sample_service_def)
qed

end
