(* ===== verification/Units.thy ===== *)
theory Units
  imports Prelude
begin

section \<open>Durations and sizes on the command line (server.rs)\<close>

text \<open>
  \<^verbatim>\<open>parse_duration\<close> and \<^verbatim>\<open>parse_byte_size\<close> of \<^verbatim>\<open>src/server.rs\<close>, which read the limits of the cache. Both count in
  64 bits: the size refuses to overflow, the duration saturates each term and refuses an overflowing sum.
\<close>

datatype unit_error = InvalidDuration | InvalidDurationUnit | DurationOverflow | InvalidSize | InvalidSizeUnit | SizeOverflow

definition checked_add :: "nat \<Rightarrow> nat \<Rightarrow> nat option" where
  "checked_add a b = (if a + b > usize_max then None else Some (a + b))"

definition saturating_mul :: "nat \<Rightarrow> nat \<Rightarrow> nat" where
  "saturating_mul a b = min usize_max (a * b)"

definition checked_mul :: "nat \<Rightarrow> nat \<Rightarrow> nat option" where
  "checked_mul a b = (if a * b > usize_max then None else Some (a * b))"

definition unit_seconds :: "char \<Rightarrow> nat \<Rightarrow> nat option" where
  "unit_seconds character amount =
     (if character = CHR ''d'' then Some (saturating_mul amount 86400)
      else if character = CHR ''h'' then Some (saturating_mul amount 3600)
      else if character = CHR ''m'' then Some (saturating_mul amount 60)
      else if character = CHR ''s'' then Some amount
      else None)"

fun duration_loop :: "string \<Rightarrow> nat \<Rightarrow> string \<Rightarrow> unit_error + nat" where
  "duration_loop [] seconds digits = (if digits \<noteq> [] then Inl InvalidDuration else Inr seconds)"
| "duration_loop (character # rest) seconds digits =
     (if is_ascii_digit character then duration_loop rest seconds (digits @ [character])
      else if digits = [] then Inl InvalidDuration
      else case parse_u64 digits of
             None \<Rightarrow> Inl InvalidDuration
           | Some amount \<Rightarrow>
               (case unit_seconds character amount of
                  None \<Rightarrow> Inl InvalidDurationUnit
                | Some term_seconds \<Rightarrow>
                    (case checked_add seconds term_seconds of
                       None \<Rightarrow> Inl DurationOverflow
                     | Some secs \<Rightarrow> duration_loop rest secs [])))"

definition parse_duration :: "string \<Rightarrow> unit_error + nat" where
  "parse_duration value =
     (let normalized = to_ascii_lowercase (str_trim value)
      in if normalized = [] then Inl InvalidDuration else duration_loop normalized 0 [])"

definition size_multiplier :: "string \<Rightarrow> nat option" where
  "size_multiplier u =
     (if u \<in> {'''', ''b''} then Some 1
      else if u \<in> {''k'', ''kb''} then Some 1024
      else if u \<in> {''m'', ''mb''} then Some (1024 ^ 2)
      else if u \<in> {''g'', ''gb''} then Some (1024 ^ 3)
      else if u \<in> {''t'', ''tb''} then Some (1024 ^ 4)
      else None)"

definition parse_byte_size :: "string \<Rightarrow> unit_error + nat" where
  "parse_byte_size value =
     (let normalized = to_ascii_lowercase (filter (\<lambda>ch. \<not> is_ascii_whitespace ch) (str_trim value));
          digits = takeWhile is_ascii_digit normalized
      in if digits = [] then Inl InvalidSize
         else case size_multiplier (drop (length digits) normalized) of
                None \<Rightarrow> Inl InvalidSizeUnit
              | Some multiplier \<Rightarrow>
                  (case parse_u64 digits of
                     None \<Rightarrow> Inl InvalidSize
                   | Some n \<Rightarrow> (case checked_mul n multiplier of None \<Rightarrow> Inl SizeOverflow | Some bytes \<Rightarrow> Inr bytes)))"

subsection \<open>What is read\<close>

lemma digit_not_white: "is_ascii_digit ch \<Longrightarrow> \<not> is_whitespace ch \<and> \<not> is_ascii_whitespace ch"
  by (auto simp: is_ascii_digit_def is_whitespace_def is_ascii_whitespace_def)

lemma lowercase_id: "list_all (\<lambda>ch. \<not> (65 \<le> (of_char ch :: nat) \<and> (of_char ch :: nat) \<le> 90)) s \<Longrightarrow> to_ascii_lowercase s = s"
  by (induction s) (auto simp: to_ascii_lowercase_def)

lemma str_trim_id: "list_all (\<lambda>ch. \<not> is_whitespace ch) s \<Longrightarrow> str_trim s = s"
proof -
  assume s: "list_all (\<lambda>ch. \<not> is_whitespace ch) s"
  then have "dropWhile is_whitespace s = s" "dropWhile is_whitespace (rev s) = rev s"
    by (auto simp: dropWhile_eq_self_iff list_all_iff hd_rev)
  then show ?thesis by (simp add: str_trim_def)
qed

lemma duration_loop_digits:
  "list_all is_ascii_digit ds \<Longrightarrow> duration_loop (ds @ rest) seconds digits = duration_loop rest seconds (digits @ ds)"
  by (induction ds arbitrary: digits) simp_all

text \<open>A duration as it is written: amounts with their units.\<close>

definition write_term :: "nat \<times> char \<Rightarrow> string" where
  "write_term t = show_nat (fst t) @ [snd t]"

definition term_seconds :: "nat \<times> char \<Rightarrow> nat" where
  "term_seconds t = fst t * (if snd t = CHR ''d'' then 86400 else if snd t = CHR ''h'' then 3600 else if snd t = CHR ''m'' then 60 else 1)"

definition term_ok :: "nat \<times> char \<Rightarrow> bool" where
  "term_ok t \<longleftrightarrow> snd t \<in> {CHR ''d'', CHR ''h'', CHR ''m'', CHR ''s''} \<and> fst t \<le> usize_max"

lemma unit_seconds_term: "term_ok t \<Longrightarrow> unit_seconds (snd t) (fst t) = Some (min usize_max (term_seconds t))"
  by (auto simp: term_ok_def unit_seconds_def term_seconds_def saturating_mul_def)

lemma term_unit_not_digit: "term_ok t \<Longrightarrow> \<not> is_ascii_digit (snd t)"
  by (auto simp: term_ok_def is_ascii_digit_def)

lemma duration_loop_terms:
  "list_all term_ok ts \<Longrightarrow> seconds \<le> usize_max \<Longrightarrow>
   duration_loop (concat (map write_term ts)) seconds [] =
     (if seconds + sum_list (map (\<lambda>t. min usize_max (term_seconds t)) ts) \<le> usize_max
      then Inr (seconds + sum_list (map (\<lambda>t. min usize_max (term_seconds t)) ts)) else Inl DurationOverflow)"
proof (induction ts arbitrary: seconds)
  case (Cons t ts)
  have t: "term_ok t" using Cons.prems by simp
  then have "fst t \<le> usize_max" by (simp add: term_ok_def)
  then have u: "parse_u64 (show_nat (fst t)) = Some (fst t)" by simp
  have "duration_loop (concat (map write_term (t # ts))) seconds [] = duration_loop (snd t # concat (map write_term ts)) seconds (show_nat (fst t))"
    using duration_loop_digits [of "show_nat (fst t)"] show_nat_digits by (simp add: write_term_def)
  also have "\<dots> = (if seconds + min usize_max (term_seconds t) > usize_max then Inl DurationOverflow
      else duration_loop (concat (map write_term ts)) (seconds + min usize_max (term_seconds t)) [])"
    using u show_nat_digits [of "fst t"] t by (simp add: unit_seconds_term term_unit_not_digit checked_add_def)
  finally show ?case using Cons.IH [of "seconds + min usize_max (term_seconds t)"] Cons.prems by auto
qed simp

lemma write_term_plain: "term_ok t \<Longrightarrow> list_all (\<lambda>ch. \<not> is_whitespace ch \<and> \<not> (65 \<le> (of_char ch :: nat) \<and> (of_char ch :: nat) \<le> 90)) (write_term t)"
  using show_nat_digits [of "fst t"] digit_not_white
  by (auto simp: write_term_def list_all_iff term_ok_def is_whitespace_def is_ascii_digit_def)

lemma parse_duration_terms:
  assumes "ts \<noteq> []" "list_all term_ok ts"
  shows "parse_duration (concat (map write_term ts)) =
    (let secs = sum_list (map (\<lambda>t. min usize_max (term_seconds t)) ts)
     in if secs \<le> usize_max then Inr secs else Inl DurationOverflow)"
proof -
  let ?s = "concat (map write_term ts)"
  have p: "list_all (\<lambda>ch. \<not> is_whitespace ch) ?s" "list_all (\<lambda>ch. \<not> (65 \<le> (of_char ch :: nat) \<and> (of_char ch :: nat) \<le> 90)) ?s"
    using assms(2) write_term_plain by (fastforce simp: list_all_iff)+
  have "?s \<noteq> []" using assms(1) by (cases ts) (auto simp: write_term_def)
  then show ?thesis
    using duration_loop_terms [OF assms(2), of 0] by (simp add: parse_duration_def str_trim_id [OF p(1)] lowercase_id [OF p(2)] Let_def)
qed

text \<open>
  Reading a duration written as amounts with units gives the sum of its terms, each capped at the largest
  64-bit number, and fails exactly when that sum does not fit: no sum wraps around.
\<close>

theorem parse_duration_sum:
  assumes "ts \<noteq> []" "list_all term_ok ts"
  shows "parse_duration (concat (map write_term ts)) =
    (let secs = sum_list (map (\<lambda>t. min usize_max (term_seconds t)) ts)
     in if secs \<le> usize_max then Inr secs else Inl DurationOverflow)"
  by (rule parse_duration_terms [OF assms])

theorem parse_duration_sum_witness:
  "parse_duration ''1d12h30m'' = Inr 131400"
proof -
  have "parse_duration (concat (map write_term [(1, CHR ''d''), (12, CHR ''h''), (30, CHR ''m'')])) = Inr 131400"
    by (subst parse_duration_sum) (simp_all add: term_ok_def usize_max_def term_seconds_def Let_def)
  moreover have "concat (map write_term [(1, CHR ''d''), (12, CHR ''h''), (30, CHR ''m'')]) = ''1d12h30m''" by code_simp
  ultimately show ?thesis by simp
qed

text \<open>One term too large is capped and accepted.\<close>

lemma parse_duration_saturates: "parse_duration (show_nat 213503982334602 @ ''d'') = Inr usize_max"
proof -
  have "parse_duration (concat (map write_term [(213503982334602, CHR ''d'')])) = Inr usize_max"
    by (subst parse_duration_terms) (simp_all add: term_ok_def usize_max_def term_seconds_def Let_def)
  then show ?thesis by (simp add: write_term_def)
qed

text \<open>
  Reading a size written as a number and a unit gives the number of bytes, exactly, and fails exactly when it does
  not fit in 64 bits.
\<close>

theorem parse_byte_size_exact:
  assumes "size_multiplier u = Some k" "n \<le> usize_max"
  shows "parse_byte_size (show_nat n @ u) = (if n * k \<le> usize_max then Inr (n * k) else Inl SizeOverflow)"
proof -
  have u: "u \<in> {'''', ''b'', ''k'', ''kb'', ''m'', ''mb'', ''g'', ''gb'', ''t'', ''tb''}"
    using assms(1) by (auto simp: size_multiplier_def split: if_splits)
  let ?s = "show_nat n @ u"
  have d: "list_all is_ascii_digit (show_nat n)" "show_nat n \<noteq> []" using show_nat_digits by auto
  have "list_all (\<lambda>ch. \<not> is_whitespace ch \<and> \<not> is_ascii_whitespace ch \<and> \<not> (65 \<le> (of_char ch :: nat) \<and> (of_char ch :: nat) \<le> 90)) u"
    using u by (auto simp: is_whitespace_def is_ascii_whitespace_def)
  then have p: "list_all (\<lambda>ch. \<not> is_whitespace ch \<and> \<not> is_ascii_whitespace ch \<and> \<not> (65 \<le> (of_char ch :: nat) \<and> (of_char ch :: nat) \<le> 90)) ?s"
    using d digit_not_white by (auto simp: list_all_iff is_ascii_digit_def)
  have "takeWhile is_ascii_digit u = []" using u by (auto simp: is_ascii_digit_def)
  then have t: "takeWhile is_ascii_digit ?s = show_nat n" using d by (simp add: takeWhile_append list_all_iff)
  have "filter (\<lambda>ch. \<not> is_ascii_whitespace ch) ?s = ?s" using p by (simp add: list_all_iff del: filter_append)
  moreover have "to_ascii_lowercase ?s = ?s" "str_trim ?s = ?s" using p by (auto intro!: lowercase_id str_trim_id simp: list_all_iff)
  ultimately show ?thesis using assms d t by (simp add: parse_byte_size_def Let_def checked_mul_def)
qed

theorem parse_byte_size_exact_witness:
  "parse_byte_size (show_nat 10 @ ''gb'') = Inr 10737418240 \<and> parse_byte_size (show_nat 18446744073709551615 @ ''tb'') = Inl SizeOverflow"
  using parse_byte_size_exact [of "''gb''" "1024 ^ 3" 10] parse_byte_size_exact [of "''tb''" "1024 ^ 4" 18446744073709551615]
  by (simp add: size_multiplier_def usize_max_def)

end
