(* ===== verification/Query_Server.thy ===== *)
theory Query_Server
  imports Service_Tiers Module_Graph
begin

section \<open>Answering queries (server.rs)\<close>

text \<open>
  \<^verbatim>\<open>parse_query_inputs\<close>, \<^verbatim>\<open>resolve_both\<close>, \<^verbatim>\<open>fetch_revision\<close>, \<^verbatim>\<open>compute_query\<close>, \<^verbatim>\<open>warm_revision\<close>, \<^verbatim>\<open>perform_initial_fetch\<close> and
  \<^verbatim>\<open>route\<close> of \<^verbatim>\<open>src/server.rs\<close>. The URL decoder, the JSON parser, Bazel and the clock are parameters, as is how long a
  query waits for the workspace. A hash set is a list whose order nothing depends on. Durations and memory
  figures of a profile are left out.
\<close>

subsection \<open>Requests\<close>

record query_body =
  qb_from :: "string option"
  qb_to :: "string option"
  qb_target_type :: "string list option"
  qb_modified_filepaths :: "string list option"
  qb_profile :: "bool option"

record query_inputs =
  qi_from :: string
  qi_to :: string
  qi_target_types :: "string list option"
  qi_modified_filepaths :: "string list"
  qi_profile :: bool

datatype query_kind = LabelsKind | DistancesKind | DepEdgesKind

datatype http_method = Get | Post | OtherMethod

record http_request =
  rq_method :: http_method
  rq_url :: string
  rq_body :: "string option"

datatype input_error = UnreadableBody | MissingBody | InvalidBody | MissingFields | MissingParameters

definition de_query_body :: "json \<Rightarrow> query_body option" where
  "de_query_body j =
     (if \<not> struct_shape 5 j then None
      else Option.bind (de_field j 0 ''from'' (de_option de_string) (Some None) None) (\<lambda>from.
           Option.bind (de_field j 1 ''to'' (de_option de_string) (Some None) None) (\<lambda>to.
           Option.bind (de_field j 2 ''targetType'' (de_option (de_seq de_string)) (Some None) None) (\<lambda>types.
           Option.bind (de_field j 3 ''modifiedFilepaths'' (de_option (de_seq de_string)) (Some None) None) (\<lambda>modified.
           Option.bind (de_field j 4 ''profile'' (de_option de_bool) (Some None) None) (\<lambda>prf.
             Some \<lparr>qb_from = from, qb_to = to, qb_target_type = types, qb_modified_filepaths = modified, qb_profile = prf\<rparr>))))))"

definition trimmed :: "string list \<Rightarrow> string list" where
  "trimmed values = filter (\<lambda>value. value \<noteq> []) (map str_trim values)"

definition normalized_types :: "string list option \<Rightarrow> string list option" where
  "normalized_types types =
     (case types of
        None \<Rightarrow> None
      | Some values \<Rightarrow> (let kept = remdups (trimmed values) in if kept = [] then None else Some kept))"

definition nonempty :: "string option \<Rightarrow> string option" where
  "nonempty value = (case value of Some v \<Rightarrow> if v = [] then None else Some v | None \<Rightarrow> None)"

definition parse_post :: "json_parser \<Rightarrow> string option \<Rightarrow> input_error + query_inputs" where
  "parse_post from_str raw =
     (case raw of
        None \<Rightarrow> Inl UnreadableBody
      | Some txt \<Rightarrow>
          if str_trim txt = [] then Inl MissingBody
          else case Option.bind (from_str txt) de_query_body of
                 None \<Rightarrow> Inl InvalidBody
               | Some body \<Rightarrow>
                   (case nonempty (qb_from body) of
                      None \<Rightarrow> Inl MissingFields
                    | Some from \<Rightarrow>
                        (case nonempty (qb_to body) of
                           None \<Rightarrow> Inl MissingFields
                         | Some to \<Rightarrow>
                             Inr \<lparr>qi_from = from, qi_to = to, qi_target_types = normalized_types (qb_target_type body),
                                  qi_modified_filepaths =
                                    bs_of_list (trimmed (case qb_modified_filepaths body of None \<Rightarrow> [] | Some ps \<Rightarrow> ps)),
                                  qi_profile = (qb_profile body = Some True)\<rparr>)))"

text \<open>The decoded pairs go into a hash map, so the last of a repeated name counts.\<close>

definition parse_get :: "(string \<times> string) list \<Rightarrow> input_error + query_inputs" where
  "parse_get pairs =
     (let params = map_of (rev pairs)
      in case nonempty (params ''from'') of
           None \<Rightarrow> Inl MissingParameters
         | Some from \<Rightarrow>
             (case nonempty (params ''to'') of
                None \<Rightarrow> Inl MissingParameters
              | Some to \<Rightarrow>
                  Inr \<lparr>qi_from = from, qi_to = to,
                       qi_target_types = normalized_types (map_option (split_on (CHR '','')) (params ''targetType'')),
                       qi_modified_filepaths = [], qi_profile = (params ''profile'' = Some ''true'')\<rparr>))"

definition parse_query_inputs :: "json_parser \<Rightarrow> (string \<Rightarrow> (string \<times> string) list) \<Rightarrow> http_request \<Rightarrow> string \<Rightarrow> input_error + query_inputs" where
  "parse_query_inputs from_str form_urlencoded request query =
     (if rq_method request = Post then parse_post from_str (rq_body request) else parse_get (form_urlencoded query))"

subsection \<open>Revisions\<close>

fun fetch_any :: "'w git \<Rightarrow> string \<Rightarrow> string list \<Rightarrow> 'w \<Rightarrow> bool \<times> 'w" where
  "fetch_any g revision [] w = (False, w)"
| "fetch_any g revision (remote # remotes) w =
     (case git_run g [''fetch'', remote, revision] w of
        (Inr _, w') \<Rightarrow> (True, w')
      | (Inl _, w') \<Rightarrow> fetch_any g revision remotes w')"

definition fetch_revision :: "'w git \<Rightarrow> string \<Rightarrow> 'w \<Rightarrow> bool \<times> 'w" where
  "fetch_revision g revision w =
     (case git_out g [''remote''] w of
        (Inl _, w') \<Rightarrow> (False, w')
      | (Inr out, w') \<Rightarrow>
          if \<not> go_success out then (False, w') else fetch_any g revision (trimmed (str_lines (go_stdout out))) w')"

definition fetch_missing :: "'w git \<Rightarrow> string \<Rightarrow> 'w \<Rightarrow> 'w" where
  "fetch_missing g revision w =
     (case resolve_sha g revision w of
        (Inl _, w') \<Rightarrow> snd (fetch_revision g revision w')
      | (Inr _, w') \<Rightarrow> w')"

definition FETCH_ALL :: "string list" where
  "FETCH_ALL = [''fetch'', ''--all'', ''--tags'']"

definition resolve_pair :: "'w git \<Rightarrow> string \<Rightarrow> string \<Rightarrow> 'w \<Rightarrow> (git_error + string \<times> string) \<times> 'w" where
  "resolve_pair g from to w =
     (case resolve_sha g from w of
        (Inl err, w1) \<Rightarrow> (Inl err, w1)
      | (Inr f, w1) \<Rightarrow> (case resolve_sha g to w1 of (Inl err, w2) \<Rightarrow> (Inl err, w2) | (Inr t, w2) \<Rightarrow> (Inr (f, t), w2)))"

definition resolve_both :: "'w git \<Rightarrow> string \<Rightarrow> string \<Rightarrow> 'w \<Rightarrow> (git_error + string \<times> string) \<times> 'w" where
  "resolve_both g from to w =
     (let (rf, w1) = resolve_sha g from w; (rt, w2) = resolve_sha g to w1
      in case (rf, rt) of
           (Inr f, Inr t) \<Rightarrow> (Inr (f, t), w2)
         | _ \<Rightarrow>
             (case git_run g FETCH_ALL w2 of
                (Inl err, w3) \<Rightarrow> (Inl err, w3)
              | (Inr _, w3) \<Rightarrow> resolve_pair g from to (fold (fetch_missing g) (bs_of_list [from, to]) w3)))"

subsection \<open>The answer\<close>

record 'w query_env =
  qe_service :: "'w service_env"
  qe_limits :: prune_limits
  qe_now :: "'w \<Rightarrow> nat"
  qe_locked :: "'w \<Rightarrow> string \<Rightarrow> bool"
  qe_modified :: "'w \<Rightarrow> string \<Rightarrow> nat option option"
  qe_acquire :: "'w \<Rightarrow> bool"
  qe_from_str :: json_parser
  qe_bzlmod :: "'w \<Rightarrow> bool \<times> 'w"
  qe_query :: "'w \<Rightarrow> string \<Rightarrow> string + qtarget list"
  qe_key_order :: "label list \<Rightarrow> label list"
  qe_memo_order :: "label list \<Rightarrow> label list"

datatype query_error = RevisionError git_error | HashesError service_error | CompareError model_error | GaveUp

record answer_profile =
  ap_retrievals :: "(string \<times> bool) list"
  ap_module_graph_changed :: bool

datatype impacted_value = LabelList "label list" | DistanceList "impacted_target_with_distance list"

datatype query_answer =
    EdgesAnswer "(string, string list) btree"
  | ImpactedAnswer string string impacted_value "answer_profile option"

definition pruned :: "'w query_env \<Rightarrow> 'w service \<Rightarrow> 'w service" where
  "pruned q s =
     (let w = sv_world s;
          files = map (\<lambda>(name, bs). \<lparr>df_name = name, df_metadata = map_option (Pair (length bs)) (qe_modified q w name)\<rparr>) (sv_disk s);
          kept = set (map df_name (prune_cache (qe_locked q w) (qe_now q w) (qe_limits q) files))
      in s\<lparr>sv_disk := filter (\<lambda>(name, _). name \<in> kept) (sv_disk s)\<rparr>)"

definition distance_base :: "label list \<Rightarrow> label list \<Rightarrow> (label, target_hash) btree \<Rightarrow> (label, target_hash) btree" where
  "distance_base impacted hash_impacted from =
     fold (\<lambda>lbl t. filter (\<lambda>(key, _). key \<noteq> lbl) t) (filter (\<lambda>lbl. lbl \<notin> set hash_impacted) impacted) from"

definition compare_revisions ::
  "'w query_env \<Rightarrow> query_kind \<Rightarrow> string list option \<Rightarrow> bool \<Rightarrow> hash_file_data \<Rightarrow> hash_file_data \<Rightarrow> label list \<Rightarrow> model_error + impacted_value" where
  "compare_revisions q query_kind types exclude_external from to impacted =
     (if query_kind = DistancesKind then
        (case impacted_targets (hashes from) (hashes to) None False of
           Inl err \<Rightarrow> Inl err
         | Inr hash_impacted \<Rightarrow>
             map_sum id DistanceList (impacted_targets_with_distances (qe_key_order q) (qe_memo_order q)
               (distance_base impacted hash_impacted (hashes from)) (hashes to) (dep_edges to) types exclude_external))
      else map_sum id LabelList (filter_and_sort_labels impacted (hashes from) (hashes to) types exclude_external))"

text \<open>The two entries of a comparison, each with whether it was a hit.\<close>

definition retrieve_both :: "'w query_env \<Rightarrow> query_inputs \<Rightarrow> string \<Rightarrow> string \<Rightarrow> 'w service \<Rightarrow> (query_error + retrieval \<times> retrieval) \<times> 'w service" where
  "retrieve_both q inputs from_sha to_sha s =
     (case get_hashes_locked (qe_service q) from_sha (qi_modified_filepaths inputs) None s of
        (Inl err, s1) \<Rightarrow> (Inl (HashesError err), s1)
      | (Inr from, s1) \<Rightarrow>
          (case get_hashes_locked (qe_service q) to_sha (qi_modified_filepaths inputs) (Some (from_sha, rt_data from)) s1 of
             (Inl err, s2) \<Rightarrow> (Inl (HashesError err), s2)
           | (Inr to, s2) \<Rightarrow> (Inr (from, to), s2)))"

definition diff_revisions ::
  "'w query_env \<Rightarrow> query_kind \<Rightarrow> query_inputs \<Rightarrow> string \<Rightarrow> hash_file_data \<Rightarrow> hash_file_data \<Rightarrow> 'w service \<Rightarrow> (query_error + impacted_value) \<times> 'w service" where
  "diff_revisions q query_kind inputs to_sha from to s =
     (case checkout (qe_service q) to_sha s of
        (Inl err, s1) \<Rightarrow> (Inl (HashesError err), s1)
      | (Inr _, s1) \<Rightarrow>
          (let (exclude_external, w) = qe_bzlmod q (sv_world s1); s2 = s1\<lparr>sv_world := w\<rparr>
           in case impacted_with_module_changes (qe_from_str q) from to (Some (qe_query q w)) of
                Inl err \<Rightarrow> (Inl (CompareError err), s2)
              | Inr impacted \<Rightarrow>
                  (case compare_revisions q query_kind (qi_target_types inputs) exclude_external from to impacted of
                     Inl err \<Rightarrow> (Inl (CompareError err), s2)
                   | Inr v \<Rightarrow> (Inr v, s2))))"

definition compute_query :: "'w query_env \<Rightarrow> query_kind \<Rightarrow> query_inputs \<Rightarrow> 'w service \<Rightarrow> (query_error + query_answer) \<times> 'w service" where
  "compute_query q query_kind inputs s =
     (if \<not> qe_acquire q (sv_world s) then (Inl GaveUp, s)
      else case resolve_both (se_git (qe_service q)) (qi_from inputs) (qi_to inputs) (sv_world s) of
        (Inl err, w) \<Rightarrow> (Inl (RevisionError err), s\<lparr>sv_world := w\<rparr>)
      | (Inr (from_sha, to_sha), w) \<Rightarrow>
          if query_kind = DepEdgesKind then
            (case get_hashes_locked (qe_service q) to_sha [] None (s\<lparr>sv_world := w\<rparr>) of
               (Inl err, s1) \<Rightarrow> (Inl (HashesError err), s1)
             | (Inr to, s1) \<Rightarrow> (Inr (EdgesAnswer (dep_edges (rt_data to))), pruned q s1))
          else
            (case retrieve_both q inputs from_sha to_sha (s\<lparr>sv_world := w\<rparr>) of
               (Inl err, s1) \<Rightarrow> (Inl err, s1)
             | (Inr (from, to), s1) \<Rightarrow>
                 (case diff_revisions q query_kind inputs to_sha (rt_data from) (rt_data to) s1 of
                    (Inl err, s2) \<Rightarrow> (Inl err, s2)
                  | (Inr impacted_value, s2) \<Rightarrow>
                      (Inr (ImpactedAnswer from_sha to_sha impacted_value
                         (if qi_profile inputs then
                            Some \<lparr>ap_retrievals = [(from_sha, rt_hit from), (to_sha, rt_hit to)],
                                  ap_module_graph_changed = (module_graph_json (rt_data from) \<noteq> module_graph_json (rt_data to))\<rparr>
                          else None)), pruned q s2))))"

subsection \<open>Starting up\<close>

definition warm_revision :: "'w query_env \<Rightarrow> string \<Rightarrow> 'w service \<Rightarrow> (query_error + unit) \<times> 'w service" where
  "warm_revision q revision s =
     (if \<not> qe_acquire q (sv_world s) then (Inl GaveUp, s)
      else case resolve_sha (se_git (qe_service q)) revision (sv_world s) of
        (Inl err, w) \<Rightarrow> (Inl (RevisionError err), s\<lparr>sv_world := w\<rparr>)
      | (Inr sha, w) \<Rightarrow>
          (case get_hashes_locked (qe_service q) sha [] None (s\<lparr>sv_world := w\<rparr>) of
             (Inl err, s1) \<Rightarrow> (Inl (HashesError err), s1)
           | (Inr _, s1) \<Rightarrow> (Inr (), s1)))"

definition perform_initial_fetch :: "'w query_env \<Rightarrow> bool \<Rightarrow> string list \<Rightarrow> 'w service \<Rightarrow> bool \<times> 'w service" where
  "perform_initial_fetch q no_initial_fetch warmup_revisions s =
     (let (fetched, w) = (if no_initial_fetch then (Inr (), sv_world s) else git_run (se_git (qe_service q)) FETCH_ALL (sv_world s));
          s1 = s\<lparr>sv_world := w\<rparr>
      in case fetched of
           Inl _ \<Rightarrow> (False, s1)
         | Inr _ \<Rightarrow> (True, fold (\<lambda>revision st. snd (warm_revision q revision st)) warmup_revisions s1))"

subsection \<open>Routing\<close>

datatype response_body =
    Plain string
  | MetricsBody
  | MethodNotAllowed string
  | NotReady
  | NotFound
  | BadInputs input_error
  | Unavailable string
  | TimedOut nat bool
  | QueryFailed query_error
  | Answer query_answer

text \<open>
  How the wait for the worker ended: with its result, or at the timeout, after which the query is cancelled and
  \<^verbatim>\<open>cancel_query\<close> says whether its worker stopped within the grace period.
\<close>

datatype waited = Finished | Expired bool

definition query_kind_of :: "string \<Rightarrow> query_kind" where
  "query_kind_of p =
     (if p = ''/dependency_edges'' then DepEdgesKind
      else if p = ''/impacted_targets_with_distances'' then DistancesKind
      else LabelsKind)"

definition route ::
  "'w query_env \<Rightarrow> (string \<Rightarrow> (string \<times> string) list) \<Rightarrow> nat \<Rightarrow> (query_inputs \<Rightarrow> 'w service \<Rightarrow> waited) \<Rightarrow> bool \<Rightarrow> http_request \<Rightarrow> 'w service \<Rightarrow>
   (nat \<times> response_body) \<times> 'w service" where
  "route q form_urlencoded timeout wait_for ready request s =
     (let (p, query) = (case split_once (CHR ''?'') (rq_url request) of Some pq \<Rightarrow> pq | None \<Rightarrow> (rq_url request, ''''))
      in if p = ''/health'' then ((if ready then 200 else 503, Plain (if ready then ''OK'' @ [CHR 0x0A] else ''NOT_READY'' @ [CHR 0x0A])), s)
         else if p = ''/metrics'' then
           (if rq_method request \<noteq> Get then ((405, MethodNotAllowed ''method not allowed, use GET''), s) else ((200, MetricsBody), s))
         else if p \<in> {''/impacted_targets'', ''/impacted_targets_with_distances'', ''/dependency_edges''} then
           (if \<not> ready then ((503, NotReady), s)
            else if rq_method request \<noteq> Get \<and> rq_method request \<noteq> Post then ((405, MethodNotAllowed ''method not allowed, use GET or POST''), s)
            else case parse_query_inputs (qe_from_str q) form_urlencoded request query of
                   Inl err \<Rightarrow> ((400, BadInputs err), s)
                 | Inr inputs \<Rightarrow>
                     (let query_kind = query_kind_of p
                      in if query_kind \<in> {DistancesKind, DepEdgesKind} \<and> \<not> sc_track_deps (se_config (qe_service q)) then
                           ((400, Unavailable (if query_kind = DepEdgesKind then ''dependency edges unavailable'' else ''distances unavailable'')), s)
                         else
                           (let (computed, s') = compute_query q query_kind inputs s
                            in case (if timeout = 0 then Finished else wait_for inputs s) of
                                 Expired stopped \<Rightarrow> ((504, TimedOut timeout stopped), s')
                               | Finished \<Rightarrow>
                                   (case computed of
                                      Inr answer \<Rightarrow> ((200, Answer answer), s')
                                    | Inl err \<Rightarrow> ((400, QueryFailed err), s')))))
         else ((404, NotFound), s))"

end
