(* ===== verification/Query_Answers.thy ===== *)
theory Query_Answers
  imports Query_Server
begin

section \<open>What a query answers\<close>

text \<open>
  The endpoints of \<^verbatim>\<open>src/server.rs\<close> agree with each other, compare the entries of the revisions asked for, and
  answer with the status each failure has.
\<close>

lemma map_sum_eq_Inr: "map_sum f g x = Inr y \<longleftrightarrow> (\<exists>z. x = Inr z \<and> y = g z)"
  by (cases x) auto

subsection \<open>Labels and distances\<close>

fun value_labels :: "impacted_value \<Rightarrow> label list" where
  "value_labels (LabelList ls) = ls"
| "value_labels (DistanceList ts) = map target ts"

lemma bt_get_distance_base:
  "bt_get (distance_base impacted hash_impacted from) lbl =
     (if lbl \<in> set impacted \<and> lbl \<notin> set hash_impacted then None else bt_get from lbl)"
proof -
  have "bt_get (fold (\<lambda>l t. filter (\<lambda>(key, _). key \<noteq> l) t) ls t) lbl = (if lbl \<in> set ls then None else bt_get t lbl)"
    for ls and t :: "(label, target_hash) btree"
    by (induction ls arbitrary: t) (auto simp: bt_get_filter_key)
  then show ?thesis by (simp add: distance_base_def)
qed

lemma filter_and_sort_closed:
  assumes "\<forall>l \<in> set ls. bt_get to l \<noteq> None"
  shows "filter_and_sort_labels ls from to types x =
    (if \<exists>l \<in> set ls. kept_label x l \<and> untyped_label to types l then Inl NoTargetTypeInfo
     else Inr (map snd (sorted_list_of_set ((\<lambda>l. (rank_of from to l, l)) ` {l \<in> set ls. kept_label x l \<and> accepted_label to types l}))))"
proof -
  let ?ls = "filter (kept_label x) ls"
  have "\<forall>l \<in> set ?ls. bt_get to l \<noteq> None" using assms by simp
  moreover have "set (map (\<lambda>l. (rank_of from to l, l)) (filter (accepted_label to types) ?ls)) =
      (\<lambda>l. (rank_of from to l, l)) ` {l \<in> set ls. kept_label x l \<and> accepted_label to types l}" by auto
  moreover have "list_ex (untyped_label to types) ?ls \<longleftrightarrow> (\<exists>l \<in> set ls. kept_label x l \<and> untyped_label to types l)"
    by (auto simp: list_ex_iff)
  ultimately show ?thesis unfolding filter_and_sort_labels_def remdups_sort_eq by (simp add: collect_accepted del: filter_filter set_map)
qed

lemma moved_distance_base:
  assumes "set hash_impacted = moved_labels from to False" "set hash_impacted \<subseteq> set impacted" "\<forall>l \<in> set impacted. bt_get to l \<noteq> None"
  shows "moved_labels (distance_base impacted hash_impacted from) to x = {l \<in> set impacted. kept_label x l}"
  using assms by (force simp: moved_labels_def bt_get_distance_base kept_label_def split: if_splits)

lemma rank_of_base: "bt_get to lbl \<noteq> None \<Longrightarrow> rank_of from to lbl = rank_of from' to lbl"
  by (auto simp: rank_of_def)

lemma impacted_of_base:
  assumes "bt_inv to" "set hash_impacted = moved_labels from to False" "set hash_impacted \<subseteq> set impacted" "\<forall>l \<in> set impacted. bt_get to l \<noteq> None"
  shows "impacted_targets (distance_base impacted hash_impacted from) to types x = filter_and_sort_labels impacted from to types x"
proof -
  note moved = moved_distance_base [OF assms(2-4), of x]
  have "(\<lambda>l. (rank_of (distance_base impacted hash_impacted from) to l, l)) ` {l \<in> {l \<in> set impacted. kept_label x l}. accepted_label to types l} =
      (\<lambda>l. (rank_of from to l, l)) ` {l \<in> set impacted. kept_label x l \<and> accepted_label to types l}"
    using assms(4) rank_of_base by (intro image_cong) auto
  then show ?thesis
    unfolding impacted_targets_closed [OF assms(1)] filter_and_sort_closed [OF assms(4)] moved by auto
qed

text \<open>What the comparison needs of two entries: labels in order, every impacted label hashed, no impacted label depending on itself.\<close>

definition comparable :: "'w query_env \<Rightarrow> hash_file_data \<Rightarrow> hash_file_data \<Rightarrow> bool" where
  "comparable q from to \<longleftrightarrow>
     bt_inv (hashes to) \<and>
     (\<forall>w impacted hash_impacted. impacted_with_module_changes (qe_from_str q) from to (Some (qe_query q w)) = Inr impacted \<longrightarrow>
        impacted_targets (hashes from) (hashes to) None False = Inr hash_impacted \<longrightarrow>
        (\<forall>l \<in> set impacted. bt_get (hashes to) l \<noteq> None) \<and>
        acyclic_impact (dep_edges to) (impacted_types (distance_base impacted hash_impacted (hashes from)) (hashes to)))"

lemma impacted_targets_all:
  assumes "bt_inv to" "impacted_targets from to None False = Inr labels"
  shows "set labels = moved_labels from to False"
proof -
  have "finite (moved_labels from to False)"
    by (rule finite_subset [of _ "fst ` set to"]) (force simp: moved_labels_def dest: map_of_SomeD)+
  moreover have "labels = map snd (sorted_list_of_set ((\<lambda>lbl. (rank_of from to lbl, lbl)) ` moved_labels from to False))"
    using assms(2) unfolding impacted_targets_closed [OF assms(1)] by (simp add: untyped_label_def accepted_label_def)
  ultimately show ?thesis by (force simp: image_image)
qed

lemma module_changes_widen:
  assumes "impacted_with_module_changes from_str from to bq = Inr impacted" "impacted_targets (hashes from) (hashes to) None False = Inr labels"
  shows "bq \<noteq> None \<Longrightarrow> set labels \<subseteq> set impacted"
  using assms by (auto simp: impacted_with_module_changes_def impacted_with_module_query_def Let_def split: if_splits option.splits sum.splits)

text \<open>The labels listed with distances are those listed without.\<close>

lemma distances_list_impacted:
  assumes inv: "bt_inv to" and l: "impacted_targets from to None False = Inr labels" and sub: "set labels \<subseteq> set impacted"
    and known: "\<forall>l \<in> set impacted. bt_get to l \<noteq> None" and acyclic: "acyclic_impact edges (impacted_types (distance_base impacted labels from) to)"
    and orders: "\<And>ls. mset (key_order ls) = mset ls" "\<And>ls. mset (memo_order ls) = mset ls"
  shows "map_sum id (map target) (impacted_targets_with_distances key_order memo_order (distance_base impacted labels from) to edges types x) =
    filter_and_sort_labels impacted from to types x"
proof -
  note set_l = impacted_targets_all [OF inv l]
  let ?base = "distance_base impacted labels from"
  obtain f where f: "impacted_targets_with_distances key_order memo_order ?base to edges types x = map_sum id (map f) (impacted_targets ?base to types x)"
      "\<forall>lbl \<in> moved_labels ?base to False. target (f lbl) = lbl"
    using distances_of_impacted_targets [of to edges ?base key_order memo_order, OF inv acyclic orders] by blast
  have "target (f lbl) = lbl" if "lbl \<in> set impacted" for lbl
    using f(2) that moved_distance_base [OF set_l sub known, of False] by (simp add: kept_label_def)
  moreover have "set ls \<subseteq> set impacted" if "filter_and_sort_labels impacted from to types x = Inr ls" for ls
    using that unfolding filter_and_sort_closed [OF known] by (auto split: if_splits)
  ultimately have "map_sum id (map target) (map_sum id (map f) (filter_and_sort_labels impacted from to types x)) = filter_and_sort_labels impacted from to types x"
    by (cases "filter_and_sort_labels impacted from to types x") (auto intro!: map_idI)
  then show ?thesis unfolding f(1) impacted_of_base [OF inv set_l sub known] .
qed

lemma all_impacted_targets: "bt_inv to \<Longrightarrow> \<exists>labels. impacted_targets from to None False = Inr labels"
  by (simp add: impacted_targets_closed untyped_label_def)

lemma compare_agree:
  assumes "comparable q from to" "impacted_with_module_changes (qe_from_str q) from to (Some (qe_query q w)) = Inr impacted"
    and "\<And>ls. mset (qe_key_order q ls) = mset ls" "\<And>ls. mset (qe_memo_order q ls) = mset ls"
  shows "map_sum id value_labels (compare_revisions q DistancesKind types x from to impacted) =
    map_sum id value_labels (compare_revisions q LabelsKind types x from to impacted)"
proof -
  have inv: "bt_inv (hashes to)" using assms(1) by (simp add: comparable_def)
  obtain labels where l: "impacted_targets (hashes from) (hashes to) None False = Inr labels" using all_impacted_targets [OF inv] by blast
  have c: "\<forall>l \<in> set impacted. bt_get (hashes to) l \<noteq> None" "acyclic_impact (dep_edges to) (impacted_types (distance_base impacted labels (hashes from)) (hashes to))"
    using assms(1,2) l unfolding comparable_def by blast+
  have sub: "set labels \<subseteq> set impacted" using module_changes_widen [OF assms(2) l] by simp
  from distances_list_impacted [OF inv l sub c assms(3,4), of types x] show ?thesis
    by (simp add: compare_revisions_def l sum.map_comp comp_def sum.map_ident id_def)
qed


lemma diff_agree:
  assumes "comparable q from to" "\<And>ls. mset (qe_key_order q ls) = mset ls" "\<And>ls. mset (qe_memo_order q ls) = mset ls"
  shows "map_prod (map_sum id value_labels) id (diff_revisions q DistancesKind inputs sha from to s) =
    map_prod (map_sum id value_labels) id (diff_revisions q LabelsKind inputs sha from to s)"
proof -
  obtain r s1 where c: "checkout (qe_service q) sha s = (r, s1)" by force
  obtain x w where b: "qe_bzlmod q (sv_world s1) = (x, w)" by force
  show ?thesis
  proof (cases "impacted_with_module_changes (qe_from_str q) from to (Some (qe_query q w))")
    case (Inl err)
    then show ?thesis by (simp add: diff_revisions_def c b split: sum.splits)
  next
    case (Inr impacted)
    have "map_sum id value_labels (compare_revisions q DistancesKind (qi_target_types inputs) x from to impacted) =
        map_sum id value_labels (compare_revisions q LabelsKind (qi_target_types inputs) x from to impacted)"
      by (rule compare_agree [OF assms(1) Inr assms(2,3)])
    then show ?thesis using Inr
      by (cases "compare_revisions q DistancesKind (qi_target_types inputs) x from to impacted";
          cases "compare_revisions q LabelsKind (qi_target_types inputs) x from to impacted")
        (auto simp: diff_revisions_def c b Let_def split: sum.splits)
  qed
qed

text \<open>An answer without the distances.\<close>

fun answer_labels :: "query_answer \<Rightarrow> query_answer" where
  "answer_labels (ImpactedAnswer from_sha to_sha v prf) = ImpactedAnswer from_sha to_sha (LabelList (value_labels v)) prf"
| "answer_labels a = a"

text \<open>
  The two endpoints agree. Where the entries of the two revisions are comparable, \<^verbatim>\<open>/impacted_targets_with_distances\<close>
  answers with the labels \<^verbatim>\<open>/impacted_targets\<close> answers with, in the same order, fails when it fails and with the
  same error, and leaves the server in the same state, module changes and target types included.
\<close>

theorem endpoints_agree:
  assumes "\<And>f t w from to s2. resolve_both (se_git (qe_service q)) (qi_from inputs) (qi_to inputs) (sv_world s) = (Inr (f, t), w) \<Longrightarrow>
      retrieve_both q inputs f t (s\<lparr>sv_world := w\<rparr>) = (Inr (from, to), s2) \<Longrightarrow> comparable q (rt_data from) (rt_data to)"
    and "\<And>ls. mset (qe_key_order q ls) = mset ls" "\<And>ls. mset (qe_memo_order q ls) = mset ls"
  shows "map_prod (map_sum id answer_labels) id (compute_query q DistancesKind inputs s) =
    map_prod (map_sum id answer_labels) id (compute_query q LabelsKind inputs s)"
proof -
  obtain r w where r: "resolve_both (se_git (qe_service q)) (qi_from inputs) (qi_to inputs) (sv_world s) = (r, w)" by force
  show ?thesis
  proof (cases r)
    case (Inr ft)
    obtain f t where ft: "ft = (f, t)" by force
    obtain p s1 where p: "retrieve_both q inputs f t (s\<lparr>sv_world := w\<rparr>) = (p, s1)" by force
    show ?thesis
    proof (cases p)
      case (Inr pair)
      obtain a b where pair: "pair = (a, b)" by force
      have "comparable q (rt_data a) (rt_data b)" using assms(1) r p \<open>r = Inr ft\<close> ft Inr pair by blast
      note agree = diff_agree [OF this assms(2,3), of inputs t s1]
      obtain x s2 where x: "diff_revisions q DistancesKind inputs t (rt_data a) (rt_data b) s1 = (x, s2)" by force
      obtain y s3 where y: "diff_revisions q LabelsKind inputs t (rt_data a) (rt_data b) s1 = (y, s3)" by force
      have "s2 = s3" "map_sum id value_labels x = map_sum id value_labels y" using agree x y by simp_all
      then show ?thesis using r p \<open>r = Inr ft\<close> ft Inr pair x y
        by (cases x; cases y) (simp_all add: compute_query_def)
    qed (use r p \<open>r = Inr ft\<close> ft in \<open>simp add: compute_query_def\<close>)
  qed (use r in \<open>simp add: compute_query_def\<close>)
qed

text \<open>
  A label the module query reports without a hash of its own, such as a package group, is listed by
  \<^verbatim>\<open>/impacted_targets\<close>; asking for target types makes the request fail on it.
\<close>

lemma unhashed_label_listed:
  assumes "l \<in> set impacted" "bt_get (hashes to) l = None" "kept_label x l"
  shows "\<exists>ls. compare_revisions q LabelsKind None x from to impacted = Inr (LabelList ls) \<and> l \<in> set ls"
    and "isl (compare_revisions q LabelsKind (Some types) x from to impacted)"
proof -
  have "collect_results (List.map_filter (accept_label (hashes to) None (\<lambda>l. l)) ls) = Inr ls" for ls
    by (induction ls) (simp_all add: map_filter_simps accept_label_def accepts_def)
  then show "\<exists>ls. compare_revisions q LabelsKind None x from to impacted = Inr (LabelList ls) \<and> l \<in> set ls"
    using assms by (simp add: compare_revisions_def filter_and_sort_labels_def image_image)
  show "isl (compare_revisions q LabelsKind (Some types) x from to impacted)"
  proof (rule ccontr)
    assume "\<not> isl (compare_revisions q LabelsKind (Some types) x from to impacted)"
    then obtain acc where "collect_results (List.map_filter (accept_label (hashes to) (Some types) (\<lambda>l. l)) (filter (kept_label x) impacted)) = Inr acc"
      by (auto simp: compare_revisions_def filter_and_sort_labels_def split: sum.splits)
    moreover have "accept_label (hashes to) (Some types) (\<lambda>l. l) l = Some (Inl (MissingFinalHash l))"
      using assms(2) by (simp add: accept_label_def accepts_def)
    then have "Inl (MissingFinalHash l) \<in> set (List.map_filter (accept_label (hashes to) (Some types) (\<lambda>l. l)) (filter (kept_label x) impacted))"
      using assms(1,3) by (force simp: map_filter_def)
    ultimately show False by (auto simp: collect_results_Inr_iff)
  qed
qed

subsection \<open>Right entries\<close>

lemma pruned_hold: "tiers_hold e P s \<Longrightarrow> tiers_hold e P (pruned q s)"
  by (auto simp: pruned_def Let_def tiers_hold_def disk_holds_def bt_get_filter_key split: if_splits)

lemma diff_same: "diff_revisions q query_kind inputs sha from to s = (r, s') \<Longrightarrow> same_tiers s s'"
  by (auto simp: diff_revisions_def Let_def split: prod.splits sum.splits dest!: checkout_same) (auto simp: same_tiers_def)

text \<open>An entry that is right for a revision.\<close>

definition entry_of :: "'w service_env \<Rightarrow> (string \<Rightarrow> hash_file_data \<Rightarrow> bool) \<Rightarrow> string list \<Rightarrow> string \<Rightarrow> hash_file_data \<Rightarrow> bool" where
  "entry_of e P modified sha d \<longleftrightarrow> (\<exists>w t w'. resolve_tree (se_git e) sha w = (Inr t, w') \<and> P (service_key e t modified) d)"

lemma get_hashes_entry:
  assumes "get_hashes_locked e sha modified base s = (r, s')" "tiers_hold e P s" "entries_property e P" "base_holds e P modified base"
  shows "tiers_hold e P s'" "r = Inr rt \<Longrightarrow> entry_of e P modified sha (rt_data rt)"
  using get_hashes_hold [OF assms] unfolding entry_of_def by blast+

lemma retrieve_both_hold:
  assumes "tiers_hold (qe_service q) P s" "entries_property (qe_service q) P" "retrieve_both q inputs f t s = (r, s')"
  shows "tiers_hold (qe_service q) P s' \<and> (\<forall>from to. r = Inr (from, to) \<longrightarrow>
    entry_of (qe_service q) P (qi_modified_filepaths inputs) f (rt_data from) \<and> entry_of (qe_service q) P (qi_modified_filepaths inputs) t (rt_data to))"
proof -
  let ?e = "qe_service q" and ?m = "qi_modified_filepaths inputs"
  obtain x s1 where x: "get_hashes_locked ?e f ?m None s = (x, s1)" by force
  have "base_holds ?e P ?m None" by (simp add: base_holds_def)
  note h1 = get_hashes_entry [OF x assms(1,2) this]
  show ?thesis
  proof (cases x)
    case (Inl err)
    then show ?thesis using assms(3) x h1(1) by (auto simp: retrieve_both_def)
  next
    case (Inr rf)
    obtain y s2 where y: "get_hashes_locked ?e t ?m (Some (f, rt_data rf)) s1 = (y, s2)" by force
    have "base_holds ?e P ?m (Some (f, rt_data rf))" using h1(2) [OF Inr] by (auto simp: base_holds_def entry_of_def)
    note h2 = get_hashes_entry [OF y h1(1) assms(2) this]
    show ?thesis using assms(3) x y Inr h2 h1(2) [OF Inr] by (cases y) (auto simp: retrieve_both_def)
  qed
qed

lemma collect_results_member:
  "collect_results (List.map_filter (accept_label to types (\<lambda>l. l)) ls) = Inr r \<Longrightarrow> l \<in> set r \<longleftrightarrow> l \<in> set ls \<and> accepts l to types = Inr True"
  by (induction ls arbitrary: r) (auto simp: map_filter_simps accept_label_def split: sum.splits bool.splits if_splits)

lemma filter_and_sort_member:
  assumes "filter_and_sort_labels ls from to types x = Inr r"
  shows "l \<in> set r \<longleftrightarrow> l \<in> set ls \<and> kept_label x l \<and> accepts l to types = Inr True"
proof -
  obtain acc where c: "collect_results (List.map_filter (accept_label to types (\<lambda>l. l)) (filter (kept_label x) ls)) = Inr acc"
      and r: "r = map snd (remdups_adj (sort (map (\<lambda>lbl. (rank_of from to lbl, lbl)) acc)))"
    using assms by (auto simp: filter_and_sort_labels_def split: sum.splits)
  have "set r = set acc" unfolding r by (simp add: image_image)
  then show ?thesis using collect_results_member [OF c, of l] by auto
qed



text \<open>A server that is not ready runs no query, whatever it is asked.\<close>

lemma lame_duck: "snd (route q form_urlencoded timeout wait_for False request s) = s"
  by (simp add: route_def Let_def split: prod.splits option.splits)

subsection \<open>Two revisions\<close>

text \<open>A repository whose revisions are letters, with an entry for two of them in memory.\<close>

definition letters_git :: "unit git" where
  "letters_git = \<lparr>git_path = (\<lambda>args w. (Inr \<lparr>go_success = True, go_stdout = replicate 40 (hd (last args)), go_stderr = ''''\<rparr>, w)),
     git_workspace = ''/w'', git_lock_is_file = (\<lambda>_. False), git_remove_lock = (\<lambda>w. (Inr (), w)), git_canonicalize = Some\<rparr>"

definition letters_env :: "unit service_env" where
  "letters_env = \<lparr>se_crates = crates_ref,
     se_config = \<lparr>sc_options = sample_hash_options, sc_track_deps = True, sc_dependency_fingerprint = False, sc_partial_graph = False,
       sc_rebuild_patterns = [], sc_allow_untracked_packages = True\<rparr>,
     se_fingerprint = ''c'', se_git = letters_git, se_parse = (\<lambda>_. None), se_print = (\<lambda>_. [1]),
     se_gzip = Some, se_gunzip = Some, se_readable = (\<lambda>_ _. True), se_writable = (\<lambda>_ _. True), se_fetchable = (\<lambda>_ _. True), se_storable = (\<lambda>_ _. True),
     se_discover = (\<lambda>_ w. (Inl ''no bazel'', w)), se_workspace_fingerprint = (\<lambda>w. (Inr ''f0'', w)), se_cancelled = (\<lambda>_. False)\<rparr>"

definition letters_query :: "unit query_env" where
  "letters_query = \<lparr>qe_service = letters_env, qe_limits = \<lparr>cache_max_age = None, cache_max_entries = None, cache_max_size = None\<rparr>,
     qe_now = (\<lambda>_. 0), qe_locked = (\<lambda>_ _. False), qe_modified = (\<lambda>_ _. None), qe_acquire = (\<lambda>_. True), qe_from_str = (\<lambda>_. None),
     qe_bzlmod = (\<lambda>w. (True, w)), qe_query = (\<lambda>_ _. Inl ''''), qe_key_order = rev, qe_memo_order = rev\<rparr>"

definition letter_key :: "char \<Rightarrow> string" where
  "letter_key ch = replicate 40 ch @ ''.c''"

definition letter_entry :: "char \<Rightarrow> hash_file_data" where
  "letter_entry ch = hash_file_default\<lparr>hashes := (if ch = CHR ''a'' then sample_from else sample_to), dep_edges := sample_dep_edges\<rparr>"

definition letters_service :: "unit service" where
  "letters_service = \<lparr>sv_memory = \<lparr>mc_budget = 10, mc_used = 2, mc_entries =
       [\<lparr>me_key = letter_key (CHR ''a''), me_bytes = 1, me_data = letter_entry (CHR ''a'')\<rparr>,
        \<lparr>me_key = letter_key (CHR ''b''), me_bytes = 1, me_data = letter_entry (CHR ''b'')\<rparr>]\<rparr>,
     sv_disk = [], sv_remote = None, sv_world = (), sv_touched = [], sv_partial_derived = 0, sv_partial_rebuilds = 0, sv_untracked_rejections = 0\<rparr>"

definition letters_inputs :: query_inputs where
  "letters_inputs = \<lparr>qi_from = ''a'', qi_to = ''b'', qi_target_types = None, qi_modified_filepaths = [], qi_profile = True\<rparr>"

lemma letters_answer:
  "compute_query letters_query LabelsKind letters_inputs letters_service =
    (Inr (ImpactedAnswer (replicate 40 (CHR ''a'')) (replicate 40 (CHR ''b'')) (LabelList [''//a:lib'', ''//b:bin'', ''//c:new''])
       (Some \<lparr>ap_retrievals = [(replicate 40 (CHR ''a''), True), (replicate 40 (CHR ''b''), True)], ap_module_graph_changed = False\<rparr>)), letters_service)"
  by code_simp


lemma letters_resolved: "resolve_both letters_git ''a'' ''b'' () = (Inr (replicate 40 (CHR ''a''), replicate 40 (CHR ''b'')), ())"
  by code_simp

lemma letters_retrieved:
  "retrieve_both letters_query letters_inputs (replicate 40 (CHR ''a'')) (replicate 40 (CHR ''b'')) (letters_service\<lparr>sv_world := ()\<rparr>) =
    (Inr (\<lparr>rt_data = letter_entry (CHR ''a''), rt_hit = True, rt_mode = None\<rparr>, \<lparr>rt_data = letter_entry (CHR ''b''), rt_hit = True, rt_mode = None\<rparr>), letters_service)"
  by code_simp

lemma letters_comparable: "comparable letters_query (letter_entry (CHR ''a'')) (letter_entry (CHR ''b''))"
proof -
  have "impacted_targets sample_from sample_to None False = Inr [''//a:lib'', ''//b:bin'', ''//c:new'']" by code_simp
  moreover have "bs_of_list [''//a:lib'', ''//b:bin'', ''//c:new''] = [''//a:lib'', ''//b:bin'', ''//c:new'']" by code_simp
  moreover have "distance_base [''//a:lib'', ''//b:bin'', ''//c:new''] [''//a:lib'', ''//b:bin'', ''//c:new''] sample_from = sample_from"
    by (simp add: distance_base_def)
  moreover have "\<forall>l \<in> {''//a:lib'', ''//b:bin'', ''//c:new''}. bt_get sample_to l \<noteq> None" by (simp add: sample_to_def)
  ultimately show ?thesis using sample_acyclic
    by (simp add: comparable_def letter_entry_def impacted_with_module_changes_def impacted_with_module_query_def hash_file_default_def)
qed

theorem endpoints_agree_witness:
  "map_prod (map_sum id answer_labels) id (compute_query letters_query DistancesKind letters_inputs letters_service) =
    (Inr (ImpactedAnswer (replicate 40 (CHR ''a'')) (replicate 40 (CHR ''b'')) (LabelList [''//a:lib'', ''//b:bin'', ''//c:new''])
       (Some \<lparr>ap_retrievals = [(replicate 40 (CHR ''a''), True), (replicate 40 (CHR ''b''), True)], ap_module_graph_changed = False\<rparr>)), letters_service)"
proof -
  have "map_prod (map_sum id answer_labels) id (compute_query letters_query DistancesKind letters_inputs letters_service) =
      map_prod (map_sum id answer_labels) id (compute_query letters_query LabelsKind letters_inputs letters_service)"
  proof (rule endpoints_agree)
    fix f t w and a b and s2
    assume "resolve_both (se_git (qe_service letters_query)) (qi_from letters_inputs) (qi_to letters_inputs) (sv_world letters_service) = (Inr (f, t), w)"
      and "retrieve_both letters_query letters_inputs f t (letters_service\<lparr>sv_world := w\<rparr>) = (Inr (a, b), s2)"
    then show "comparable letters_query (rt_data a) (rt_data b)"
      using letters_resolved letters_retrieved letters_comparable
      by (auto simp: letters_query_def letters_env_def letters_inputs_def letters_service_def)
  qed (simp_all add: letters_query_def)
  then show ?thesis using letters_answer by simp
qed

definition letters_right :: "string \<Rightarrow> hash_file_data \<Rightarrow> bool" where
  "letters_right key d \<longleftrightarrow> (\<exists>ch. key = letter_key ch \<and> hashes d = hashes (letter_entry ch))"

lemma letters_hold: "tiers_hold letters_env letters_right letters_service"
proof -
  have "letters_right (letter_key ch) (letter_entry ch)" for ch by (auto simp: letters_right_def)
  then show ?thesis by (auto simp: tiers_hold_def letters_service_def memory_holds_def disk_holds_def)
qed

lemma letters_property: "entries_property letters_env letters_right"
proof -
  have "produce letters_env sha modified base s \<noteq> (Inr d, s')" for sha modified base s d s'
    by (auto simp: produce_def attempt_derivation_def generate_full_def generate_hashes_def letters_env_def split: option.splits prod.splits sum.splits if_splits)
  moreover have "letters_right key (d\<lparr>dependency_fingerprint := fp\<rparr>) = letters_right key d" for key d fp by (simp add: letters_right_def)
  ultimately show ?thesis
    by (simp add: entries_property_def remote_decodes_def from_slice_def) (simp add: letters_env_def)
qed


end
