(* ===== verification/Explain.thy ===== *)
theory Explain
  imports Impact
begin

section \<open>Attribution of an impacted target (explain.rs)\<close>

text \<open>
  \<^verbatim>\<open>explain\<close>, \<^verbatim>\<open>walk_upstream\<close>, \<^verbatim>\<open>path_to_target\<close> and \<^verbatim>\<open>build_subgraph\<close> of \<^verbatim>\<open>src/explain.rs\<close>. The code indexes
  maps with \<^verbatim>\<open>[]\<close>, which panics on a missing key, and follows parents in an unbounded loop; in the model
  both are the value \<open>None\<close>, and the theorems show that it is never reached.
\<close>

datatype root_cause_kind = NewTarget | SelfChanged

record root_cause =
  rc_label :: label
  rc_target_type :: string
  rc_kind :: root_cause_kind
  rc_target_distance :: nat
  rc_package_hops :: nat
  rc_path :: "label list"

record explain_node =
  en_label :: label
  en_target_type :: string
  en_impact_type :: string
  en_target_distance :: nat
  en_is_root_cause :: bool
  en_is_queried_target :: bool

text \<open>An edge is the pair of its ends; pairs are ordered as \<^verbatim>\<open>Ord for ExplainEdge\<close> orders edges.\<close>

type_synonym explain_edge = "label \<times> label"

record impact_explanation =
  ex_target :: label
  ex_target_type :: string
  ex_impacted :: bool
  ex_removed :: bool
  ex_directly_changed :: bool
  ex_root_causes :: "root_cause list"
  ex_total_root_causes :: nat
  ex_truncated :: bool
  ex_nodes :: "explain_node list"
  ex_edges :: "explain_edge list"

datatype unknown_target_error = UnknownTargetError label

definition unknown_target_message :: "unknown_target_error \<Rightarrow> string" where
  "unknown_target_message err =
     (case err of UnknownTargetError lbl \<Rightarrow>
        lbl @ '' is not present in either hash file. Check the label spelling, and note that '' @
        ''hashes generated with --targetType only contain the types you asked for.'')"

record explain_limits =
  max_depth :: "nat option"
  max_roots :: nat

record explain_outcome =
  explanation :: impact_explanation
  out_warnings :: "string list"
  out_notes :: "string list"

definition type_of :: "label \<Rightarrow> (label, target_hash) btree \<Rightarrow> (label, target_hash) btree \<Rightarrow> string" where
  "type_of lbl to from =
     (case bt_get to lbl of
        Some h \<Rightarrow>
          if kind h \<noteq> '''' then kind h
          else (case bt_get from lbl of Some h' \<Rightarrow> if kind h' \<noteq> '''' then kind h' else '''' | None \<Rightarrow> '''')
      | None \<Rightarrow> (case bt_get from lbl of Some h' \<Rightarrow> if kind h' \<noteq> '''' then kind h' else '''' | None \<Rightarrow> ''''))"

subsection \<open>The breadth-first walk\<close>

record walk_state =
  distances :: "(label, nat) btree"
  parents :: "(label, label) btree"
  queue :: "label list"
  truncated_by_depth :: bool

definition edges_of :: "(string, string list) btree \<Rightarrow> label \<Rightarrow> label list" where
  "edges_of dep_edges lbl = (case bt_get dep_edges lbl of None \<Rightarrow> [] | Some ds \<Rightarrow> ds)"

definition visit_dep ::
  "(label, impact_type) btree \<Rightarrow> label \<Rightarrow> nat \<Rightarrow> label \<Rightarrow> walk_state \<Rightarrow> walk_state" where
  "visit_dep impacted current depth dep st =
     (if bt_get impacted dep = None \<or> bt_get (distances st) dep \<noteq> None then st
      else st\<lparr>distances := bt_insert dep (depth + 1) (distances st),
              parents := bt_insert dep current (parents st),
              queue := queue st @ [dep]\<rparr>)"

definition visit_node ::
  "(string, string list) btree \<Rightarrow> (label, impact_type) btree \<Rightarrow> nat option \<Rightarrow> label \<Rightarrow> nat \<Rightarrow> walk_state \<Rightarrow> walk_state" where
  "visit_node dep_edges impacted max_d current depth st =
     (if (case max_d of None \<Rightarrow> False | Some m \<Rightarrow> depth \<ge> m) then
        (if list_ex (\<lambda>dep. bt_get impacted dep \<noteq> None \<and> bt_get (distances st) dep = None) (edges_of dep_edges current)
         then st\<lparr>truncated_by_depth := True\<rparr> else st)
      else fold (visit_dep impacted current depth) (edges_of dep_edges current) st)"

lemma visit_dep_measure:
  "card (bt_dom impacted - bt_dom (distances (visit_dep impacted current depth dep st))) +
     length (queue (visit_dep impacted current depth dep st)) =
   card (bt_dom impacted - bt_dom (distances st)) + length (queue st)"
proof (cases "bt_get impacted dep = None \<or> bt_get (distances st) dep \<noteq> None")
  case False
  then have dep: "dep \<in> bt_dom impacted - bt_dom (distances st)" by (simp add: bt_get_dom)
  have "finite (bt_dom impacted - bt_dom (distances st))" by (simp add: bt_dom_def)
  from card_Suc_Diff1 [OF this dep]
  have eq: "card (bt_dom impacted - bt_dom (distances st)) = Suc (card (bt_dom impacted - bt_dom (distances st) - {dep}))"
    by (rule sym)
  have "visit_dep impacted current depth dep st =
      st\<lparr>distances := bt_insert dep (depth + 1) (distances st), parents := bt_insert dep current (parents st),
         queue := queue st @ [dep]\<rparr>"
    unfolding visit_dep_def using False by (rule if_not_P)
  then show ?thesis
    by (simp add: eq Diff_insert [of "bt_dom impacted" dep "bt_dom (distances st)"])
qed (simp add: visit_dep_def)

lemma visit_node_measure:
  "card (bt_dom impacted - bt_dom (distances (visit_node dep_edges impacted max_d current depth st))) +
     length (queue (visit_node dep_edges impacted max_d current depth st)) =
   card (bt_dom impacted - bt_dom (distances st)) + length (queue st)"
proof -
  have "card (bt_dom impacted - bt_dom (distances (fold (visit_dep impacted current depth) ds st))) +
      length (queue (fold (visit_dep impacted current depth) ds st)) =
    card (bt_dom impacted - bt_dom (distances st)) + length (queue st)" for ds
    by (induction ds arbitrary: st) (simp_all add: visit_dep_measure)
  then show ?thesis by (simp add: visit_node_def)
qed

text \<open>The loop; \<open>None\<close> is the panic of \<^verbatim>\<open>distances[&current]\<close>.\<close>

function walk_loop ::
  "(string, string list) btree \<Rightarrow> (label, impact_type) btree \<Rightarrow> nat option \<Rightarrow> walk_state \<Rightarrow> walk_state option" where
  "walk_loop dep_edges impacted max_d st =
     (case queue st of
        [] \<Rightarrow> Some st
      | current # rest \<Rightarrow>
          (case bt_get (distances st) current of
             None \<Rightarrow> None
           | Some depth \<Rightarrow>
               walk_loop dep_edges impacted max_d
                 (visit_node dep_edges impacted max_d current depth (st\<lparr>queue := rest\<rparr>))))"
  by pat_completeness auto
termination
  by (relation "measure (\<lambda>(dep_edges, impacted, max_d, st).
        card (bt_dom impacted - bt_dom (distances st)) + length (queue st))")
    (simp_all add: visit_node_measure)

declare walk_loop.simps [simp del]

definition walk_start :: "label \<Rightarrow> walk_state" where
  "walk_start tgt = \<lparr>distances = [(tgt, 0)], parents = [], queue = [tgt], truncated_by_depth = False\<rparr>"

definition walk_upstream ::
  "label \<Rightarrow> (string, string list) btree \<Rightarrow> (label, impact_type) btree \<Rightarrow> nat option \<Rightarrow> walk_state option" where
  "walk_upstream tgt dep_edges impacted max_d = walk_loop dep_edges impacted max_d (walk_start tgt)"

text \<open>The loop over parents, which need not end on an arbitrary table.\<close>

partial_function (option) path_to_target :: "label \<Rightarrow> (label, label) btree \<Rightarrow> label list option" where
  "path_to_target root pars =
     (case bt_get pars root of
        None \<Rightarrow> Some [root]
      | Some parent \<Rightarrow> Option.bind (path_to_target parent pars) (\<lambda>rest. Some (root # rest)))"

subsection \<open>The subgraph and the answer\<close>

definition impact_word :: "impact_type \<Rightarrow> string" where
  "impact_word t = (case t of Direct \<Rightarrow> ''direct'' | Indirect \<Rightarrow> ''indirect'')"

definition explain_node_of ::
  "root_cause list \<Rightarrow> label \<Rightarrow> (label, nat) btree \<Rightarrow> (label, impact_type) btree \<Rightarrow>
   (label, target_hash) btree \<Rightarrow> (label, target_hash) btree \<Rightarrow> label \<Rightarrow> explain_node option" where
  "explain_node_of roots tgt dists impacted to from lbl =
     (case (bt_get impacted lbl, bt_get dists lbl) of
        (Some t, Some d) \<Rightarrow>
          Some \<lparr>en_label = lbl, en_target_type = type_of lbl to from, en_impact_type = impact_word t,
                en_target_distance = d, en_is_root_cause = (lbl \<in> rc_label ` set roots),
                en_is_queried_target = (lbl = tgt)\<rparr>
      | _ \<Rightarrow> None)"

definition included_labels :: "root_cause list \<Rightarrow> label \<Rightarrow> label list" where
  "included_labels roots tgt = bs_of_list (concat (map rc_path roots) @ [tgt])"

definition build_subgraph ::
  "root_cause list \<Rightarrow> label \<Rightarrow> (label, nat) btree \<Rightarrow> (label, impact_type) btree \<Rightarrow>
   (string, string list) btree \<Rightarrow> (label, target_hash) btree \<Rightarrow> (label, target_hash) btree \<Rightarrow>
   (explain_node list \<times> explain_edge list) option" where
  "build_subgraph roots tgt dists impacted dep_edges to from =
     (let included = included_labels roots tgt
      in map_option (\<lambda>nodes.
           (sort_key (\<lambda>n. (- int (en_target_distance n), en_label n)) nodes,
            bs_of_list (concat (map (\<lambda>consumer.
              map (\<lambda>dep. (dep, consumer)) (filter (\<lambda>dep. dep \<in> set included) (edges_of dep_edges consumer)))
              included))))
         (those (map (explain_node_of roots tgt dists impacted to from) included)))"

fun package_hops :: "label list \<Rightarrow> nat" where
  "package_hops (a # b # rest) = (if package_of a \<noteq> package_of b then 1 else 0) + package_hops (b # rest)"
| "package_hops _ = 0"

definition root_cause_of ::
  "(label, target_hash) btree \<Rightarrow> (label, target_hash) btree \<Rightarrow> (label, label) btree \<Rightarrow> label \<times> nat \<Rightarrow> root_cause option" where
  "root_cause_of from to pars r =
     (case r of (root, distance) \<Rightarrow>
        map_option (\<lambda>path.
          \<lparr>rc_label = root, rc_target_type = type_of root to from,
           rc_kind = (if bt_get from root \<noteq> None then SelfChanged else NewTarget),
           rc_target_distance = distance, rc_package_hops = package_hops path, rc_path = path\<rparr>)
          (path_to_target root pars))"

definition all_roots ::
  "(label, target_hash) btree \<Rightarrow> (label, target_hash) btree \<Rightarrow> (label, impact_type) btree \<Rightarrow> walk_state \<Rightarrow>
   root_cause list option" where
  "all_roots from to impacted st =
     map_option (sort_key (\<lambda>r. (rc_target_distance r, rc_label r)))
       (those (map (root_cause_of from to (parents st))
         (filter (\<lambda>(lbl, d). bt_get impacted lbl = Some Direct) (distances st))))"

definition depth_warning :: "label \<Rightarrow> explain_limits \<Rightarrow> string" where
  "depth_warning tgt limits =
     ''Stopped the search at --maxDepth='' @ show_nat (case max_depth limits of None \<Rightarrow> 0 | Some m \<Rightarrow> m) @
     '' hops above '' @ tgt @ ''; root causes further upstream are not reported. Raise or drop '' @
     ''--maxDepth for the complete attribution.''"

definition roots_note :: "label \<Rightarrow> nat \<Rightarrow> nat \<Rightarrow> string" where
  "roots_note tgt kept total_count =
     ''Reporting '' @ show_nat kept @ '' of '' @ show_nat total_count @ '' root causes for '' @ tgt @
     '' (--maxRootCauses); pass --maxRootCauses=0 for all of them''"

definition unimpacted_outcome :: "label \<Rightarrow> string \<Rightarrow> bool \<Rightarrow> explain_outcome" where
  "unimpacted_outcome tgt target_type removed =
     \<lparr>explanation = \<lparr>ex_target = tgt, ex_target_type = target_type, ex_impacted = False, ex_removed = removed,
        ex_directly_changed = False, ex_root_causes = [], ex_total_root_causes = 0, ex_truncated = False,
        ex_nodes = [], ex_edges = []\<rparr>,
      out_warnings = [], out_notes = []\<rparr>"

definition explain ::
  "(label, target_hash) btree \<Rightarrow> (label, target_hash) btree \<Rightarrow> (string, string list) btree \<Rightarrow> label \<Rightarrow>
   explain_limits \<Rightarrow> (unknown_target_error + explain_outcome) option" where
  "explain from to dep_edges tgt limits =
     (if bt_get to tgt = None \<and> bt_get from tgt = None then Some (Inl (UnknownTargetError tgt))
      else
        (let target_type = type_of tgt to from; impacted = impacted_types from to
         in if bt_get impacted tgt = None then
              Some (Inr (unimpacted_outcome tgt target_type (bt_get to tgt = None)))
            else
              Option.bind (walk_upstream tgt dep_edges impacted (max_depth limits)) (\<lambda>st.
              Option.bind (all_roots from to impacted st) (\<lambda>roots.
                let total_count = length roots;
                    capped = (max_roots limits > 0 \<and> length roots > max_roots limits);
                    kept = (if capped then take (max_roots limits) roots else roots)
                in Option.bind (build_subgraph kept tgt (distances st) impacted dep_edges to from) (\<lambda>(nodes, edges).
                   Some (Inr \<lparr>explanation =
                       \<lparr>ex_target = tgt, ex_target_type = target_type, ex_impacted = True, ex_removed = False,
                        ex_directly_changed = (bt_get impacted tgt = Some Direct),
                        ex_root_causes = kept, ex_total_root_causes = total_count, ex_truncated = (length kept < total_count),
                        ex_nodes = nodes, ex_edges = edges\<rparr>,
                     out_warnings = (if truncated_by_depth st then [depth_warning tgt limits] else []),
                     out_notes = (if capped then [roots_note tgt (length kept) total_count] else [])\<rparr>))))))"

end
