(* ===== verification/Explain_Walk.thy ===== *)
theory Explain_Walk
  imports Explain
begin

section \<open>Correctness of the breadth-first walk\<close>

text \<open>
  The walk of \<^verbatim>\<open>walk_upstream\<close> (\<^verbatim>\<open>src/explain.rs\<close>) finds every impacted label above the queried target at
  its least number of dependency steps, up to the depth limit, and its parents lead back along
  dependency edges.
\<close>

subsection \<open>What the walk computes\<close>

text \<open>The number of steps up impacted dependencies from the queried target, and the shortest one.\<close>

inductive hops :: "(string, string list) btree \<Rightarrow> (label, impact_type) btree \<Rightarrow> label \<Rightarrow> nat \<Rightarrow> label \<Rightarrow> bool"
  for dep_edges impacted tgt where
  hops_zero: "hops dep_edges impacted tgt 0 tgt"
| hops_step: "hops dep_edges impacted tgt n k \<Longrightarrow> d \<in> set (impacted_deps dep_edges impacted k) \<Longrightarrow>
    hops dep_edges impacted tgt (Suc n) d"

definition shortest :: "(string, string list) btree \<Rightarrow> (label, impact_type) btree \<Rightarrow> label \<Rightarrow> nat \<Rightarrow> label \<Rightarrow> bool" where
  "shortest dep_edges impacted tgt n l \<longleftrightarrow>
     hops dep_edges impacted tgt n l \<and> (\<forall>m. hops dep_edges impacted tgt m l \<longrightarrow> n \<le> m)"

definition within :: "nat option \<Rightarrow> nat \<Rightarrow> bool" where
  "within max_d n \<longleftrightarrow> (case max_d of None \<Rightarrow> True | Some m \<Rightarrow> n \<le> m)"

definition stopped :: "nat option \<Rightarrow> nat \<Rightarrow> bool" where
  "stopped max_d n \<longleftrightarrow> (case max_d of None \<Rightarrow> False | Some m \<Rightarrow> m \<le> n)"

lemma set_impacted_deps:
  "d \<in> set (impacted_deps dep_edges impacted l) \<longleftrightarrow> d \<in> set (edges_of dep_edges l) \<and> bt_get impacted d \<noteq> None"
  by (auto simp: impacted_deps_def edges_of_def)

lemma shortest_unique:
  "shortest e i t n l \<Longrightarrow> shortest e i t m l \<Longrightarrow> n = m"
  by (auto simp: shortest_def intro: antisym)

lemma shortest_zero: "shortest e i t 0 l \<longleftrightarrow> l = t"
  by (auto simp: shortest_def intro: hops_zero elim: hops.cases)

lemma shortest_exists: "hops e i t n l \<Longrightarrow> \<exists>m \<le> n. shortest e i t m l"
  unfolding shortest_def by (rule exI [of _ "LEAST m. hops e i t m l"]) (auto intro: LeastI Least_le)

lemma shortest_pred:
  assumes "shortest e i t (Suc n) l"
  shows "\<exists>p. shortest e i t n p \<and> l \<in> set (impacted_deps e i p)"
proof -
  from assms obtain p where p: "hops e i t n p" "l \<in> set (impacted_deps e i p)"
    unfolding shortest_def by (auto elim: hops.cases)
  from shortest_exists [OF p(1)] obtain m where m: "m \<le> n" "shortest e i t m p" by blast
  then have "hops e i t (Suc m) l" using p(2) by (auto simp: shortest_def intro: hops_step)
  with assms have "Suc n \<le> Suc m" by (auto simp: shortest_def)
  with m p show ?thesis by (auto simp: le_antisym)
qed

text \<open>A dependency of a label at distance \<open>n\<close> that is at no distance up to \<open>n\<close> is one step further.\<close>

lemma shortest_next:
  assumes "shortest e i t n p" "d \<in> set (impacted_deps e i p)" "\<And>m. m \<le> n \<Longrightarrow> \<not> shortest e i t m d"
  shows "shortest e i t (Suc n) d"
proof -
  have h: "hops e i t (Suc n) d" using assms(1,2) by (auto simp: shortest_def intro: hops_step)
  from shortest_exists [OF h] obtain m where "m \<le> Suc n" "shortest e i t m d" by blast
  moreover then have "\<not> m \<le> n" using assms(3) by blast
  ultimately have "m = Suc n" by simp
  with \<open>shortest e i t m d\<close> show ?thesis by simp
qed

subsection \<open>One step of the walk\<close>

definition fresh_dep :: "(label, impact_type) btree \<Rightarrow> walk_state \<Rightarrow> label \<Rightarrow> bool" where
  "fresh_dep impacted st d \<longleftrightarrow> bt_get impacted d \<noteq> None \<and> bt_get (distances st) d = None"

lemma visit_deps_effect:
  assumes "bt_inv (distances st)" "bt_inv (parents st)"
  shows "\<exists>new. set new = {d \<in> set ds. fresh_dep impacted st d} \<and> distinct new \<and>
    queue (fold (visit_dep impacted current depth) ds st) = queue st @ new \<and>
    truncated_by_depth (fold (visit_dep impacted current depth) ds st) = truncated_by_depth st \<and>
    bt_inv (distances (fold (visit_dep impacted current depth) ds st)) \<and>
    bt_inv (parents (fold (visit_dep impacted current depth) ds st)) \<and>
    (\<forall>l. bt_get (distances (fold (visit_dep impacted current depth) ds st)) l =
      (if l \<in> set new then Some (Suc depth) else bt_get (distances st) l)) \<and>
    (\<forall>l. bt_get (parents (fold (visit_dep impacted current depth) ds st)) l =
      (if l \<in> set new then Some current else bt_get (parents st) l))"
  using assms
proof (induction ds arbitrary: st)
  case Nil
  then show ?case by simp
next
  case (Cons d ds)
  show ?case
  proof (cases "fresh_dep impacted st d")
    case False
    then have "visit_dep impacted current depth d st = st" by (auto simp: visit_dep_def fresh_dep_def)
    moreover have "{x \<in> set (d # ds). fresh_dep impacted st x} = {x \<in> set ds. fresh_dep impacted st x}"
      using False by auto
    ultimately show ?thesis using Cons.IH [OF Cons.prems] by simp
  next
    case True
    define st1 where "st1 = visit_dep impacted current depth d st"
    have st1: "distances st1 = bt_insert d (Suc depth) (distances st)" "parents st1 = bt_insert d current (parents st)"
      "queue st1 = queue st @ [d]" "truncated_by_depth st1 = truncated_by_depth st"
      using True by (auto simp: st1_def visit_dep_def fresh_dep_def)
    have inv: "bt_inv (distances st1)" "bt_inv (parents st1)"
      using Cons.prems by (simp_all add: st1 bt_inv_insert)
    have fresh1: "fresh_dep impacted st1 x \<longleftrightarrow> fresh_dep impacted st x \<and> x \<noteq> d" for x
      by (auto simp: fresh_dep_def st1 bt_get_insert)
    obtain new where new: "set new = {x \<in> set ds. fresh_dep impacted st1 x}" "distinct new"
      "queue (fold (visit_dep impacted current depth) ds st1) = queue st1 @ new"
      "truncated_by_depth (fold (visit_dep impacted current depth) ds st1) = truncated_by_depth st1"
      "bt_inv (distances (fold (visit_dep impacted current depth) ds st1))"
      "bt_inv (parents (fold (visit_dep impacted current depth) ds st1))"
      "\<forall>l. bt_get (distances (fold (visit_dep impacted current depth) ds st1)) l =
        (if l \<in> set new then Some (Suc depth) else bt_get (distances st1) l)"
      "\<forall>l. bt_get (parents (fold (visit_dep impacted current depth) ds st1)) l =
        (if l \<in> set new then Some current else bt_get (parents st1) l)"
      using Cons.IH [OF inv] by blast
    show ?thesis
    proof (intro exI [of _ "d # new"] conjI allI)
      show "set (d # new) = {x \<in> set (d # ds). fresh_dep impacted st x}"
        using True by (auto simp: new(1) fresh1)
    qed (use new st1 in \<open>auto simp: fresh1 bt_get_insert st1_def [symmetric]\<close>)
  qed
qed


subsection \<open>The invariant of the walk\<close>

text \<open>
  The queue holds first the labels at the current distance \<open>k\<close>, then labels one step further; every
  label up to distance \<open>k\<close> is known, and what was taken from the queue has handed on its
  dependencies.
\<close>

definition known_sound where
  "known_sound e i t md k st \<longleftrightarrow>
     (\<forall>l n. bt_get (distances st) l = Some n \<longrightarrow> shortest e i t n l \<and> n \<le> Suc k \<and> within md n)"

definition known_complete where
  "known_complete e i t md k st \<longleftrightarrow>
     (\<forall>l n. shortest e i t n l \<longrightarrow> n \<le> k \<longrightarrow> within md n \<longrightarrow> bt_get (distances st) l = Some n)"

definition queue_levels :: "nat \<Rightarrow> walk_state \<Rightarrow> bool" where
  "queue_levels k st \<longleftrightarrow>
     (\<exists>qa qb. queue st = qa @ qb \<and> (\<forall>q \<in> set qa. bt_get (distances st) q = Some k) \<and>
        (\<forall>q \<in> set qb. bt_get (distances st) q = Some (Suc k)))"

definition handed_on where
  "handed_on e i md st \<longleftrightarrow>
     (\<forall>l n d. bt_get (distances st) l = Some n \<longrightarrow> l \<notin> set (queue st) \<longrightarrow> \<not> stopped md n \<longrightarrow>
        d \<in> set (impacted_deps e i l) \<longrightarrow> bt_get (distances st) d \<noteq> None)"

definition cut_seen where
  "cut_seen e i md st \<longleftrightarrow>
     (\<forall>l n d. bt_get (distances st) l = Some n \<longrightarrow> l \<notin> set (queue st) \<longrightarrow> stopped md n \<longrightarrow>
        d \<in> set (impacted_deps e i l) \<longrightarrow> bt_get (distances st) d = None \<longrightarrow> truncated_by_depth st)"

definition cut_real where
  "cut_real e i t md st \<longleftrightarrow>
     (truncated_by_depth st \<longrightarrow> (\<exists>m l. md = Some m \<and> shortest e i t (Suc m) l))"

definition parents_ok where
  "parents_ok e i t st \<longleftrightarrow>
     (\<forall>l. bt_get (parents st) l = None \<longleftrightarrow> l = t \<or> bt_get (distances st) l = None) \<and>
     (\<forall>l p. bt_get (parents st) l = Some p \<longrightarrow>
        (\<exists>n. bt_get (distances st) p = Some n \<and> bt_get (distances st) l = Some (Suc n) \<and>
           l \<in> set (impacted_deps e i p)))"

definition walk_inv ::
  "(string, string list) btree \<Rightarrow> (label, impact_type) btree \<Rightarrow> label \<Rightarrow> nat option \<Rightarrow> nat \<Rightarrow> walk_state \<Rightarrow> bool" where
  "walk_inv e i t md k st \<longleftrightarrow>
     bt_inv (distances st) \<and> bt_inv (parents st) \<and> known_sound e i t md k st \<and> known_complete e i t md k st \<and>
     queue_levels k st \<and> handed_on e i md st \<and> cut_seen e i md st \<and> cut_real e i t md st \<and> parents_ok e i t st"

lemmas walk_inv_parts = known_sound_def known_complete_def queue_levels_def handed_on_def cut_seen_def
  cut_real_def parents_ok_def

lemma walk_invD:
  assumes "walk_inv e i t md k st"
  shows "bt_inv (distances st)" "bt_inv (parents st)"
    and "bt_get (distances st) l = Some n \<Longrightarrow> shortest e i t n l \<and> n \<le> Suc k \<and> within md n"
    and "shortest e i t n l \<Longrightarrow> n \<le> k \<Longrightarrow> within md n \<Longrightarrow> bt_get (distances st) l = Some n"
    and "queue_levels k st"
    and "bt_get (distances st) l = Some n \<Longrightarrow> l \<notin> set (queue st) \<Longrightarrow> \<not> stopped md n \<Longrightarrow>
        d \<in> set (impacted_deps e i l) \<Longrightarrow> bt_get (distances st) d \<noteq> None"
    and "bt_get (distances st) l = Some n \<Longrightarrow> l \<notin> set (queue st) \<Longrightarrow> stopped md n \<Longrightarrow>
        d \<in> set (impacted_deps e i l) \<Longrightarrow> bt_get (distances st) d = None \<Longrightarrow> truncated_by_depth st"
    and "truncated_by_depth st \<Longrightarrow> \<exists>m l. md = Some m \<and> shortest e i t (Suc m) l"
    and "bt_get (parents st) l = None \<longleftrightarrow> l = t \<or> bt_get (distances st) l = None"
    and "bt_get (parents st) l = Some p \<Longrightarrow>
        \<exists>n. bt_get (distances st) p = Some n \<and> bt_get (distances st) l = Some (Suc n) \<and> l \<in> set (impacted_deps e i p)"
proof -
  have parts: "known_sound e i t md k st" "known_complete e i t md k st" "handed_on e i md st"
    "cut_seen e i md st" "cut_real e i t md st" "parents_ok e i t st"
    using assms by (simp_all add: walk_inv_def)
  show "bt_inv (distances st)" "bt_inv (parents st)" "queue_levels k st"
    using assms by (simp_all add: walk_inv_def)
  show "bt_get (distances st) l = Some n \<Longrightarrow> shortest e i t n l \<and> n \<le> Suc k \<and> within md n"
    using parts(1) unfolding known_sound_def by blast
  show "shortest e i t n l \<Longrightarrow> n \<le> k \<Longrightarrow> within md n \<Longrightarrow> bt_get (distances st) l = Some n"
    using parts(2) unfolding known_complete_def by blast
  show "bt_get (distances st) l = Some n \<Longrightarrow> l \<notin> set (queue st) \<Longrightarrow> \<not> stopped md n \<Longrightarrow>
      d \<in> set (impacted_deps e i l) \<Longrightarrow> bt_get (distances st) d \<noteq> None"
    using parts(3) unfolding handed_on_def by blast
  show "bt_get (distances st) l = Some n \<Longrightarrow> l \<notin> set (queue st) \<Longrightarrow> stopped md n \<Longrightarrow>
      d \<in> set (impacted_deps e i l) \<Longrightarrow> bt_get (distances st) d = None \<Longrightarrow> truncated_by_depth st"
    using parts(4) unfolding cut_seen_def by blast
  show "truncated_by_depth st \<Longrightarrow> \<exists>m l. md = Some m \<and> shortest e i t (Suc m) l"
    using parts(5) unfolding cut_real_def by blast
  show "bt_get (parents st) l = None \<longleftrightarrow> l = t \<or> bt_get (distances st) l = None"
    using parts(6) unfolding parents_ok_def by (elim conjE) (erule spec)
  show "bt_get (parents st) l = Some p \<Longrightarrow>
        \<exists>n. bt_get (distances st) p = Some n \<and> bt_get (distances st) l = Some (Suc n) \<and> l \<in> set (impacted_deps e i p)"
    using parts(6) unfolding parents_ok_def by (elim conjE allE impE) assumption+
qed

lemma walk_inv_start:
  "walk_inv e i t md 0 (walk_start t)"
proof -
  have get: "bt_get (distances (walk_start t)) l = (if l = t then Some 0 else None)"
    "bt_get (parents (walk_start t)) l = None" "queue (walk_start t) = [t]" "\<not> truncated_by_depth (walk_start t)" for l
    by (auto simp: walk_start_def)
  have "bt_inv (distances (walk_start t))" "bt_inv (parents (walk_start t))"
    by (simp_all add: walk_start_def bt_inv_def)
  moreover have "known_sound e i t md 0 (walk_start t)"
    by (auto simp: known_sound_def get shortest_zero within_def split: option.splits if_splits)
  moreover have "known_complete e i t md 0 (walk_start t)"
    by (auto simp: known_complete_def get shortest_zero)
  moreover have "queue_levels 0 (walk_start t)"
    unfolding queue_levels_def by (rule exI [of _ "[t]"], rule exI [of _ "[]"]) (simp add: get)
  moreover have "handed_on e i md (walk_start t)" "cut_seen e i md (walk_start t)" "cut_real e i t md (walk_start t)"
    by (auto simp: handed_on_def cut_seen_def cut_real_def get split: if_splits)
  moreover have "parents_ok e i t (walk_start t)" by (auto simp: parents_ok_def get)
  ultimately show ?thesis by (simp add: walk_inv_def)
qed

lemma stopped_within: "\<not> stopped md n \<longleftrightarrow> within md (Suc n)"
  by (auto simp: stopped_def within_def split: option.splits)

text \<open>When the labels at distance \<open>k\<close> are exhausted, the next distance is complete.\<close>

lemma walk_inv_shift:
  assumes inv: "walk_inv e i t md k st" and qs: "\<forall>q \<in> set (queue st). bt_get (distances st) q = Some (Suc k)"
  shows "walk_inv e i t md (Suc k) st"
proof -
  have complete: "bt_get (distances st) l = Some n" if "shortest e i t n l" "n \<le> Suc k" "within md n" for l n
  proof (cases "n = Suc k")
    case True
    with that(1) obtain p where p: "shortest e i t k p" "l \<in> set (impacted_deps e i p)" by (blast dest: shortest_pred)
    have ns: "\<not> stopped md k" using that(3) True by (simp add: stopped_within)
    then have "within md k" by (auto simp: stopped_def within_def split: option.splits)
    with walk_invD(4) [OF inv p(1)] have dp: "bt_get (distances st) p = Some k" by simp
    with qs have "p \<notin> set (queue st)" by auto
    with walk_invD(6) [OF inv dp _ ns p(2)] obtain m where m: "bt_get (distances st) l = Some m" by blast
    with walk_invD(3) [OF inv] have "shortest e i t m l" by blast
    with that(1) m show ?thesis by (auto dest: shortest_unique)
  next
    case False
    with that walk_invD(4) [OF inv] show ?thesis by simp
  qed
  have "queue_levels (Suc k) st"
    unfolding queue_levels_def using qs by (intro exI [of _ "queue st"] exI [of _ "[]"]) simp
  moreover have "known_sound e i t md (Suc k) st"
    using walk_invD(3) [OF inv] unfolding known_sound_def by (meson le_SucI)
  moreover have "known_complete e i t md (Suc k) st" using complete unfolding known_complete_def by blast
  ultimately show ?thesis using inv by (simp add: walk_inv_def)
qed

lemma walk_inv_step:
  assumes inv: "walk_inv e i t md k st" and q: "queue st = current # rest"
    and dk: "bt_get (distances st) current = Some k"
  shows "walk_inv e i t md k (visit_node e i md current k (st\<lparr>queue := rest\<rparr>))"
proof (cases "stopped md k")
  case True
  define st1 where "st1 = visit_node e i md current k (st\<lparr>queue := rest\<rparr>)"
  have cond: "(case md of None \<Rightarrow> False | Some m \<Rightarrow> k \<ge> m)" using True by (simp add: stopped_def split: option.splits)
  have st1: "distances st1 = distances st" "parents st1 = parents st" "queue st1 = rest"
    "truncated_by_depth st1 \<longleftrightarrow> truncated_by_depth st \<or>
       (\<exists>d \<in> set (impacted_deps e i current). bt_get (distances st) d = None)"
    using cond by (auto simp: st1_def visit_node_def list_ex_iff set_impacted_deps) fastforce
  have trunc: "\<exists>m l. md = Some m \<and> shortest e i t (Suc m) l" if "truncated_by_depth st1"
  proof (cases "truncated_by_depth st")
    case False
    with that st1(4) obtain d where d: "d \<in> set (impacted_deps e i current)" "bt_get (distances st) d = None" by blast
    have cur: "shortest e i t k current" "within md k" using walk_invD(3) [OF inv dk] by simp_all
    have "\<not> shortest e i t m d" if "m \<le> k" for m
      using walk_invD(4) [OF inv, of m d] d(2) that cur(2) by (auto simp: within_def split: option.splits)
    with cur d have "shortest e i t (Suc k) d" by (blast intro: shortest_next)
    moreover have "md = Some k" using True cur(2) by (auto simp: stopped_def within_def split: option.splits)
    ultimately show ?thesis by blast
  qed (use walk_invD(8) [OF inv] in blast)
  have qs: "\<exists>qa qb. rest = qa @ qb \<and> (\<forall>q \<in> set qa. bt_get (distances st) q = Some k) \<and>
      (\<forall>q \<in> set qb. bt_get (distances st) q = Some (Suc k))"
  proof -
    obtain qa qb where "queue st = qa @ qb" "\<forall>q \<in> set qa. bt_get (distances st) q = Some k"
      "\<forall>q \<in> set qb. bt_get (distances st) q = Some (Suc k)"
      using walk_invD(5) [OF inv] unfolding queue_levels_def by blast
    with q dk show ?thesis by (cases qa) auto
  qed
  have done1: "\<forall>d \<in> set (impacted_deps e i l). bt_get (distances st) d \<noteq> None"
    if "bt_get (distances st) l = Some n" "l \<notin> set rest" "\<not> stopped md n" for l n
  proof -
    have "l \<noteq> current" using that(1,3) dk True by auto
    then have "l \<notin> set (queue st)" using that(2) q by simp
    from walk_invD(6) [OF inv that(1) this that(3)] show ?thesis by blast
  qed
  have done2: "\<forall>d \<in> set (impacted_deps e i l). bt_get (distances st) d = None \<longrightarrow> truncated_by_depth st1"
    if "bt_get (distances st) l = Some n" "l \<notin> set rest" "stopped md n" for l n
  proof (cases "l = current")
    case True
    then show ?thesis using st1(4) by blast
  next
    case False
    then have "l \<notin> set (queue st)" using that(2) q by simp
    from walk_invD(7) [OF inv that(1) this that(3)] show ?thesis using st1(4) by blast
  qed
  have "known_sound e i t md k st" "known_complete e i t md k st" "parents_ok e i t st"
    using inv by (simp_all add: walk_inv_def)
  then have "known_sound e i t md k st1" "known_complete e i t md k st1" "parents_ok e i t st1"
    unfolding known_sound_def known_complete_def parents_ok_def st1(1,2) by - assumption+
  moreover have "queue_levels k st1" using qs unfolding queue_levels_def st1(1,3) .
  moreover have "handed_on e i md st1" using done1 unfolding handed_on_def st1(1,3) by blast
  moreover have "cut_seen e i md st1" using done2 unfolding cut_seen_def st1(1,3) by blast
  moreover have "cut_real e i t md st1" using trunc unfolding cut_real_def by blast
  ultimately show ?thesis
    unfolding st1_def [symmetric] walk_inv_def using walk_invD(1,2) [OF inv] by (simp add: st1(1,2))
next
  case False
  define st0 where "st0 = st\<lparr>queue := rest\<rparr>"
  define st1 where "st1 = visit_node e i md current k st0"
  have cond: "\<not> (case md of None \<Rightarrow> False | Some m \<Rightarrow> k \<ge> m)" using False by (simp add: stopped_def split: option.splits)
  have st1': "st1 = fold (visit_dep i current k) (edges_of e current) st0"
    using cond by (simp add: st1_def visit_node_def)
  have "bt_inv (distances st0)" "bt_inv (parents st0)" using walk_invD(1,2) [OF inv] by (simp_all add: st0_def)
  from visit_deps_effect [OF this, of "edges_of e current" i current k]
  obtain new where new: "set new = {d \<in> set (edges_of e current). fresh_dep i st0 d}"
    "queue st1 = rest @ new" "truncated_by_depth st1 = truncated_by_depth st"
    "bt_inv (distances st1)" "bt_inv (parents st1)"
    "\<And>l. bt_get (distances st1) l = (if l \<in> set new then Some (Suc k) else bt_get (distances st) l)"
    "\<And>l. bt_get (parents st1) l = (if l \<in> set new then Some current else bt_get (parents st) l)"
    unfolding st1' [symmetric] by (auto simp: st0_def)
  have new_iff: "d \<in> set new \<longleftrightarrow> d \<in> set (impacted_deps e i current) \<and> bt_get (distances st) d = None" for d
    by (auto simp: new(1) fresh_dep_def st0_def set_impacted_deps)
  have cur: "shortest e i t k current" "within md k" using walk_invD(3) [OF inv dk] by simp_all
  have short_new: "shortest e i t (Suc k) d" if "d \<in> set new" for d
  proof (rule shortest_next [OF cur(1)])
    show "d \<in> set (impacted_deps e i current)" using that by (simp add: new_iff)
    show "\<not> shortest e i t m d" if "m \<le> k" for m
      using walk_invD(4) [OF inv, of m d] \<open>d \<in> set new\<close> that cur(2)
      by (auto simp: within_def new_iff split: option.splits)
  qed
  have t_old: "t \<notin> set new"
    using short_new shortest_zero [of e i t t] shortest_unique by (metis nat.distinct(1))
  have c1: "\<forall>l n. bt_get (distances st1) l = Some n \<longrightarrow> shortest e i t n l \<and> n \<le> Suc k \<and> within md n"
    using walk_invD(3) [OF inv] short_new False by (auto simp: new(6) stopped_within)
  have c2: "\<forall>l n. shortest e i t n l \<longrightarrow> n \<le> k \<longrightarrow> within md n \<longrightarrow> bt_get (distances st1) l = Some n"
    using walk_invD(4) [OF inv] by (auto simp: new(6) new_iff)
  have c3: "\<exists>qa qb. queue st1 = qa @ qb \<and> (\<forall>q \<in> set qa. bt_get (distances st1) q = Some k) \<and>
      (\<forall>q \<in> set qb. bt_get (distances st1) q = Some (Suc k))"
  proof -
    obtain qa qb where qab: "queue st = qa @ qb" "\<forall>q \<in> set qa. bt_get (distances st) q = Some k"
      "\<forall>q \<in> set qb. bt_get (distances st) q = Some (Suc k)"
      using walk_invD(5) [OF inv] unfolding queue_levels_def by blast
    have "qa \<noteq> []" using qab q dk by auto
    then have "queue st1 = tl qa @ (qb @ new)" using qab(1) q new(2) by (cases qa) auto
    moreover have "\<forall>q \<in> set (tl qa). bt_get (distances st1) q = Some k"
      using qab(2) \<open>qa \<noteq> []\<close> by (auto simp: new(6) new_iff dest: list.set_sel(2))
    moreover have "\<forall>q \<in> set (qb @ new). bt_get (distances st1) q = Some (Suc k)"
      using qab(3) by (auto simp: new(6))
    ultimately show ?thesis by blast
  qed
  have c4: "\<forall>d \<in> set (impacted_deps e i l). bt_get (distances st1) d \<noteq> None"
    if "bt_get (distances st1) l = Some n" "l \<notin> set (queue st1)" "\<not> stopped md n" for l n
  proof (cases "l = current")
    case True
    then show ?thesis by (auto simp: new(6) new_iff)
  next
    case ne: False
    have "l \<notin> set new" "l \<notin> set rest" using that(2) new(2) by auto
    with that ne q have "bt_get (distances st) l = Some n" "l \<notin> set (queue st)" by (auto simp: new(6))
    from walk_invD(6) [OF inv this that(3)] show ?thesis by (auto simp: new(6))
  qed
  have c5: "\<forall>d \<in> set (impacted_deps e i l). bt_get (distances st1) d = None \<longrightarrow> truncated_by_depth st1"
    if "bt_get (distances st1) l = Some n" "l \<notin> set (queue st1)" "stopped md n" for l n
  proof -
    have "l \<notin> set new" "l \<notin> set rest" using that(2) new(2) by auto
    moreover have "l \<noteq> current" using that(1,3) False dk by (auto simp: new(6) new_iff)
    ultimately have "bt_get (distances st) l = Some n" "l \<notin> set (queue st)" using that(1) q by (auto simp: new(6))
    from walk_invD(7) [OF inv this that(3)] show ?thesis by (auto simp: new(3,6) split: if_splits)
  qed
  have c6: "\<forall>l. bt_get (parents st1) l = None \<longleftrightarrow> l = t \<or> bt_get (distances st1) l = None"
    using walk_invD(9) [OF inv] t_old by (auto simp: new(6,7))
  have c7: "\<exists>n. bt_get (distances st1) p = Some n \<and> bt_get (distances st1) l = Some (Suc n) \<and>
      l \<in> set (impacted_deps e i p)" if "bt_get (parents st1) l = Some p" for l p
  proof (cases "l \<in> set new")
    case True
    with that have "p = current" by (simp add: new(7))
    with True dk show ?thesis by (auto simp: new(6) new_iff)
  next
    case old: False
    with that have "bt_get (parents st) l = Some p" by (simp add: new(7))
    from walk_invD(10) [OF inv this] obtain n where "bt_get (distances st) p = Some n"
      "bt_get (distances st) l = Some (Suc n)" "l \<in> set (impacted_deps e i p)" by blast
    then show ?thesis using old by (auto simp: new(6) new_iff)
  qed
  have c8: "truncated_by_depth st1 \<longrightarrow> (\<exists>m l. md = Some m \<and> shortest e i t (Suc m) l)"
    using walk_invD(8) [OF inv] unfolding new(3) by blast
  have "known_sound e i t md k st1" using c1 unfolding known_sound_def .
  moreover have "known_complete e i t md k st1" using c2 unfolding known_complete_def .
  moreover have "queue_levels k st1" using c3 unfolding queue_levels_def .
  moreover have "handed_on e i md st1" using c4 unfolding handed_on_def by blast
  moreover have "cut_seen e i md st1" using c5 unfolding cut_seen_def by blast
  moreover have "cut_real e i t md st1" using c8 unfolding cut_real_def .
  moreover have "parents_ok e i t st1" using c6 c7 unfolding parents_ok_def by blast
  ultimately show ?thesis
    unfolding st0_def [symmetric] st1_def [symmetric] walk_inv_def using new(4,5) by simp
qed

text \<open>The loop empties its queue without the panic of a missing distance.\<close>

lemma walk_loop_inv:
  "walk_inv e i t md k st \<Longrightarrow>
     \<exists>st' k'. walk_loop e i md st = Some st' \<and> queue st' = [] \<and> walk_inv e i t md k' st'"
proof (induction e i md st arbitrary: k rule: walk_loop.induct)
  case (1 e i md st)
  show ?case
  proof (cases "queue st")
    case Nil
    then show ?thesis using 1(2) by (subst walk_loop.simps) auto
  next
    case (Cons current rest)
    obtain qa qb where q: "queue st = qa @ qb" "\<forall>q \<in> set qa. bt_get (distances st) q = Some k"
      "\<forall>q \<in> set qb. bt_get (distances st) q = Some (Suc k)"
      using walk_invD(5) [OF 1(2)] unfolding queue_levels_def by blast
    obtain k' where k': "walk_inv e i t md k' st" "bt_get (distances st) current = Some k'"
    proof (cases qa)
      case Nil
      with q Cons show ?thesis using that [OF walk_inv_shift [OF 1(2)]] by auto
    next
      case (Cons a as)
      then show ?thesis using that [OF 1(2)] q \<open>queue st = current # rest\<close> by simp
    qed
    have "walk_loop e i md st = walk_loop e i md (visit_node e i md current k' (st\<lparr>queue := rest\<rparr>))"
      using Cons k'(2) by (subst walk_loop.simps) simp
    with 1(1) [OF Cons k'(2) walk_inv_step [OF k'(1) Cons k'(2)]] show ?thesis by simp
  qed
qed

lemma walk_inv_later:
  assumes "walk_inv e i t md k st" "queue st = []"
  shows "walk_inv e i t md (k + j) st"
  by (induction j) (use assms walk_inv_shift in \<open>auto\<close>)

text \<open>What the finished walk holds.\<close>

lemma walk_upstream_finished:
  obtains st k where "walk_upstream tgt dep_edges impacted max_d = Some st"
    "queue st = []" "\<And>j. walk_inv dep_edges impacted tgt max_d (k + j) st"
proof -
  from walk_loop_inv [OF walk_inv_start] obtain st k where
    "walk_loop dep_edges impacted max_d (walk_start tgt) = Some st" "queue st = []"
    "walk_inv dep_edges impacted tgt max_d k st" by blast
  with that [of st k] show ?thesis by (simp add: walk_upstream_def walk_inv_later)
qed

lemma walk_distances:
  assumes "walk_upstream tgt dep_edges impacted max_d = Some st"
  shows "bt_get (distances st) l = Some n \<longleftrightarrow> shortest dep_edges impacted tgt n l \<and> within max_d n"
proof -
  obtain k where q: "queue st = []" and inv: "\<And>j. walk_inv dep_edges impacted tgt max_d (k + j) st"
    by (rule walk_upstream_finished [of tgt dep_edges impacted max_d]) (use assms in auto)
  show ?thesis using walk_invD(3) [OF inv [of n], of l n] walk_invD(4) [OF inv [of n], of n l] by auto
qed

lemma walk_truncated:
  assumes "walk_upstream tgt dep_edges impacted max_d = Some st"
  shows "truncated_by_depth st \<longleftrightarrow> (\<exists>m l. max_d = Some m \<and> shortest dep_edges impacted tgt (Suc m) l)"
proof -
  obtain k where q: "queue st = []" and inv: "\<And>j. walk_inv dep_edges impacted tgt max_d (k + j) st"
    by (rule walk_upstream_finished [of tgt dep_edges impacted max_d]) (use assms in auto)
  have "truncated_by_depth st" if m: "max_d = Some m" "shortest dep_edges impacted tgt (Suc m) l" for m l
  proof -
    from shortest_pred [OF m(2)] obtain p where
      p: "shortest dep_edges impacted tgt m p" "l \<in> set (impacted_deps dep_edges impacted p)" by blast
    have dp: "bt_get (distances st) p = Some m" using p(1) m(1) by (simp add: walk_distances [OF assms] within_def)
    have "bt_get (distances st) l = None"
    proof (cases "bt_get (distances st) l")
      case (Some n)
      then have "shortest dep_edges impacted tgt n l" "n \<le> m"
        using m(1) by (simp_all add: walk_distances [OF assms] within_def)
      with m(2) shortest_unique [OF m(2)] show ?thesis by fastforce
    qed simp
    with walk_invD(7) [OF inv [of 0] dp _ _ p(2)] show ?thesis by (simp add: q m(1) stopped_def)
  qed
  with walk_invD(8) [OF inv [of 0]] show ?thesis by blast
qed

lemma walk_parents:
  assumes "walk_upstream tgt dep_edges impacted max_d = Some st"
  shows "bt_get (parents st) l = None \<longleftrightarrow> l = tgt \<or> bt_get (distances st) l = None"
    and "bt_get (parents st) l = Some p \<Longrightarrow>
      \<exists>n. bt_get (distances st) p = Some n \<and> bt_get (distances st) l = Some (Suc n) \<and>
        l \<in> set (impacted_deps dep_edges impacted p)"
    and "bt_inv (distances st)"
proof -
  obtain k where inv: "\<And>j. walk_inv dep_edges impacted tgt max_d (k + j) st"
    by (rule walk_upstream_finished [of tgt dep_edges impacted max_d]) (use assms in auto)
  show "bt_get (parents st) l = None \<longleftrightarrow> l = tgt \<or> bt_get (distances st) l = None"
    by (rule walk_invD(9) [OF inv])
  show "bt_get (parents st) l = Some p \<Longrightarrow>
      \<exists>n. bt_get (distances st) p = Some n \<and> bt_get (distances st) l = Some (Suc n) \<and>
        l \<in> set (impacted_deps dep_edges impacted p)"
    by (rule walk_invD(10) [OF inv])
  show "bt_inv (distances st)" by (rule walk_invD(1) [OF inv])
qed

lemma walk_root: 
  assumes "walk_upstream tgt dep_edges impacted max_d = Some st"
  shows "bt_get (distances st) l = Some 0 \<longleftrightarrow> l = tgt"
  by (auto simp: walk_distances [OF assms] shortest_zero within_def split: option.splits)

subsection \<open>Paths back to the target\<close>

text \<open>Consecutive labels of a path are dependency and consumer.\<close>

fun dep_chain :: "(string, string list) btree \<Rightarrow> (label, impact_type) btree \<Rightarrow> label list \<Rightarrow> bool" where
  "dep_chain e i (a # b # rest) \<longleftrightarrow> a \<in> set (impacted_deps e i b) \<and> dep_chain e i (b # rest)"
| "dep_chain e i _ \<longleftrightarrow> True"

lemma path_of_walk:
  assumes w: "walk_upstream tgt dep_edges impacted max_d = Some st"
  shows "bt_get (distances st) l = Some n \<Longrightarrow>
    \<exists>p. path_to_target l (parents st) = Some p \<and> length p = Suc n \<and> hd p = l \<and> last p = tgt \<and>
      dep_chain dep_edges impacted p \<and> (\<forall>x \<in> set p. bt_get (distances st) x \<noteq> None)"
proof (induction n arbitrary: l)
  case 0
  then have "l = tgt" by (simp add: walk_root [OF w])
  then have "bt_get (parents st) l = None" by (simp add: walk_parents(1) [OF w])
  then have "path_to_target l (parents st) = Some [l]" by (simp add: path_to_target.simps)
  with 0 \<open>l = tgt\<close> show ?case by simp
next
  case (Suc n)
  then have "l \<noteq> tgt" using walk_root [OF w, of tgt] by auto
  then obtain p where p: "bt_get (parents st) l = Some p"
    using Suc.prems walk_parents(1) [OF w, of l] by auto
  from walk_parents(2) [OF w this] Suc.prems
  have dp: "bt_get (distances st) p = Some n" "l \<in> set (impacted_deps dep_edges impacted p)" by auto
  from Suc.IH [OF dp(1)] obtain q where q: "path_to_target p (parents st) = Some q" "length q = Suc n"
    "hd q = p" "last q = tgt" "dep_chain dep_edges impacted q" "\<forall>x \<in> set q. bt_get (distances st) x \<noteq> None" by blast
  have "path_to_target l (parents st) = Some (l # q)"
    using p q(1) by (subst path_to_target.simps) simp
  moreover have "dep_chain dep_edges impacted (l # q)" using q dp(2) by (cases q) auto
  ultimately show ?case using q Suc.prems by (cases q) auto
qed

end
