(* ===== verification/Explain_Answer.thy ===== *)
theory Explain_Answer
  imports Explain_Walk
begin

section \<open>Correctness of the attribution\<close>

text \<open>
  What \<^verbatim>\<open>explain\<close> (\<^verbatim>\<open>src/explain.rs\<close>) answers: the root causes, their paths, the caps, the subgraph and
  the failures, on top of the correctness of the walk.
\<close>

subsection \<open>The walk, stated for the whole search\<close>

text \<open>
  The breadth-first search ends and finds exactly the impacted labels upstream of the target, each at its
  least number of dependency steps, up to the depth limit; the truncation flag is set exactly when a
  label lies one step beyond the limit.
\<close>

theorem walk_upstream_shortest:
  "\<exists>st. walk_upstream tgt dep_edges impacted max_d = Some st \<and>
     (\<forall>l n. bt_get (distances st) l = Some n \<longleftrightarrow> shortest dep_edges impacted tgt n l \<and> within max_d n) \<and>
     (truncated_by_depth st \<longleftrightarrow> (\<exists>m l. max_d = Some m \<and> shortest dep_edges impacted tgt (Suc m) l))"
proof -
  obtain st where st: "walk_upstream tgt dep_edges impacted max_d = Some st"
    by (rule walk_upstream_finished)
  then show ?thesis using walk_distances [OF st] walk_truncated [OF st] by blast
qed

text \<open>
  Following the parents from a visited label always ends at the queried target, after exactly as many
  steps as the label is away, each step going from a dependency to one of its consumers.
\<close>

theorem path_to_target_shortest:
  assumes "walk_upstream tgt dep_edges impacted max_d = Some st" "bt_get (distances st) l = Some n"
  shows "\<exists>p. path_to_target l (parents st) = Some p \<and> length p = Suc n \<and> hd p = l \<and> last p = tgt \<and>
    dep_chain dep_edges impacted p"
  using path_of_walk [OF assms] by blast

subsection \<open>Root causes\<close>

text \<open>A label at a distance is impacted, as the target is.\<close>

lemma shortest_impacted:
  "shortest e i t n l \<Longrightarrow> bt_get i t \<noteq> None \<Longrightarrow> bt_get i l \<noteq> None"
  by (cases n) (auto simp: shortest_zero set_impacted_deps dest: shortest_pred)

lemma distinct_map_sort_key [simp]: "distinct (map f (sort_key k xs)) \<longleftrightarrow> distinct (map f xs)"
  by (simp add: distinct_map)

definition cause_key :: "root_cause \<Rightarrow> nat \<times> label" where
  "cause_key r = (rc_target_distance r, rc_label r)"

definition causes_complete ::
  "(string, string list) btree \<Rightarrow> (label, impact_type) btree \<Rightarrow> label \<Rightarrow> nat option \<Rightarrow> root_cause list \<Rightarrow> bool" where
  "causes_complete e i t md roots \<longleftrightarrow>
     sorted_wrt (<) (map cause_key roots) \<and>
     cause_key ` set roots = {(n, l). bt_get i l = Some Direct \<and> shortest e i t n l \<and> within md n} \<and>
     (\<forall>r \<in> set roots. hd (rc_path r) = rc_label r \<and> last (rc_path r) = t \<and>
        length (rc_path r) = Suc (rc_target_distance r) \<and> dep_chain e i (rc_path r))"

lemma root_cause_of_walk:
  assumes w: "walk_upstream tgt e i md = Some st" and d: "bt_get (distances st) l = Some n"
  shows "\<exists>r. root_cause_of from to (parents st) (l, n) = Some r \<and> rc_label r = l \<and> rc_target_distance r = n \<and>
    hd (rc_path r) = l \<and> last (rc_path r) = tgt \<and> length (rc_path r) = Suc n \<and> dep_chain e i (rc_path r) \<and>
    (\<forall>x \<in> set (rc_path r). bt_get (distances st) x \<noteq> None)"
  using path_of_walk [OF w d] by (auto simp: root_cause_of_def)

lemma all_roots_complete:
  assumes w: "walk_upstream tgt e i md = Some st"
  shows "\<exists>roots. all_roots from to i st = Some roots \<and> causes_complete e i tgt md roots \<and>
    (\<forall>r \<in> set roots. \<forall>x \<in> set (rc_path r). bt_get (distances st) x \<noteq> None)"
proof -
  define ps where "ps = filter (\<lambda>(lbl, d). bt_get i lbl = Some Direct) (distances st)"
  define r where "r = (\<lambda>p. the (root_cause_of from to (parents st) p))"
  have inv: "bt_inv (distances st)" using walk_parents(3) [OF w] .
  have ps: "p \<in> set ps \<longleftrightarrow> bt_get i (fst p) = Some Direct \<and> bt_get (distances st) (fst p) = Some (snd p)" for p
    using inv by (cases p) (auto simp: ps_def bt_distinct)
  have r: "root_cause_of from to (parents st) p = Some (r p)" "rc_label (r p) = fst p" "rc_target_distance (r p) = snd p"
    "hd (rc_path (r p)) = fst p" "last (rc_path (r p)) = tgt" "length (rc_path (r p)) = Suc (snd p)"
    "dep_chain e i (rc_path (r p))" "\<forall>x \<in> set (rc_path (r p)). bt_get (distances st) x \<noteq> None" if "p \<in> set ps" for p
    using root_cause_of_walk [OF w, of "fst p" "snd p" "from" to] that by (auto simp: ps r_def)
  have those: "those (map (root_cause_of from to (parents st)) ps) = Some (map r ps)"
    using r(1) by (rule those_cong_Some)
  define roots where "roots = sort_key cause_key (map r ps)"
  have key: "cause_key (r p) = (snd p, fst p)" if "p \<in> set ps" for p
    using r(2,3) [OF that] by (simp add: cause_key_def)
  have "distinct ps" using bt_distinct [OF inv] unfolding ps_def distinct_map by simp
  then have "distinct (map cause_key (map r ps))"
    by (auto simp: distinct_map inj_on_def key prod_eq_iff)
  then have "distinct (map cause_key roots)" by (simp add: roots_def)
  moreover have "sorted (map cause_key roots)" by (simp add: roots_def)
  ultimately have "sorted_wrt (<) (map cause_key roots)" by (simp add: strict_sorted_iff)
  moreover have "cause_key ` set roots = {(n, l). bt_get i l = Some Direct \<and> shortest e i tgt n l \<and> within md n}"
  proof -
    have "cause_key ` set roots = (\<lambda>p. (snd p, fst p)) ` set ps"
      by (auto simp: roots_def image_image key)
    also have "\<dots> = {(n, l). (l, n) \<in> set ps}" by force
    finally show ?thesis by (simp add: ps walk_distances [OF w])
  qed
  moreover have "all_roots from to i st = Some roots"
    using those by (simp add: all_roots_def ps_def roots_def cause_key_def [abs_def])
  ultimately show ?thesis
    unfolding causes_complete_def using r by (auto simp: roots_def)
qed

subsection \<open>The subgraph\<close>

definition graph_ok ::
  "(string, string list) btree \<Rightarrow> label \<Rightarrow> impact_explanation \<Rightarrow> bool" where
  "graph_ok e t x \<longleftrightarrow>
     distinct (map en_label (ex_nodes x)) \<and>
     en_label ` set (ex_nodes x) = insert t (\<Union>r \<in> set (ex_root_causes x). set (rc_path r)) \<and>
     sorted_wrt (<) (ex_edges x) \<and>
     set (ex_edges x) = {(d, c). d \<in> en_label ` set (ex_nodes x) \<and> c \<in> en_label ` set (ex_nodes x) \<and> d \<in> set (edges_of e c)}"

lemma build_subgraph_ok:
  assumes d: "\<And>l. l \<in> set (included_labels roots t) \<Longrightarrow> bt_get dists l \<noteq> None \<and> bt_get i l \<noteq> None"
  shows "\<exists>nodes edges. build_subgraph roots t dists i e to from = Some (nodes, edges) \<and>
    distinct (map en_label nodes) \<and> en_label ` set nodes = insert t (\<Union>r \<in> set roots. set (rc_path r)) \<and>
    sorted_wrt (<) edges \<and>
    set edges = {(d, c). d \<in> en_label ` set nodes \<and> c \<in> en_label ` set nodes \<and> d \<in> set (edges_of e c)}"
proof -
  define node where "node = (\<lambda>l. the (explain_node_of roots t dists i to from l))"
  have node: "explain_node_of roots t dists i to from l = Some (node l)" "en_label (node l) = l"
    if "l \<in> set (included_labels roots t)" for l
    using d [OF that] by (auto simp: node_def explain_node_of_def)
  have those: "those (map (explain_node_of roots t dists i to from) (included_labels roots t)) =
      Some (map node (included_labels roots t))"
    using node(1) by (rule those_cong_Some)
  define nodes where "nodes = sort_key (\<lambda>n. (- int (en_target_distance n), en_label n)) (map node (included_labels roots t))"
  have dist: "distinct (included_labels roots t)"
    unfolding included_labels_def using strict_sorted_iff sorted_bs_of_list by blast
  then have "distinct (map en_label (map node (included_labels roots t)))"
    by (simp add: distinct_map inj_on_def node(2))
  then have "distinct (map en_label nodes)" by (simp add: nodes_def)
  moreover have lbls: "en_label ` set nodes = set (included_labels roots t)"
    by (simp add: nodes_def image_image node(2))
  moreover have "set (included_labels roots t) = insert t (\<Union>r \<in> set roots. set (rc_path r))"
    by (simp add: included_labels_def)
  moreover define edges where "edges = bs_of_list (concat (map (\<lambda>consumer.
      map (\<lambda>dep. (dep, consumer)) (filter (\<lambda>dep. dep \<in> set (included_labels roots t)) (edges_of e consumer)))
      (included_labels roots t)))"
  then have "set edges = {(d, c). d \<in> en_label ` set nodes \<and> c \<in> en_label ` set nodes \<and> d \<in> set (edges_of e c)}"
    unfolding lbls by auto
  moreover have "sorted_wrt (<) edges" by (simp add: edges_def)
  moreover have "build_subgraph roots t dists i e to from = Some (nodes, edges)"
    using those by (simp add: build_subgraph_def Let_def nodes_def edges_def)
  ultimately show ?thesis by simp
qed

subsection \<open>The answer\<close>

lemma explain_cases:
  fixes "from" to e tgt limits
  defines "i \<equiv> impacted_types from to"
  assumes known: "bt_get to tgt \<noteq> None \<or> bt_get from tgt \<noteq> None" and imp: "bt_get i tgt \<noteq> None"
  shows "\<exists>st roots kept x. explain from to e tgt limits = Some (Inr x) \<and>
    walk_upstream tgt e i (max_depth limits) = Some st \<and> causes_complete e i tgt (max_depth limits) roots \<and>
    kept = (if 0 < max_roots limits then take (max_roots limits) roots else roots) \<and>
    ex_root_causes (explanation x) = kept \<and> ex_total_root_causes (explanation x) = length roots \<and>
    ex_impacted (explanation x) \<and> \<not> ex_removed (explanation x) \<and> (ex_truncated (explanation x) \<longleftrightarrow> length kept < length roots) \<and>
    ex_target (explanation x) = tgt \<and>
    (ex_directly_changed (explanation x) \<longleftrightarrow> bt_get i tgt = Some Direct) \<and>
    (out_warnings x = [] \<longleftrightarrow> \<not> truncated_by_depth st) \<and> (out_notes x = [] \<longleftrightarrow> \<not> ex_truncated (explanation x)) \<and>
    graph_ok e tgt (explanation x)"
proof -
  obtain st where w: "walk_upstream tgt e i (max_depth limits) = Some st" by (rule walk_upstream_finished)
  from all_roots_complete [OF w, of "from" to] obtain roots where
    r: "all_roots from to i st = Some roots" "causes_complete e i tgt (max_depth limits) roots"
    "\<forall>r \<in> set roots. \<forall>x \<in> set (rc_path r). bt_get (distances st) x \<noteq> None" by blast
  define kept where "kept = (if max_roots limits > 0 \<and> length roots > max_roots limits then take (max_roots limits) roots else roots)"
  have kept: "kept = (if 0 < max_roots limits then take (max_roots limits) roots else roots)"
    by (simp add: kept_def)
  have "set kept \<subseteq> set roots" by (auto simp: kept_def dest: in_set_takeD)
  have "bt_get (distances st) l \<noteq> None \<and> bt_get i l \<noteq> None" if "l \<in> set (included_labels kept tgt)" for l
  proof -
    have "bt_get (distances st) l \<noteq> None"
      using that r(3) \<open>set kept \<subseteq> set roots\<close> walk_root [OF w, of tgt] by (auto simp: included_labels_def)
    moreover from this have "bt_get i l \<noteq> None"
      using walk_distances [OF w] imp by (auto dest: shortest_impacted)
    ultimately show ?thesis ..
  qed
  note included = this
  from build_subgraph_ok [of kept tgt "distances st" i e to "from", OF included] obtain nodes edges where
    g: "build_subgraph kept tgt (distances st) i e to from = Some (nodes, edges)"
    "distinct (map en_label nodes)" "en_label ` set nodes = insert tgt (\<Union>r \<in> set kept. set (rc_path r))"
    "sorted_wrt (<) edges"
    "set edges = {(d, c). d \<in> en_label ` set nodes \<and> c \<in> en_label ` set nodes \<and> d \<in> set (edges_of e c)}" by blast
  have "explain from to e tgt limits = Some (Inr \<lparr>explanation =
      \<lparr>ex_target = tgt, ex_target_type = type_of tgt to from, ex_impacted = True, ex_removed = False,
       ex_directly_changed = (bt_get i tgt = Some Direct),
       ex_root_causes = kept, ex_total_root_causes = length roots, ex_truncated = (length kept < length roots),
       ex_nodes = nodes, ex_edges = edges\<rparr>,
      out_warnings = (if truncated_by_depth st then [depth_warning tgt limits] else []),
      out_notes = (if max_roots limits > 0 \<and> length roots > max_roots limits then [roots_note tgt (length kept) (length roots)] else [])\<rparr>)"
    using known imp w r(1) g(1) unfolding explain_def Let_def i_def [symmetric] kept_def by auto
  then show ?thesis
    using w r(2) g by (intro exI [of _ st] exI [of _ roots] exI [of _ kept]) (auto simp: kept graph_ok_def)
qed


text \<open>
  C19: for an impacted target the root causes are exactly the labels that changed themselves and lie upstream
  of it within the depth limit, nearest first, each with a shortest propagation path; a cap keeps the
  nearest ones and never hides the total, and a depth cut is always reported by a warning. The graph
  holds the labels of the reported paths and every dependency edge among them.
\<close>

theorem explain_root_causes:
  assumes "bt_get (impacted_types from to) tgt \<noteq> None" "bt_get to tgt \<noteq> None"
  shows "\<exists>roots x. explain from to e tgt limits = Some (Inr x) \<and>
    causes_complete e (impacted_types from to) tgt (max_depth limits) roots \<and>
    ex_root_causes (explanation x) = (if 0 < max_roots limits then take (max_roots limits) roots else roots) \<and>
    ex_total_root_causes (explanation x) = length roots \<and>
    (out_notes x = [] \<longleftrightarrow> ex_root_causes (explanation x) = roots) \<and>
    (out_warnings x = [] \<longleftrightarrow>
       \<not> (\<exists>m l. max_depth limits = Some m \<and> shortest e (impacted_types from to) tgt (Suc m) l)) \<and>
    graph_ok e tgt (explanation x)"
proof -
  obtain st roots kept x where x: "explain from to e tgt limits = Some (Inr x)"
    "walk_upstream tgt e (impacted_types from to) (max_depth limits) = Some st"
    "causes_complete e (impacted_types from to) tgt (max_depth limits) roots"
    "kept = (if 0 < max_roots limits then take (max_roots limits) roots else roots)"
    "ex_root_causes (explanation x) = kept" "ex_total_root_causes (explanation x) = length roots"
    "ex_truncated (explanation x) \<longleftrightarrow> length kept < length roots"
    "out_warnings x = [] \<longleftrightarrow> \<not> truncated_by_depth st" "out_notes x = [] \<longleftrightarrow> \<not> ex_truncated (explanation x)"
    "graph_ok e tgt (explanation x)"
    using explain_cases [of to tgt "from" e limits] assms by blast
  have "out_notes x = [] \<longleftrightarrow> ex_root_causes (explanation x) = roots"
    unfolding x(5,9,7) by (auto simp: x(4) take_all_iff)
  with x walk_truncated [OF x(2)] show ?thesis by (intro exI [of _ roots] exI [of _ x]) simp
qed

text \<open>
  The attribution never panics and fails only for a label that neither revision knows, with that
  label in the error; a known target that is not impacted gets an empty explanation that tells a
  removed target from an unchanged one.
\<close>

theorem explain_total:
  "\<exists>r. explain from to e tgt limits = Some r \<and>
     ((\<exists>err. r = Inl err) \<longleftrightarrow> bt_get to tgt = None \<and> bt_get from tgt = None) \<and>
     (r = Inl (UnknownTargetError tgt) \<or>
      (\<exists>x. r = Inr x \<and> ex_target (explanation x) = tgt \<and>
         (ex_impacted (explanation x) \<longleftrightarrow> bt_get (impacted_types from to) tgt \<noteq> None) \<and>
         (ex_removed (explanation x) \<longleftrightarrow> \<not> ex_impacted (explanation x) \<and> bt_get to tgt = None)))"
proof (cases "bt_get to tgt = None \<and> bt_get from tgt = None")
  case True
  then show ?thesis by (simp add: explain_def)
next
  case known: False
  show ?thesis
  proof (cases "bt_get (impacted_types from to) tgt = None")
    case True
    with known show ?thesis unfolding explain_def Let_def by (auto simp: unimpacted_outcome_def)
  next
    case False
    with known explain_cases [of to tgt "from" e limits] obtain x where
      "explain from to e tgt limits = Some (Inr x)" "ex_impacted (explanation x)" "\<not> ex_removed (explanation x)"
      "ex_target (explanation x) = tgt" by blast
    then show ?thesis using False known by auto
  qed
qed

subsection \<open>An example\<close>

definition sample_limits :: explain_limits where
  "sample_limits = \<lparr>max_depth = Some 3, max_roots = 0\<rparr>"

lemma sample_walk:
  "walk_upstream ''//b:bin'' sample_dep_edges (impacted_types sample_from sample_to) (Some 3) =
     Some \<lparr>distances = [(''//a:lib'', 1), (''//b:bin'', 0)], parents = [(''//a:lib'', ''//b:bin'')], queue = [],
       truncated_by_depth = False\<rparr>"
  unfolding walk_upstream_def walk_start_def
  by (simp add: walk_loop.simps visit_node_def visit_dep_def edges_of_def sample_dep_edges_def sample_types)

theorem path_to_target_shortest_witness:
  "\<exists>p. path_to_target ''//a:lib'' [(''//a:lib'', ''//b:bin'')] = Some p \<and> length p = 2 \<and> last p = ''//b:bin''"
  using path_to_target_shortest [OF sample_walk, of "''//a:lib''" 1] by auto

theorem explain_root_causes_witness:
  "\<exists>x. explain sample_from sample_to sample_dep_edges ''//b:bin'' sample_limits = Some (Inr x) \<and>
     ex_total_root_causes (explanation x) = length (ex_root_causes (explanation x)) \<and>
     graph_ok sample_dep_edges ''//b:bin'' (explanation x)"
proof -
  have "bt_get (impacted_types sample_from sample_to) ''//b:bin'' \<noteq> None" "bt_get sample_to ''//b:bin'' \<noteq> None"
    by (simp add: sample_types) (simp add: sample_to_def)
  from explain_root_causes [OF this, of sample_dep_edges sample_limits] show ?thesis
    by (auto simp: sample_limits_def)
qed


end
