(* ===== verification/Render.thy ===== *)
theory Render
  imports Explain_Answer
begin

section \<open>Rendering an explanation (explain.rs)\<close>

text \<open>
  The text, DOT and Mermaid output of \<^verbatim>\<open>src/explain.rs\<close>. The JSON format is produced by \<^verbatim>\<open>serde_json\<close>,
  which is a parameter. Indexing \<^verbatim>\<open>ids\<close> with a label that is no node and a subtraction below zero
  panic; both are the value \<open>None\<close>.
\<close>

datatype explain_format = Text | Json | Dot | Mermaid

definition SURFACE :: string where "SURFACE = ''#fcfcfb''"
definition INK :: string where "INK = ''#0b0b0b''"
definition INK_MUTED :: string where "INK_MUTED = ''#52514e''"
definition HUE_ROOT_CAUSE :: string where "HUE_ROOT_CAUSE = ''#eb6834''"
definition HUE_QUERIED :: string where "HUE_QUERIED = ''#2a78d6''"
definition HUE_INTERMEDIATE :: string where "HUE_INTERMEDIATE = ''#6b6a66''"

text \<open>A line of output, and text between double quotes.\<close>

definition line :: "string \<Rightarrow> string" where
  "line s = s @ [CHR 0x0A]"

definition quoted :: "string \<Rightarrow> string" where
  "quoted s = CHR 0x22 # s @ [CHR 0x22]"

definition type_suffix :: "string \<Rightarrow> string" where
  "type_suffix target_type = (if target_type = '''' then '''' else ''  ['' @ target_type @ '']'')"

definition self_changed_reason :: "string \<Rightarrow> string" where
  "self_changed_reason target_type =
     (if target_type = ''SourceFile'' then ''source file content changed''
      else if target_type = ''GeneratedFile'' then ''generated file changed''
      else if target_type = ''Rule'' then ''the rule'' @ [CHR 0x27] @ ''s own definition or attributes changed''
      else ''the target'' @ [CHR 0x27] @ ''s own hash changed'')"

definition hops_text :: "nat \<Rightarrow> nat \<Rightarrow> string" where
  "hops_text dist pkg_hops =
     (if dist = 0 then ''0 hops -- this is the queried target itself''
      else
        (let hop_word = (if dist = 1 then ''hop'' else ''hops'');
             package_word = (if pkg_hops = 1 then ''package boundary'' else ''package boundaries'')
         in show_nat dist @ '' '' @ hop_word @ '' ('' @ show_nat pkg_hops @ '' '' @ package_word @ '' crossed)''))"

subsection \<open>Text\<close>

definition render_cause :: "nat \<Rightarrow> nat \<Rightarrow> root_cause \<Rightarrow> string" where
  "render_cause last_index index cause =
     (let reason = (case rc_kind cause of
            NewTarget \<Rightarrow> ''new target in the final revision''
          | SelfChanged \<Rightarrow> self_changed_reason (rc_target_type cause))
      in line (''  '' @ show_nat (index + 1) @ ''. '' @ rc_label cause @ type_suffix (rc_target_type cause)) @
         line (''     '' @ reason) @
         line (''     '' @ hops_text (rc_target_distance cause) (rc_package_hops cause)) @
         line (''     '' @ join '' -> '' (rc_path cause)) @
         (if index \<noteq> last_index then [CHR 0x0A] else []))"

definition render_text :: "impact_explanation \<Rightarrow> string option" where
  "render_text e =
     (let out0 = line (ex_target e @ type_suffix (ex_target_type e))
      in if \<not> ex_impacted e then
           Some (out0 @ (if ex_removed e then
               line (''NOT IMPACTED -- this target exists in the starting revision but not the final '' @
                 ''one. Deleted targets are never reported as impacted; there is nothing left to build.'')
             else line (''NOT IMPACTED -- its hash is identical between the two revisions.'')))
         else
           (let out1 = out0 @ ''IMPACTED '' @
                  (if ex_directly_changed e then line (''(directly -- this target changed on its own)'')
                   else line (''(indirectly -- the change came from its dependencies)'')) @ [CHR 0x0A]
            in if ex_root_causes e = [] then
                 Some (out1 @
                   line (''No root cause could be attributed. This target'' @ [CHR 0x27] @
                     ''s hash changed but none of its deps in the dep-edges file are impacted -- '' @
                     ''most often because the hash JSON was filtered with --targetType while the '' @
                     ''dep-edges file was not.'') @
                   line (''See https://github.com/Tinder/bazel-diff/issues/268''))
               else
                 (let shown = length (ex_root_causes e);
                      out2 = out1 @
                        (if ex_truncated e then
                           line (''Root causes: '' @ show_nat (ex_total_root_causes e) @ '' (showing the '' @
                             show_nat shown @ '' nearest)'')
                         else line (''Root causes: '' @ show_nat (ex_total_root_causes e))) @ [CHR 0x0A];
                      out3 = out2 @ concat (map (\<lambda>(index, cause). render_cause (shown - 1) index cause)
                        (enumerate 0 (ex_root_causes e)))
                  in if ex_truncated e then
                       (if ex_total_root_causes e < shown then None
                        else Some (out3 @ [CHR 0x0A] @
                          line (''  ... and '' @ show_nat (ex_total_root_causes e - shown) @
                            '' more. Pass --maxRootCauses=0 to list every root cause.'')))
                     else Some out3)))"

subsection \<open>Graphs\<close>

definition node_ids :: "impact_explanation \<Rightarrow> (label, string) btree" where
  "node_ids e = bt_of_list (map (\<lambda>(index, node). (en_label node, ''n'' @ show_nat index)) (enumerate 0 (ex_nodes e)))"

definition node_label :: "explain_node \<Rightarrow> string" where
  "node_label node =
     (let role = (case (en_is_queried_target node, en_is_root_cause node) of
            (True, True) \<Rightarrow> Some ''queried target - also a root cause''
          | (True, False) \<Rightarrow> Some ''queried target''
          | (False, True) \<Rightarrow> Some ''root cause''
          | (False, False) \<Rightarrow> None)
      in case role of
           Some r \<Rightarrow> en_label node @ [CHR 0x0A] @ ''('' @ r @ '')''
         | None \<Rightarrow> en_label node)"

definition dot_escape :: "string \<Rightarrow> string" where
  "dot_escape value =
     replace_char (CHR 0x0A) [CHR 0x5C, CHR 0x6E]
       (replace_char (CHR 0x22) [CHR 0x5C, CHR 0x22]
         (replace_char (CHR 0x5C) [CHR 0x5C, CHR 0x5C] value))"

definition mermaid_escape :: "string \<Rightarrow> string" where
  "mermaid_escape value = replace_char (CHR 0x0A) ''<br/>'' (replace_char (CHR 0x22) ''#quot;'' value)"

definition dot_node :: "(label, string) btree \<Rightarrow> explain_node \<Rightarrow> string option" where
  "dot_node ids node =
     map_option (\<lambda>node_id.
       ''  '' @ node_id @ '' [label='' @ quoted (dot_escape (node_label node)) @
       (if en_is_queried_target node then '', color='' @ quoted HUE_QUERIED @ '', penwidth=2''
        else if en_is_root_cause node then '', color='' @ quoted HUE_ROOT_CAUSE @ '', penwidth=2, peripheries=2''
        else '''') @
       line (''];'')) (bt_get ids (en_label node))"

definition graph_edge :: "string \<Rightarrow> string \<Rightarrow> (label, string) btree \<Rightarrow> explain_edge \<Rightarrow> string" where
  "graph_edge arrow finish ids edge =
     (case (bt_get ids (fst edge), bt_get ids (snd edge)) of
        (Some f, Some t) \<Rightarrow> line (''  '' @ f @ arrow @ t @ finish)
      | _ \<Rightarrow> '''')"

definition dot_header :: "label \<Rightarrow> string" where
  "dot_header tgt =
     line (''// bazel-diff explain -- why '' @ dot_escape tgt @ '' was impacted'') @
     line (''// Edges point in impact-propagation direction: root cause -> ... -> queried target.'') @
     line (''digraph bazel_diff_impact {'') @
     line (''  rankdir=TB;'') @
     line (''  bgcolor='' @ quoted SURFACE @ '';'') @
     line (''  node [shape=box, style='' @ quoted ''rounded,filled'' @ '', fillcolor='' @ quoted SURFACE @
       '', fontname='' @ quoted ''Helvetica'' @ '', fontsize=10, fontcolor='' @ quoted INK @
       '', color='' @ quoted HUE_INTERMEDIATE @ '', penwidth=1];'') @
     line (''  edge [color='' @ quoted INK_MUTED @ '', penwidth=1, arrowsize=0.7];'') @
     [CHR 0x0A]"

definition dot_legend :: string where
  "dot_legend =
     [CHR 0x0A] @
     line (''  subgraph cluster_legend {'') @
     line (''    label='' @ quoted ''Legend'' @ ''; fontname='' @ quoted ''Helvetica'' @
       ''; fontsize=9; fontcolor='' @ quoted INK_MUTED @ '';'') @
     line (''    color='' @ quoted INK_MUTED @ ''; penwidth=1; style=dashed;'') @
     line (''    lg_root [label='' @ quoted ''root cause'' @ '', color='' @ quoted HUE_ROOT_CAUSE @
       '', penwidth=2, peripheries=2];'') @
     line (''    lg_mid [label='' @ quoted ''carries the change'' @ ''];'') @
     line (''    lg_target [label='' @ quoted ''queried target'' @ '', color='' @ quoted HUE_QUERIED @
       '', penwidth=2];'') @
     line (''    lg_root -> lg_mid -> lg_target [style=invis];'') @
     line (''  }'') @
     line (''}'')"

definition render_dot :: "impact_explanation \<Rightarrow> string option" where
  "render_dot e =
     (let ids = node_ids e
      in map_option (\<lambda>nodes.
           dot_header (ex_target e) @ concat nodes @
           (if ex_edges e \<noteq> [] then [CHR 0x0A] else []) @
           concat (map (graph_edge '' -> '' '';'' ids) (ex_edges e)) @ dot_legend)
         (those (map (dot_node ids) (ex_nodes e))))"

definition mermaid_node :: "(label, string) btree \<Rightarrow> explain_node \<Rightarrow> string option" where
  "mermaid_node ids node =
     map_option (\<lambda>node_id.
       let text = quoted (mermaid_escape (node_label node));
           shaped = (if en_is_queried_target node then node_id @ ''(['' @ text @ ''])''
                     else if en_is_root_cause node then node_id @ ''[['' @ text @ '']]''
                     else node_id @ ''['' @ text @ '']'')
       in line (''  '' @ shaped)) (bt_get ids (en_label node))"

definition class_def :: "string \<Rightarrow> string \<Rightarrow> string \<Rightarrow> string" where
  "class_def class_name hue width =
     line (''  classDef '' @ class_name @ '' fill:'' @ SURFACE @ '',stroke:'' @ hue @ '',stroke-width:'' @ width @
       '',color:'' @ INK)"

definition mermaid_assign ::
  "(label, string) btree \<Rightarrow> explain_node list \<Rightarrow> string \<Rightarrow> (explain_node \<Rightarrow> bool) \<Rightarrow> string option" where
  "mermaid_assign ids nodes class_name predicate =
     map_option (\<lambda>matching.
       if matching \<noteq> [] then line (''  class '' @ join '','' matching @ '' '' @ class_name) else '''')
       (those (map (\<lambda>node. bt_get ids (en_label node)) (filter predicate nodes)))"

definition render_mermaid :: "impact_explanation \<Rightarrow> string option" where
  "render_mermaid e =
     (let ids = node_ids e
      in Option.bind (those (map (mermaid_node ids) (ex_nodes e))) (\<lambda>nodes.
         Option.bind (mermaid_assign ids (ex_nodes e) ''queried'' en_is_queried_target) (\<lambda>queried.
         Option.bind (mermaid_assign ids (ex_nodes e) ''rootCause''
           (\<lambda>node. en_is_root_cause node \<and> \<not> en_is_queried_target node)) (\<lambda>roots.
         Option.bind (mermaid_assign ids (ex_nodes e) ''intermediate''
           (\<lambda>node. \<not> en_is_root_cause node \<and> \<not> en_is_queried_target node)) (\<lambda>intermediate.
         Some (
           line (''%% bazel-diff explain -- why '' @ ex_target e @ '' was impacted'') @
           line (''%% Edges point in impact-propagation direction: root cause -> ... -> queried target.'') @
           line (''flowchart TD'') @
           concat nodes @
           concat (map (graph_edge '' --> '' '''' ids) (ex_edges e)) @
           class_def ''rootCause'' HUE_ROOT_CAUSE ''2px'' @
           class_def ''intermediate'' HUE_INTERMEDIATE ''1px'' @
           class_def ''queried'' HUE_QUERIED ''2px'' @
           queried @ roots @ intermediate))))))"

definition render :: "(impact_explanation \<Rightarrow> string) \<Rightarrow> impact_explanation \<Rightarrow> explain_format \<Rightarrow> string option" where
  "render to_string_pretty e fmt =
     (case fmt of
        Text \<Rightarrow> render_text e
      | Json \<Rightarrow> Some (line (to_string_pretty e))
      | Dot \<Rightarrow> render_dot e
      | Mermaid \<Rightarrow> render_mermaid e)"

subsection \<open>Rendering never fails\<close>

text \<open>Text that is a sequence of whole lines.\<close>

definition whole :: "string \<Rightarrow> bool" where
  "whole s \<longleftrightarrow> s = [] \<or> ends_with [CHR 0x0A] s"

definition complete_text :: "string \<Rightarrow> bool" where
  "complete_text s \<longleftrightarrow> ends_with [CHR 0x0A] s"

lemma complete_text_line [simp]: "complete_text (line s)"
  by (auto simp: complete_text_def ends_with_iff line_def)

lemma complete_text_append [simp]: "complete_text t \<Longrightarrow> complete_text (s @ t)"
  unfolding complete_text_def ends_with_iff by (metis append.assoc)

lemma complete_text_Cons [simp]: "complete_text t \<Longrightarrow> complete_text (c # t)"
  using complete_text_append [of t "[c]"] by simp

lemma complete_text_whole: "complete_text s \<Longrightarrow> whole t \<Longrightarrow> complete_text (s @ t)"
  by (auto simp: whole_def complete_text_def [symmetric])

lemma whole_intros [simp]: "whole []" "whole (line s)" "complete_text s \<Longrightarrow> whole s"
  using complete_text_line [of s] by (auto simp: whole_def complete_text_def [symmetric])

lemma whole_append [simp]: "whole s \<Longrightarrow> whole t \<Longrightarrow> whole (s @ t)"
  by (auto simp: whole_def complete_text_def [symmetric])

lemma node_ids_total:
  assumes "distinct (map en_label (ex_nodes e))" "node \<in> set (ex_nodes e)"
  shows "\<exists>i. bt_get (node_ids e) (en_label node) = Some i"
proof -
  let ?kvs = "map (\<lambda>(index, node). (en_label node, ''n'' @ show_nat index)) (enumerate 0 (ex_nodes e))"
  have keys: "map fst ?kvs = map en_label (ex_nodes e)"
    by (rule nth_equalityI) (simp_all add: nth_enumerate_eq)
  with assms(1) have "bt_get (node_ids e) = map_of ?kvs" unfolding node_ids_def by (intro bt_get_of_list) simp
  moreover have "en_label node \<in> fst ` set ?kvs"
    using assms(2) keys by (metis image_eqI image_set)
  ultimately show ?thesis by (metis map_of_eq_None_iff option.exhaust)
qed

lemma those_total: "(\<And>x. x \<in> set xs \<Longrightarrow> \<exists>y. f x = Some y) \<Longrightarrow> \<exists>ys. those (map f xs) = Some ys"
  by (induction xs) fastforce+

lemma mermaid_assign_total:
  assumes "distinct (map en_label (ex_nodes e))"
  shows "\<exists>s. mermaid_assign (node_ids e) (ex_nodes e) name P = Some s \<and> whole s"
proof -
  have "\<exists>ys. those (map (\<lambda>node. bt_get (node_ids e) (en_label node)) (filter P (ex_nodes e))) = Some ys"
    using node_ids_total [OF assms] by (intro those_total) simp
  then obtain ys where "those (map (\<lambda>node. bt_get (node_ids e) (en_label node)) (filter P (ex_nodes e))) = Some ys" ..
  then show ?thesis unfolding mermaid_assign_def by simp
qed

lemma render_cause_complete: "complete_text (render_cause k i c)"
  unfolding render_cause_def Let_def
  by (simp add: complete_text_def ends_with_iff line_def)

lemma render_dot_total:
  assumes "distinct (map en_label (ex_nodes e))"
  shows "\<exists>s. render_dot e = Some s \<and> complete_text s"
proof -
  have "\<exists>ys. those (map (dot_node (node_ids e)) (ex_nodes e)) = Some ys"
    using node_ids_total [OF assms] by (intro those_total) (auto simp: dot_node_def)
  then show ?thesis by (auto simp: render_dot_def Let_def dot_legend_def)
qed

lemma render_mermaid_total:
  assumes "distinct (map en_label (ex_nodes e))"
  shows "\<exists>s. render_mermaid e = Some s \<and> complete_text s"
proof -
  obtain ys where "those (map (mermaid_node (node_ids e)) (ex_nodes e)) = Some ys"
    using those_total [of "ex_nodes e" "mermaid_node (node_ids e)"] node_ids_total [OF assms]
    by (auto simp: mermaid_node_def)
  moreover obtain a b c where
    "mermaid_assign (node_ids e) (ex_nodes e) ''queried'' en_is_queried_target = Some a" "whole a"
    "mermaid_assign (node_ids e) (ex_nodes e) ''rootCause''
       (\<lambda>node. en_is_root_cause node \<and> \<not> en_is_queried_target node) = Some b" "whole b"
    "mermaid_assign (node_ids e) (ex_nodes e) ''intermediate''
       (\<lambda>node. \<not> en_is_root_cause node \<and> \<not> en_is_queried_target node) = Some c" "whole c"
    using mermaid_assign_total [OF assms] by meson
  moreover from this have "complete_text (class_def n h w @ a @ b @ c)" for n h w
    by (intro complete_text_whole) (simp_all add: class_def_def)
  ultimately show ?thesis by (simp add: render_mermaid_def Let_def)
qed

lemma render_text_total:
  assumes "ex_truncated e \<Longrightarrow> length (ex_root_causes e) \<le> ex_total_root_causes e"
  shows "\<exists>s. render_text e = Some s \<and> complete_text s"
proof -
  have "complete_text (concat (map (\<lambda>(index, cause). render_cause k index cause) cs))" if "cs \<noteq> []" for k cs
    using that by (induction cs rule: rev_induct) (auto simp: render_cause_complete)
  then have "complete_text (concat (map (\<lambda>(index, cause). render_cause k index cause) (enumerate 0 (ex_root_causes e))))"
    if "ex_root_causes e \<noteq> []" for k
    using that by (metis length_enumerate length_0_conv)
  then show ?thesis using assms by (auto simp: render_text_def Let_def)
qed

text \<open>
  Every explanation that the attribution returns can be rendered in every format, and the output ends
  with a newline.
\<close>

theorem render_explanation_ends_with_newline:
  assumes "explain from to e tgt limits = Some (Inr x)"
  shows "\<exists>s. render to_string_pretty (explanation x) fmt = Some s \<and> ends_with [CHR 0x0A] s"
proof -
  have "distinct (map en_label (ex_nodes (explanation x))) \<and>
      length (ex_root_causes (explanation x)) \<le> ex_total_root_causes (explanation x)"
  proof (cases "bt_get (impacted_types from to) tgt = None")
    case True
    with assms have "x = unimpacted_outcome tgt (type_of tgt to from) (bt_get to tgt = None)"
      by (auto simp: explain_def Let_def split: if_splits)
    then show ?thesis by (simp add: unimpacted_outcome_def)
  next
    case False
    moreover have "bt_get to tgt \<noteq> None \<or> bt_get from tgt \<noteq> None" using assms by (auto simp: explain_def split: if_splits)
    ultimately show ?thesis
      using explain_cases [of to tgt "from" e limits] assms by (auto simp: graph_ok_def)
  qed
  then have "\<exists>s. render to_string_pretty (explanation x) fmt = Some s \<and> complete_text s"
    unfolding render_def by (cases fmt) (auto intro: render_text_total render_dot_total render_mermaid_total)
  then show ?thesis by (simp add: complete_text_def)
qed

subsection \<open>Escaping\<close>

text \<open>How a DOT reader takes the escapes of a quoted string back.\<close>

fun dot_unescape :: "string \<Rightarrow> string" where
  "dot_unescape (c # d # s) =
     (if c = CHR 0x5C then (if d = CHR 0x6E then CHR 0x0A else d) # dot_unescape s else c # dot_unescape (d # s))"
| "dot_unescape s = s"

definition dot_escape_char :: "char \<Rightarrow> string" where
  "dot_escape_char c =
     (if c = CHR 0x5C then [CHR 0x5C, CHR 0x5C] else if c = CHR 0x22 then [CHR 0x5C, CHR 0x22]
      else if c = CHR 0x0A then [CHR 0x5C, CHR 0x6E] else [c])"

lemma dot_escape_chars: "dot_escape s = concat (map dot_escape_char s)"
  by (induction s) (auto simp: dot_escape_def dot_escape_char_def)

lemma dot_unescape_Cons: "c \<noteq> CHR 0x5C \<Longrightarrow> dot_unescape (c # s) = c # dot_unescape s"
  by (cases s) auto

text \<open>
  The text put between quotes in DOT output denotes exactly the original label and holds no line break,
  so two different labels never render alike.
\<close>

theorem dot_escape_roundtrip:
  "dot_unescape (dot_escape s) = s \<and> CHR 0x0A \<notin> set (dot_escape s) \<and> inj dot_escape"
proof -
  have rt: "dot_unescape (dot_escape t) = t" for t
    unfolding dot_escape_chars by (induction t) (auto simp: dot_escape_char_def dot_unescape_Cons)
  have "CHR 0x0A \<notin> set (dot_escape s)"
    by (auto simp: dot_escape_chars dot_escape_char_def split: if_splits)
  with rt show ?thesis by (metis injI)
qed

theorem render_explanation_ends_with_newline_witness:
  "\<exists>s. render (\<lambda>_. ''{}'') (explanation (unimpacted_outcome ''//b:bin'' ''Rule'' False)) Mermaid = Some s \<and>
     ends_with [CHR 0x0A] s"
proof -
  have "explain [(''//b:bin'', sample_state 1 1)] [(''//b:bin'', sample_state 1 1)] [] ''//b:bin'' sample_limits =
      Some (Inr (unimpacted_outcome ''//b:bin'' ''Rule'' False))"
    by (simp add: explain_def Let_def impacted_types_def impact_of_def map_filter_simps type_of_def sample_state_def)
  from render_explanation_ends_with_newline [OF this] show ?thesis .
qed

end
