(* ===== verification/Mod_Calls.thy ===== *)
theory Mod_Calls
  imports Hash_Walk Module_Edges Units
begin

section \<open>Asking Bazel about repositories (bazel.rs)\<close>

text \<open>
  The \<^verbatim>\<open>bazel mod\<close> calls of \<^verbatim>\<open>src/bazel.rs\<close> that take repository names: the names are split into command lines of
  bounded length, a call that fails on a module extension is repeated without the repositories Bazel
  cannot map, and those are found by halving the failed batch. Bazel is a parameter that acts on a world of any
  type. Loops that end only because their batches shrink are partial functions, and are shown to
  return whatever Bazel answers.
\<close>

record mod_output =
  mo_success :: bool
  mo_stdout :: string
  mo_stderr :: string

record 'w bazel_mod =
  bm_run :: "string list \<Rightarrow> 'w \<Rightarrow> (string + mod_output) \<times> 'w"
  bm_keep_going :: bool
  bm_budget :: nat

datatype mod_error = CannotExecute string | ModFailed string string | MappingsFailed "string list" | BadOutput string | Refused string | Panicked string

record failed_extensions =
  fe_observed :: bool
  fe_extensions :: "string list"
  fe_unavailable :: "string list"

record extension_failure =
  ef_extensions :: "string list"
  ef_answered :: bool

definition failed_is_empty :: "failed_extensions \<Rightarrow> bool" where
  "failed_is_empty failed \<longleftrightarrow> \<not> fe_observed failed \<and> fe_extensions failed = [] \<and> fe_unavailable failed = []"

subsection \<open>Command lines\<close>

definition DEFAULT_MOD_ARGUMENT_BYTE_BUDGET :: "bool \<Rightarrow> nat" where
  "DEFAULT_MOD_ARGUMENT_BYTE_BUDGET windows = (if windows then 6 * 1024 else 256 * 1024)"

text \<open>\<^verbatim>\<open>str::parse::<usize>\<close> also accepts a leading plus sign.\<close>

definition parse_usize :: "string \<Rightarrow> nat option" where
  "parse_usize s = (case s of CHR ''+'' # ds \<Rightarrow> parse_u64 ds | _ \<Rightarrow> parse_u64 s)"

definition mod_argument_byte_budget_from :: "bool \<Rightarrow> string option \<Rightarrow> nat" where
  "mod_argument_byte_budget_from windows setting =
     (case setting of
        None \<Rightarrow> DEFAULT_MOD_ARGUMENT_BYTE_BUDGET windows
      | Some s \<Rightarrow>
          (case parse_usize (str_trim s) of
             Some budget \<Rightarrow> if budget > 0 then budget else DEFAULT_MOD_ARGUMENT_BYTE_BUDGET windows
           | None \<Rightarrow> DEFAULT_MOD_ARGUMENT_BYTE_BUDGET windows))"

text \<open>The loop of \<^verbatim>\<open>chunk_arguments\<close>: \<open>run\<close> is the slice from \<^verbatim>\<open>start\<close> to the current index.\<close>

fun chunk_loop :: "nat \<Rightarrow> string list \<Rightarrow> string list \<Rightarrow> nat \<Rightarrow> string list list" where
  "chunk_loop budget [] run bytes = (if run = [] then [] else [run])"
| "chunk_loop budget (argument # rest) run bytes =
     (let cost = length argument + 1
      in if run \<noteq> [] \<and> bytes + cost > budget then run # chunk_loop budget rest [argument] cost
         else chunk_loop budget rest (run @ [argument]) (bytes + cost))"

definition chunk_arguments :: "string list \<Rightarrow> nat \<Rightarrow> string list list" where
  "chunk_arguments arguments budget = chunk_loop budget arguments [] 0"

subsection \<open>Failures\<close>

fun contains_str :: "string \<Rightarrow> string \<Rightarrow> bool" where
  "contains_str pat [] = (pat = [])"
| "contains_str pat (c # s) = (starts_with pat (c # s) \<or> contains_str pat s)"

fun split_whitespace_from :: "string \<Rightarrow> string \<Rightarrow> string list" where
  "split_whitespace_from word [] = (if word = [] then [] else [word])"
| "split_whitespace_from word (c # s) =
     (if is_whitespace c then (if word = [] then split_whitespace_from [] s else word # split_whitespace_from [] s)
      else split_whitespace_from (word @ [c]) s)"

definition trim_end_punctuation :: "string \<Rightarrow> string" where
  "trim_end_punctuation word = rev (dropWhile (\<lambda>c. c \<in> {CHR ''.'', CHR '','', CHR '';'', CHR '':''}) (rev word))"

definition EXTENSION_FAILURE_MARKER :: string where
  "EXTENSION_FAILURE_MARKER = ''Results may be incomplete as''"

definition extension_failure_of :: "string \<Rightarrow> extension_failure option" where
  "extension_failure_of stderr =
     (let answered = contains_str EXTENSION_FAILURE_MARKER stderr;
          extensions = bs_of_list (map trim_end_punctuation
            (filter (\<lambda>word. starts_with ''@@'' word \<and> contains_str ''//'' word \<and> CHR ''%'' \<in> set word)
              (concat (map (split_whitespace_from []) (filter (contains_str ''module extension'') (str_lines stderr))))))
      in if answered \<or> extensions \<noteq> [] then Some \<lparr>ef_extensions = extensions, ef_answered = answered\<rparr> else None)"

definition has_unavailable_mapping :: "failed_extensions \<Rightarrow> string \<Rightarrow> bool" where
  "has_unavailable_mapping failed canonical \<longleftrightarrow> trim_start_matches (CHR ''@'') canonical \<in> set (fe_unavailable failed)"

definition note_failed_extensions :: "string list \<Rightarrow> failed_extensions \<Rightarrow> failed_extensions" where
  "note_failed_extensions extensions failed =
     failed\<lparr>fe_observed := True, fe_extensions := bs_of_list (fe_extensions failed @ extensions)\<rparr>"

definition run_capture :: "'w bazel_mod \<Rightarrow> string list \<Rightarrow> 'w \<Rightarrow> (mod_error + mod_output) \<times> 'w" where
  "run_capture b args w =
     (case bm_run b args w of (Inl msg, w') \<Rightarrow> (Inl (CannotExecute msg), w') | (Inr out, w') \<Rightarrow> (Inr out, w'))"

definition accept_mod_output :: "string \<Rightarrow> mod_output \<Rightarrow> failed_extensions \<Rightarrow> mod_error + string \<times> failed_extensions" where
  "accept_mod_output subcommand out failed =
     (if mo_success out then Inr (mo_stdout out, failed)
      else case extension_failure_of (mo_stderr out) of
             Some failure \<Rightarrow>
               if ef_answered failure then Inr (mo_stdout out, note_failed_extensions (ef_extensions failure) failed)
               else Inl (ModFailed subcommand (mo_stderr out))
           | None \<Rightarrow> Inl (ModFailed subcommand (mo_stderr out)))"

subsection \<open>Halving\<close>

text \<open>The stack of batches, its top first.\<close>

partial_function (option) find_loop ::
  "'w bazel_mod \<Rightarrow> string list list \<Rightarrow> failed_extensions \<Rightarrow> 'w \<Rightarrow> ((mod_error + unit) \<times> failed_extensions \<times> 'w) option" where
  "find_loop b pending failed w =
     (case pending of
        [] \<Rightarrow> Some (Inr (), failed, w)
      | repos # rest \<Rightarrow>
     (case run_capture b ([''mod'', ''dump_repo_mapping''] @ repos) w of
        (Inl err, w') \<Rightarrow> Some (Inl err, failed, w')
      | (Inr out, w') \<Rightarrow>
          if mo_success out then find_loop b rest failed w'
          else case extension_failure_of (mo_stderr out) of
                 None \<Rightarrow> Some (Inl (ModFailed ''dump_repo_mapping'' (mo_stderr out)), failed, w')
               | Some failure \<Rightarrow>
                   if ef_answered failure then Some (Inl (ModFailed ''dump_repo_mapping'' (mo_stderr out)), failed, w')
                   else if length repos = 1 then
                     (let noted = note_failed_extensions (ef_extensions failure) failed
                      in find_loop b rest (noted\<lparr>fe_unavailable := bs_of_list (hd repos # fe_unavailable noted)\<rparr>) w')
                   else find_loop b (take (length repos div 2) repos # drop (length repos div 2) repos # rest) failed w'))"

definition find_unavailable_repositories ::
  "'w bazel_mod \<Rightarrow> string list \<Rightarrow> failed_extensions \<Rightarrow> 'w \<Rightarrow> ((mod_error + unit) \<times> failed_extensions \<times> 'w) option" where
  "find_unavailable_repositories b repos failed w =
     find_loop b (chunk_arguments (filter (\<lambda>repo. is_extension_repo repo \<and> repo \<notin> set (fe_unavailable failed)) (map (trim_start_matches (CHR ''@'')) repos)) (bm_budget b)) failed w"

subsection \<open>Repeating a call\<close>

definition without_failed :: "failed_extensions \<Rightarrow> string list \<Rightarrow> string list" where
  "without_failed failed repos = filter (\<lambda>repo. \<not> has_unavailable_mapping failed repo) repos"

type_synonym ('w, 'a) attempt = "string list \<Rightarrow> 'w \<Rightarrow> (mod_error + bool \<times> string \<times> 'a) \<times> 'w"

partial_function (option) mod_loop ::
  "'w bazel_mod \<Rightarrow> string \<Rightarrow> ('w, 'a) attempt \<Rightarrow> string list \<Rightarrow> failed_extensions \<Rightarrow> 'w \<Rightarrow> ((mod_error + 'a option) \<times> failed_extensions \<times> 'w) option" where
  "mod_loop b subcommand attempt repos failed w =
     (if repos = [] then Some (Inr None, failed, w)
      else case attempt repos w of
        (Inl err, w1) \<Rightarrow> Some (Inl err, failed, w1)
      | (Inr (success, stderr, v), w1) \<Rightarrow>
          if success then Some (Inr (Some v), failed, w1)
          else case extension_failure_of stderr of
                 None \<Rightarrow> Some (Inl (ModFailed subcommand stderr), failed, w1)
               | Some failure \<Rightarrow>
                   (let noted = note_failed_extensions (ef_extensions failure) failed
                    in if ef_answered failure then Some (Inr (Some v), noted, w1)
                       else Option.bind (find_unavailable_repositories b repos noted w1) (\<lambda>found.
                         case found of
                           (Inl err, found_failed, w2) \<Rightarrow> Some (Inl err, found_failed, w2)
                         | (Inr _, found_failed, w2) \<Rightarrow>
                             if length (without_failed found_failed repos) = length repos
                             then Some (Inl (ModFailed subcommand stderr), found_failed, w2)
                             else mod_loop b subcommand attempt (without_failed found_failed repos) found_failed w2)))"

definition run_mod_over_repos ::
  "'w bazel_mod \<Rightarrow> string \<Rightarrow> string list \<Rightarrow> failed_extensions \<Rightarrow> ('w, 'a) attempt \<Rightarrow> 'w \<Rightarrow> ((mod_error + 'a option) \<times> failed_extensions \<times> 'w) option" where
  "run_mod_over_repos b subcommand repos failed attempt w = mod_loop b subcommand attempt (without_failed failed repos) failed w"


subsection \<open>Mappings\<close>

text \<open>
  \<^verbatim>\<open>dump_repo_mappings\<close>. The flag \<^verbatim>\<open>complete\<close> is cleared by every attempt that fails or asks for fewer names than the
  chunk has; the value of the last attempt carries it, since a repeated attempt has fewer names. After an
  error its value does not matter: every caller gives up or clears it.
\<close>

definition mapping_attempt :: "'w bazel_mod \<Rightarrow> string list \<Rightarrow> ('w, string \<times> bool) attempt" where
  "mapping_attempt b chunk names w =
     (case run_capture b ([''mod'', ''dump_repo_mapping''] @ names) w of
        (Inl err, w') \<Rightarrow> (Inl err, w')
      | (Inr out, w') \<Rightarrow> (Inr (mo_success out, mo_stderr out, mo_stdout out, mo_success out \<and> names = chunk), w'))"

definition mapping_lines :: "json_parser \<Rightarrow> string \<Rightarrow> (string, string) btree option list" where
  "mapping_lines from_str out = map (\<lambda>line. Option.bind (from_str (str_trim line)) (de_map de_string)) (str_lines out)"

fun dump_chunks ::
  "'w bazel_mod \<Rightarrow> json_parser \<Rightarrow> string list list \<Rightarrow> failed_extensions \<Rightarrow> bool \<Rightarrow> (string, string) btree list \<Rightarrow> 'w \<Rightarrow>
   ((mod_error + (string, string) btree list) \<times> failed_extensions \<times> bool \<times> 'w) option" where
  "dump_chunks b from_str [] failed complete mappings w = Some (Inr mappings, failed, complete, w)"
| "dump_chunks b from_str (chunk # chunks) failed complete mappings w =
     Option.bind (run_mod_over_repos b ''dump_repo_mapping'' chunk failed (mapping_attempt b chunk) w) (\<lambda>r.
       case r of
         (Inl err, failed', w') \<Rightarrow> Some (Inl err, failed', complete, w')
       | (Inr None, failed', w') \<Rightarrow> dump_chunks b from_str chunks failed' False mappings w'
       | (Inr (Some (out, answered_all)), failed', w') \<Rightarrow>
           (let parsed = mapping_lines from_str out; found = List.map_filter id parsed
            in dump_chunks b from_str chunks failed' (complete \<and> answered_all \<and> None \<notin> set parsed \<and> length found = length chunk)
                 (mappings @ found) w'))"

definition dump_repo_mappings ::
  "'w bazel_mod \<Rightarrow> json_parser \<Rightarrow> string list \<Rightarrow> failed_extensions \<Rightarrow> bool \<Rightarrow> 'w \<Rightarrow>
   ((mod_error + (string, string) btree list) \<times> failed_extensions \<times> bool \<times> 'w) option" where
  "dump_repo_mappings b from_str repos failed complete w =
     dump_chunks b from_str (chunk_arguments repos (bm_budget b)) failed complete [] w"

definition ignored_canonical :: "string \<Rightarrow> bool" where
  "ignored_canonical canonical \<longleftrightarrow>
     canonical = [] \<or> starts_with ''bazel_tools'' canonical \<or> starts_with ''_builtins'' canonical \<or>
     starts_with ''local_config_'' canonical \<or> starts_with ''rules_java_builtin'' canonical"

definition add_apparent :: "string \<times> json \<Rightarrow> (string, string list) btree \<Rightarrow> (string, string list) btree" where
  "add_apparent kv t =
     (case de_string (snd kv) of
        None \<Rightarrow> t
      | Some canonical \<Rightarrow>
          if fst kv = [] \<or> ignored_canonical canonical then t
          else bt_insert canonical ((case bt_get t canonical of None \<Rightarrow> [] | Some names \<Rightarrow> names) @ [fst kv]) t)"

definition add_mapping_line :: "json_parser \<Rightarrow> string \<Rightarrow> (string, string list) btree \<Rightarrow> (string, string list) btree" where
  "add_mapping_line from_str line t =
     (case map_option value_of (from_str (str_trim line)) of
        Some (JObj mapping) \<Rightarrow> fold add_apparent mapping t
      | _ \<Rightarrow> t)"

definition parse_repo_mapping :: "json_parser \<Rightarrow> string \<Rightarrow> (string, string list) btree" where
  "parse_repo_mapping from_str txt = fold (add_mapping_line from_str) (str_lines txt) []"

subsection \<open>References to failed extensions\<close>

definition named_labels :: "qtarget \<Rightarrow> label list" where
  "named_labels t =
     (case target_name t of Some name \<Rightarrow> name | None \<Rightarrow> '''') #
     (case qt_rule t of None \<Rightarrow> [] | Some r \<Rightarrow> rule_input r @ List.map_filter ci_label (rule_configured_input r))"

definition apparent_to_canonical_of :: "(string, string list) btree \<Rightarrow> (string, string) btree" where
  "apparent_to_canonical_of canonical_to_apparent =
     bt_of_list (concat (map (\<lambda>(canonical, apparent). map (\<lambda>name. (name, canonical)) apparent) canonical_to_apparent))"

definition label_canonical :: "(string, string) btree \<Rightarrow> label \<Rightarrow> string option" where
  "label_canonical apparent_to_canonical lbl =
     Option.bind (split_once_str ''//'' lbl) (\<lambda>(repo, _).
       case strip_prefix ''@@'' repo of
         Some canonical \<Rightarrow> Some canonical
       | None \<Rightarrow> Option.bind (strip_prefix ''@'' repo) (bt_get apparent_to_canonical))"

text \<open>The closure \<^verbatim>\<open>unavailable\<close>, with the set of apparent names it looks up.\<close>

definition unavailable_label :: "(string, string) btree \<Rightarrow> failed_extensions \<Rightarrow> label \<Rightarrow> bool" where
  "unavailable_label apparent_to_canonical failed lbl =
     (let unavailable_apparent = map fst (filter (\<lambda>(_, canonical). has_unavailable_mapping failed canonical) apparent_to_canonical)
      in case split_once_str ''//'' lbl of
           None \<Rightarrow> False
         | Some (repo, _) \<Rightarrow>
             (case strip_prefix ''@@'' repo of
                Some canonical \<Rightarrow> has_unavailable_mapping failed canonical
              | None \<Rightarrow> (case strip_prefix ''@'' repo of None \<Rightarrow> False | Some apparent \<Rightarrow> apparent \<in> set unavailable_apparent)))"

definition offender :: "(string, string) btree \<Rightarrow> failed_extensions \<Rightarrow> qtarget \<Rightarrow> string option" where
  "offender apparent_to_canonical failed t =
     map_option (\<lambda>lbl. (case target_name t of Some name \<Rightarrow> name | None \<Rightarrow> '''') @ '' depends on '' @ lbl @ '', whose repository mapping failed'')
       (find (unavailable_label apparent_to_canonical failed) (named_labels t))"

definition check_failed_extension_references ::
  "'w bazel_mod \<Rightarrow> qtarget list \<Rightarrow> failed_extensions \<Rightarrow> (string, string list) btree \<Rightarrow> 'w \<Rightarrow> ((mod_error + unit) \<times> failed_extensions \<times> 'w) option" where
  "check_failed_extension_references b targets failed canonical_to_apparent w =
     (if failed_is_empty failed then Some (Inr (), failed, w)
      else
        (let apparent_to_canonical = apparent_to_canonical_of canonical_to_apparent;
             referenced = bs_of_list (List.map_filter (label_canonical apparent_to_canonical) (concat (map named_labels targets)))
         in Option.bind (find_unavailable_repositories b referenced failed w) (\<lambda>r.
              case r of
                (Inl err, failed', w') \<Rightarrow> Some (Inl err, failed', w')
              | (Inr _, failed', w') \<Rightarrow>
                  (let offenders = List.map_filter (offender apparent_to_canonical failed') targets
                   in if offenders = [] \<or> bm_keep_going b then Some (Inr (), failed', w')
                      else Some (Inl (MappingsFailed offenders), failed', w')))))"

subsection \<open>Chunks\<close>

definition names_cost :: "string list \<Rightarrow> nat" where
  "names_cost names = sum_list (map (\<lambda>name. length name + 1) names)"

lemma names_cost_simps [simp]: "names_cost [] = 0" "names_cost (n # ns) = length n + 1 + names_cost ns" "names_cost (ns @ ms) = names_cost ns + names_cost ms"
  by (simp_all add: names_cost_def)

definition fits :: "nat \<Rightarrow> string list \<Rightarrow> bool" where
  "fits budget c \<longleftrightarrow> c \<noteq> [] \<and> (length c = 1 \<or> names_cost c \<le> budget)"

lemma chunk_loop_concat: "concat (chunk_loop budget args run bytes) = run @ args"
  by (induction budget args run bytes rule: chunk_loop.induct) (auto simp: Let_def)

lemma chunk_loop_fits:
  "bytes = names_cost run \<Longrightarrow> run = [] \<or> fits budget run \<Longrightarrow> list_all (fits budget) (chunk_loop budget args run bytes)"
proof (induction budget args run bytes rule: chunk_loop.induct)
  case (2 budget argument rest run bytes)
  then show ?case by (cases "run = []") (auto simp: Let_def fits_def)
qed auto

text \<open>No chunk could have taken the first name of the next one.\<close>

lemma chunk_loop_greedy:
  "bytes = names_cost run \<Longrightarrow> run \<noteq> [] \<Longrightarrow>
   \<exists>c cs. chunk_loop budget args run bytes = c # cs \<and> successively (\<lambda>c d. names_cost c + length (hd d) + 1 > budget) (c # cs) \<and> hd c = hd run"
proof (induction budget args run bytes rule: chunk_loop.induct)
  case (2 budget argument rest run bytes)
  show ?case
  proof (cases "bytes + length argument + 1 > budget")
    case True
    then obtain c cs where "chunk_loop budget rest [argument] (length argument + 1) = c # cs"
        "successively (\<lambda>c d. names_cost c + length (hd d) + 1 > budget) (c # cs)" "hd c = argument"
      using 2(1) [of "length argument + 1"] 2(3,4) by auto
    then show ?thesis using True 2(3,4) by (auto simp: Let_def)
  next
    case False
    then show ?thesis using 2(2) [of "length argument + 1"] 2(3,4) by (auto simp: Let_def)
  qed
qed auto

lemma chunk_arguments_fit: "list_all (fits budget) (chunk_arguments args budget)"
  unfolding chunk_arguments_def by (rule chunk_loop_fits) simp_all

lemma chunk_arguments_concat: "concat (chunk_arguments args budget) = args"
  unfolding chunk_arguments_def by (simp add: chunk_loop_concat)

text \<open>
  Splitting names into command lines keeps every name, once and in order; no command line is empty, each is within
  the budget unless it is a single name, and none could have taken the first name of the next one.
\<close>

theorem chunk_arguments_spec:
  "concat (chunk_arguments args budget) = args \<and> list_all (fits budget) (chunk_arguments args budget) \<and>
   successively (\<lambda>c d. names_cost c + length (hd d) + 1 > budget) (chunk_arguments args budget)"
proof -
  have "successively (\<lambda>c d. names_cost c + length (hd d) + 1 > budget) (chunk_arguments args budget)"
  proof (cases args)
    case (Cons a rest)
    have "chunk_arguments args budget = chunk_loop budget rest [a] (names_cost [a])" by (simp add: chunk_arguments_def Cons)
    then show ?thesis using chunk_loop_greedy [of "names_cost [a]" "[a]" budget rest] by auto
  qed (simp add: chunk_arguments_def)
  then show ?thesis using chunk_arguments_fit chunk_arguments_concat by blast
qed

subsection \<open>The halving ends\<close>

lemma find_loop_returns:
  "list_all (\<lambda>c. c \<noteq> []) pending \<Longrightarrow> \<exists>r. find_loop b pending failed w = Some r"
proof (induction "sum_list (map (\<lambda>c. 2 * length c - 1) pending)" arbitrary: pending failed w rule: less_induct)
  case less
  show ?case
  proof (cases pending)
    case Nil
    then show ?thesis by (simp add: find_loop.simps)
  next
    case (Cons repos rest)
    let ?h = "length repos div 2"
    have ne: "repos \<noteq> []" "list_all (\<lambda>c. c \<noteq> []) rest" using less.prems Cons by simp_all
    have rest: "\<exists>r. find_loop b rest f v = Some r" for f v
      using less.hyps [of rest f v] ne Cons by (cases repos) simp_all
    have halves: "\<exists>r. find_loop b (take ?h repos # drop ?h repos # rest) f v = Some r" if "length repos \<noteq> 1" for f v
    proof (rule less.hyps)
      have l: "2 \<le> length repos" using that ne(1) by (cases repos; cases "tl repos") auto
      then show "sum_list (map (\<lambda>c. 2 * length c - 1) (take ?h repos # drop ?h repos # rest)) < sum_list (map (\<lambda>c. 2 * length c - 1) pending)"
        unfolding Cons by simp
      show "list_all (\<lambda>c. c \<noteq> []) (take ?h repos # drop ?h repos # rest)" using l ne(2) by auto
    qed
    show ?thesis
      by (subst find_loop.simps) (use Cons rest halves in \<open>auto simp: Let_def split: prod.splits sum.splits option.splits\<close>)
  qed
qed

lemma find_unavailable_returns: "\<exists>r. find_unavailable_repositories b repos failed w = Some r"
proof -
  have "list_all (\<lambda>c. c \<noteq> []) (chunk_arguments args budget)" for args budget
    using chunk_arguments_fit [of budget args] by (auto simp: list_all_iff fits_def)
  then show ?thesis unfolding find_unavailable_repositories_def by (rule find_loop_returns)
qed

lemma mod_loop_returns: "\<exists>r. mod_loop b subcommand attempt repos failed w = Some r"
proof (induction "length repos" arbitrary: repos failed w rule: less_induct)
  case less
  have again: "\<exists>r. mod_loop b subcommand attempt (without_failed f repos) f v = Some r" if "length (without_failed f repos) \<noteq> length repos" for f v
  proof (rule less.hyps)
    show "length (without_failed f repos) < length repos"
      using that by (metis le_neq_implies_less length_filter_le without_failed_def)
  qed
  have found: "(find_unavailable_repositories b repos f v = None) = False" for f v using find_unavailable_returns [of b repos f v] by auto
  show ?case
    by (subst mod_loop.simps)
      (use again in \<open>auto simp: Let_def found split: prod.splits sum.splits option.splits Option.bind_splits\<close>)
qed

lemma run_mod_returns: "\<exists>r. run_mod_over_repos b subcommand repos failed attempt w = Some r"
  unfolding run_mod_over_repos_def by (rule mod_loop_returns)

text \<open>
  C30: whatever Bazel answers, a call over repositories comes to an end: batches are halved only while they have more
  than one name, and the call is repeated only with fewer names.
\<close>

theorem run_mod_over_repos_returns: "\<exists>r. run_mod_over_repos b subcommand repos failed attempt w = Some r"
  by (rule run_mod_returns)


subsection \<open>The halving is exact\<close>

text \<open>
  What Bazel documents: mapping a batch fails exactly when one of its repositories belongs to an extension
  that cannot be evaluated, and then nothing is answered.
\<close>

definition fails_unanswered :: "string \<Rightarrow> bool" where
  "fails_unanswered stderr \<longleftrightarrow> (\<exists>f. extension_failure_of stderr = Some f \<and> \<not> ef_answered f)"

definition maps_exactly :: "'w bazel_mod \<Rightarrow> (string \<Rightarrow> bool) \<Rightarrow> bool" where
  "maps_exactly b broken \<longleftrightarrow>
     (\<forall>repos w. \<exists>out w'. bm_run b ([''mod'', ''dump_repo_mapping''] @ repos) w = (Inr out, w') \<and>
        mo_success out = list_all (\<lambda>r. \<not> broken r) repos \<and> (\<not> mo_success out \<longrightarrow> fails_unanswered (mo_stderr out)))"

lemma find_loop_exact:
  assumes "maps_exactly b broken"
  shows "list_all (\<lambda>c. c \<noteq> []) pending \<Longrightarrow> \<exists>failed' w'. find_loop b pending failed w = Some (Inr (), failed', w') \<and>
    set (fe_unavailable failed') = set (fe_unavailable failed) \<union> {r \<in> set (concat pending). broken r}"
proof (induction "sum_list (map (\<lambda>c. 2 * length c - 1) pending)" arbitrary: pending failed w rule: less_induct)
  case less
  show ?case
  proof (cases pending)
    case Nil
    then show ?thesis by (simp add: find_loop.simps)
  next
    case (Cons repos rest)
    let ?h = "length repos div 2"
    have ne: "repos \<noteq> []" "list_all (\<lambda>c. c \<noteq> []) rest" using less.prems Cons by simp_all
    have rest: "\<exists>f' w'. find_loop b rest f v = Some (Inr (), f', w') \<and> set (fe_unavailable f') = set (fe_unavailable f) \<union> {r \<in> set (concat rest). broken r}" for f v
      using less.hyps [of rest f v] ne Cons by (cases repos) simp_all
    obtain out w1 where o: "run_capture b ([''mod'', ''dump_repo_mapping''] @ repos) w = (Inr out, w1)" "mo_success out = list_all (\<lambda>r. \<not> broken r) repos"
        "\<not> mo_success out \<Longrightarrow> fails_unanswered (mo_stderr out)"
    proof -
      obtain out w1 where "bm_run b ([''mod'', ''dump_repo_mapping''] @ repos) w = (Inr out, w1)" "mo_success out = list_all (\<lambda>r. \<not> broken r) repos"
          "\<not> mo_success out \<longrightarrow> fails_unanswered (mo_stderr out)" using assms unfolding maps_exactly_def by blast
      then show ?thesis using that by (simp add: run_capture_def)
    qed
    consider (ok) "mo_success out" | (one) r where "repos = [r]" "\<not> mo_success out" | (many) "\<not> mo_success out" "length repos \<noteq> 1"
      by (cases "length repos = 1") (auto simp: length_Suc_conv)
    then show ?thesis
    proof cases
      case ok
      then have "{r \<in> set repos. broken r} = {}" using o(2) by (auto simp: list_all_iff)
      then show ?thesis using rest [of failed w1] Cons o(1) ok by (subst find_loop.simps) auto
    next
      case one
      obtain f where f: "extension_failure_of (mo_stderr out) = Some f" "\<not> ef_answered f" using o(3) one(2) by (auto simp: fails_unanswered_def)
      have "broken r" using o(2) one by simp
      then show ?thesis
        using rest [of "(note_failed_extensions (ef_extensions f) failed)\<lparr>fe_unavailable := bs_of_list (r # fe_unavailable failed)\<rparr>" w1] Cons o(1) one f
        by (subst find_loop.simps) (auto simp: Let_def note_failed_extensions_def)
    next
      case many
      obtain f where f: "extension_failure_of (mo_stderr out) = Some f" "\<not> ef_answered f" using o(3) many(1) by (auto simp: fails_unanswered_def)
      have l: "2 \<le> length repos" using many(2) ne(1) by (cases repos; cases "tl repos") auto
      let ?next = "take ?h repos # drop ?h repos # rest"
      have "sum_list (map (\<lambda>c. 2 * length c - 1) ?next) < sum_list (map (\<lambda>c. 2 * length c - 1) pending)" unfolding Cons using l by simp
      moreover have "list_all (\<lambda>c. c \<noteq> []) ?next" using l ne(2) by auto
      moreover have "set (concat ?next) = set (concat pending)" unfolding Cons by simp (metis append_take_drop_id set_append sup_assoc)
      ultimately have "\<exists>f' w'. find_loop b ?next failed w1 = Some (Inr (), f', w') \<and> set (fe_unavailable f') = set (fe_unavailable failed) \<union> {r \<in> set (concat pending). broken r}"
        using less.hyps [of ?next failed w1] by simp
      then show ?thesis using Cons o(1) many f by (subst find_loop.simps) simp
    qed
  qed
qed

lemma find_unavailable_sets:
  assumes "maps_exactly b broken"
  shows "\<exists>failed' w'. find_unavailable_repositories b repos failed w = Some (Inr (), failed', w') \<and>
    set (fe_unavailable failed') = set (fe_unavailable failed) \<union>
      {r \<in> trim_start_matches (CHR ''@'') ` set repos. is_extension_repo r \<and> broken r}"
proof -
  let ?asked = "filter (\<lambda>repo. is_extension_repo repo \<and> repo \<notin> set (fe_unavailable failed)) (map (trim_start_matches (CHR ''@'')) repos)"
  have "list_all (\<lambda>c. c \<noteq> []) (chunk_arguments ?asked (bm_budget b))"
    using chunk_arguments_fit [of "bm_budget b" ?asked] by (auto simp: list_all_iff fits_def)
  from find_loop_exact [OF assms this, of failed w] show ?thesis
    unfolding chunk_arguments_concat by (auto simp: find_unavailable_repositories_def)
qed

end
