(* ===== verification/Mod_Answers.thy ===== *)
theory Mod_Answers
  imports Mod_Calls
begin

section \<open>What the calls over repositories find\<close>

text \<open>
  When Bazel fails a call exactly for the repositories of broken extensions, the repositories recorded as
  unavailable are the broken ones, a repeated call answers for all others, mappings marked complete belong
  to the names in order, and a target that needs a broken repository is reported.
\<close>

text \<open>
  Halving finds exactly the broken repositories. When Bazel fails a batch exactly for its broken repositories, the
  repositories recorded as unavailable afterwards are those recorded before and the broken
  ones among the extension repositories asked about, however the names were split into command lines.
\<close>

theorem find_unavailable_exact:
  assumes "maps_exactly b broken"
  shows "\<exists>failed' w'. find_unavailable_repositories b repos failed w = Some (Inr (), failed', w') \<and>
    set (fe_unavailable failed') = set (fe_unavailable failed) \<union>
      {r \<in> trim_start_matches (CHR ''@'') ` set repos. is_extension_repo r \<and> broken r}"
  by (rule find_unavailable_sets [OF assms])

subsection \<open>Repeated calls\<close>

definition answers_exactly :: "string set \<Rightarrow> ('w, 'a) attempt \<Rightarrow> (string \<Rightarrow> bool) \<Rightarrow> (string list \<Rightarrow> 'a) \<Rightarrow> bool" where
  "answers_exactly A attempt broken val \<longleftrightarrow>
     (\<forall>repos w. set repos \<subseteq> A \<longrightarrow> (\<exists>stderr w'. attempt repos w = (Inr (list_all (\<lambda>r. \<not> broken (trim_start_matches (CHR ''@'') r)) repos, stderr, val repos), w') \<and>
        (list_all (\<lambda>r. \<not> broken (trim_start_matches (CHR ''@'') r)) repos \<or> fails_unanswered stderr)))"

lemma answers_exactlyE:
  assumes "answers_exactly A attempt broken val" "set repos \<subseteq> A"
  obtains stderr w' where "attempt repos w = (Inr (list_all (\<lambda>r. \<not> broken (trim_start_matches (CHR ''@'') r)) repos, stderr, val repos), w')"
    "list_all (\<lambda>r. \<not> broken (trim_start_matches (CHR ''@'') r)) repos \<or> fails_unanswered stderr"
  using assms unfolding answers_exactly_def by blast

lemma mod_loop_available:
  assumes "answers_exactly A attempt broken val" "set repos \<subseteq> A" "list_all (\<lambda>r. \<not> broken (trim_start_matches (CHR ''@'') r)) repos"
  shows "\<exists>w'. mod_loop b subcommand attempt repos failed w = Some (Inr (if repos = [] then None else Some (val repos)), failed, w')"
proof -
  obtain stderr w' where "attempt repos w = (Inr (True, stderr, val repos), w')"
    using answers_exactlyE [OF assms(1,2), of w] assms(3) by metis
  then show ?thesis by (subst mod_loop.simps) simp
qed

lemma mod_loop_exact:
  assumes "maps_exactly b broken" "\<And>r. broken r \<Longrightarrow> is_extension_repo r" "answers_exactly A attempt broken val"
    and "set repos \<subseteq> A" "without_failed failed repos = repos"
  shows "\<exists>failed' w'. mod_loop b subcommand attempt repos failed w =
    Some (Inr (let av = filter (\<lambda>r. \<not> broken (trim_start_matches (CHR ''@'') r)) repos in if av = [] then None else Some (val av)), failed', w') \<and>
    set (fe_unavailable failed') = set (fe_unavailable failed) \<union> {r \<in> trim_start_matches (CHR ''@'') ` set repos. broken r}"
proof (cases "list_all (\<lambda>r. \<not> broken (trim_start_matches (CHR ''@'') r)) repos")
  case True
  then have "filter (\<lambda>r. \<not> broken (trim_start_matches (CHR ''@'') r)) repos = repos" by (simp add: list_all_iff)
  then show ?thesis using mod_loop_available [OF assms(3,4) True, of b subcommand failed w] True by (auto simp: list_all_iff)
next
  case False
  let ?av = "filter (\<lambda>r. \<not> broken (trim_start_matches (CHR ''@'') r)) repos"
  obtain stderr w1 where a: "attempt repos w = (Inr (False, stderr, val repos), w1)" "fails_unanswered stderr"
    using answers_exactlyE [OF assms(3,4), of w] False by metis
  then obtain f where f: "extension_failure_of stderr = Some f" "\<not> ef_answered f" by (auto simp: fails_unanswered_def)
  let ?noted = "note_failed_extensions (ef_extensions f) failed"
  obtain failed' w2 where u: "find_unavailable_repositories b repos ?noted w1 = Some (Inr (), failed', w2)"
      "set (fe_unavailable failed') = set (fe_unavailable failed) \<union> {r \<in> trim_start_matches (CHR ''@'') ` set repos. is_extension_repo r \<and> broken r}"
    using find_unavailable_sets [OF assms(1), of repos ?noted w1] by (auto simp: note_failed_extensions_def)
  have "\<forall>r \<in> set repos. \<not> has_unavailable_mapping failed r" using assms(5) by (simp add: without_failed_def filter_id_conv)
  then have av: "without_failed failed' repos = ?av"
    using u(2) assms(2) by (auto simp: without_failed_def has_unavailable_mapping_def intro!: filter_cong)
  have "length ?av \<noteq> length repos" using False by (auto simp: list_all_iff filter_True dest: length_filter_less)
  moreover have "repos \<noteq> []" using False by auto
  moreover have "list_all (\<lambda>r. \<not> broken (trim_start_matches (CHR ''@'') r)) ?av" by (simp add: list_all_iff)
  moreover have "set ?av \<subseteq> A" using assms(4) by auto
  ultimately show ?thesis
    using mod_loop_available [OF assms(3), of ?av b subcommand failed' w2] a(1) f u(1) av u(2) assms(2)
    by (subst mod_loop.simps) (auto simp: Let_def)
qed

lemma run_mod_exact:
  assumes "maps_exactly b broken" "\<And>r. broken r \<Longrightarrow> is_extension_repo r" "answers_exactly A attempt broken val" "set repos \<subseteq> A"
  shows "\<exists>failed' w'. run_mod_over_repos b subcommand repos failed attempt w =
    Some (Inr (let av = filter (\<lambda>r. \<not> has_unavailable_mapping failed r \<and> \<not> broken (trim_start_matches (CHR ''@'') r)) repos
       in if av = [] then None else Some (val av)), failed', w') \<and>
    set (fe_unavailable failed') = set (fe_unavailable failed) \<union> {r \<in> trim_start_matches (CHR ''@'') ` set repos. broken r}"
proof -
  have "without_failed failed (without_failed failed repos) = without_failed failed repos" by (simp add: without_failed_def)
  moreover have "set (without_failed failed repos) \<subseteq> A" using assms(4) by (auto simp: without_failed_def)
  ultimately show ?thesis using mod_loop_exact [OF assms(1-3), of "without_failed failed repos" failed subcommand w]
    unfolding run_mod_over_repos_def by (auto simp: without_failed_def has_unavailable_mapping_def conj_commute)
qed

text \<open>
  A call over repositories answers for every repository that is available. When the call fails exactly for broken
  repositories, its last attempt asks about the names that are neither broken nor known to be
  unavailable, all of them and in order, and nothing is asked when none is left.
\<close>

theorem run_mod_over_repos_exact:
  assumes "maps_exactly b broken" "\<And>r. broken r \<Longrightarrow> is_extension_repo r" "answers_exactly A attempt broken val" "set repos \<subseteq> A"
  shows "\<exists>failed' w'. run_mod_over_repos b subcommand repos failed attempt w =
    Some (Inr (let av = filter (\<lambda>r. \<not> has_unavailable_mapping failed r \<and> \<not> broken (trim_start_matches (CHR ''@'') r)) repos
       in if av = [] then None else Some (val av)), failed', w')"
  using run_mod_exact [OF assms, of subcommand failed w] by blast

subsection \<open>Mappings\<close>

lemma dump_chunks_complete:
  "dump_chunks b from_str chunks failed complete mappings w = Some (Inr ms, failed', True, w') \<Longrightarrow>
   complete \<and> (\<exists>rest. ms = mappings @ rest \<and> length rest = length (concat chunks))"
proof (induction b from_str chunks failed complete mappings w rule: dump_chunks.induct)
  case (2 b from_str chunk chunks failed complete mappings w)
  obtain r f1 w1 where r: "run_mod_over_repos b ''dump_repo_mapping'' chunk failed (mapping_attempt b chunk) w = Some (r, f1, w1)"
    using run_mod_returns [of b "''dump_repo_mapping''" chunk failed "mapping_attempt b chunk" w] by auto
  consider (err) e where "r = Inl e" | (none) "r = Inr None" | (some) out all where "r = Inr (Some (out, all))"
    by (metis option.exhaust sum.exhaust surj_pair)
  then show ?case
  proof cases
    case none
    then show ?thesis using 2 r by force
  next
    case some
    let ?found = "List.map_filter id (mapping_lines from_str out)"
    have "dump_chunks b from_str chunks f1 (complete \<and> all \<and> None \<notin> set (mapping_lines from_str out) \<and> length ?found = length chunk) (mappings @ ?found) w1 =
        Some (Inr ms, failed', True, w')" using 2(3) r some by (simp add: Let_def)
    from 2(2) [OF r, of "Inr (Some (out, all))"] this some show ?thesis by fastforce
  qed (use 2 r in simp)
qed simp

text \<open>
  A complete answer has one mapping per repository. When the flag is still set after \<^verbatim>\<open>dump_repo_mappings\<close>, there are as many mappings as
  names, so that pairing them in order binds every repository to a mapping.
\<close>

theorem complete_mappings_cover:
  assumes "dump_repo_mappings b from_str repos failed complete w = Some (Inr ms, failed', True, w')"
  shows "length ms = length repos"
  using dump_chunks_complete [OF assms [unfolded dump_repo_mappings_def]] by (auto simp: chunk_arguments_concat)


subsection \<open>References\<close>

definition broken_canonical :: "failed_extensions \<Rightarrow> (string \<Rightarrow> bool) \<Rightarrow> string \<Rightarrow> bool" where
  "broken_canonical failed broken canonical \<longleftrightarrow>
     (let repo = trim_start_matches (CHR ''@'') canonical in repo \<in> set (fe_unavailable failed) \<or> is_extension_repo repo \<and> broken repo)"

lemma unavailable_label_canonical:
  assumes "bt_inv t"
  shows "unavailable_label t failed lbl \<longleftrightarrow> (\<exists>c. label_canonical t lbl = Some c \<and> has_unavailable_mapping failed c)"
proof -
  have "a \<in> fst ` {x \<in> set t. case x of (_, c) \<Rightarrow> has_unavailable_mapping failed c} \<longleftrightarrow> (\<exists>c. bt_get t a = Some c \<and> has_unavailable_mapping failed c)" for a
    using assms by (force simp: bt_get_eq_Some)
  then show ?thesis
    by (auto simp: unavailable_label_def label_canonical_def split: option.splits)
qed

lemma offenders_none:
  "List.map_filter (offender t failed) targets = [] \<longleftrightarrow> (\<forall>x \<in> set targets. \<forall>lbl \<in> set (named_labels x). \<not> unavailable_label t failed lbl)"
proof -
  have "offender t failed x = None \<longleftrightarrow> (\<forall>lbl \<in> set (named_labels x). \<not> unavailable_label t failed lbl)" for x
    by (auto simp: offender_def find_None_iff)
  then show ?thesis by (simp add: map_filter_def filter_empty_conv)
qed

text \<open>
  C29: after an extension failed, discovery goes on exactly when no target needs a repository that cannot be mapped. A
  target needs the repository of its own label, of its inputs and of its configured inputs, by canonical name or
  by the name the root module gives it. With \<^verbatim>\<open>--keep_going\<close> the targets are only reported.
\<close>

theorem failed_references_rejected:
  assumes "maps_exactly b broken" "\<not> failed_is_empty failed"
  shows "\<exists>r failed' w'. check_failed_extension_references b targets failed canonical_to_apparent w = Some (r, failed', w') \<and>
    (r = Inr () \<longleftrightarrow> bm_keep_going b \<or>
       (\<forall>x \<in> set targets. \<forall>lbl \<in> set (named_labels x). \<forall>c.
          label_canonical (apparent_to_canonical_of canonical_to_apparent) lbl = Some c \<longrightarrow> \<not> broken_canonical failed broken c))"
proof -
  let ?t = "apparent_to_canonical_of canonical_to_apparent"
  let ?labels = "concat (map named_labels targets)"
  define referenced where "referenced = bs_of_list (List.map_filter (label_canonical ?t) ?labels)"
  have inv: "bt_inv ?t" by (simp add: apparent_to_canonical_of_def)
  obtain failed' w' where f: "find_unavailable_repositories b referenced failed w = Some (Inr (), failed', w')"
      "set (fe_unavailable failed') = set (fe_unavailable failed) \<union> {r \<in> trim_start_matches (CHR ''@'') ` set referenced. is_extension_repo r \<and> broken r}"
    using find_unavailable_sets [OF assms(1)] by blast
  have "has_unavailable_mapping failed' c \<longleftrightarrow> broken_canonical failed broken c" if "x \<in> set targets" "lbl \<in> set (named_labels x)" "label_canonical ?t lbl = Some c" for x lbl c
  proof -
    have "c \<in> set referenced" using that by (force simp: referenced_def map_filter_def)
    then show ?thesis using f(2) by (auto simp: has_unavailable_mapping_def broken_canonical_def Let_def)
  qed
  then have ok: "List.map_filter (offender ?t failed') targets = [] \<longleftrightarrow>
      (\<forall>x \<in> set targets. \<forall>lbl \<in> set (named_labels x). \<forall>c. label_canonical ?t lbl = Some c \<longrightarrow> \<not> broken_canonical failed broken c)"
    unfolding offenders_none unavailable_label_canonical [OF inv] by blast
  show ?thesis using assms(2) f(1) unfolding referenced_def
    by (simp add: check_failed_extension_references_def Let_def ok)
qed


subsection \<open>A broken extension\<close>

definition sample_broken :: "string \<Rightarrow> bool" where
  "sample_broken r \<longleftrightarrow> r = ''a+e+bad''"

definition sample_stderr :: string where
  "sample_stderr = ''ERROR: module extension @@a//:e.bzl%e failed''"

definition sample_bazel :: "unit bazel_mod" where
  "sample_bazel = \<lparr>bm_run = (\<lambda>args w. (Inr \<lparr>mo_success = list_all (\<lambda>r. \<not> sample_broken r) (drop 2 args),
       mo_stdout = concat (map (\<lambda>_. ''{}'' @ [CHR 0x0A]) (drop 2 args)), mo_stderr = sample_stderr\<rparr>, w)), bm_keep_going = False, bm_budget = 20\<rparr>"

definition no_failures :: failed_extensions where
  "no_failures = \<lparr>fe_observed = True, fe_extensions = [], fe_unavailable = []\<rparr>"

lemma sample_fails: "fails_unanswered sample_stderr"
proof -
  have "extension_failure_of sample_stderr = Some \<lparr>ef_extensions = [''@@a//:e.bzl%e''], ef_answered = False\<rparr>" by code_simp
  then show ?thesis by (simp add: fails_unanswered_def)
qed

lemma sample_maps: "maps_exactly sample_bazel sample_broken"
  using sample_fails by (simp add: maps_exactly_def sample_bazel_def)

theorem find_unavailable_exact_witness:
  "\<exists>failed' w'. find_unavailable_repositories sample_bazel [''@@a+e+good'', ''@@a+e+bad'', ''a+''] no_failures () = Some (Inr (), failed', w') \<and>
    set (fe_unavailable failed') = {''a+e+bad''}"
proof -
  have "{r \<in> trim_start_matches (CHR ''@'') ` set [''@@a+e+good'', ''@@a+e+bad'', ''a+'']. is_extension_repo r \<and> sample_broken r} = {''a+e+bad''}"
    by (auto simp: trim_start_matches_def is_extension_repo_def sample_broken_def)
  then show ?thesis
    using find_unavailable_exact [OF sample_maps, of "[''@@a+e+good'', ''@@a+e+bad'', ''a+'']" no_failures "()"] by (simp add: no_failures_def)
qed

lemma sample_attempt: "answers_exactly UNIV (\<lambda>names w. (Inr (list_all (\<lambda>r. \<not> sample_broken (trim_start_matches (CHR ''@'') r)) names, sample_stderr, names), w)) sample_broken (\<lambda>names. names)"
  using sample_fails by (simp add: answers_exactly_def)

theorem run_mod_over_repos_exact_witness:
  "\<exists>failed' w'. run_mod_over_repos sample_bazel ''show_repo'' [''@@a+e+good'', ''@@a+e+bad'', ''a+''] no_failures
     (\<lambda>names w. (Inr (list_all (\<lambda>r. \<not> sample_broken (trim_start_matches (CHR ''@'') r)) names, sample_stderr, names), w)) () =
     Some (Inr (Some [''@@a+e+good'', ''a+'']), failed', w')"
proof -
  have "is_extension_repo r" if "sample_broken r" for r using that by (simp add: sample_broken_def is_extension_repo_def)
  from run_mod_over_repos_exact [OF sample_maps this sample_attempt subset_UNIV, of "''show_repo''" "[''@@a+e+good'', ''@@a+e+bad'', ''a+'']" no_failures "()"]
  show ?thesis by (simp add: has_unavailable_mapping_def no_failures_def trim_start_matches_def sample_broken_def)
qed

theorem complete_mappings_cover_witness:
  "\<exists>ms failed' w'. dump_repo_mappings sample_bazel (\<lambda>_. Some (JObj [])) [''a+'', ''b+''] no_failures True () = Some (Inr ms, failed', True, w') \<and> length ms = 2"
proof -
  have "run_mod_over_repos sample_bazel ''dump_repo_mapping'' [''a+'', ''b+''] no_failures (mapping_attempt sample_bazel [''a+'', ''b+'']) () =
      Some (Inr (Some (''{}'' @ [CHR 0x0A] @ ''{}'' @ [CHR 0x0A], True)), no_failures, ())"
    by (simp add: run_mod_over_repos_def without_failed_def has_unavailable_mapping_def no_failures_def mod_loop.simps mapping_attempt_def run_capture_def
        sample_bazel_def sample_broken_def)
  moreover have "chunk_arguments [''a+'', ''b+''] 20 = [[''a+'', ''b+'']]" "mapping_lines (\<lambda>_. Some (JObj [])) (''{}'' @ [CHR 0x0A] @ ''{}'' @ [CHR 0x0A]) = [Some [], Some []]"
    by code_simp+
  moreover have "bm_budget sample_bazel = 20" by (simp add: sample_bazel_def)
  ultimately have "dump_repo_mappings sample_bazel (\<lambda>_. Some (JObj [])) [''a+'', ''b+''] no_failures True () = Some (Inr [[], []], no_failures, True, ())"
    by (simp add: dump_repo_mappings_def map_filter_simps)
  from complete_mappings_cover [OF this] this show ?thesis by auto
qed

definition sample_reader :: qtarget where
  "sample_reader = Query_Target.sample_lib\<lparr>qt_rule := Some (rule_default\<lparr>rule_name := ''//p:bin'', rule_input := [''@bad//:lib'']\<rparr>)\<rparr>"

theorem failed_references_rejected_witness:
  "\<exists>r failed' w'. check_failed_extension_references sample_bazel [sample_reader] no_failures [(''a+e+bad'', [''bad''])] () = Some (r, failed', w') \<and> r \<noteq> Inr ()"
proof -
  have "\<not> failed_is_empty no_failures" by (simp add: failed_is_empty_def no_failures_def)
  moreover have "''@bad//:lib'' \<in> set (named_labels sample_reader)" by (simp add: named_labels_def sample_reader_def)
  moreover have "label_canonical (apparent_to_canonical_of [(''a+e+bad'', [''bad''])]) ''@bad//:lib'' = Some ''a+e+bad''" by code_simp
  moreover have "broken_canonical no_failures sample_broken ''a+e+bad''"
    by (simp add: broken_canonical_def trim_start_matches_def is_extension_repo_def sample_broken_def)
  moreover have "\<not> bm_keep_going sample_bazel" by (simp add: sample_bazel_def)
  ultimately show ?thesis
    using failed_references_rejected [OF sample_maps, of no_failures "[sample_reader]" "[(''a+e+bad'', [''bad''])]" "()"] by auto
qed

end
