(* ===== verification/Repositories.thy ===== *)
theory Repositories
  imports Hash_Targets
begin

section \<open>Repositories as targets (bazel.rs)\<close>

text \<open>
  \<^verbatim>\<open>lower_repositories\<close> of \<^verbatim>\<open>src/bazel.rs\<close> and what it calls: every repository Bazel describes becomes a rule \<^verbatim>\<open>//external:name\<close>
  with its attributes, digests of the local files behind them, the definition of the module whose extension
  made it, and edges that stand in for the dependencies a query cannot see. Absolute paths into the
  workspace are rewritten, so that two checkouts agree. The file system and the encoding of an attribute are
  parameters. The closure that receives each target with its shared inputs is the list of what it receives.
\<close>

record repository =
  rp_canonical_name :: "string option"
  rp_repo_rule_name :: "string option"
  rp_apparent_name :: "string option"
  rp_module_key :: "string option"
  rp_original_name :: "string option"
  rp_attribute :: "attribute list"

record repository_files =
  rf_tree_hash :: "string option"
  rf_inputs_hash :: "string option"

record file_system =
  fs_is_file :: "string \<Rightarrow> bool"
  fs_is_dir :: "string \<Rightarrow> bool"
  fs_exists :: "string \<Rightarrow> bool"
  fs_read :: "string \<Rightarrow> bytes option"
  fs_directory_bytes :: "string \<Rightarrow> bytes option"
  fs_walk :: "string \<Rightarrow> string list"
  fs_canonicalize :: "string \<Rightarrow> string option"

subsection \<open>Paths into the workspace\<close>

definition path_join :: "string \<Rightarrow> string \<Rightarrow> string" where
  "path_join dir p = (if starts_with ''/'' p then p else if dir = [] \<or> last dir = CHR ''/'' then dir @ p else dir @ ''/'' @ p)"

definition path_parent :: "string \<Rightarrow> string option" where
  "path_parent p =
     (case rsplit_once (CHR ''/'') p of
        None \<Rightarrow> if p = [] then None else Some []
      | Some (dir, name) \<Rightarrow> if dir \<noteq> [] then Some dir else if name = [] then None else Some ''/'')"

definition path_starts_with :: "string \<Rightarrow> string \<Rightarrow> bool" where
  "path_starts_with p dir \<longleftrightarrow> p = dir \<or> starts_with (dir @ ''/'') p \<or> dir = ''/'' \<and> starts_with ''/'' p"

definition trim_end_slashes :: "string \<Rightarrow> string" where
  "trim_end_slashes p = rev (dropWhile (\<lambda>ch. ch = CHR ''/'') (rev p))"

definition workspace_roots :: "file_system \<Rightarrow> string \<Rightarrow> string list" where
  "workspace_roots fs ws =
     (let given = trim_end_slashes ws;
          roots = (case fs_canonicalize fs ws of
                     None \<Rightarrow> [given]
                   | Some resolved \<Rightarrow> if trim_end_slashes resolved = given then [given] else [given, trim_end_slashes resolved])
      in filter (\<lambda>root. root \<noteq> []) roots)"

text \<open>The components below the root, climbing with \<^verbatim>\<open>..\<close>; nothing when they climb above it.\<close>

fun below_root :: "string list \<Rightarrow> string list \<Rightarrow> string list option" where
  "below_root [] below = Some below"
| "below_root (component # rest) below =
     (if component = [] \<or> component = ''.'' then below_root rest below
      else if component = ''..'' then (if below = [] then None else below_root rest (butlast below))
      else below_root rest (below @ [component]))"

function path_ancestors :: "string \<Rightarrow> string list" where
  "path_ancestors p = p # (case path_parent p of None \<Rightarrow> [] | Some dir \<Rightarrow> path_ancestors dir)"
  by pat_completeness auto

lemma path_parent_shorter: "path_parent p = Some dir \<Longrightarrow> length dir < length p"
  by (auto simp: path_parent_def rsplit_once_Some split: option.splits if_splits)

termination path_ancestors
  by (relation "measure length") (auto dest: path_parent_shorter)

definition stays_inside :: "file_system \<Rightarrow> string \<Rightarrow> string \<Rightarrow> bool" where
  "stays_inside fs root rest =
     (case below_root (split_on (CHR ''/'') rest) [] of
        None \<Rightarrow> False
      | Some below \<Rightarrow>
          (case fs_canonicalize fs root of
             None \<Rightarrow> True
           | Some real_root \<Rightarrow>
               (case find (fs_exists fs) (path_ancestors (fold (\<lambda>c p. path_join p c) below root)) of
                  None \<Rightarrow> True
                | Some ancestor \<Rightarrow>
                    (case fs_canonicalize fs ancestor of None \<Rightarrow> False | Some resolved \<Rightarrow> path_starts_with resolved real_root))))"

text \<open>The loop over the roots ends at the first one the path starts with.\<close>

fun relative_to :: "file_system \<Rightarrow> string \<Rightarrow> string list \<Rightarrow> string option" where
  "relative_to fs p [] = None"
| "relative_to fs p (root # roots) =
     (case strip_prefix root p of
        Some rest \<Rightarrow>
          if rest = [] \<or> starts_with ''/'' rest then (if stays_inside fs root rest then Some (''%workspace%'' @ rest) else None)
          else relative_to fs p roots
      | None \<Rightarrow> relative_to fs p roots)"

definition workspace_relative :: "file_system \<Rightarrow> string list \<Rightarrow> string \<Rightarrow> string" where
  "workspace_relative fs roots value =
     (let (scheme, p) = (case strip_prefix ''file://'' value of Some rest \<Rightarrow> (''file://'', rest) | None \<Rightarrow> ('''', value))
      in case relative_to fs p roots of None \<Rightarrow> value | Some relative \<Rightarrow> scheme @ relative)"

definition normalize_workspace_attribute :: "file_system \<Rightarrow> string list \<Rightarrow> attribute \<Rightarrow> attribute" where
  "normalize_workspace_attribute fs roots a =
     (let rewrite = workspace_relative fs roots
      in a\<lparr>at_string_value := map_option rewrite (at_string_value a),
           at_string_list_value := map rewrite (at_string_list_value a),
           at_string_dict_value := map (\<lambda>(k, v). (rewrite k, rewrite v)) (at_string_dict_value a),
           at_string_list_dict_value := map (\<lambda>(k, vs). (rewrite k, map rewrite vs)) (at_string_list_dict_value a)\<rparr>)"

subsection \<open>The definition of a repository\<close>

definition local_repository_content_hash :: "crates \<Rightarrow> file_system \<Rightarrow> string \<Rightarrow> repository \<Rightarrow> string option" where
  "local_repository_content_hash c fs ws r =
     (if rp_repo_rule_name r \<noteq> Some ''local_repository'' then None
      else
     (case Option.bind (find (\<lambda>a. at_name a = ''path'') (rp_attribute r)) at_string_value of
        None \<Rightarrow> None
      | Some p \<Rightarrow>
          (let root = path_join ws p
           in if \<not> fs_is_dir fs root then None
              else map_option (\<lambda>parts. hex_encode c (sha256 c (concat parts)))
                (those (map (\<lambda>relative. map_option (\<lambda>content. as_bytes relative @ [0] @ content @ [0]) (fs_read fs (path_join root relative)))
                  (sort_key (split_on (CHR ''/'')) (filter (\<lambda>relative. last_segment relative \<noteq> ''MODULE.bazel.lock'') (fs_walk fs root))))))))"

fun local_inputs :: "crates \<Rightarrow> file_system \<Rightarrow> string \<Rightarrow> string list \<Rightarrow> bytes list \<Rightarrow> bytes list option" where
  "local_inputs c fs ws [] parts = Some parts"
| "local_inputs c fs ws (lbl # lbls) parts =
     (case main_repo_path lbl of
        None \<Rightarrow> local_inputs c fs ws lbls parts
      | Some p \<Rightarrow>
          (let absolute = path_join ws p
           in if fs_is_file fs absolute \<or> fs_is_dir fs absolute then
                (case (if fs_is_file fs absolute then fs_read fs absolute else fs_directory_bytes fs absolute) of
                   None \<Rightarrow> None
                 | Some content \<Rightarrow> local_inputs c fs ws lbls (parts @ [as_bytes lbl @ [0] @ sha256 c content @ [0]]))
              else local_inputs c fs ws lbls parts))"

definition repository_local_inputs_hash :: "crates \<Rightarrow> file_system \<Rightarrow> string \<Rightarrow> repository \<Rightarrow> string option" where
  "repository_local_inputs_hash c fs ws r =
     (case local_inputs c fs ws (bs_of_list (attribute_main_repo_labels (rp_attribute r))) [] of
        None \<Rightarrow> None
      | Some parts \<Rightarrow> if parts = [] then None else Some (hex_encode c (sha256 c (concat parts))))"

definition prepare_repository :: "crates \<Rightarrow> file_system \<Rightarrow> string \<Rightarrow> repository \<Rightarrow> repository_files \<times> repository" where
  "prepare_repository c fs ws r =
     (\<lparr>rf_tree_hash = local_repository_content_hash c fs ws r, rf_inputs_hash = repository_local_inputs_hash c fs ws r\<rparr>,
      r\<lparr>rp_attribute := map (normalize_workspace_attribute fs (workspace_roots fs ws)) (rp_attribute r)\<rparr>)"

definition repository_definition_hash :: "crates \<Rightarrow> (attribute \<Rightarrow> bytes) \<Rightarrow> repository \<Rightarrow> repository_files \<Rightarrow> string" where
  "repository_definition_hash c encode r files =
     (let pinned = list_ex (\<lambda>a. at_name a \<in> {''sha256'', ''integrity''} \<and> (case at_string_value a of None \<Rightarrow> False | Some v \<Rightarrow> v \<noteq> [])) (rp_attribute r);
          encoded = map (\<lambda>a. encode (case without_integrity_pinned_urls a (rp_attribute r) of Some stripped \<Rightarrow> stripped | None \<Rightarrow> a))
            (filter (\<lambda>a. \<not> (pinned \<and> at_name a \<in> {''url'', ''urls''})) (rp_attribute r));
          opt = (\<lambda>h. case h of None \<Rightarrow> [] | Some s \<Rightarrow> as_bytes s)
      in hex_encode c (sha256 c (opt (rp_repo_rule_name r) @ [0] @ concat encoded @ [0] @ opt (rf_tree_hash files) @ [0] @ opt (rf_inputs_hash files))))"

definition string_attribute :: "string \<Rightarrow> string option \<Rightarrow> attribute list" where
  "string_attribute name value =
     (case value of
        None \<Rightarrow> []
      | Some v \<Rightarrow> [attribute_default\<lparr>at_name := name, at_type := STRING, at_string_value := Some v\<rparr>])"

definition repository_rule :: "repository \<Rightarrow> repository_files \<Rightarrow> string option \<Rightarrow> rule" where
  "repository_rule r files owner_definition_hash =
     rule_default\<lparr>rule_class := (case rp_repo_rule_name r of Some name \<Rightarrow> if name = [] then ''bzlmod_repo'' else name | None \<Rightarrow> ''bzlmod_repo''),
       rule_attribute := rp_attribute r @ string_attribute ''_bazel_diff_content_hash'' (rf_tree_hash files) @
         string_attribute ''_bazel_diff_local_inputs_hash'' (rf_inputs_hash files) @
         string_attribute ''_bazel_diff_module_hash'' owner_definition_hash\<rparr>"

definition external_label :: "string \<Rightarrow> label" where
  "external_label name = ''//external:'' @ name"

definition repository_target :: "rule \<Rightarrow> string \<Rightarrow> string list \<Rightarrow> qtarget" where
  "repository_target r apparent dependencies =
     \<lparr>qt_type = Rule,
      qt_rule = Some (r\<lparr>rule_name := external_label apparent,
        rule_input := map external_label (filter (\<lambda>dependency. dependency \<noteq> apparent) dependencies)\<rparr>),
      qt_source_file = None, qt_generated_file = None, qt_package_group = None, qt_environment_group = None, qt_unknown_fields = []\<rparr>"

subsection \<open>Edges\<close>

record label_only_repositories =
  lo_sibling_extensions :: "string list"
  lo_owner_exemptions :: "string list"

definition node_names :: "(string, string list) btree \<Rightarrow> string \<Rightarrow> string list" where
  "node_names canonical_to_apparent canonical =
     (case bt_get canonical_to_apparent canonical of Some names \<Rightarrow> names | None \<Rightarrow> [canonical])"

definition canonical_of :: "repository \<Rightarrow> string" where
  "canonical_of r = (case rp_canonical_name r of Some name \<Rightarrow> name | None \<Rightarrow> '''')"

definition module_of_canonical :: "string \<Rightarrow> string option" where
  "module_of_canonical canonical =
     (if length (filter (\<lambda>ch. ch = CHR ''+'') canonical) = 1 then Some (hd (split_on (CHR ''+'') canonical)) else None)"

text \<open>\<^verbatim>\<open>extension_repo_owner\<close>: the prefixes that end before a plus sign, shortest first.\<close>

fun plus_prefixes :: "string \<Rightarrow> string \<Rightarrow> string list" where
  "plus_prefixes before [] = []"
| "plus_prefixes before (ch # rest) = (if ch = CHR ''+'' then [before] else []) @ plus_prefixes (before @ [ch]) rest"

definition extension_repo_owner :: "string \<Rightarrow> (string, string) btree \<Rightarrow> (string \<times> string) option" where
  "extension_repo_owner usage_prefix definitions =
     Option.bind (find (\<lambda>prefix. bt_get definitions prefix \<noteq> None) (plus_prefixes [] usage_prefix))
       (\<lambda>prefix. map_option (Pair prefix) (bt_get definitions prefix))"

definition add_names :: "string \<Rightarrow> string list \<Rightarrow> (string, string list) btree \<Rightarrow> (string, string list) btree" where
  "add_names key names t = bt_insert key (bs_of_list ((case bt_get t key of None \<Rightarrow> [] | Some old \<Rightarrow> old) @ names)) t"

record lower_env =
  le_canonical_to_apparent :: "(string, string list) btree"
  le_module_edges :: "(string, string list) btree"
  le_extension_edges :: "string list option"
  le_label_only :: label_only_repositories
  le_definitions :: "(string, string) btree"
  le_module_to_canonical :: "(string, string) btree"

definition owner_of :: "lower_env \<Rightarrow> string \<Rightarrow> (string \<times> string) option" where
  "owner_of e canonical = Option.bind (extension_usage_prefix canonical) (\<lambda>extension. extension_repo_owner extension (le_definitions e))"

definition add_module_repo ::
  "lower_env \<Rightarrow> repository \<Rightarrow> (string, (string, string list) btree) btree \<Rightarrow> (string, (string, string list) btree) btree" where
  "add_module_repo e r t =
     (case extension_usage_prefix (canonical_of r) of
        None \<Rightarrow> t
      | Some extension \<Rightarrow>
          (case extension_repo_owner extension (le_definitions e) of
             None \<Rightarrow> t
           | Some (module_repo, _) \<Rightarrow>
               if module_repo = [] \<or> canonical_of r \<in> set (lo_owner_exemptions (le_label_only e)) then t
               else bt_insert module_repo
                 (add_names extension (node_names (le_canonical_to_apparent e) (canonical_of r)) (case bt_get t module_repo of None \<Rightarrow> [] | Some x \<Rightarrow> x)) t))"

definition add_spoke :: "lower_env \<Rightarrow> string list \<Rightarrow> repository \<Rightarrow> (string, string list) btree \<Rightarrow> (string, string list) btree" where
  "add_spoke e imported r t =
     (case extension_usage_prefix (canonical_of r) of
        None \<Rightarrow> t
      | Some extension \<Rightarrow>
          if canonical_of r \<in> set imported then t
          else add_names extension (node_names (le_canonical_to_apparent e) (canonical_of r)) t)"

definition module_extension_repos :: "lower_env \<Rightarrow> repository list \<Rightarrow> (string, (string, string list) btree) btree" where
  "module_extension_repos e repositories =
     (case le_extension_edges e of None \<Rightarrow> [] | Some _ \<Rightarrow> fold (add_module_repo e) repositories [])"

definition extension_spokes :: "lower_env \<Rightarrow> repository list \<Rightarrow> (string, string list) btree" where
  "extension_spokes e repositories =
     (case le_extension_edges e of None \<Rightarrow> [] | Some imported \<Rightarrow> fold (add_spoke e imported) repositories [])"

definition own_extensions :: "lower_env \<Rightarrow> repository list \<Rightarrow> string \<Rightarrow> (string, string list) btree" where
  "own_extensions e repositories canonical =
     (case bt_get (module_extension_repos e repositories) canonical of None \<Rightarrow> [] | Some exts \<Rightarrow> exts)"

text \<open>The dependencies of a repository other than the spokes of its extension.\<close>

definition repository_dependencies :: "lower_env \<Rightarrow> repository list \<Rightarrow> string \<Rightarrow> string list" where
  "repository_dependencies e repositories canonical =
     bs_of_list
       (concat (map (node_names (le_canonical_to_apparent e))
          (List.map_filter (bt_get (le_module_to_canonical e))
             (case module_of_canonical canonical of
                None \<Rightarrow> []
              | Some md \<Rightarrow> (case bt_get (le_module_edges e) md of None \<Rightarrow> [] | Some ds \<Rightarrow> ds)))) @
        concat (map snd (own_extensions e repositories canonical)))"

definition hub_spokes :: "lower_env \<Rightarrow> repository list \<Rightarrow> string \<Rightarrow> (string \<times> string list) option" where
  "hub_spokes e repositories canonical =
     (case (extension_usage_prefix canonical, le_extension_edges e) of
        (Some extension, Some imported) \<Rightarrow>
          if canonical \<in> set imported then map_option (Pair extension) (bt_get (extension_spokes e repositories) extension) else None
      | _ \<Rightarrow> None)"

definition lower_name ::
  "rule \<Rightarrow> string list \<Rightarrow> (string \<times> string list) option \<Rightarrow> (string \<times> string list) list \<Rightarrow> string \<Rightarrow> (qtarget \<times> input_group option) list" where
  "lower_name r dependencies spokes views apparent =
     (let dependencies' = (case spokes of Some (_, names) \<Rightarrow> if dependencies = [] then [] else bs_of_list (dependencies @ names) | None \<Rightarrow> dependencies);
          node = (case spokes of
                    Some (extension, names) \<Rightarrow>
                      if dependencies = [] then
                        (if apparent \<notin> set names
                         then (repository_target r apparent [], Some \<lparr>ig_extension = extension, ig_labels = map external_label names\<rparr>)
                         else (repository_target r apparent names, None))
                      else (repository_target r apparent dependencies', None)
                  | None \<Rightarrow> (repository_target r apparent dependencies', None))
      in node # map (\<lambda>(extension, repos). (repository_target r (extension_view_node apparent extension) (filter (\<lambda>d. d \<notin> set repos) dependencies'), None)) views)"

definition lower_repository :: "lower_env \<Rightarrow> repository list \<Rightarrow> repository \<times> repository_files \<Rightarrow> (qtarget \<times> input_group option) list" where
  "lower_repository e repositories rf =
     (let canonical = canonical_of (fst rf);
          r = repository_rule (fst rf) (snd rf) (map_option snd (owner_of e canonical));
          views = filter (\<lambda>(extension, _). extension \<in> set (lo_sibling_extensions (le_label_only e))) (own_extensions e repositories canonical)
      in concat (map (lower_name r (repository_dependencies e repositories canonical) (hub_spokes e repositories canonical) views)
           (node_names (le_canonical_to_apparent e) canonical)))"

text \<open>
  Every repository is prepared once, module repositories before the edges are known and the others when
  they are lowered; which comes first changes nothing but the order of file reads.
\<close>

definition lower_repositories ::
  "crates \<Rightarrow> (attribute \<Rightarrow> bytes) \<Rightarrow> file_system \<Rightarrow> string \<Rightarrow> repository list \<Rightarrow> (string, string list) btree \<Rightarrow> (string, string list) btree \<Rightarrow>
   string list option \<Rightarrow> label_only_repositories \<Rightarrow> (qtarget \<times> input_group option) list" where
  "lower_repositories c encode fs ws repositories canonical_to_apparent module_edges extension_edges label_only =
     (let prepared = map (prepare_repository c fs ws) repositories;
          definitions = bt_of_list (List.map_filter (\<lambda>(files, r).
            case rp_canonical_name r of
              None \<Rightarrow> None
            | Some name \<Rightarrow> if is_extension_repo name then None else Some (name, repository_definition_hash c encode r files)) prepared);
          module_to_canonical = bt_of_list (List.map_filter (\<lambda>r.
            Option.bind (rp_canonical_name r) (\<lambda>name. map_option (\<lambda>md. (md, name)) (module_of_canonical name))) repositories);
          e = \<lparr>le_canonical_to_apparent = canonical_to_apparent, le_module_edges = module_edges, le_extension_edges = extension_edges,
               le_label_only = label_only, le_definitions = definitions, le_module_to_canonical = module_to_canonical\<rparr>
      in concat (map (\<lambda>(files, r). lower_repository e repositories (r, files)) prepared))"


subsection \<open>Names a repository is reached by\<close>

text \<open>Everything a lowered target depends on: its own inputs and those it shares.\<close>

definition lowered_inputs :: "qtarget \<times> input_group option \<Rightarrow> label list" where
  "lowered_inputs tg =
     (case qt_rule (fst tg) of None \<Rightarrow> [] | Some r \<Rightarrow> rule_input r) @ (case snd tg of None \<Rightarrow> [] | Some g \<Rightarrow> ig_labels g)"

definition lowered_name :: "qtarget \<times> input_group option \<Rightarrow> label" where
  "lowered_name tg = (case qt_rule (fst tg) of None \<Rightarrow> [] | Some r \<Rightarrow> rule_name r)"

lemma lowered_target [simp]:
  "lowered_name (repository_target r apparent ds, g) = external_label apparent"
  "set (lowered_inputs (repository_target r apparent ds, g)) =
     external_label ` {d \<in> set ds. d \<noteq> apparent} \<union> (case g of None \<Rightarrow> {} | Some gr \<Rightarrow> set (ig_labels gr))"
  by (auto simp: lowered_name_def lowered_inputs_def repository_target_def split: option.splits)

definition holds_name :: "(string, string list) btree \<Rightarrow> string \<Rightarrow> string \<Rightarrow> bool" where
  "holds_name t key name \<longleftrightarrow> (\<exists>names. bt_get t key = Some names \<and> name \<in> set names)"

lemma holds_name_add: "holds_name (add_names key names t) k n \<longleftrightarrow> holds_name t k n \<or> k = key \<and> n \<in> set names"
  by (cases "bt_get t key") (auto simp: holds_name_def add_names_def bt_get_insert)

lemma spokes_hold:
  "holds_name (fold (add_spoke e imported) rs t) ext n \<longleftrightarrow>
     holds_name t ext n \<or> (\<exists>s \<in> set rs. extension_usage_prefix (canonical_of s) = Some ext \<and> canonical_of s \<notin> set imported \<and>
       n \<in> set (node_names (le_canonical_to_apparent e) (canonical_of s)))"
  by (induction rs arbitrary: t) (auto simp: add_spoke_def holds_name_add split: option.splits)

definition owns_name :: "(string, (string, string list) btree) btree \<Rightarrow> string \<Rightarrow> string \<Rightarrow> string \<Rightarrow> bool" where
  "owns_name t md ext n \<longleftrightarrow> (\<exists>exts. bt_get t md = Some exts \<and> holds_name exts ext n)"

lemma owns_name_add:
  "owns_name (bt_insert md (add_names ext names (case bt_get t md of None \<Rightarrow> [] | Some x \<Rightarrow> x)) t) k x n \<longleftrightarrow>
     owns_name t k x n \<or> k = md \<and> x = ext \<and> n \<in> set names"
  by (auto simp: owns_name_def bt_get_insert holds_name_add split: option.splits if_splits) (auto simp: holds_name_def)

lemma module_repos_hold:
  "owns_name (fold (add_module_repo e) rs t) md ext n \<longleftrightarrow>
     owns_name t md ext n \<or> (\<exists>s \<in> set rs. \<exists>h. extension_usage_prefix (canonical_of s) = Some ext \<and> owner_of e (canonical_of s) = Some (md, h) \<and> md \<noteq> [] \<and>
       canonical_of s \<notin> set (lo_owner_exemptions (le_label_only e)) \<and> n \<in> set (node_names (le_canonical_to_apparent e) (canonical_of s)))"
  by (induction rs arbitrary: t) (auto simp: add_module_repo_def owner_of_def owns_name_add split: option.splits)

lemma own_extensions_names:
  assumes "owns_name (module_extension_repos e rs) md ext n"
  shows "n \<in> set (repository_dependencies e rs md)"
proof -
  obtain exts names where "own_extensions e rs md = exts" "bt_get exts ext = Some names" "n \<in> set names"
    using assms by (auto simp: owns_name_def holds_name_def own_extensions_def)
  then have "n \<in> set (concat (map snd (own_extensions e rs md)))" by (force dest: map_of_SomeD)
  then show ?thesis by (simp add: repository_dependencies_def)
qed

lemma lower_name_inputs:
  assumes "n \<in> set ds \<or> (\<exists>ext names. spokes = Some (ext, names) \<and> n \<in> set names)" "n \<noteq> apparent"
  shows "\<exists>tg \<in> set (lower_name r ds spokes views apparent). lowered_name tg = external_label apparent \<and> external_label n \<in> set (lowered_inputs tg)"
  using assms by (cases spokes) (auto simp: lower_name_def Let_def)


text \<open>The environment in which the repositories are lowered.\<close>

definition env_of ::
  "crates \<Rightarrow> (attribute \<Rightarrow> bytes) \<Rightarrow> file_system \<Rightarrow> string \<Rightarrow> repository list \<Rightarrow> (string, string list) btree \<Rightarrow> (string, string list) btree \<Rightarrow>
   string list option \<Rightarrow> label_only_repositories \<Rightarrow> lower_env" where
  "env_of c encode fs ws repositories c2a module_edges extension_edges label_only =
     \<lparr>le_canonical_to_apparent = c2a, le_module_edges = module_edges, le_extension_edges = extension_edges, le_label_only = label_only,
      le_definitions = bt_of_list (List.map_filter (\<lambda>(files, r).
        case rp_canonical_name r of
          None \<Rightarrow> None
        | Some name \<Rightarrow> if is_extension_repo name then None else Some (name, repository_definition_hash c encode r files))
          (map (prepare_repository c fs ws) repositories)),
      le_module_to_canonical = bt_of_list (List.map_filter (\<lambda>r.
        Option.bind (rp_canonical_name r) (\<lambda>name. map_option (\<lambda>md. (md, name)) (module_of_canonical name))) repositories)\<rparr>"

lemma lower_repositories_env:
  "lower_repositories c encode fs ws repositories c2a module_edges extension_edges label_only =
   concat (map (\<lambda>r. lower_repository (env_of c encode fs ws repositories c2a module_edges extension_edges label_only) repositories
     (snd (prepare_repository c fs ws r), fst (prepare_repository c fs ws r))) repositories)"
  by (simp add: lower_repositories_def env_of_def Let_def case_prod_unfold comp_def)

lemma prepare_canonical [simp]: "canonical_of (snd (prepare_repository c fs ws r)) = canonical_of r"
  by (simp add: prepare_repository_def canonical_of_def)

lemma lower_repository_inputs:
  assumes "apparent \<in> set (node_names (le_canonical_to_apparent e) (canonical_of (fst rf)))" "n \<noteq> apparent"
    and "n \<in> set (repository_dependencies e rs (canonical_of (fst rf))) \<or>
      (\<exists>ext names. hub_spokes e rs (canonical_of (fst rf)) = Some (ext, names) \<and> n \<in> set names)"
  shows "\<exists>tg \<in> set (lower_repository e rs rf). lowered_name tg = external_label apparent \<and> external_label n \<in> set (lowered_inputs tg)"
  using lower_name_inputs [OF assms(3,2)] assms(1) by (auto simp: lower_repository_def Let_def) blast

text \<open>
  C31: no dependency a query cannot see is lost. In query mode, every name of an imported repository of a module extension has a node that depends
  on the repositories of the same extension that no module imports, and every name of a module has a node that
  depends on the repositories its extensions generate, unless they are exempt, each by all its names.
\<close>

theorem lowered_edges_cover:
  assumes "r \<in> set repositories" "s \<in> set repositories" "extension_usage_prefix (canonical_of s) = Some ext"
    and "name \<in> set (node_names c2a (canonical_of r))" "n \<in> set (node_names c2a (canonical_of s))" "n \<noteq> name"
    and "canonical_of r \<in> set imported \<and> extension_usage_prefix (canonical_of r) = Some ext \<and> canonical_of s \<notin> set imported \<or>
      (\<exists>h. owner_of (env_of c encode fs ws repositories c2a module_edges (Some imported) label_only) (canonical_of s) = Some (canonical_of r, h)) \<and>
        canonical_of r \<noteq> [] \<and> canonical_of s \<notin> set (lo_owner_exemptions label_only)"
  shows "\<exists>tg \<in> set (lower_repositories c encode fs ws repositories c2a module_edges (Some imported) label_only).
    lowered_name tg = external_label name \<and> external_label n \<in> set (lowered_inputs tg)"
proof -
  let ?e = "env_of c encode fs ws repositories c2a module_edges (Some imported) label_only"
  have e: "le_canonical_to_apparent ?e = c2a" "le_extension_edges ?e = Some imported" "le_label_only ?e = label_only" by (simp_all add: env_of_def)
  have "n \<in> set (repository_dependencies ?e repositories (canonical_of r)) \<or>
      (\<exists>ext names. hub_spokes ?e repositories (canonical_of r) = Some (ext, names) \<and> n \<in> set names)"
    using assms(7)
  proof
    assume hub: "canonical_of r \<in> set imported \<and> extension_usage_prefix (canonical_of r) = Some ext \<and> canonical_of s \<notin> set imported"
    then have "holds_name (extension_spokes ?e repositories) ext n"
      using assms(2,3,5) by (auto simp: extension_spokes_def e spokes_hold)
    then show ?thesis using hub by (auto simp: hub_spokes_def e holds_name_def)
  next
    assume "(\<exists>h. owner_of ?e (canonical_of s) = Some (canonical_of r, h)) \<and> canonical_of r \<noteq> [] \<and> canonical_of s \<notin> set (lo_owner_exemptions label_only)"
    then have "owns_name (module_extension_repos ?e repositories) (canonical_of r) ext n"
      using assms(2,3,5) by (auto simp: module_extension_repos_def e module_repos_hold)
    then show ?thesis using own_extensions_names by blast
  qed
  then show ?thesis
    using lower_repository_inputs [of name ?e "(snd (prepare_repository c fs ws r), fst (prepare_repository c fs ws r))" n repositories] assms(1,4,6)
    unfolding lower_repositories_env by (auto simp: e)
qed

text \<open>A repository no module imports is a leaf, so these edges close no cycle.\<close>

lemma definitions_not_extension:
  assumes "bt_get (le_definitions (env_of c encode fs ws rs c2a me ee lo)) name = Some h"
  shows "\<not> is_extension_repo name"
proof -
  have "(k, v) \<in> set kvs" if "bt_get (bt_of_list kvs) k = Some v" for k v and kvs :: "(string \<times> string) list"
    using that by (auto simp: bt_of_list_def bt_get_extend dest: map_of_SomeD split: option.splits)
  from this [OF assms [unfolded env_of_def, simplified]] show ?thesis
    by (auto simp: map_filter_def split: option.splits if_splits)
qed


lemma owner_defined: "extension_repo_owner ext ds = Some (md, h) \<Longrightarrow> bt_get ds md = Some h"
  by (auto simp: extension_repo_owner_def split: Option.bind_splits)

lemma module_repos_keys:
  "bt_get (fold (add_module_repo e) rs t) md \<noteq> None \<Longrightarrow> bt_get t md \<noteq> None \<or> bt_get (le_definitions e) md \<noteq> None"
proof (induction rs arbitrary: t)
  case (Cons r rs)
  have "bt_get (add_module_repo e r t) md \<noteq> None \<Longrightarrow> bt_get t md \<noteq> None \<or> bt_get (le_definitions e) md \<noteq> None"
    by (auto simp: add_module_repo_def bt_get_insert split: option.splits if_splits dest: owner_defined)
  then show ?case using Cons.IH [of "add_module_repo e r t"] Cons.prems by auto
qed simp

lemma extension_owns_nothing:
  assumes "is_extension_repo canonical" "e = env_of c encode fs ws rs c2a me ee lo"
  shows "own_extensions e rs' canonical = []"
proof -
  have "bt_get (le_definitions e) canonical = None" using definitions_not_extension assms by (metis not_None_eq)
  then have "bt_get (module_extension_repos e rs') canonical = None"
    using module_repos_keys [of e rs' "[]" canonical] by (cases "le_extension_edges e") (simp_all add: module_extension_repos_def, fastforce)
  then show ?thesis by (simp add: own_extensions_def)
qed

text \<open>
  The stand-in edges close no cycle through the repositories behind an extension. A repository of a module extension that no module imports
  is lowered to nodes without any input, its own or shared, under each of its names.
\<close>

theorem spokes_are_leaves:
  assumes "r \<in> set repositories" "extension_usage_prefix (canonical_of r) \<noteq> None" "canonical_of r \<notin> set imported"
    and "tg \<in> set (lower_repository (env_of c encode fs ws repositories c2a module_edges (Some imported) label_only) repositories
      (snd (prepare_repository c fs ws r), fst (prepare_repository c fs ws r)))"
  shows "lowered_inputs tg = []"
proof -
  let ?e = "env_of c encode fs ws repositories c2a module_edges (Some imported) label_only"
  have x: "is_extension_repo (canonical_of r)" using assms(2) by (auto simp: extension_usage_prefix_def split: if_splits)
  have own: "own_extensions ?e repositories (canonical_of r) = []" by (rule extension_owns_nothing [OF x refl])
  moreover have "module_of_canonical (canonical_of r) = None" using x by (simp add: module_of_canonical_def is_extension_repo_def)
  ultimately have "repository_dependencies ?e repositories (canonical_of r) = []"
    by (simp add: repository_dependencies_def map_filter_simps bs_of_list_def)
  moreover have "hub_spokes ?e repositories (canonical_of r) = None" using assms(3) by (simp add: hub_spokes_def env_of_def split: option.splits)
  ultimately have "lowered_inputs tg = []" if "tg \<in> set (lower_name rl [] None [] apparent)" for rl apparent
    using that by (auto simp: lower_name_def lowered_inputs_def repository_target_def)
  then show ?thesis
    using assms(4) own \<open>repository_dependencies ?e repositories (canonical_of r) = []\<close> \<open>hub_spokes ?e repositories (canonical_of r) = None\<close>
    by (auto simp: lower_repository_def Let_def)
qed

subsection \<open>Two checkouts\<close>

text \<open>
  An attribute as it stands independently of a checkout writes the token \<^verbatim>\<open>%workspace%\<close> for the workspace's root;
  \<open>placed\<close> is the value a checkout at \<open>root\<close> has for it.
\<close>

definition placed :: "string \<Rightarrow> string \<Rightarrow> string" where
  "placed root v =
     (case strip_prefix ''%workspace%'' v of
        Some rest \<Rightarrow> root @ rest
      | None \<Rightarrow> (case strip_prefix ''file://%workspace%'' v of Some rest \<Rightarrow> ''file://'' @ root @ rest | None \<Rightarrow> v))"

definition placeable :: "file_system \<Rightarrow> string \<Rightarrow> string \<Rightarrow> bool" where
  "placeable fs root v \<longleftrightarrow>
     (let inside = (\<lambda>rest. (rest = [] \<or> starts_with ''/'' rest) \<and> stays_inside fs root rest)
      in case strip_prefix ''%workspace%'' v of
           Some rest \<Rightarrow> inside rest
         | None \<Rightarrow> (case strip_prefix ''file://%workspace%'' v of Some rest \<Rightarrow> inside rest | None \<Rightarrow> workspace_relative fs [root] v = v))"

definition map_strings :: "(string \<Rightarrow> string) \<Rightarrow> attribute \<Rightarrow> attribute" where
  "map_strings f a =
     a\<lparr>at_string_value := map_option f (at_string_value a), at_string_list_value := map f (at_string_list_value a),
       at_string_dict_value := map (\<lambda>(k, v). (f k, f v)) (at_string_dict_value a),
       at_string_list_dict_value := map (\<lambda>(k, vs). (f k, map f vs)) (at_string_list_dict_value a)\<rparr>"

definition strings_of :: "attribute \<Rightarrow> string list" where
  "strings_of a =
     (case at_string_value a of None \<Rightarrow> [] | Some v \<Rightarrow> [v]) @ at_string_list_value a @
     concat (map (\<lambda>(k, v). [k, v]) (at_string_dict_value a)) @ concat (map (\<lambda>(k, vs). k # vs) (at_string_list_dict_value a))"

lemma normalize_map_strings: "normalize_workspace_attribute fs roots a = map_strings (workspace_relative fs roots) a"
  by (simp add: normalize_workspace_attribute_def map_strings_def Let_def)

lemma map_strings_id:
  assumes "\<And>v. v \<in> set (strings_of a) \<Longrightarrow> f (g v) = v"
  shows "map_strings f (map_strings g a) = a"
proof -
  have "(\<lambda>(k, v). (f (g k), f (g v))) kv = kv" if "kv \<in> set (at_string_dict_value a)" for kv
  proof (cases kv)
    case (Pair k v)
    then have "k \<in> set (strings_of a)" "v \<in> set (strings_of a)" using that by (force simp: strings_of_def)+
    then show ?thesis using Pair assms by simp
  qed
  then have "map (\<lambda>(k, v). (f (g k), f (g v))) (at_string_dict_value a) = at_string_dict_value a" by (rule map_idI)
  moreover have "(\<lambda>(k, vs). (f (g k), map (f \<circ> g) vs)) kv = kv" if "kv \<in> set (at_string_list_dict_value a)" for kv
  proof (cases kv)
    case (Pair k vs)
    then have "set (k # vs) \<subseteq> set (strings_of a)" using that by (force simp: strings_of_def)
    then show ?thesis using Pair assms by (auto intro!: map_idI)
  qed
  then have "map (\<lambda>(k, vs). (f (g k), map (f \<circ> g) vs)) (at_string_list_dict_value a) = at_string_list_dict_value a" by (rule map_idI)
  moreover have "map (f \<circ> g) (at_string_list_value a) = at_string_list_value a"
    using assms by (intro map_idI) (simp add: strings_of_def)
  moreover have "map_option (f \<circ> g) (at_string_value a) = at_string_value a"
    using assms by (cases "at_string_value a") (simp_all add: strings_of_def)
  ultimately show ?thesis by (simp add: map_strings_def case_prod_unfold comp_def option.map_comp)
qed

lemma workspace_relative_placed:
  assumes "starts_with ''/'' root" "placeable fs root v"
  shows "workspace_relative fs [root] (placed root v) = v"
proof -
  have nf: "strip_prefix ''file://'' (root @ rest) = None" for rest
    using assms(1) by (cases root) (auto simp: starts_with_def split: if_splits)
  have rel: "relative_to fs (root @ rest) [root] = Some (''%workspace%'' @ rest)"
    if "rest = [] \<or> starts_with ''/'' rest" "stays_inside fs root rest" for rest
    using that by simp
  consider (bare) rest where "strip_prefix ''%workspace%'' v = Some rest"
    | (scheme) rest where "strip_prefix ''%workspace%'' v = None" "strip_prefix ''file://%workspace%'' v = Some rest"
    | (other) "strip_prefix ''%workspace%'' v = None" "strip_prefix ''file://%workspace%'' v = None"
    by fastforce
  then show ?thesis
  proof cases
    case bare
    then have v: "v = ''%workspace%'' @ rest" by (simp add: strip_prefix_eq_Some)
    have "rest = [] \<or> starts_with ''/'' rest" "stays_inside fs root rest" using assms(2) bare by (simp_all add: placeable_def Let_def)
    then show ?thesis using bare rel [of rest] by (simp only: placed_def workspace_relative_def nf option.case prod.case Let_def v append_Nil)
  next
    case scheme
    then have v: "v = ''file://%workspace%'' @ rest" by (simp add: strip_prefix_eq_Some)
    have i: "rest = [] \<or> starts_with ''/'' rest" "stays_inside fs root rest" using assms(2) scheme by (simp_all add: placeable_def Let_def)
    have p: "placed root v = ''file://'' @ root @ rest" using scheme by (simp add: placed_def)
    show ?thesis unfolding p workspace_relative_def strip_prefix_append option.case prod.case Let_def rel [OF i] by (simp add: v)
  next
    case other
    then show ?thesis using assms(2) by (simp add: placeable_def placed_def Let_def)
  qed
qed

text \<open>
  C32: the definition of a repository does not depend on where the workspace is checked out. Attributes whose paths point below the root,
  in either spelling, and stay inside it, give two checkouts the same prepared repository and the same definition digest, whatever their roots,
  when the local files behind them have the same digests.
\<close>

theorem definition_checkout_independent:
  assumes "\<forall>i \<in> {1, 2::nat}. workspace_roots (fs i) (ws i) = [root i] \<and> starts_with ''/'' (root i)"
    and "\<forall>i \<in> {1, 2::nat}. \<forall>a \<in> set (rp_attribute r). \<forall>v \<in> set (strings_of a). placeable (fs i) (root i) v"
    and "\<forall>i \<in> {1, 2::nat}. prep i = prepare_repository c (fs i) (ws i) (r\<lparr>rp_attribute := map (map_strings (placed (root i))) (rp_attribute r)\<rparr>)"
    and "fst (prep 1) = fst (prep 2)"
  shows "repository_definition_hash c encode (snd (prep 1)) (fst (prep 1)) = repository_definition_hash c encode (snd (prep 2)) (fst (prep 2)) \<and>
    snd (prep 1) = r"
proof -
  have "snd (prep i) = r" if i: "i \<in> {1, 2}" for i
  proof -
    have "map_strings (workspace_relative (fs i) [root i]) (map_strings (placed (root i)) a) = a" if "a \<in> set (rp_attribute r)" for a
      using assms(1,2) i that by (intro map_strings_id workspace_relative_placed) auto
    then have "map (normalize_workspace_attribute (fs i) [root i]) (map (map_strings (placed (root i))) (rp_attribute r)) = rp_attribute r"
      by (simp add: normalize_map_strings map_idI)
    then show ?thesis using assms(1,3) i by (auto simp: prepare_repository_def)
  qed
  then show ?thesis using assms(4) by simp
qed

subsection \<open>Concrete repositories\<close>

definition checkout :: "string \<Rightarrow> file_system" where
  "checkout root =
     \<lparr>fs_is_file = (\<lambda>_. False), fs_is_dir = (\<lambda>p. p = root), fs_exists = (\<lambda>p. p = root), fs_read = (\<lambda>_. None),
      fs_directory_bytes = (\<lambda>_. None), fs_walk = (\<lambda>_. []), fs_canonicalize = (\<lambda>p. if p = root then Some root else None)\<rparr>"

definition repository_named :: "string \<Rightarrow> repository" where
  "repository_named canonical =
     \<lparr>rp_canonical_name = Some canonical, rp_repo_rule_name = None, rp_apparent_name = None, rp_module_key = None, rp_original_name = None,
      rp_attribute = [attribute_default\<lparr>at_name := ''local_path'', at_type := STRING, at_string_value := Some ''file://%workspace%/a''\<rparr>]\<rparr>"

lemma usage_prefix_examples:
  "extension_usage_prefix ''m++ext+hub'' = Some ''m++ext''" "extension_usage_prefix ''m++ext+spoke'' = Some ''m++ext''"
  by code_simp+

theorem lowered_edges_cover_witness:
  "\<exists>tg \<in> set (lower_repositories crates_ref (\<lambda>_. []) (checkout ''/w'') ''/w'' [repository_named ''m++ext+hub'', repository_named ''m++ext+spoke''] [] []
      (Some [''m++ext+hub'']) \<lparr>lo_sibling_extensions = [], lo_owner_exemptions = []\<rparr>).
     lowered_name tg = external_label ''m++ext+hub'' \<and> external_label ''m++ext+spoke'' \<in> set (lowered_inputs tg)"
  by (rule lowered_edges_cover [where r = "repository_named ''m++ext+hub''" and s = "repository_named ''m++ext+spoke''" and ext = "''m++ext''"])
    (simp_all add: repository_named_def canonical_of_def node_names_def usage_prefix_examples)

theorem spokes_are_leaves_witness:
  "concat (map lowered_inputs (lower_repository (env_of crates_ref (\<lambda>_. []) (checkout ''/w'') ''/w''
      [repository_named ''m++ext+hub'', repository_named ''m++ext+spoke''] [] [] (Some [''m++ext+hub''])
      \<lparr>lo_sibling_extensions = [], lo_owner_exemptions = []\<rparr>)
      [repository_named ''m++ext+hub'', repository_named ''m++ext+spoke'']
      (snd (prepare_repository crates_ref (checkout ''/w'') ''/w'' (repository_named ''m++ext+spoke'')),
       fst (prepare_repository crates_ref (checkout ''/w'') ''/w'' (repository_named ''m++ext+spoke''))))) = []"
  unfolding concat_eq_Nil_conv set_map ball_simps
  by (intro ballI, rule spokes_are_leaves [where r = "repository_named ''m++ext+spoke''" and imported = "[''m++ext+hub'']"
        and repositories = "[repository_named ''m++ext+hub'', repository_named ''m++ext+spoke'']"])
    (assumption | simp add: repository_named_def canonical_of_def usage_prefix_examples)+

definition prepared_at :: "string \<Rightarrow> repository_files \<times> repository" where
  "prepared_at root = prepare_repository crates_ref (checkout root) root
     ((repository_named ''m'')\<lparr>rp_attribute := map (map_strings (placed root)) (rp_attribute (repository_named ''m''))\<rparr>)"

lemma checkouts_inside:
  "workspace_roots (checkout ''/w'') ''/w'' = [''/w'']" "workspace_roots (checkout ''/o/v'') ''/o/v'' = [''/o/v'']"
  "placeable (checkout ''/w'') ''/w'' ''file://%workspace%/a''" "placeable (checkout ''/o/v'') ''/o/v'' ''file://%workspace%/a''"
  "strings_of (hd (rp_attribute (repository_named ''m''))) = [''file://%workspace%/a'']"
  "fst (prepared_at ''/w'') = fst (prepared_at ''/o/v'')"
  by code_simp+

theorem definition_checkout_independent_witness:
  "repository_definition_hash crates_ref (\<lambda>_. []) (snd (prepared_at ''/w'')) (fst (prepared_at ''/w'')) =
   repository_definition_hash crates_ref (\<lambda>_. []) (snd (prepared_at ''/o/v'')) (fst (prepared_at ''/o/v'')) \<and>
   snd (prepared_at ''/w'') = repository_named ''m''"
proof -
  let ?root = "\<lambda>i::nat. if i = 1 then ''/w'' else ''/o/v''"
  have ats: "rp_attribute (repository_named ''m'') = [hd (rp_attribute (repository_named ''m''))]" by (simp add: repository_named_def)
  have roots: "\<forall>i \<in> {1, 2::nat}. workspace_roots (checkout (?root i)) (?root i) = [?root i] \<and> starts_with ''/'' (?root i)"
    by (simp add: checkouts_inside starts_with_def)
  have inside: "\<forall>i \<in> {1, 2::nat}. \<forall>a \<in> set (rp_attribute (repository_named ''m'')). \<forall>v \<in> set (strings_of a). placeable (checkout (?root i)) (?root i) v"
    by (subst ats) (simp add: checkouts_inside)
  have prep: "\<forall>i \<in> {1, 2::nat}. prepared_at (?root i) = prepare_repository crates_ref (checkout (?root i)) (?root i)
      ((repository_named ''m'')\<lparr>rp_attribute := map (map_strings (placed (?root i))) (rp_attribute (repository_named ''m''))\<rparr>)"
    by (simp add: prepared_at_def)
  have files: "fst (prepared_at (?root 1)) = fst (prepared_at (?root 2))" by (simp add: checkouts_inside)
  show ?thesis by (rule definition_checkout_independent [OF roots inside prep files, of "\<lambda>_. []", simplified])
qed

end
