(* ===== verification/Discovery.thy ===== *)
theory Discovery
  imports Mod_Answers Repositories
begin

section \<open>Finding and describing repositories (bazel.rs)\<close>

text \<open>
  How \<^verbatim>\<open>src/bazel.rs\<close> learns which repositories a workspace has: the mappings of the modules name the repositories they
  import from module extensions, one repository of each such extension names its siblings, and every name is then
  described either one by one or out of one answer for all repositories. Decoding a record is a
  parameter, like Bazel itself.
\<close>

type_synonym repo_mapping = "(string, string) btree"

subsection \<open>Mappings of modules\<close>

text \<open>The loop over the names takes a mapping out of the prefetched ones, so that a repeated name is missing.\<close>

fun take_prefetched :: "(string, repo_mapping) btree \<Rightarrow> string list \<Rightarrow> repo_mapping option list \<times> string list" where
  "take_prefetched prefetched [] = ([], [])"
| "take_prefetched prefetched (repo # repos) =
     (let (mappings, missing) = take_prefetched (filter (\<lambda>(name, _). name \<noteq> repo) prefetched) repos
      in case bt_get prefetched repo of
           None \<Rightarrow> (None # mappings, repo # missing)
         | Some mapping \<Rightarrow> (Some mapping # mappings, missing))"

text \<open>Nothing stands for the panic of \<^verbatim>\<open>expect\<close>.\<close>

fun fill_missing :: "repo_mapping option list \<Rightarrow> repo_mapping list \<Rightarrow> repo_mapping list option" where
  "fill_missing [] answers = Some []"
| "fill_missing (Some mapping # mappings) answers = map_option ((#) mapping) (fill_missing mappings answers)"
| "fill_missing (None # mappings) [] = None"
| "fill_missing (None # mappings) (answer # answers) = map_option ((#) answer) (fill_missing mappings answers)"

definition module_mappings ::
  "'w bazel_mod \<Rightarrow> json_parser \<Rightarrow> string list \<Rightarrow> (string, repo_mapping) btree \<Rightarrow> failed_extensions \<Rightarrow> bool \<Rightarrow> 'w \<Rightarrow>
   ((mod_error + repo_mapping list) \<times> failed_extensions \<times> bool \<times> 'w) option" where
  "module_mappings b from_str repos prefetched failed complete w =
     (if prefetched = [] then dump_repo_mappings b from_str repos failed complete w
      else
        (let (mappings, missing) = take_prefetched prefetched repos
         in Option.bind (dump_repo_mappings b from_str missing failed True w) (\<lambda>r.
              case r of
                (Inl err, failed', _, w') \<Rightarrow> Some (Inl err, failed', complete, w')
              | (Inr answers, failed', complete_missing, w') \<Rightarrow>
                  if \<not> complete_missing then dump_repo_mappings b from_str repos failed' complete w'
                  else (case fill_missing mappings answers of
                          None \<Rightarrow> Some (Inl (Panicked ''one answer per missing module''), failed', complete, w')
                        | Some all \<Rightarrow> Some (Inr all, failed', complete, w')))))"

subsection \<open>Repositories of extensions\<close>

record extension_repositories_found =
  er_imported :: "string list"
  er_generated :: "string list"
  er_complete_mappings :: bool
  er_module_mappings :: "(string, repo_mapping) btree"

definition mapped_names :: "repo_mapping list \<Rightarrow> string list" where
  "mapped_names mappings = concat (map (map snd) mappings)"

definition add_representative :: "string \<Rightarrow> (string, string) btree \<Rightarrow> (string, string) btree" where
  "add_representative canonical t =
     (case rsplit_once (CHR ''+'') canonical of
        None \<Rightarrow> t
      | Some (usage, _) \<Rightarrow> if bt_get t usage = None then bt_insert usage canonical t else t)"

definition representatives_of :: "string list \<Rightarrow> (string, string) btree" where
  "representatives_of imported = fold add_representative imported []"

definition represented :: "(string, string) btree \<Rightarrow> string \<Rightarrow> bool" where
  "represented representatives canonical =
     (case rsplit_once (CHR ''+'') canonical of None \<Rightarrow> False | Some (usage, _) \<Rightarrow> bt_get representatives usage \<noteq> None)"

text \<open>One call per representative, after the call for all of them failed.\<close>

fun one_by_one ::
  "'w bazel_mod \<Rightarrow> json_parser \<Rightarrow> string list \<Rightarrow> failed_extensions \<Rightarrow> bool \<Rightarrow> repo_mapping list \<Rightarrow> 'w \<Rightarrow>
   ((mod_error + repo_mapping list) \<times> failed_extensions \<times> bool \<times> 'w) option" where
  "one_by_one b from_str [] failed complete mappings w = Some (Inr mappings, failed, complete, w)"
| "one_by_one b from_str (name # names) failed complete mappings w =
     Option.bind (dump_repo_mappings b from_str [name] failed complete w) (\<lambda>r.
       case r of
         (Inr mapping, failed', complete', w') \<Rightarrow> one_by_one b from_str names failed' complete' (mappings @ mapping) w'
       | (Inl err, failed', complete', w') \<Rightarrow>
           if bm_keep_going b then one_by_one b from_str names failed' complete' mappings w'
           else Some (Inl err, failed', complete', w'))"

definition sibling_mappings ::
  "'w bazel_mod \<Rightarrow> json_parser \<Rightarrow> string list \<Rightarrow> failed_extensions \<Rightarrow> 'w \<Rightarrow>
   ((mod_error + repo_mapping list) \<times> failed_extensions \<times> bool \<times> 'w) option" where
  "sibling_mappings b from_str names failed w =
     (if names = [] then Some (Inr [], failed, True, w)
      else Option.bind (dump_repo_mappings b from_str names failed True w) (\<lambda>r.
        case r of
          (Inr mappings, failed', complete, w') \<Rightarrow> Some (Inr mappings, failed', complete, w')
        | (Inl _, failed', _, w') \<Rightarrow>
            map_option (\<lambda>(r, failed'', _, w''). (r, failed'', False, w'')) (one_by_one b from_str names failed' False [] w')))"

text \<open>The mappings of the modules, of the visible ones only when the derived names of hidden ones are refused.\<close>

definition all_module_mappings ::
  "'w bazel_mod \<Rightarrow> json_parser \<Rightarrow> string list \<Rightarrow> string list \<Rightarrow> (string, repo_mapping) btree \<Rightarrow> failed_extensions \<Rightarrow> bool \<Rightarrow> 'w \<Rightarrow>
   ((mod_error + repo_mapping list) \<times> failed_extensions \<times> bool \<times> 'w) option" where
  "all_module_mappings b from_str visible hidden prefetched failed complete w =
     (if visible @ hidden = [] then Some (Inr [], failed, complete, w)
      else Option.bind (module_mappings b from_str (visible @ hidden) prefetched failed complete w) (\<lambda>r.
        case r of
          (Inr mappings, failed', complete', w') \<Rightarrow> Some (Inr mappings, failed', complete', w')
        | (Inl err, failed', complete', w') \<Rightarrow>
            if hidden \<noteq> [] then dump_repo_mappings b from_str visible failed' False w'
            else Some (Inl err, failed', complete', w')))"

definition extension_repositories ::
  "'w bazel_mod \<Rightarrow> json_parser \<Rightarrow> (string, string list) btree \<Rightarrow> string list \<Rightarrow> (string, repo_mapping) btree \<Rightarrow> bool \<Rightarrow> failed_extensions \<Rightarrow> 'w \<Rightarrow>
   ((mod_error + extension_repositories_found) \<times> failed_extensions \<times> 'w) option" where
  "extension_repositories b from_str canonical_to_apparent hidden prefetched complete_inputs failed w =
     (let visible = filter (\<lambda>canonical. \<not> is_extension_repo canonical) (bt_keys canonical_to_apparent);
          module_repos = visible @ hidden
      in Option.bind (all_module_mappings b from_str visible hidden prefetched failed (complete_inputs \<and> failed_is_empty failed) w) (\<lambda>r.
           case r of
             (Inl err, failed1, _, w1) \<Rightarrow> Some (Inl err, failed1, w1)
           | (Inr mappings, failed1, complete1, w1) \<Rightarrow>
               (let imported = filter (\<lambda>canonical. \<not> has_unavailable_mapping failed1 canonical)
                      (bs_of_list (filter is_extension_repo (bt_keys canonical_to_apparent @ mapped_names mappings)));
                    complete_mappings = (complete1 \<and> (module_repos = [] \<or> length mappings = length module_repos));
                    bound = (if module_repos \<noteq> [] \<and> complete_mappings \<and> hidden \<noteq> [] then bt_of_list (zip module_repos mappings) else []);
                    representatives = representatives_of imported
                in Option.bind (sibling_mappings b from_str (map snd representatives) failed1 w1) (\<lambda>r2.
                     case r2 of
                       (Inl err, failed2, _, w2) \<Rightarrow> Some (Inl err, failed2, w2)
                     | (Inr siblings, failed2, complete_spokes, w2) \<Rightarrow>
                         (let available = filter (\<lambda>canonical. \<not> has_unavailable_mapping failed2 canonical);
                              all_complete = (complete_mappings \<and> complete_spokes)
                          in Some (Inr \<lparr>er_imported = available imported,
                                     er_generated = available (bs_of_list (imported @ filter (represented representatives) (mapped_names siblings))),
                                     er_complete_mappings = all_complete,
                                     er_module_mappings = (if all_complete then bound else [])\<rparr>, failed2, w2))))))"


subsection \<open>Extensions used through labels only\<close>

definition extension_id :: "string \<Rightarrow> (string \<times> string) option" where
  "extension_id ident =
     Option.bind (rsplit_once (CHR ''%'') ident) (\<lambda>(file, name).
       Option.bind (split_once_str ''//'' file) (\<lambda>(repo, _). if name = [] then None else Some (repo, name)))"

definition canonical_of_repo :: "(string, string list) btree \<Rightarrow> string \<Rightarrow> string option" where
  "canonical_of_repo canonical_to_apparent repo =
     (case strip_prefix ''@@'' repo of
        Some canonical \<Rightarrow> Some canonical
      | None \<Rightarrow> map_option fst (find (\<lambda>(_, names). trim_start_matches (CHR ''@'') repo \<in> set names) canonical_to_apparent))"

definition disambiguated :: "string list \<Rightarrow> string \<Rightarrow> bool" where
  "disambiguated in_use usage =
     list_ex (\<lambda>other. case strip_prefix usage other of None \<Rightarrow> False | Some digits \<Rightarrow> digits \<noteq> [] \<and> list_all is_ascii_digit digits) in_use"

definition label_only_prefix :: "(string, string list) btree \<Rightarrow> string list \<Rightarrow> string \<Rightarrow> string option" where
  "label_only_prefix canonical_to_apparent in_use ident =
     Option.bind (extension_id ident) (\<lambda>(repo, name).
       Option.bind (canonical_of_repo canonical_to_apparent repo) (\<lambda>canonical.
         let usage = canonical @ ''+'' @ name
         in if usage \<notin> set in_use \<or> disambiguated in_use usage then None else Some usage))"

definition label_only_extension_prefixes :: "string list \<Rightarrow> (string, string list) btree \<Rightarrow> string list \<Rightarrow> string list" where
  "label_only_extension_prefixes idents canonical_to_apparent repos =
     (let in_use = bs_of_list (List.map_filter extension_usage_prefix repos)
      in bs_of_list (List.map_filter (label_only_prefix canonical_to_apparent in_use) idents))"

subsection \<open>Descriptions\<close>

text \<open>
  \<^verbatim>\<open>decode_delimited\<close>: records until the input is empty. Reading a record takes at least the byte of its length, so the
  length of the input bounds the number of records.
\<close>

fun decode_delimited_fuel :: "nat \<Rightarrow> (string \<Rightarrow> string + 'm \<times> string) \<Rightarrow> string \<Rightarrow> string + 'm list" where
  "decode_delimited_fuel fuel read [] = Inr []"
| "decode_delimited_fuel 0 read (c # input) = Inl ''record without a length''"
| "decode_delimited_fuel (Suc fuel) read (c # input) =
     (case read (c # input) of
        Inl err \<Rightarrow> Inl err
      | Inr (message, rest) \<Rightarrow> (case decode_delimited_fuel fuel read rest of Inl err \<Rightarrow> Inl err | Inr messages \<Rightarrow> Inr (message # messages)))"

definition decode_delimited :: "(string \<Rightarrow> string + 'm \<times> string) \<Rightarrow> string \<Rightarrow> string + 'm list" where
  "decode_delimited read input = decode_delimited_fuel (length input) read input"

type_synonym repository_reader = "string \<Rightarrow> string + repository \<times> string"

definition show_attempt :: "'w bazel_mod \<Rightarrow> ('w, string) attempt" where
  "show_attempt b names w =
     (case run_capture b ([''mod'', ''show_repo''] @ names @ [''--output=streamed_proto'']) w of
        (Inl err, w') \<Rightarrow> (Inl err, w')
      | (Inr out, w') \<Rightarrow> (Inr (mo_success out, mo_stderr out, mo_stdout out), w'))"

fun show_chunks ::
  "'w bazel_mod \<Rightarrow> repository_reader \<Rightarrow> string list list \<Rightarrow> failed_extensions \<Rightarrow> repository list \<Rightarrow> 'w \<Rightarrow>
   ((mod_error + repository list) \<times> failed_extensions \<times> 'w) option" where
  "show_chunks b read [] failed repositories w = Some (Inr repositories, failed, w)"
| "show_chunks b read (chunk # chunks) failed repositories w =
     Option.bind (run_mod_over_repos b ''show_repo'' chunk failed (show_attempt b) w) (\<lambda>r.
       case r of
         (Inl err, failed', w') \<Rightarrow> Some (Inl err, failed', w')
       | (Inr None, failed', w') \<Rightarrow> show_chunks b read chunks failed' repositories w'
       | (Inr (Some out), failed', w') \<Rightarrow>
           (case decode_delimited read out of
              Inl err \<Rightarrow> Some (Inl (BadOutput err), failed', w')
            | Inr found \<Rightarrow> show_chunks b read chunks failed' (repositories @ found) w'))"

definition show_repositories_explicit ::
  "'w bazel_mod \<Rightarrow> repository_reader \<Rightarrow> string list \<Rightarrow> failed_extensions \<Rightarrow> nat \<Rightarrow> 'w \<Rightarrow>
   ((mod_error + repository list) \<times> failed_extensions \<times> 'w) option" where
  "show_repositories_explicit b read canonical_names failed budget w =
     show_chunks b read (chunk_arguments canonical_names budget) failed [] w"

record bulk_repositories =
  bk_by_canonical :: "(string, repository) btree"
  bk_complete :: bool

text \<open>One record of the answer for all repositories: a later record replaces an earlier one of the same name.\<close>

definition add_bulk :: "failed_extensions \<Rightarrow> repository \<Rightarrow> bulk_repositories \<Rightarrow> bulk_repositories" where
  "add_bulk failed r bulk =
     (case rp_canonical_name r of
        None \<Rightarrow> bulk\<lparr>bk_complete := False\<rparr>
      | Some name \<Rightarrow>
          (let canonical = trim_start_matches (CHR ''@'') name
           in if has_unavailable_mapping failed canonical then bulk
              else \<lparr>bk_by_canonical = bt_insert canonical r (bk_by_canonical bulk),
                    bk_complete = (bk_complete bulk \<and> bt_get (bk_by_canonical bulk) canonical = None)\<rparr>))"

definition show_all_repositories ::
  "'w bazel_mod \<Rightarrow> repository_reader \<Rightarrow> failed_extensions \<Rightarrow> 'w \<Rightarrow> (mod_error + bulk_repositories option) \<times> failed_extensions \<times> 'w" where
  "show_all_repositories b read failed w =
     (case run_capture b [''mod'', ''show_repo'', ''--all_repos'', ''--output=streamed_proto''] w of
        (Inl err, w') \<Rightarrow> (Inl err, failed, w')
      | (Inr out, w') \<Rightarrow>
          (let (answered, failed') =
                 (if mo_success out then (True, failed)
                  else case extension_failure_of (mo_stderr out) of
                         Some failure \<Rightarrow> (ef_answered failure, note_failed_extensions (ef_extensions failure) failed)
                       | None \<Rightarrow> (False, failed))
           in if \<not> answered then (Inr None, failed', w')
              else case decode_delimited read (mo_stdout out) of
                     Inl err \<Rightarrow> (Inl (BadOutput err), failed', w')
                   | Inr found \<Rightarrow>
                       (Inr (Some (fold (add_bulk failed') found
                          \<lparr>bk_by_canonical = [], bk_complete = (mo_success out \<and> failed_is_empty failed')\<rparr>)), failed', w')))"

definition hidden_record :: "(string, string) btree \<Rightarrow> (string, repository) btree \<Rightarrow> string \<Rightarrow> repository option" where
  "hidden_record bindings by_canonical key =
     Option.bind (bt_get bindings key) (\<lambda>name. Option.bind (bt_get by_canonical name) (\<lambda>r.
       if rp_module_key r \<noteq> None \<or> rp_apparent_name r \<noteq> None then None else Some (r\<lparr>rp_module_key := Some key\<rparr>)))"

fun take_records :: "string list \<Rightarrow> (string, repository) btree \<Rightarrow> repository list" where
  "take_records [] by_canonical = []"
| "take_records (name # names) by_canonical =
     (let canonical = trim_start_matches (CHR ''@'') name; rest = take_records names (filter (\<lambda>(k, _). k \<noteq> canonical) by_canonical)
      in case bt_get by_canonical canonical of None \<Rightarrow> rest | Some r \<Rightarrow> r # rest)"

text \<open>
  \<^verbatim>\<open>show_repositories_within\<close>. The names are sorted, so those that start with \<^verbatim>\<open>@@\<close> come first. \<open>hidden_bindings\<close> is what the closure of that name
  returns, and \<open>cancelled\<close> the error of \<^verbatim>\<open>check_cancelled\<close>.
\<close>

definition show_repositories_within ::
  "'w bazel_mod \<Rightarrow> repository_reader \<Rightarrow> ('w \<Rightarrow> mod_error option) \<Rightarrow> string list \<Rightarrow> failed_extensions \<Rightarrow> nat \<Rightarrow> (string, string) btree option \<Rightarrow> 'w \<Rightarrow>
   ((mod_error + repository list) \<times> failed_extensions \<times> 'w) option" where
  "show_repositories_within b read cancelled canonical_names failed budget hidden_bindings w =
     (let canonical = takeWhile (starts_with ''@@'') canonical_names;
          hidden = dropWhile (starts_with ''@@'') canonical_names;
          explicit = (\<lambda>failed' w'. case cancelled w' of
            Some err \<Rightarrow> Some (Inl err, failed', w')
          | None \<Rightarrow> show_repositories_explicit b read canonical_names failed' budget w')
      in if names_cost canonical \<le> budget then show_repositories_explicit b read canonical_names failed budget w
         else case show_all_repositories b read failed w of
                (Inl _, failed', w') \<Rightarrow> explicit failed' w'
              | (Inr None, failed', w') \<Rightarrow> explicit failed' w'
              | (Inr (Some bulk), failed', w') \<Rightarrow>
                  (let records = take_records canonical (bk_by_canonical bulk);
                       hidden_records = (if bk_complete bulk
                         then Option.bind hidden_bindings (\<lambda>bindings. those (map (hidden_record bindings (bk_by_canonical bulk)) hidden))
                         else None)
                   in case hidden_records of
                        Some found \<Rightarrow> Some (Inr (records @ found), failed', w')
                      | None \<Rightarrow>
                          Option.bind (show_repositories_explicit b read hidden failed' budget w') (\<lambda>r.
                            case r of
                              (Inl err, failed'', w'') \<Rightarrow> Some (Inl err, failed'', w'')
                            | (Inr found, failed'', w'') \<Rightarrow> Some (Inr (records @ found), failed'', w''))))"

subsection \<open>Exact answers\<close>

text \<open>
  What Bazel documents of \<^verbatim>\<open>mod dump_repo_mapping\<close>: it answers with one mapping per name, in order, unless one of the names belongs to an
  extension that cannot be evaluated.
\<close>

definition dumps_exactly ::
  "'w bazel_mod \<Rightarrow> json_parser \<Rightarrow> (string \<Rightarrow> bool) \<Rightarrow> (string \<Rightarrow> repo_mapping) \<Rightarrow> (string list \<Rightarrow> string) \<Rightarrow> bool" where
  "dumps_exactly b from_str broken mapping_of render \<longleftrightarrow>
     (\<forall>r. broken (trim_start_matches (CHR ''@'') r) = broken r) \<and> (\<forall>r. broken r \<longrightarrow> is_extension_repo r) \<and>
     (\<forall>repos w. \<exists>stderr w'. bm_run b ([''mod'', ''dump_repo_mapping''] @ repos) w =
          (Inr \<lparr>mo_success = list_all (\<lambda>r. \<not> broken r) repos, mo_stdout = render repos, mo_stderr = stderr\<rparr>, w') \<and>
        (list_all (\<lambda>r. \<not> broken r) repos \<or> fails_unanswered stderr)) \<and>
     (\<forall>repos. list_all (\<lambda>r. \<not> broken r) repos \<longrightarrow> mapping_lines from_str (render repos) = map (\<lambda>r. Some (mapping_of r)) repos)"

definition available_names :: "failed_extensions \<Rightarrow> (string \<Rightarrow> bool) \<Rightarrow> string list \<Rightarrow> string list" where
  "available_names failed broken repos = filter (\<lambda>r. \<not> has_unavailable_mapping failed r \<and> \<not> broken (trim_start_matches (CHR ''@'') r)) repos"

lemma dumps_exactlyD:
  assumes "dumps_exactly b from_str broken mapping_of render"
  shows "maps_exactly b broken" "broken r \<Longrightarrow> is_extension_repo r" "broken (trim_start_matches (CHR ''@'') r) = broken r"
    "answers_exactly UNIV (mapping_attempt b chunk) broken (\<lambda>repos. (render repos, list_all (\<lambda>r. \<not> broken r) repos \<and> repos = chunk))"
    "list_all (\<lambda>r. \<not> broken r) repos \<Longrightarrow> mapping_lines from_str (render repos) = map (\<lambda>r. Some (mapping_of r)) repos"
proof -
  note d = assms [unfolded dumps_exactly_def]
  show "broken r \<Longrightarrow> is_extension_repo r" "broken (trim_start_matches (CHR ''@'') r) = broken r"
    "list_all (\<lambda>r. \<not> broken r) repos \<Longrightarrow> mapping_lines from_str (render repos) = map (\<lambda>r. Some (mapping_of r)) repos"
    using d by blast+
  have run: "\<exists>stderr w'. bm_run b ([''mod'', ''dump_repo_mapping''] @ repos) w =
          (Inr \<lparr>mo_success = list_all (\<lambda>r. \<not> broken r) repos, mo_stdout = render repos, mo_stderr = stderr\<rparr>, w') \<and>
        (list_all (\<lambda>r. \<not> broken r) repos \<or> fails_unanswered stderr)" for repos w using d by blast
  show "maps_exactly b broken" unfolding maps_exactly_def
  proof (intro allI)
    fix repos w
    show "\<exists>out w'. bm_run b ([''mod'', ''dump_repo_mapping''] @ repos) w = (Inr out, w') \<and>
        mo_success out = list_all (\<lambda>r. \<not> broken r) repos \<and> (\<not> mo_success out \<longrightarrow> fails_unanswered (mo_stderr out))"
      using run [of repos w] by fastforce
  qed
  have t: "(\<lambda>r. \<not> broken (trim_start_matches (CHR ''@'') r)) = (\<lambda>r. \<not> broken r)" using d by simp
  show "answers_exactly UNIV (mapping_attempt b chunk) broken (\<lambda>repos. (render repos, list_all (\<lambda>r. \<not> broken r) repos \<and> repos = chunk))"
    unfolding answers_exactly_def t
  proof (intro allI impI)
    fix repos w
    show "\<exists>stderr w'. mapping_attempt b chunk repos w =
          (Inr (list_all (\<lambda>r. \<not> broken r) repos, stderr, render repos, list_all (\<lambda>r. \<not> broken r) repos \<and> repos = chunk), w') \<and>
        (list_all (\<lambda>r. \<not> broken r) repos \<or> fails_unanswered stderr)"
      using run [of repos w] by (fastforce simp: mapping_attempt_def run_capture_def)
  qed
qed

lemma available_after:
  assumes "set (fe_unavailable failed') = set (fe_unavailable failed) \<union> {r \<in> A. broken r}"
  shows "available_names failed' broken repos = available_names failed broken repos"
  using assms by (auto simp: available_names_def has_unavailable_mapping_def intro!: filter_cong)

lemma dump_chunks_exact:
  assumes "dumps_exactly b from_str broken mapping_of render"
  shows "list_all (\<lambda>c. c \<noteq> []) chunks \<Longrightarrow>
   \<exists>failed' w'. dump_chunks b from_str chunks failed complete mappings w =
      Some (Inr (mappings @ map mapping_of (available_names failed broken (concat chunks))), failed',
        complete \<and> available_names failed broken (concat chunks) = concat chunks, w') \<and>
      set (fe_unavailable failed') = set (fe_unavailable failed) \<union> {r \<in> trim_start_matches (CHR ''@'') ` set (concat chunks). broken r}"
proof (induction chunks arbitrary: failed complete mappings w)
  case Nil
  then show ?case by (simp add: available_names_def)
next
  case (Cons chunk chunks)
  note D = dumps_exactlyD [OF assms]
  let ?av = "available_names failed broken chunk" and ?rest = "available_names failed broken (concat chunks)"
  obtain f1 w1 where r: "run_mod_over_repos b ''dump_repo_mapping'' chunk failed (mapping_attempt b chunk) w =
      Some (Inr (if ?av = [] then None else Some (render ?av, list_all (\<lambda>r. \<not> broken r) ?av \<and> ?av = chunk)), f1, w1)"
      and u: "set (fe_unavailable f1) = set (fe_unavailable failed) \<union> {r \<in> trim_start_matches (CHR ''@'') ` set chunk. broken r}"
    using run_mod_exact [OF D(1,2) D(4) [of chunk] subset_UNIV, of "''dump_repo_mapping''" chunk failed w] unfolding available_names_def Let_def by auto
  have ok: "list_all (\<lambda>r. \<not> broken r) ?av" using D(3) by (simp add: available_names_def list_all_iff)
  have lines: "mapping_lines from_str (render ?av) = map (\<lambda>r. Some (mapping_of r)) ?av" by (rule D(5) [OF ok])
  have found: "List.map_filter id (map (\<lambda>r. Some (mapping_of r)) ?av) = map mapping_of ?av" by (simp add: map_filter_def comp_def)
  have all: "available_names failed broken (concat (chunk # chunks)) = concat (chunk # chunks) \<longleftrightarrow> ?av = chunk \<and> ?rest = concat chunks"
    by (simp only: available_names_def filter_id_conv concat.simps set_append ball_Un)
  let ?c = "complete \<and> ?av = chunk"
  have step: "dump_chunks b from_str (chunk # chunks) failed complete mappings w = dump_chunks b from_str chunks f1 ?c (mappings @ map mapping_of ?av) w1"
  proof (cases "?av = []")
    case True
    moreover have "chunk \<noteq> []" using Cons.prems by simp
    ultimately show ?thesis using r by simp
  next
    case False
    have f: "List.map_filter id (mapping_lines from_str (render ?av)) = map mapping_of ?av" unfolding lines by (rule found)
    have "length (map mapping_of ?av) = length chunk" if "?av = chunk" using that by simp
    moreover have "None \<notin> set (mapping_lines from_str (render ?av))" unfolding lines by auto
    ultimately have c: "(complete \<and> (list_all (\<lambda>r. \<not> broken r) ?av \<and> ?av = chunk) \<and> None \<notin> set (mapping_lines from_str (render ?av)) \<and>
        length (map mapping_of ?av) = length chunk) = ?c" using ok by blast
    show ?thesis unfolding dump_chunks.simps r by (simp only: False if_False Option.bind.simps prod.case sum.case option.case Let_def f c)
  qed
  have "list_all (\<lambda>c. c \<noteq> []) chunks" using Cons.prems by simp
  then obtain f2 w2 where e: "dump_chunks b from_str chunks f1 ?c (mappings @ map mapping_of ?av) w1 =
        Some (Inr ((mappings @ map mapping_of ?av) @ map mapping_of ?rest), f2, ?c \<and> ?rest = concat chunks, w2)"
      and u2: "set (fe_unavailable f2) = set (fe_unavailable f1) \<union> {r \<in> trim_start_matches (CHR ''@'') ` set (concat chunks). broken r}"
    using Cons.IH [of f1 ?c "mappings @ map mapping_of ?av" w1] unfolding available_after [OF u] by blast
  have "set (fe_unavailable f2) = set (fe_unavailable failed) \<union> {r \<in> trim_start_matches (CHR ''@'') ` set (concat (chunk # chunks)). broken r}"
    unfolding u2 u concat.simps set_append image_Un by blast
  moreover have "available_names failed broken (concat (chunk # chunks)) = ?av @ ?rest" by (simp add: available_names_def)
  ultimately show ?case unfolding step e all by (intro exI [of _ f2] exI [of _ w2]) simp
qed

lemma dump_exact:
  assumes "dumps_exactly b from_str broken mapping_of render"
  shows "\<exists>failed' w'. dump_repo_mappings b from_str repos failed complete w =
      Some (Inr (map mapping_of (available_names failed broken repos)), failed', complete \<and> available_names failed broken repos = repos, w') \<and>
      set (fe_unavailable failed') = set (fe_unavailable failed) \<union> {r \<in> trim_start_matches (CHR ''@'') ` set repos. broken r}"
proof -
  have "list_all (\<lambda>c. c \<noteq> []) (chunk_arguments repos (bm_budget b))"
    using chunk_arguments_fit [of "bm_budget b" repos] by (auto simp: list_all_iff fits_def)
  from dump_chunks_exact [OF assms this, of failed complete "[]" w] show ?thesis
    unfolding dump_repo_mappings_def chunk_arguments_concat by simp
qed

lemma fill_prefetched:
  assumes "\<And>k v. bt_get prefetched k = Some v \<Longrightarrow> v = mapping_of k"
  shows "fill_missing (fst (take_prefetched prefetched repos)) (map mapping_of (snd (take_prefetched prefetched repos))) = Some (map mapping_of repos) \<and>
    set (snd (take_prefetched prefetched repos)) \<subseteq> set repos"
  using assms
proof (induction repos arbitrary: prefetched)
  case (Cons repo repos)
  let ?rest = "filter (\<lambda>(name, _). name \<noteq> repo) prefetched"
  have "bt_get ?rest k = (if k = repo then None else bt_get prefetched k)" for k by (induction prefetched) auto
  then have "v = mapping_of k" if "bt_get ?rest k = Some v" for k v using that Cons.prems by (simp split: if_splits)
  from Cons.IH [OF this] Cons.prems [of repo] show ?case
    by (auto simp: case_prod_unfold Let_def split: option.splits)
qed simp

lemma module_mappings_exact:
  assumes d: "dumps_exactly b from_str broken mapping_of render" and p: "\<And>k v. bt_get prefetched k = Some v \<Longrightarrow> v = mapping_of k"
    and av: "\<And>r. r \<in> set repos \<Longrightarrow> \<not> broken r \<and> \<not> has_unavailable_mapping failed r"
  shows "\<exists>failed' w'. module_mappings b from_str repos prefetched failed complete w = Some (Inr (map mapping_of repos), failed', complete, w') \<and>
    set (fe_unavailable failed') = set (fe_unavailable failed)"
proof -
  have none: "{r \<in> trim_start_matches (CHR ''@'') ` set names. broken r} = {}" "available_names failed broken names = names" if "set names \<subseteq> set repos" for names
    using that av dumps_exactlyD(3) [OF d] by (auto simp: available_names_def filter_id_conv)
  obtain mappings missing where t: "take_prefetched prefetched repos = (mappings, missing)" by fastforce
  have f: "fill_missing mappings (map mapping_of missing) = Some (map mapping_of repos)" "set missing \<subseteq> set repos"
    using fill_prefetched [of prefetched mapping_of repos] p t by simp_all
  have r: "\<exists>failed' w'. dump_repo_mappings b from_str names failed c w = Some (Inr (map mapping_of names), failed', c, w') \<and>
      set (fe_unavailable failed') = set (fe_unavailable failed)" if "set names \<subseteq> set repos" for names c
    using dump_exact [OF d, of names failed c w] none [OF that] by (simp del: set_map)
  show ?thesis
  proof (cases "prefetched = []")
    case True
    then show ?thesis using r [of repos complete] by (simp add: module_mappings_def)
  next
    case False
    obtain f1 w1 where "dump_repo_mappings b from_str missing failed True w = Some (Inr (map mapping_of missing), f1, True, w1)"
        "set (fe_unavailable f1) = set (fe_unavailable failed)" using r [OF f(2), of True] by blast
    then show ?thesis using False f(1) by (simp add: module_mappings_def t)
  qed
qed

subsection \<open>Representatives\<close>

abbreviation usage_of :: "string \<Rightarrow> string option" where
  "usage_of r \<equiv> map_option fst (rsplit_once (CHR ''+'') r)"

lemma representatives_get:
  "bt_get (fold add_representative xs t) u = (case bt_get t u of Some c \<Rightarrow> Some c | None \<Rightarrow> find (\<lambda>c. usage_of c = Some u) xs)"
  by (induction xs arbitrary: t) (auto simp: add_representative_def bt_get_insert split: option.splits)

lemma representatives_inv: "bt_inv t \<Longrightarrow> bt_inv (fold add_representative xs t)"
  by (induction xs arbitrary: t) (auto simp: add_representative_def bt_inv_insert split: option.splits)

lemma representatives_set:
  "c \<in> set (map snd (representatives_of xs)) \<longleftrightarrow> (\<exists>u. find (\<lambda>c. usage_of c = Some u) xs = Some c)"
proof -
  have "bt_inv (representatives_of xs)" by (simp add: representatives_of_def representatives_inv)
  then have "c \<in> set (map snd (representatives_of xs)) \<longleftrightarrow> (\<exists>u. bt_get (representatives_of xs) u = Some c)"
    by (force simp: bt_get_eq_Some)
  then show ?thesis by (simp add: representatives_of_def representatives_get)
qed

lemma represented_iff: "represented (representatives_of xs) s \<longleftrightarrow> (\<exists>c \<in> set xs. usage_of c = usage_of s \<and> usage_of s \<noteq> None)"
proof (cases "rsplit_once (CHR ''+'') s")
  case (Some ab)
  then have s: "usage_of s = Some (fst ab)" by simp
  have "represented (representatives_of xs) s \<longleftrightarrow> find (\<lambda>c. usage_of c = Some (fst ab)) xs \<noteq> None"
    using Some by (cases ab) (simp add: represented_def representatives_of_def representatives_get)
  then show ?thesis unfolding s find_None_iff by blast
qed (simp add: represented_def)

lemma representative_exists:
  assumes "c \<in> set xs" "usage_of c = Some u"
  obtains r where "r \<in> set (map snd (representatives_of xs))" "r \<in> set xs" "usage_of r = Some u"
proof -
  obtain r where "find (\<lambda>c. usage_of c = Some u) xs = Some r"
    using assms find_None_iff [of "\<lambda>c. usage_of c = Some u" xs] by fastforce
  moreover from this have "r \<in> set xs" "usage_of r = Some u" by (auto simp: find_Some_iff)
  ultimately show ?thesis using that representatives_set by blast
qed

lemma representatives_subset: "set (map snd (representatives_of xs)) \<subseteq> set xs"
proof
  fix c assume "c \<in> set (map snd (representatives_of xs))"
  then show "c \<in> set xs" unfolding representatives_set by (auto simp: find_Some_iff)
qed

lemma is_extension_trim: "is_extension_repo (trim_start_matches (CHR ''@'') r) = is_extension_repo r"
  by (induction r) (auto simp: is_extension_repo_def trim_start_matches_def)

lemma mapped_names_set: "set (mapped_names (map f xs)) = (\<Union>x \<in> set xs. snd ` set (f x))"
  by (auto simp: mapped_names_def)

subsection \<open>Every repository of an imported extension is found\<close>

text \<open>
  What Bazel documents of the mappings: an extension is evaluated as a whole, a repository of an extension that can be evaluated
  sees exactly its siblings, and mappings name extension repositories that exist.
\<close>

definition sees_siblings :: "(string \<Rightarrow> bool) \<Rightarrow> (string \<Rightarrow> bool) \<Rightarrow> (string \<Rightarrow> repo_mapping) \<Rightarrow> bool" where
  "sees_siblings actual broken mapping_of \<longleftrightarrow>
     (\<forall>r s. is_extension_repo r \<and> usage_of r = usage_of s \<longrightarrow> broken r = broken s) \<and>
     (\<forall>r. is_extension_repo r \<and> \<not> broken r \<longrightarrow> {s \<in> snd ` set (mapping_of r). usage_of s = usage_of r} = {s. actual s \<and> usage_of s = usage_of r}) \<and>
     (\<forall>m c. c \<in> snd ` set (mapping_of m) \<and> is_extension_repo c \<longrightarrow> actual c)"

lemma usage_of_extension: "is_extension_repo r \<Longrightarrow> usage_of r \<noteq> None"
proof -
  assume "is_extension_repo r"
  then have "filter (\<lambda>ch. ch = CHR ''+'') r \<noteq> []" by (auto simp: is_extension_repo_def)
  then show ?thesis by (auto simp: rsplit_once_None filter_empty_conv)
qed

lemma usage_of_same:
  assumes "usage_of r = usage_of s" "is_extension_repo r"
  shows "is_extension_repo s"
proof -
  obtain u x y where "rsplit_once (CHR ''+'') r = Some (u, x)" "rsplit_once (CHR ''+'') s = Some (u, y)"
    using assms usage_of_extension [OF assms(2)] by (cases "rsplit_once (CHR ''+'') r"; cases "rsplit_once (CHR ''+'') s") auto
  then have "r = u @ CHR ''+'' # x" "CHR ''+'' \<notin> set x" "s = u @ CHR ''+'' # y" by (simp_all add: rsplit_once_Some)
  moreover from this have "filter (\<lambda>ch. ch = CHR ''+'') x = []" by (auto simp: filter_empty_conv)
  ultimately show ?thesis using assms(2) by (auto simp: is_extension_repo_def)
qed

lemma sees_siblingsD:
  assumes "sees_siblings actual broken mapping_of"
  shows "is_extension_repo r \<Longrightarrow> usage_of r = usage_of s \<Longrightarrow> broken r = broken s"
    "is_extension_repo r \<Longrightarrow> \<not> broken r \<Longrightarrow> usage_of s = usage_of r \<Longrightarrow> s \<in> snd ` set (mapping_of r) \<longleftrightarrow> actual s"
    "c \<in> snd ` set (mapping_of m) \<Longrightarrow> is_extension_repo c \<Longrightarrow> actual c"
  using assms unfolding sees_siblings_def by blast+

lemma generated_exact:
  assumes sib: "sees_siblings actual broken mapping_of"
    and ext: "\<And>c. c \<in> set imported \<Longrightarrow> is_extension_repo c" and act: "\<And>c. c \<in> set imported \<Longrightarrow> actual c"
    and reps: "\<And>r. \<not> broken r \<Longrightarrow> r \<in> set reps \<longleftrightarrow> r \<in> set (map snd (representatives_of imported))" and nb: "\<not> broken s"
  shows "s \<in> set (imported @ filter (represented (representatives_of imported)) (mapped_names (map mapping_of reps))) \<longleftrightarrow>
    actual s \<and> (\<exists>c \<in> set imported. \<not> broken c \<and> usage_of s = usage_of c)"
proof
  assume "s \<in> set (imported @ filter (represented (representatives_of imported)) (mapped_names (map mapping_of reps)))"
  then consider (imp) "s \<in> set imported" | (sib) r where "s \<in> snd ` set (mapping_of r)" "represented (representatives_of imported) s"
    by (auto simp: mapped_names_set)
  then show "actual s \<and> (\<exists>c \<in> set imported. \<not> broken c \<and> usage_of s = usage_of c)"
  proof cases
    case imp
    then show ?thesis using act nb by blast
  next
    case sib
    then obtain c where c: "c \<in> set imported" "usage_of c = usage_of s" unfolding represented_iff by blast
    then have "is_extension_repo s" "\<not> broken c"
      using usage_of_same [OF c(2)] ext [OF c(1)] sees_siblingsD(1) [OF assms(1) ext [OF c(1)] c(2)] nb by blast+
    then show ?thesis using c sees_siblingsD(3) [OF assms(1) sib(1)] by metis
  qed
next
  assume "actual s \<and> (\<exists>c \<in> set imported. \<not> broken c \<and> usage_of s = usage_of c)"
  then obtain c where c: "actual s" "c \<in> set imported" "\<not> broken c" "usage_of s = usage_of c" by blast
  obtain u where u: "usage_of c = Some u" using usage_of_extension [OF ext [OF c(2)]] by blast
  obtain r where r: "r \<in> set (map snd (representatives_of imported))" "r \<in> set imported" "usage_of r = Some u" by (rule representative_exists [OF c(2) u])
  have nr: "is_extension_repo r" "\<not> broken r" using ext [OF r(2)] sees_siblingsD(1) [OF sib ext [OF r(2)], of c] r(3) u c(3) by simp_all
  have "s \<in> snd ` set (mapping_of r)" using sees_siblingsD(2) [OF sib nr, of s] c(1,4) r(3) u by simp
  moreover have "r \<in> set reps" using reps [OF nr(2)] r(1) by blast
  moreover have "represented (representatives_of imported) s" unfolding represented_iff using c(2,4) u by fastforce
  ultimately show "s \<in> set (imported @ filter (represented (representatives_of imported)) (mapped_names (map mapping_of reps)))"
    by (auto simp: mapped_names_set)
qed

lemma in_filter: "P x \<Longrightarrow> x \<in> set (filter P xs) \<longleftrightarrow> x \<in> set xs"
  by simp

lemma all_module_mappings_exact:
  assumes d: "dumps_exactly b from_str broken mapping_of render"
    and p: "\<And>k v. bt_get prefetched k = Some v \<Longrightarrow> v = mapping_of k"
    and mods: "\<And>r. r \<in> set (visible @ hidden) \<Longrightarrow> \<not> broken r \<and> \<not> has_unavailable_mapping failed r"
  shows "\<exists>f1 c1 w1. all_module_mappings b from_str visible hidden prefetched failed c0 w = Some (Inr (map mapping_of (visible @ hidden)), f1, c1, w1) \<and>
    set (fe_unavailable f1) = set (fe_unavailable failed)"
proof (cases "visible @ hidden = []")
  case True
  then show ?thesis by (simp add: all_module_mappings_def)
next
  case False
  then show ?thesis using module_mappings_exact [OF d, of prefetched "visible @ hidden" failed c0 w] p mods by (auto simp: all_module_mappings_def)
qed

lemma sibling_mappings_exact:
  assumes d: "dumps_exactly b from_str broken mapping_of render"
  shows "\<exists>f2 cs w2. sibling_mappings b from_str reps f1 w = Some (Inr (map mapping_of (available_names f1 broken reps)), f2, cs, w2) \<and>
    set (fe_unavailable f2) = set (fe_unavailable f1) \<union> {r \<in> trim_start_matches (CHR ''@'') ` set reps. broken r}"
proof (cases "reps = []")
  case False
  then show ?thesis using dump_exact [OF d, of reps f1 True w] by (auto simp: sibling_mappings_def simp del: set_map)
qed (simp add: sibling_mappings_def available_names_def, blast)

lemma exact_retained:
  assumes "\<And>s. \<not> broken s \<Longrightarrow> \<not> has_unavailable_mapping f s" "\<And>s. \<not> broken s \<Longrightarrow> s \<in> set xs \<longleftrightarrow> s \<in> A" "\<And>s. s \<in> A \<Longrightarrow> \<not> broken s"
  shows "{s \<in> set (filter (\<lambda>c. \<not> has_unavailable_mapping f c) xs). \<not> broken s} = A"
  using assms by auto


subsection \<open>One answer for all repositories\<close>

text \<open>
  What Bazel documents of \<^verbatim>\<open>mod show_repo\<close>: asked by name it prints the records of the names in order, at most one each; asked for all
  repositories it prints, when it answers, the same record for each of them.
\<close>

definition shows_exactly ::
  "'w bazel_mod \<Rightarrow> repository_reader \<Rightarrow> string set \<Rightarrow> (string \<Rightarrow> bool) \<Rightarrow> (string \<Rightarrow> repository list) \<Rightarrow> (string list \<Rightarrow> string) \<Rightarrow> bool" where
  "shows_exactly b read A broken records render \<longleftrightarrow>
     maps_exactly b broken \<and> (\<forall>r. broken (trim_start_matches (CHR ''@'') r) = broken r) \<and> (\<forall>r. broken r \<longrightarrow> is_extension_repo r) \<and>
     (\<forall>names w. set names \<subseteq> A \<longrightarrow> (\<exists>stderr w'. bm_run b ([''mod'', ''show_repo''] @ names @ [''--output=streamed_proto'']) w =
          (Inr \<lparr>mo_success = list_all (\<lambda>r. \<not> broken r) names, mo_stdout = render names, mo_stderr = stderr\<rparr>, w') \<and>
        (list_all (\<lambda>r. \<not> broken r) names \<or> fails_unanswered stderr))) \<and>
     (\<forall>names. set names \<subseteq> A \<and> list_all (\<lambda>r. \<not> broken r) names \<longrightarrow> decode_delimited read (render names) = Inr (concat (map records names)))"

lemma shows_exactlyD:
  assumes "shows_exactly b read A broken records render"
  shows "maps_exactly b broken" "broken r \<Longrightarrow> is_extension_repo r" "broken (trim_start_matches (CHR ''@'') r) = broken r"
    "answers_exactly A (show_attempt b) broken render"
    "set names \<subseteq> A \<Longrightarrow> list_all (\<lambda>r. \<not> broken r) names \<Longrightarrow> decode_delimited read (render names) = Inr (concat (map records names))"
proof -
  note d = assms [unfolded shows_exactly_def]
  show "maps_exactly b broken" "broken r \<Longrightarrow> is_extension_repo r" "broken (trim_start_matches (CHR ''@'') r) = broken r"
    "set names \<subseteq> A \<Longrightarrow> list_all (\<lambda>r. \<not> broken r) names \<Longrightarrow> decode_delimited read (render names) = Inr (concat (map records names))"
    using d by blast+
  have t: "(\<lambda>r. \<not> broken (trim_start_matches (CHR ''@'') r)) = (\<lambda>r. \<not> broken r)" using d by simp
  show "answers_exactly A (show_attempt b) broken render" unfolding answers_exactly_def t
  proof (intro allI impI)
    fix names w assume "set names \<subseteq> A"
    then obtain stderr w' where "bm_run b ([''mod'', ''show_repo''] @ names @ [''--output=streamed_proto'']) w =
          (Inr \<lparr>mo_success = list_all (\<lambda>r. \<not> broken r) names, mo_stdout = render names, mo_stderr = stderr\<rparr>, w')"
        "list_all (\<lambda>r. \<not> broken r) names \<or> fails_unanswered stderr" using d by blast
    then show "\<exists>stderr w'. show_attempt b names w = (Inr (list_all (\<lambda>r. \<not> broken r) names, stderr, render names), w') \<and>
        (list_all (\<lambda>r. \<not> broken r) names \<or> fails_unanswered stderr)"
      by (fastforce simp: show_attempt_def run_capture_def)
  qed
qed

lemma show_chunks_exact:
  assumes "shows_exactly b read A broken records render"
  shows "set (concat chunks) \<subseteq> A \<Longrightarrow>
   \<exists>failed' w'. show_chunks b read chunks failed repositories w =
      Some (Inr (repositories @ concat (map records (available_names failed broken (concat chunks)))), failed', w')"
proof (induction chunks arbitrary: failed repositories w)
  case Nil
  then show ?case by (simp add: available_names_def)
next
  case (Cons chunk chunks)
  note D = shows_exactlyD [OF assms]
  let ?av = "available_names failed broken chunk"
  have sub: "set chunk \<subseteq> A" "set (concat chunks) \<subseteq> A" "set ?av \<subseteq> A" using Cons.prems by (auto simp: available_names_def)
  obtain f1 w1 where r: "run_mod_over_repos b ''show_repo'' chunk failed (show_attempt b) w =
      Some (Inr (if ?av = [] then None else Some (render ?av)), f1, w1)"
      and u: "set (fe_unavailable f1) = set (fe_unavailable failed) \<union> {r \<in> trim_start_matches (CHR ''@'') ` set chunk. broken r}"
    using run_mod_exact [OF D(1,2) D(4) sub(1), of "''show_repo''" failed w] unfolding available_names_def Let_def by blast
  have "list_all (\<lambda>r. \<not> broken r) ?av" using D(3) by (simp add: available_names_def list_all_iff)
  from D(5) [OF sub(3) this] have dec: "decode_delimited read (render ?av) = Inr (concat (map records ?av))" .
  have step: "show_chunks b read (chunk # chunks) failed repositories w = show_chunks b read chunks f1 (repositories @ concat (map records ?av)) w1"
    using r dec by (cases "?av = []") simp_all
  have "available_names failed broken (concat (chunk # chunks)) = ?av @ available_names f1 broken (concat chunks)"
    unfolding available_after [OF u] by (simp add: available_names_def)
  then show ?case using Cons.IH [OF sub(2), of f1 "repositories @ concat (map records ?av)" w1] unfolding step by simp
qed

lemma show_explicit_exact:
  assumes "shows_exactly b read A broken records render" "set names \<subseteq> A"
  shows "\<exists>failed' w'. show_repositories_explicit b read names failed budget w =
      Some (Inr (concat (map records (available_names failed broken names))), failed', w')"
  using show_chunks_exact [OF assms(1), of "chunk_arguments names budget" failed "[]" w] assms(2)
  by (simp add: show_repositories_explicit_def chunk_arguments_concat)

subsection \<open>The table of records\<close>

definition bulk_records :: "repository list \<Rightarrow> string \<Rightarrow> repository list" where
  "bulk_records found name = filter (\<lambda>r. map_option (trim_start_matches (CHR ''@'')) (rp_canonical_name r) = Some name) found"

lemma trim_trim: "trim_start_matches ch (trim_start_matches ch s) = trim_start_matches ch s"
  by (induction s) (simp_all add: trim_start_matches_def)

lemma bulk_get:
  "bt_get (bk_by_canonical (fold (add_bulk failed) found bulk)) (trim_start_matches (CHR ''@'') name) =
     (if has_unavailable_mapping failed name \<or> bulk_records found (trim_start_matches (CHR ''@'') name) = []
      then bt_get (bk_by_canonical bulk) (trim_start_matches (CHR ''@'') name)
      else Some (last (bulk_records found (trim_start_matches (CHR ''@'') name))))"
proof (induction found arbitrary: bulk)
  case (Cons r found)
  then show ?case
    by (cases "rp_canonical_name r") (auto simp: add_bulk_def bulk_records_def has_unavailable_mapping_def bt_get_insert trim_trim Let_def)
qed (simp add: bulk_records_def)

lemma take_records_map:
  "distinct (map (trim_start_matches (CHR ''@'')) names) \<Longrightarrow>
   take_records names t = List.map_filter (\<lambda>name. bt_get t (trim_start_matches (CHR ''@'') name)) names"
proof (induction names arbitrary: t)
  case (Cons name names)
  let ?t = "filter (\<lambda>(k, _). k \<noteq> trim_start_matches (CHR ''@'') name) t"
  have ne: "trim_start_matches (CHR ''@'') x \<noteq> trim_start_matches (CHR ''@'') name" if "x \<in> set names" for x
    using Cons.prems that by (metis distinct.simps(2) image_eqI list.set_map list.simps(9))
  have g: "bt_get ?t k = (if k = trim_start_matches (CHR ''@'') name then None else bt_get t k)" for k by (induction t) auto
  have "List.map_filter (\<lambda>name. bt_get ?t (trim_start_matches (CHR ''@'') name)) names = List.map_filter (\<lambda>name. bt_get t (trim_start_matches (CHR ''@'') name)) names"
    using ne by (auto simp: map_filter_def g intro!: map_cong filter_cong)
  then show ?case using Cons by (simp add: Let_def map_filter_simps split: option.splits)
qed (simp add: map_filter_simps)

definition bulk_exactly :: "string list \<Rightarrow> (string \<Rightarrow> bool) \<Rightarrow> (string \<Rightarrow> repository list) \<Rightarrow> repository list \<Rightarrow> bool" where
  "bulk_exactly canonical broken records found \<longleftrightarrow>
     (\<forall>name \<in> set canonical. length (records name) \<le> 1 \<and>
        bulk_records found (trim_start_matches (CHR ''@'') name) = (if broken name then [] else records name))"

lemma map_filter_concat:
  "(\<And>x. x \<in> set xs \<Longrightarrow> (case f x of None \<Rightarrow> [] | Some r \<Rightarrow> [r]) = (if P x then g x else [])) \<Longrightarrow>
   List.map_filter f xs = concat (map g (filter P xs))"
proof (induction xs)
  case (Cons x xs)
  have h: "(case f x of None \<Rightarrow> [] | Some r \<Rightarrow> [r]) = (if P x then g x else [])" by (rule Cons.prems) simp
  have "List.map_filter f xs = concat (map g (filter P xs))" by (rule Cons.IH) (simp add: Cons.prems)
  then show ?case using h by (cases "f x") (auto simp: map_filter_simps split: if_splits)
qed (simp add: map_filter_simps)

lemma bulk_take_records:
  assumes "bulk_exactly canonical broken records found" "distinct (map (trim_start_matches (CHR ''@'')) canonical)"
    and "\<And>r. broken (trim_start_matches (CHR ''@'') r) = broken r"
  shows "take_records canonical (bk_by_canonical (fold (add_bulk failed) found \<lparr>bk_by_canonical = [], bk_complete = c\<rparr>)) =
    concat (map records (available_names failed broken canonical))"
  unfolding take_records_map [OF assms(2)] available_names_def
proof (rule map_filter_concat)
  fix name assume "name \<in> set canonical"
  then have "length (records name) \<le> 1" "bulk_records found (trim_start_matches (CHR ''@'') name) = (if broken name then [] else records name)"
    using assms(1) by (simp_all add: bulk_exactly_def)
  then show "(case bt_get (bk_by_canonical (fold (add_bulk failed) found \<lparr>bk_by_canonical = [], bk_complete = c\<rparr>)) (trim_start_matches (CHR ''@'') name) of
      None \<Rightarrow> [] | Some r \<Rightarrow> [r]) = (if \<not> has_unavailable_mapping failed name \<and> \<not> broken (trim_start_matches (CHR ''@'') name) then records name else [])"
    unfolding bulk_get by (cases "records name") (auto simp: assms(3))
qed

definition answered_all :: "mod_output \<Rightarrow> bool" where
  "answered_all out \<longleftrightarrow> mo_success out \<or> (\<exists>f. extension_failure_of (mo_stderr out) = Some f \<and> ef_answered f)"

lemma all_repositories_cases:
  assumes "show_all_repositories b read failed w = (r, failed', w')"
  shows "set (fe_unavailable failed') = set (fe_unavailable failed)"
    "r = Inr (Some bulk) \<Longrightarrow> \<exists>out found c. bm_run b [''mod'', ''show_repo'', ''--all_repos'', ''--output=streamed_proto''] w = (Inr out, w') \<and> answered_all out \<and>
       decode_delimited read (mo_stdout out) = Inr found \<and> bulk = fold (add_bulk failed') found \<lparr>bk_by_canonical = [], bk_complete = c\<rparr>"
  using assms
  by (auto simp: show_all_repositories_def run_capture_def answered_all_def Let_def note_failed_extensions_def split: prod.splits sum.splits if_splits option.splits)

text \<open>A module asked for by key has the record of its repository with the key added.\<close>

definition keys_exactly :: "string list \<Rightarrow> (string, string) btree \<Rightarrow> (string \<Rightarrow> repository list) \<Rightarrow> repository list \<Rightarrow> bool" where
  "keys_exactly hidden bindings records found \<longleftrightarrow>
     (\<forall>key \<in> set hidden. \<forall>name. bt_get bindings key = Some name \<longrightarrow> (\<forall>r \<in> set (bulk_records found name). records key = [r\<lparr>rp_module_key := Some key\<rparr>]))"

lemma bulk_get_mem:
  "bt_get (bk_by_canonical (fold (add_bulk failed) found bulk)) n = Some r \<Longrightarrow> bt_get (bk_by_canonical bulk) n = Some r \<or> r \<in> set (bulk_records found n)"
proof (induction found arbitrary: bulk)
  case (Cons x found)
  from Cons.IH [of "add_bulk failed x bulk"] Cons.prems show ?case
    by (cases "rp_canonical_name x") (auto simp: add_bulk_def bulk_records_def bt_get_insert Let_def split: if_splits)
qed simp

lemma hidden_records_exact:
  assumes "keys_exactly hidden bindings records found"
    and "those (map (hidden_record bindings (bk_by_canonical (fold (add_bulk failed) found \<lparr>bk_by_canonical = [], bk_complete = c\<rparr>))) hidden) = Some rs"
  shows "rs = concat (map records hidden)"
  using assms
proof (induction hidden arbitrary: rs)
  case (Cons key hidden)
  let ?t = "bk_by_canonical (fold (add_bulk failed) found \<lparr>bk_by_canonical = [], bk_complete = c\<rparr>)"
  obtain r rs' where r: "hidden_record bindings ?t key = Some r" "those (map (hidden_record bindings ?t) hidden) = Some rs'" "rs = r # rs'"
    using Cons.prems(2) by (auto split: option.splits)
  obtain name x where x: "bt_get bindings key = Some name" "bt_get ?t name = Some x" "r = x\<lparr>rp_module_key := Some key\<rparr>"
    using r(1) by (auto simp: hidden_record_def bind_eq_Some_conv split: if_splits)
  have "x \<in> set (bulk_records found name)" using bulk_get_mem [OF x(2)] by simp
  then have "records key = [r]" using Cons.prems(1) x(1,3) by (simp add: keys_exactly_def)
  moreover have "rs' = concat (map records hidden)" using Cons.IH r(2) Cons.prems(1) by (simp add: keys_exactly_def)
  ultimately show ?case using r(3) by simp
qed simp

text \<open>
  C34: repositories are described the same way however Bazel is asked. With names that do not fit one command line, the descriptions taken out of
  the answer for all repositories, or asked for by name after all, are those of the available names in
  order, as if every one had been asked for by name; modules known by key only are no exception.
\<close>

theorem show_repositories_exact:
  assumes s: "shows_exactly b read (set names) broken records render" and "\<forall>w. cancelled w = None"
    and d: "distinct (map (trim_start_matches (CHR ''@'')) (takeWhile (starts_with ''@@'') names))"
    and h: "\<forall>key \<in> set (dropWhile (starts_with ''@@'') names). \<not> is_extension_repo key" and u: "\<forall>r \<in> set (fe_unavailable failed). broken r"
    and bulk: "\<forall>w out w' found. bm_run b [''mod'', ''show_repo'', ''--all_repos'', ''--output=streamed_proto''] w = (Inr out, w') \<and> answered_all out \<and>
        decode_delimited read (mo_stdout out) = Inr found \<longrightarrow>
      bulk_exactly (takeWhile (starts_with ''@@'') names) broken records found \<and>
      (\<forall>bindings. hidden_bindings = Some bindings \<longrightarrow> keys_exactly (dropWhile (starts_with ''@@'') names) bindings records found)"
  shows "\<exists>failed' w'. show_repositories_within b read cancelled names failed budget hidden_bindings w =
    Some (Inr (concat (map records (available_names failed broken names))), failed', w')"
proof -
  note D = shows_exactlyD [OF s]
  let ?c = "takeWhile (starts_with ''@@'') names" and ?h = "dropWhile (starts_with ''@@'') names"
  have names: "available_names f broken names = available_names f broken ?c @ available_names f broken ?h" for f
    unfolding available_names_def filter_append [symmetric] by simp
  obtain r f1 w1 where a: "show_all_repositories b read failed w = (r, f1, w1)" by (metis surj_pair)
  have av: "available_names f1 broken xs = available_names failed broken xs" for xs
    using all_repositories_cases(1) [OF a] by (simp add: available_names_def has_unavailable_mapping_def)
  have explicit: "\<exists>f' w'. show_repositories_explicit b read names f budget v = Some (Inr (concat (map records (available_names f broken names))), f', w')" for f v
    by (rule show_explicit_exact [OF s order_refl])
  have hidden: "available_names failed broken ?h = ?h"
    using h u D(2,3) by (auto simp: available_names_def filter_id_conv has_unavailable_mapping_def)
  show ?thesis
  proof (cases "names_cost ?c \<le> budget")
    case True
    then show ?thesis using explicit [of failed w] by (simp add: show_repositories_within_def Let_def)
  next
    case False
    show ?thesis
    proof (cases "\<exists>k. r = Inr (Some k)")
      case True
      then obtain k out found c where k: "r = Inr (Some k)" "bm_run b [''mod'', ''show_repo'', ''--all_repos'', ''--output=streamed_proto''] w = (Inr out, w1)" "answered_all out"
          "decode_delimited read (mo_stdout out) = Inr found" "k = fold (add_bulk f1) found \<lparr>bk_by_canonical = [], bk_complete = c\<rparr>"
        using all_repositories_cases(2) [OF a] by metis
      have ex: "bulk_exactly ?c broken records found" "hidden_bindings = Some bindings \<Longrightarrow> keys_exactly ?h bindings records found" for bindings
        using bulk k(2,3,4) by blast+
      have recs: "take_records ?c (bk_by_canonical k) = concat (map records (available_names failed broken ?c))"
        unfolding k(5) bulk_take_records [OF ex(1) d D(3)] av ..
      obtain f2 w2 where e: "show_repositories_explicit b read ?h f1 budget w1 = Some (Inr (concat (map records ?h)), f2, w2)"
        using show_explicit_exact [OF s, of ?h f1 budget w1] set_dropWhileD by (metis av hidden subsetI)
      have hid: "rs = concat (map records ?h)" if "bk_complete k" "hidden_bindings = Some bindings"
          "those (map (hidden_record bindings (bk_by_canonical k)) ?h) = Some rs" for bindings rs
        using hidden_records_exact [OF ex(2) [OF that(2)]] that(3) unfolding k(5) by blast
      show ?thesis unfolding show_repositories_within_def Let_def a k(1) using False recs hid e
        by (auto simp: names hidden split: option.splits Option.bind_splits)
    next
      case no: False
      have "show_repositories_within b read cancelled names failed budget hidden_bindings w = show_repositories_explicit b read names f1 budget w1"
        using False no a assms(2) by (auto simp: show_repositories_within_def Let_def split: sum.splits option.splits)
      then show ?thesis using explicit [of f1 w1] by (simp add: av)
    qed
  qed
qed

subsection \<open>A concrete Bazel\<close>

definition hub_mapping :: "string \<Rightarrow> repo_mapping" where
  "hub_mapping r = (if is_extension_repo r then [(''hub'', ''a++e+hub''), (''spoke'', ''a++e+spoke'')] else [(''hub'', ''a++e+hub'')])"

definition hub_render :: "string list \<Rightarrow> string" where
  "hub_render repos = concat (map (\<lambda>r. [if is_extension_repo r then CHR ''e'' else CHR ''m'', CHR 0x0A]) repos)"

definition hub_parser :: json_parser where
  "hub_parser line = Some (JObj (if line = ''e'' then [(''hub'', JStr ''a++e+hub''), (''spoke'', JStr ''a++e+spoke'')] else [(''hub'', JStr ''a++e+hub'')]))"

definition hub_bazel :: "unit bazel_mod" where
  "hub_bazel = \<lparr>bm_run = (\<lambda>args w. (Inr \<lparr>mo_success = True,
       mo_stdout = (if take 2 args = [''mod'', ''show_repo''] then map (\<lambda>_. CHR ''x'') (butlast (drop 2 args)) else hub_render (drop 2 args)),
       mo_stderr = []\<rparr>, w)), bm_keep_going = False, bm_budget = 4\<rparr>"

lemma hub_lines: "mapping_lines hub_parser (hub_render repos) = map (\<lambda>r. Some (hub_mapping r)) repos"
proof -
  have "split_on (CHR 0x0A) (hub_render repos) = map (\<lambda>r. [if is_extension_repo r then CHR ''e'' else CHR ''m'']) repos @ [[]]"
    by (induction repos) (simp_all add: hub_render_def)
  then have "str_lines (hub_render repos) = map (\<lambda>r. if is_extension_repo r then ''e'' else ''m'') repos"
    by (simp add: str_lines_def strip_cr_def NL_def CR_def Let_def comp_def if_distrib cong: if_cong)
  moreover have "Option.bind (hub_parser (str_trim (if x then ''e'' else ''m''))) (de_map de_string) =
      Some (if x then [(''hub'', ''a++e+hub''), (''spoke'', ''a++e+spoke'')] else [(''hub'', ''a++e+hub'')])" for x
    by (cases x) (simp_all only: if_True if_False, code_simp+)
  ultimately show ?thesis by (simp add: mapping_lines_def hub_mapping_def comp_def)
qed

lemma hub_dumps: "dumps_exactly hub_bazel hub_parser (\<lambda>_. False) hub_mapping hub_render"
  by (simp add: dumps_exactly_def hub_bazel_def hub_lines list_all_iff)

lemma hub_siblings: "sees_siblings (\<lambda>s. s \<in> {''a++e+hub'', ''a++e+spoke''}) (\<lambda>_. False) hub_mapping"
  by (auto simp: sees_siblings_def hub_mapping_def)


definition x_reader :: repository_reader where
  "x_reader input = (case input of [] \<Rightarrow> Inl ''empty'' | c # rest \<Rightarrow> Inr (repository_named ''a++e+hub'', rest))"

lemma x_decode: "decode_delimited x_reader input = Inr (map (\<lambda>_. repository_named ''a++e+hub'') input)"
proof -
  have "decode_delimited_fuel (length input) x_reader input = Inr (map (\<lambda>_. repository_named ''a++e+hub'') input)"
    by (induction input) (simp_all add: x_reader_def)
  then show ?thesis by (simp add: decode_delimited_def)
qed

theorem show_repositories_exact_witness:
  "\<exists>failed' w'. show_repositories_within hub_bazel x_reader (\<lambda>_. None) [''@@a++e+hub''] no_failures 0 None () =
    Some (Inr [repository_named ''a++e+hub''], failed', w')"
proof -
  have t: "trim_start_matches (CHR ''@'') ''@@a++e+hub'' = ''a++e+hub''" "takeWhile (starts_with ''@@'') [''@@a++e+hub''] = [''@@a++e+hub'']"
    "dropWhile (starts_with ''@@'') [''@@a++e+hub''] = []" by code_simp+
  let ?rec = "repository_named ''a++e+hub''"
  have s: "shows_exactly hub_bazel x_reader (set [''@@a++e+hub'']) (\<lambda>_. False) (\<lambda>_. [?rec]) (map (\<lambda>_. CHR ''x''))"
    by (simp add: shows_exactly_def maps_exactly_def hub_bazel_def x_decode comp_def list_all_iff concat_map_singleton)
  have u: "\<forall>r \<in> set (fe_unavailable no_failures). False" by (simp add: no_failures_def)
  have "bulk_records [?rec] ''a++e+hub'' = [?rec]" by (simp add: bulk_records_def repository_named_def trim_start_matches_def)
  then have bulk: "\<forall>w out w' found. bm_run hub_bazel [''mod'', ''show_repo'', ''--all_repos'', ''--output=streamed_proto''] w = (Inr out, w') \<and> answered_all out \<and>
        decode_delimited x_reader (mo_stdout out) = Inr found \<longrightarrow>
      bulk_exactly [''@@a++e+hub''] (\<lambda>_. False) (\<lambda>_. [?rec]) found \<and>
      (\<forall>bindings. None = Some bindings \<longrightarrow> keys_exactly [] bindings (\<lambda>_. [?rec]) found)"
    by (auto simp: hub_bazel_def x_decode bulk_exactly_def t(1))
  have "available_names no_failures (\<lambda>_. False) [''@@a++e+hub''] = [''@@a++e+hub'']" by (simp add: available_names_def has_unavailable_mapping_def no_failures_def)
  then show ?thesis
    using show_repositories_exact [OF s, of "\<lambda>_. None" no_failures None 0 "()", unfolded t, OF _ _ _ u bulk] by simp
qed

end
