(* ===== verification/Isolated.thy ===== *)
theory Isolated
  imports Discovery
begin

section \<open>An isolated dependency root (bazel.rs)\<close>

text \<open>
  \<^verbatim>\<open>--isolatedDependencyRoot\<close> of \<^verbatim>\<open>src/bazel.rs\<close>: the repositories of one isolated extension usage are exempt from the edges of their owner, and
  the targets that read them depend on the usage's hub instead. The usage is accepted only when nothing else reads its
  repositories. Whether an attribute has fields the build does not know is a parameter, since those bytes
  are kept by the protobuf library.
\<close>

record isolated_scope =
  sc_anchor :: string
  sc_members :: "string list"
  sc_aliases :: repo_mapping
  sc_repository_inputs :: "string list"

subsection \<open>Labels of the scope\<close>

definition scope_repo :: "isolated_scope \<Rightarrow> string \<Rightarrow> string option" where
  "scope_repo scope repo =
     (let member = (\<lambda>name. if name \<in> set (sc_members scope) then Some name else None)
      in case strip_prefix ''@'' repo of Some name \<Rightarrow> member name | None \<Rightarrow> Option.bind (bt_get (sc_aliases scope) repo) member)"

definition scope_canonical :: "isolated_scope \<Rightarrow> label \<Rightarrow> label option" where
  "scope_canonical scope lbl =
     Option.bind (Option.bind (strip_prefix ''@'' lbl) (split_once_str ''//'')) (\<lambda>(repo, rest).
       map_option (\<lambda>canonical. ''@@'' @ canonical @ ''//'' @ rest) (scope_repo scope repo))"

definition scope_package :: "isolated_scope \<Rightarrow> label \<Rightarrow> string" where
  "scope_package scope lbl =
     (let package = (case rsplit_once (CHR '':'') lbl of None \<Rightarrow> lbl | Some (p, _) \<Rightarrow> p)
      in case Option.bind (strip_prefix ''@'' package) (split_once_str ''//'') of
           None \<Rightarrow> package
         | Some (repo, rest) \<Rightarrow>
             if starts_with ''@'' repo \<and> length repo > 1 then package
             else (case (case strip_prefix ''@'' repo of Some r \<Rightarrow> Some r | None \<Rightarrow> bt_get (sc_aliases scope) repo) of
                     None \<Rightarrow> package
                   | Some canonical \<Rightarrow> if canonical = [] then ''//'' @ rest else ''@@'' @ canonical @ ''//'' @ rest))"

definition scope_expression :: "isolated_scope \<Rightarrow> string \<Rightarrow> string" where
  "scope_expression scope ordinary =
     ''let members = deps('' @ [CHR 0x27, CHR ''@''] @ sc_anchor scope @ ''//...:all-targets'' @ [CHR 0x27] @ '') in ('' @ ordinary @
     '') + $members + buildfiles($members)''"

subsection \<open>Loads of BUILD files\<close>

definition is_build_file :: "label \<Rightarrow> bool" where
  "is_build_file lbl = (case rsplit_once (CHR '':'') lbl of None \<Rightarrow> False | Some (_, file) \<Rightarrow> file \<in> {''BUILD'', ''BUILD.bazel''})"

text \<open>An entry is made only when a load is recorded, except for a BUILD file of the scope.\<close>

definition record_source_loads :: "isolated_scope \<Rightarrow> source_file \<Rightarrow> (string, string list) btree \<Rightarrow> (string, string list) btree" where
  "record_source_loads scope source loads =
     (if \<not> is_build_file (sf_name source) then loads
      else if scope_canonical scope (sf_name source) \<noteq> None then add_names (sf_name source) (sf_subinclude source) loads
      else fold (\<lambda>ld. add_names (sf_name source) [ld]) (List.map_filter (scope_canonical scope) (sf_subinclude source)) loads)"

definition record_build_loads :: "isolated_scope \<Rightarrow> qtarget list \<Rightarrow> (string, string list) btree \<Rightarrow> (string, string list) btree" where
  "record_build_loads scope batch loads = fold (record_source_loads scope) (List.map_filter qt_source_file batch) loads"

subsection \<open>Coverage\<close>

record scoped_coverage =
  cv_names :: "label list"
  cv_files :: "label list"
  cv_missing :: "label list"
  cv_direct_readers :: "bool list"

definition coverage_default :: scoped_coverage where
  "coverage_default = \<lparr>cv_names = [], cv_files = [], cv_missing = [], cv_direct_readers = []\<rparr>"

definition cover_target :: "isolated_scope \<Rightarrow> qtarget \<Rightarrow> scoped_coverage \<Rightarrow> scoped_coverage" where
  "cover_target scope t cv =
     (let cv1 = (case Option.bind (target_name t) (scope_canonical scope) of
                   None \<Rightarrow> cv
                 | Some name \<Rightarrow> cv\<lparr>cv_missing := filter (\<lambda>m. m \<noteq> name) (cv_missing cv), cv_names := bs_of_list (name # cv_names cv)\<rparr>)
      in case Option.bind (qt_source_file t) (\<lambda>f. scope_canonical scope (sf_name f)) of
           None \<Rightarrow> cv1
         | Some name \<Rightarrow> cv1\<lparr>cv_files := bs_of_list (name # cv_files cv1)\<rparr>)"

definition scoped_inputs :: "isolated_scope \<Rightarrow> qtarget \<Rightarrow> label list" where
  "scoped_inputs scope t = (case qt_rule t of None \<Rightarrow> [] | Some r \<Rightarrow> List.map_filter (scope_canonical scope) (rule_input r))"

definition cover_inputs :: "isolated_scope \<Rightarrow> qtarget \<Rightarrow> scoped_coverage \<Rightarrow> scoped_coverage" where
  "cover_inputs scope t cv =
     cv\<lparr>cv_missing := bs_of_list (filter (\<lambda>input. input \<notin> set (cv_names cv)) (scoped_inputs scope t) @ cv_missing cv),
        cv_direct_readers := cv_direct_readers cv @ [scoped_inputs scope t \<noteq> []]\<rparr>"

definition coverage_record :: "isolated_scope \<Rightarrow> qtarget list \<Rightarrow> scoped_coverage \<Rightarrow> scoped_coverage" where
  "coverage_record scope targets cv = fold (cover_inputs scope) targets (fold (cover_target scope) targets cv)"

subsection \<open>Readers\<close>

fun reader_packages ::
  "isolated_scope \<Rightarrow> label list \<Rightarrow> (string \<times> string list) list \<Rightarrow> string list \<Rightarrow> mod_error + string list" where
  "reader_packages scope files [] readers = Inr readers"
| "reader_packages scope files ((build, loads) # rest) readers =
     (let scoped = List.map_filter (scope_canonical scope) loads
      in case find (\<lambda>ld. ld \<notin> set files) scoped of
           Some ld \<Rightarrow> Inl (Refused (''buildfiles did not return scoped load '' @ ld))
         | None \<Rightarrow> reader_packages scope files rest (if scoped = [] then readers else bs_of_list (scope_package scope build # readers)))"

definition connect_target ::
  "isolated_scope \<Rightarrow> (string, string list) btree \<Rightarrow> string list \<Rightarrow> qtarget \<times> bool \<Rightarrow> qtarget" where
  "connect_target scope loads readers td =
     (let root = external_label (sc_anchor scope);
          t = fst td;
          t1 = (case qt_source_file t of
                  None \<Rightarrow> t
                | Some source \<Rightarrow>
                    (case (scope_canonical scope (sf_name source), bt_get loads (sf_name source)) of
                       (Some _, Some ls) \<Rightarrow> t\<lparr>qt_source_file := Some (source\<lparr>sf_subinclude := ls\<rparr>)\<rparr>
                     | _ \<Rightarrow> t))
      in case qt_rule t1 of
           None \<Rightarrow> t1
         | Some r \<Rightarrow>
             if \<not> starts_with ''//external:'' (rule_name r) \<and> scope_canonical scope (rule_name r) = None \<and>
                (snd td \<or> scope_package scope (rule_name r) \<in> set readers) \<and> root \<notin> set (rule_input r)
             then t1\<lparr>qt_rule := Some (r\<lparr>rule_input := rule_input r @ [root]\<rparr>)\<rparr>
             else t1)"

definition connect_external_readers ::
  "isolated_scope \<Rightarrow> (string, string list) btree \<Rightarrow> qtarget list \<Rightarrow> scoped_coverage \<Rightarrow> mod_error + qtarget list" where
  "connect_external_readers scope loads targets coverage =
     (case reader_packages scope (cv_files coverage) loads [] of
        Inl err \<Rightarrow> Inl err
      | Inr readers \<Rightarrow> Inr (map (connect_target scope loads readers) (zip targets (cv_direct_readers coverage))))"

subsection \<open>The complete module graph\<close>

datatype graph_module =
  Graph_Module (gm_key: string) (gm_name: string) (gm_dependencies: "graph_module list option")
    (gm_indirect_dependencies: "graph_module list") (gm_cycles: "graph_module list") (gm_unexpanded: bool)

text \<open>The derived deserialiser is recursive; what it reads of a value is smaller than the value.\<close>

lemma size_field: "kv \<in> set kvs \<Longrightarrow> size (snd kv) < size (JObj kvs)"
  by (induction kvs) auto

lemma size_element: "x \<in> set xs \<Longrightarrow> size x < size (JArr xs)"
  by (induction xs) auto

lemma de_field_cong [fundef_cong]:
  assumes "j = j'" "i = i'" "name = name'" "a = a'" "b = b'" "\<And>x. size x < size j' \<Longrightarrow> f x = g x"
  shows "de_field j i name f a b = de_field j' i' name' g a' b'"
proof (cases j')
  case (JArr xs)
  then show ?thesis using assms size_element [of "xs ! i'" xs] by auto
next
  case (JObj kvs)
  have "size (snd kv) < size j'" if "kv \<in> set (filter (\<lambda>kv. fst kv = name') kvs)" for kv using that JObj size_field by fastforce
  then show ?thesis using assms JObj by (cases "filter (\<lambda>kv. fst kv = name') kvs") (auto split: list.splits)
qed (use assms in simp_all)

lemma de_option_cong [fundef_cong]: "j = j' \<Longrightarrow> f j' = g j' \<Longrightarrow> de_option f j = de_option g j'"
  by (cases j') simp_all

lemma de_seq_cong [fundef_cong]: "j = j' \<Longrightarrow> (\<And>x. size x < size j' \<Longrightarrow> f x = g x) \<Longrightarrow> de_seq f j = de_seq g j'"
proof (cases j')
  case (JArr xs)
  assume "j = j'" "\<And>x. size x < size j' \<Longrightarrow> f x = g x"
  then show ?thesis using JArr size_element by (auto intro!: arg_cong [where f = those])
qed simp_all

function de_module :: "json \<Rightarrow> graph_module option" where
  "de_module j =
     (if \<not> struct_shape 6 j then None
      else Option.bind (de_field j 0 ''key'' de_string None None) (\<lambda>key.
           Option.bind (de_field j 1 ''name'' de_string None None) (\<lambda>name.
           Option.bind (de_field j 2 ''dependencies'' (de_option (de_seq de_module)) (Some None) (Some None)) (\<lambda>dependencies.
           Option.bind (de_field j 3 ''indirectDependencies'' (de_seq de_module) (Some []) (Some [])) (\<lambda>indirect.
           Option.bind (de_field j 4 ''cycles'' (de_seq de_module) (Some []) (Some [])) (\<lambda>cycles.
           Option.bind (de_field j 5 ''unexpanded'' de_bool (Some False) (Some False)) (\<lambda>unexpanded.
             Some (Graph_Module key name dependencies indirect cycles unexpanded))))))))"
  by pat_completeness auto
termination by (relation "measure size") auto

definition module_refusal :: "bool \<Rightarrow> graph_module \<Rightarrow> string option" where
  "module_refusal root m =
     (let key = gm_key m; name = gm_name m
      in if root \<and> key \<noteq> ''<root>'' then Some (''module graph root key is '' @ key)
         else if root \<and> gm_unexpanded m then Some ''module graph root is unexpanded''
         else if gm_dependencies m = None \<and> \<not> gm_unexpanded m then Some (''module graph entry '' @ key @ '' has no dependencies array'')
         else if key \<noteq> ''<root>'' \<and> (name = [] \<or>
             (case rsplit_once (CHR ''@'') key of None \<Rightarrow> True | Some (md, ver) \<Rightarrow> md \<noteq> name \<or> ver = []))
         then Some (''module graph key '' @ key @ '' does not identify '' @ name @ ''@version'')
         else None)"

definition note_module :: "graph_module \<Rightarrow> (string, string) btree \<times> string list \<Rightarrow> (string, string) btree \<times> string list" where
  "note_module m st =
     (if gm_key m = ''<root>'' then st
      else (bt_insert (gm_key m) (gm_name m) (fst st), if gm_unexpanded m then snd st else bs_of_list (gm_key m # snd st)))"

definition module_children :: "graph_module \<Rightarrow> graph_module list" where
  "module_children m = (case gm_dependencies m of None \<Rightarrow> [] | Some ds \<Rightarrow> ds) @ gm_indirect_dependencies m @ gm_cycles m"

lemma module_children_smaller: "size_list size (module_children m) < size m"
proof (cases m)
  case (Graph_Module key name ds ind cy un)
  have "size_list size (xs @ ys) = size_list size xs + size_list size ys" for xs ys :: "graph_module list" by (induction xs) simp_all
  then show ?thesis using Graph_Module by (cases ds) (simp_all add: module_children_def)
qed

function walk_module :: "bool \<Rightarrow> graph_module \<Rightarrow> (string, string) btree \<times> string list \<Rightarrow> mod_error + (string, string) btree \<times> string list"
and walk_modules :: "graph_module list \<Rightarrow> (string, string) btree \<times> string list \<Rightarrow> mod_error + (string, string) btree \<times> string list" where
  "walk_module root m st =
     (case module_refusal root m of Some err \<Rightarrow> Inl (Refused err) | None \<Rightarrow> walk_modules (module_children m) (note_module m st))"
| "walk_modules [] st = Inr st"
| "walk_modules (m # ms) st = (case walk_module False m st of Inl err \<Rightarrow> Inl err | Inr st' \<Rightarrow> walk_modules ms st')"
  by pat_completeness auto
termination
  by (relation "measure (\<lambda>x. case x of Inl (_, m, _) \<Rightarrow> 2 * size m + 1 | Inr (ms, _) \<Rightarrow> 2 * size_list size ms)")
    (auto simp: less_Suc_eq_le intro: less_imp_le module_children_smaller)

definition isolated_module_repo_names :: "json_parser \<Rightarrow> string \<Rightarrow> (string, string list) btree \<Rightarrow> mod_error + (string, string) btree" where
  "isolated_module_repo_names from_str json canonical_to_apparent =
     (case Option.bind (from_str (from_brace json)) de_module of
        None \<Rightarrow> Inl (Refused ''invalid module graph JSON'')
      | Some graph \<Rightarrow>
          (case walk_module True graph ([], []) of
             Inl err \<Rightarrow> Inl err
           | Inr (keys, expanded) \<Rightarrow>
               (case find (\<lambda>key. key \<notin> set expanded) (bt_keys keys) of
                  Some key \<Rightarrow> Inl (Refused (''module graph entry '' @ key @ '' is only an unexpanded reference''))
                | None \<Rightarrow> Inr (module_repo_names keys canonical_to_apparent True))))"

subsection \<open>Accepting a usage\<close>

text \<open>\<^verbatim>\<open>str::rsplit_once(&str)\<close>: the parts around the last occurrence.\<close>

definition rsplit_once_str :: "string \<Rightarrow> string \<Rightarrow> (string \<times> string) option" where
  "rsplit_once_str p s = map_option (\<lambda>(a, b). (rev b, rev a)) (split_once_str (rev p) (rev s))"

definition root_export :: "string \<Rightarrow> string option" where
  "root_export usage =
     Option.bind (rsplit_once_str ''+++'' usage) (\<lambda>(owner_and_symbol, name).
       Option.bind (rsplit_once_str ''+_'' owner_and_symbol) (\<lambda>(owner, symbol).
         if symbol \<noteq> [] \<and> CHR ''+'' \<notin> set symbol \<and> name \<noteq> [] \<and> CHR ''+'' \<notin> set name then Some name else None))"

text \<open>The catalog: the records of the group's repositories, each with the original name its canonical name ends with.\<close>

fun catalog :: "string \<Rightarrow> repository list \<Rightarrow> string list \<Rightarrow> mod_error + string list" where
  "catalog grp [] seen = Inr seen"
| "catalog grp (row # rows) seen =
     (case Option.bind (rp_canonical_name row) (\<lambda>name. map_option (Pair name) (rsplit_once (CHR ''+'') name)) of
        None \<Rightarrow> catalog grp rows seen
      | Some (name, usage, original) \<Rightarrow>
          if usage \<noteq> grp then catalog grp rows seen
          else if original = [] then Inl (Refused (''repository '' @ name @ '' has an empty original name''))
          else if rp_original_name row \<noteq> Some original then Inl (Refused (''repository '' @ name @ '' reported another original name''))
          else if name \<in> set seen then Inl (Refused (''repository '' @ name @ '' appears more than once in the catalog''))
          else catalog grp rows (bs_of_list (name # seen)))"

definition effective_root_group :: "string \<Rightarrow> extension_repositories_found \<Rightarrow> repository list \<Rightarrow> mod_error + string" where
  "effective_root_group hub survey repositories =
     (case extension_usage_prefix hub of
        None \<Rightarrow> Inl (Refused (''mapped repository '' @ hub @ '' is not an extension repository''))
      | Some grp \<Rightarrow>
          (case root_export grp of
             None \<Rightarrow> Inl (Refused (''mapped repository '' @ hub @ '' is not a root-isolated extension usage''))
           | Some usage \<Rightarrow>
               if hub \<notin> set (er_imported survey) then Inl (Refused (''mapped repository '' @ hub @ '' is not imported''))
               else if list_ex (\<lambda>imported. case extension_usage_prefix imported of
                      None \<Rightarrow> False | Some candidate \<Rightarrow> candidate \<noteq> grp \<and> root_export candidate = Some usage) (er_imported survey)
               then Inl (Refused (''root-isolated usage name '' @ usage @ '' conflicts with an imported repository''))
               else
                 (case catalog grp repositories [] of
                    Inl err \<Rightarrow> Inl err
                  | Inr seen \<Rightarrow>
                      if hub \<notin> set seen then Inl (Refused (''mapped root repository '' @ hub @ '' has no catalog record''))
                      else if list_ex (\<lambda>name. extension_usage_prefix name = Some grp \<and> name \<notin> set seen) (er_generated survey)
                      then Inl (Refused ''a generated repository has no catalog record'')
                      else if list_ex (\<lambda>name. name \<notin> set (er_generated survey)) seen
                      then Inl (Refused ''a catalog repository is absent from the generated inventory'')
                      else Inr grp)))"

definition unsupported_types :: "attribute_discriminator set" where
  "unsupported_types = {UNKNOWN, SELECTOR_LIST, FILESET_ENTRY_LIST, LICENSE, OUTPUT, OUTPUT_LIST}"

definition label_types :: "attribute_discriminator set" where
  "label_types = {LABEL, LABEL_LIST, LABEL_LIST_DICT, LABEL_DICT_UNARY, LABEL_KEYED_STRING_DICT}"

text \<open>The label a value names, nothing when it names none.\<close>

definition attribute_label :: "string \<Rightarrow> mod_error + label option" where
  "attribute_label v =
     (if starts_with ''@@'' v then Inr (Some v)
      else if starts_with ''//'' v then Inr (Some (''@@'' @ v))
      else if starts_with ''@'' v then Inl (Refused (''unresolved label '' @ v))
      else Inr None)"

fun check_values :: "string list \<Rightarrow> string option \<Rightarrow> string list \<Rightarrow> label list \<Rightarrow> mod_error + label list" where
  "check_values members reader [] inputs = Inr inputs"
| "check_values members reader (v # vs) inputs =
     (case reader of
        None \<Rightarrow> Inl (Refused ''no canonical repository name'')
      | Some repo \<Rightarrow>
          (case attribute_label v of
             Inl err \<Rightarrow> Inl err
           | Inr None \<Rightarrow> check_values members reader vs inputs
           | Inr (Some canonical) \<Rightarrow>
               (case split_once_str ''//'' (drop 2 canonical) of
                  None \<Rightarrow> Inl (Refused (''invalid label '' @ canonical))
                | Some (dest, _) \<Rightarrow>
                    if repo \<in> set members then check_values members reader vs (bs_of_list (canonical # inputs))
                    else if dest \<in> set members then Inl (Refused (''outside repository '' @ repo @ '' reads '' @ canonical))
                    else check_values members reader vs inputs)))"

fun check_attributes ::
  "(attribute \<Rightarrow> bool) \<Rightarrow> string list \<Rightarrow> string option \<Rightarrow> attribute list \<Rightarrow> label list \<Rightarrow> mod_error + label list" where
  "check_attributes has_unknown members reader [] inputs = Inr inputs"
| "check_attributes has_unknown members reader (a # attrs) inputs =
     (if has_unknown a then Inl (Refused (''attribute '' @ at_name a @ '' has unknown protobuf fields''))
      else if at_type a \<in> unsupported_types then Inl (Refused (''attribute '' @ at_name a @ '' has unsupported type''))
      else if at_type a \<notin> label_types then check_attributes has_unknown members reader attrs inputs
      else (case check_values members reader (attribute_label_values a) inputs of
              Inl err \<Rightarrow> Inl err
            | Inr inputs' \<Rightarrow> check_attributes has_unknown members reader attrs inputs'))"

fun check_repositories :: "(attribute \<Rightarrow> bool) \<Rightarrow> string list \<Rightarrow> repository list \<Rightarrow> label list \<Rightarrow> mod_error + label list" where
  "check_repositories has_unknown members [] inputs = Inr inputs"
| "check_repositories has_unknown members (r # rs) inputs =
     (case check_attributes has_unknown members (rp_canonical_name r) (rp_attribute r) inputs of
        Inl err \<Rightarrow> Inl err
      | Inr inputs' \<Rightarrow> check_repositories has_unknown members rs inputs')"

definition resolve_isolated_root ::
  "(attribute \<Rightarrow> bool) \<Rightarrow> json_parser \<Rightarrow> string \<Rightarrow> string \<Rightarrow> extension_repositories_found \<Rightarrow> repository list \<Rightarrow> mod_error + isolated_scope" where
  "resolve_isolated_root has_unknown from_str root root_mapping survey repositories =
     (case strip_prefix ''@'' root of
        None \<Rightarrow> Inl (Refused ''expected an apparent repository name beginning with @'')
      | Some name \<Rightarrow>
          if name = [] \<or> list_ex (\<lambda>ch. ch \<in> {CHR ''@'', CHR ''/'', CHR ''%'', CHR ''+'', CHR '':''}) name
          then Inl (Refused ''expected one apparent repository name without a path or canonical prefix'')
          else
     (case Option.bind (from_str root_mapping) (de_map de_string) of
        None \<Rightarrow> Inl (Refused ''invalid root repository mapping'')
      | Some mapping \<Rightarrow>
     (case bt_get mapping name of
        None \<Rightarrow> Inl (Refused ''root import is missing from the repository mapping'')
      | Some hub \<Rightarrow>
     (case effective_root_group hub survey repositories of
        Inl err \<Rightarrow> Inl err
      | Inr grp \<Rightarrow>
     (case find (\<lambda>other. other \<noteq> hub \<and> extension_usage_prefix other = Some grp) (er_imported survey) of
        Some other \<Rightarrow> Inl (Refused (''extra imported repository '' @ other @ '' belongs to the isolated usage''))
      | None \<Rightarrow>
          (let members = filter (\<lambda>repo. extension_usage_prefix repo = Some grp) (er_generated survey)
           in case check_repositories has_unknown members repositories [] of
                Inl err \<Rightarrow> Inl err
              | Inr inputs \<Rightarrow>
                  Inr \<lparr>sc_anchor = name, sc_members = members, sc_aliases = mapping, sc_repository_inputs = inputs\<rparr>))))))"

subsection \<open>Nothing outside reads the scope\<close>

text \<open>What the labels of a repository's attributes may name, and where those of a member are recorded.\<close>

definition reads_inside :: "string list \<Rightarrow> label list \<Rightarrow> string option \<Rightarrow> string \<Rightarrow> bool" where
  "reads_inside members inputs reader v \<longleftrightarrow>
     (case (reader, attribute_label v) of
        (Some repo, Inr None) \<Rightarrow> True
      | (Some repo, Inr (Some l)) \<Rightarrow>
          (case split_once_str ''//'' (drop 2 l) of None \<Rightarrow> False | Some (dest, _) \<Rightarrow> if repo \<in> set members then l \<in> set inputs else dest \<notin> set members)
      | _ \<Rightarrow> False)"

lemma reads_inside_mono:
  assumes "reads_inside members ls reader v" "set ls \<subseteq> set ls'"
  shows "reads_inside members ls' reader v"
proof (cases "attribute_label v")
  case (Inr x)
  show ?thesis
  proof (cases x)
    case None
    with Inr assms show ?thesis by (simp add: reads_inside_def split: option.splits)
  next
    case (Some l)
    with Inr assms show ?thesis
      by (cases reader; cases "split_once_str ''//'' (drop 2 l)") (auto simp: reads_inside_def split: if_splits)
  qed
qed (use assms in \<open>simp add: reads_inside_def split: option.splits\<close>)

lemma check_values_ok:
  "check_values members reader vs inputs = Inr out \<Longrightarrow> set inputs \<subseteq> set out \<and> (\<forall>v \<in> set vs. reads_inside members out reader v)"
proof (induction members reader vs inputs rule: check_values.induct)
  case (2 members reader v vs inputs)
  obtain repo where repo: "reader = Some repo" using 2(4) by (auto split: option.splits)
  consider (none) "attribute_label v = Inr None" "check_values members reader vs inputs = Inr out"
    | (member) l dest p where "attribute_label v = Inr (Some l)" "split_once_str ''//'' (drop 2 l) = Some (dest, p)" "repo \<in> set members"
        "check_values members reader vs (bs_of_list (l # inputs)) = Inr out"
    | (other) l dest p where "attribute_label v = Inr (Some l)" "split_once_str ''//'' (drop 2 l) = Some (dest, p)" "repo \<notin> set members" "dest \<notin> set members"
        "check_values members reader vs inputs = Inr out"
    using 2(4) repo by (auto split: option.splits sum.splits if_splits)
  then show ?case
  proof cases
    case none
    then show ?thesis using 2(1) [OF repo none(1)] by (auto simp: reads_inside_def repo)
  next
    case member
    then show ?thesis using 2(2) [OF repo member(1) refl member(2) refl member(3,4)] by (auto simp: reads_inside_def repo)
  next
    case other
    then show ?thesis using 2(3) [OF repo other(1) refl other(2) refl other(3,4,5)] by (auto simp: reads_inside_def repo)
  qed
qed simp

definition attributes_inside :: "(attribute \<Rightarrow> bool) \<Rightarrow> string list \<Rightarrow> label list \<Rightarrow> string option \<Rightarrow> attribute list \<Rightarrow> bool" where
  "attributes_inside has_unknown members ls reader attrs \<longleftrightarrow>
     (\<forall>a \<in> set attrs. \<not> has_unknown a \<and> at_type a \<notin> unsupported_types \<and>
       (at_type a \<in> label_types \<longrightarrow> (\<forall>v \<in> set (attribute_label_values a). reads_inside members ls reader v)))"

lemma attributes_inside_mono:
  "attributes_inside has_unknown members ls reader attrs \<Longrightarrow> set ls \<subseteq> set ls' \<Longrightarrow> attributes_inside has_unknown members ls' reader attrs"
  using reads_inside_mono unfolding attributes_inside_def by blast

lemma check_attributes_ok:
  "check_attributes has_unknown members reader attrs inputs = Inr out \<Longrightarrow> set inputs \<subseteq> set out \<and> attributes_inside has_unknown members out reader attrs"
proof (induction has_unknown members reader attrs inputs rule: check_attributes.induct)
  case (2 has_unknown members reader a attrs inputs)
  have ok: "\<not> has_unknown a" "at_type a \<notin> unsupported_types" using 2(3) by (auto split: if_splits)
  show ?case
  proof (cases "at_type a \<in> label_types")
    case True
    then obtain mid where m: "check_values members reader (attribute_label_values a) inputs = Inr mid"
        "check_attributes has_unknown members reader attrs mid = Inr out"
      using 2(3) by (auto split: if_splits sum.splits)
    have rest: "set mid \<subseteq> set out" "attributes_inside has_unknown members out reader attrs" using 2(2) [OF ok _ m] True by simp_all
    have here: "set inputs \<subseteq> set mid" "\<forall>v \<in> set (attribute_label_values a). reads_inside members mid reader v" using check_values_ok [OF m(1)] by simp_all
    have "\<forall>v \<in> set (attribute_label_values a). reads_inside members out reader v" using here(2) reads_inside_mono [OF _ rest(1)] by blast
    then show ?thesis using ok rest here(1) by (simp add: attributes_inside_def)
  next
    case False
    then show ?thesis using 2(1) [OF ok] 2(3) ok by (simp add: attributes_inside_def)
  qed
qed (simp add: attributes_inside_def)

lemma check_repositories_ok:
  "check_repositories has_unknown members rs inputs = Inr out \<Longrightarrow>
   set inputs \<subseteq> set out \<and> (\<forall>r \<in> set rs. attributes_inside has_unknown members out (rp_canonical_name r) (rp_attribute r))"
proof (induction has_unknown members rs inputs rule: check_repositories.induct)
  case (2 has_unknown members r rs inputs)
  then obtain mid where m: "check_attributes has_unknown members (rp_canonical_name r) (rp_attribute r) inputs = Inr mid"
      "check_repositories has_unknown members rs mid = Inr out" by (auto split: sum.splits)
  from 2(1) [OF m] check_attributes_ok [OF m(1)] show ?case using attributes_inside_mono by auto
qed simp

lemma catalog_ok:
  "catalog grp rows seen = Inr out \<Longrightarrow>
   set out = set seen \<union> {name. \<exists>row \<in> set rows. rp_canonical_name row = Some name \<and> usage_of name = Some grp} \<and>
   (\<forall>row \<in> set rows. \<forall>name. rp_canonical_name row = Some name \<and> usage_of name = Some grp \<longrightarrow>
      (\<exists>original. rp_original_name row = Some original \<and> name = grp @ ''+'' @ original))"
proof (induction rows arbitrary: seen)
  case (Cons row rows)
  show ?case
  proof (cases "\<exists>name. rp_canonical_name row = Some name \<and> usage_of name = Some grp")
    case False
    then have "catalog grp rows seen = Inr out" using Cons.prems by (auto simp: bind_eq_Some_conv split: option.splits if_splits)
    from Cons.IH [OF this] False show ?thesis by auto
  next
    case True
    then obtain name original where n: "rp_canonical_name row = Some name" "rsplit_once (CHR ''+'') name = Some (grp, original)" by auto
    then have "rp_original_name row = Some original" "catalog grp rows (bs_of_list (name # seen)) = Inr out"
      using Cons.prems by (auto split: if_splits)
    moreover have "name = grp @ ''+'' @ original" using n(2) by (simp add: rsplit_once_Some)
    ultimately show ?thesis using Cons.IH [of "bs_of_list (name # seen)"] n by auto
  qed
qed simp

lemma effective_root_group_ok:
  assumes "effective_root_group hub survey rs = Inr grp"
  shows "extension_usage_prefix hub = Some grp" "hub \<in> set (er_imported survey)"
    "{name \<in> set (er_generated survey). extension_usage_prefix name = Some grp} =
     {name. \<exists>row \<in> set rs. rp_canonical_name row = Some name \<and> extension_usage_prefix name = Some grp}"
proof -
  obtain usage seen where g: "extension_usage_prefix hub = Some grp" "root_export grp = Some usage" "hub \<in> set (er_imported survey)" "catalog grp rs [] = Inr seen"
      "\<forall>name \<in> set (er_generated survey). extension_usage_prefix name = Some grp \<longrightarrow> name \<in> set seen" "\<forall>name \<in> set seen. name \<in> set (er_generated survey)"
    using assms by (auto simp: effective_root_group_def list_ex_iff split: option.splits if_splits sum.splits)
  show "extension_usage_prefix hub = Some grp" "hub \<in> set (er_imported survey)" by (fact g)+
  have seen: "set seen = {name. \<exists>row \<in> set rs. rp_canonical_name row = Some name \<and> usage_of name = Some grp}" using catalog_ok [OF g(4)] by simp
  have hub: "is_extension_repo hub" "usage_of hub = Some grp" using g(1) by (auto simp: extension_usage_prefix_def split: if_splits)
  have "extension_usage_prefix name = Some grp \<longleftrightarrow> usage_of name = Some grp" for name
    using usage_of_same [of hub name] hub by (auto simp: extension_usage_prefix_def)
  then show "{name \<in> set (er_generated survey). extension_usage_prefix name = Some grp} =
     {name. \<exists>row \<in> set rs. rp_canonical_name row = Some name \<and> extension_usage_prefix name = Some grp}"
    using g(5,6) seen by auto
qed


subsection \<open>Readers are connected\<close>

lemma reader_packages_ok:
  "reader_packages scope files loads readers = Inr out \<Longrightarrow>
   set out = set readers \<union> {scope_package scope build | build ls. (build, ls) \<in> set loads \<and> List.map_filter (scope_canonical scope) ls \<noteq> []} \<and>
   (\<forall>(build, ls) \<in> set loads. set (List.map_filter (scope_canonical scope) ls) \<subseteq> set files)"
proof (induction scope files loads readers rule: reader_packages.induct)
  case (2 scope files build ls rest readers)
  then have n: "find (\<lambda>ld. ld \<notin> set files) (List.map_filter (scope_canonical scope) ls) = None"
    and rec: "reader_packages scope files rest (if List.map_filter (scope_canonical scope) ls = [] then readers
      else bs_of_list (scope_package scope build # readers)) = Inr out" by (auto simp: Let_def split: option.splits)
  from 2(1) [OF refl n rec] n show ?case by (auto simp: find_None_iff)
qed auto

lemma cover_targets_readers: "cv_direct_readers (fold (cover_target scope) targets cv) = cv_direct_readers cv"
  by (induction targets arbitrary: cv) (auto simp: cover_target_def Let_def split: option.splits)

lemma cover_inputs_readers: "cv_direct_readers (fold (cover_inputs scope) targets cv) = cv_direct_readers cv @ map (\<lambda>t. scoped_inputs scope t \<noteq> []) targets"
  by (induction targets arbitrary: cv) (auto simp: cover_inputs_def)

lemma coverage_readers: "cv_direct_readers (coverage_record scope targets cv) = cv_direct_readers cv @ map (\<lambda>t. scoped_inputs scope t \<noteq> []) targets"
  by (simp add: coverage_record_def cover_inputs_readers cover_targets_readers)

lemma connect_target_rule:
  "qt_rule t = Some r \<Longrightarrow> \<exists>r'. qt_rule (connect_target scope loads readers (t, direct)) = Some r' \<and> rule_name r' = rule_name r \<and>
     set (rule_input r) \<subseteq> set (rule_input r') \<and>
     (\<not> starts_with ''//external:'' (rule_name r) \<and> scope_canonical scope (rule_name r) = None \<and> (direct \<or> scope_package scope (rule_name r) \<in> set readers) \<longrightarrow>
       external_label (sc_anchor scope) \<in> set (rule_input r'))"
  by (auto simp: connect_target_def Let_def split: option.splits prod.splits)

text \<open>
  C36: every target outside the scope that reads it depends on its hub. A rule is a reader when one of its inputs belongs to the scope, or when the BUILD file
  of its package loads a file of the scope; its other inputs are kept, and the run fails when a loaded file was
  not returned by the query.
\<close>

theorem readers_depend_on_root:
  assumes "connect_external_readers scope loads targets (coverage_record scope targets coverage_default) = Inr out"
    and "t \<in> set targets" "qt_rule t = Some r" "\<not> starts_with ''//external:'' (rule_name r)" "scope_canonical scope (rule_name r) = None"
    and "scoped_inputs scope t \<noteq> [] \<or>
      (\<exists>build ls. (build, ls) \<in> set loads \<and> List.map_filter (scope_canonical scope) ls \<noteq> [] \<and> scope_package scope build = scope_package scope (rule_name r))"
  shows "\<exists>t' r'. t' \<in> set out \<and> qt_rule t' = Some r' \<and> rule_name r' = rule_name r \<and>
    insert (external_label (sc_anchor scope)) (set (rule_input r)) \<subseteq> set (rule_input r')"
proof -
  let ?direct = "\<lambda>t. scoped_inputs scope t \<noteq> []"
  obtain readers where rd: "reader_packages scope (cv_files (coverage_record scope targets coverage_default)) loads [] = Inr readers"
      "out = map (connect_target scope loads readers) (zip targets (map ?direct targets))"
    using assms(1) by (auto simp: connect_external_readers_def coverage_readers coverage_default_def split: sum.splits)
  have "?direct t \<or> scope_package scope (rule_name r) \<in> set readers" using assms(6) reader_packages_ok [OF rd(1)] by auto metis
  moreover have "(t, ?direct t) \<in> set (zip targets (map ?direct targets))" using assms(2) by (simp add: zip_map2 zip_same_conv_map)
  then have "connect_target scope loads readers (t, ?direct t) \<in> set out" unfolding rd(2) by (simp add: image_eqI)
  ultimately show ?thesis using connect_target_rule [OF assms(3), of scope loads readers "?direct t"] assms(4,5) by blast
qed

subsection \<open>The module graph is complete\<close>

inductive in_graph :: "graph_module \<Rightarrow> graph_module \<Rightarrow> bool" where
  self: "in_graph m m"
| child: "c \<in> set (module_children m) \<Longrightarrow> in_graph c n \<Longrightarrow> in_graph m n"

lemma note_module_ok:
  "fst ` set (fst (note_module m st)) = fst ` set (fst st) \<union> (if gm_key m = ''<root>'' then {} else {gm_key m})"
  "set (snd (note_module m st)) \<subseteq> set (snd st) \<union> (if gm_unexpanded m then {} else {gm_key m})"
  by (auto simp: note_module_def fst_set_bt_insert split: if_splits)

definition keys_noted :: "graph_module list \<Rightarrow> (string, string) btree \<times> string list \<Rightarrow> (string, string) btree \<times> string list \<Rightarrow> bool" where
  "keys_noted ms st st' \<longleftrightarrow>
     fst ` set (fst st) \<subseteq> fst ` set (fst st') \<and>
     (\<forall>m \<in> set ms. \<forall>n. in_graph m n \<and> gm_key n \<noteq> ''<root>'' \<longrightarrow> gm_key n \<in> fst ` set (fst st')) \<and>
     (\<forall>k \<in> set (snd st'). k \<in> set (snd st) \<or> (\<exists>m \<in> set ms. \<exists>n. in_graph m n \<and> gm_key n = k \<and> \<not> gm_unexpanded n))"

lemma walk_modules_ok:
  "walk_module root m st = Inr st' \<Longrightarrow> keys_noted [m] st st'"
  "walk_modules ms st = Inr st' \<Longrightarrow> keys_noted ms st st'"
proof (induction root m st and ms st arbitrary: st' and st' rule: walk_module_walk_modules.induct)
  case (1 root m st)
  then have w: "module_refusal root m = None" "walk_modules (module_children m) (note_module m st) = Inr st'" by (auto split: option.splits)
  have sub: "keys_noted (module_children m) (note_module m st) st'" using 1(1) [OF w] .
  have "gm_key n \<in> fst ` set (fst st')" if "in_graph m n" "gm_key n \<noteq> ''<root>''" for n
    using that(1)
  proof cases
    case self
    then show ?thesis using sub that(2) note_module_ok(1) [of m st] by (auto simp: keys_noted_def)
  next
    case (child c)
    then show ?thesis using sub that(2) unfolding keys_noted_def by blast
  qed
  moreover have "k \<in> set (snd st) \<or> (\<exists>n. in_graph m n \<and> gm_key n = k \<and> \<not> gm_unexpanded n)" if k: "k \<in> set (snd st')" for k
  proof -
    consider "k \<in> set (snd (note_module m st))" | c n where "c \<in> set (module_children m)" "in_graph c n" "gm_key n = k" "\<not> gm_unexpanded n"
      using bspec [OF conjunct2 [OF conjunct2 [OF sub [unfolded keys_noted_def]]] k] by blast
    then show ?thesis
    proof cases
      case 1
      then show ?thesis using note_module_ok(2) [of m st] in_graph.self [of m] by (auto split: if_splits)
    qed (blast intro: in_graph.child)
  qed
  moreover have "fst ` set (fst st) \<subseteq> fst ` set (fst st')" using sub note_module_ok(1) [of m st] by (auto simp: keys_noted_def)
  ultimately show ?case by (simp add: keys_noted_def)
next
  case (3 m ms st)
  then obtain mid where w: "walk_module False m st = Inr mid" "walk_modules ms mid = Inr st'" by (auto split: sum.splits)
  from 3(1) [OF w(1)] 3(2) [OF w] show ?case unfolding keys_noted_def by (auto 0 3)
qed (simp add: keys_noted_def)

text \<open>
  The module graph is used for an isolated root only when it hides nothing. If the names are accepted, every module anywhere in the graph is
  expanded at some place in it, so the dependencies of all of them are known.
\<close>

theorem isolated_graph_expanded:
  assumes "isolated_module_repo_names from_str json canonical_to_apparent = Inr names"
  shows "\<exists>j graph. from_str (from_brace json) = Some j \<and> de_module j = Some graph \<and> gm_key graph = ''<root>'' \<and>
    (\<forall>n. in_graph graph n \<and> gm_key n \<noteq> ''<root>'' \<longrightarrow> (\<exists>n'. in_graph graph n' \<and> gm_key n' = gm_key n \<and> \<not> gm_unexpanded n'))"
proof -
  obtain j graph keys expanded where g: "from_str (from_brace json) = Some j" "de_module j = Some graph" "walk_module True graph ([], []) = Inr (keys, expanded)"
      "find (\<lambda>key. key \<notin> set expanded) (bt_keys keys) = None"
    using assms by (auto simp: isolated_module_repo_names_def bind_eq_Some_conv split: option.splits sum.splits)
  have k: "keys_noted [graph] ([], []) (keys, expanded)" by (rule walk_modules_ok(1) [OF g(3)])
  have "gm_key graph = ''<root>''" using g(3) by (auto simp: module_refusal_def Let_def split: option.splits if_splits)
  moreover have "\<exists>n'. in_graph graph n' \<and> gm_key n' = gm_key n \<and> \<not> gm_unexpanded n'" if "in_graph graph n" "gm_key n \<noteq> ''<root>''" for n
  proof -
    have "gm_key n \<in> set expanded" using k that g(4) by (force simp: keys_noted_def find_None_iff)
    then show ?thesis using k by (simp add: keys_noted_def)
  qed
  ultimately show ?thesis using g(1,2) by blast
qed

subsection \<open>A concrete scope\<close>

definition iso_hub :: string where
  "iso_hub = ''rules+_ext+++usage+hub''"

definition iso_survey :: extension_repositories_found where
  "iso_survey = \<lparr>er_imported = [iso_hub], er_generated = [iso_hub], er_complete_mappings = True, er_module_mappings = []\<rparr>"

definition iso_parser :: json_parser where
  "iso_parser _ = Some (JObj [(''hub'', JStr iso_hub)])"

definition iso_scope :: isolated_scope where
  "iso_scope = \<lparr>sc_anchor = ''hub'', sc_members = [iso_hub], sc_aliases = [(''hub'', iso_hub)], sc_repository_inputs = []\<rparr>"

definition iso_reader :: qtarget where
  "iso_reader = Query_Target.sample_lib\<lparr>qt_rule := Some (rule_default\<lparr>rule_name := ''//p:bin'', rule_input := [''@hub//:lib'']\<rparr>)\<rparr>"


theorem readers_depend_on_root_witness:
  "\<exists>out t' r'. connect_external_readers iso_scope [] [iso_reader] (coverage_record iso_scope [iso_reader] coverage_default) = Inr out \<and>
    t' \<in> set out \<and> qt_rule t' = Some r' \<and> external_label ''hub'' \<in> set (rule_input r')"
proof -
  obtain out where out: "connect_external_readers iso_scope [] [iso_reader] (coverage_record iso_scope [iso_reader] coverage_default) = Inr out"
    by (simp add: connect_external_readers_def)
  let ?r = "rule_default\<lparr>rule_name := ''//p:bin'', rule_input := [''@hub//:lib'']\<rparr>"
  have "qt_rule iso_reader = Some ?r" by (simp add: iso_reader_def)
  moreover have "\<not> starts_with ''//external:'' (rule_name ?r)" "scope_canonical iso_scope (rule_name ?r) = None" "scoped_inputs iso_scope iso_reader \<noteq> []"
    by code_simp+
  ultimately show ?thesis
    using readers_depend_on_root [OF out, of iso_reader ?r] out by (auto simp: iso_scope_def)
qed

theorem isolated_graph_expanded_witness:
  "\<exists>j graph. Some (JObj [(''key'', JStr ''<root>''), (''name'', JStr ''''), (''dependencies'', JArr [])]) = Some j \<and> de_module j = Some graph \<and> gm_key graph = ''<root>''"
proof -
  have "isolated_module_repo_names (\<lambda>_. Some (JObj [(''key'', JStr ''<root>''), (''name'', JStr ''''), (''dependencies'', JArr [])])) ''{'' [] = Inr []"
    by code_simp
  from isolated_graph_expanded [OF this] show ?thesis by blast
qed

end
