(* ===== verification/Query_Stream.thy ===== *)
theory Query_Stream
  imports Query_Target
begin

section \<open>The length-delimited query stream (bazel.rs)\<close>

text \<open>
  \<^verbatim>\<open>read_message_length\<close>, \<^verbatim>\<open>read_raw_batch\<close> and \<^verbatim>\<open>decode_target_stream\<close> of \<^verbatim>\<open>src/bazel.rs\<close>. A reader is the bytes
  it still has to deliver and whether reading past them fails; the length prefix is kept at the 64
  bits of the code, where a shift drops high bits. Messages are decoded by the \<^verbatim>\<open>buffa\<close> crate, a parameter.
\<close>

datatype stream_error =
    TruncatedPrefix
  | PrefixNotUsize "64 word"
  | PrefixOverflow
  | TruncatedMessage
  | CapacityOverflow
  | IoError
  | DecodeError string

record reader =
  rd_bytes :: bytes
  rd_fails :: bool

text \<open>The loop of \<^verbatim>\<open>read_message_length\<close>, with its two variables; it consumes a byte each round.\<close>

fun read_length_loop :: "bool \<Rightarrow> bytes \<Rightarrow> 64 word \<Rightarrow> nat \<Rightarrow> stream_error + (nat option \<times> bytes)" where
  "read_length_loop fails [] value shift =
     (if fails then Inl IoError
      else if shift = 0 then Inr (None, []) else Inl TruncatedPrefix)"
| "read_length_loop fails (byte # rest) value shift =
     (let value' = or value (push_bit shift (ucast (and byte 0x7f) :: 64 word))
      in if and byte 0x80 = 0 then
           (if unat value' \<le> usize_max then Inr (Some (unat value'), rest) else Inl (PrefixNotUsize value'))
         else if shift + 7 \<ge> 64 then Inl PrefixOverflow
         else read_length_loop fails rest value' (shift + 7))"

definition read_message_length :: "reader \<Rightarrow> stream_error + (nat option \<times> reader)" where
  "read_message_length r =
     map_sum id (\<lambda>(n, rest). (n, r\<lparr>rd_bytes := rest\<rparr>)) (read_length_loop (rd_fails r) (rd_bytes r) 0 0)"

definition DECODE_BATCH_MESSAGES :: nat where
  "DECODE_BATCH_MESSAGES = 8192"

definition DECODE_BATCH_BYTES :: nat where
  "DECODE_BATCH_BYTES = 32 * 1024 * 1024"

record raw_batch =
  rb_buffer :: bytes
  rb_bounds :: "(nat \<times> nat) list"

definition batch_clear :: raw_batch where
  "batch_clear = \<lparr>rb_buffer = [], rb_bounds = []\<rparr>"

definition slices :: "raw_batch \<Rightarrow> bytes list" where
  "slices b = map (\<lambda>(start, end). take (end - start) (drop start (rb_buffer b))) (rb_bounds b)"

text \<open>\<^verbatim>\<open>Vec::reserve\<close> panics above \<^verbatim>\<open>isize::MAX\<close> bytes.\<close>

definition isize_max :: nat where
  "isize_max = 2 ^ 63 - 1"

definition batch_has_room :: "raw_batch \<Rightarrow> bool" where
  "batch_has_room b \<longleftrightarrow> length (rb_bounds b) < DECODE_BATCH_MESSAGES \<and> length (rb_buffer b) < DECODE_BATCH_BYTES"

lemma read_length_loop_rest:
  "read_length_loop fails bs val shift = Inr (Some n, rest) \<Longrightarrow> length rest < length bs"
  by (induction fails bs val shift rule: read_length_loop.induct) (auto simp: Let_def split: if_splits)

function raw_batch_loop :: "reader \<Rightarrow> raw_batch \<Rightarrow> stream_error + (raw_batch \<times> reader)" where
  "raw_batch_loop r b =
     (if batch_has_room b then
        (case read_message_length r of
           Inl e \<Rightarrow> Inl e
         | Inr (None, r') \<Rightarrow> Inr (b, r')
         | Inr (Some n, r') \<Rightarrow>
             if length (rb_buffer b) + n > isize_max then Inl CapacityOverflow
             else if length (rd_bytes r') < n then Inl (if rd_fails r' then IoError else TruncatedMessage)
             else
               raw_batch_loop (r'\<lparr>rd_bytes := drop n (rd_bytes r')\<rparr>)
                 \<lparr>rb_buffer = rb_buffer b @ take n (rd_bytes r'),
                  rb_bounds = rb_bounds b @ [(length (rb_buffer b), length (rb_buffer b) + n)]\<rparr>)
      else Inr (b, r))"
  by pat_completeness auto
termination
  by (relation "measure (\<lambda>(r, b). length (rd_bytes r))")
    (auto simp: read_message_length_def map_sum_def split: sum.splits dest: read_length_loop_rest)

declare raw_batch_loop.simps [simp del]

definition read_raw_batch :: "reader \<Rightarrow> stream_error + (bool \<times> raw_batch \<times> reader)" where
  "read_raw_batch r =
     map_sum id (\<lambda>(b, r'). (rb_bounds b \<noteq> [], b, r')) (raw_batch_loop r batch_clear)"


lemma read_message_length_rest:
  "read_message_length r = Inr (Some n, r') \<Longrightarrow> length (rd_bytes r') < length (rd_bytes r)"
  by (auto simp: read_message_length_def map_sum_def split: sum.splits dest: read_length_loop_rest)

lemma read_message_length_None:
  "read_message_length r = Inr (None, r') \<Longrightarrow> length (rd_bytes r') \<le> length (rd_bytes r)"
proof -
  have "read_length_loop f bs v s = Inr (None, rest) \<Longrightarrow> length rest \<le> length bs" for f bs v s and rest
    by (induction f bs v s rule: read_length_loop.induct) (auto simp: Let_def split: if_splits)
  then show "read_message_length r = Inr (None, r') \<Longrightarrow> length (rd_bytes r') \<le> length (rd_bytes r)"
    by (auto simp: read_message_length_def map_sum_def split: sum.splits)
qed

lemma raw_batch_loop_rest:
  "raw_batch_loop r b = Inr (b', r') \<Longrightarrow> length (rb_bounds b) \<le> length (rb_bounds b') \<and>
     length (rd_bytes r') + (length (rb_bounds b') - length (rb_bounds b)) \<le> length (rd_bytes r)"
proof (induction r b rule: raw_batch_loop.induct)
  case (1 r b)
  show ?case
  proof (cases "batch_has_room b")
    case more: True
    show ?thesis
    proof (cases "read_message_length r")
      case (Inl e)
      then show ?thesis using 1(2) more by (simp add: raw_batch_loop.simps [of r])
    next
      case (Inr p)
      show ?thesis
      proof (cases p)
        case (Pair len r1)
        show ?thesis
        proof (cases len)
          case None
          then show ?thesis using 1(2) more Inr Pair read_message_length_None [of r r1]
            by (simp add: raw_batch_loop.simps [of r])
        next
          case (Some n)
          have "read_message_length r = (Inr (Some n, r1))"
            using Inr Pair Some by simp
          then show ?thesis
            using 1(1) [OF more Inr Pair [symmetric] Some] 1(2) more read_message_length_rest [of r n r1]
            by (simp add: raw_batch_loop.simps [of r] split: if_splits) arith
        qed
      qed
    qed
  next
    case False
    then show ?thesis using 1(2) by (simp add: raw_batch_loop.simps [of r])
  qed
qed


text \<open>
  The loop over batches. \<^verbatim>\<open>transform\<close> is the caller's closure on the batch just decoded, with its own
  state.
\<close>

function decode_batches ::
  "(bytes \<Rightarrow> string + qtarget) \<Rightarrow> (qtarget list \<Rightarrow> 's \<Rightarrow> qtarget list \<times> 's) \<Rightarrow> reader \<Rightarrow> qtarget list \<Rightarrow> 's \<Rightarrow>
   stream_error + (qtarget list \<times> 's)" where
  "decode_batches decode transform r targets s =
     (case read_raw_batch r of
        Inl e \<Rightarrow> Inl e
      | Inr (has_more, b, r') \<Rightarrow>
          if \<not> has_more then Inr (targets, s)
          else
            (case collect_results (map (\<lambda>bs. map_sum id lower_target (decode bs)) (slices b)) of
               Inl msg \<Rightarrow> Inl (DecodeError msg)
             | Inr lowered \<Rightarrow>
                 (let (batch, s') = transform (List.map_filter id lowered) s
                  in decode_batches decode transform r' (targets @ batch) s')))"
  by pat_completeness auto
termination
proof (relation "measure (\<lambda>(decode, transform, r, targets, s). length (rd_bytes r))", goal_cases)
  case (2 decode transform r targets s p has_more q b r' lowered batch s')
  then have "raw_batch_loop r batch_clear = Inr (b, r')" "rb_bounds b \<noteq> []"
    by (auto simp: read_raw_batch_def map_sum_def split: sum.splits)
  then show ?case
    using raw_batch_loop_rest [of r batch_clear b r']
    by (cases "rb_bounds b") (simp_all add: batch_clear_def)
qed simp



declare decode_batches.simps [simp del]

definition decode_target_stream ::
  "(bytes \<Rightarrow> string + qtarget) \<Rightarrow> (qtarget list \<Rightarrow> 's \<Rightarrow> qtarget list \<times> 's) \<Rightarrow> reader \<Rightarrow> 's \<Rightarrow>
   stream_error + (qtarget list \<times> 's)" where
  "decode_target_stream decode transform r s = decode_batches decode transform r [] s"

subsection \<open>The length prefix\<close>

text \<open>The base-128 encoding that protocol buffers prescribe, and a framed message.\<close>

fun varint :: "nat \<Rightarrow> bytes" where
  "varint n = (if n < 128 then [word_of_nat n] else word_of_nat (n mod 128 + 128) # varint (n div 128))"

declare varint.simps [simp del]

definition frame :: "bytes \<Rightarrow> bytes" where
  "frame m = varint (length m) @ m"

definition encode_stream :: "bytes list \<Rightarrow> bytes" where
  "encode_stream ms = concat (map frame ms)"

lemma unat_less_64: "unat (v :: 64 word) < 2 ^ 64"
  using unsigned_less [of v] by simp

lemma u8_low7: "unat (and (b :: u8) 0x7f) = unat b mod 128"
proof -
  have eq: "and b 0x7f = take_bit 7 b" by (simp add: take_bit_eq_mask mask_eq_exp_minus_1)
  show ?thesis unfolding eq by (simp only: unsigned_take_bit_eq) (simp add: take_bit_eq_mod)
qed

lemma u8_high: "and (b :: u8) 0x80 = 0 \<longleftrightarrow> unat b < 128"
proof -
  have "and b 0x80 = 0 \<longleftrightarrow> \<not> bit b 7"
    using and_exp_eq_0_iff_not_bit [of b 7] by simp
  also have "\<dots> \<longleftrightarrow> \<not> bit (unat b) 7" by (simp add: bit_unsigned_iff)
  also have "\<dots> \<longleftrightarrow> even (unat b div 128)" by (simp add: bit_iff_odd)
  also have "\<dots> \<longleftrightarrow> unat b < 128"
  proof -
    have "unat b div 128 < 2" using unat_u8_less [of b] by (simp add: less_mult_imp_div_less)
    then show ?thesis by (auto elim!: evenE)
  qed
  finally show ?thesis .
qed

lemma or_shift:
  fixes v :: "64 word"
  assumes "unat v < 2 ^ s" "k * 2 ^ s < 2 ^ 64"
  shows "unat (or v (push_bit s (word_of_nat k))) = unat v + k * 2 ^ s"
proof -
  have "unat (push_bit s (word_of_nat k) :: 64 word) = k * 2 ^ s"
  proof -
    have eq: "push_bit s (word_of_nat k) = (word_of_nat (k * 2 ^ s) :: 64 word)" by (simp add: push_bit_eq_mult)
    show ?thesis unfolding eq using assms(2) by (simp only: unat_of_nat) simp
  qed
  moreover have "or (unat v) (push_bit s k) = unat v + push_bit s k"
  proof (rule disjunctive_add_eq_or [symmetric], rule bit_eqI)
    have "bit (unat v) i \<Longrightarrow> i < s" for i
      using take_bit_nat_eq_self [OF assms(1)] by (metis bit_take_bit_iff)
    then show "bit (and (unat v) (push_bit s k)) i = bit 0 i" for i
      by (auto simp: bit_and_iff bit_push_bit_iff dest: leD)
  qed
  ultimately show ?thesis by (simp add: unsigned_or_eq push_bit_eq_mult)
qed


lemma read_length_varint:
  fixes v :: "64 word"
  assumes "unat v < 2 ^ s" "s < 64" "n * 2 ^ s < 2 ^ 64"
  shows "read_length_loop fails (varint n @ rest) v s = Inr (Some (unat v + n * 2 ^ s), rest)"
  using assms
proof (induction n arbitrary: v s rule: varint.induct)
  case (1 n)
  let ?b = "word_of_nat (if n < 128 then n else n mod 128 + 128) :: u8"
  let ?v = "or v (push_bit s (ucast (and ?b 0x7f)))"
  have ub: "unat ?b = (if n < 128 then n else n mod 128 + 128)" by (simp add: unat_of_nat)
  have low: "ucast (and ?b 0x7f) = (word_of_nat (n mod 128) :: 64 word)"
    by (simp add: word_unat_eq_iff unsigned_ucast_eq u8_low7 ub unat_of_nat take_bit_eq_mod)
  have "n mod 128 * 2 ^ s < 2 ^ 64" using 1(4) by (rule le_less_trans [rotated]) simp
  from or_shift [OF 1(2) this] have uv: "unat ?v = unat v + n mod 128 * 2 ^ s" unfolding low .
  show ?case
  proof (cases "n < 128")
    case True
    have "unat ?v \<le> usize_max" using unat_less_64 [of ?v] by (simp add: usize_max_def)
    then show ?thesis using True uv u8_high [of ?b] ub
      by (simp add: varint.simps [of n] Let_def)
  next
    case False
    have "s + 7 < 64"
    proof (rule ccontr)
      assume "\<not> s + 7 < 64"
      then have "2 ^ 57 \<le> (2 :: nat) ^ s" by (intro power_increasing) simp_all
      with False have "128 * 2 ^ 57 \<le> n * 2 ^ s" by (intro mult_le_mono) simp_all
      with 1(4) show False by simp
    qed
    have "unat ?v < 2 ^ (s + 7)"
    proof -
      have "n mod 128 * 2 ^ s \<le> 127 * 2 ^ s" by (intro mult_right_mono) (simp_all add: less_Suc_eq_le [symmetric])
      with 1(2) uv have "unat ?v < 2 ^ s + 127 * 2 ^ s" by linarith
      also have "\<dots> = 2 ^ (s + 7)" by (simp add: power_add)
      finally show ?thesis .
    qed
    moreover have "n div 128 * 2 ^ (s + 7) < 2 ^ 64"
    proof -
      have "n div 128 * 2 ^ (s + 7) = n div 128 * 128 * 2 ^ s" by (simp add: power_add)
      also have "\<dots> \<le> n * 2 ^ s" by (intro mult_right_mono) simp_all
      finally show ?thesis using 1(4) by (rule le_less_trans)
    qed
    moreover have "unat ?v + n div 128 * 2 ^ (s + 7) = unat v + n * 2 ^ s"
    proof -
      have "n div 128 * 2 ^ (s + 7) = n div 128 * 128 * 2 ^ s" by (simp add: power_add)
      then have "unat ?v + n div 128 * 2 ^ (s + 7) = unat v + (n mod 128 + n div 128 * 128) * 2 ^ s"
        by (simp only: uv distrib_right add.assoc)
      then show ?thesis by simp
    qed
    ultimately show ?thesis
      using 1(1) [OF False, of ?v "s + 7"] \<open>s + 7 < 64\<close> False u8_high [of ?b] ub
      by (simp add: varint.simps [of n] Let_def)
  qed
qed

text \<open>A prefix never reads more than ten bytes and the length fits the 64 bits.\<close>

lemma read_length_bound:
  fixes v :: "64 word"
  shows "read_length_loop fails bs v s = Inr (Some n, rest) \<Longrightarrow> s = 7 * k \<Longrightarrow> k \<le> 9 \<Longrightarrow>
    n < 2 ^ 64 \<and> (\<exists>p. bs = p @ rest \<and> p \<noteq> [] \<and> length p \<le> 10 - k)"
proof (induction fails bs v s arbitrary: k rule: read_length_loop.induct)
  case (2 fails byte tl v s)
  let ?v = "or v (push_bit s (ucast (and byte 0x7f)))"
  show ?case
  proof (cases "and byte 0x80 = 0")
    case True
    with 2(2) have "n = unat ?v" "rest = tl" by (auto simp: Let_def split: if_splits)
    then show ?thesis
      using unat_less_64 [of ?v] 2(4) by (intro conjI exI [of _ "[byte]"]) simp_all
  next
    case False
    with 2(2) have "\<not> 64 \<le> s + 7" and rec: "read_length_loop fails tl ?v (s + 7) = Inr (Some n, rest)"
      by (auto simp: Let_def split: if_splits)
    then have "k + 1 \<le> 9" using 2(3) by simp
    from 2(1) [OF refl False \<open>\<not> 64 \<le> s + 7\<close> rec _ this] 2(3)
    obtain p where "n < 2 ^ 64" "tl = p @ rest" "length p \<le> 10 - (k + 1)" by auto
    then show ?thesis using \<open>k + 1 \<le> 9\<close> by (intro conjI exI [of _ "byte # p"]) simp_all
  qed
qed (simp split: if_splits)

text \<open>
  The length prefix is read back exactly for every length below \<open>2 ^ 64\<close>, in any position of the stream; whatever
  the bytes are, a prefix takes between one and ten of them and its value fits 64 bits.
\<close>

theorem read_message_length_bounds:
  "(n < 2 ^ 64 \<longrightarrow> read_message_length (r\<lparr>rd_bytes := varint n @ rest\<rparr>) = Inr (Some n, r\<lparr>rd_bytes := rest\<rparr>)) \<and>
   (read_message_length r = Inr (Some m, r') \<longrightarrow>
      m < 2 ^ 64 \<and> (\<exists>p. rd_bytes r = p @ rd_bytes r' \<and> p \<noteq> [] \<and> length p \<le> 10))"
proof
  show "n < 2 ^ 64 \<longrightarrow> read_message_length (r\<lparr>rd_bytes := varint n @ rest\<rparr>) = Inr (Some n, r\<lparr>rd_bytes := rest\<rparr>)"
    using read_length_varint [of 0 0 n "rd_fails r" rest] by (simp add: read_message_length_def)
  show "read_message_length r = Inr (Some m, r') \<longrightarrow>
      m < 2 ^ 64 \<and> (\<exists>p. rd_bytes r = p @ rd_bytes r' \<and> p \<noteq> [] \<and> length p \<le> 10)"
    using read_length_bound [of "rd_fails r" "rd_bytes r" 0 0 m _ 0]
    by (auto simp: read_message_length_def map_sum_def split: sum.splits)
qed


subsection \<open>Batches are invisible\<close>

definition bounds_ok :: "raw_batch \<Rightarrow> bool" where
  "bounds_ok b \<longleftrightarrow> (\<forall>(s, e) \<in> set (rb_bounds b). s \<le> e \<and> e \<le> length (rb_buffer b))"

definition add_message :: "bytes \<Rightarrow> raw_batch \<Rightarrow> raw_batch" where
  "add_message m b = \<lparr>rb_buffer = rb_buffer b @ m,
     rb_bounds = rb_bounds b @ [(length (rb_buffer b), length (rb_buffer b) + length m)]\<rparr>"

lemma slices_add_message [simp]: "bounds_ok b \<Longrightarrow> slices (add_message m b) = slices b @ [m]"
  by (auto simp: slices_def add_message_def bounds_ok_def)

lemma length_bounds_add_message [simp]: "length (rb_bounds (add_message m b)) = Suc (length (rb_bounds b))"
  by (simp add: add_message_def)

lemma bounds_ok_add_message [simp]: "bounds_ok b \<Longrightarrow> bounds_ok (add_message m b)"
  by (auto simp: bounds_ok_def add_message_def)

lemma bounds_ok_clear [simp]: "bounds_ok batch_clear" "slices batch_clear = []" "rb_bounds batch_clear = []"
  by (simp_all add: bounds_ok_def slices_def batch_clear_def)

definition small :: "bytes \<Rightarrow> bool" where
  "small m \<longleftrightarrow> length m + DECODE_BATCH_BYTES \<le> isize_max"

lemma raw_batch_loop_full: "\<not> batch_has_room b \<Longrightarrow> raw_batch_loop r b = Inr (b, r)"
  by (simp add: raw_batch_loop.simps [of r b])

lemma raw_batch_loop_frame:
  assumes "batch_has_room b" "small m"
  shows "raw_batch_loop (r\<lparr>rd_bytes := frame m @ rest\<rparr>) b = raw_batch_loop (r\<lparr>rd_bytes := rest\<rparr>) (add_message m b)"
proof -
  have "length m < 2 ^ 64" using assms(2) by (simp add: small_def isize_max_def)
  then have "read_message_length (r\<lparr>rd_bytes := frame m @ rest\<rparr>) = Inr (Some (length m), r\<lparr>rd_bytes := m @ rest\<rparr>)"
    using read_length_varint [of 0 0 "length m" "rd_fails r" "m @ rest"]
    by (simp add: read_message_length_def frame_def)
  moreover have "\<not> isize_max < length (rb_buffer b) + length m"
    using assms by (simp add: batch_has_room_def small_def)
  ultimately show ?thesis
    using assms(1) by (subst raw_batch_loop.simps) (simp add: add_message_def)
qed

lemma raw_batch_loop_frames:
  assumes "bounds_ok b" "list_all small ms"
  shows "\<exists>taken left b'. ms = taken @ left \<and> bounds_ok b' \<and> slices b' = slices b @ taken \<and>
     length (rb_bounds b') = length (rb_bounds b) + length taken \<and>
     (taken = [] \<longrightarrow> b' = b) \<and>
     (left = [] \<and> batch_has_room b' \<and>
        raw_batch_loop (r\<lparr>rd_bytes := encode_stream ms @ tail\<rparr>) b = raw_batch_loop (r\<lparr>rd_bytes := tail\<rparr>) b' \<or>
      raw_batch_loop (r\<lparr>rd_bytes := encode_stream ms @ tail\<rparr>) b = Inr (b', r\<lparr>rd_bytes := encode_stream left @ tail\<rparr>) \<and>
        \<not> batch_has_room b')"
  using assms
proof (induction ms arbitrary: b)
  case Nil
  then show ?case by (intro exI [of _ "[]"] exI [of _ b]) (auto simp: encode_stream_def raw_batch_loop_full)
next
  case (Cons m ms)
  show ?case
  proof (cases "batch_has_room b")
    case True
    have "bounds_ok (add_message m b)" "list_all small ms" using Cons.prems by simp_all
    from Cons.IH [OF this] obtain taken left b' where ih: "ms = taken @ left" "bounds_ok b'"
      "slices b' = slices (add_message m b) @ taken" "length (rb_bounds b') = length (rb_bounds (add_message m b)) + length taken"
      "left = [] \<and> batch_has_room b' \<and>
         raw_batch_loop (r\<lparr>rd_bytes := encode_stream ms @ tail\<rparr>) (add_message m b) = raw_batch_loop (r\<lparr>rd_bytes := tail\<rparr>) b' \<or>
       raw_batch_loop (r\<lparr>rd_bytes := encode_stream ms @ tail\<rparr>) (add_message m b) =
           Inr (b', r\<lparr>rd_bytes := encode_stream left @ tail\<rparr>) \<and> \<not> batch_has_room b'" by blast
    have "raw_batch_loop (r\<lparr>rd_bytes := encode_stream (m # ms) @ tail\<rparr>) b =
        raw_batch_loop (r\<lparr>rd_bytes := encode_stream ms @ tail\<rparr>) (add_message m b)"
      using raw_batch_loop_frame [where r = r and m = m and rest = "encode_stream ms @ tail", OF True] Cons.prems by (simp add: encode_stream_def)
    note step = this
    have "m # ms = (m # taken) @ left" "slices b' = slices b @ (m # taken)"
      "length (rb_bounds b') = length (rb_bounds b) + length (m # taken)" "m # taken = [] \<longrightarrow> b' = b"
      using ih Cons.prems by simp_all
    with ih(2,5) step show ?thesis by metis
  next
    case False
    then show ?thesis
      using Cons.prems
      by - (rule exI [of _ "[]"], rule exI [of _ "m # ms"], rule exI [of _ b], simp add: raw_batch_loop_full)
  qed
qed

text \<open>The reference: every message decoded and lowered in order, without batches.\<close>

definition lower_all :: "(bytes \<Rightarrow> string + qtarget) \<Rightarrow> bytes list \<Rightarrow> string + qtarget list" where
  "lower_all decode ms = map_sum id (List.map_filter id) (collect_results (map (\<lambda>m. map_sum id lower_target (decode m)) ms))"

lemma collect_results_append:
  "collect_results (xs @ ys) =
     (case collect_results xs of Inl e \<Rightarrow> Inl e | Inr as \<Rightarrow> map_sum id (\<lambda>bs. as @ bs) (collect_results ys))"
  by (induction xs rule: collect_results.induct) (auto simp: map_sum_def split: sum.splits)

lemma lower_all_append:
  "lower_all decode (xs @ ys) =
     (case lower_all decode xs of Inl e \<Rightarrow> Inl e | Inr as \<Rightarrow> map_sum id (\<lambda>bs. as @ bs) (lower_all decode ys))"
  by (auto simp: lower_all_def collect_results_append map_sum_def map_filter_append split: sum.splits)

lemma batch_empty_room: "batch_has_room batch_clear"
  by (simp add: batch_has_room_def batch_clear_def DECODE_BATCH_MESSAGES_def DECODE_BATCH_BYTES_def)

lemma raw_batch_loop_end: "batch_has_room b \<Longrightarrow> raw_batch_loop \<lparr>rd_bytes = [], rd_fails = False\<rparr> b = Inr (b, \<lparr>rd_bytes = [], rd_fails = False\<rparr>)"
  by (subst raw_batch_loop.simps) (simp add: read_message_length_def)

lemma decode_batches_encoded:
  "list_all small ms \<Longrightarrow>
   decode_batches decode (\<lambda>ts s. (map f ts, s)) \<lparr>rd_bytes = encode_stream ms, rd_fails = False\<rparr> targets s =
     (case lower_all decode ms of Inl e \<Rightarrow> Inl (DecodeError e) | Inr ts \<Rightarrow> Inr (targets @ map f ts, s))"
proof (induction "length ms" arbitrary: ms targets rule: less_induct)
  case less
  let ?r = "\<lambda>ms. \<lparr>rd_bytes = encode_stream ms, rd_fails = False\<rparr>"
  from raw_batch_loop_frames [where r = "?r []" and tail = "[]", OF bounds_ok_clear(1) less.prems]
  obtain taken left b where frames: "ms = taken @ left" "slices b = slices batch_clear @ taken"
    "length (rb_bounds b) = length (rb_bounds batch_clear) + length taken" "taken = [] \<longrightarrow> b = batch_clear"
    "left = [] \<and> batch_has_room b \<and>
       raw_batch_loop ((?r [])\<lparr>rd_bytes := encode_stream ms @ []\<rparr>) batch_clear = raw_batch_loop ((?r [])\<lparr>rd_bytes := []\<rparr>) b \<or>
     raw_batch_loop ((?r [])\<lparr>rd_bytes := encode_stream ms @ []\<rparr>) batch_clear =
         Inr (b, (?r [])\<lparr>rd_bytes := encode_stream left @ []\<rparr>) \<and> \<not> batch_has_room b"
    by blast
  have b: "ms = taken @ left" "slices b = taken" "length (rb_bounds b) = length taken" "taken = [] \<longrightarrow> b = batch_clear"
    "left = [] \<and> batch_has_room b \<and> raw_batch_loop (?r ms) batch_clear = raw_batch_loop \<lparr>rd_bytes = [], rd_fails = False\<rparr> b \<or>
     raw_batch_loop (?r ms) batch_clear = Inr (b, ?r left) \<and> \<not> batch_has_room b"
    using frames by simp_all
  have got: "raw_batch_loop (?r ms) batch_clear = Inr (b, ?r left)"
    using b(5) raw_batch_loop_end [of b] by (auto simp: encode_stream_def)
  show ?case
  proof (cases "taken = []")
    case True
    then have "rb_bounds b = []" using b(3) by simp
    have "left = []" using True b(4,5) batch_empty_room by auto
    then show ?thesis
      using got True b(1) \<open>rb_bounds b = []\<close>
      by (subst decode_batches.simps) (simp add: read_raw_batch_def lower_all_def map_filter_simps)
  next
    case False
    then have "rb_bounds b \<noteq> []" using b(3) by auto
    then have "read_raw_batch (?r ms) = Inr (True, b, ?r left)" using got by (simp add: read_raw_batch_def)
    moreover have "length left < length ms" using False b(1) by simp
    note less.hyps [OF this]
    moreover have "list_all small left" using less.prems b(1) by simp
    ultimately show ?thesis
      unfolding b(1) lower_all_append
      by (subst decode_batches.simps) (auto simp: b lower_all_def map_sum_def split: sum.splits)
  qed
qed


text \<open>
  C27: a stream of framed messages decodes to the messages in order, each decoded and lowered once, for any
  sizes and counts: where the batches begin and end cannot be seen in the result.
\<close>

theorem decode_target_stream_reference:
  assumes "list_all small ms"
  shows "decode_target_stream decode (\<lambda>ts s. (map f ts, s)) \<lparr>rd_bytes = encode_stream ms, rd_fails = False\<rparr> s =
    (case lower_all decode ms of Inl e \<Rightarrow> Inl (DecodeError e) | Inr ts \<Rightarrow> Inr (map f ts, s))"
  unfolding decode_target_stream_def decode_batches_encoded [OF assms] append_Nil ..

subsection \<open>A cut-off stream\<close>

lemma read_length_cut:
  fixes v :: "64 word"
  shows "varint n = p @ q \<Longrightarrow> q \<noteq> [] \<Longrightarrow> p \<noteq> [] \<or> s \<noteq> 0 \<Longrightarrow> \<exists>e. read_length_loop fails p v s = Inl e"
proof (induction p arbitrary: n v s)
  case (Cons b p)
  show ?case
  proof (cases "n < 128")
    case True
    with Cons.prems show ?thesis by (simp add: varint.simps [of n])
  next
    case False
    with Cons.prems(1) have b: "b = word_of_nat (n mod 128 + 128)" "varint (n div 128) = p @ q"
      by (simp_all add: varint.simps [of n])
    have "unat b = n mod 128 + 128" unfolding b(1) unat_of_nat by simp
    then have "and b 0x80 \<noteq> 0" using u8_high [of b] by simp
    then show ?thesis
      using Cons.IH [OF b(2) Cons.prems(2), of "s + 7"] by (auto simp: Let_def)
  qed
qed (simp add: Cons_eq_append_conv)

lemma raw_batch_loop_cut:
  assumes "batch_has_room b" "small m" "frame m = p @ q" "p \<noteq> []" "q \<noteq> []"
  shows "\<exists>e. raw_batch_loop \<lparr>rd_bytes = p, rd_fails = fails\<rparr> b = Inl e"
proof (cases "length (varint (length m)) \<le> length p")
  case True
  then obtain m1 where m1: "p = varint (length m) @ m1" "m = m1 @ q"
    using assms(3) by (auto simp: frame_def append_eq_append_conv2)
  have "length m < 2 ^ 64" using assms(2) by (simp add: small_def isize_max_def)
  then have "read_message_length \<lparr>rd_bytes = p, rd_fails = fails\<rparr> =
      Inr (Some (length m), \<lparr>rd_bytes = m1, rd_fails = fails\<rparr>)"
    using read_length_varint [of 0 0 "length m" fails m1] by (simp add: read_message_length_def m1(1))
  moreover have "length m1 < length m" using m1(2) assms(5) by simp
  ultimately show ?thesis using assms(1) by (subst raw_batch_loop.simps) auto
next
  case False
  then obtain q1 where "varint (length m) = p @ q1" "q1 \<noteq> []"
    using assms(3) by (auto simp: frame_def append_eq_append_conv2)
  from read_length_cut [OF this, of 0 fails 0] assms(4) obtain e where
    "read_message_length \<lparr>rd_bytes = p, rd_fails = fails\<rparr> = Inl e" by (auto simp: read_message_length_def)
  then show ?thesis using assms(1) by (subst raw_batch_loop.simps) simp
qed

lemma decode_batches_cut:
  assumes "small m" "frame m = p @ q" "p \<noteq> []" "q \<noteq> []"
  shows "list_all small ms \<Longrightarrow>
    \<exists>e. decode_batches decode transform \<lparr>rd_bytes = encode_stream ms @ p, rd_fails = fails\<rparr> targets s = Inl e"
proof (induction "length ms" arbitrary: ms targets s rule: less_induct)
  case less
  let ?r = "\<lambda>bs. \<lparr>rd_bytes = bs, rd_fails = fails\<rparr>"
  from raw_batch_loop_frames [where r = "?r []" and tail = p, OF bounds_ok_clear(1) less.prems]
  obtain taken left b where b: "ms = taken @ left" "length (rb_bounds b) = length (rb_bounds batch_clear) + length taken"
    "taken = [] \<longrightarrow> b = batch_clear"
    "left = [] \<and> batch_has_room b \<and>
       raw_batch_loop ((?r [])\<lparr>rd_bytes := encode_stream ms @ p\<rparr>) batch_clear = raw_batch_loop ((?r [])\<lparr>rd_bytes := p\<rparr>) b \<or>
     raw_batch_loop ((?r [])\<lparr>rd_bytes := encode_stream ms @ p\<rparr>) batch_clear =
       Inr (b, (?r [])\<lparr>rd_bytes := encode_stream left @ p\<rparr>) \<and> \<not> batch_has_room b"
    by blast
  show ?case
  proof (cases "batch_has_room b")
    case True
    with b(4) have "raw_batch_loop (?r (encode_stream ms @ p)) batch_clear = raw_batch_loop (?r p) b" by simp
    with raw_batch_loop_cut [OF True assms, of fails] show ?thesis
      by (subst decode_batches.simps) (auto simp: read_raw_batch_def)
  next
    case False
    with b(4) have got: "raw_batch_loop (?r (encode_stream ms @ p)) batch_clear = Inr (b, ?r (encode_stream left @ p))" by simp
    have "taken \<noteq> []" using b(3) False batch_empty_room by auto
    then have "rb_bounds b \<noteq> []" using b(2) by auto
    with got have "read_raw_batch (?r (encode_stream ms @ p)) = Inr (True, b, ?r (encode_stream left @ p))"
      by (simp add: read_raw_batch_def)
    moreover have "length left < length ms" "list_all small left" using \<open>taken \<noteq> []\<close> b(1) less.prems by simp_all
    note less.hyps [OF this]
    ultimately show ?thesis
      by (subst decode_batches.simps) (simp split: sum.splits prod.splits)
  qed
qed

text \<open>
  A stream that ends inside a message, in its length prefix or in its bytes, is always an error: no
  partial list of targets is ever taken for the whole query.
\<close>

theorem decode_target_stream_cut_off:
  assumes "list_all small ms" "small m" "frame m = p @ q" "p \<noteq> []" "q \<noteq> []"
  shows "\<exists>e. decode_target_stream decode transform \<lparr>rd_bytes = encode_stream ms @ p, rd_fails = fails\<rparr> s = Inl e"
  using decode_batches_cut [OF assms(2-5,1)] by (simp add: decode_target_stream_def)

subsection \<open>Examples\<close>

lemma small_samples: "small [1, 2]" "list_all small [[1, 2], []]"
  by (simp_all add: small_def DECODE_BATCH_BYTES_def isize_max_def)

lemma sample_frame: "frame [1, 2] = [2] @ [1, 2]"
  by (simp add: frame_def varint.simps)

theorem read_message_length_bounds_witness:
  "read_message_length \<lparr>rd_bytes = varint 300 @ [7], rd_fails = False\<rparr> =
     Inr (Some 300, \<lparr>rd_bytes = [7], rd_fails = False\<rparr>)"
  using read_message_length_bounds [where n = 300 and r = "\<lparr>rd_bytes = [], rd_fails = False\<rparr>" and rest = "[7]"] by simp

theorem decode_target_stream_reference_witness:
  "decode_target_stream (\<lambda>bs. Inr sample_lib) (\<lambda>ts s. (map id ts, s))
     \<lparr>rd_bytes = encode_stream [[1, 2], []], rd_fails = False\<rparr> () =
   Inr ([compact_target sample_lib, compact_target sample_lib], ())"
  using decode_target_stream_reference [OF small_samples(2), of "\<lambda>bs. Inr sample_lib" id "()"]
  by (simp add: lower_all_def lower_target_def sample_lib_def map_filter_simps)

theorem decode_target_stream_cut_off_witness:
  "\<exists>e. decode_target_stream (\<lambda>bs. Inr sample_lib) (\<lambda>ts s. (ts, s))
     \<lparr>rd_bytes = encode_stream [[1, 2], []] @ [2], rd_fails = False\<rparr> () = Inl e"
  by (rule decode_target_stream_cut_off [OF small_samples(2,1) sample_frame]) simp_all

text \<open>
  A ten-byte prefix whose last byte is above one does not fit 64 bits. The code means to refuse such a
  prefix, but the shift drops the bits that do not fit and the length is read as if they were absent.
\<close>

lemma overlong_prefix_read_as_zero:
  "read_message_length \<lparr>rd_bytes = [0x80, 0x80, 0x80, 0x80, 0x80, 0x80, 0x80, 0x80, 0x80, 2], rd_fails = False\<rparr> =
     Inr (Some 0, \<lparr>rd_bytes = [], rd_fails = False\<rparr>)"
  by (simp add: read_message_length_def Let_def usize_max_def push_bit_eq_mult)

end
