(* ===== verification/Query_All.thy ===== *)
theory Query_All
  imports Isolated Query_Stream
begin

section \<open>All targets of a workspace (bazel.rs)\<close>

text \<open>
  \<^verbatim>\<open>query_all_targets_with\<close> of \<^verbatim>\<open>src/bazel.rs\<close> and what it composes: the probes that decide whether the workspace uses modules, the
  repositories of those modules, the queries, and the checks after them. Bazel is a parameter that acts on a world of
  any type; its answers are text. An action threads the failures seen so far and the world.
\<close>

type_synonym ('w, 'a) act = "failed_extensions \<times> 'w \<Rightarrow> ((mod_error + 'a) \<times> failed_extensions \<times> 'w) option"

definition ret :: "'a \<Rightarrow> ('w, 'a) act" where
  "ret a st = Some (Inr a, st)"

definition fail :: "mod_error \<Rightarrow> ('w, 'a) act" where
  "fail err st = Some (Inl err, st)"

definition and_then :: "('w, 'a) act \<Rightarrow> ('a \<Rightarrow> ('w, 'b) act) \<Rightarrow> ('w, 'b) act" where
  "and_then m k st = Option.bind (m st) (\<lambda>(r, st'). case r of Inl err \<Rightarrow> Some (Inl err, st') | Inr a \<Rightarrow> k a st')"

text \<open>An error replaced by a warning and a default when \<open>tolerant\<close>.\<close>

definition or_warn :: "bool \<Rightarrow> 'a \<Rightarrow> ('w, 'a) act \<Rightarrow> ('w, 'a) act" where
  "or_warn tolerant dflt m st =
     map_option (\<lambda>(r, st'). (case r of Inl err \<Rightarrow> if tolerant then Inr dflt else Inl err | Inr a \<Rightarrow> Inr a, st')) (m st)"

record query_output =
  qo_code :: int
  qo_stderr :: string
  qo_bytes :: bytes

record 'w discovery =
  dc_mod :: "'w bazel_mod"
  dc_options :: bazel_options
  dc_query :: "string list \<Rightarrow> string \<Rightarrow> 'w \<Rightarrow> (string + query_output) \<times> 'w"
  dc_module_file :: bool
  dc_from_str :: json_parser
  dc_read :: repository_reader
  dc_decode :: "bytes \<Rightarrow> string + qtarget"
  dc_decode_cquery :: "bool \<Rightarrow> bytes \<Rightarrow> string + cquery_result list"
  dc_has_unknown :: "attribute \<Rightarrow> bool"
  dc_encode :: "attribute \<Rightarrow> bytes"
  dc_crates :: crates
  dc_files :: file_system
  dc_cancelled :: "'w \<Rightarrow> mod_error option"

definition capture :: "'w discovery \<Rightarrow> string list \<Rightarrow> ('w, mod_output) act" where
  "capture d args st = (case run_capture (dc_mod d) args (snd st) of (r, w) \<Rightarrow> Some (r, fst st, w))"

definition accepting :: "string \<Rightarrow> mod_output \<Rightarrow> ('w, string) act" where
  "accepting subcommand out st =
     (case accept_mod_output subcommand out (fst st) of
        Inl err \<Rightarrow> Some (Inl err, st)
      | Inr (stdout, failed) \<Rightarrow> Some (Inr stdout, failed, snd st))"

subsection \<open>Probes\<close>

definition parse_u32_or_zero :: "string \<Rightarrow> nat" where
  "parse_u32_or_zero s =
     (case parse_u64 (takeWhile is_ascii_digit s) of None \<Rightarrow> 0 | Some n \<Rightarrow> if n < 2 ^ 32 then n else 0)"

definition parse_bazel_version :: "string \<Rightarrow> (nat \<times> nat \<times> nat) option" where
  "parse_bazel_version txt =
     (case List.map_filter (\<lambda>line. case strip_prefix ''Build label: '' line of Some v \<Rightarrow> Some v | None \<Rightarrow> strip_prefix ''bazel '' line) (str_lines txt) of
        [] \<Rightarrow> None
      | ver # _ \<Rightarrow>
          (let parts = map parse_u32_or_zero (split_on (CHR ''.'') (hd (split_on (CHR ''-'') ver)));
               part = (\<lambda>i. if i < length parts then parts ! i else 0)
           in Some (part 0, part 1, part 2)))"

definition bazel_version :: "'w discovery \<Rightarrow> ('w, nat \<times> nat \<times> nat) act" where
  "bazel_version d = and_then (capture d [''version'']) (\<lambda>out.
     if \<not> mo_success out then fail (ModFailed ''version'' [])
     else case parse_bazel_version (mo_stdout out) of
            None \<Rightarrow> fail (BadOutput (mo_stdout out))
          | Some v \<Rightarrow> ret v)"

definition answered_output :: "mod_output \<Rightarrow> bool" where
  "answered_output out \<longleftrightarrow>
     mo_success out \<or> (case extension_failure_of (mo_stderr out) of None \<Rightarrow> False | Some failure \<Rightarrow> ef_answered failure)"

definition probe_bzlmod :: "'w discovery \<Rightarrow> 'w \<Rightarrow> (bool \<times> string option) \<times> 'w" where
  "probe_bzlmod d w =
     (let (r1, w1) = run_capture (dc_mod d) [''mod'', ''dump_repo_mapping'', []] w;
          fallback = (let (r2, w2) = run_capture (dc_mod d) [''mod'', ''graph''] w1
                      in ((case r2 of Inl _ \<Rightarrow> False | Inr out \<Rightarrow> answered_output out, None), w2))
      in case r1 of Inr out \<Rightarrow> if mo_success out then ((True, Some (mo_stdout out)), w1) else fallback | Inl _ \<Rightarrow> fallback)"

definition complete_output :: "mod_output \<Rightarrow> bool" where
  "complete_output out \<longleftrightarrow> mo_success out \<and> \<not> contains_str ''ERROR:'' (mo_stderr out)"

text \<open>The rows of the output keep their line ends; a row is parsed as one mapping.\<close>

fun split_inclusive :: "string \<Rightarrow> string \<Rightarrow> string list" where
  "split_inclusive row [] = (if row = [] then [] else [row])"
| "split_inclusive row (c # s) = (if c = NL then (row @ [c]) # split_inclusive [] s else split_inclusive (row @ [c]) s)"

definition parse_mapping :: "json_parser \<Rightarrow> string \<Rightarrow> repo_mapping option" where
  "parse_mapping from_str row = Option.bind (from_str row) (de_map de_string)"

definition prefetch_module_mappings ::
  "'w discovery \<Rightarrow> mod_output \<Rightarrow> 'w \<Rightarrow> (string \<times> (string, repo_mapping) btree) option \<times> 'w" where
  "prefetch_module_mappings d graph w =
     (let candidates = bs_of_list (filter (\<lambda>name. \<not> is_extension_repo name) (map snd (hidden_module_repo_names (dc_from_str d) (mo_stdout graph) [])))
      in if \<not> complete_output graph \<or> candidates = [] \<or> 1 + names_cost candidates > bm_budget (dc_mod d) then (None, w)
         else case run_capture (dc_mod d) ([''mod'', ''dump_repo_mapping'', []] @ candidates) w of
                (Inl _, w') \<Rightarrow> (None, w')
              | (Inr out, w') \<Rightarrow>
                  if \<not> complete_output out then (None, w')
                  else (case split_inclusive [] (mo_stdout out) of
                          [] \<Rightarrow> (None, w')
                        | root # rows \<Rightarrow>
                            if parse_mapping (dc_from_str d) root = None \<or> length rows \<noteq> length candidates then (None, w')
                            else (map_option (\<lambda>mappings. (root, bt_of_list (zip candidates mappings))) (those (map (parse_mapping (dc_from_str d)) rows)), w')))"

record module_survey =
  ms_graph :: "mod_output option"
  ms_mappings :: "(string, repo_mapping) btree"

definition probe_query_repositories :: "'w discovery \<Rightarrow> bool \<Rightarrow> 'w \<Rightarrow> (bool \<times> string option \<times> module_survey) \<times> 'w" where
  "probe_query_repositories d supported w =
     (let (graph, w1) =
            (if supported \<and> dc_module_file d
             then (case run_capture (dc_mod d) [''mod'', ''graph'', ''--output=json''] w of (r, w') \<Rightarrow> (case r of Inl _ \<Rightarrow> None | Inr out \<Rightarrow> Some out, w'))
             else (None, w));
          (prefetched, w2) = (case graph of None \<Rightarrow> (None, w1) | Some out \<Rightarrow> prefetch_module_mappings d out w1)
      in case prefetched of
           Some (root, mappings) \<Rightarrow> ((True, Some root, \<lparr>ms_graph = graph, ms_mappings = mappings\<rparr>), w2)
         | None \<Rightarrow> (let ((enabled, root_mapping), w3) = probe_bzlmod d w2
                    in ((enabled, root_mapping, \<lparr>ms_graph = graph, ms_mappings = []\<rparr>), w3)))"

definition module_graph_json_tolerating :: "'w discovery \<Rightarrow> mod_output option \<Rightarrow> ('w, string \<times> bool) act" where
  "module_graph_json_tolerating d graph =
     and_then (case graph of Some out \<Rightarrow> ret out | None \<Rightarrow> capture d [''mod'', ''graph'', ''--output=json'']) (\<lambda>out.
       and_then (accepting ''graph --output=json'' out) (\<lambda>stdout. ret (str_trim stdout, mo_success out)))"

subsection \<open>Hidden modules\<close>

text \<open>
  \<^verbatim>\<open>verified_hidden_modules\<close>: each dependency is resolved through its apparent name in the mapping of the module it is listed under.
\<close>

definition node_children :: "json \<Rightarrow> json list option" where
  "node_children node = (case node of JObj obj \<Rightarrow> get_array obj ''dependencies'' | _ \<Rightarrow> None)"

definition node_str :: "json \<Rightarrow> string \<Rightarrow> string option" where
  "node_str node field = (case node of JObj obj \<Rightarrow> get_str obj field | _ \<Rightarrow> None)"

lemma node_children_smaller: "node_children node = Some cs \<Longrightarrow> size_list size cs < size node"
proof (cases node)
  case (JObj obj)
  assume "node_children node = Some cs"
  then have "(''dependencies'', JArr cs) \<in> set obj"
    using JObj by (auto simp: node_children_def get_array_def map_of_SomeD split: option.splits json.splits)
  then show ?thesis unfolding JObj by (induction obj) fastforce+
qed (simp_all add: node_children_def)

definition child_step :: "(string, string) btree \<Rightarrow> repo_mapping \<Rightarrow> json \<Rightarrow> string list \<Rightarrow> (string \<times> string list) option" where
  "child_step hidden parent c seen =
     Option.bind (node_str c ''key'') (\<lambda>key. Option.bind (node_str c ''apparentName'') (\<lambda>apparent.
       Option.bind (bt_get parent apparent) (\<lambda>canonical.
         case bt_get hidden key of
           None \<Rightarrow> Some (canonical, seen)
         | Some expected \<Rightarrow> if expected \<noteq> canonical then None else Some (canonical, bs_of_list (key # seen)))))"

function verify_children ::
  "(string, repo_mapping) btree \<Rightarrow> (string, string) btree \<Rightarrow> json list \<Rightarrow> repo_mapping \<Rightarrow> string list \<Rightarrow> string list option" where
  "verify_children mappings hidden [] parent seen = Some seen"
| "verify_children mappings hidden (c # cs) parent seen =
     (case child_step hidden parent c seen of
        None \<Rightarrow> None
      | Some (canonical, seen1) \<Rightarrow>
          (case node_children c of
             None \<Rightarrow> verify_children mappings hidden cs parent seen1
           | Some ds \<Rightarrow>
               if ds = [] then verify_children mappings hidden cs parent seen1
               else (case bt_get mappings canonical of
                       None \<Rightarrow> None
                     | Some own \<Rightarrow>
                         (case verify_children mappings hidden ds own seen1 of
                            None \<Rightarrow> None
                          | Some seen2 \<Rightarrow> verify_children mappings hidden cs parent seen2))))"
  by pat_completeness auto
termination
  by (relation "measure (\<lambda>(mappings, hidden, cs, parent, seen). size_list size cs)") (auto dest: node_children_smaller)

definition verified_hidden_modules ::
  "json_parser \<Rightarrow> string option \<Rightarrow> string \<Rightarrow> (string, repo_mapping) btree \<Rightarrow> (string, string) btree \<Rightarrow> bool" where
  "verified_hidden_modules from_str graph root_mapping mappings hidden =
     (if hidden = [] \<or> mappings = [] then False
      else case map_option value_of (Option.bind graph from_str) of
             None \<Rightarrow> False
           | Some j \<Rightarrow>
               (case parse_mapping from_str root_mapping of
                  None \<Rightarrow> False
                | Some root \<Rightarrow>
                    (case Option.bind (node_children j) (\<lambda>cs. verify_children mappings hidden cs root []) of
                       None \<Rightarrow> False
                     | Some seen \<Rightarrow> length seen = length hidden)))"

subsection \<open>Repositories of modules\<close>

record 's bzlmod_repos =
  br_targets :: "qtarget list"
  br_scope :: isolated_scope
  br_canonical_to_apparent :: "(string, string list) btree"
  br_module_graph_json :: "string option"
  br_root_mapping :: "string option"
  br_state :: 's

definition scope_default :: isolated_scope where
  "scope_default = \<lparr>sc_anchor = [], sc_members = [], sc_aliases = [], sc_repository_inputs = []\<rparr>"

definition no_extensions :: extension_repositories_found where
  "no_extensions = \<lparr>er_imported = [], er_generated = [], er_complete_mappings = False, er_module_mappings = []\<rparr>"

definition default_failures :: failed_extensions where
  "default_failures = \<lparr>fe_observed = False, fe_extensions = [], fe_unavailable = []\<rparr>"

definition tolerates :: "'w discovery \<Rightarrow> bool" where
  "tolerates d \<longleftrightarrow> keep_going (dc_options d) \<and> isolated_dependency_root (dc_options d) = None"

text \<open>Why an isolated root is refused after discovery, if it is.\<close>

definition isolation_refusal :: "failed_extensions \<Rightarrow> bool \<Rightarrow> bool \<Rightarrow> extension_repositories_found \<Rightarrow> string option" where
  "isolation_refusal failed retained complete_graph found =
     (if fe_extensions failed \<noteq> [] then Some (''module extension '' @ hd (fe_extensions failed) @ '' failed'')
      else if fe_unavailable failed \<noteq> [] then Some (''repository mapping for '' @ hd (fe_unavailable failed) @ '' failed'')
      else if fe_observed failed then Some ''Bazel reported an unidentified module extension failure''
      else if \<not> retained then Some ''root repository mapping is incomplete''
      else if \<not> complete_graph then Some ''module graph is incomplete''
      else if \<not> er_complete_mappings found then Some ''repository mappings are incomplete''
      else None)"

definition isolate ::
  "'w discovery \<Rightarrow> string \<Rightarrow> bool \<Rightarrow> bool \<Rightarrow> extension_repositories_found \<Rightarrow> repository list \<Rightarrow> ('w, isolated_scope) act" where
  "isolate d root_mapping retained complete_graph found repositories st =
     (case isolated_dependency_root (dc_options d) of
        None \<Rightarrow> Some (Inr scope_default, st)
      | Some root \<Rightarrow>
          (case isolation_refusal (fst st) retained complete_graph found of
             Some msg \<Rightarrow> Some (Inl (Refused msg), st)
           | None \<Rightarrow> Some (resolve_isolated_root (dc_has_unknown d) (dc_from_str d) root root_mapping found repositories, st)))"

definition hidden_modules_of :: "'w discovery \<Rightarrow> (string, string list) btree \<Rightarrow> string option \<Rightarrow> bool \<Rightarrow> mod_error + (string, string) btree" where
  "hidden_modules_of d c2a graph complete_graph =
     (case graph of
        None \<Rightarrow> Inr []
      | Some json \<Rightarrow>
          if isolated_dependency_root (dc_options d) \<noteq> None \<and> complete_graph then isolated_module_repo_names (dc_from_str d) json c2a
          else Inr (hidden_module_repo_names (dc_from_str d) json c2a))"

text \<open>Every lowered target goes through the caller's closure with the inputs it shares.\<close>

fun transform_each :: "(qtarget list \<Rightarrow> input_group option \<Rightarrow> 's \<Rightarrow> qtarget list \<times> 's) \<Rightarrow> (qtarget \<times> input_group option) list \<Rightarrow> 's \<Rightarrow> qtarget list \<times> 's" where
  "transform_each transform [] s = ([], s)"
| "transform_each transform ((t, inputs) # rest) s =
     (let (ts, s1) = transform [t] inputs s; (rest', s2) = transform_each transform rest s1 in (ts @ rest', s2))"

definition described ::
  "'w discovery \<Rightarrow> string list \<Rightarrow> (string, string) btree option \<Rightarrow> ('w, repository list) act" where
  "described d names hidden_bindings st =
     (if names = [] then Some (Inr [], st)
      else show_repositories_within (dc_mod d) (dc_read d) (dc_cancelled d) names (fst st) (bm_budget (dc_mod d)) hidden_bindings (snd st))"

definition asked_names :: "(string, string list) btree \<Rightarrow> (string, string) btree \<Rightarrow> extension_repositories_found \<Rightarrow> string list" where
  "asked_names c2a hidden found =
     bs_of_list (map (\<lambda>name. ''@@'' @ name) (filter (\<lambda>name. CHR ''+'' \<in> set name \<or> CHR ''~'' \<in> set name) (bt_keys c2a)) @
       bt_keys hidden @ map (\<lambda>name. ''@@'' @ name) (er_generated found))"

definition query_bzlmod_repos ::
  "'w discovery \<Rightarrow> (qtarget list \<Rightarrow> input_group option \<Rightarrow> 's \<Rightarrow> qtarget list \<times> 's) \<Rightarrow> string option \<Rightarrow> module_survey \<Rightarrow> 's \<Rightarrow> ('w, 's bzlmod_repos) act" where
  "query_bzlmod_repos d transform given survey s =
     and_then (case given of
         Some mapping \<Rightarrow> ret mapping
       | None \<Rightarrow> and_then (capture d [''mod'', ''dump_repo_mapping'', []]) (accepting ''dump_repo_mapping'')) (\<lambda>root_mapping.
     let c2a = parse_repo_mapping (dc_from_str d) root_mapping; retained = (given \<noteq> None) in
     and_then (or_warn (tolerates d) (None, False)
       (and_then (module_graph_json_tolerating d (ms_graph survey)) (\<lambda>(json, complete). ret (Some json, complete)))) (\<lambda>(graph, complete_graph).
     case hidden_modules_of d c2a graph complete_graph of
       Inl err \<Rightarrow> fail err
     | Inr hidden \<Rightarrow>
     and_then (or_warn (tolerates d) no_extensions (\<lambda>st.
       extension_repositories (dc_mod d) (dc_from_str d) c2a (map snd hidden) (ms_mappings survey) (retained \<and> complete_graph) (fst st) (snd st))) (\<lambda>found.
     and_then (described d (asked_names c2a hidden found)
       (if verified_hidden_modules (dc_from_str d) graph root_mapping (er_module_mappings found) hidden then Some hidden else None)) (\<lambda>repositories.
     and_then (isolate d root_mapping retained complete_graph found repositories) (\<lambda>scope.
       let label_only = \<lparr>lo_sibling_extensions = label_only_extension_prefixes (label_only_module_extensions (dc_options d)) c2a (er_generated found),
                         lo_owner_exemptions = sc_members scope\<rparr>;
           edges = (case graph of None \<Rightarrow> [] | Some json \<Rightarrow> parse_module_dependency_edges (dc_from_str d) json);
           (targets, s') = transform_each transform (lower_repositories (dc_crates d) (dc_encode d) (dc_files d) (workspace (dc_options d)) repositories c2a edges
             (if use_cquery (dc_options d) then None else Some (er_imported found)) label_only) s
       in ret \<lparr>br_targets = targets, br_scope = scope, br_canonical_to_apparent = c2a, br_module_graph_json = graph,
               br_root_mapping = (if retained then Some root_mapping else None), br_state = s'\<rparr>)))))"

subsection \<open>Queries\<close>

datatype query_failure = QueryFailed int string | QueryError mod_error | StreamError stream_error

text \<open>
  \<^verbatim>\<open>is_external_package_error\<close> looks at the message of an error; only the standard error of a failed query can have the two phrases.
\<close>

definition is_external_package_error :: "query_failure \<Rightarrow> bool" where
  "is_external_package_error err =
     (case err of
        QueryFailed _ stderr \<Rightarrow>
          contains_str (''no such package '' @ [CHR 0x27] @ ''external'' @ [CHR 0x27]) stderr \<or> contains_str ''//external package is not available'' stderr
      | _ \<Rightarrow> False)"

definition with_exclude_filter :: "bazel_options \<Rightarrow> string \<Rightarrow> string" where
  "with_exclude_filter opts expr =
     (case exclude_targets_query opts of
        None \<Rightarrow> expr
      | Some exclude \<Rightarrow> if str_trim exclude = [] then expr else ''('' @ expr @ '') except ('' @ exclude @ '')'')"

definition query_arguments :: "bazel_options \<Rightarrow> bool \<Rightarrow> nat \<times> nat \<times> nat \<Rightarrow> string list" where
  "query_arguments opts cquery ver =
     [if cquery then ''cquery'' else ''query''] @ (if cquery then [''--transitions=lite''] else []) @
     [''--output'', if cquery \<and> \<not> (7, 0, 0) \<le> ver then ''proto'' else ''streamed_proto'', ''--proto:instantiation_stack''] @
     (if cquery then [] else [''--order_output=no'']) @ (if keep_going opts then [''--keep_going''] else []) @
     (if cquery then cquery_options opts @ [''--consistent_labels''] else command_options opts)"

definition query_compatible_labels :: "'w discovery \<Rightarrow> string \<Rightarrow> 'w \<Rightarrow> (query_failure + string list) \<times> 'w" where
  "query_compatible_labels d expr w =
     (case dc_query d ([''cquery'', ''--output'', ''starlark''] @ cquery_options (dc_options d) @ [''--consistent_labels'']) expr w of
        (Inl msg, w') \<Rightarrow> (Inl (QueryError (CannotExecute msg)), w')
      | (Inr out, w') \<Rightarrow>
          if qo_code out \<noteq> 0 then (Inl (QueryError (ModFailed ''compatible-target cquery'' (qo_stderr out))), w')
          else (Inr (filter (\<lambda>line. str_trim line \<noteq> []) (str_lines (map (\<lambda>b. char_of (unat b)) (qo_bytes out)))), w'))"

definition decode_output ::
  "'w discovery \<Rightarrow> bool \<Rightarrow> nat \<times> nat \<times> nat \<Rightarrow> (qtarget list \<Rightarrow> 's \<Rightarrow> qtarget list \<times> 's) \<Rightarrow> bytes \<Rightarrow> 's \<Rightarrow> query_failure + qtarget list \<times> 's" where
  "decode_output d cquery ver transform bs s =
     (if cquery then
        (case dc_decode_cquery d ((7, 0, 0) \<le> ver) bs of
           Inl msg \<Rightarrow> Inl (StreamError (DecodeError msg))
         | Inr results \<Rightarrow> Inr (decode_cquery (\<lambda>t s. case transform [t] s of (ts, s') \<Rightarrow> (hd (ts @ [t]), s')) results s))
      else case decode_target_stream (dc_decode d) transform \<lparr>rd_bytes = bs, rd_fails = False\<rparr> s of
             Inl err \<Rightarrow> Inl (StreamError err)
           | Inr r \<Rightarrow> Inr r)"

definition compatible_targets :: "string list option \<Rightarrow> qtarget list \<Rightarrow> qtarget list" where
  "compatible_targets compatible targets =
     (case compatible of
        None \<Rightarrow> targets
      | Some labels \<Rightarrow> filter (\<lambda>t. case target_name t of None \<Rightarrow> False | Some name \<Rightarrow> target_label name \<in> set labels) targets)"

text \<open>
  \<^verbatim>\<open>query_with\<close>, given a version; exit code 3 is a partial answer, accepted only under \<^verbatim>\<open>--keep_going\<close>. The query goes to Bazel in a file and
  the answer comes back in one. The closure returns as many targets as it is given, and a cquery gives it one at a time.
\<close>

definition query_with ::
  "'w discovery \<Rightarrow> string \<Rightarrow> bool \<Rightarrow> nat \<times> nat \<times> nat \<Rightarrow> (qtarget list \<Rightarrow> 's \<Rightarrow> qtarget list \<times> 's) \<Rightarrow> 's \<times> 'w \<Rightarrow> (query_failure + qtarget list) \<times> 's \<times> 'w" where
  "query_with d expr cquery ver transform sw =
     (let (s, w) = sw;
          (compatible, w1) = (if cquery then (case query_compatible_labels d expr w of (r, w') \<Rightarrow> (map_sum id Some r, w')) else (Inr None, w))
      in case compatible of
           Inl err \<Rightarrow> (Inl err, s, w1)
         | Inr labels \<Rightarrow>
             (case dc_query d (query_arguments (dc_options d) cquery ver) expr w1 of
                (Inl msg, w2) \<Rightarrow> (Inl (QueryError (CannotExecute msg)), s, w2)
              | (Inr out, w2) \<Rightarrow>
                  if qo_code out \<noteq> 0 \<and> \<not> (keep_going (dc_options d) \<and> qo_code out = 3)
                  then (Inl (QueryFailed (qo_code out) (qo_stderr out)), s, w2)
                  else (case decode_output d cquery ver transform (qo_bytes out) s of
                          Inl err \<Rightarrow> (Inl err, s, w2)
                        | Inr (targets, s') \<Rightarrow> (Inr (compatible_targets labels targets), s', w2))))"

definition external_query :: string where
  "external_query = [CHR 0x27] @ ''//external:all-targets'' @ [CHR 0x27]"

definition workspace_queries :: "bazel_options \<Rightarrow> string list" where
  "workspace_queries opts =
     ([CHR 0x27] @ ''//...:all-targets'' @ [CHR 0x27]) # map (\<lambda>repo. [CHR 0x27] @ repo @ ''//...:all-targets'' @ [CHR 0x27]) (fine_grained_external_repos opts)"

definition collect_all_targets ::
  "bazel_options \<Rightarrow> (string \<Rightarrow> bool \<Rightarrow> 't \<Rightarrow> (query_failure + qtarget list) \<times> 't) \<Rightarrow> qtarget list \<Rightarrow> 't \<Rightarrow> (query_failure + qtarget list) \<times> 't" where
  "collect_all_targets opts query bzlmod_repos st =
     (if use_cquery opts then
        (let expr = (case cquery_expression opts of Some e \<Rightarrow> e | None \<Rightarrow> ''deps(//...:all-targets)'')
         in case query (with_exclude_filter opts expr) True st of
              (Inl err, st1) \<Rightarrow> (Inl err, st1)
            | (Inr targets, st1) \<Rightarrow>
                if exclude_external_targets opts then (Inr (deduplicate_targets (targets @ bzlmod_repos)), st1)
                else (case query external_query False st1 of
                        (Inr external, st2) \<Rightarrow> (Inr (deduplicate_targets (targets @ external @ bzlmod_repos)), st2)
                      | (Inl err, st2) \<Rightarrow>
                          if is_external_package_error err then (Inr (deduplicate_targets (targets @ bzlmod_repos)), st2)
                          else (Inl err, st2)))
      else
        (let full = with_exclude_filter opts (join '' + '' ((if exclude_external_targets opts then [] else [external_query]) @ workspace_queries opts))
         in case query full False st of
              (Inr targets, st1) \<Rightarrow> (Inr (deduplicate_targets (targets @ bzlmod_repos)), st1)
            | (Inl err, st1) \<Rightarrow>
                if \<not> exclude_external_targets opts \<and> is_external_package_error err
                then (case query (with_exclude_filter opts (join '' + '' (workspace_queries opts))) False st1 of
                        (Inl err', st2) \<Rightarrow> (Inl err', st2)
                      | (Inr targets, st2) \<Rightarrow> (Inr (deduplicate_targets (targets @ bzlmod_repos)), st2))
                else (Inl err, st1)))"

fun query_labels :: "label list \<Rightarrow> mod_error + string list" where
  "query_labels [] = Inr []"
| "query_labels (lbl # lbls) =
     (if CHR 0x27 \<in> set lbl \<and> CHR 0x22 \<in> set lbl then Inl (Refused (''cannot quote Bazel query label '' @ lbl))
      else map_sum id ((#) (if CHR 0x27 \<notin> set lbl then [CHR 0x27] @ lbl @ [CHR 0x27] else [CHR 0x22] @ lbl @ [CHR 0x22])) (query_labels lbls))"

subsection \<open>Everything together\<close>

record 's queried_targets =
  qd_targets :: "qtarget list"
  qd_module_graph_json :: "string option"
  qd_root_mapping :: "string option"
  qd_scoped_repositories :: "string list"
  qd_repository_inputs :: "label list"
  qd_state :: 's

definition supports_bzlmod :: "nat \<times> nat \<times> nat \<Rightarrow> bool" where
  "supports_bzlmod ver \<longleftrightarrow> (8, 6, 0) \<le> ver \<and> ver \<noteq> (9, 0, 0)"

definition empty_repos :: "'s \<Rightarrow> 's bzlmod_repos" where
  "empty_repos s = \<lparr>br_targets = [], br_scope = scope_default, br_canonical_to_apparent = [], br_module_graph_json = None,
     br_root_mapping = None, br_state = s\<rparr>"

text \<open>
  The first part of \<^verbatim>\<open>query_all_targets_with\<close>, up to the queries: the version if it is known, and the repositories. A version that
  cannot be determined is an error when modules are in use, unless the run keeps going.
\<close>

definition discover ::
  "'w discovery \<Rightarrow> (qtarget list \<Rightarrow> input_group option \<Rightarrow> 's \<Rightarrow> qtarget list \<times> 's) \<Rightarrow> 's \<Rightarrow> ('w, (nat \<times> nat \<times> nat) option \<times> 's bzlmod_repos) act" where
  "discover d transform s st =
     (if isolated_dependency_root (dc_options d) \<noteq> None \<and> use_cquery (dc_options d) then Some (Inl (Refused ''requires ordinary query''), st)
      else Option.bind (bazel_version d st) (\<lambda>(checked, failed0, w0).
        let supports = (case checked of Inl _ \<Rightarrow> False | Inr ver \<Rightarrow> supports_bzlmod ver);
            ((enabled, root_mapping, survey), w1) = probe_query_repositories d supports w0;
            isolated = (isolated_dependency_root (dc_options d) \<noteq> None);
            st1 = (failed0, w1)
        in case checked of
             Inl err \<Rightarrow>
               if isolated \<or> enabled \<and> \<not> keep_going (dc_options d) then Some (Inl err, st1)
               else Some (Inr (None, empty_repos s), st1)
           | Inr ver \<Rightarrow>
               if isolated \<and> \<not> supports then Some (Inl (Refused ''does not support Bzlmod repository discovery''), st1)
               else if isolated \<and> \<not> enabled then Some (Inl (Refused ''Bzlmod repository discovery is unavailable''), st1)
               else if enabled \<and> supports then
                 map_option (\<lambda>(r, failed, w). (case r of
                     Inl err \<Rightarrow> if tolerates d then Inr (Some ver, empty_repos s) else Inl err
                   | Inr repos \<Rightarrow> Inr (Some ver, repos), if isl r then default_failures else failed, w))
                   (query_bzlmod_repos d transform root_mapping survey s (default_failures, w1))
               else Some (Inr (Some ver, empty_repos s), st1)))"

text \<open>The version a query uses: the one found, or asked for again.\<close>

definition query_at ::
  "'w discovery \<Rightarrow> (nat \<times> nat \<times> nat) option \<Rightarrow> string \<Rightarrow> bool \<Rightarrow> (qtarget list \<Rightarrow> 's \<Rightarrow> qtarget list \<times> 's) \<Rightarrow> 's \<times> 'w \<Rightarrow> (query_failure + qtarget list) \<times> 's \<times> 'w" where
  "query_at d ver expr cquery transform sw =
     (case ver of
        Some v \<Rightarrow> query_with d expr cquery v transform sw
      | None \<Rightarrow>
          (case bazel_version d (default_failures, snd sw) of
             Some (Inr v, _, w) \<Rightarrow> query_with d expr cquery v transform (fst sw, w)
           | Some (Inl err, _, w) \<Rightarrow> (Inl (QueryError err), fst sw, w)
           | None \<Rightarrow> (Inl (QueryError (Panicked [])), sw)))"

definition strict :: "'w discovery \<Rightarrow> 'w discovery" where
  "strict d = d\<lparr>dc_options := (dc_options d)\<lparr>keep_going := False\<rparr>\<rparr>"

text \<open>What the supplementary query of an isolated root asks for.\<close>

definition supplement ::
  "isolated_scope \<Rightarrow> scoped_coverage \<Rightarrow> (string, string list) btree \<Rightarrow> mod_error + string list" where
  "supplement scope coverage loads =
     (let readers = map fst (filter (\<lambda>(_, names). list_ex (\<lambda>name. name \<notin> set (cv_files coverage)) (List.map_filter (scope_canonical scope) names)) loads)
      in case (if cv_missing coverage = [] then Inr [] else map_sum id (\<lambda>roots.
           [''(let direct = deps('' @ join '' + '' roots @ '') in $direct + buildfiles($direct))'']) (query_labels (cv_missing coverage))) of
           Inl err \<Rightarrow> Inl err
         | Inr direct \<Rightarrow>
             (case (if readers = [] then Inr [] else map_sum id (\<lambda>builds. [''buildfiles('' @ join '' + '' builds @ '')'']) (query_labels readers)) of
                Inl err \<Rightarrow> Inl err
              | Inr builds \<Rightarrow> Inr (direct @ builds)))"

definition complete_scope ::
  "'w discovery \<Rightarrow> (nat \<times> nat \<times> nat) option \<Rightarrow> (qtarget list \<Rightarrow> input_group option \<Rightarrow> 's \<Rightarrow> qtarget list \<times> 's) \<Rightarrow> isolated_scope \<Rightarrow>
   qtarget list \<Rightarrow> ('s \<times> (string, string list) btree) \<times> 'w \<Rightarrow> (query_failure + qtarget list) \<times> ('s \<times> (string, string list) btree) \<times> 'w" where
  "complete_scope d ver transform scope targets sw =
     (let coverage = coverage_record scope targets coverage_default
      in case supplement scope coverage (snd (fst sw)) of
           Inl err \<Rightarrow> (Inl (QueryError err), sw)
         | Inr [] \<Rightarrow> (map_sum QueryError id (connect_external_readers scope (snd (fst sw)) targets coverage), sw)
         | Inr additions \<Rightarrow>
             (case query_at (strict d) ver (with_exclude_filter (dc_options d) (join '' + '' additions)) False
                (\<lambda>batch (s, loads). (batch, s, record_build_loads scope batch loads)) sw of
                (Inl err, sw') \<Rightarrow> (Inl err, sw')
              | (Inr extra, ((s, loads), w)) \<Rightarrow>
                  (let (extra', s') = transform (retain_supplemental_targets extra targets) None s;
                       coverage' = coverage_record scope extra' coverage
                   in if cv_missing coverage' \<noteq> [] then
                        (Inl (QueryError (Refused (''scoped input '' @ hd (cv_missing coverage') @ '' was not returned''))), (s', loads), w)
                      else (map_sum QueryError id (connect_external_readers scope loads (targets @ extra') coverage'), (s', loads), w))))"

definition query_all_targets_with ::
  "'w discovery \<Rightarrow> (qtarget list \<Rightarrow> input_group option \<Rightarrow> 's \<Rightarrow> qtarget list \<times> 's) \<Rightarrow> 's \<Rightarrow> 'w \<Rightarrow> ((query_failure + 's queried_targets) \<times> 'w) option" where
  "query_all_targets_with d transform s w =
     Option.bind (discover d transform s (default_failures, w)) (\<lambda>(r, failed, w1).
       case r of
         Inl err \<Rightarrow> Some (Inl (QueryError err), w1)
       | Inr (ver, repos) \<Rightarrow>
           (let scope = br_scope repos;
                scoped = (sc_members scope \<noteq> []);
                query = (\<lambda>expr cquery.
                  if scoped then query_at (strict d) ver (with_exclude_filter (dc_options d) (scope_expression scope expr)) False
                    (\<lambda>batch (s, loads). let (batch', s') = transform batch None s in (batch', s', record_build_loads scope batch loads))
                  else query_at d ver expr cquery (\<lambda>batch (s, loads). let (batch', s') = transform batch None s in (batch', s', loads)));
                (collected, sw1) = collect_all_targets (dc_options d) query (br_targets repos) ((br_state repos, []), w1);
                (completed, sw2) = (case collected of
                  Inl err \<Rightarrow> (Inl err, sw1)
                | Inr targets \<Rightarrow> if scoped then complete_scope d ver transform scope targets sw1 else (Inr targets, sw1))
            in case completed of
                 Inl err \<Rightarrow> Some (Inl err, snd sw2)
               | Inr targets \<Rightarrow>
                   map_option (\<lambda>(checked, _, w3). (case checked of
                       Inl err \<Rightarrow> Inl (QueryError err)
                     | Inr _ \<Rightarrow> Inr \<lparr>qd_targets = targets, qd_module_graph_json = br_module_graph_json repos, qd_root_mapping = br_root_mapping repos,
                         qd_scoped_repositories = bs_of_list (map fst (filter (\<lambda>(_, canonical). canonical \<in> set (sc_members scope)) (sc_aliases scope)) @ sc_members scope),
                         qd_repository_inputs = sc_repository_inputs scope, qd_state = fst (fst sw2)\<rparr>, w3))
                     (check_failed_extension_references (dc_mod d) targets failed (br_canonical_to_apparent repos) (snd sw2))))"

subsection \<open>Isolation is complete or refused\<close>

lemma and_then_Inr:
  assumes "and_then m k st = Some (Inr b, st')"
  obtains a st1 where "m st = Some (Inr a, st1)" "k a st1 = Some (Inr b, st')"
  using assms by (auto simp: and_then_def split: Option.bind_splits sum.splits)

lemma ret_Inr [simp]: "ret a st = Some (Inr b, st') \<longleftrightarrow> a = b \<and> st = st'"
  by (auto simp: ret_def)

lemma fail_Inr [simp]: "fail err st \<noteq> Some (Inr b, st')"
  by (simp add: fail_def)

lemma isolate_Inr:
  assumes "isolate d root_mapping retained complete_graph found repositories st = Some (Inr scope, st')"
    and "isolated_dependency_root (dc_options d) = Some root"
  shows "st' = st" "failed_is_empty (fst st)" "retained" "complete_graph" "er_complete_mappings found"
    "resolve_isolated_root (dc_has_unknown d) (dc_from_str d) root root_mapping found repositories = Inr scope"
  using assms by (auto simp: isolate_def isolation_refusal_def failed_is_empty_def split: if_splits)

lemma query_bzlmod_repos_isolated:
  assumes "query_bzlmod_repos d transform given survey s st = Some (Inr repos, st')" "isolated_dependency_root (dc_options d) = Some root"
  shows "\<exists>found repositories. failed_is_empty (fst st') \<and> given = br_root_mapping repos \<and> given \<noteq> None \<and> er_complete_mappings found \<and>
    resolve_isolated_root (dc_has_unknown d) (dc_from_str d) root (the given) found repositories = Inr (br_scope repos)"
proof -
  obtain root_mapping c2a graph found repositories scope complete_graph st4 st5 where r: "given = None \<or> given = Some root_mapping"
      "isolate d root_mapping (given \<noteq> None) complete_graph found repositories st4 = Some (Inr scope, st5)" "st' = st5"
      "br_scope repos = scope" "br_root_mapping repos = (if given \<noteq> None then Some root_mapping else None)"
    using assms(1) unfolding query_bzlmod_repos_def Let_def
    by (auto elim!: and_then_Inr split: option.splits prod.splits sum.splits)
  from isolate_Inr [OF r(2) assms(2)] r show ?thesis by (intro exI [of _ found] exI [of _ repositories]) auto
qed


subsection \<open>Targets of the queries and of the repositories\<close>

text \<open>
  A workspace without the \<^verbatim>\<open>//external\<close> package is queried as if external targets were excluded. When the first query fails for that reason,
  the outcome and every later query are those of a run with \<^verbatim>\<open>--excludeExternalTargets\<close>.
\<close>

theorem external_fallback:
  assumes "\<not> use_cquery opts" "\<not> exclude_external_targets opts"
    and "query (with_exclude_filter opts (join '' + '' (external_query # workspace_queries opts))) False st = (Inl err, st1)" "is_external_package_error err"
  shows "collect_all_targets opts query repos st =
    (case query (with_exclude_filter opts (join '' + '' (workspace_queries opts))) False st1 of
       (Inl err', st2) \<Rightarrow> (Inl err', st2)
     | (Inr targets, st2) \<Rightarrow> (Inr (deduplicate_targets (targets @ repos)), st2)) \<and>
   fst (collect_all_targets opts query repos st) = fst (collect_all_targets (opts\<lparr>exclude_external_targets := True\<rparr>) query repos st1)"
  using assms by (auto simp: collect_all_targets_def with_exclude_filter_def workspace_queries_def Let_def split: prod.splits sum.splits)

lemma collected_deduplicated:
  assumes "collect_all_targets opts query repos st = (Inr out, st')"
  obtains queried where "out = deduplicate_targets (queried @ repos)"
  using assms by (auto simp: collect_all_targets_def Let_def split: if_splits prod.splits sum.splits) (metis append.assoc)

text \<open>
  No repository is lost among the queried targets. The collected targets have one target per name, every repository's name among them, and the repository itself
  when no query returned its name.
\<close>

theorem repositories_collected:
  assumes "collect_all_targets opts query repos st = (Inr out, st')"
  shows "distinct (target_names out) \<and> set (target_names repos) \<subseteq> set (target_names out) \<and>
    (\<exists>queried. set (target_names out) = set (target_names queried) \<union> set (target_names repos) \<and>
      (\<forall>n. n \<notin> set (target_names queried) \<longrightarrow> find (named_as n) out = find (named_as n) repos))"
proof -
  obtain queried where out: "out = deduplicate_targets (queried @ repos)" by (rule collected_deduplicated [OF assms])
  have d: "deduplicate_targets ts = dedup_from {} ts" for ts by (simp add: deduplicate_targets_def dedup_from_def)
  have names: "set (target_names (queried @ repos)) = set (target_names queried) \<union> set (target_names repos)" by (auto simp: target_names_def map_filter_def)
  have "find (named_as n) out = find (named_as n) repos" if "n \<notin> set (target_names queried)" for n
  proof -
    have "find (named_as n) queried = None" using that by (force simp: find_None_iff named_as_def target_names_def map_filter_def)
    then have "find (named_as n) (queried @ repos) = find (named_as n) repos" by (induction queried) (auto split: if_splits)
    then show ?thesis unfolding out d by (simp add: dedup_from_first)
  qed
  then show ?thesis using dedup_from_names [of "{}" "queried @ repos"] names unfolding out d by blast
qed

subsection \<open>A concrete workspace\<close>

definition iso_json :: json_parser where
  "iso_json txt = Some (if starts_with ''{'' txt then JObj [(''key'', JStr ''<root>''), (''name'', JStr []), (''dependencies'', JArr [])]
     else JObj [(''hub'', JStr iso_hub)])"

definition iso_bazel :: "unit bazel_mod" where
  "iso_bazel = \<lparr>bm_run = (\<lambda>args w. (Inr \<lparr>mo_success = True,
       mo_stdout = (if args = [''version''] then ''bazel 8.6.0'' else if take 2 args = [''mod'', ''graph''] then ''{g''
         else if take 2 args = [''mod'', ''show_repo''] then ''x'' else ''m''),
       mo_stderr = []\<rparr>, w)), bm_keep_going = True, bm_budget = 100\<rparr>"

definition iso_read :: repository_reader where
  "iso_read input = (case input of [] \<Rightarrow> Inl ''empty'' | c # rest \<Rightarrow> Inr ((repository_named iso_hub)\<lparr>rp_original_name := Some ''hub''\<rparr>, rest))"

definition iso_discovery :: "unit discovery" where
  "iso_discovery =
     \<lparr>dc_mod = iso_bazel,
      dc_options = \<lparr>workspace = ''/w'', bazel = ''bazel'', startup_options = [], command_options = [], cquery_options = [], use_cquery = False,
        cquery_expression = None, keep_going = True, fine_grained_external_repos = [], label_only_module_extensions = [],
        isolated_dependency_root = Some ''@hub'', exclude_external_targets = False, exclude_targets_query = None, no_bazelrc = False, verbose = False\<rparr>,
      dc_query = (\<lambda>args expr w. (Inr \<lparr>qo_code = 0, qo_stderr = [], qo_bytes = []\<rparr>, w)), dc_module_file = False, dc_from_str = iso_json, dc_read = iso_read,
      dc_decode = (\<lambda>_. Inl []), dc_decode_cquery = (\<lambda>_ _. Inr []), dc_has_unknown = (\<lambda>_. False), dc_encode = (\<lambda>_. []), dc_crates = crates_ref,
      dc_files = checkout ''/w'', dc_cancelled = (\<lambda>_. None)\<rparr>"

lemma iso_run_mapping: "run_mod_over_repos iso_bazel ''dump_repo_mapping'' [iso_hub] default_failures (mapping_attempt iso_bazel [iso_hub]) () =
    Some (Inr (Some (''m'', True)), default_failures, ())"
  by (simp add: run_mod_over_repos_def without_failed_def has_unavailable_mapping_def default_failures_def mod_loop.simps mapping_attempt_def run_capture_def iso_bazel_def)

lemma iso_run_show: "run_mod_over_repos iso_bazel ''show_repo'' [''@@'' @ iso_hub] default_failures (show_attempt iso_bazel) () =
    Some (Inr (Some ''x''), default_failures, ())"
  by (simp add: run_mod_over_repos_def without_failed_def has_unavailable_mapping_def default_failures_def mod_loop.simps show_attempt_def run_capture_def iso_bazel_def)

lemma iso_version: "parse_bazel_version ''bazel 8.6.0'' = Some (8, 6, 0)"
proof -
  have "str_lines ''bazel 8.6.0'' = [''bazel 8.6.0'']" "split_on (CHR ''.'') (hd (split_on (CHR ''-'') ''8.6.0'')) = [''8'', ''6'', ''0'']" by code_simp+
  moreover have "parse_u32_or_zero ''8'' = 8" "parse_u32_or_zero ''6'' = 6" "parse_u32_or_zero ''0'' = 0"
    by (simp_all add: parse_u32_or_zero_def parse_u64_def is_ascii_digit_def usize_max_def)
  ultimately show ?thesis by (simp add: parse_bazel_version_def map_filter_simps)
qed

lemma iso_facts:
  "chunk_arguments [iso_hub] 100 = [[iso_hub]]" "chunk_arguments [''@@'' @ iso_hub] 100 = [[''@@'' @ iso_hub]]"
  "mapping_lines iso_json ''m'' = [Some [(''hub'', iso_hub)]]" "decode_delimited iso_read ''x'' = Inr [(repository_named iso_hub)\<lparr>rp_original_name := Some ''hub''\<rparr>]"
  "parse_repo_mapping iso_json ''m'' = [(iso_hub, [''hub''])]" "isolated_module_repo_names iso_json ''{g'' [(iso_hub, [''hub''])] = Inr []"
  "is_extension_repo iso_hub" "representatives_of [iso_hub] = [(''rules+_ext+++usage'', iso_hub)]"
  "asked_names [(iso_hub, [''hub''])] [] iso_survey = [''@@'' @ iso_hub]"
  "supports_bzlmod (8, 6, 0)" "str_trim ''{g'' = ''{g''"
  "resolve_isolated_root (\<lambda>_. False) iso_json ''@hub'' ''m'' iso_survey [(repository_named iso_hub)\<lparr>rp_original_name := Some ''hub''\<rparr>] = Inr iso_scope"
  "starts_with ''@@'' (''@@'' @ iso_hub)" "bs_of_list [iso_hub, iso_hub] = [iso_hub]" "represented [(''rules+_ext+++usage'', iso_hub)] iso_hub"
  "bs_of_list [iso_hub] = [iso_hub]"
  by code_simp+

lemma iso_extensions:
  "extension_repositories iso_bazel iso_json [(iso_hub, [''hub''])] [] [] True default_failures () = Some (Inr iso_survey, default_failures, ())"
proof -
  have "dump_repo_mappings iso_bazel iso_json [iso_hub] default_failures True () = Some (Inr [[(''hub'', iso_hub)]], default_failures, True, ())"
    using iso_facts(1,3) iso_run_mapping by (simp add: dump_repo_mappings_def iso_bazel_def [THEN arg_cong [where f = bm_budget], simplified] map_filter_simps)
  then show ?thesis
    using iso_facts
    by (simp add: extension_repositories_def all_module_mappings_def sibling_mappings_def mapped_names_def failed_is_empty_def default_failures_def
        has_unavailable_mapping_def iso_survey_def Let_def)
qed

lemma iso_described:
  "described iso_discovery [''@@'' @ iso_hub] None (default_failures, ()) = Some (Inr [(repository_named iso_hub)\<lparr>rp_original_name := Some ''hub''\<rparr>], default_failures, ())"
proof -
  have "names_cost (takeWhile (starts_with ''@@'') [''@@'' @ iso_hub]) \<le> 100" by code_simp
  then show ?thesis
    using iso_facts(2,4) iso_run_show
    by (simp add: described_def iso_discovery_def show_repositories_within_def show_repositories_explicit_def iso_bazel_def [THEN arg_cong [where f = bm_budget], simplified])
qed

lemma iso_repos:
  "\<exists>repos. query_bzlmod_repos iso_discovery (\<lambda>ts _ s. (ts, s)) (Some ''m'') \<lparr>ms_graph = None, ms_mappings = []\<rparr> () (default_failures, ()) =
    Some (Inr repos, default_failures, ())"
proof -
  have g: "module_graph_json_tolerating iso_discovery None (default_failures, ()) = Some (Inr (''{g'', True), default_failures, ())"
    using iso_facts(11) by (simp add: module_graph_json_tolerating_def and_then_def capture_def accepting_def accept_mod_output_def run_capture_def ret_def iso_discovery_def iso_bazel_def)
  have h: "hidden_modules_of iso_discovery [(iso_hub, [''hub''])] (Some ''{g'') True = Inr []"
    using iso_facts(6) by (simp add: hidden_modules_of_def iso_discovery_def)
  have d: "dc_mod iso_discovery = iso_bazel" "dc_from_str iso_discovery = iso_json" "isolated_dependency_root (dc_options iso_discovery) = Some ''@hub''"
    "dc_has_unknown iso_discovery = (\<lambda>_. False)" by (simp_all add: iso_discovery_def)
  have v: "verified_hidden_modules iso_json (Some ''{g'') ''m'' (er_module_mappings iso_survey) [] = False" by (simp add: verified_hidden_modules_def)
  have i: "isolate iso_discovery ''m'' True True iso_survey [(repository_named iso_hub)\<lparr>rp_original_name := Some ''hub''\<rparr>] (default_failures, ()) =
      Some (Inr iso_scope, default_failures, ())"
    using iso_facts(12) by (simp add: isolate_def d isolation_refusal_def default_failures_def iso_survey_def)
  show ?thesis unfolding query_bzlmod_repos_def Let_def
    using g h v i iso_extensions iso_described
    by (simp add: and_then_def ret_def or_warn_def d iso_facts case_prod_unfold)
qed


theorem external_fallback_witness:
  "fst (collect_all_targets (dc_options iso_discovery) (\<lambda>expr _ st. if st then (Inr [Query_Target.sample_lib], True)
      else (Inl (QueryFailed 7 ''//external package is not available''), True)) [] False) =
   fst (collect_all_targets ((dc_options iso_discovery)\<lparr>exclude_external_targets := True\<rparr>) (\<lambda>expr _ st. if st then (Inr [Query_Target.sample_lib], True)
      else (Inl (QueryFailed 7 ''//external package is not available''), True)) [] True)"
proof -
  have "is_external_package_error (QueryFailed 7 ''//external package is not available'')" by code_simp
  moreover have "\<not> use_cquery (dc_options iso_discovery)" "\<not> exclude_external_targets (dc_options iso_discovery)" by (simp_all add: iso_discovery_def)
  ultimately show ?thesis
    by (intro conjunct2 [OF external_fallback [where err = "QueryFailed 7 ''//external package is not available''" and ?st1.0 = True]]) simp_all
qed

theorem repositories_collected_witness:
  "\<exists>out. collect_all_targets (dc_options iso_discovery) (\<lambda>expr _ st. (Inr [], st)) [Query_Target.sample_lib] () = (Inr out, ()) \<and>
    set (target_names [Query_Target.sample_lib]) \<subseteq> set (target_names out)"
proof -
  have "collect_all_targets (dc_options iso_discovery) (\<lambda>expr _ st. (Inr [], st)) [Query_Target.sample_lib] () =
      (Inr (deduplicate_targets [Query_Target.sample_lib]), ())" by (simp add: collect_all_targets_def iso_discovery_def)
  from repositories_collected [OF this] this show ?thesis by blast
qed

end
