(* ===== verification/Sources.thy ===== *)
theory Sources
  imports Query_All
begin

section \<open>Contents of sources (hash.rs)\<close>

text \<open>
  \<^verbatim>\<open>SourceHasher\<close> and \<^verbatim>\<open>ExternalRepoResolver\<close> of \<^verbatim>\<open>src/hash.rs\<close> on Unix: which file a label names, and the bytes its digest is taken
  of. The file system is a parameter: what \<^verbatim>\<open>fs::metadata\<close> finds at a path, with links followed, is a
  node or an error. A directory lists its entries in the order of the sorted walk, without following
  links; nothing stands for a file or a directory that cannot be read. A directory that can be walked has its owner's executable bit;
  entries that are neither files nor directories count as not executable.
\<close>

datatype fs_node =
    FileNode (node_content: "bytes option") (node_executable: bool)
  | DirNode "(string \<times> fs_node) list option"
  | LinkNode string
  | OtherNode

datatype fs_error = NotFound | NotADirectory | Unreadable

definition metadata_owner_executable :: "fs_node \<Rightarrow> bool" where
  "metadata_owner_executable n = (case n of FileNode _ x \<Rightarrow> x | DirNode _ \<Rightarrow> True | _ \<Rightarrow> False)"

definition hash_permissions :: "fs_node \<Rightarrow> bytes" where
  "hash_permissions n = (if (case n of DirNode _ \<Rightarrow> True | _ \<Rightarrow> False) \<or> metadata_owner_executable n then [0xED, 0x01, 0, 0] else [0xA4, 0x01, 0, 0])"

subsection \<open>Directories\<close>

text \<open>The bytes of one entry of \<^verbatim>\<open>hash_directory_tree\<close>, its path relative to the root.\<close>

definition entry_header :: "bool \<Rightarrow> string \<Rightarrow> fs_node \<Rightarrow> bytes" where
  "entry_header strct rel n =
     as_bytes rel @ [0] @ (if strct \<and> (case n of LinkNode _ \<Rightarrow> False | _ \<Rightarrow> True) then hash_permissions n else [])"

definition flag :: "bool \<Rightarrow> 8 word" where
  "flag b = (if b then 1 else 0)"

fun node_bytes :: "crates \<Rightarrow> bool \<Rightarrow> string \<Rightarrow> fs_node \<Rightarrow> string + bytes"
and children_bytes :: "crates \<Rightarrow> bool \<Rightarrow> string \<Rightarrow> (string \<times> fs_node) list \<Rightarrow> string + bytes" where
  "node_bytes c strct rel (LinkNode t) =
     (if strct then Inl ''symlink'' else Inr (entry_header strct rel (LinkNode t) @ as_bytes ''symlink'' @ as_bytes t @ [0]))"
| "node_bytes c strct rel (DirNode None) = Inl ''directory''"
| "node_bytes c strct rel (DirNode (Some cs)) =
     map_sum id (\<lambda>bs. entry_header strct rel (DirNode (Some cs)) @ as_bytes ''dir'' @ [0] @ bs) (children_bytes c strct (rel @ ''/'') cs)"
| "node_bytes c strct rel (FileNode None x) = Inl ''file''"
| "node_bytes c strct rel (FileNode (Some content) x) =
     Inr (entry_header strct rel (FileNode (Some content) x) @ as_bytes ''file'' @ sha256 c content @ [flag x] @ [0])"
| "node_bytes c strct rel OtherNode =
     (if strct then Inl ''unsupported entry'' else Inr (entry_header strct rel OtherNode @ as_bytes ''other'' @ [0]))"
| "children_bytes c strct prefx [] = Inr []"
| "children_bytes c strct prefx ((name, n) # cs) =
     (case node_bytes c strct (prefx @ name) n of
        Inl err \<Rightarrow> Inl err
      | Inr bs \<Rightarrow> map_sum id (\<lambda>rest. bs @ rest) (children_bytes c strct prefx cs))"

definition hash_directory_tree :: "crates \<Rightarrow> bool \<Rightarrow> (string \<times> fs_node) list option \<Rightarrow> string + bytes" where
  "hash_directory_tree c strct listing = (case listing of None \<Rightarrow> Inl ''directory'' | Some cs \<Rightarrow> children_bytes c strct [] cs)"

subsection \<open>External repositories\<close>

record source_hasher =
  sh_crates :: crates
  sh_workspace :: string
  sh_tree :: "tree_index option"
  sh_content_hashes :: "(string, string) btree option"
  sh_modified_filepaths :: "string list"
  sh_fine_grained :: "string list"
  sh_scoped_repositories :: "string list"
  sh_output_base :: string
  sh_repo_mapping :: "(string, string) btree"
  sh_metadata :: "string \<Rightarrow> fs_error + fs_node"
  sh_location :: "string \<Rightarrow> string + string"

definition file_content :: "fs_error + fs_node \<Rightarrow> bytes option" where
  "file_content r = (case r of Inr (FileNode content _) \<Rightarrow> content | _ \<Rightarrow> None)"

definition path_exists :: "source_hasher \<Rightarrow> string \<Rightarrow> bool" where
  "path_exists sh p = (case sh_metadata sh p of Inl _ \<Rightarrow> False | Inr _ \<Rightarrow> True)"

definition add_entry :: "string \<times> json \<Rightarrow> (string, string) btree \<Rightarrow> (string, string) btree" where
  "add_entry kv t = (case de_string (snd kv) of None \<Rightarrow> t | Some canonical \<Rightarrow> if fst kv = [] \<or> canonical = [] then t else bt_insert (fst kv) canonical t)"

definition parse_apparent_repo_mapping :: "json_parser \<Rightarrow> string \<Rightarrow> (string, string) btree" where
  "parse_apparent_repo_mapping from_str txt =
     fold (\<lambda>line t. case map_option value_of (from_str (str_trim line)) of Some (JObj listing) \<Rightarrow> fold add_entry listing t | _ \<Rightarrow> t) (str_lines txt) []"

text \<open>\<^verbatim>\<open>canonical_repo_nodes\<close>: of several apparent names, the smallest, whatever the order of the map.\<close>

definition add_node :: "string \<times> string \<Rightarrow> (string, string) btree \<Rightarrow> (string, string) btree" where
  "add_node kv nodes =
     (case bt_get nodes (snd kv) of
        Some existing \<Rightarrow> if existing \<le> fst kv then nodes else bt_insert (snd kv) (fst kv) nodes
      | None \<Rightarrow> bt_insert (snd kv) (fst kv) nodes)"

definition canonical_repo_nodes :: "(string, string) btree \<Rightarrow> (string, string) btree" where
  "canonical_repo_nodes mapping = fold add_node mapping []"

text \<open>The first component below \<^verbatim>\<open>external\<close> of the place a query reports.\<close>

definition located_repo :: "string \<Rightarrow> string \<Rightarrow> string option" where
  "located_repo external out =
     (case str_lines out of
        [] \<Rightarrow> None
      | line # _ \<Rightarrow>
          Option.bind (split_once_str '': '' line) (\<lambda>(location, _).
            Option.bind (path_strip_prefix external location) (\<lambda>comps. case comps of
              Normal first # _ \<Rightarrow> Some (path_join external first)
            | ParentDir # _ \<Rightarrow> Some (path_join external ''..'')
            | _ \<Rightarrow> None)))"

definition resolve_uncached :: "source_hasher \<Rightarrow> string \<Rightarrow> string + string" where
  "resolve_uncached sh repo =
     (let external = path_join (sh_output_base sh) ''external'';
          canonical = bt_get (sh_repo_mapping sh) repo;
          candidates = (case canonical of Some name \<Rightarrow> [path_join external name] | None \<Rightarrow> [path_join external repo, path_join external (repo @ ''+'')])
      in case find (path_exists sh) candidates of
           Some found \<Rightarrow> Inr found
         | None \<Rightarrow>
             (case sh_location sh repo of
                Inl err \<Rightarrow> Inl err
              | Inr out \<Rightarrow>
                  (case located_repo external out of
                     Some found \<Rightarrow> Inr found
                   | None \<Rightarrow> Inr (path_join external (case canonical of Some name \<Rightarrow> name | None \<Rightarrow> repo)))))"

text \<open>\<^verbatim>\<open>ExternalRepoResolver::resolve\<close> with the memo its lock protects.\<close>

definition resolve_repo :: "source_hasher \<Rightarrow> string \<Rightarrow> (string, string) btree \<Rightarrow> (string + string) \<times> (string, string) btree" where
  "resolve_repo sh repo resolved =
     (case bt_get resolved repo of
        Some root \<Rightarrow> (Inr root, resolved)
      | None \<Rightarrow>
          (case resolve_uncached sh repo of
             Inl err \<Rightarrow> (Inl err, resolved)
           | Inr root \<Rightarrow> (Inr root, bt_insert repo root resolved)))"

subsection \<open>Where a source is\<close>

definition is_fine_grained :: "source_hasher \<Rightarrow> bool \<Rightarrow> string \<Rightarrow> bool" where
  "is_fine_grained sh canonical repo \<longleftrightarrow>
     repo \<in> set (sh_fine_grained sh) \<or>
     sh_fine_grained sh \<noteq> [] \<and>
       (let nodes = canonical_repo_nodes (sh_repo_mapping sh);
            node = (if canonical then (case bt_get nodes repo of None \<Rightarrow> repo | Some n \<Rightarrow> n) else repo)
        in names_fine_grained_repo repo node (sh_fine_grained sh) nodes)"

definition is_file_node :: "fs_node \<Rightarrow> bool" where
  "is_file_node n = (case n of FileNode _ _ \<Rightarrow> True | _ \<Rightarrow> False)"

definition is_dir_node :: "fs_node \<Rightarrow> bool" where
  "is_dir_node n = (case n of DirNode _ \<Rightarrow> True | _ \<Rightarrow> False)"

text \<open>The source of a cquery at its canonical place, when nothing else decides what is read.\<close>

definition configured_place :: "source_hasher \<Rightarrow> bool \<Rightarrow> bool \<Rightarrow> string \<Rightarrow> string \<Rightarrow> string + (string \<times> string \<times> bool) option" where
  "configured_place sh configured canonical repo key =
     (if configured \<and> canonical \<and> repo \<noteq> [] \<and> sh_tree sh = None \<and> sh_content_hashes sh = None \<and> sh_modified_filepaths sh = []
      then (let p = path_join (sh_output_base sh) key
            in case sh_metadata sh p of
                 Inr n \<Rightarrow> Inr (if is_file_node n then Some (p, key, True) else None)
               | Inl Unreadable \<Rightarrow> Inl (''failed to inspect source '' @ p)
               | Inl _ \<Rightarrow> Inr None)
      else Inr None)"

definition scoped_place :: "source_hasher \<Rightarrow> string \<Rightarrow> string \<Rightarrow> string + bool" where
  "scoped_place sh repo p =
     (if repo \<in> set (sh_scoped_repositories sh)
      then (case sh_metadata sh p of
              Inl _ \<Rightarrow> Inl (''failed to inspect scoped source '' @ p)
            | Inr n \<Rightarrow> if \<not> is_file_node n \<and> \<not> is_dir_node n then Inl (''scoped source '' @ p @ '' is neither a regular file nor a directory'') else Inr (is_file_node n))
      else Inr False)"

definition resolve_source ::
  "source_hasher \<Rightarrow> label \<Rightarrow> bool \<Rightarrow> (string, string) btree \<Rightarrow> (string + (string \<times> string \<times> bool) option) \<times> (string, string) btree" where
  "resolve_source sh lbl configured resolved =
     (case main_repo_path lbl of
        Some p \<Rightarrow> (Inr (Some (p, p, False)), resolved)
      | None \<Rightarrow>
          (case strip_prefix ''@'' lbl of
             None \<Rightarrow> (Inr None, resolved)
           | Some rest \<Rightarrow>
               (case split_once_str ''//'' (trim_start_matches (CHR ''@'') rest) of
                  None \<Rightarrow> (Inr None, resolved)
                | Some (repo, tgt) \<Rightarrow>
                    (let canonical = starts_with ''@'' rest;
                         relative = external_label_path tgt;
                         key = path_join (path_join ''external'' repo) relative
                     in case configured_place sh configured canonical repo key of
                          Inl err \<Rightarrow> (Inl err, resolved)
                        | Inr (Some place) \<Rightarrow> (Inr (Some place), resolved)
                        | Inr None \<Rightarrow>
                            if \<not> is_fine_grained sh canonical repo then (Inr None, resolved)
                            else (case resolve_repo sh repo resolved of
                                    (Inl err, resolved') \<Rightarrow> (Inl err, resolved')
                                  | (Inr root, resolved') \<Rightarrow>
                                      (case scoped_place sh repo (path_join root relative) of
                                         Inl err \<Rightarrow> (Inl err, resolved')
                                       | Inr file \<Rightarrow> (Inr (Some (path_join root relative, key, file)), resolved')))))))"

subsection \<open>Digests\<close>

definition scoped_label :: "source_hasher \<Rightarrow> label \<Rightarrow> bool" where
  "scoped_label sh lbl =
     (case split_once_str ''//'' (trim_start_matches (CHR ''@'') lbl) of None \<Rightarrow> False | Some (repo, _) \<Rightarrow> repo \<in> set (sh_scoped_repositories sh))"

text \<open>The bytes that stand for the content found at an absolute path.\<close>

definition place_bytes :: "source_hasher \<Rightarrow> label \<Rightarrow> string \<Rightarrow> string \<Rightarrow> bool \<Rightarrow> string + bytes" where
  "place_bytes sh lbl absolute key materialized =
     (let found = sh_metadata sh absolute;
          executable = (case found of Inl _ \<Rightarrow> False | Inr n \<Rightarrow> metadata_owner_executable n);
          modified = map (path_join (sh_workspace sh)) (sh_modified_filepaths sh)
      in case Option.bind (sh_content_hashes sh) (\<lambda>hs. bt_get hs key) of
           Some content_hash \<Rightarrow> Inr (as_bytes content_hash @ [1, flag executable])
         | None \<Rightarrow>
             if materialized \<or> (case found of Inl _ \<Rightarrow> False | Inr n \<Rightarrow> is_file_node n) then
               (if sh_modified_filepaths sh = [] \<or> list_ex (\<lambda>m. path_components m = path_components absolute) modified
                then (case file_content found of None \<Rightarrow> Inl (''failed to read source '' @ absolute) | Some content \<Rightarrow> Inr (content @ [1, flag executable]))
                else Inr [1, flag executable])
             else (case found of
                     Inr (DirNode listing) \<Rightarrow>
                       if sh_modified_filepaths sh = [] \<or> list_ex (\<lambda>m. path_strip_prefix absolute m \<noteq> None) modified
                       then map_sum id (\<lambda>bs. bs @ [2]) (hash_directory_tree (sh_crates sh) (scoped_label sh lbl) listing)
                       else Inr [2]
                   | _ \<Rightarrow> Inr [0]))"

definition digest_physical ::
  "source_hasher \<Rightarrow> label \<Rightarrow> bytes \<Rightarrow> bool \<Rightarrow> (string, string) btree \<Rightarrow> (string + bytes) \<times> (string, string) btree" where
  "digest_physical sh lbl seed configured resolved =
     (case resolve_source sh lbl configured resolved of
        (Inl err, resolved') \<Rightarrow> (Inl err, resolved')
      | (Inr None, resolved') \<Rightarrow> (Inr (sha256 (sh_crates sh) []), resolved')
      | (Inr (Some (p, key, materialized)), resolved') \<Rightarrow>
          (map_sum id (\<lambda>bs. sha256 (sh_crates sh) (bs @ seed @ as_bytes lbl))
             (place_bytes sh lbl (path_join (sh_workspace sh) p) key materialized), resolved'))"

definition digest_source ::
  "source_hasher \<Rightarrow> label \<Rightarrow> bytes \<Rightarrow> bool \<Rightarrow> (string, string) btree \<Rightarrow> (string + bytes) \<times> (string, string) btree" where
  "digest_source sh lbl seed configured resolved =
     (case sh_tree sh of
        Some tr \<Rightarrow> if is_main_repo lbl then (Inr (source_digest (sh_crates sh) tr lbl seed), resolved) else digest_physical sh lbl seed configured resolved
      | None \<Rightarrow> digest_physical sh lbl seed configured resolved)"

definition soft_digest_source ::
  "source_hasher \<Rightarrow> label \<Rightarrow> bytes \<Rightarrow> (string, string) btree \<Rightarrow> (string + bytes option) \<times> (string, string) btree" where
  "soft_digest_source sh lbl seed resolved =
     (if \<not> is_main_repo lbl then (Inr None, resolved)
      else case sh_tree sh of
             Some tr \<Rightarrow> (Inr (soft_digest (sh_crates sh) tr lbl), resolved)
           | None \<Rightarrow>
               (case resolve_source sh lbl False resolved of
                  (Inl err, resolved') \<Rightarrow> (Inl err, resolved')
                | (Inr None, resolved') \<Rightarrow> (Inr None, resolved')
                | (Inr (Some (p, _, _)), resolved') \<Rightarrow>
                    (case sh_metadata sh (path_join (sh_workspace sh) p) of
                       Inr (FileNode _ _) \<Rightarrow> (case digest_source sh lbl seed False resolved' of (r, resolved'') \<Rightarrow> (map_sum id Some r, resolved''))
                     | _ \<Rightarrow> (Inr None, resolved'))))"

definition hash_seed_files :: "source_hasher \<Rightarrow> string list \<Rightarrow> string + bytes" where
  "hash_seed_files sh paths =
     (case those (map (\<lambda>p. file_content (sh_metadata sh (path_join (sh_workspace sh) p))) paths) of
        None \<Rightarrow> Inl ''failed to read seed file''
      | Some contents \<Rightarrow> Inr (sha256 (sh_crates sh) (concat contents)))"

definition bad_segment :: "string \<Rightarrow> bool" where
  "bad_segment v \<longleftrightarrow> v \<noteq> [] \<and> (CHR 0x5C \<in> set v \<or> list_ex (\<lambda>part. part \<in> {[], ''.'', ''..''}) (split_on (CHR ''/'') v))"

definition repository_input_digest :: "source_hasher \<Rightarrow> label \<Rightarrow> string + bytes" where
  "repository_input_digest sh lbl =
     (case Option.bind (strip_prefix ''@@'' lbl) (split_once_str ''//'') of
        None \<Rightarrow> Inl (''invalid repository input '' @ lbl)
      | Some (repo, tgt) \<Rightarrow>
          (case split_once (CHR '':'') tgt of
             None \<Rightarrow> Inl (''incomplete repository input '' @ lbl)
           | Some (package, name) \<Rightarrow>
               if CHR ''/'' \<in> set repo \<or> CHR 0x5C \<in> set repo \<or> repo \<in> {''.'', ''..''} \<or> name = [] \<or> CHR '':'' \<in> set name \<or> bad_segment package \<or> bad_segment name
               then Inl (''invalid repository input path '' @ lbl)
               else
                 (let root = (if repo = [] then sh_workspace sh else path_join (path_join (sh_output_base sh) ''external'') repo)
                  in case sh_metadata sh root of
                       Inl _ \<Rightarrow> Inl (''repository is not materialized at '' @ root)
                     | Inr n \<Rightarrow>
                         if \<not> is_dir_node n then Inl (''repository is not a directory: '' @ root)
                         else (case sh_metadata sh (path_join root (external_label_path tgt)) of
                                 Inr (FileNode content x) \<Rightarrow>
                                   (case content of
                                      None \<Rightarrow> Inl (''reading repository input '' @ lbl)
                                    | Some bs \<Rightarrow> Inr (sha256 (sh_crates sh) (hash_permissions (FileNode content x) @ as_bytes ''file'' @ bs)))
                               | Inr (DirNode listing) \<Rightarrow>
                                   map_sum id (\<lambda>bs. sha256 (sh_crates sh) (hash_permissions (DirNode listing) @ as_bytes ''directory'' @ bs))
                                     (hash_directory_tree (sh_crates sh) True listing)
                               | Inr _ \<Rightarrow> Inl (''unsupported repository input '' @ lbl)
                               | Inl Unreadable \<Rightarrow> Inl (''inspecting repository input '' @ lbl)
                               | Inl _ \<Rightarrow> Inr (sha256 (sh_crates sh) (as_bytes ''absent''))))))"

subsection \<open>The sources of a generation\<close>

text \<open>
  The source hasher of \<^verbatim>\<open>hash_targets_with_environment\<close>, built from the options over what the resolver
  holds, and the digests it gives the walk. The lookups start with no repository resolved.
\<close>

definition source_hasher_of :: "hash_options \<Rightarrow> source_hasher \<Rightarrow> source_hasher" where
  "source_hasher_of opts resolver =
     resolver\<lparr>sh_workspace := workspace (bazel_opts opts), sh_tree := partial_tree opts, sh_content_hashes := content_hash_map opts,
       sh_modified_filepaths := modified_filepaths opts,
       sh_fine_grained := map (trim_start_matches (CHR ''@'')) (fine_grained_external_repos (bazel_opts opts)) @ sh_scoped_repositories resolver\<rparr>"

definition with_sources :: "hash_options \<Rightarrow> source_hasher \<Rightarrow> hash_inputs \<Rightarrow> hash_inputs" where
  "with_sources opts resolver hi =
     (let sh = source_hasher_of opts resolver
      in hi\<lparr>hi_crates := sh_crates sh, hi_options := opts, hi_seed_files := hash_seed_files sh (seed_filepaths opts),
           hi_digest_source := (\<lambda>lbl seed. fst (digest_source sh lbl seed (use_cquery (bazel_opts opts)) [])),
           hi_soft_digest := (\<lambda>lbl. fst (soft_digest_source sh lbl [] [])),
           hi_repo_mapping := sh_repo_mapping sh, hi_repo_nodes := canonical_repo_nodes (sh_repo_mapping sh),
           hi_repository_input_digest := repository_input_digest sh\<rparr>)"

subsection \<open>A directory's bytes determine its entries\<close>

datatype entry_kind = KLink string | KDir | KFile bytes bool | KOther

fun flat :: "crates \<Rightarrow> string \<Rightarrow> fs_node \<Rightarrow> (string \<times> entry_kind) list"
and flats :: "crates \<Rightarrow> string \<Rightarrow> (string \<times> fs_node) list \<Rightarrow> (string \<times> entry_kind) list" where
  "flat c rel (LinkNode t) = [(rel, KLink t)]"
| "flat c rel (DirNode None) = [(rel, KDir)]"
| "flat c rel (DirNode (Some cs)) = (rel, KDir) # flats c (rel @ ''/'') cs"
| "flat c rel (FileNode None x) = []"
| "flat c rel (FileNode (Some content) x) = [(rel, KFile (sha256 c content) x)]"
| "flat c rel OtherNode = [(rel, KOther)]"
| "flats c prefx [] = []"
| "flats c prefx ((name, n) # cs) = flat c (prefx @ name) n @ flats c prefx cs"

fun kind_bytes :: "entry_kind \<Rightarrow> bytes" where
  "kind_bytes (KLink t) = as_bytes ''symlink'' @ as_bytes t"
| "kind_bytes KDir = as_bytes ''dir''"
| "kind_bytes (KFile d x) = as_bytes ''file'' @ d @ [flag x]"
| "kind_bytes KOther = as_bytes ''other''"

definition entry_bytes :: "string \<times> entry_kind \<Rightarrow> bytes" where
  "entry_bytes e = as_bytes (fst e) @ [0] @ kind_bytes (snd e) @ [0]"

text \<open>Paths and link targets have no zero byte.\<close>

definition NUL_free :: "string \<Rightarrow> bool" where
  "NUL_free s \<longleftrightarrow> CHR 0x00 \<notin> set s"

fun entry_ok :: "string \<times> entry_kind \<Rightarrow> bool" where
  "entry_ok (rel, KLink t) = (NUL_free rel \<and> NUL_free t)"
| "entry_ok (rel, KFile d x) = (NUL_free rel \<and> length d = 32)"
| "entry_ok (rel, _) = NUL_free rel"

lemma node_bytes_flat:
  "node_bytes c False rel n = Inr bs \<Longrightarrow> bs = concat (map entry_bytes (flat c rel n))"
  "children_bytes c False prefx cs = Inr bs \<Longrightarrow> bs = concat (map entry_bytes (flats c prefx cs))"
proof (induction c False rel n and c False prefx cs arbitrary: bs and bs rule: node_bytes_children_bytes.induct)
  case (3 c rel cs)
  then obtain b where "children_bytes c False (rel @ ''/'') cs = Inr b" "bs = entry_header False rel (DirNode (Some cs)) @ as_bytes ''dir'' @ [0] @ b"
    by (cases "children_bytes c False (rel @ ''/'') cs") auto
  then show ?case using 3(1) by (simp add: entry_bytes_def entry_header_def)
next
  case (8 c prefx name n cs)
  then obtain b1 b2 where b: "node_bytes c False (prefx @ name) n = Inr b1" "children_bytes c False prefx cs = Inr b2" "bs = b1 @ b2"
    by (cases "children_bytes c False prefx cs") (auto split: sum.splits)
  then show ?case using 8(1) [OF b(1)] 8(2) [OF b(1,2)] by simp
qed (auto simp: entry_bytes_def entry_header_def)

lemma of_char_0: "(of_char ch :: 8 word) = 0 \<longleftrightarrow> ch = CHR 0x00"
  using of_char_u8_inject [of ch "CHR 0x00"] by simp

lemma split_zero:
  assumes "as_bytes p @ 0 # r = as_bytes p' @ 0 # r'" "NUL_free p" "NUL_free p'"
  shows "p = p' \<and> r = r'"
proof -
  have "takeWhile (\<lambda>b. b \<noteq> 0) (as_bytes q @ 0 # s) = as_bytes q" if "NUL_free q" for q and s :: bytes
  proof -
    have "\<forall>b \<in> set (as_bytes q). b \<noteq> 0" using that by (auto simp: as_bytes_def NUL_free_def of_char_0)
    then show ?thesis by (simp add: takeWhile_append)
  qed
  then have "as_bytes p = as_bytes p'" using assms by metis
  then show ?thesis using assms(1) by simp
qed

lemma kind_unique:
  assumes "kind_bytes k @ 0 # r = kind_bytes k' @ 0 # r'" "entry_ok (p, k)" "entry_ok (p', k')"
  shows "k = k' \<and> r = r'"
proof (cases k)
  case (KLink t)
  then obtain t' where "k' = KLink t'" using assms(1) by (cases k') (auto simp: as_bytes_def)
  then show ?thesis using assms KLink split_zero [of t r t' r'] by simp
next
  case (KFile d x)
  then obtain d' x' where k': "k' = KFile d' x'" using assms(1) by (cases k') (auto simp: as_bytes_def)
  then have "d @ flag x # 0 # r = d' @ flag x' # 0 # r'" "length d = length d'" using assms KFile by simp_all
  then show ?thesis using KFile k' by (auto simp: flag_def split: if_splits)
next
  case KDir
  then show ?thesis using assms(1) by (cases k') (auto simp: as_bytes_def)
next
  case KOther
  then show ?thesis using assms(1) by (cases k') (auto simp: as_bytes_def)
qed

lemma concat_entry_bytes: "concat (map entry_bytes ((p, k) # es)) = as_bytes p @ 0 # (kind_bytes k @ 0 # concat (map entry_bytes es))"
  by (simp add: entry_bytes_def [of "(p, k)"])

lemma entries_unique:
  "concat (map entry_bytes es) = concat (map entry_bytes es') \<Longrightarrow> list_all entry_ok es \<Longrightarrow> list_all entry_ok es' \<Longrightarrow> es = es'"
proof (induction es arbitrary: es')
  case Nil
  then show ?case by (cases es') (auto simp: entry_bytes_def)
next
  case (Cons e es)
  obtain e' rest where es': "es' = e' # rest" using Cons.prems(1) by (cases es') (auto simp: entry_bytes_def)
  obtain p k p' k' where e: "e = (p, k)" "e' = (p', k')" by fastforce
  have ok: "entry_ok (p, k)" "entry_ok (p', k')" using Cons.prems(2,3) es' e by simp_all
  have "as_bytes p @ 0 # (kind_bytes k @ 0 # concat (map entry_bytes es)) = as_bytes p' @ 0 # (kind_bytes k' @ 0 # concat (map entry_bytes rest))"
    using Cons.prems(1) unfolding es' e concat_entry_bytes .
  moreover have "NUL_free p" "NUL_free p'" using ok by (cases k; cases k'; simp)+
  ultimately have p: "p = p'" "kind_bytes k @ 0 # concat (map entry_bytes es) = kind_bytes k' @ 0 # concat (map entry_bytes rest)"
    using split_zero by blast+
  from kind_unique [OF p(2) ok] Cons.IH [of rest] Cons.prems(2,3) es' e p(1) show ?case by simp
qed

text \<open>
  The bytes hashed for a directory determine every entry in it: two directories with the same bytes have the same paths in the same
  order, each with the same kind, the same digest of its content and executable bit if it is a file, and the same target if it is a link.
\<close>

lemma directory_bytes_injective:
  assumes "hash_directory_tree c False (Some cs) = Inr bs" "hash_directory_tree c False (Some cs') = Inr bs"
    and "list_all entry_ok (flats c [] cs)" "list_all entry_ok (flats c [] cs')"
  shows "flats c [] cs = flats c [] cs'"
  using node_bytes_flat(2) [of c "[]" cs bs] node_bytes_flat(2) [of c "[]" cs' bs] assms entries_unique by (auto simp: hash_directory_tree_def)

subsection \<open>A moved source moves its digest\<close>

datatype place_state = Missing | FileState bytes bool | DirState "(string \<times> entry_kind) list"

definition place_state_of :: "crates \<Rightarrow> fs_error + fs_node \<Rightarrow> place_state" where
  "place_state_of c found =
     (case found of
        Inr (FileNode (Some content) x) \<Rightarrow> FileState content x
      | Inr (DirNode (Some cs)) \<Rightarrow> DirState (flats c [] cs)
      | _ \<Rightarrow> Missing)"

definition plain_hasher :: "source_hasher \<Rightarrow> bool" where
  "plain_hasher sh \<longleftrightarrow> sh_tree sh = None \<and> sh_content_hashes sh = None \<and> sh_modified_filepaths sh = [] \<and> sh_scoped_repositories sh = []"

definition clean_state :: "place_state \<Rightarrow> bool" where
  "clean_state st = (case st of DirState es \<Rightarrow> list_all entry_ok es | _ \<Rightarrow> True)"

fun state_bytes :: "place_state \<Rightarrow> bytes" where
  "state_bytes Missing = [0]"
| "state_bytes (FileState content x) = content @ [1, flag x]"
| "state_bytes (DirState es) = concat (map entry_bytes es) @ [2]"

lemma place_bytes_state:
  assumes "plain_hasher sh" "place_bytes sh lbl p key False = Inr bs"
  shows "bs = state_bytes (place_state_of (sh_crates sh) (sh_metadata sh p))"
proof -
  have s: "scoped_label sh lbl = False" using assms(1) by (auto simp: scoped_label_def plain_hasher_def split: option.splits)
  have d: "b = concat (map entry_bytes (flats c [] cs)) @ [2]" if "map_sum id (\<lambda>bs. bs @ [2]) (children_bytes c False [] cs) = Inr b" for c cs b
    using that node_bytes_flat(2) by (cases "children_bytes c False [] cs") auto
  show ?thesis
    using assms s
    by (auto simp: place_bytes_def plain_hasher_def place_state_of_def Let_def is_file_node_def file_content_def hash_directory_tree_def metadata_owner_executable_def d
        split: sum.splits fs_node.splits option.splits)
qed

lemma state_bytes_inject:
  assumes "state_bytes s = state_bytes s'" "clean_state s" "clean_state s'"
  shows "s = s'"
  using assms entries_unique
  by (cases s; cases s') (auto simp: clean_state_def flag_def append_eq_append_conv2 append_eq_Cons_conv Cons_eq_append_conv split: if_splits)

text \<open>
  C22: the digest of a source of the workspace moves exactly when the source does. A generation before and one after, over the working
  tree and with nothing else deciding what is read, give a source the same digest if and only if the same is at its place: a file
  with the same content and executable bit, a directory with the same entries, or nothing. SHA-256 is taken not to collide on the two inputs.
\<close>

theorem source_moves_digest:
  assumes "plain_hasher sh" "plain_hasher sh'" "sh_crates sh' = sh_crates sh" "sh_workspace sh' = sh_workspace sh" "main_repo_path lbl = Some p"
    and "digest_source sh lbl seed False [] = (Inr d, r)" "digest_source sh' lbl seed False [] = (Inr d', r')"
    and "clean_state (place_state_of (sh_crates sh) (sh_metadata sh (path_join (sh_workspace sh) p)))"
      "clean_state (place_state_of (sh_crates sh) (sh_metadata sh' (path_join (sh_workspace sh) p)))"
    and "inj_on (sha256 (sh_crates sh))
           {state_bytes (place_state_of (sh_crates sh) (sh_metadata sh (path_join (sh_workspace sh) p))) @ seed @ as_bytes lbl,
            state_bytes (place_state_of (sh_crates sh) (sh_metadata sh' (path_join (sh_workspace sh) p))) @ seed @ as_bytes lbl}"
  shows "d = d' \<longleftrightarrow> place_state_of (sh_crates sh) (sh_metadata sh (path_join (sh_workspace sh) p)) = place_state_of (sh_crates sh) (sh_metadata sh' (path_join (sh_workspace sh) p))"
proof -
  have eq: "d = sha256 (sh_crates h) (state_bytes (place_state_of (sh_crates h) (sh_metadata h (path_join (sh_workspace h) p))) @ seed @ as_bytes lbl)"
    if "plain_hasher h" "digest_source h lbl seed False [] = (Inr d, r)" for h d r
  proof -
    note plain = that(1) and run = that(2)
    have "sh_tree h = None" using plain by (simp add: plain_hasher_def)
    then obtain bs where "place_bytes h lbl (path_join (sh_workspace h) p) p False = Inr bs" "d = sha256 (sh_crates h) (bs @ seed @ as_bytes lbl)"
      using run assms(5) by (cases "place_bytes h lbl (path_join (sh_workspace h) p) p False") (auto simp: digest_source_def digest_physical_def resolve_source_def)
    then show ?thesis using place_bytes_state [OF plain] by simp
  qed
  let ?s = "place_state_of (sh_crates sh) (sh_metadata sh (path_join (sh_workspace sh) p))"
  let ?s' = "place_state_of (sh_crates sh) (sh_metadata sh' (path_join (sh_workspace sh) p))"
  have "d = sha256 (sh_crates sh) (state_bytes ?s @ seed @ as_bytes lbl)" by (rule eq [OF assms(1,6)])
  moreover have "d' = sha256 (sh_crates sh) (state_bytes ?s' @ seed @ as_bytes lbl)" using eq [OF assms(2,7)] unfolding assms(3,4) .
  ultimately have "d = d' \<longleftrightarrow> state_bytes ?s = state_bytes ?s'"
    using inj_on_eq_iff [OF assms(10), of "state_bytes ?s @ seed @ as_bytes lbl" "state_bytes ?s' @ seed @ as_bytes lbl"] by simp
  moreover have "state_bytes ?s = state_bytes ?s' \<longleftrightarrow> ?s = ?s'" using state_bytes_inject [OF _ assms(8,9)] by metis
  ultimately show ?thesis by simp
qed

subsection \<open>The memo of resolved repositories\<close>

definition memo_ok :: "source_hasher \<Rightarrow> (string, string) btree \<Rightarrow> bool" where
  "memo_ok sh resolved \<longleftrightarrow> (\<forall>repo root. bt_get resolved repo = Some root \<longrightarrow> resolve_uncached sh repo = Inr root)"

text \<open>
  What a memoised call owes its callers: the value of the plain call, and a memo that stays true to it. Then no history of calls shows.
\<close>

locale memo_call =
  fixes plain :: "'k \<Rightarrow> 'e + 'v" and call :: "'k \<Rightarrow> 'm \<Rightarrow> ('e + 'v) \<times> 'm" and true_to :: "'m \<Rightarrow> bool" and fresh :: 'm
  assumes fresh_true: "true_to fresh"
    and call_plain: "true_to m \<Longrightarrow> fst (call k m) = plain k"
    and call_true: "true_to m \<Longrightarrow> true_to (snd (call k m))"
begin

lemma call_pair: "true_to m \<Longrightarrow> \<exists>m'. call k m = (plain k, m') \<and> true_to m'"
  using call_plain [of m k] call_true [of m k] by (cases "call k m") auto

lemma fresh_pair: "\<exists>m'. call k fresh = (plain k, m')"
  using call_pair [OF fresh_true] by blast

lemma history_true: "true_to (fold (\<lambda>k m. snd (call k m)) ks fresh)"
proof -
  have "true_to m \<Longrightarrow> true_to (fold (\<lambda>k m. snd (call k m)) ks m)" for m
    by (induction ks arbitrary: m) (auto simp: call_true)
  then show ?thesis using fresh_true by blast
qed

lemma history_invisible: "fst (call k (fold (\<lambda>k m. snd (call k m)) ks fresh)) = plain k"
  by (rule call_plain [OF history_true])

end

interpretation rr: memo_call "resolve_uncached sh" "resolve_repo sh" "memo_ok sh" "[]" for sh
  by unfold_locales (auto simp: memo_ok_def resolve_repo_def bt_get_insert split: option.splits sum.splits if_splits)

text \<open>The repositories resolved before, in whatever order, do not show in where a repository is found.\<close>

lemma resolve_repo_history: "fst (resolve_repo sh repo (fold (\<lambda>r m. snd (resolve_repo sh r m)) repos [])) = resolve_uncached sh repo"
  by (rule rr.history_invisible)

lemma resolve_source_ok:
  assumes "memo_ok sh resolved"
  shows "memo_ok sh (snd (resolve_source sh lbl configured resolved))" "fst (resolve_source sh lbl configured resolved) = fst (resolve_source sh lbl configured [])"
proof -
  have r: "\<exists>m. resolve_repo sh repo resolved = (resolve_uncached sh repo, m) \<and> memo_ok sh m" for repo by (rule rr.call_pair [OF assms])
  have e: "\<exists>m. resolve_repo sh repo [] = (resolve_uncached sh repo, m)" for repo by (rule rr.fresh_pair)
  show "memo_ok sh (snd (resolve_source sh lbl configured resolved))"
    using assms r by (auto simp: resolve_source_def Let_def split: option.splits sum.splits prod.splits) (metis prod.inject)+
  show "fst (resolve_source sh lbl configured resolved) = fst (resolve_source sh lbl configured [])"
  proof -
    have step: "fst (case resolve_repo sh repo resolved of (Inl err, m) \<Rightarrow> (Inl err, m)
          | (Inr root, m) \<Rightarrow> (case f root of Inl err \<Rightarrow> (Inl err, m) | Inr file \<Rightarrow> (Inr (g root file), m)))
        = fst (case resolve_repo sh repo [] of (Inl err, m) \<Rightarrow> (Inl err, m)
          | (Inr root, m) \<Rightarrow> (case f root of Inl err \<Rightarrow> (Inl err, m) | Inr file \<Rightarrow> (Inr (g root file), m)))"
      for repo and f :: "string \<Rightarrow> string + bool" and g :: "string \<Rightarrow> bool \<Rightarrow> (string \<times> string \<times> bool) option"
      using r [of repo] e [of repo] by (auto split: sum.splits)
    show ?thesis
      by (auto simp: resolve_source_def Let_def step split: option.split sum.split)
  qed
qed

text \<open>
  The memo of resolved repositories is invisible: whatever repositories earlier lookups have resolved, in any order, a source has the digest
  it has when it is asked for first, and the memo stays true to the file system.
\<close>

theorem digest_memo_transparent:
  assumes "memo_ok sh resolved"
  shows "fst (digest_source sh lbl seed configured resolved) = fst (digest_source sh lbl seed configured []) \<and>
    memo_ok sh (snd (digest_source sh lbl seed configured resolved))"
  using resolve_source_ok [OF assms, of lbl configured] assms
  by (auto simp: digest_source_def digest_physical_def split: option.splits sum.splits prod.splits)

subsection \<open>Canonical names\<close>

lemma fold_add_node:
  "bt_get (fold add_node m nodes) canonical =
     (let as = {a. (a, canonical) \<in> set m} \<union> set_option (bt_get nodes canonical) in if as = {} then None else Some (Min as))"
proof (induction m arbitrary: nodes)
  case Nil
  then show ?case by (cases "bt_get nodes canonical") auto
next
  case (Cons kv m)
  obtain a k where kv: "kv = (a, k)" by fastforce
  have fin: "finite {a. (a, canonical) \<in> set m}" using finite_imageI [OF finite_set, of fst m] by (rule rev_finite_subset) force
  show ?case
  proof (cases "k = canonical")
    case False
    then have "bt_get (add_node kv nodes) canonical = bt_get nodes canonical" by (simp add: add_node_def kv bt_get_insert split: option.split)
    moreover have "{b. (b, canonical) \<in> set (kv # m)} = {b. (b, canonical) \<in> set m}" using False kv by auto
    ultimately show ?thesis using Cons.IH [of "add_node kv nodes"] by simp
  next
    case True
    then have "bt_get (add_node kv nodes) canonical = Some (case bt_get nodes canonical of None \<Rightarrow> a | Some b \<Rightarrow> min a b)"
      by (auto simp: add_node_def kv bt_get_insert min_def split: option.split)
    moreover have set: "{b. (b, canonical) \<in> set (kv # m)} = insert a {b. (b, canonical) \<in> set m}" using True kv by auto
    moreover have "Min (insert (min a b) S) = Min (insert a (insert b S))" if "finite S" for b and S :: "string set"
      using that by (cases "S = {}") (auto simp: min.assoc)
    ultimately show ?thesis using Cons.IH [of "add_node kv nodes"] fin by (cases "bt_get nodes canonical") (auto simp: insert_commute)
  qed
qed

text \<open>
  A canonical repository is named by the smallest of its apparent names, and by none if it has none; so the name depends on the
  mapping and not on the order in which its entries are visited.
\<close>

theorem canonical_repo_nodes_least:
  "bt_get (canonical_repo_nodes m) canonical =
     (if \<exists>a. (a, canonical) \<in> set m then Some (Min {a. (a, canonical) \<in> set m}) else None)"
  by (auto simp: canonical_repo_nodes_def fold_add_node Let_def)

subsection \<open>Witnesses\<close>

definition sample_disk :: "bytes \<Rightarrow> string \<Rightarrow> fs_error + fs_node" where
  "sample_disk content p =
     (if p = ''/w/a/x.txt'' then Inr (FileNode (Some content) False)
      else if p = ''/o/external/rules+'' then Inr (DirNode (Some []))
      else Inl NotFound)"

definition sample_hasher :: "bytes \<Rightarrow> source_hasher" where
  "sample_hasher content =
     \<lparr>sh_crates = crates_ref, sh_workspace = ''/w'', sh_tree = None, sh_content_hashes = None, sh_modified_filepaths = [],
      sh_fine_grained = [''rules''], sh_scoped_repositories = [], sh_output_base = ''/o'', sh_repo_mapping = [],
      sh_metadata = sample_disk content, sh_location = (\<lambda>_. Inl [])\<rparr>"

lemma sample_disk_found: "path_join ''/w'' ''a/x.txt'' = ''/w/a/x.txt''"
  by code_simp

lemma sample_hasher_simps [simp]:
  "plain_hasher (sample_hasher content)" "sh_crates (sample_hasher content) = crates_ref" "sh_workspace (sample_hasher content) = ''/w''"
  "sh_metadata (sample_hasher content) (path_join ''/w'' ''a/x.txt'') = Inr (FileNode (Some content) False)"
  by (simp_all add: plain_hasher_def sample_hasher_def sample_disk_def sample_disk_found)

lemma sample_digest:
  "digest_source (sample_hasher [65]) ''//a:x.txt'' [7] False [] = (Inr (sha256_ref ([65] @ [1, 0] @ [7] @ as_bytes ''//a:x.txt'')), [])"
  "digest_source (sample_hasher [66]) ''//a:x.txt'' [7] False [] = (Inr (sha256_ref ([66] @ [1, 0] @ [7] @ as_bytes ''//a:x.txt'')), [])"
  by code_simp+

lemma sample_disk_no_collision:
  "inj_on (sha256 crates_ref) {state_bytes (FileState [65] False) @ [7] @ as_bytes ''//a:x.txt'', state_bytes (FileState [66] False) @ [7] @ as_bytes ''//a:x.txt''}"
proof -
  have "distinct (map sha256_ref [state_bytes (FileState [65] False) @ [7] @ as_bytes ''//a:x.txt'', state_bytes (FileState [66] False) @ [7] @ as_bytes ''//a:x.txt''])"
    by code_simp
  then show ?thesis unfolding distinct_map by simp
qed

theorem source_moves_digest_witness:
  "fst (digest_source (sample_hasher [65]) ''//a:x.txt'' [7] False []) \<noteq> fst (digest_source (sample_hasher [66]) ''//a:x.txt'' [7] False [])"
  using source_moves_digest [of "sample_hasher [65]" "sample_hasher [66]" "''//a:x.txt''" "''a/x.txt''", OF _ _ _ _ _ sample_digest] sample_disk_no_collision
  by (simp add: sample_digest place_state_of_def clean_state_def)

lemma sample_memo: "memo_ok (sample_hasher [65]) [(''rules'', ''/o/external/rules+'')]"
proof -
  have "resolve_uncached (sample_hasher [65]) ''rules'' = Inr ''/o/external/rules+''" by code_simp
  then show ?thesis by (simp add: memo_ok_def)
qed

theorem digest_memo_transparent_witness:
  "fst (digest_source (sample_hasher [65]) ''@rules//:f'' [7] False [(''rules'', ''/o/external/rules+'')]) =
   fst (digest_source (sample_hasher [65]) ''@rules//:f'' [7] False [])"
  using digest_memo_transparent [OF sample_memo] by blast

end
