(* ===== verification/Bazel_State.thy ===== *)
theory Bazel_State
  imports Sources Cache_Key
begin

section \<open>The state of external dependencies (bazel.rs, fingerprint.rs)\<close>

text \<open>
  \<^verbatim>\<open>dependency_fingerprint\<close> of \<^verbatim>\<open>src/bazel.rs\<close>, which guards served entries, and the inputs \<^verbatim>\<open>gather\<close> of \<^verbatim>\<open>src/fingerprint.rs\<close>
  collects for the fingerprint of a snapshot. The bazel binary acts on a world as in the queries; files are a parameter.
\<close>

subsection \<open>The dependency fingerprint\<close>

definition module_graph_json_of :: "'w bazel_mod \<Rightarrow> 'w \<Rightarrow> string option \<times> 'w" where
  "module_graph_json_of b w =
     (case run_capture b [''mod'', ''graph'', ''--output=json''] w of
        (Inl _, w') \<Rightarrow> (None, w')
      | (Inr out, w') \<Rightarrow> (if answered_output out then Some (str_trim (mo_stdout out)) else None, w'))"

definition is_bzlmod_enabled :: "'w discovery \<Rightarrow> 'w \<Rightarrow> bool \<times> 'w" where
  "is_bzlmod_enabled d w = (case probe_bzlmod d w of ((enabled, _), w') \<Rightarrow> (enabled, w'))"

definition canonical_bzlmod_repo_names :: "'w discovery \<Rightarrow> 'w \<Rightarrow> (mod_error + string list) \<times> 'w" where
  "canonical_bzlmod_repo_names d w =
     (case run_capture (dc_mod d) [''mod'', ''dump_repo_mapping'', []] w of
        (Inl err, w') \<Rightarrow> (Inl err, w')
      | (Inr out, w') \<Rightarrow>
          (case accept_mod_output ''dump_repo_mapping'' out default_failures of
             Inl err \<Rightarrow> (Inl err, w')
           | Inr (stdout, _) \<Rightarrow>
               (Inr (map (\<lambda>name. ''@@'' @ name)
                  (filter (\<lambda>name. CHR ''+'' \<in> set name \<or> CHR ''~'' \<in> set name) (bt_keys (parse_repo_mapping (dc_from_str d) stdout)))), w')))"

definition show_repo_streamed_proto :: "'w bazel_mod \<Rightarrow> string list \<Rightarrow> 'w \<Rightarrow> ((mod_error + string) \<times> 'w) option" where
  "show_repo_streamed_proto b names w =
     (if names = [] then Some (Inr [], w)
      else map_option (\<lambda>(r, _, w'). (map_sum id (\<lambda>out. case out of None \<Rightarrow> [] | Some stdout \<Rightarrow> stdout) r, w'))
             (run_mod_over_repos b ''show_repo'' names default_failures (show_attempt b) w))"

definition show_repo_fingerprint_text_fallback :: "'w bazel_mod \<Rightarrow> string list \<Rightarrow> 'w \<Rightarrow> (mod_error + string) \<times> 'w" where
  "show_repo_fingerprint_text_fallback b names w =
     (let (r1, w1) = run_capture b [''mod'', ''show_repo'', ''--all_visible_repos'', ''--output=text''] w;
          selected = (case run_capture b ([''mod'', ''show_repo''] @ names @ [''--output=text'']) w1 of
                        (Inl err, w2) \<Rightarrow> (Inl err, w2)
                      | (Inr out, w2) \<Rightarrow> (if mo_success out then Inr (mo_stdout out) else Inl (ModFailed ''show_repo'' []), w2))
      in case r1 of
           Inr out \<Rightarrow> if mo_success out then (Inr (mo_stdout out), w1) else selected
         | Inl _ \<Rightarrow> selected)"

text \<open>What is hashed: that there are no modules, or the module graph and the state of the repositories.\<close>

datatype dependency_state = Legacy | Bzlmod string string

fun state_preimage :: "dependency_state \<Rightarrow> bytes" where
  "state_preimage Legacy = as_bytes ''mode:legacy''"
| "state_preimage (Bzlmod graph repos) = as_bytes ''mode:bzlmod'' @ [0] @ as_bytes graph @ [0] @ as_bytes repos"

definition repo_state :: "'w discovery \<Rightarrow> string list \<Rightarrow> 'w \<Rightarrow> ((mod_error + string) \<times> 'w) option" where
  "repo_state d names w =
     Option.bind (show_repo_streamed_proto (dc_mod d) names w) (\<lambda>(r, w').
       case r of Inr stdout \<Rightarrow> Some (Inr stdout, w') | Inl _ \<Rightarrow> Some (show_repo_fingerprint_text_fallback (dc_mod d) names w'))"

definition dependency_state_of :: "'w discovery \<Rightarrow> 'w \<Rightarrow> ((mod_error + dependency_state) \<times> 'w) option" where
  "dependency_state_of d w =
     (case is_bzlmod_enabled d w of
        (False, w1) \<Rightarrow> Some (Inr Legacy, w1)
      | (True, w1) \<Rightarrow>
          (case module_graph_json_of (dc_mod d) w1 of (graph, w2) \<Rightarrow>
            (case canonical_bzlmod_repo_names d w2 of
               (Inl err, w3) \<Rightarrow> Some (Inl err, w3)
             | (Inr names, w3) \<Rightarrow>
                 map_option (\<lambda>(r, w4). (map_sum id (Bzlmod (case graph of None \<Rightarrow> [] | Some g \<Rightarrow> g)) r, w4)) (repo_state d names w3))))"

definition dependency_fingerprint_of :: "'w discovery \<Rightarrow> 'w \<Rightarrow> ((mod_error + string) \<times> 'w) option" where
  "dependency_fingerprint_of d w =
     map_option (\<lambda>(r, w'). (map_sum id (\<lambda>st. hex_encode (dc_crates d) (sha256 (dc_crates d) (state_preimage st))) r, w')) (dependency_state_of d w)"

subsection \<open>The inputs of a snapshot fingerprint\<close>

definition version_text :: "string \<Rightarrow> string option" where
  "version_text txt =
     map_option str_trim (case List.map_filter (\<lambda>line. case strip_prefix ''Build label: '' line of Some v \<Rightarrow> Some v | None \<Rightarrow> strip_prefix ''bazel '' line) (str_lines txt) of
        [] \<Rightarrow> None
      | v # _ \<Rightarrow> Some v)"

definition fp_bazel_version :: "'w bazel_mod \<Rightarrow> 'w \<Rightarrow> string \<times> 'w" where
  "fp_bazel_version b w =
     (case bm_run b [''version''] w of
        (Inl _, w') \<Rightarrow> (''unknown'', w')
      | (Inr out, w') \<Rightarrow> (case (if mo_success out then version_text (mo_stdout out) else None) of None \<Rightarrow> ''unknown'' | Some v \<Rightarrow> v, w'))"

text \<open>The text of a path after the prefix is taken off: its separators stay as they are written.\<close>

fun drop_segments :: "nat \<Rightarrow> string list \<Rightarrow> string list" where
  "drop_segments n [] = []"
| "drop_segments n (seg # segs) =
     (if path_segment seg = [] then drop_segments n segs else if n = 0 then seg # segs else drop_segments (n - 1) segs)"

definition relative_text :: "string \<Rightarrow> string \<Rightarrow> string" where
  "relative_text root p =
     (let steps = filter (\<lambda>c. c \<noteq> RootDir) (path_components root);
          segs = drop_segments (length steps) (split_on (CHR ''/'') p)
      in join ''/'' (rev (dropWhile (\<lambda>seg. path_segment seg = []) (rev segs))))"

text \<open>\<^verbatim>\<open>str::replace\<close>\<close>

function replace_str :: "string \<Rightarrow> string \<Rightarrow> string \<Rightarrow> string" where
  "replace_str pat by s =
     (case split_once_str pat s of
        None \<Rightarrow> s
      | Some (before, after) \<Rightarrow> if pat = [] then s else before @ by @ replace_str pat by after)"
  by pat_completeness auto
termination
  by (relation "measure (\<lambda>(_, _, s). length s)") (auto dest: split_once_str_Some)

definition imported_path :: "string \<Rightarrow> string \<Rightarrow> string option" where
  "imported_path root line =
     (let l = str_trim line
      in if \<not> starts_with ''import '' l \<and> \<not> starts_with ''try-import '' l then None
         else (let raw = (case split_once (CHR '' '') l of None \<Rightarrow> [] | Some (_, p) \<Rightarrow> str_trim p)
               in Some (path_join root (replace_str ''%workspace%'' root raw))))"

definition add_bazelrc :: "(string \<Rightarrow> string option) \<Rightarrow> string \<Rightarrow> string \<Rightarrow> (string, bytes) btree \<Rightarrow> (string, bytes) btree" where
  "add_bazelrc read root line found =
     (case imported_path root line of
        None \<Rightarrow> found
      | Some absolute \<Rightarrow>
          (case read absolute of
             None \<Rightarrow> found
           | Some contents \<Rightarrow>
               bt_insert (if path_strip_prefix root absolute = None then absolute else relative_text root absolute) (as_bytes contents) found))"

definition read_bazelrcs :: "(string \<Rightarrow> string option) \<Rightarrow> string \<Rightarrow> (string, bytes) btree" where
  "read_bazelrcs read root =
     (case read (path_join root ''.bazelrc'') of
        None \<Rightarrow> []
      | Some txt \<Rightarrow> fold (add_bazelrc read root) (str_lines txt) [(''.bazelrc'', as_bytes txt)])"

definition gather :: "'w bazel_mod \<Rightarrow> (string \<Rightarrow> string option) \<Rightarrow> string \<Rightarrow> string \<Rightarrow> (string, string) btree \<Rightarrow> 'w \<Rightarrow> fingerprint_inputs \<times> 'w" where
  "gather b read package_version root flags w =
     (case fp_bazel_version b w of (v, w') \<Rightarrow>
       (\<lparr>fi_bazel_diff_version = package_version, fi_bazel_version = v, fi_module_lock_content = map_option as_bytes (read (path_join root ''MODULE.bazel.lock'')),
         fi_bazelrc_contents = read_bazelrcs read root, fi_flags = flags\<rparr>, w'))"

subsection \<open>The fingerprint follows the state\<close>

lemma state_preimage_inject:
  assumes "state_preimage s = state_preimage s'" "\<And>g r. s = Bzlmod g r \<Longrightarrow> NUL_free g" "\<And>g r. s' = Bzlmod g r \<Longrightarrow> NUL_free g"
  shows "s = s'"
proof (cases s; cases s')
  fix g r g' r' assume s: "s = Bzlmod g r" "s' = Bzlmod g' r'"
  then have "as_bytes g @ 0 # as_bytes r = as_bytes g' @ 0 # as_bytes r'" using assms(1) by simp
  from split_zero [OF this assms(2) [OF s(1)] assms(3) [OF s(2)]] show ?thesis using s by simp
qed (use assms(1) in \<open>simp_all add: as_bytes_def\<close>)

lemma hex_encode_inject: "crates_ok c \<Longrightarrow> hex_encode c a = hex_encode c b \<Longrightarrow> a = b"
  by (metis crates_ok_decode option.inject)

text \<open>
  C38: the fingerprint that guards cached entries follows the state of the external dependencies. Two runs of the fingerprint give the same value exactly
  when both workspaces have no modules, or both have the same module graph and the same description of their repositories,
  short of a SHA-256 collision on the two texts; the graph is printed JSON and has no zero byte.
\<close>

theorem dependency_fingerprint_moves:
  assumes "crates_ok (dc_crates d)" "dc_crates d' = dc_crates d"
    and "dependency_state_of d w = Some (Inr s, v)" "dependency_state_of d' w' = Some (Inr s', v')"
    and "\<forall>g r. s = Bzlmod g r \<longrightarrow> NUL_free g" "\<forall>g r. s' = Bzlmod g r \<longrightarrow> NUL_free g"
    and "inj_on (sha256 (dc_crates d)) {state_preimage s, state_preimage s'}"
  shows "map_option fst (dependency_fingerprint_of d w) = map_option fst (dependency_fingerprint_of d' w') \<longleftrightarrow> s = s'"
proof -
  have "state_preimage s = state_preimage s' \<longleftrightarrow> s = s'" using state_preimage_inject assms(5,6) by blast
  moreover have "sha256 (dc_crates d) (state_preimage s) = sha256 (dc_crates d) (state_preimage s') \<longleftrightarrow> state_preimage s = state_preimage s'"
    by (rule inj_on_eq_iff [OF assms(7)]) simp_all
  ultimately show ?thesis
    using assms(2,3,4) hex_encode_inject [OF assms(1)] by (auto simp: dependency_fingerprint_of_def)
qed

text \<open>The fingerprint always comes to an end.\<close>

lemma dependency_fingerprint_returns: "\<exists>r. dependency_fingerprint_of d w = Some r"
proof -
  have "\<exists>r. show_repo_streamed_proto b names w = Some r" for b :: "'a bazel_mod" and names w
    using run_mod_returns [of b "''show_repo''" names default_failures "show_attempt b" w] by (auto simp: show_repo_streamed_proto_def)
  then have streamed: "\<exists>r v. show_repo_streamed_proto (dc_mod d) names w = Some (r, v)" for names w
    by (metis surj_pair)
  have state: "\<exists>r. repo_state d names w = Some r" for names w
  proof -
    obtain r v where "show_repo_streamed_proto (dc_mod d) names w = Some (r, v)" using streamed by blast
    then show ?thesis by (cases r) (simp_all add: repo_state_def)
  qed
  have "\<exists>r. dependency_state_of d w = Some r"
    using state by (auto simp: dependency_state_of_def split: prod.splits bool.splits sum.splits) metis
  then show ?thesis by (auto simp: dependency_fingerprint_of_def)
qed

subsection \<open>Witness\<close>

definition graph_bazel :: "string \<Rightarrow> unit bazel_mod" where
  "graph_bazel g =
     \<lparr>bm_run = (\<lambda>args w. (Inr \<lparr>mo_success = True, mo_stdout = (if ''graph'' \<in> set args then g else []), mo_stderr = []\<rparr>, w)),
      bm_keep_going = False, bm_budget = 100\<rparr>"

definition graph_discovery :: "string \<Rightarrow> unit discovery" where
  "graph_discovery g = iso_discovery\<lparr>dc_mod := graph_bazel g, dc_crates := crates_ref\<rparr>"

lemma graph_states:
  "dependency_state_of (graph_discovery ''{a}'') () = Some (Inr (Bzlmod ''{a}'' []), ())"
  "dependency_state_of (graph_discovery ''{b}'') () = Some (Inr (Bzlmod ''{b}'' []), ())"
  by code_simp+

lemma graph_no_collision: "inj_on (sha256 crates_ref) {state_preimage (Bzlmod ''{a}'' []), state_preimage (Bzlmod ''{b}'' [])}"
proof -
  have "distinct (map sha256_ref [state_preimage (Bzlmod ''{a}'' []), state_preimage (Bzlmod ''{b}'' [])])" by code_simp
  then show ?thesis unfolding distinct_map by simp
qed

theorem dependency_fingerprint_moves_witness:
  "map_option fst (dependency_fingerprint_of (graph_discovery ''{a}'') ()) \<noteq> map_option fst (dependency_fingerprint_of (graph_discovery ''{b}'') ())"
  using dependency_fingerprint_moves [OF _ _ graph_states] graph_no_collision
  by (simp add: graph_discovery_def NUL_free_def)

end
