(* ===== verification/Commands.thy ===== *)
theory Commands
  imports Query_Answers Explain_Answer Render Bazel_State
begin

section \<open>The command line (main.rs, git.rs)\<close>

text \<open>
  The commands of \<^verbatim>\<open>src/main.rs\<close> after clap has parsed the arguments: how the options of a run are made of them, \<^verbatim>\<open>generate-hashes\<close> with its
  derivation from a base file, \<^verbatim>\<open>get-impacted-targets\<close>, \<^verbatim>\<open>explain\<close>, \<^verbatim>\<open>fingerprint\<close> and \<^verbatim>\<open>warmup\<close>, and the snapshot of the working tree of
  \<^verbatim>\<open>src/git.rs\<close>. Files, the working directory, git, Bazel and the JSON library are parameters; a command returns the files it writes, in order.
\<close>

subsection \<open>Arguments\<close>

definition normalize_argument :: "string \<Rightarrow> string" where
  "normalize_argument argument =
     (case map_of
        [(''-so'', ''--bazelStartupOptions''), (''-co'', ''--bazelCommandOptions''), (''-tt'', ''--targetType''),
         (''-sh'', ''--startingHashes''), (''-fh'', ''--finalHashes''), (''--no-useCquery'', ''--useCquery=false''),
         (''--no-keep_going'', ''--keep_going=false''), (''--no-includeTargetType'', ''--includeTargetType=false''),
         (''--no-excludeExternalTargets'', ''--excludeExternalTargets=false''), (''--no-noBazelrc'', ''--noBazelrc=false''),
         (''--no-trackDeps'', ''--trackDeps=false''), (''--no-dependencyFingerprint'', ''--dependencyFingerprint=false'')] argument of
        None \<Rightarrow> argument
      | Some full \<Rightarrow> full)"

definition flatten_options :: "string list \<Rightarrow> string list" where
  "flatten_options values = filter (\<lambda>part. part \<noteq> []) (concat (map (split_on (CHR '' '')) values))"

text \<open>The stack of components of a normalised path; popping an empty path or the root changes nothing.\<close>

fun normalize_components :: "path_component list \<Rightarrow> path_component list \<Rightarrow> path_component list" where
  "normalize_components normalized [] = normalized"
| "normalize_components normalized (CurDir # cs) = normalize_components normalized cs"
| "normalize_components normalized (ParentDir # cs) =
     normalize_components (if normalized = [] \<or> last normalized = RootDir then normalized else butlast normalized) cs"
| "normalize_components normalized (RootDir # cs) = normalize_components [RootDir] cs"
| "normalize_components normalized (Normal s # cs) = normalize_components (normalized @ [Normal s]) cs"

fun component_text :: "path_component \<Rightarrow> string" where
  "component_text (Normal s) = s"
| "component_text CurDir = ''.''"
| "component_text ParentDir = ''..''"
| "component_text RootDir = ''/''"

definition path_text :: "path_component list \<Rightarrow> string" where
  "path_text cs = fold (\<lambda>c p. if p = [] then component_text c else path_join p (component_text c)) cs []"

definition normalize_path :: "string \<Rightarrow> string" where
  "normalize_path p = path_text (normalize_components [] (path_components p))"

text \<open>\<^verbatim>\<open>std::path::absolute\<close> refuses the empty path and joins a relative one to the working directory.\<close>

definition parse_normalized_path :: "string \<Rightarrow> string \<Rightarrow> string + string" where
  "parse_normalized_path cwd p =
     (if p = [] then Inl ''cannot make an empty path absolute'' else Inr (normalize_path (path_join cwd p)))"

record hashing_args =
  ha_workspace_path :: string
  ha_bazel_path :: string
  ha_seed_filepaths :: "string option"
  ha_bazel_startup_options :: "string list"
  ha_bazel_command_options :: "string list"
  ha_cquery_command_options :: "string list"
  ha_fine_grained_hash_external_repos :: "string list"
  ha_fine_grained_hash_external_repos_file :: "string option"
  ha_label_only_module_extensions :: "string list"
  ha_isolated_dependency_root :: "string option"
  ha_use_cquery :: bool
  ha_cquery_expression :: "string option"
  ha_keep_going :: bool
  ha_ignored_rule_hashing_attributes :: "string list"
  ha_exclude_external_targets :: bool
  ha_exclude_targets_query :: "string option"
  ha_always_affected_tags :: "string list"

record generate_args =
  ga_hashing :: hashing_args
  ga_content_hash_path :: "string option"
  ga_include_target_type :: bool
  ga_target_type :: "string list"
  ga_dep_edges_file :: "string option"
  ga_modified_filepaths :: "string option"
  ga_partial_graph :: bool
  ga_rebuild_patterns :: "string list"
  ga_base_hashes :: "string option"
  ga_output_path :: "string option"

text \<open>
  What a run reads and calls: files as text, the JSON library, git, git over the temporary index, the copy of the repository's index,
  the working directory, the closure \<^verbatim>\<open>generate\<close> of \<^verbatim>\<open>run_generate_with\<close>, Bazel, and the iteration orders of two hash maps.
\<close>

record 'w cli =
  cl_crates :: crates
  cl_read :: "string \<Rightarrow> string option"
  cl_json :: "bytes \<Rightarrow> json option"
  cl_from_str :: json_parser
  cl_to_string :: "json \<Rightarrow> string"
  cl_to_string_pretty :: "json \<Rightarrow> string"
  cl_explanation_json :: "impact_explanation \<Rightarrow> string"
  cl_package_version :: string
  cl_git :: "'w git"
  cl_git_with_index :: "string list \<Rightarrow> 'w \<Rightarrow> (string + git_output) \<times> 'w"
  cl_stage_index :: "string \<Rightarrow> 'w \<Rightarrow> (string + unit) \<times> 'w"
  cl_cwd :: string
  cl_generate :: "hash_options \<Rightarrow> 'w \<Rightarrow> (string + hash_file_data) \<times> 'w"
  cl_discovery :: "bazel_options \<Rightarrow> 'w discovery"
  cl_bazel_binary :: "string \<Rightarrow> string \<Rightarrow> 'w bazel_mod"
  cl_query :: "bazel_options \<Rightarrow> 'w \<Rightarrow> string \<Rightarrow> string + qtarget list"
  cl_key_order :: "label list \<Rightarrow> label list"
  cl_memo_order :: "label list \<Rightarrow> label list"

datatype cli_error =
    ReadFailed string
  | BadJson string
  | Usage string
  | PartialError partial_error
  | GitError git_error
  | ModelError model_error
  | GenerateError string
  | UnknownTarget unknown_target_error

definition read_string_lines :: "'w cli \<Rightarrow> string \<Rightarrow> cli_error + string list" where
  "read_string_lines e p =
     (case cl_read e p of
        None \<Rightarrow> Inl (ReadFailed p)
      | Some txt \<Rightarrow> Inr (bs_of_list (filter (\<lambda>line. line \<noteq> []) (map str_trim (str_lines txt)))))"

definition read_lines :: "'w cli \<Rightarrow> string option \<Rightarrow> cli_error + string list" where
  "read_lines e p = (case p of None \<Rightarrow> Inr [] | Some file \<Rightarrow> read_string_lines e file)"

definition bazel_options_of :: "'w cli \<Rightarrow> hashing_args \<Rightarrow> bool \<Rightarrow> cli_error + bazel_options" where
  "bazel_options_of e args verb =
     (if ha_fine_grained_hash_external_repos args \<noteq> [] \<and> ha_fine_grained_hash_external_repos_file args \<noteq> None
      then Inl (Usage ''--fineGrainedHashExternalRepos and --fineGrainedHashExternalReposFile are mutually exclusive'')
      else case read_lines e (ha_fine_grained_hash_external_repos_file args) of
             Inl err \<Rightarrow> Inl err
           | Inr in_file \<Rightarrow>
               Inr \<lparr>workspace = ha_workspace_path args, bazel = ha_bazel_path args, startup_options = flatten_options (ha_bazel_startup_options args),
                    command_options = flatten_options (ha_bazel_command_options args), cquery_options = flatten_options (ha_cquery_command_options args),
                    use_cquery = ha_use_cquery args, cquery_expression = ha_cquery_expression args, keep_going = ha_keep_going args,
                    fine_grained_external_repos = bs_of_list (ha_fine_grained_hash_external_repos args @ in_file),
                    label_only_module_extensions = bs_of_list (ha_label_only_module_extensions args),
                    isolated_dependency_root = ha_isolated_dependency_root args, exclude_external_targets = ha_exclude_external_targets args,
                    exclude_targets_query = ha_exclude_targets_query args, no_bazelrc = False, verbose = verb\<rparr>)"

definition read_content_hashes :: "'w cli \<Rightarrow> string option \<Rightarrow> cli_error + (string, string) btree option" where
  "read_content_hashes e p =
     (case p of
        None \<Rightarrow> Inr None
      | Some file \<Rightarrow>
          (case cl_read e file of
             None \<Rightarrow> Inl (ReadFailed file)
           | Some txt \<Rightarrow> (case Option.bind (cl_json e (as_bytes txt)) (de_map de_string) of None \<Rightarrow> Inl (BadJson file) | Some m \<Rightarrow> Inr (Some m))))"

definition hash_options_of :: "'w cli \<Rightarrow> hashing_args \<Rightarrow> string option \<Rightarrow> string option \<Rightarrow> bool \<Rightarrow> bool \<Rightarrow> cli_error + hash_options" where
  "hash_options_of e args content_hash_path modified track verb =
     (case read_content_hashes e content_hash_path of
        Inl err \<Rightarrow> Inl err
      | Inr content \<Rightarrow>
     (case bazel_options_of e args verb of
        Inl err \<Rightarrow> Inl err
      | Inr opts \<Rightarrow>
     (case read_lines e (ha_seed_filepaths args) of
        Inl err \<Rightarrow> Inl err
      | Inr seeds \<Rightarrow>
     (case read_lines e modified of
        Inl err \<Rightarrow> Inl err
      | Inr paths \<Rightarrow>
          Inr \<lparr>bazel_opts = opts, content_hash_map = content, ignored_attributes = bs_of_list (ha_ignored_rule_hashing_attributes args),
               seed_filepaths = seeds, modified_filepaths = paths, track_deps = track,
               always_affected_tags = bs_of_list (ha_always_affected_tags args), partial_tree = None\<rparr>))))"

definition comma_list :: "string list \<Rightarrow> string" where
  "comma_list xs = join '','' (bs_of_list xs)"

definition fingerprint_flags :: "hashing_args \<Rightarrow> bool \<Rightarrow> string list \<Rightarrow> (string, string) btree" where
  "fingerprint_flags args include_type types =
     bt_of_list
       ([(''bazelStartupOptions'', join '' '' (flatten_options (ha_bazel_startup_options args))),
         (''bazelCommandOptions'', join '' '' (flatten_options (ha_bazel_command_options args))),
         (''cqueryCommandOptions'', join '' '' (flatten_options (ha_cquery_command_options args))),
         (''useCquery'', show_bool (ha_use_cquery args)),
         (''cqueryExpression'', case ha_cquery_expression args of None \<Rightarrow> [] | Some expression \<Rightarrow> expression),
         (''includeTargetType'', show_bool include_type),
         (''targetType'', comma_list types),
         (''fineGrainedHashExternalRepos'', comma_list (ha_fine_grained_hash_external_repos args)),
         (''labelOnlyModuleExtensions'', comma_list (ha_label_only_module_extensions args)),
         (''ignoredRuleHashingAttributes'', comma_list (ha_ignored_rule_hashing_attributes args)),
         (''excludeExternalTargets'', show_bool (ha_exclude_external_targets args)),
         (''keepGoing'', show_bool (ha_keep_going args))] @
        (case ha_isolated_dependency_root args of None \<Rightarrow> [] | Some root \<Rightarrow> [(''isolatedDependencyRoot'', root)]))"

text \<open>
  Options that change the hashes of a run and leave its flags, and with them the snapshot fingerprint, as they are.
\<close>

lemma fingerprint_flags_blind:
  "fingerprint_flags (args\<lparr>ha_fine_grained_hash_external_repos_file := file, ha_exclude_targets_query := query, ha_always_affected_tags := tags, ha_seed_filepaths := seeds\<rparr>)
     include_type types = fingerprint_flags args include_type types"
  by (simp add: fingerprint_flags_def)

subsection \<open>The working tree\<close>

type_synonym ('w, 'a) run = "'w \<Rightarrow> (cli_error + 'a) \<times> 'w"

definition run_bind :: "('w, 'a) run \<Rightarrow> ('a \<Rightarrow> ('w, 'b) run) \<Rightarrow> ('w, 'b) run" where
  "run_bind m k w = (case m w of (Inl err, w') \<Rightarrow> (Inl err, w') | (Inr a, w') \<Rightarrow> k a w')"

definition run_lift :: "cli_error + 'a \<Rightarrow> ('w, 'a) run" where
  "run_lift r w = (r, w)"

definition run_git :: "('w \<Rightarrow> (git_error + 'a) \<times> 'w) \<Rightarrow> ('w, 'a) run" where
  "run_git m w = (case m w of (r, w') \<Rightarrow> (map_sum GitError id r, w'))"

definition index_stdout :: "'w cli \<Rightarrow> string list \<Rightarrow> ('w, string) run" where
  "index_stdout e args = run_git (git_stdout ((cl_git e)\<lparr>git_path := cl_git_with_index e\<rparr>) args)"

definition workspace_relative_file :: "'w cli \<Rightarrow> string \<Rightarrow> string \<Rightarrow> string option" where
  "workspace_relative_file e root p =
     (let comps = path_components (path_join (cl_cwd e) p)
      in case rev comps of
           Normal name # upper \<Rightarrow>
             Option.bind (git_canonicalize (cl_git e) (path_text (rev upper))) (\<lambda>parent.
               map_option (\<lambda>relative. replace_char (CHR 0x5C) ''/'' (path_text relative)) (path_strip_prefix root (path_join parent name)))
         | _ \<Rightarrow> None)"

definition snapshot_root :: "'w cli \<Rightarrow> string \<Rightarrow> cli_error + string" where
  "snapshot_root e top_level =
     (case (git_canonicalize (cl_git e) top_level, git_canonicalize (cl_git e) (git_workspace (cl_git e))) of
        (Some root, Some ws) \<Rightarrow> if root = ws then Inr ws else Inl (Usage ''--partialGraph needs the workspace to be the repository root'')
      | _ \<Rightarrow> Inl (Usage ''--partialGraph needs the workspace to be the repository root''))"

definition stage_index :: "'w cli \<Rightarrow> string \<Rightarrow> ('w, unit) run" where
  "stage_index e p w = (case cl_stage_index e p w of (r, w') \<Rightarrow> (map_sum ReadFailed id r, w'))"

definition snapshot_working_tree :: "'w cli \<Rightarrow> string list \<Rightarrow> ('w, tree_index) run" where
  "snapshot_working_tree e excluded =
     run_bind (run_git (git_stdout (cl_git e) [''rev-parse'', ''--show-toplevel''])) (\<lambda>top.
     run_bind (run_lift (snapshot_root e (str_trim top))) (\<lambda>root.
     run_bind (run_git (git_stdout (cl_git e) [''rev-parse'', ''--git-path'', ''index''])) (\<lambda>index.
     run_bind (stage_index e (path_join (git_workspace (cl_git e)) (str_trim index))) (\<lambda>_.
     run_bind (index_stdout e [''add'', ''--all'']) (\<lambda>_.
     let own = List.map_filter (workspace_relative_file e root) excluded in
     run_bind (if own = [] then run_lift (Inr []) else index_stdout e ([''update-index'', ''--force-remove'', ''--''] @ own)) (\<lambda>_.
     run_bind (index_stdout e [''write-tree'']) (\<lambda>out.
     let t = str_trim out in
     if length t \<noteq> 40 then run_lift (Inl (Usage (''git write-tree produced invalid tree '' @ t)))
     else run_git (git_tree_index (cl_git e) t))))))))"

subsection \<open>Generating hashes\<close>

definition read_hash_file :: "'w cli \<Rightarrow> string \<Rightarrow> cli_error + hash_file_data" where
  "read_hash_file e p =
     (case cl_read e p of
        None \<Rightarrow> Inl (ReadFailed p)
      | Some txt \<Rightarrow> map_sum ModelError id (from_slice (cl_json e) (as_bytes txt)))"

definition own_files :: "generate_args \<Rightarrow> string list" where
  "own_files args = List.map_filter id [ga_output_path args, ga_base_hashes args, ga_dep_edges_file args]"

definition partial_refusal :: "generate_args \<Rightarrow> hash_options \<Rightarrow> cli_error option" where
  "partial_refusal args options =
     (case validate_hash_options options of
        Inl err \<Rightarrow> Some (PartialError err)
      | Inr _ \<Rightarrow>
          if ga_content_hash_path args \<noteq> None then Some (Usage ''--partialGraph does not support --contentHashPath'')
          else if ga_modified_filepaths args \<noteq> None then Some (Usage ''--partialGraph does not support --modified-filepaths'')
          else if ga_target_type args \<noteq> [] then Some (Usage ''--partialGraph does not support --targetType'')
          else None)"

text \<open>The full generation over the snapshot, which every failed derivation falls back to.\<close>

definition full_generation :: "'w cli \<Rightarrow> hash_options \<Rightarrow> tree_index \<Rightarrow> ('w, hash_file_data) run" where
  "full_generation e options t w =
     (case cl_generate e (options\<lparr>content_hash_map := Some (content_hashes t), partial_tree := Some t\<rparr>) w of
        (r, w') \<Rightarrow> (map_sum GenerateError id r, w'))"

definition unusable_base :: "generate_args \<Rightarrow> hash_file_data \<Rightarrow> bool" where
  "unusable_base args base \<longleftrightarrow>
     partial base = None \<or> ga_dep_edges_file args \<noteq> None \<and> dep_edges base = [] \<and> hashes base \<noteq> [] \<or> tree base = None"

definition derive_from_base :: "'w cli \<Rightarrow> hash_options \<Rightarrow> string list \<Rightarrow> tree_index \<Rightarrow> string \<Rightarrow> hash_file_data \<Rightarrow> ('w, hash_file_data) run" where
  "derive_from_base e options patterns t base_tree base w =
     (case classify_revisions (cl_git e) base_tree (the (tree_id t)) base t \<lparr>dp_seed_filepaths = seed_filepaths options, dp_rebuild_patterns = patterns\<rparr> w of
        (Inr (Derivable _ _), w') \<Rightarrow>
          (case derive (cl_crates e) base t of
             Inr data \<Rightarrow> (Inr data, w')
           | Inl _ \<Rightarrow> full_generation e options t w')
      | (_, w') \<Rightarrow> full_generation e options t w')"

definition hashes_of_tree :: "'w cli \<Rightarrow> generate_args \<Rightarrow> hash_options \<Rightarrow> string list \<Rightarrow> tree_index \<Rightarrow> ('w, hash_file_data) run" where
  "hashes_of_tree e args options patterns t =
     (case ga_base_hashes args of
        None \<Rightarrow> full_generation e options t
      | Some p \<Rightarrow>
          (case read_hash_file e p of
             Inl err \<Rightarrow> run_lift (Inl err)
           | Inr base \<Rightarrow>
               if unusable_base args base then full_generation e options t
               else if tree base = tree_id t then run_lift (Inr base)
               else derive_from_base e options patterns t (the (tree base)) base))"

definition partial_graph_hashes :: "'w cli \<Rightarrow> generate_args \<Rightarrow> hash_options \<Rightarrow> ('w, hash_file_data) run" where
  "partial_graph_hashes e args options =
     (case partial_refusal args options of
        Some err \<Rightarrow> run_lift (Inl err)
      | None \<Rightarrow>
          (case collect_results (map glob_new (ga_rebuild_patterns args)) of
             Inl err \<Rightarrow> run_lift (Inl (PartialError err))
           | Inr patterns \<Rightarrow> run_bind (snapshot_working_tree e (own_files args)) (hashes_of_tree e args options patterns)))"

datatype written = ToFile string string | ToStdout string

definition write_json :: "'w cli \<Rightarrow> string option \<Rightarrow> json \<Rightarrow> written" where
  "write_json e p j = (if p = None \<or> p = Some ''-'' then ToStdout (cl_to_string e j @ [NL]) else ToFile (the p) (cl_to_string e j))"

definition of_types :: "string list \<Rightarrow> hash_file_data \<Rightarrow> hash_file_data" where
  "of_types types data = (if types = [] then data else data\<lparr>hashes := filter (\<lambda>(_, h). kind h \<in> set types) (hashes data)\<rparr>)"

definition run_generate_with :: "'w cli \<Rightarrow> generate_args \<Rightarrow> bool \<Rightarrow> ('w, hash_file_data \<times> written list) run" where
  "run_generate_with e args verb =
     run_bind (run_lift (hash_options_of e (ga_hashing args) (ga_content_hash_path args) (ga_modified_filepaths args) (ga_dep_edges_file args \<noteq> None) verb)) (\<lambda>options.
     run_bind (if ga_partial_graph args then partial_graph_hashes e args options
               else if ga_base_hashes args \<noteq> None then run_lift (Inl (Usage ''--baseHashes needs --partialGraph''))
               else (\<lambda>w. case cl_generate e options w of (r, w') \<Rightarrow> (map_sum GenerateError id r, w'))) (\<lambda>all_data.
     let data = of_types (ga_target_type args) all_data in
     run_lift (Inr (data,
       write_json e (ga_output_path args) (serialized (cl_crates e) data (ga_include_target_type args \<or> ga_partial_graph args) (ga_partial_graph args \<and> ga_dep_edges_file args \<noteq> None)) #
       (case ga_dep_edges_file args of None \<Rightarrow> [] | Some p \<Rightarrow> [ToFile p (cl_to_string e (ser_map ser_strings (dep_edges data)))])))))"

subsection \<open>Impacted targets\<close>

record impacted_args =
  ia_starting_hashes :: string
  ia_final_hashes :: string
  ia_dep_edges_file :: "string option"
  ia_target_type :: "string list"
  ia_output :: "string option"
  ia_workspace_path :: string
  ia_bazel_path :: string
  ia_bazel_startup_options :: "string list"
  ia_no_bazelrc :: bool
  ia_exclude_external_targets :: "bool option"

definition ensure_same_mode :: "hash_file_data \<Rightarrow> hash_file_data \<Rightarrow> cli_error + unit" where
  "ensure_same_mode from to =
     (if (partial from \<noteq> None) \<noteq> (partial to \<noteq> None) then Inl (Usage ''the starting and final hashes were not generated in the same mode'') else Inr ())"

definition get_bazel_options :: "impacted_args \<Rightarrow> bool \<Rightarrow> bazel_options" where
  "get_bazel_options args verb =
     \<lparr>workspace = ia_workspace_path args, bazel = ia_bazel_path args, startup_options = flatten_options (ia_bazel_startup_options args),
      command_options = [], cquery_options = [], use_cquery = False, cquery_expression = None, keep_going = False,
      fine_grained_external_repos = [], label_only_module_extensions = [], isolated_dependency_root = None,
      exclude_external_targets = False, exclude_targets_query = None, no_bazelrc = ia_no_bazelrc args, verbose = verb\<rparr>"

definition read_dep_edges :: "'w cli \<Rightarrow> string \<Rightarrow> cli_error + (string, string list) btree" where
  "read_dep_edges e p =
     (case cl_read e p of
        None \<Rightarrow> Inl (ReadFailed p)
      | Some txt \<Rightarrow> (case Option.bind (cl_json e (as_bytes txt)) (de_map (de_seq de_string)) of None \<Rightarrow> Inl (BadJson p) | Some edges \<Rightarrow> Inr edges))"

definition ser_distance :: "impacted_target_with_distance \<Rightarrow> json" where
  "ser_distance t = JObj [(''label'', JStr (target t)), (''targetDistance'', JInt (int (target_distance t))), (''packageDistance'', JInt (int (package_distance t)))]"

text \<open>The targets listed with their distances to the edits, for a file of dependency edges.\<close>

definition listed_distances ::
  "'w cli \<Rightarrow> hash_file_data \<Rightarrow> hash_file_data \<Rightarrow> (string, string list) btree \<Rightarrow> string list option \<Rightarrow> bool \<Rightarrow> label list \<Rightarrow> model_error + impacted_target_with_distance list" where
  "listed_distances e from to edges types exclude_external module_impacted =
     (case impacted_targets (hashes from) (hashes to) None False of
        Inl err \<Rightarrow> Inl err
      | Inr hash_impacted \<Rightarrow>
          impacted_targets_with_distances (cl_key_order e) (cl_memo_order e) (distance_base module_impacted (bs_of_list hash_impacted) (hashes from))
            (hashes to) edges types exclude_external)"

definition impacted_output ::
  "'w cli \<Rightarrow> hash_file_data \<Rightarrow> hash_file_data \<Rightarrow> (string, string list) btree option \<Rightarrow> string list option \<Rightarrow> bool \<Rightarrow> label list \<Rightarrow> cli_error + string" where
  "impacted_output e from to edges types exclude_external impacted =
     (case edges of
        Some es \<Rightarrow> map_sum ModelError (\<lambda>ts. cl_to_string e (JArr (map ser_distance ts))) (listed_distances e from to es types exclude_external impacted)
      | None \<Rightarrow> map_sum ModelError (\<lambda>ls. concat (map (\<lambda>l. l @ [NL]) ls)) (filter_and_sort_labels impacted (hashes from) (hashes to) types exclude_external))"

definition write_text :: "string option \<Rightarrow> string \<Rightarrow> written" where
  "write_text p txt = (case p of None \<Rightarrow> ToStdout txt | Some file \<Rightarrow> ToFile file txt)"

definition run_get_impacted :: "'w cli \<Rightarrow> impacted_args \<Rightarrow> bool \<Rightarrow> ('w, written) run" where
  "run_get_impacted e args verb =
     run_bind (run_lift (read_hash_file e (ia_starting_hashes args))) (\<lambda>from.
     run_bind (run_lift (read_hash_file e (ia_final_hashes args))) (\<lambda>to.
     run_bind (run_lift (ensure_same_mode from to)) (\<lambda>_.
     let opts = get_bazel_options args verb; types = (if ia_target_type args = [] then None else Some (ia_target_type args)) in
     run_bind (\<lambda>w. case ia_exclude_external_targets args of
         Some x \<Rightarrow> (Inr x, w)
       | None \<Rightarrow> (case is_bzlmod_enabled (cl_discovery e opts) w of (x, w') \<Rightarrow> (Inr x, w'))) (\<lambda>exclude_external.
     run_bind (run_lift (case ia_dep_edges_file args of None \<Rightarrow> Inr None | Some p \<Rightarrow> map_sum id Some (read_dep_edges e p))) (\<lambda>edges.
     run_bind (\<lambda>w. (map_sum ModelError id (impacted_with_module_changes (cl_from_str e) from to (Some (cl_query e opts w))), w)) (\<lambda>impacted.
     run_bind (run_lift (impacted_output e from to edges types exclude_external impacted)) (\<lambda>txt.
     run_lift (Inr (write_text (ia_output args) txt)))))))))"

subsection \<open>Explaining a target\<close>

record explain_args =
  ea_starting_hashes :: string
  ea_final_hashes :: string
  ea_dep_edges_file :: string
  ea_target :: string
  ea_format :: explain_format
  ea_output :: "string option"
  ea_max_root_causes :: nat
  ea_max_depth :: int

definition explain_inputs :: "'w cli \<Rightarrow> explain_args \<Rightarrow> cli_error + hash_file_data \<times> hash_file_data \<times> (string, string list) btree" where
  "explain_inputs e args =
     (case read_hash_file e (ea_starting_hashes args) of
        Inl err \<Rightarrow> Inl err
      | Inr from \<Rightarrow>
     (case read_hash_file e (ea_final_hashes args) of
        Inl err \<Rightarrow> Inl err
      | Inr to \<Rightarrow>
     (case ensure_same_mode from to of
        Inl err \<Rightarrow> Inl err
      | Inr _ \<Rightarrow> map_sum id (\<lambda>edges. (from, to, edges)) (read_dep_edges e (ea_dep_edges_file args)))))"

definition run_explain :: "'w cli \<Rightarrow> explain_args \<Rightarrow> (cli_error + written) option" where
  "run_explain e args =
     (case explain_inputs e args of
        Inl err \<Rightarrow> Some (Inl err)
      | Inr (from, to, edges) \<Rightarrow>
          Option.bind (explain (hashes from) (hashes to) edges (ea_target args)
              \<lparr>max_depth = (if ea_max_depth args < 0 then None else Some (nat (ea_max_depth args))), max_roots = ea_max_root_causes args\<rparr>) (\<lambda>r.
            case r of
              Inl err \<Rightarrow> Some (Inl (UnknownTarget err))
            | Inr outcome \<Rightarrow> map_option (\<lambda>txt. Inr (write_text (ea_output args) txt)) (render (cl_explanation_json e) (explanation outcome) (ea_format args))))"

subsection \<open>Fingerprint and warmup\<close>

record fingerprint_args =
  fa_hashing :: hashing_args
  fa_include_target_type :: bool
  fa_target_type :: "string list"
  fa_output :: "string option"

definition run_fingerprint :: "'w cli \<Rightarrow> fingerprint_args \<Rightarrow> ('w, written) run" where
  "run_fingerprint e args w =
     (let flags = fingerprint_flags (fa_hashing args) (fa_include_target_type args) (fa_target_type args);
          root = ha_workspace_path (fa_hashing args)
      in case gather (cl_bazel_binary e (ha_bazel_path (fa_hashing args)) root) (cl_read e) (cl_package_version e) root flags w of
           (inputs, w') \<Rightarrow>
             (let result = compute (cl_crates e) inputs;
                  txt = cl_to_string_pretty e (JObj [(''components'', ser_map JStr (fr_components result)), (''fingerprint'', JStr (fr_fingerprint result)),
                          (''flags'', ser_map JStr flags)]) @ [NL]
              in (Inr (if fa_output args = None \<or> fa_output args = Some ''-'' then ToStdout txt else ToFile (the (fa_output args)) txt), w')))"

record warmup_args =
  wa_generate :: generate_args
  wa_base_hashes :: string
  wa_fingerprint_output :: string

definition run_warmup_with :: "'w cli \<Rightarrow> warmup_args \<Rightarrow> bool \<Rightarrow> ('w, written list) run" where
  "run_warmup_with e args verb =
     run_bind (run_generate_with e ((wa_generate args)\<lparr>ga_output_path := Some (wa_base_hashes args)\<rparr>) verb) (\<lambda>(data, files).
     run_bind (run_fingerprint e
       \<lparr>fa_hashing = ga_hashing (wa_generate args), fa_include_target_type = ga_include_target_type (wa_generate args),
        fa_target_type = ga_target_type (wa_generate args), fa_output = Some (wa_fingerprint_output args)\<rparr>) (\<lambda>file.
     run_lift (Inr (files @ [file]))))"

subsection \<open>Normalised paths\<close>

text \<open>The components of a path that is absolute and has no step up.\<close>

definition clean_components :: "path_component list \<Rightarrow> bool" where
  "clean_components cs \<longleftrightarrow> (\<exists>segs. cs = RootDir # map Normal segs \<and> (\<forall>seg \<in> set segs. path_segment seg = [Normal seg] \<and> CHR ''/'' \<notin> set seg))"

lemma path_segment_Normal: "c \<in> set (path_segment seg) \<Longrightarrow> c = ParentDir \<or> c = Normal seg \<and> path_segment seg = [Normal seg]"
  by (auto simp: path_segment_def split: if_splits)

lemma absolute_components:
  assumes "is_absolute p"
  shows "\<exists>cs. path_components p = RootDir # cs \<and> (\<forall>c \<in> set cs. c = ParentDir \<or> (\<exists>seg. c = Normal seg \<and> path_segment seg = [Normal seg] \<and> CHR ''/'' \<notin> set seg))"
  using assms path_segment_Normal split_on_pieces by (fastforce simp: path_components_def Let_def)

lemma clean_snoc: "clean_components cs \<Longrightarrow> path_segment seg = [Normal seg] \<Longrightarrow> CHR ''/'' \<notin> set seg \<Longrightarrow> clean_components (cs @ [Normal seg])"
  unfolding clean_components_def by (elim exE conjE, rule_tac x = "segs @ [seg]" in exI) auto

lemma clean_butlast: "clean_components cs \<Longrightarrow> last cs \<noteq> RootDir \<Longrightarrow> clean_components (butlast cs)"
  unfolding clean_components_def by (elim exE conjE, rule_tac x = "butlast segs" in exI) (auto simp: map_butlast dest: in_set_butlastD split: if_splits)

lemma normalize_clean:
  "clean_components normalized \<Longrightarrow> \<forall>c \<in> set cs. c = ParentDir \<or> (\<exists>seg. c = Normal seg \<and> path_segment seg = [Normal seg] \<and> CHR ''/'' \<notin> set seg) \<Longrightarrow>
   clean_components (normalize_components normalized cs)"
  by (induction normalized cs rule: normalize_components.induct) (auto simp: clean_snoc clean_butlast)

lemma join_last: "segs \<noteq> [] \<Longrightarrow> \<forall>seg \<in> set segs. seg \<noteq> [] \<Longrightarrow> join sep segs \<noteq> [] \<and> last (join sep segs) = last (last segs)"
  by (induction sep segs rule: join.induct) auto

lemma path_text_clean: "path_text (RootDir # map Normal segs) = ''/'' @ join ''/'' segs" if "\<forall>seg \<in> set segs. path_segment seg = [Normal seg] \<and> CHR ''/'' \<notin> set seg"
  using that
proof (induction segs rule: rev_induct)
  case (snoc seg segs)
  have seg: "seg \<noteq> []" "\<not> starts_with ''/'' seg" using snoc.prems by (auto simp: path_segment_def starts_with_iff)
  have "last (join ''/'' segs) \<noteq> CHR ''/'' \<and> join ''/'' segs \<noteq> []" if "segs \<noteq> []"
  proof -
    have nonempty: "\<forall>seg \<in> set segs. seg \<noteq> []" using snoc.prems by (force simp: path_segment_def)
    then have "last (last segs) \<in> set (last segs)" "CHR ''/'' \<notin> set (last segs)" using last_in_set [OF that] snoc.prems by auto
    then show ?thesis using join_last [OF that nonempty] by metis
  qed
  then show ?case using snoc seg by (cases "segs = []") (auto simp: path_text_def path_join_def join_append)
qed (simp add: path_text_def)

lemma components_of_clean:
  assumes "clean_components cs"
  shows "path_components (path_text cs) = cs"
proof -
  obtain segs where cs: "cs = RootDir # map Normal segs" and segs: "\<forall>seg \<in> set segs. path_segment seg = [Normal seg] \<and> CHR ''/'' \<notin> set seg"
    using assms unfolding clean_components_def by blast
  have "split_on (CHR ''/'') (''/'' @ join ''/'' segs) = [] # (if segs = [] then [[]] else segs)"
    using segs split_on_join [of segs "CHR ''/''"] by (auto split: list.splits)
  moreover have "concat (map path_segment segs) = map Normal segs" using segs by (induction segs) auto
  ultimately show ?thesis unfolding cs path_text_clean [OF segs] by (auto simp: path_components_def Let_def is_absolute_def starts_with_iff path_segment_def)
qed

lemma normalize_components_normal: "normalize_components normalized (map Normal segs) = normalized @ map Normal segs"
  by (induction segs arbitrary: normalized) auto

text \<open>
  A path argument names one absolute path. Resolved against an absolute working directory, it is absolute, has no \<^verbatim>\<open>.\<close> and no \<^verbatim>\<open>..\<close>
  left in it, and resolving it again, from any directory, changes nothing.
\<close>

theorem parse_normalized_path_canonical:
  assumes "is_absolute cwd" "parse_normalized_path cwd p = Inr q"
  shows "is_absolute q \<and> CurDir \<notin> set (path_components q) \<and> ParentDir \<notin> set (path_components q) \<and> parse_normalized_path cwd' q = Inr q"
proof -
  have "is_absolute (path_join cwd p)" using assms(1) by (auto simp: path_join_def is_absolute_def starts_with_iff)
  then obtain cs where cs: "path_components (path_join cwd p) = RootDir # cs" and ok: "\<forall>c \<in> set cs. c = ParentDir \<or> (\<exists>seg. c = Normal seg \<and> path_segment seg = [Normal seg] \<and> CHR ''/'' \<notin> set seg)"
    using absolute_components by blast
  define norm where "norm = normalize_components [RootDir] cs"
  have clean: "clean_components norm" unfolding norm_def by (rule normalize_clean [OF _ ok]) (simp add: clean_components_def)
  then obtain segs where segs: "norm = RootDir # map Normal segs" "\<forall>seg \<in> set segs. path_segment seg = [Normal seg] \<and> CHR ''/'' \<notin> set seg"
    unfolding clean_components_def by blast
  have q: "q = path_text norm" using assms(2) cs by (auto simp: parse_normalized_path_def normalize_path_def norm_def split: if_splits)
  have comps: "path_components q = norm" unfolding q by (rule components_of_clean [OF clean])
  have abs: "is_absolute q" "q \<noteq> []" unfolding q segs(1) path_text_clean [OF segs(2)] by (simp_all add: is_absolute_def starts_with_iff)
  have "normalize_path q = path_text (normalize_components [] norm)" by (simp add: normalize_path_def comps)
  then have "normalize_path q = q" unfolding q segs(1) by (simp add: normalize_components_normal)
  moreover have "path_join cwd' q = q" using abs by (simp add: path_join_def is_absolute_def)
  ultimately show ?thesis using abs comps segs(1) by (auto simp: parse_normalized_path_def)
qed

subsection \<open>Listings agree\<close>

lemma distance_base_set: "distance_base impacted (bs_of_list xs) from = distance_base impacted xs from"
  by (simp add: distance_base_def)

lemma listed_distances_agree:
  assumes "bt_inv (hashes to)" "impacted_with_module_changes from_str from to (Some q) = Inr impacted" "\<forall>l \<in> set impacted. bt_get (hashes to) l \<noteq> None"
    and "\<And>labels. impacted_targets (hashes from) (hashes to) None False = Inr labels \<Longrightarrow>
      acyclic_impact edges (impacted_types (distance_base impacted labels (hashes from)) (hashes to))"
    and "\<And>ls. mset (cl_key_order e ls) = mset ls" "\<And>ls. mset (cl_memo_order e ls) = mset ls"
  shows "map_sum id (map target) (listed_distances e from to edges types x impacted) = filter_and_sort_labels impacted (hashes from) (hashes to) types x"
proof -
  obtain labels where l: "impacted_targets (hashes from) (hashes to) None False = Inr labels" using all_impacted_targets [OF assms(1)] by blast
  have "set labels \<subseteq> set impacted" using module_changes_widen [OF assms(2) l] by simp
  from distances_list_impacted [OF assms(1) l this assms(3) assms(4) [OF l] assms(5,6), of types x] show ?thesis
    by (simp add: listed_distances_def l distance_base_set)
qed


subsection \<open>Derived and generated files\<close>


subsection \<open>Explaining always answers\<close>

text \<open>
  \<^verbatim>\<open>explain\<close> always comes to an end with an error or with text to write, for every graph, format and limit.
\<close>

theorem run_explain_returns: "\<exists>r. run_explain e args = Some r"
proof (cases "explain_inputs e args")
  case inputs: (Inr inputs)
  obtain f t es where i: "inputs = (f, t, es)" by (metis surj_pair)
  let ?limits = "\<lparr>max_depth = (if ea_max_depth args < 0 then None else Some (nat (ea_max_depth args))), max_roots = ea_max_root_causes args\<rparr>"
  obtain r where r: "explain (hashes f) (hashes t) es (ea_target args) ?limits = Some r" using explain_total by blast
  show ?thesis
  proof (cases r)
    case (Inr outcome)
    obtain shown where "render (cl_explanation_json e) (explanation outcome) (ea_format args) = Some shown"
      using render_explanation_ends_with_newline r Inr by blast
    then show ?thesis using inputs i r Inr by (simp add: run_explain_def)
  qed (use inputs i r in \<open>simp add: run_explain_def\<close>)
qed (simp add: run_explain_def)

subsection \<open>Witnesses\<close>

theorem parse_normalized_path_canonical_witness:
  "parse_normalized_path ''/w'' ''./a/../b'' = Inr ''/w/b'' \<and> parse_normalized_path ''/elsewhere'' ''/w/b'' = Inr ''/w/b''"
proof -
  have p: "parse_normalized_path ''/w'' ''./a/../b'' = Inr ''/w/b''" by code_simp
  have "is_absolute ''/w''" by code_simp
  then show ?thesis using p parse_normalized_path_canonical [OF _ p] by blast
qed

definition cli_git_answer :: "string list \<Rightarrow> unit \<Rightarrow> (string + git_output) \<times> unit" where
  "cli_git_answer args w =
     (Inr \<lparr>go_success = True,
           go_stdout = (if args = [''rev-parse'', ''--show-toplevel''] then ''/w'' else if hd args = ''ls-tree'' then [] else replicate 40 (CHR ''t'')),
           go_stderr = []\<rparr>, w)"

definition cli_ref :: "unit cli" where
  "cli_ref =
     \<lparr>cl_crates = crates_ref, cl_read = (\<lambda>p. if p \<in> {''from'', ''to'', ''edges''} then Some p else None),
      cl_json = (\<lambda>bs. if bs = as_bytes ''to'' then Some (JObj [(''//a:x'', JStr ''Rule#1~2'')]) else Some (JObj [])),
      cl_from_str = (\<lambda>_. None), cl_to_string = (\<lambda>_. ''[]''), cl_to_string_pretty = (\<lambda>_. ''{}''), cl_explanation_json = (\<lambda>_. ''{}''), cl_package_version = ''1'',
      cl_git = letters_git\<lparr>git_path := cli_git_answer\<rparr>, cl_git_with_index = cli_git_answer, cl_stage_index = (\<lambda>_ w. (Inr (), w)), cl_cwd = ''/w'',
      cl_generate = (\<lambda>options w. (Inr (hash_file_default\<lparr>partial := Some sample_recipes,
        tree := Option.bind (partial_tree options) tree_id\<rparr>), w)),
      cl_discovery = (\<lambda>_. graph_discovery ''{}''), cl_bazel_binary = (\<lambda>_ _. graph_bazel ''{}''), cl_query = (\<lambda>_ _ _. Inl []), cl_key_order = rev, cl_memo_order = rev\<rparr>"

definition ref_args :: impacted_args where
  "ref_args = \<lparr>ia_starting_hashes = ''from'', ia_final_hashes = ''to'', ia_dep_edges_file = Some ''edges'', ia_target_type = [], ia_output = None,
     ia_workspace_path = ''/w'', ia_bazel_path = ''bazel'', ia_bazel_startup_options = [], ia_no_bazelrc = False, ia_exclude_external_targets = Some False\<rparr>"

definition ref_to :: "(label, target_hash) btree" where
  "ref_to = [(''//a:x'', \<lparr>kind = ''Rule'', hash = digest.Text ''1'', direct_hash = digest.Text ''2''\<rparr>)]"

lemma ref_reads:
  "read_hash_file cli_ref (ia_starting_hashes ref_args) = Inr hash_file_default"
  "read_hash_file cli_ref (ia_final_hashes ref_args) = Inr (hash_file_default\<lparr>hashes := ref_to\<rparr>)"
  "ia_dep_edges_file ref_args = Some ''edges''" "read_dep_edges cli_ref ''edges'' = Inr []"
  by code_simp+

lemma ref_plain: "run_get_impacted cli_ref (ref_args\<lparr>ia_dep_edges_file := None\<rparr>) False () = (Inr (ToStdout (''//a:x'' @ [NL])), ())"
  by code_simp

lemma ref_known:
  assumes "impacted_with_module_changes (cl_from_str cli_ref) hash_file_default (hash_file_default\<lparr>hashes := ref_to\<rparr>)
      (Some (cl_query cli_ref (get_bazel_options ref_args False) w)) = Inr impacted"
  shows "(\<forall>l \<in> set impacted. bt_get ref_to l \<noteq> None) \<and>
    (\<forall>labels. impacted_targets [] ref_to None False = Inr labels \<longrightarrow> acyclic_impact [] (impacted_types (distance_base impacted labels []) ref_to))"
proof -
  have l: "impacted_targets [] ref_to None False = Inr [''//a:x'']" by code_simp
  have "bs_of_list [''//a:x''] = [''//a:x'']" by code_simp
  then have "impacted = [''//a:x'']"
    using assms l by (simp add: impacted_with_module_changes_def impacted_with_module_query_def hash_file_default_def)
  moreover have "hop_deps [] types lbl = []" for types lbl by (simp add: hop_deps_def impacted_deps_def)
  then have "acyclic_impact [] types" for types by (auto simp: acyclic_impact_def usize_max_def intro: accp.accI)
  ultimately show ?thesis by (simp add: ref_to_def)
qed


definition ref_generate :: generate_args where
  "ref_generate = \<lparr>ga_hashing = \<lparr>ha_workspace_path = ''/w'', ha_bazel_path = ''bazel'', ha_seed_filepaths = None, ha_bazel_startup_options = [],
       ha_bazel_command_options = [], ha_cquery_command_options = [], ha_fine_grained_hash_external_repos = [],
       ha_fine_grained_hash_external_repos_file = None, ha_label_only_module_extensions = [], ha_isolated_dependency_root = None,
       ha_use_cquery = False, ha_cquery_expression = None, ha_keep_going = False, ha_ignored_rule_hashing_attributes = [],
       ha_exclude_external_targets = False, ha_exclude_targets_query = None, ha_always_affected_tags = []\<rparr>,
     ga_content_hash_path = None, ga_include_target_type = False, ga_target_type = [], ga_dep_edges_file = None, ga_modified_filepaths = None,
     ga_partial_graph = True, ga_rebuild_patterns = [''*.lock''], ga_base_hashes = Some ''from'', ga_output_path = Some ''out.json''\<rparr>"

definition ref_options :: hash_options where
  "ref_options = projr (hash_options_of cli_ref (ga_hashing ref_generate) None None False False)"

lemma ref_snapshot:
  "snapshot_working_tree cli_ref (own_files ref_generate) () = (Inr \<lparr>entries = [], tree_id = Some (replicate 40 (CHR ''t''))\<rparr>, ())"
  "partial_refusal ref_generate ref_options = None" "[] \<notin> set (ga_rebuild_patterns ref_generate)"
  "read_hash_file cli_ref ''from'' = Inr hash_file_default" "ga_base_hashes ref_generate = Some ''from''"
  by code_simp+


end
