(* ===== verification/Spec2Isabelle.thy ===== *)
theory Spec2Isabelle
  imports Classify Module_Graph Memory_Cache Cache_Key Cancel Hash_Change Pipeline Service_Hits Units Commands
begin

text \<open>
  \<^bold>\<open>bazel-diff.\<close> The program hashes every target of a Bazel workspace at a revision and compares two such hash files to
  find the targets a change impacts. A command line (\<^verbatim>\<open>src/main.rs\<close>) writes and compares hash files; a server (\<^verbatim>\<open>src/server.rs\<close>)
  does the same for revisions of a git clone, over HTTP, through three tiers of cached hash files. Hashes come from a
  generation, which asks Bazel for the targets (\<^verbatim>\<open>src/bazel.rs\<close>) and digests them (\<^verbatim>\<open>src/hash.rs\<close>), or, in partial-graph
  mode, from the derivation of a revision from an entry generated before (\<^verbatim>\<open>src/partial.rs\<close>), which asks Bazel nothing.

  The development models these parts on the source's own data and control flow: a struct is a record, an enum a datatype, a \<^verbatim>\<open>Result\<close> a sum whose left side is
  the error, a \<^verbatim>\<open>BTreeMap\<close> an association list in key order, a byte string a list of 8-bit words or of characters.
  Code outside the repository is an argument: SHA-256 and hex (\<^verbatim>\<open>Crates\<close>), the JSON parser, the protobuf decoder, git, Bazel, the file system, the clock.
  Stateful callers thread a world of any type through each call, in the order of the code.

  \<^bold>\<open>Shared theories.\<close>
  \<^item> \<^verbatim>\<open>Prelude\<close>: Rust byte strings and the \<^verbatim>\<open>str\<close> methods the code calls, \<^verbatim>\<open>Result\<close>, the lemma collections.
  \<^item> \<^verbatim>\<open>Ordered_Map\<close>: ordered maps and sets, with the contract of a store as the locales \<^verbatim>\<open>map_store\<close> and \<^verbatim>\<open>ordered_store\<close>, interpreted on the association lists every component uses.
  \<^item> \<^verbatim>\<open>Memo_Walk\<close>: the depth-first walk with a memo table and a stack, as the locales \<^verbatim>\<open>stacked_walk\<close> and \<^verbatim>\<open>memo_walk\<close>. It is interpreted on the evaluator of recipes, the distances and the hashing walk, so that each is shown to compute its recursive specification.
  \<^item> \<^verbatim>\<open>Crates\<close>, \<^verbatim>\<open>Labels\<close>, \<^verbatim>\<open>Options\<close>: third-party functions, labels, the options of a run.

  \<^bold>\<open>Hashes and their files (model.rs, cache.rs).\<close>
  \<^item> \<^verbatim>\<open>Target_Hash\<close>, \<^verbatim>\<open>Hash_File\<close>: digests, target hashes and the two shapes of a hash file, with their round trips.
  \<^item> \<^verbatim>\<open>Impact\<close>: \<^verbatim>\<open>impacted_targets\<close>, \<^verbatim>\<open>filter_and_sort_labels\<close> and the distances, each characterised without its loops and tables; distances are least numbers of steps, and the listing with distances has the labels of the listing without.
  \<^item> \<^verbatim>\<open>Cache_Key\<close>: the key of a cached entry and what it separates; two collisions of the encoding are findings.

  \<^bold>\<open>Generation (hash.rs).\<close>
  \<^item> \<^verbatim>\<open>Rule_Definition\<close>: the digest of a rule definition and the inputs of a rule.
  \<^item> \<^verbatim>\<open>Hash_Walk\<close>, \<^verbatim>\<open>Hash_Total\<close>, \<^verbatim>\<open>Hash_Reference\<close>, \<^verbatim>\<open>Hash_Change\<close>: the walk that digests every rule, with its shared tables and cycle handling. It returns on every graph; without cycles it computes the reference digest; a change below a rule moves its digest, and without one the digest stays.
  \<^item> \<^verbatim>\<open>Aggregate\<close>, \<^verbatim>\<open>Hash_Targets\<close>: the whole of \<^verbatim>\<open>hash_targets_with_environment\<close>, from the targets of a query to the hash file.
  \<^item> \<^verbatim>\<open>Sources\<close>: \<^verbatim>\<open>SourceHasher\<close> and \<^verbatim>\<open>ExternalRepoResolver\<close>. The digest of a source moves exactly when what is at its place does; the memo of resolved repositories is invisible, by the locale \<^verbatim>\<open>memo_call\<close> that it interprets.

  \<^bold>\<open>Partial-graph mode (partial.rs).\<close>
  \<^item> \<^verbatim>\<open>Tree_Index\<close>, \<^verbatim>\<open>Recipes\<close>, \<^verbatim>\<open>Evaluate\<close>: the listing of a git tree, the recipes a generation records and their evaluation at another tree, with the specification \<^verbatim>\<open>rule_sem\<close>.
  \<^item> \<^verbatim>\<open>Derive\<close>: a derivation gives the entry a generation would give.
  \<^item> \<^verbatim>\<open>Classify\<close>: when a diff allows a derivation, which sources it moves, and the glob patterns that forbid it.
  \<^item> \<^verbatim>\<open>Pipeline\<close>: generation, derivation and comparison joined; the theorem of this file is about that composition.

  \<^bold>\<open>Explanations (explain.rs).\<close> \<^verbatim>\<open>Explain\<close>, \<^verbatim>\<open>Explain_Walk\<close>, \<^verbatim>\<open>Explain_Answer\<close>, \<^verbatim>\<open>Render\<close>: the walk to the root causes of an impacted
  target finds exactly the directly changed targets above it, at their least distance; every answer renders to whole lines in each format.

  \<^bold>\<open>Bazel (bazel.rs, module_graph.rs, fingerprint.rs).\<close>
  \<^item> \<^verbatim>\<open>Query_Target\<close>, \<^verbatim>\<open>Query_Stream\<close>: the targets of a query, the framing of the stream they come in, and their decoding in batches.
  \<^item> \<^verbatim>\<open>Module_Edges\<close>, \<^verbatim>\<open>Module_Graph\<close>: the module graph and the targets a changed module adds; module changes never narrow an answer.
  \<^item> \<^verbatim>\<open>Mod_Calls\<close>, \<^verbatim>\<open>Mod_Answers\<close>: \<^verbatim>\<open>bazel mod\<close> calls over repository names, with chunking and halving. They return whatever Bazel answers; when Bazel fails exactly for broken extensions, exactly the broken repositories are left out, and a target that needs one is reported.
  \<^item> \<^verbatim>\<open>Repositories\<close>, \<^verbatim>\<open>Discovery\<close>: repositories become targets, and which repositories there are. Every repository behind an imported extension is found, bulk and single reads give the same records, definitions do not depend on the checkout.
  \<^item> \<^verbatim>\<open>Isolated\<close>, \<^verbatim>\<open>Query_All\<close>: \<^verbatim>\<open>--isolatedDependencyRoot\<close> and the whole of \<^verbatim>\<open>query_all_targets_with\<close>. An isolated root is accepted only when nothing outside reads it and discovery was complete; its readers depend on its hub.
  \<^item> \<^verbatim>\<open>Bazel_State\<close>: the fingerprint of the external dependencies, and the inputs of the snapshot fingerprint.

  \<^bold>\<open>Git, server and command line (git.rs, server.rs, cancel.rs, main.rs).\<close>
  \<^item> \<^verbatim>\<open>Git\<close>, \<^verbatim>\<open>Tracked_Packages\<close>, \<^verbatim>\<open>Units\<close>: git commands, untracked packages, durations and sizes.
  \<^item> \<^verbatim>\<open>Memory_Cache\<close>, \<^verbatim>\<open>Service\<close>, \<^verbatim>\<open>Service_Tiers\<close>, \<^verbatim>\<open>Service_Hits\<close>: the tiers and the retrieval through them. The locale \<^verbatim>\<open>tier\<close> states what a tier owes; memory, disk and shared store interpret it. What is true of every entry a revision produces is true of every entry served, over all reachable states of a server.
  \<^item> \<^verbatim>\<open>Query_Server\<close>, \<^verbatim>\<open>Query_Answers\<close>: requests, comparison, routing and statuses.
  \<^item> \<^verbatim>\<open>Cancel\<close>: the cancellation token as a step relation over interleaved threads; after a cancellation no child survives and the workers end.
  \<^item> \<^verbatim>\<open>Commands\<close>: the commands after argument parsing, with the snapshot of the working tree. A partial-graph run always ends with hashes of the working tree or a refusal; listings with and without distances agree.

  \<^bold>\<open>Bounds and fuel.\<close> The hashing walk recurses with fuel one above the number of rule nodes, which \<^verbatim>\<open>Hash_Total\<close> shows to be enough on every graph, because
  a node on the stack is not entered again. Decoding a delimited file has the length of its input as fuel, since every record takes a byte. The walks of
  an explanation and the calls over repositories are partial functions whose missing value stands for not returning; they are shown to return. Lengths, sizes and distances
  keep the width of the code (64 bits) where it wraps, saturates or refuses. The reference hash of the witnesses is a checksum; no theorem assumes that SHA-256 is injective beyond the texts it names.

  \<^bold>\<open>Not modelled.\<close> The S3, GCS and Nexus clients, the HTTP library, metrics and process memory, clap, the generated protobuf code and the operating system's processes are third-party services or pure I/O;
  the remote tier, the decoders and the processes are parameters. The configuration of \<^verbatim>\<open>serve\<close>, log output, failures to write an output file and behaviour on Windows are left out.
  \<^verbatim>\<open>String::from_utf8_lossy\<close> is the identity on the bytes given to it, and whitespace is that of ASCII.
\<close>

text \<open>
  C1: between an entry generated in partial-graph mode and one derived from it at another tree, the comparison reports a rule as
  impacted exactly when the digest of a source moved that the rule, or a rule it depends on through any number of
  steps, reads. The recipes are evaluable at both trees (their dependencies have no cycle and every name in them is known), and
  SHA-256 does not collide on what the two evaluations hash.
\<close>

theorem impacted_rules_exact:
  assumes "hash_targets_with_environment hi targets definitions = Inr base"
    and "partial_tree (hi_options hi) = Some t1" "partial base = Some rcp"
    and "derive (hi_crates hi) base t2 = Inr derived" "(k, ''Rule'') \<in> set (kinds_of (hashes base))"
    and "evaluable (hi_crates hi) rcp (kinds_of (hashes base)) t1" "evaluable (hi_crates hi) rcp (kinds_of (hashes base)) t2"
    and "crates_ok (hi_crates hi)" "no_collision (hi_crates hi) rcp (kinds_of (hashes base)) t1 t2"
  shows "\<exists>impacted. impacted_targets (hashes base) (hashes derived) None False = Inr impacted \<and>
    (k \<in> set impacted \<longleftrightarrow>
      (\<exists>k' s. depends_on (eval_env_of (hi_crates hi) rcp (kinds_of (hashes base)) t1) k k' \<and>
        reads_source (eval_env_of (hi_crates hi) rcp (kinds_of (hashes base)) t1) k' s \<and>
        source_value (eval_env_of (hi_crates hi) rcp (kinds_of (hashes base)) t1) s \<noteq>
        source_value (eval_env_of (hi_crates hi) rcp (kinds_of (hashes base)) t2) s))"
proof (rule impacted_rule_iff [OF assms(8,6,7) _ _ _ assms(5,9)])
  note base = generated_entry_evaluates [OF assms(1-3)]
  show "evaluate (hi_crates hi) rcp (kinds_of (hashes base)) t1 = Inr (hashes base)" by (rule base(1))
  show d: "evaluate (hi_crates hi) rcp (kinds_of (hashes base)) t2 = Inr (hashes derived)"
    using assms(3,4) by (auto simp: derive_def split: sum.splits)
  have "kinds_of (hashes derived) = kinds_of (hashes base)" using kinds_of_evaluate [OF d] base(2) by simp
  then show "bt_inv (hashes derived)" using base(2) by (metis bt_inv_kinds_of)
qed

theorem impacted_rules_exact_witness:
  "\<exists>base derived impacted. hash_targets_with_environment (pipeline_inputs crates_ref) pipeline_query [] = Inr base \<and>
     derive crates_ref base sample_tree_edited = Inr derived \<and>
     impacted_targets (hashes base) (hashes derived) None False = Inr impacted \<and> ''//a:bin'' \<in> set impacted"
proof -
  obtain base where b: "hash_targets_with_environment (pipeline_inputs crates_ref) pipeline_query [] = Inr base"
      "partial base = Some pipeline_recipes" "kinds_of (hashes base) = sample_targets"
    by (rule pipeline_run)
  obtain derived where d: "derive crates_ref base sample_tree_edited = Inr derived"
    using evaluate_returns [OF pipeline_evaluable, of sample_tree_edited] b by (auto simp: derive_def)
  have crates: "hi_crates (pipeline_inputs crates_ref) = crates_ref" "partial_tree (hi_options (pipeline_inputs crates_ref)) = Some sample_tree"
    by (simp_all add: pipeline_inputs_def sample_hash_inputs_def)
  have "''//a:lib'' \<in> set (rule_deps (pipeline_env sample_tree) ''//a:bin'')" by (simp add: rule_deps_def pipeline_recipes_eq)
  then have dep: "depends_on (pipeline_env sample_tree) ''//a:bin'' ''//a:lib''" by (rule depends_on_step) simp
  have reads: "reads_source (pipeline_env sample_tree) ''//a:lib'' ''//a:x.txt''" by (simp add: reads_source_def pipeline_rules)
  have "source_value (pipeline_env sample_tree) ''//a:x.txt'' \<noteq> source_value (pipeline_env sample_tree_edited) ''//a:x.txt''"
    by (simp add: pipeline_source_digests)
  moreover have "(''//a:bin'', ''Rule'') \<in> set sample_targets" by (simp add: sample_targets_def)
  ultimately show ?thesis
    using impacted_rules_exact [OF b(1) crates(2) b(2), unfolded crates b(3), OF d _ pipeline_evaluable pipeline_evaluable crates_ref_ok pipeline_no_collision]
      b(1) d dep reads by blast
qed

end
